(* ===== verification/Prelude.thy ===== *)
theory Prelude
  imports Complex_Main "HOL-Library.Word" "HOL-Library.Monad_Syntax"
begin

text \<open>
  Shared vocabulary of the development: names for the machine types of the Rust
  sources, hash maps with an explicit iteration order, the text operations the
  sources use, and the two interfaces that several components share (a lifecycle
  of states and a machine that keeps an invariant).
\<close>

section \<open>Names of types\<close>

text \<open>
  \<open>Instant\<close> and \<open>DateTime<Utc>\<close> are read from a clock outside the program, so every
  operation that reads the clock takes the time it read as an argument. Both are
  counted in nanoseconds; a wall-clock time may lie before the epoch.
\<close>

type_synonym instant = nat
type_synonym duration = nat
type_synonym utc = int

text \<open>A UUID is only stored and compared; a fresh one is an argument of what creates it.\<close>

type_synonym uuid = nat

text \<open>
  User-facing text is a list of Unicode scalar values (what \<open>chars()\<close> yields); identifiers
  and names that the program compares with ASCII literals are Isabelle strings.
\<close>

type_synonym utext = "nat list"

abbreviation secs :: "nat \<Rightarrow> duration" where
  "secs n \<equiv> n * 1000000000"

text \<open>\<open>Result<T, E>\<close> is \<open>E + T\<close>: \<open>Inl\<close> is \<open>Err\<close>, \<open>Inr\<close> is \<open>Ok\<close>.\<close>

type_synonym ('e, 'a) result = "'e + 'a"

definition is_ok :: "('e, 'a) result \<Rightarrow> bool" where
  "is_ok r = (case r of Inl _ \<Rightarrow> False | Inr _ \<Rightarrow> True)"

lemma is_ok_simps [simp]: "is_ok (Inr x)" "\<not> is_ok (Inl e)"
  by (simp_all add: is_ok_def)

lemma is_ok_iff: "is_ok r \<longleftrightarrow> (\<exists>x. r = Inr x)"
  by (cases r) auto

text \<open>An ASCII literal as user-facing text.\<close>

definition utext_of :: "string \<Rightarrow> utext" where
  "utext_of s = map of_char s"

section \<open>Collections of facts\<close>

named_theorems frame_simps \<open>fields an operation leaves alone\<close>
named_theorems keeps_intros \<open>operations that keep an invariant\<close>

section \<open>Hash maps with an iteration order\<close>

text \<open>
  A \<open>HashMap<K, V>\<close> is a partial function. Rust does not fix the order in which
  \<open>values()\<close>, \<open>keys()\<close> and \<open>iter()\<close> yield the entries, so an operation that iterates
  takes the order as a list of keys; \<open>iterates ks m\<close> says that the list names every
  key of the map once.
\<close>

definition iterates :: "'k list \<Rightarrow> ('k \<rightharpoonup> 'v) \<Rightarrow> bool" where
  "iterates ks m \<longleftrightarrow> distinct ks \<and> set ks = dom m"

definition map_values :: "'k list \<Rightarrow> ('k \<rightharpoonup> 'v) \<Rightarrow> 'v list" where
  "map_values ks m = List.map_filter m ks"

definition map_entries :: "'k list \<Rightarrow> ('k \<rightharpoonup> 'v) \<Rightarrow> ('k \<times> 'v) list" where
  "map_entries ks m = List.map_filter (\<lambda>k. map_option (Pair k) (m k)) ks"

definition map_retain :: "('v \<Rightarrow> bool) \<Rightarrow> ('k \<rightharpoonup> 'v) \<Rightarrow> ('k \<rightharpoonup> 'v)" where
  "map_retain P m = (\<lambda>k. case m k of None \<Rightarrow> None | Some v \<Rightarrow> if P v then Some v else None)"

lemma iteratesD: "iterates ks m \<Longrightarrow> distinct ks" "iterates ks m \<Longrightarrow> set ks = dom m"
  by (simp_all add: iterates_def)

lemma map_values_Nil [simp]: "map_values [] m = []"
  by (simp add: map_values_def)

lemma map_values_Cons [simp]:
  "map_values (k # ks) m = (case m k of None \<Rightarrow> map_values ks m | Some v \<Rightarrow> v # map_values ks m)"
  by (simp add: map_values_def split: option.splits)

lemma map_entries_Nil [simp]: "map_entries [] m = []"
  by (simp add: map_entries_def)

lemma map_entries_Cons [simp]:
  "map_entries (k # ks) m =
    (case m k of None \<Rightarrow> map_entries ks m | Some v \<Rightarrow> (k, v) # map_entries ks m)"
  by (simp add: map_entries_def split: option.splits)

lemma in_map_values: "v \<in> set (map_values ks m) \<longleftrightarrow> (\<exists>k \<in> set ks. m k = Some v)"
  by (induction ks) (auto split: option.splits)

lemma in_map_values_ran:
  assumes "iterates ks m"
  shows "v \<in> set (map_values ks m) \<longleftrightarrow> (\<exists>k. m k = Some v)"
  using iteratesD(2) [OF assms] by (auto simp: in_map_values domIff)

lemma in_map_entries: "(k, v) \<in> set (map_entries ks m) \<longleftrightarrow> k \<in> set ks \<and> m k = Some v"
  by (induction ks) (auto split: option.splits)

lemma in_map_keys: "k \<in> fst ` set (map_entries ks m) \<longleftrightarrow> k \<in> set ks \<and> (\<exists>v. m k = Some v)"
  using in_map_entries [of k _ ks m] by (metis (no_types, lifting) fst_conv image_iff prod.collapse)

lemma map_values_upd_notin: "k \<notin> set ks \<Longrightarrow> map_values ks (m(k := x)) = map_values ks m"
  by (induction ks) (auto split: option.splits)

lemma map_retain_apply: "map_retain P m k = Some v \<longleftrightarrow> m k = Some v \<and> P v"
  by (auto simp: map_retain_def split: option.splits)

lemma map_retain_None: "m k = None \<Longrightarrow> map_retain P m k = None"
  by (simp add: map_retain_def)

lemma map_values_retain: "map_values ks (map_retain P m) = filter P (map_values ks m)"
  by (induction ks) (auto simp: map_retain_def split: option.splits)

text \<open>How many entries of a map satisfy a predicate, whatever the order of iteration.\<close>

definition map_count :: "('v \<Rightarrow> bool) \<Rightarrow> ('k \<rightharpoonup> 'v) \<Rightarrow> nat" where
  "map_count P m = card {k. \<exists>v. m k = Some v \<and> P v}"

lemma finite_map_count: "finite (dom m) \<Longrightarrow> finite {k. \<exists>v. m k = Some v \<and> P v}"
  by (rule finite_subset [of _ "dom m"]) auto

lemma length_filter_map_values:
  assumes "distinct ks"
  shows "length (filter P (map_values ks m)) = card {k \<in> set ks. \<exists>v. m k = Some v \<and> P v}"
  using assms
proof (induction ks)
  case Nil
  then show ?case by simp
next
  case (Cons k ks)
  have split_k: "{j \<in> set (k # ks). \<exists>v. m j = Some v \<and> P v} =
      (if \<exists>v. m k = Some v \<and> P v then insert k {j \<in> set ks. \<exists>v. m j = Some v \<and> P v}
       else {j \<in> set ks. \<exists>v. m j = Some v \<and> P v})"
    by auto
  from Cons show ?case
    unfolding split_k by (auto split: option.splits)
qed

lemma length_filter_iterates:
  assumes "iterates ks m"
  shows "length (filter P (map_values ks m)) = map_count P m"
proof -
  have "{k \<in> set ks. \<exists>v. m k = Some v \<and> P v} = {k. \<exists>v. m k = Some v \<and> P v}"
    using iteratesD(2) [OF assms] by auto
  then show ?thesis
    by (simp add: length_filter_map_values [OF iteratesD(1) [OF assms]] map_count_def)
qed

lemma map_count_empty [simp]: "map_count P Map.empty = 0"
  by (simp add: map_count_def)

text \<open>Writing one entry changes the count by that entry only.\<close>

lemma map_count_upd:
  assumes "finite (dom m)"
  shows "map_count P (m(k \<mapsto> v)) + (case m k of Some w \<Rightarrow> (if P w then 1 else 0) | None \<Rightarrow> 0) =
    map_count P m + (if P v then 1 else 0)"
proof -
  let ?A = "{j. \<exists>w. m j = Some w \<and> P w}"
  have fin: "finite ?A" by (rule finite_map_count [OF assms])
  have upd: "{j. \<exists>w. (m(k \<mapsto> v)) j = Some w \<and> P w} = (if P v then insert k ?A else ?A - {k})"
    by auto
  have cardA: "k \<in> ?A \<Longrightarrow> card ?A = Suc (card (?A - {k}))"
    using fin by (metis (no_types, lifting) card.remove)
  show ?thesis
    unfolding map_count_def upd using fin cardA
    by (auto split: option.splits simp: insert_absorb card_insert_if)
qed

lemma map_count_delete_le:
  assumes "finite (dom m)"
  shows "map_count P (m(k := None)) \<le> map_count P m"
  unfolding map_count_def by (rule card_mono [OF finite_map_count [OF assms]]) (auto split: if_splits)

lemma map_count_le_dom: "finite (dom m) \<Longrightarrow> map_count P m \<le> card (dom m)"
  unfolding map_count_def by (rule card_mono) auto

section \<open>Searching a list\<close>

lemma find_SomeD: "find P xs = Some x \<Longrightarrow> x \<in> set xs \<and> P x"
  by (induction xs) (auto split: if_splits)

lemma find_Some_ex: "(\<exists>x. find P xs = Some x) \<longleftrightarrow> list_ex P xs"
  by (induction xs) auto

lemma find_None_ex: "find P xs = None \<longleftrightarrow> \<not> list_ex P xs"
  by (induction xs) auto

text \<open>\<open>min_by_key\<close> returns the first of several least elements.\<close>

fun min_by_key :: "('a \<Rightarrow> 'k::linorder) \<Rightarrow> 'a list \<Rightarrow> 'a option" where
  "min_by_key f [] = None"
| "min_by_key f (x # xs) =
     (case min_by_key f xs of None \<Rightarrow> Some x | Some y \<Rightarrow> if f x \<le> f y then Some x else Some y)"

lemma min_by_key_Some: "xs \<noteq> [] \<Longrightarrow> \<exists>x. min_by_key f xs = Some x"
  by (cases xs) (auto split: option.splits)

lemma min_by_key_least: "min_by_key f xs = Some x \<Longrightarrow> x \<in> set xs \<and> (\<forall>y \<in> set xs. f x \<le> f y)"
proof (induction xs arbitrary: x)
  case (Cons y ys)
  then show ?case
    by (cases "min_by_key f ys"; cases ys) (fastforce split: if_splits option.splits)+
qed simp

section \<open>Text\<close>

text \<open>
  Strings are lists of bytes. Every string the modelled checks compare is ASCII, where
  a Rust \<open>char\<close> is one byte.
\<close>

definition replace_char :: "char \<Rightarrow> char \<Rightarrow> string \<Rightarrow> string" where
  "replace_char a b s = map (\<lambda>c. if c = a then b else c) s"

lemma replace_char_idem: "a \<noteq> b \<Longrightarrow> replace_char a b (replace_char a b s) = replace_char a b s"
  by (induction s) (auto simp: replace_char_def)

lemma replace_char_absent: "a \<notin> set s \<Longrightarrow> replace_char a b s = s"
  by (induction s) (auto simp: replace_char_def)

lemma length_replace_char [simp]: "length (replace_char a b s) = length s"
  by (simp add: replace_char_def)

text \<open>The ASCII part of \<open>char::is_whitespace\<close> and \<open>str::trim\<close>.\<close>

definition is_space :: "char \<Rightarrow> bool" where
  "is_space c \<longleftrightarrow> c \<in> {CHR '' '', CHR 0x09, CHR 0x0A, CHR 0x0B, CHR 0x0C, CHR 0x0D}"

definition trim_start :: "string \<Rightarrow> string" where
  "trim_start s = dropWhile is_space s"

definition trim :: "string \<Rightarrow> string" where
  "trim s = rev (dropWhile is_space (rev (dropWhile is_space s)))"

lemma drop_no_space: "\<forall>c \<in> set s. \<not> is_space c \<Longrightarrow> dropWhile is_space s = s"
  by (cases s) auto

lemma trim_no_space: "\<forall>c \<in> set s. \<not> is_space c \<Longrightarrow> trim s = s"
  by (simp add: trim_def drop_no_space)

text \<open>The ASCII part of \<open>str::to_lowercase\<close>, and \<open>str::contains\<close>.\<close>

definition ascii_lower :: "string \<Rightarrow> string" where
  "ascii_lower s = map (\<lambda>c. if 65 \<le> (of_char c :: nat) \<and> (of_char c :: nat) \<le> 90
     then char_of ((of_char c :: nat) + 32) else c) s"

definition starts_with :: "string \<Rightarrow> string \<Rightarrow> bool" where
  "starts_with s p \<longleftrightarrow> take (length p) s = p"

definition ends_with :: "string \<Rightarrow> string \<Rightarrow> bool" where
  "ends_with s p \<longleftrightarrow> length p \<le> length s \<and> drop (length s - length p) s = p"

fun contains_str :: "string \<Rightarrow> string \<Rightarrow> bool" where
  "contains_str [] p = (p = [])"
| "contains_str (c # s) p = (starts_with (c # s) p \<or> contains_str s p)"

lemma starts_with_iff: "starts_with s p \<longleftrightarrow> (\<exists>r. s = p @ r)"
  by (metis append_eq_conv_conj append_take_drop_id starts_with_def)

lemma ends_with_iff: "ends_with s p \<longleftrightarrow> (\<exists>r. s = r @ p)"
proof
  assume "ends_with s p"
  then have "s = take (length s - length p) s @ p" unfolding ends_with_def by (metis append_take_drop_id)
  then show "\<exists>r. s = r @ p" by blast
qed (auto simp: ends_with_def)

text \<open>\<open>split\<close> and \<open>join\<close> at one character.\<close>

fun split_on :: "char \<Rightarrow> string \<Rightarrow> string list" where
  "split_on c [] = [[]]"
| "split_on c (d # s) =
     (if d = c then [] # split_on c s
      else case split_on c s of [] \<Rightarrow> [[d]] | w # ws \<Rightarrow> (d # w) # ws)"

fun join_with :: "'c \<Rightarrow> 'c list list \<Rightarrow> 'c list" where
  "join_with c [] = []"
| "join_with c [w] = w"
| "join_with c (w # v # ws) = w @ c # join_with c (v # ws)"

lemma split_on_ne [simp]: "split_on c s \<noteq> []"
  by (induction s) (auto split: list.split)

lemma split_on_word: "c \<notin> set w \<Longrightarrow> split_on c w = [w]"
  by (induction w) auto

lemma split_on_append: "c \<notin> set w \<Longrightarrow> split_on c (w @ c # s) = w # split_on c s"
  by (induction w) auto

lemma split_on_app: "split_on c (u @ c # v) = split_on c u @ split_on c v"
  by (induction u) (auto split: list.split)

lemma split_join: "ws \<noteq> [] \<Longrightarrow> list_all (\<lambda>w. c \<notin> set w) ws \<Longrightarrow> split_on c (join_with c ws) = ws"
  by (induction c ws rule: join_with.induct) (auto simp: split_on_word split_on_append)

lemma join_Cons: "ws \<noteq> [] \<Longrightarrow> join_with c (w # ws) = w @ c # join_with c ws"
  by (cases ws) simp_all

lemma join_snoc: "ws \<noteq> [] \<Longrightarrow> join_with c (ws @ [w]) = join_with c ws @ c # w"
  by (induction c ws rule: join_with.induct) (simp_all add: join_Cons)

lemma join_split: "join_with c (split_on c s) = s"
proof (induction s)
  case (Cons d s)
  obtain w ws where "split_on c s = w # ws" by (cases "split_on c s") simp_all
  with Cons show ?case by (cases ws) auto
qed simp

text \<open>The decimal representation \<open>format!\<close> gives an unsigned number.\<close>

fun string_of_nat :: "nat \<Rightarrow> string" where
  "string_of_nat n =
     (if n < 10 then [char_of (48 + n)] else string_of_nat (n div 10) @ [char_of (48 + n mod 10)])"

declare string_of_nat.simps [simp del]

text \<open>
  Text kept as its UTF-8 bytes: \<open>is_char_boundary\<close> holds at the start, at the end and before any
  byte that does not continue a character; \<open>char_boundary\<close> is the loop that walks back to one.
\<close>

definition continuation_byte :: "char \<Rightarrow> bool" where
  "continuation_byte c \<longleftrightarrow> 0x80 \<le> (of_char c :: nat) \<and> (of_char c :: nat) < 0xC0"

fun char_boundary :: "string \<Rightarrow> nat \<Rightarrow> nat" where
  "char_boundary txt 0 = 0"
| "char_boundary txt (Suc n) = (if continuation_byte (txt ! Suc n) then char_boundary txt n else Suc n)"

lemma char_boundary_le: "char_boundary txt n \<le> n"
  by (induction n) auto

section \<open>Shared interfaces\<close>

text \<open>
  A lifecycle: the states of a job or thread, the transitions its state type permits and
  the states it calls terminal. The law is the one every reader of \<open>is_terminal\<close> relies
  on: nothing leaves a terminal state.
\<close>

locale lifecycle =
  fixes can :: "'st \<Rightarrow> 'st \<Rightarrow> bool"
    and terminal :: "'st \<Rightarrow> bool"
  assumes terminal_stuck: "terminal s \<Longrightarrow> \<not> can s t"
begin

fun path :: "'st \<Rightarrow> 'st list \<Rightarrow> bool" where
  "path s [] = True"
| "path s (t # ts) = (can s t \<and> path t ts)"

lemma path_from_terminal: "terminal s \<Longrightarrow> path s ts \<Longrightarrow> ts = []"
  by (cases ts) (auto dest: terminal_stuck)

lemma path_append: "path s (ts @ us) \<longleftrightarrow> path s ts \<and> path (last (s # ts)) us"
  by (induction ts arbitrary: s) auto

text \<open>A terminal state on a path is its last state.\<close>

lemma terminal_is_last:
  assumes "path s (ts @ t # us)" and "terminal t"
  shows "us = []"
proof -
  from assms(1) have "path t us" by (simp add: path_append)
  with assms(2) show ?thesis by (rule path_from_terminal)
qed

lemma at_most_one_terminal:
  assumes "path s ts" and "i < length ts" and "terminal (ts ! i)"
  shows "Suc i = length ts"
proof -
  have "ts = take i ts @ ts ! i # drop (Suc i) ts"
    using assms(2) by (rule id_take_nth_drop)
  then have "path s (take i ts @ ts ! i # drop (Suc i) ts)" using assms(1) by simp
  then have "drop (Suc i) ts = []" using assms(3) by (rule terminal_is_last)
  then show ?thesis using assms(2) by simp
qed

end

text \<open>
  A machine: a component whose operations are the events of a step function (the result
  an operation returns is no part of the state), and an invariant that each step keeps.
  The client's fact is that the invariant holds after any sequence of operations. A guarded
  machine keeps its invariant under some events only; a machine is the case of all events.
\<close>

locale guarded_machine =
  fixes step :: "'s \<Rightarrow> 'e \<Rightarrow> 's"
    and inv :: "'s \<Rightarrow> bool"
    and allowed :: "'e \<Rightarrow> bool"
  assumes step_inv: "inv s \<Longrightarrow> allowed e \<Longrightarrow> inv (step s e)"
begin

lemma run_inv: "inv s \<Longrightarrow> list_all allowed es \<Longrightarrow> inv (foldl step s es)"
  by (induction es arbitrary: s) (auto intro: step_inv)

end

locale machine =
  fixes step :: "'s \<Rightarrow> 'e \<Rightarrow> 's"
    and inv :: "'s \<Rightarrow> bool"
  assumes step_inv: "inv s \<Longrightarrow> inv (step s e)"

sublocale machine \<subseteq> guarded: guarded_machine step inv "\<lambda>_. True"
  by unfold_locales (rule step_inv)

context machine
begin

lemma run_inv: "inv s \<Longrightarrow> inv (foldl step s es)"
  by (rule guarded.run_inv) (simp_all add: list_all_iff)

end

text \<open>
  A refinement: a detailed machine, an abstract one over the same events and the abstraction
  between their states. Each step of the detailed machine under its invariant is the step of
  the abstract one, and so is every run.
\<close>

locale refinement =
  fixes step :: "'s \<Rightarrow> 'e \<Rightarrow> 's"
    and spec :: "'a \<Rightarrow> 'e \<Rightarrow> 'a"
    and abstr :: "'s \<Rightarrow> 'a"
    and inv :: "'s \<Rightarrow> bool"
    and allowed :: "'e \<Rightarrow> bool"
  assumes step_keeps: "inv s \<Longrightarrow> allowed e \<Longrightarrow> inv (step s e)"
    and step_refines: "inv s \<Longrightarrow> allowed e \<Longrightarrow> abstr (step s e) = spec (abstr s) e"

sublocale refinement \<subseteq> concrete: guarded_machine step inv allowed
  by unfold_locales (rule step_keeps)

context refinement
begin

lemma run_refines: "inv s \<Longrightarrow> list_all allowed es \<Longrightarrow> abstr (foldl step s es) = foldl spec (abstr s) es"
  by (induction es arbitrary: s) (simp_all add: step_refines step_keeps)

end

text \<open>\<open>char::is_whitespace\<close> and \<open>str::trim\<close> on user-facing text.\<close>

definition white_space :: "nat \<Rightarrow> bool" where
  "white_space c \<longleftrightarrow> (9 \<le> c \<and> c \<le> 13) \<or> c \<in> {32, 133, 160, 5760, 8232, 8233, 8239, 8287, 12288} \<or> (8192 \<le> c \<and> c \<le> 8202)"

definition trim_text :: "utext \<Rightarrow> utext" where
  "trim_text t = rev (dropWhile white_space (rev (dropWhile white_space t)))"

text \<open>\<open>str::split\<close> with a predicate, and \<open>str::split_whitespace\<close>, on user-facing text.\<close>

fun split_by :: "(nat \<Rightarrow> bool) \<Rightarrow> utext \<Rightarrow> utext list" where
  "split_by P [] = [[]]"
| "split_by P (c # cs) =
     (if P c then [] # split_by P cs
      else case split_by P cs of [] \<Rightarrow> [[c]] | w # ws \<Rightarrow> (c # w) # ws)"

definition text_words :: "utext \<Rightarrow> utext list" where
  "text_words t = filter (\<lambda>w. w \<noteq> []) (split_by white_space t)"

definition ascii_lower_text :: "utext \<Rightarrow> utext" where
  "ascii_lower_text t = map (\<lambda>c. if 65 \<le> c \<and> c \<le> 90 then c + 32 else c) t"

end
