(* ===== verification/ThreadMachine.thy ===== *)
theory ThreadMachine
  imports Prelude
begin

text \<open>
  The engine's unit of work, \<open>crates/ironclaw_engine/src/types/thread.rs\<close>: the lifecycle of
  a thread, the thread record and every operation on it, and the owner of a thread
  (\<open>types/mod.rs\<close>). The lemmas show that the event log of a thread is a faithful record of
  its lifecycle (event sourcing), that the lifecycle ends in its terminal states, and what
  the sidebar title derived from a message can be.
\<close>

section \<open>Lifecycle\<close>

datatype thread_state =
  Created | Running | Waiting | Suspended | Completed | Done | Failed

fun can_transition_to :: "thread_state \<Rightarrow> thread_state \<Rightarrow> bool" where
  "can_transition_to Created Running = True"
| "can_transition_to Created Failed = True"
| "can_transition_to Running Waiting = True"
| "can_transition_to Running Suspended = True"
| "can_transition_to Running Completed = True"
| "can_transition_to Running Failed = True"
| "can_transition_to Waiting Running = True"
| "can_transition_to Waiting Failed = True"
| "can_transition_to Suspended Running = True"
| "can_transition_to Suspended Failed = True"
| "can_transition_to Completed Done = True"
| "can_transition_to _ _ = False"

definition is_terminal :: "thread_state \<Rightarrow> bool" where
  "is_terminal s \<longleftrightarrow> s \<in> {Done, Failed}"

definition is_active :: "thread_state \<Rightarrow> bool" where
  "is_active s \<longleftrightarrow> s \<in> {Running, Waiting}"

datatype thread_type = Foreground | Research | Mission

interpretation thread_life: lifecycle can_transition_to is_terminal
proof unfold_locales
  fix s t :: thread_state
  assume "is_terminal s"
  then show "\<not> can_transition_to s t" by (cases s; cases t) (simp_all add: is_terminal_def)
qed

lemma can_transition_irrefl: "\<not> can_transition_to s s"
  by (cases s) simp_all

lemma can_transition_not_created: "can_transition_to s t \<Longrightarrow> t \<noteq> Created"
  by (cases s; cases t) simp_all

text \<open>What a thread can still become: everything leads to \<open>Done\<close> or \<open>Failed\<close>.\<close>

lemma successor_cases:
  "can_transition_to s t \<Longrightarrow>
    (s = Completed \<and> t = Done) \<or> (s \<in> {Created, Running, Waiting, Suspended} \<and> t \<noteq> Done)"
  by (cases s; cases t) simp_all

section \<open>The thread record\<close>

text \<open>
  \<open>f64\<close> fields are carried as rationals: nothing modelled here computes with them. The JSON
  metadata is an object with values of an abstract type or any other JSON value, which is
  all \<open>set_active_skills\<close> distinguishes.
\<close>

record thread_config =
  max_iterations :: nat
  max_duration :: "duration option"
  enable_tool_intent_nudge :: bool
  max_tool_intent_nudges :: nat
  require_action_attempt :: bool
  max_action_requirement_nudges :: nat
  max_tokens_total :: "nat option"
  max_consecutive_errors :: "nat option"
  model_context_limit :: nat
  enable_compaction :: bool
  compaction_threshold :: rat
  max_budget_usd :: "rat option"
  cfg_depth :: nat
  cfg_max_depth :: nat

definition default_config :: thread_config where
  "default_config = \<lparr>
     max_iterations = 50,
     max_duration = None,
     enable_tool_intent_nudge = True,
     max_tool_intent_nudges = 2,
     require_action_attempt = False,
     max_action_requirement_nudges = 2,
     max_tokens_total = None,
     max_consecutive_errors = Some 5,
     model_context_limit = 128000,
     enable_compaction = False,
     compaction_threshold = 85 / 100,
     max_budget_usd = None,
     cfg_depth = 0,
     cfg_max_depth = 1\<rparr>"

datatype message_role = RoleSystem | RoleUser | RoleAssistant | RoleActionResult

text \<open>\<open>format!("{:?}", role)\<close>.\<close>

fun role_debug :: "message_role \<Rightarrow> string" where
  "role_debug RoleSystem = ''System''"
| "role_debug RoleUser = ''User''"
| "role_debug RoleAssistant = ''Assistant''"
| "role_debug RoleActionResult = ''ActionResult''"

text \<open>
  Of a message only the role and the content are read here; \<open>msg_rest\<close> is everything else.
\<close>

record 'm thread_message =
  msg_role :: message_role
  msg_content :: utext
  msg_rest :: 'm

text \<open>
  The variants of \<open>EventKind\<close> this file constructs; every other variant is built by a caller
  of \<open>add_event\<close> and stored as it is.
\<close>

datatype 'k event_kind =
  StateChanged (ev_from: thread_state) (ev_to: thread_state) (ev_reason: "string option")
| MessageAdded (ev_role: string) (ev_preview: utext)
| OtherEvent 'k

record 'k thread_event =
  event_thread_id :: uuid
  event_time :: utc
  event_kind_of :: "'k event_kind"

datatype 'v metadata = MetaObject "string \<rightharpoonup> 'v" | MetaOther

record ('k, 'm, 'v) thread =
  thread_id :: uuid
  goal :: utext
  title :: "utext option"
  thread_type_of :: thread_type
  state :: thread_state
  project_id :: uuid
  user_id :: string
  parent_id :: "uuid option"
  config :: thread_config
  messages :: "'m thread_message list"
  internal_messages :: "'m thread_message list"
  events :: "'k thread_event list"
  capability_leases :: "uuid list"
  thread_metadata :: "'v metadata"
  created_at :: utc
  updated_at :: utc
  completed_at :: "utc option"
  step_count :: nat
  total_tokens_used :: nat
  total_cost_usd :: rat

datatype engine_error =
  InvalidTransition thread_state thread_state
| StoreError string

text \<open>\<open>Thread::new\<close>; the fresh identifier and the time read from the clock are arguments.\<close>

definition thread_new ::
  "uuid \<Rightarrow> utc \<Rightarrow> utext \<Rightarrow> thread_type \<Rightarrow> uuid \<Rightarrow> string \<Rightarrow> thread_config \<Rightarrow> ('k, 'm, 'v) thread" where
  "thread_new new_id now g ty proj user cfg = \<lparr>
     thread_id = new_id,
     goal = g,
     title = None,
     thread_type_of = ty,
     state = Created,
     project_id = proj,
     user_id = user,
     parent_id = None,
     config = cfg,
     messages = [],
     internal_messages = [],
     events = [],
     capability_leases = [],
     thread_metadata = MetaObject Map.empty,
     created_at = now,
     updated_at = now,
     completed_at = None,
     step_count = 0,
     total_tokens_used = 0,
     total_cost_usd = 0\<rparr>"

definition with_parent :: "uuid \<Rightarrow> ('k, 'm, 'v) thread \<Rightarrow> ('k, 'm, 'v) thread" where
  "with_parent p th = th\<lparr>parent_id := Some p\<rparr>"

definition mk_event :: "uuid \<Rightarrow> utc \<Rightarrow> 'k event_kind \<Rightarrow> 'k thread_event" where
  "mk_event tid now k = \<lparr>event_thread_id = tid, event_time = now, event_kind_of = k\<rparr>"

definition transition_to ::
  "utc \<Rightarrow> thread_state \<Rightarrow> string option \<Rightarrow> ('k, 'm, 'v) thread
    \<Rightarrow> (engine_error, ('k, 'm, 'v) thread) result" where
  "transition_to now new_state reason th =
     (if \<not> can_transition_to (state th) new_state
      then Inl (InvalidTransition (state th) new_state)
      else
        let event = mk_event (thread_id th) now (StateChanged (state th) new_state reason);
            th1 = th\<lparr>events := events th @ [event], state := new_state, updated_at := now\<rparr>
        in Inr (if new_state = Completed \<or> new_state = Done
                then th1\<lparr>completed_at := Some now\<rparr> else th1))"

definition add_event :: "utc \<Rightarrow> 'k event_kind \<Rightarrow> ('k, 'm, 'v) thread \<Rightarrow> ('k, 'm, 'v) thread" where
  "add_event now k th =
     th\<lparr>events := events th @ [mk_event (thread_id th) now k], updated_at := now\<rparr>"

definition message_preview :: "utext \<Rightarrow> utext" where
  "message_preview content =
     (if length content > 80 then take 80 content @ [46, 46, 46] else content)"

definition add_message ::
  "utc \<Rightarrow> 'm thread_message \<Rightarrow> ('k, 'm, 'v) thread \<Rightarrow> ('k, 'm, 'v) thread" where
  "add_message now msg th =
     (let preview = message_preview (msg_content msg);
          th1 = add_event now (MessageAdded (role_debug (msg_role msg)) preview) th
      in th1\<lparr>messages := messages th1 @ [msg]\<rparr>)"

definition add_internal_message ::
  "utc \<Rightarrow> 'm thread_message \<Rightarrow> ('k, 'm, 'v) thread \<Rightarrow> ('k, 'm, 'v) thread" where
  "add_internal_message now msg th =
     th\<lparr>internal_messages := internal_messages th @ [msg], updated_at := now\<rparr>"

text \<open>
  Skill provenance in the metadata. \<open>serde_json\<close> is a parameter: \<open>to_val\<close> is \<open>to_value\<close>
  (an error message or a JSON value) and \<open>from_val\<close> is \<open>from_value(..).ok()\<close>.
\<close>

record active_skill_provenance =
  doc_id :: uuid
  skill_name :: string
  skill_version :: nat
  snippet_names :: "string list"
  force_activated :: bool

definition active_skills_key :: string where
  "active_skills_key = ''active_skills''"

definition set_active_skills ::
  "(active_skill_provenance list \<Rightarrow> string + 'v) \<Rightarrow> utc \<Rightarrow> active_skill_provenance list
    \<Rightarrow> ('k, 'm, 'v) thread \<Rightarrow> (engine_error, ('k, 'm, 'v) thread) result" where
  "set_active_skills to_val now skills th =
     (case thread_metadata th of
        MetaOther \<Rightarrow> Inl (StoreError ''thread metadata is not a JSON object'')
      | MetaObject obj \<Rightarrow>
          (case to_val skills of
             Inl e \<Rightarrow> Inl (StoreError (''failed to serialize active skill provenance: '' @ e))
           | Inr v \<Rightarrow> Inr (th\<lparr>thread_metadata := MetaObject (obj(active_skills_key \<mapsto> v)),
                            updated_at := now\<rparr>)))"

definition active_skills ::
  "('v \<Rightarrow> active_skill_provenance list option) \<Rightarrow> ('k, 'm, 'v) thread
    \<Rightarrow> active_skill_provenance list" where
  "active_skills from_val th =
     (case thread_metadata th of
        MetaOther \<Rightarrow> []
      | MetaObject obj \<Rightarrow>
          (case Option.bind (obj active_skills_key) from_val of None \<Rightarrow> [] | Some sk \<Rightarrow> sk))"

section \<open>Title of a thread\<close>

text \<open>\<open>char::is_whitespace\<close>: the Unicode property \<open>White_Space\<close>.\<close>

definition uspace :: "nat \<Rightarrow> bool" where
  "uspace c \<longleftrightarrow> (9 \<le> c \<and> c \<le> 13) \<or> c = 0x20 \<or> c = 0x85 \<or> c = 0xA0 \<or> c = 0x1680 \<or>
     (0x2000 \<le> c \<and> c \<le> 0x200A) \<or> c = 0x2028 \<or> c = 0x2029 \<or> c = 0x202F \<or> c = 0x205F \<or> c = 0x3000"

definition utrim :: "utext \<Rightarrow> utext" where
  "utrim s = rev (dropWhile uspace (rev (dropWhile uspace s)))"

text \<open>\<open>str::lines\<close>: cut at line feeds, drop one carriage return at the end of a line.\<close>

definition drop_cr :: "utext \<Rightarrow> utext" where
  "drop_cr l = (if l \<noteq> [] \<and> last l = 13 then butlast l else l)"

fun ulines_from :: "utext \<Rightarrow> utext \<Rightarrow> utext list" where
  "ulines_from acc [] = (if acc = [] then [] else [rev acc])"
| "ulines_from acc (c # cs) =
     (if c = 10 then drop_cr (rev acc) # ulines_from [] cs else ulines_from (c # acc) cs)"

definition ulines :: "utext \<Rightarrow> utext list" where
  "ulines s = ulines_from [] s"

text \<open>
  \<open>Thread::derive_title_from_message\<close>. \<open>0x2026\<close> is the ellipsis; the two calls of
  \<open>chars.next()\<close> after the first 59 characters are the case analysis on the rest.
\<close>

definition max_title_chars :: nat where
  "max_title_chars = 60"

definition derive_title_from_message :: "utext \<Rightarrow> utext option" where
  "derive_title_from_message message =
     (case find (\<lambda>l. utrim l \<noteq> []) (ulines message) of
        None \<Rightarrow> None
      | Some line \<Rightarrow>
          let trimmed = utrim line;
              out = take (max_title_chars - 1) trimmed
          in Some (case drop (max_title_chars - 1) trimmed of
                     [] \<Rightarrow> out
                   | [next] \<Rightarrow> out @ [next]
                   | _ # _ # _ \<Rightarrow> out @ [0x2026]))"

lemma utrim_split: "\<exists>w. dropWhile uspace s = utrim s @ w"
proof -
  let ?u = "dropWhile uspace s"
  have "rev ?u = takeWhile uspace (rev ?u) @ dropWhile uspace (rev ?u)" by simp
  then have "?u = rev (dropWhile uspace (rev ?u)) @ rev (takeWhile uspace (rev ?u))"
    by (metis rev_append rev_rev_ident)
  then show ?thesis unfolding utrim_def by blast
qed

lemma utrim_hd: "utrim s \<noteq> [] \<Longrightarrow> \<not> uspace (hd (utrim s))"
proof -
  assume ne: "utrim s \<noteq> []"
  obtain w where w: "dropWhile uspace s = utrim s @ w" using utrim_split by blast
  with ne have "dropWhile uspace s \<noteq> []" and "hd (dropWhile uspace s) = hd (utrim s)" by simp_all
  then show ?thesis using hd_dropWhile [of uspace s] by simp
qed

lemma utrim_Nil: "utrim s = [] \<longleftrightarrow> list_all uspace s"
proof -
  have "utrim s = [] \<longleftrightarrow> (\<forall>c \<in> set (dropWhile uspace s). uspace c)"
    by (auto simp: utrim_def)
  also have "\<dots> \<longleftrightarrow> (\<forall>c \<in> set s. uspace c)"
    by (induction s) auto
  finally show ?thesis by (simp add: list_all_iff)
qed

lemma drop_cr_spaces: "list_all uspace (drop_cr l) = list_all uspace l"
  by (cases l rule: rev_cases) (auto simp: drop_cr_def uspace_def)

lemma ulines_from_spaces:
  "list_all (list_all uspace) (ulines_from acc s) \<longleftrightarrow> list_all uspace acc \<and> list_all uspace s"
proof (induction acc s rule: ulines_from.induct)
  case (1 acc)
  then show ?case by (auto simp: list_all_iff)
next
  case (2 acc c cs)
  have "uspace 10" by (simp add: uspace_def)
  with 2 show ?case by (cases "c = 10") (auto simp: drop_cr_spaces list_all_rev)
qed

section \<open>Owners\<close>

definition legacy_shared_owner_id :: string where
  "legacy_shared_owner_id = ''system''"

definition shared_owner_id :: string where
  "shared_owner_id = ''__shared__''"

datatype owner_id = Shared | User string

definition is_shared_owner :: "string \<Rightarrow> bool" where
  "is_shared_owner uid \<longleftrightarrow> uid = shared_owner_id \<or> uid = legacy_shared_owner_id"

definition from_user_id :: "string \<Rightarrow> owner_id" where
  "from_user_id uid = (if is_shared_owner uid then Shared else User uid)"

fun matches_user :: "owner_id \<Rightarrow> string \<Rightarrow> bool" where
  "matches_user (User owner) uid \<longleftrightarrow> owner = uid"
| "matches_user Shared uid \<longleftrightarrow> False"

fun as_user_id :: "owner_id \<Rightarrow> string" where
  "as_user_id Shared = shared_owner_id"
| "as_user_id (User uid) = uid"

definition thread_owner :: "('k, 'm, 'v) thread \<Rightarrow> owner_id" where
  "thread_owner th = from_user_id (user_id th)"

definition is_owned_by :: "('k, 'm, 'v) thread \<Rightarrow> string \<Rightarrow> bool" where
  "is_owned_by th uid = matches_user (thread_owner th) uid"

section \<open>The event log is the history of the lifecycle\<close>

text \<open>The state changes an event log records, and the state they lead to.\<close>

fun state_log :: "'k thread_event list \<Rightarrow> (thread_state \<times> thread_state) list" where
  "state_log [] = []"
| "state_log (e # es) =
     (case event_kind_of e of StateChanged f t r \<Rightarrow> (f, t) # state_log es | _ \<Rightarrow> state_log es)"

fun log_from :: "thread_state \<Rightarrow> (thread_state \<times> thread_state) list \<Rightarrow> bool" where
  "log_from s [] = True"
| "log_from s ((f, t) # l) = (f = s \<and> can_transition_to f t \<and> log_from t l)"

definition replay :: "'k thread_event list \<Rightarrow> thread_state" where
  "replay es = last (Created # map snd (state_log es))"

definition thread_wf :: "('k, 'm, 'v) thread \<Rightarrow> bool" where
  "thread_wf th \<longleftrightarrow>
     log_from Created (state_log (events th)) \<and> replay (events th) = state th \<and>
     (completed_at th \<noteq> None \<longleftrightarrow> state th \<in> {Completed, Done}) \<and>
     (\<forall>e \<in> set (events th). event_thread_id e = thread_id th)"

lemma state_log_append: "state_log (es @ fs) = state_log es @ state_log fs"
  by (induction es) (auto split: event_kind.splits)

lemma log_from_append:
  "log_from s (l @ m) \<longleftrightarrow> log_from s l \<and> log_from (last (s # map snd l)) m"
  by (induction s l rule: log_from.induct) auto

lemma log_from_path: "log_from s l \<Longrightarrow> thread_life.path s (map snd l)"
  by (induction s l rule: log_from.induct) auto

lemma thread_wf_new: "thread_wf (thread_new i now g ty proj user cfg)"
  by (simp add: thread_wf_def thread_new_def replay_def)

lemma transition_to_ok:
  "transition_to now t r th = Inr th' \<longleftrightarrow>
     can_transition_to (state th) t \<and>
     th' = th\<lparr>events := events th @ [mk_event (thread_id th) now (StateChanged (state th) t r)],
             state := t, updated_at := now,
             completed_at := (if t = Completed \<or> t = Done then Some now else completed_at th)\<rparr>"
  by (auto simp: transition_to_def Let_def)

lemma transition_to_wf [keeps_intros]:
  assumes "thread_wf th" and "transition_to now t r th = Inr th'"
  shows "thread_wf th'"
proof -
  from assms(2) have can: "can_transition_to (state th) t"
    and th': "th' = th\<lparr>events := events th @ [mk_event (thread_id th) now (StateChanged (state th) t r)],
             state := t, updated_at := now,
             completed_at := (if t = Completed \<or> t = Done then Some now else completed_at th)\<rparr>"
    by (simp_all add: transition_to_ok)
  have "t \<notin> {Completed, Done} \<Longrightarrow> state th \<notin> {Completed, Done}"
    using successor_cases [OF can] by auto
  with assms(1) can show ?thesis
    by (auto simp: thread_wf_def th' mk_event_def state_log_append log_from_append replay_def)
qed

lemma other_event_wf:
  assumes "thread_wf th" and "state_log [mk_event (thread_id th) now k] = []"
  shows "thread_wf (add_event now k th)"
  using assms
  by (auto simp: thread_wf_def add_event_def state_log_append replay_def mk_event_def
      split: event_kind.splits)

lemma add_message_wf [keeps_intros]: "thread_wf th \<Longrightarrow> thread_wf (add_message now m th)"
proof -
  assume wf: "thread_wf th"
  let ?th1 = "add_event now (MessageAdded (role_debug (msg_role m)) (message_preview (msg_content m))) th"
  have "thread_wf ?th1" by (rule other_event_wf [OF wf]) (simp add: mk_event_def)
  then show ?thesis by (simp add: add_message_def Let_def thread_wf_def)
qed

lemma add_internal_message_wf [keeps_intros]:
  "thread_wf th \<Longrightarrow> thread_wf (add_internal_message now m th)"
  by (simp add: add_internal_message_def thread_wf_def)

lemma set_active_skills_ok:
  "set_active_skills to_val now sk th = Inr th' \<Longrightarrow>
     \<exists>obj v. thread_metadata th = MetaObject obj \<and> to_val sk = Inr v \<and>
       th' = th\<lparr>thread_metadata := MetaObject (obj(active_skills_key \<mapsto> v)), updated_at := now\<rparr>"
  by (auto simp: set_active_skills_def split: metadata.splits sum.splits)

lemma set_active_skills_wf [keeps_intros]:
  "thread_wf th \<Longrightarrow> set_active_skills to_val now sk th = Inr th' \<Longrightarrow> thread_wf th'"
  by (auto dest!: set_active_skills_ok simp: thread_wf_def)

text \<open>
  The operations of a thread as events. \<open>add_event\<close> is called with every variant but the
  state change, which \<open>transition_to\<close> alone records; a failing operation changes nothing.
\<close>

datatype ('k, 'm) thread_op =
  OpTransition utc thread_state "string option"
| OpEvent utc 'k
| OpMessage utc "'m thread_message"
| OpInternalMessage utc "'m thread_message"
| OpSetSkills utc "active_skill_provenance list"

fun thread_step ::
  "(active_skill_provenance list \<Rightarrow> string + 'v) \<Rightarrow> ('k, 'm, 'v) thread \<Rightarrow> ('k, 'm) thread_op
    \<Rightarrow> ('k, 'm, 'v) thread" where
  "thread_step to_val th (OpTransition now t r) =
     (case transition_to now t r th of Inl _ \<Rightarrow> th | Inr th' \<Rightarrow> th')"
| "thread_step to_val th (OpEvent now k) = add_event now (OtherEvent k) th"
| "thread_step to_val th (OpMessage now m) = add_message now m th"
| "thread_step to_val th (OpInternalMessage now m) = add_internal_message now m th"
| "thread_step to_val th (OpSetSkills now sk) =
     (case set_active_skills to_val now sk th of Inl _ \<Rightarrow> th | Inr th' \<Rightarrow> th')"

lemma thread_step_wf: "thread_wf th \<Longrightarrow> thread_wf (thread_step to_val th e)"
  by (cases e)
     (auto intro: keeps_intros other_event_wf simp: mk_event_def split: sum.splits)

interpretation thread_machine: machine "thread_step to_val" thread_wf for to_val
  by unfold_locales (rule thread_step_wf)

lemma thread_step_state:
  "state (thread_step to_val th e) = state th \<or>
     can_transition_to (state th) (state (thread_step to_val th e))"
proof (cases e)
  case (OpTransition now t r)
  then show ?thesis by (auto simp: transition_to_ok split: sum.splits)
next
  case (OpSetSkills now sk)
  then show ?thesis by (auto dest!: set_active_skills_ok split: sum.splits)
qed (simp_all add: add_event_def add_message_def add_internal_message_def Let_def)

lemma terminal_step: "is_terminal (state th) \<Longrightarrow> state (thread_step to_val th e) = state th"
  using thread_step_state [of to_val th e] thread_life.terminal_stuck by blast

subsection \<open>Properties\<close>

text \<open>
  Event sourcing: after any sequence of operations on a new thread, the state changes
  in its event log form one unbroken chain of permitted transitions from \<open>Created\<close>, and
  replaying the log gives exactly the thread's current state; the completion time is set
  exactly in the states \<open>Completed\<close> and \<open>Done\<close>.
\<close>

theorem thread_log_replays:
  "let th = foldl (thread_step to_val) (thread_new i now g ty proj user cfg) ops
   in log_from Created (state_log (events th)) \<and> replay (events th) = state th \<and>
      (completed_at th = None) = (state th \<notin> {Completed, Done})"
proof -
  have "thread_wf (foldl (thread_step to_val) (thread_new i now g ty proj user cfg) ops)"
    by (rule thread_machine.run_inv) (rule thread_wf_new)
  then show ?thesis by (auto simp: thread_wf_def Let_def)
qed

text \<open>
  Once a thread is \<open>Done\<close> or \<open>Failed\<close>, no sequence of operations changes its state.
\<close>

theorem terminal_thread_stays:
  assumes "is_terminal (state th)"
  shows "state (foldl (thread_step to_val) th ops) = state th"
  using assms
proof (induction ops arbitrary: th)
  case Nil
  then show ?case by simp
next
  case (Cons e ops)
  have "state (thread_step to_val th e) = state th" by (rule terminal_step [OF Cons.prems])
  with Cons show ?case by simp
qed

theorem terminal_thread_stays_witness:
  "is_terminal (state ((thread_new 1 0 [] Mission 2 ''u'' default_config :: (nat, nat, nat) thread)\<lparr>state := Failed\<rparr>)) \<and>
   state (foldl (thread_step (\<lambda>_. Inl [])) ((thread_new 1 0 [] Mission 2 ''u'' default_config :: (nat, nat, nat) thread)\<lparr>state := Failed\<rparr>)
     [OpTransition 1 Running None, OpEvent 2 0]) = Failed"
proof -
  have t: "is_terminal (state ((thread_new 1 0 [] Mission 2 ''u'' default_config :: (nat, nat, nat) thread)\<lparr>state := Failed\<rparr>))"
    by (simp add: is_terminal_def)
  show ?thesis
    using t terminal_thread_stays [OF t, of "\<lambda>_. Inl []" "[OpTransition 1 Running None, OpEvent 2 0]"] by simp
qed

text \<open>
  Skill provenance survives the metadata: whatever JSON encoding is used, as long as
  decoding undoes encoding, the skills read back are the skills stored.
\<close>

theorem active_skills_roundtrip:
  assumes "\<And>sk v. to_val sk = Inr v \<Longrightarrow> from_val v = Some sk"
    and "set_active_skills to_val now skills th = Inr th'"
  shows "active_skills from_val th' = skills"
  using set_active_skills_ok [OF assms(2)] assms(1) by (auto simp: active_skills_def)

theorem active_skills_roundtrip_witness:
  "active_skills Some
     ((thread_new 1 0 [] Research 2 ''u'' default_config :: (nat, nat, active_skill_provenance list) thread)
        \<lparr>thread_metadata := MetaObject [active_skills_key \<mapsto>
           [\<lparr>doc_id = 7, skill_name = ''s'', skill_version = 1, snippet_names = [], force_activated = True\<rparr>]],
         updated_at := 5\<rparr>) =
     [\<lparr>doc_id = 7, skill_name = ''s'', skill_version = 1, snippet_names = [], force_activated = True\<rparr>]"
  by (rule active_skills_roundtrip [where to_val = Inr and now = 5 and
        th = "thread_new 1 0 [] Research 2 ''u'' default_config"])
     (simp_all add: set_active_skills_def thread_new_def)

text \<open>
  The sidebar title: there is none exactly when the message is all white space;
  otherwise it is the first line that is not blank, trimmed, kept whole up to 60
  characters and cut to 59 and an ellipsis beyond, so it is never empty, never longer
  than 60 characters and never starts with white space.
\<close>

theorem derive_title_spec:
  "case derive_title_from_message message of
     None \<Rightarrow> list_all uspace message
   | Some t \<Rightarrow> \<not> list_all uspace message \<and> t \<noteq> [] \<and> length t \<le> 60 \<and> \<not> uspace (hd t) \<and>
       (\<exists>line. find (\<lambda>l. utrim l \<noteq> []) (ulines message) = Some line \<and>
          t = (if length (utrim line) \<le> 60 then utrim line
               else take 59 (utrim line) @ [0x2026]))"
proof (cases "find (\<lambda>l. utrim l \<noteq> []) (ulines message)")
  case None
  then have "list_all (list_all uspace) (ulines message)"
    by (simp add: find_None_iff utrim_Nil list_all_iff)
  then have "list_all uspace message" by (simp add: ulines_def ulines_from_spaces)
  with None show ?thesis by (simp add: derive_title_from_message_def)
next
  case (Some line)
  let ?t = "utrim line"
  have line: "line \<in> set (ulines message)" and ne: "?t \<noteq> []"
    using find_Some_iff [THEN iffD1, OF Some] by (auto simp: in_set_conv_nth)
  have "\<not> list_all uspace message"
    using line ne ulines_from_spaces [of "[]" message]
    by (auto simp: utrim_Nil list_all_iff ulines_def)
  moreover have title: "derive_title_from_message message =
      Some (if length ?t \<le> 60 then ?t else take 59 ?t @ [0x2026])"
  proof (cases "drop 59 ?t" rule: list.exhaust [case_names Nil Cons])
    case Nil
    then show ?thesis using Some by (simp add: derive_title_from_message_def max_title_chars_def)
  next
    case (Cons c cs)
    have "?t = take 59 ?t @ c # cs" using Cons by (metis append_take_drop_id)
    moreover have "length ?t = 60 + length cs"
      using arg_cong [OF Cons, of length] by simp
    ultimately show ?thesis using Some Cons
      by (cases cs) (simp_all add: derive_title_from_message_def max_title_chars_def)
  qed
  moreover have "hd (take 59 ?t @ [0x2026]) = hd ?t" using ne by (cases ?t) auto
  ultimately show ?thesis using Some ne utrim_hd [OF ne] by auto
qed

end
