(* ===== verification/Capability.thy ===== *)
theory Capability
  imports Prelude
begin

text \<open>
  The data of the authorization layer, \<open>crates/ironclaw_engine/src/types/capability.rs\<close> and
  \<open>types/provenance.rs\<close>: which actions a lease grants, action definitions, policy rules, and
  the lease with its use counter. The lemmas show what the spelling variants of an action
  name can and cannot match, when the JSON form of a grant is faithful, and that the use
  counter stays within its maximum.
\<close>

section \<open>Granted actions\<close>

datatype granted_actions = AllActions | Specific "string list"

definition hyphenated :: "string \<Rightarrow> string" where
  "hyphenated a = replace_char (CHR ''_'') (CHR ''-'') a"

definition underscored :: "string \<Rightarrow> string" where
  "underscored a = replace_char (CHR ''-'') (CHR ''_'') a"

fun covers :: "granted_actions \<Rightarrow> string \<Rightarrow> bool" where
  "covers AllActions action_name = True"
| "covers (Specific actions) action_name =
     list_ex (\<lambda>action. action = action_name \<or> action = hyphenated action_name \<or>
       action = underscored action_name) actions"

fun is_all :: "granted_actions \<Rightarrow> bool" where
  "is_all AllActions = True"
| "is_all (Specific _) = False"

fun granted_list :: "granted_actions \<Rightarrow> string list" where
  "granted_list AllActions = []"
| "granted_list (Specific actions) = actions"

text \<open>The JSON array of \<open>Serialize\<close> and \<open>Deserialize\<close>.\<close>

fun serialize_granted :: "granted_actions \<Rightarrow> string list" where
  "serialize_granted AllActions = []"
| "serialize_granted (Specific v) = v"

definition deserialize_granted :: "string list \<Rightarrow> granted_actions" where
  "deserialize_granted v = (if v = [] then AllActions else Specific v)"

lemma hyphenated_idem [simp]: "hyphenated (hyphenated a) = hyphenated a"
  by (simp add: hyphenated_def replace_char_idem)

lemma underscored_idem [simp]: "underscored (underscored a) = underscored a"
  by (simp add: underscored_def replace_char_idem)

lemma underscored_hyphenated [simp]: "underscored (hyphenated a) = underscored a"
  by (simp add: underscored_def hyphenated_def replace_char_def)

lemma hyphenated_underscored [simp]: "hyphenated (underscored a) = hyphenated a"
  by (simp add: underscored_def hyphenated_def replace_char_def)

lemma length_underscored [simp]: "length (underscored a) = length a"
  by (simp add: underscored_def)

text \<open>A grant never covers a name that differs from the granted ones beyond \<open>-\<close> and \<open>_\<close>.\<close>

lemma covers_sound:
  "covers (Specific as) a \<Longrightarrow> \<exists>b \<in> set as. underscored b = underscored a"
  by (auto simp: list_ex_iff intro: bexI [of _ a] bexI [of _ "hyphenated a"] bexI [of _ "underscored a"])

lemma covers_member: "a \<in> set as \<Longrightarrow> covers (Specific as) a"
  by (auto simp: list_ex_iff)

lemma covers_hyphenated: "covers g (hyphenated a) \<Longrightarrow> covers g a"
  by (cases g) (auto simp: list_ex_iff)

lemma covers_underscored: "covers g (underscored a) \<Longrightarrow> covers g a"
  by (cases g) (auto simp: list_ex_iff)

lemma covers_variants: "covers g a \<or> covers g (hyphenated a) \<or> covers g (underscored a) \<longleftrightarrow> covers g a"
  using covers_hyphenated covers_underscored by blast

lemma covers_mono: "set as \<subseteq> set bs \<Longrightarrow> covers (Specific as) a \<Longrightarrow> covers (Specific bs) a"
  by (auto simp: list_ex_iff)

section \<open>Actions\<close>

datatype effect_type =
  ReadLocal | ReadExternal | WriteLocal | WriteExternal | CredentialedNetwork | Compute | Financial

datatype model_tool_surface = FullSchema | CompactToolInfo

record 'j action_discovery_summary =
  always_required :: "string list"
  conditional_requirements :: "string list"
  summary_notes :: "string list"
  summary_examples :: "'j list"

record 'j action_discovery_metadata =
  meta_name :: string
  meta_summary :: "'j action_discovery_summary option"
  schema_override :: "'j option"

text \<open>JSON schemas are opaque here: \<open>'j\<close> is \<open>serde_json::Value\<close>.\<close>

record 'j action_def =
  action_name :: string
  action_description :: string
  parameters_schema :: 'j
  effects :: "effect_type list"
  requires_approval :: bool
  tool_surface :: model_tool_surface
  discovery :: "'j action_discovery_metadata option"

fun emits_full_schema_tool :: "'j action_def \<Rightarrow> bool" where
  "emits_full_schema_tool a = (case tool_surface a of FullSchema \<Rightarrow> True | CompactToolInfo \<Rightarrow> False)"

definition discovery_name :: "'j action_def \<Rightarrow> string" where
  "discovery_name a = (case discovery a of None \<Rightarrow> action_name a | Some m \<Rightarrow> meta_name m)"

definition discovery_schema :: "'j action_def \<Rightarrow> 'j" where
  "discovery_schema a =
     (case Option.bind (discovery a) schema_override of
        None \<Rightarrow> parameters_schema a | Some s \<Rightarrow> s)"

definition discovery_summary :: "'j action_def \<Rightarrow> 'j action_discovery_summary option" where
  "discovery_summary a = Option.bind (discovery a) meta_summary"

definition matches_name :: "'j action_def \<Rightarrow> string \<Rightarrow> bool" where
  "matches_name a name =
     (let trimmed = trim name; dname = discovery_name a in
      if trimmed = [] then False
      else if action_name a = trimmed \<or> dname = trimmed then True
      else if CHR ''-'' \<in> set trimmed \<or> CHR ''-'' \<in> set (action_name a) \<or> CHR ''-'' \<in> set dname
      then underscored trimmed = underscored (action_name a) \<or> underscored trimmed = underscored dname
      else False)"

lemma underscored_id: "CHR ''-'' \<notin> set a \<Longrightarrow> underscored a = a"
  by (simp add: underscored_def replace_char_absent)

text \<open>The case analysis on hyphens is an optimisation of one comparison of normal forms.\<close>

lemma matches_name_normal:
  "matches_name a name \<longleftrightarrow> trim name \<noteq> [] \<and>
     (underscored (trim name) = underscored (action_name a) \<or>
      underscored (trim name) = underscored (discovery_name a))"
  by (auto simp: matches_name_def Let_def underscored_id)

section \<open>Policies and provenance\<close>

datatype policy_condition =
  Always | ActionMatches (pattern: string) | EffectTypeIs effect_type

datatype policy_effect = Allow | Deny | RequireApproval

record policy_rule =
  rule_name :: string
  condition :: policy_condition
  rule_effect :: policy_effect

datatype provenance =
  FromUser | FromSystem | ToolOutput (tool_action: string) | LlmGenerated | MemoryRetrieval uuid

record 'j capability =
  capability_name_of :: string
  capability_description :: string
  capability_actions :: "'j action_def list"
  knowledge :: "string list"
  policies :: "policy_rule list"

section \<open>Leases\<close>

record capability_lease =
  lease_id :: uuid
  lease_thread :: uuid
  capability_name :: string
  granted_actions :: granted_actions
  granted_at :: utc
  expires_at :: "utc option"
  max_uses :: "nat option"
  uses_remaining :: "nat option"
  revoked :: bool
  revoked_reason :: "string option"

definition is_valid :: "utc \<Rightarrow> capability_lease \<Rightarrow> bool" where
  "is_valid now l =
     (if revoked l then False
      else if (case expires_at l of Some t \<Rightarrow> now \<ge> t | None \<Rightarrow> False) then False
      else if (case uses_remaining l of Some n \<Rightarrow> n = 0 | None \<Rightarrow> False) then False
      else True)"

definition covers_action :: "capability_lease \<Rightarrow> string \<Rightarrow> bool" where
  "covers_action l a = covers (granted_actions l) a"

text \<open>\<open>consume_use\<close> mutates the lease and returns whether a use was left.\<close>

definition consume_use :: "capability_lease \<Rightarrow> bool \<times> capability_lease" where
  "consume_use l =
     (case uses_remaining l of
        None \<Rightarrow> (True, l)
      | Some n \<Rightarrow> if n = 0 then (False, l) else (True, l\<lparr>uses_remaining := Some (n - 1)\<rparr>))"

definition refund_use :: "capability_lease \<Rightarrow> capability_lease" where
  "refund_use l =
     (case (max_uses l, uses_remaining l) of
        (Some m, Some n) \<Rightarrow> if n < m then l\<lparr>uses_remaining := Some (n + 1)\<rparr> else l
      | _ \<Rightarrow> l)"

lemma is_valid_iff:
  "is_valid now l \<longleftrightarrow> \<not> revoked l \<and> (\<forall>t. expires_at l = Some t \<longrightarrow> now < t) \<and>
     uses_remaining l \<noteq> Some 0"
  by (auto simp: is_valid_def split: option.splits)

text \<open>Validity is lost with time, never regained.\<close>

lemma is_valid_antimono: "is_valid now l \<Longrightarrow> before \<le> now \<Longrightarrow> is_valid before l"
  by (fastforce simp: is_valid_iff)

lemma valid_consume: "is_valid now l \<Longrightarrow> fst (consume_use l)"
  by (auto simp: is_valid_iff consume_use_def split: option.splits)

text \<open>The use counter of a lease: present exactly with a maximum, and within it.\<close>

definition uses_ok :: "capability_lease \<Rightarrow> bool" where
  "uses_ok l \<longleftrightarrow>
     (case (max_uses l, uses_remaining l) of
        (None, None) \<Rightarrow> True | (Some m, Some n) \<Rightarrow> n \<le> m | _ \<Rightarrow> False)"

lemma consume_use_ok: "uses_ok l \<Longrightarrow> uses_ok (snd (consume_use l))"
  by (auto simp: uses_ok_def consume_use_def split: option.splits)

lemma refund_use_ok: "uses_ok l \<Longrightarrow> uses_ok (refund_use l)"
  by (auto simp: uses_ok_def refund_use_def split: option.splits)

lemma consume_use_frame [frame_simps]:
  "lease_id (snd (consume_use l)) = lease_id l"
  "lease_thread (snd (consume_use l)) = lease_thread l"
  "granted_actions (snd (consume_use l)) = granted_actions l"
  "expires_at (snd (consume_use l)) = expires_at l"
  "max_uses (snd (consume_use l)) = max_uses l"
  "revoked (snd (consume_use l)) = revoked l"
  by (simp_all add: consume_use_def split: option.splits)

lemma refund_use_frame [frame_simps]:
  "lease_id (refund_use l) = lease_id l"
  "lease_thread (refund_use l) = lease_thread l"
  "granted_actions (refund_use l) = granted_actions l"
  "expires_at (refund_use l) = expires_at l"
  "max_uses (refund_use l) = max_uses l"
  "revoked (refund_use l) = revoked l"
  by (simp_all add: refund_use_def split: option.splits)

text \<open>A refund undoes a successful consumption of a lease whose counter is in order.\<close>

lemma refund_after_consume:
  assumes "uses_ok l" and "fst (consume_use l)"
  shows "refund_use (snd (consume_use l)) = l"
  using assms
  by (cases l) (auto simp: uses_ok_def consume_use_def refund_use_def split: option.splits if_splits)

section \<open>The interface of a lease source\<close>

text \<open>
  What a caller that looks up a lease for an action relies on. \<open>holds m l\<close> says the source
  \<open>m\<close> contains \<open>l\<close>; \<open>fair o m\<close> that the iteration order \<open>o\<close> visits all of it.
\<close>

locale lease_source =
  fixes find_lease :: "'o \<Rightarrow> utc \<Rightarrow> uuid \<Rightarrow> string \<Rightarrow> 'm \<Rightarrow> capability_lease option"
    and holds :: "'m \<Rightarrow> capability_lease \<Rightarrow> bool"
    and fair :: "'o \<Rightarrow> 'm \<Rightarrow> bool"
  assumes find_sound: "find_lease ord now tid a m = Some l \<Longrightarrow>
      holds m l \<and> lease_thread l = tid \<and> is_valid now l \<and> covers_action l a"
    and find_complete: "fair ord m \<Longrightarrow> holds m l \<Longrightarrow> lease_thread l = tid \<Longrightarrow> is_valid now l \<Longrightarrow>
      covers_action l a \<Longrightarrow> find_lease ord now tid a m \<noteq> None"
begin

lemma find_iff:
  "fair ord m \<Longrightarrow> find_lease ord now tid a m \<noteq> None \<longleftrightarrow>
     (\<exists>l. holds m l \<and> lease_thread l = tid \<and> is_valid now l \<and> covers_action l a)"
  using find_sound find_complete by blast

text \<open>A decision that allows exactly on a lease found and still valid a moment later.\<close>

lemma allowed_needs_lease:
  assumes "case find_lease ord now tid a m of Some l \<Rightarrow> is_valid later l | None \<Rightarrow> False"
  shows "\<exists>l. holds m l \<and> lease_thread l = tid \<and> is_valid later l \<and> covers_action l a"
  using assms by (auto dest: find_sound split: option.splits)

lemma denied_without_lease:
  assumes "\<And>l. holds m l \<Longrightarrow> lease_thread l = tid \<Longrightarrow> is_valid now l \<Longrightarrow> \<not> covers_action l a"
  shows "find_lease ord now tid a m = None"
  using assms by (cases "find_lease ord now tid a m") (auto dest: find_sound)

end

subsection \<open>Properties\<close>

text \<open>
  The JSON form of a grant is faithful for the wildcard and for every non-empty list of
  actions, and for nothing else: the empty list of actions, which covers no action, is read
  back as the wildcard, which covers every action.
\<close>

theorem granted_json_roundtrip:
  "(deserialize_granted (serialize_granted g) = g) = (g \<noteq> Specific []) \<and>
   \<not> covers (Specific []) a \<and> covers (deserialize_granted (serialize_granted (Specific []))) a"
  by (cases g) (auto simp: deserialize_granted_def)

text \<open>
  Spelling variants: an action lookup that tries the name, its hyphenated and its
  underscored form grants nothing beyond the name itself, and a restricted lease covers a
  name only if a granted action is the same name up to hyphens and underscores.
\<close>

theorem covers_spelling:
  assumes "covers (Specific as) a \<or> covers (Specific as) (hyphenated a) \<or>
    covers (Specific as) (underscored a)"
  shows "covers (Specific as) a \<and> underscored a \<in> underscored ` set as"
proof -
  from assms have "covers (Specific as) a" by (simp only: covers_variants)
  moreover obtain b where "b \<in> set as" and "underscored b = underscored a"
    using covers_sound [OF \<open>covers (Specific as) a\<close>] by blast
  then have "underscored a \<in> underscored ` set as" by (metis imageI)
  ultimately show ?thesis by blast
qed

theorem covers_spelling_witness:
  "covers (Specific [''create-issue'']) ''create_issue'' \<and>
   underscored ''create_issue'' \<in> underscored ` set [''create-issue'']"
  by (rule covers_spelling) (simp add: hyphenated_def replace_char_def)

end
