(* ===== verification/LeaseManager.thy ===== *)
theory LeaseManager
  imports Capability
begin

text \<open>
  The lease manager, \<open>crates/ironclaw_engine/src/capability/lease.rs\<close>: the map of active
  leases and every operation on it. Each operation that takes the lock once is one step;
  \<open>derive_child_leases\<close> reads under one lock and writes under another, so it is two steps
  with other operations possibly between them. The lemmas show that the manager's records
  stay well formed, that revocation is final, that no operation lets a lease be used beyond
  its budget, and that a derived lease never exceeds the one it comes from.
\<close>

section \<open>Operations\<close>

type_synonym lease_map = "uuid \<rightharpoonup> capability_lease"

text \<open>
  The errors with the data their message is formatted from. A \<open>chrono::Duration\<close> is signed.
\<close>

datatype lease_error =
  EffectDuration int
| EffectMaxUses
| LeaseNotFound uuid
| NoLeaseForAction string
| LeaseExpired string
| LeaseExpiredNotFound uuid

definition new_lease ::
  "uuid \<Rightarrow> utc \<Rightarrow> uuid \<Rightarrow> string \<Rightarrow> granted_actions \<Rightarrow> int option \<Rightarrow> nat option \<Rightarrow> capability_lease" where
  "new_lease new_id now tid cap acts duration uses = \<lparr>
     lease_id = new_id,
     lease_thread = tid,
     capability_name = cap,
     granted_actions = acts,
     granted_at = now,
     expires_at = map_option (\<lambda>d. now + d) duration,
     max_uses = uses,
     uses_remaining = uses,
     revoked = False,
     revoked_reason = None\<rparr>"

definition grant ::
  "uuid \<Rightarrow> utc \<Rightarrow> uuid \<Rightarrow> string \<Rightarrow> granted_actions \<Rightarrow> int option \<Rightarrow> nat option \<Rightarrow> lease_map
    \<Rightarrow> (lease_error, capability_lease) result \<times> lease_map" where
  "grant new_id now tid cap acts duration uses m =
     (if (case duration of Some d \<Rightarrow> d \<le> 0 | None \<Rightarrow> False)
      then (Inl (EffectDuration (the duration)), m)
      else if uses = Some 0 then (Inl EffectMaxUses, m)
      else let lease = new_lease new_id now tid cap acts duration uses
           in (Inr lease, m(lease_id lease \<mapsto> lease)))"

definition check :: "utc \<Rightarrow> uuid \<Rightarrow> lease_map \<Rightarrow> (lease_error, capability_lease) result" where
  "check now lid m =
     (case m lid of
        None \<Rightarrow> Inl (LeaseNotFound lid)
      | Some lease \<Rightarrow>
          if \<not> is_valid now lease then Inl (LeaseExpired (capability_name lease)) else Inr lease)"

definition consume_use_of ::
  "utc \<Rightarrow> uuid \<Rightarrow> lease_map \<Rightarrow> (lease_error, unit) result \<times> lease_map" where
  "consume_use_of now lid m =
     (case m lid of
        None \<Rightarrow> (Inl (LeaseExpiredNotFound lid), m)
      | Some lease \<Rightarrow>
          if \<not> is_valid now lease then (Inl (LeaseExpired (capability_name lease)), m)
          else case consume_use lease of (ok, lease') \<Rightarrow>
            (if \<not> ok then Inl (LeaseExpired (capability_name lease)) else Inr (), m(lid \<mapsto> lease')))"

definition refund_use_of :: "uuid \<Rightarrow> lease_map \<Rightarrow> (lease_error, unit) result \<times> lease_map" where
  "refund_use_of lid m =
     (case m lid of
        None \<Rightarrow> (Inl (LeaseExpiredNotFound lid), m)
      | Some lease \<Rightarrow> (Inr (), m(lid \<mapsto> refund_use lease)))"

definition update_granted_actions ::
  "uuid \<Rightarrow> granted_actions \<Rightarrow> lease_map \<Rightarrow> (lease_error, capability_lease) result \<times> lease_map" where
  "update_granted_actions lid acts m =
     (case m lid of
        None \<Rightarrow> (Inl (LeaseNotFound lid), m)
      | Some lease \<Rightarrow>
          let lease' = lease\<lparr>granted_actions := acts\<rparr> in (Inr lease', m(lid \<mapsto> lease')))"

definition revoke :: "uuid \<Rightarrow> string \<Rightarrow> lease_map \<Rightarrow> lease_map" where
  "revoke lid reason m =
     (case m lid of
        None \<Rightarrow> m
      | Some lease \<Rightarrow> m(lid \<mapsto> lease\<lparr>revoked := True, revoked_reason := Some reason\<rparr>))"

text \<open>\<open>expire_stale\<close> returns how many entries \<open>retain\<close> dropped.\<close>

definition expire_stale :: "uuid list \<Rightarrow> utc \<Rightarrow> lease_map \<Rightarrow> nat \<times> lease_map" where
  "expire_stale ks now m =
     (let m' = map_retain (is_valid now) m
      in (length (map_values ks m) - length (map_values ks m'), m'))"

definition active_for_thread :: "uuid list \<Rightarrow> utc \<Rightarrow> uuid \<Rightarrow> lease_map \<Rightarrow> capability_lease list" where
  "active_for_thread ks now tid m =
     filter (\<lambda>l. lease_thread l = tid \<and> is_valid now l) (map_values ks m)"

definition find_lease_for_action ::
  "uuid list \<Rightarrow> utc \<Rightarrow> uuid \<Rightarrow> string \<Rightarrow> lease_map \<Rightarrow> capability_lease option" where
  "find_lease_for_action ks now tid action m =
     find (\<lambda>l. lease_thread l = tid \<and> is_valid now l \<and>
             (covers_action l action \<or> covers_action l (hyphenated action) \<or>
              covers_action l (underscored action)))
       (map_values ks m)"

text \<open>
  \<open>derive_child_leases\<close>, the part before the write lock. A \<open>HashSet\<close> of requested actions
  is a list without repetition, in the order the set iterates; \<open>new_id\<close> is the fresh
  identifier drawn for the child of a parent lease.
\<close>

definition child_grants :: "string list option \<Rightarrow> granted_actions \<Rightarrow> granted_actions" where
  "child_grants requested parent =
     (case requested of
        Some req \<Rightarrow>
          (case parent of
             AllActions \<Rightarrow> Specific req
           | Specific parent_actions \<Rightarrow> Specific (filter (\<lambda>a. a \<in> set req) parent_actions))
      | None \<Rightarrow> parent)"

definition child_lease :: "uuid \<Rightarrow> utc \<Rightarrow> uuid \<Rightarrow> granted_actions \<Rightarrow> capability_lease \<Rightarrow> capability_lease" where
  "child_lease cid now child_thread grants parent = \<lparr>
     lease_id = cid,
     lease_thread = child_thread,
     capability_name = capability_name parent,
     granted_actions = grants,
     granted_at = now,
     expires_at = expires_at parent,
     max_uses = uses_remaining parent,
     uses_remaining = uses_remaining parent,
     revoked = False,
     revoked_reason = None\<rparr>"

fun derive_loop ::
  "(uuid \<Rightarrow> uuid) \<Rightarrow> utc \<Rightarrow> uuid \<Rightarrow> string list option \<Rightarrow> capability_lease list \<Rightarrow> capability_lease list" where
  "derive_loop new_id now child requested [] = []"
| "derive_loop new_id now child requested (parent # ps) =
     (if \<not> is_valid now parent then derive_loop new_id now child requested ps
      else let grants = child_grants requested (granted_actions parent)
           in if grants = Specific [] \<and> requested \<noteq> None
              then derive_loop new_id now child requested ps
              else child_lease (new_id (lease_id parent)) now child grants parent
                     # derive_loop new_id now child requested ps)"

definition derive_children ::
  "uuid list \<Rightarrow> utc \<Rightarrow> utc \<Rightarrow> (uuid \<Rightarrow> uuid) \<Rightarrow> uuid \<Rightarrow> uuid \<Rightarrow> string list option \<Rightarrow> lease_map
    \<Rightarrow> capability_lease list" where
  "derive_children ks now1 now2 new_id parent_thread child_thread requested m =
     derive_loop new_id now2 child_thread requested (active_for_thread ks now1 parent_thread m)"

text \<open>The batch insert under the write lock.\<close>

definition insert_leases :: "capability_lease list \<Rightarrow> lease_map \<Rightarrow> lease_map" where
  "insert_leases cs m = foldl (\<lambda>acc c. acc(lease_id c \<mapsto> c)) m cs"

definition find_and_consume ::
  "uuid list \<Rightarrow> utc \<Rightarrow> uuid \<Rightarrow> string \<Rightarrow> lease_map
    \<Rightarrow> (lease_error, capability_lease) result \<times> lease_map" where
  "find_and_consume ks now tid action m =
     (case find (\<lambda>(k, l). lease_thread l = tid \<and> is_valid now l \<and> covers_action l action)
             (map_entries ks m) of
        None \<Rightarrow> (Inl (NoLeaseForAction action), m)
      | Some (k, lease) \<Rightarrow>
          (case consume_use lease of (ok, lease') \<Rightarrow>
             if \<not> ok then (Inl (LeaseExpired (capability_name lease)), m(k \<mapsto> lease'))
             else (Inr lease', m(k \<mapsto> lease'))))"

section \<open>The manager as a machine\<close>

text \<open>
  The manager together with the derivations that have read the parent's leases but not yet
  inserted their children. Every event is one critical section.
\<close>

record lease_system =
  active :: lease_map
  deriving :: "capability_lease list list"

datatype lease_event =
  EvGrant uuid utc uuid string granted_actions "int option" "nat option"
| EvConsume utc uuid
| EvRefund uuid
| EvUpdate uuid granted_actions
| EvRevoke uuid string
| EvExpire "uuid list" utc
| EvDeriveRead "uuid list" utc utc "uuid \<Rightarrow> uuid" uuid uuid "string list option"
| EvDeriveWrite
| EvFindConsume "uuid list" utc uuid string

fun lease_step :: "lease_system \<Rightarrow> lease_event \<Rightarrow> lease_system" where
  "lease_step s (EvGrant i now tid cap acts d u) =
     s\<lparr>active := snd (grant i now tid cap acts d u (active s))\<rparr>"
| "lease_step s (EvConsume now lid) = s\<lparr>active := snd (consume_use_of now lid (active s))\<rparr>"
| "lease_step s (EvRefund lid) = s\<lparr>active := snd (refund_use_of lid (active s))\<rparr>"
| "lease_step s (EvUpdate lid acts) = s\<lparr>active := snd (update_granted_actions lid acts (active s))\<rparr>"
| "lease_step s (EvRevoke lid reason) = s\<lparr>active := revoke lid reason (active s)\<rparr>"
| "lease_step s (EvExpire ks now) = s\<lparr>active := snd (expire_stale ks now (active s))\<rparr>"
| "lease_step s (EvDeriveRead ks now1 now2 new_id p c req) =
     s\<lparr>deriving := deriving s @ [derive_children ks now1 now2 new_id p c req (active s)]\<rparr>"
| "lease_step s EvDeriveWrite =
     (case deriving s of
        [] \<Rightarrow> s
      | cs # rest \<Rightarrow> s\<lparr>active := insert_leases cs (active s), deriving := rest\<rparr>)"
| "lease_step s (EvFindConsume ks now tid action) =
     s\<lparr>active := snd (find_and_consume ks now tid action (active s))\<rparr>"

definition empty_system :: lease_system where
  "empty_system = \<lparr>active = Map.empty, deriving = []\<rparr>"

subsection \<open>Records stay well formed\<close>

definition lease_map_wf :: "lease_map \<Rightarrow> bool" where
  "lease_map_wf m \<longleftrightarrow> (\<forall>k l. m k = Some l \<longrightarrow> lease_id l = k \<and> uses_ok l)"

definition system_wf :: "lease_system \<Rightarrow> bool" where
  "system_wf s \<longleftrightarrow> lease_map_wf (active s) \<and> (\<forall>cs \<in> set (deriving s). \<forall>c \<in> set cs. uses_ok c)"

lemma lease_map_wfD: "lease_map_wf m \<Longrightarrow> m k = Some l \<Longrightarrow> lease_id l = k \<and> uses_ok l"
  by (simp add: lease_map_wf_def)

lemma lease_map_wf_upd:
  "lease_map_wf m \<Longrightarrow> lease_id l = k \<Longrightarrow> uses_ok l \<Longrightarrow> lease_map_wf (m(k \<mapsto> l))"
  by (simp add: lease_map_wf_def)

lemma uses_ok_update [simp]:
  "uses_ok (l\<lparr>granted_actions := g\<rparr>) = uses_ok l"
  "uses_ok (l\<lparr>revoked := b, revoked_reason := r\<rparr>) = uses_ok l"
  by (simp_all add: uses_ok_def)

lemma uses_ok_new: "uses_ok (new_lease i now tid cap acts d u)"
  by (simp add: uses_ok_def new_lease_def split: option.splits)

lemma uses_ok_child: "uses_ok (child_lease i now t g p)"
  by (simp add: uses_ok_def child_lease_def split: option.splits)

lemma insert_leases_wf:
  "lease_map_wf m \<Longrightarrow> \<forall>c \<in> set cs. uses_ok c \<Longrightarrow> lease_map_wf (insert_leases cs m)"
  unfolding insert_leases_def
  by (induction cs arbitrary: m) (auto intro: lease_map_wf_upd)

lemma derive_loop_children:
  "c \<in> set (derive_loop new_id now t req ps) \<Longrightarrow>
     \<exists>p \<in> set ps. is_valid now p \<and>
       c = child_lease (new_id (lease_id p)) now t (child_grants req (granted_actions p)) p"
  by (induction ps) (auto simp: Let_def split: if_splits)

lemma find_entry:
  assumes "find Q (map_entries ks m) = Some (k, l)"
  shows "m k = Some l \<and> Q (k, l)"
proof -
  from find_SomeD [OF assms] show ?thesis by (simp add: in_map_entries)
qed

lemma op_wf [keeps_intros]:
  assumes "lease_map_wf m"
  shows "lease_map_wf (snd (grant i now tid cap acts d u m))"
    and "lease_map_wf (snd (consume_use_of now lid m))"
    and "lease_map_wf (snd (refund_use_of lid m))"
    and "lease_map_wf (snd (update_granted_actions lid acts m))"
    and "lease_map_wf (revoke lid reason m)"
    and "lease_map_wf (snd (expire_stale ks now m))"
    and "lease_map_wf (snd (find_and_consume ks now tid action m))"
proof -
  note upd = lease_map_wf_upd [OF assms] and wfD = lease_map_wfD [OF assms]
  show "lease_map_wf (snd (grant i now tid cap acts d u m))"
    using assms upd [OF _ uses_ok_new] by (auto simp: grant_def Let_def)
  show "lease_map_wf (snd (consume_use_of now lid m))"
    using assms wfD [of lid] upd [of _ lid] consume_use_ok
    by (auto simp: consume_use_of_def case_prod_unfold frame_simps split: option.splits)
  show "lease_map_wf (snd (refund_use_of lid m))"
    using assms wfD [of lid] upd [of _ lid] refund_use_ok
    by (auto simp: refund_use_of_def frame_simps split: option.splits)
  show "lease_map_wf (snd (update_granted_actions lid acts m))"
    using assms wfD [of lid] by (auto simp: update_granted_actions_def Let_def intro!: upd split: option.splits)
  show "lease_map_wf (revoke lid reason m)"
    using assms wfD [of lid] by (auto simp: revoke_def intro!: upd split: option.splits)
  show "lease_map_wf (snd (expire_stale ks now m))"
    using assms by (auto simp: expire_stale_def Let_def lease_map_wf_def map_retain_apply)
  show "lease_map_wf (snd (find_and_consume ks now tid action m))"
    using assms wfD consume_use_ok
    by (auto simp: find_and_consume_def case_prod_unfold frame_simps dest!: find_entry
        intro!: upd split: option.splits)
qed

lemma lease_step_wf: "system_wf s \<Longrightarrow> system_wf (lease_step s e)"
proof (cases e)
  case (EvDeriveRead ks now1 now2 new_id p c req)
  assume "system_wf s"
  then show ?thesis
    by (auto simp: EvDeriveRead system_wf_def derive_children_def uses_ok_child
        dest!: derive_loop_children)
next
  case EvDeriveWrite
  assume "system_wf s"
  then show ?thesis
    by (auto simp: EvDeriveWrite system_wf_def intro!: insert_leases_wf split: list.splits)
qed (auto simp: system_wf_def op_wf)

interpretation lease_machine: machine lease_step system_wf
  by unfold_locales (rule lease_step_wf)

lemma system_wf_empty: "system_wf empty_system"
  by (simp add: system_wf_def empty_system_def lease_map_wf_def)

subsection \<open>One lease across a run\<close>

text \<open>
  Identifiers are random UUIDs, so no operation draws the identifier of a lease that
  exists or existed: \<open>other_id i e\<close> says the event draws identifiers other than \<open>i\<close>, and
  \<open>not_pending i s\<close> that no half-done derivation has drawn \<open>i\<close>.
\<close>

fun other_id :: "uuid \<Rightarrow> lease_event \<Rightarrow> bool" where
  "other_id i (EvGrant j now tid cap acts d u) \<longleftrightarrow> j \<noteq> i"
| "other_id i (EvDeriveRead ks now1 now2 new_id p c req) \<longleftrightarrow> (\<forall>x. new_id x \<noteq> i)"
| "other_id i e \<longleftrightarrow> True"

definition not_pending :: "uuid \<Rightarrow> lease_system \<Rightarrow> bool" where
  "not_pending i s \<longleftrightarrow> (\<forall>cs \<in> set (deriving s). \<forall>c \<in> set cs. lease_id c \<noteq> i)"

lemma not_pending_step: "not_pending i s \<Longrightarrow> other_id i e \<Longrightarrow> not_pending i (lease_step s e)"
proof (cases e)
  case (EvDeriveRead ks now1 now2 new_id p c req)
  assume "not_pending i s" and "other_id i e"
  then show ?thesis
    by (auto simp: EvDeriveRead not_pending_def derive_children_def child_lease_def
        dest!: derive_loop_children)
next
  case EvDeriveWrite
  assume "not_pending i s"
  then show ?thesis by (auto simp: EvDeriveWrite not_pending_def split: list.splits)
qed (simp_all add: not_pending_def)

lemma insert_leases_other:
  "\<forall>c \<in> set cs. lease_id c \<noteq> i \<Longrightarrow> insert_leases cs m i = m i"
  unfolding insert_leases_def by (induction cs arbitrary: m) auto

text \<open>
  What one event does to the entry of lease \<open>i\<close>: it may drop it, and otherwise rewrites it
  by one of the lease's own operations.
\<close>

inductive lease_moves :: "capability_lease \<Rightarrow> capability_lease \<Rightarrow> bool" where
  moves_same: "lease_moves l l"
| moves_consume: "lease_moves l (snd (consume_use l))"
| moves_refund: "lease_moves l (refund_use l)"
| moves_update: "lease_moves l (l\<lparr>granted_actions := g\<rparr>)"
| moves_revoke: "lease_moves l (l\<lparr>revoked := True, revoked_reason := Some r\<rparr>)"

lemma lease_step_entry:
  assumes "not_pending i s" and "other_id i e"
  shows "case active s i of
      None \<Rightarrow> active (lease_step s e) i = None
    | Some l \<Rightarrow> (case active (lease_step s e) i of None \<Rightarrow> True | Some l' \<Rightarrow> lease_moves l l')"
proof (cases e)
  case (EvGrant j now tid cap acts d u)
  with assms show ?thesis
    by (auto simp: grant_def Let_def new_lease_def intro: moves_same split: option.splits)
next
  case (EvConsume now lid)
  then show ?thesis
    by (auto simp: consume_use_of_def case_prod_unfold intro: lease_moves.intros split: option.splits)
next
  case (EvRefund lid)
  then show ?thesis
    by (auto simp: refund_use_of_def intro: lease_moves.intros split: option.splits)
next
  case (EvUpdate lid acts)
  then show ?thesis
    by (auto simp: update_granted_actions_def Let_def intro: lease_moves.intros split: option.splits)
next
  case (EvRevoke lid reason)
  then show ?thesis
    by (auto simp: revoke_def intro: lease_moves.intros split: option.splits)
next
  case (EvExpire ks now)
  then show ?thesis
    by (auto simp: expire_stale_def Let_def map_retain_def intro: moves_same split: option.splits)
next
  case (EvDeriveRead ks now1 now2 new_id p c req)
  then show ?thesis by (auto intro: moves_same split: option.splits)
next
  case EvDeriveWrite
  with assms(1) show ?thesis
    by (auto simp: not_pending_def insert_leases_other intro: moves_same split: option.splits list.splits)
next
  case (EvFindConsume ks now tid action)
  then show ?thesis
    by (auto simp: find_and_consume_def case_prod_unfold intro: lease_moves.intros
        dest!: find_entry split: option.splits)
qed

lemma lease_moves_revoked: "lease_moves l l' \<Longrightarrow> revoked l \<Longrightarrow> revoked l'"
  by (induction rule: lease_moves.induct) (auto simp: frame_simps)

text \<open>The entry of \<open>i\<close> is gone or revoked, and no derivation will bring it back.\<close>

definition dead_lease :: "uuid \<Rightarrow> lease_system \<Rightarrow> bool" where
  "dead_lease i s \<longleftrightarrow> not_pending i s \<and>
     (case active s i of None \<Rightarrow> True | Some l \<Rightarrow> revoked l)"

interpretation dead_machine: guarded_machine lease_step "dead_lease i" "other_id i" for i
proof unfold_locales
  fix s e
  assume "dead_lease i s" and "other_id i e"
  then show "dead_lease i (lease_step s e)"
    using lease_step_entry [of i s e] not_pending_step [of i s e]
    by (auto simp: dead_lease_def dest: lease_moves_revoked split: option.splits)
qed

subsection \<open>Budget of a lease\<close>

text \<open>Uses of lease \<open>i\<close> that an event takes, and uses it gives back.\<close>

fun uses_taken :: "uuid \<Rightarrow> lease_system \<Rightarrow> lease_event \<Rightarrow> nat" where
  "uses_taken i s (EvConsume now lid) =
     (if lid = i \<and> is_ok (fst (consume_use_of now lid (active s))) then 1 else 0)"
| "uses_taken i s (EvFindConsume ks now tid action) =
     (case fst (find_and_consume ks now tid action (active s)) of
        Inl _ \<Rightarrow> 0 | Inr l \<Rightarrow> if lease_id l = i then 1 else 0)"
| "uses_taken i s e = 0"

fun refunds :: "uuid \<Rightarrow> lease_event \<Rightarrow> nat" where
  "refunds i (EvRefund lid) = (if lid = i then 1 else 0)"
| "refunds i e = 0"

fun total_taken :: "uuid \<Rightarrow> lease_system \<Rightarrow> lease_event list \<Rightarrow> nat" where
  "total_taken i s [] = 0"
| "total_taken i s (e # es) = uses_taken i s e + total_taken i (lease_step s e) es"

definition budget_left :: "uuid \<Rightarrow> lease_system \<Rightarrow> nat" where
  "budget_left i s =
     (case active s i of None \<Rightarrow> 0
      | Some l \<Rightarrow> (case uses_remaining l of None \<Rightarrow> 0 | Some n \<Rightarrow> n))"

definition limited :: "uuid \<Rightarrow> lease_system \<Rightarrow> bool" where
  "limited i s \<longleftrightarrow> (\<forall>l. active s i = Some l \<longrightarrow> uses_remaining l \<noteq> None)"

lemma lease_moves_limited: "lease_moves l l' \<Longrightarrow> uses_remaining l \<noteq> None \<Longrightarrow> uses_remaining l' \<noteq> None"
  by (induction rule: lease_moves.induct)
     (auto simp: consume_use_def refund_use_def split: option.splits)

lemma limited_step:
  assumes "not_pending i s" and "other_id i e" and "limited i s"
  shows "limited i (lease_step s e)"
  using lease_step_entry [OF assms(1,2)] assms(3)
  by (auto simp: limited_def dest: lease_moves_limited split: option.splits)

lemma budget_step:
  assumes "system_wf s" and "not_pending i s" and "other_id i e" and "limited i s"
  shows "budget_left i (lease_step s e) + uses_taken i s e \<le> budget_left i s + refunds i e"
proof (cases e)
  case (EvGrant j now tid cap acts d u)
  with assms(3) show ?thesis by (auto simp: budget_left_def grant_def Let_def new_lease_def)
next
  case (EvConsume now lid)
  with assms(4) show ?thesis
    by (auto simp: budget_left_def limited_def consume_use_of_def consume_use_def
        split: option.splits if_splits)
next
  case (EvRefund lid)
  then show ?thesis
    by (auto simp: budget_left_def refund_use_of_def refund_use_def split: option.splits)
next
  case (EvUpdate lid acts)
  then show ?thesis
    by (auto simp: budget_left_def update_granted_actions_def Let_def split: option.splits)
next
  case (EvRevoke lid reason)
  then show ?thesis by (auto simp: budget_left_def revoke_def split: option.splits)
next
  case (EvExpire ks now)
  then show ?thesis
    by (auto simp: budget_left_def expire_stale_def Let_def map_retain_def split: option.splits)
next
  case (EvDeriveRead ks now1 now2 new_id p c req)
  then show ?thesis by (simp add: budget_left_def)
next
  case EvDeriveWrite
  with assms(2) show ?thesis
    by (auto simp: budget_left_def not_pending_def insert_leases_other split: list.splits)
next
  case (EvFindConsume ks now tid action)
  have wf: "\<And>k l. active s k = Some l \<Longrightarrow> lease_id l = k"
    using assms(1) by (simp add: system_wf_def lease_map_wf_def)
  show ?thesis
  proof (cases "find (\<lambda>(k, l). lease_thread l = tid \<and> is_valid now l \<and> covers_action l action)
      (map_entries ks (active s))")
    case None
    with EvFindConsume show ?thesis by (simp add: budget_left_def find_and_consume_def)
  next
    case (Some kl)
    obtain k l where kl: "kl = (k, l)" by (cases kl)
    with Some have act: "active s k = Some l" by (auto dest: find_entry)
    with EvFindConsume Some kl assms(4) wf [OF act] show ?thesis
      by (auto simp: budget_left_def limited_def find_and_consume_def consume_use_def
          split: option.splits if_splits)
  qed
qed

lemma budget_run:
  "system_wf s \<Longrightarrow> not_pending i s \<Longrightarrow> limited i s \<Longrightarrow> list_all (other_id i) es \<Longrightarrow>
     budget_left i (foldl lease_step s es) + total_taken i s es
       \<le> budget_left i s + sum_list (map (refunds i) es)"
proof (induction es arbitrary: s)
  case Nil
  then show ?case by simp
next
  case (Cons e es)
  have "budget_left i (foldl lease_step (lease_step s e) es) + total_taken i (lease_step s e) es
      \<le> budget_left i (lease_step s e) + sum_list (map (refunds i) es)"
    using Cons by (intro Cons.IH) (auto intro: lease_step_wf not_pending_step limited_step)
  with budget_step [of s i e] Cons.prems show ?case by simp
qed

subsection \<open>Lookup\<close>

lemma find_lease_pred:
  "find_lease_for_action ks now tid a m =
     find (\<lambda>l. lease_thread l = tid \<and> is_valid now l \<and> covers_action l a) (map_values ks m)"
  by (simp add: find_lease_for_action_def covers_action_def covers_variants)

lemma find_lease_Some:
  assumes "find_lease_for_action ks now tid a m = Some l"
  shows "(\<exists>k. m k = Some l) \<and> lease_thread l = tid \<and> is_valid now l \<and> covers_action l a"
proof -
  from assms have "l \<in> set (map_values ks m) \<and> lease_thread l = tid \<and> is_valid now l \<and> covers_action l a"
    unfolding find_lease_pred by (rule find_SomeD)
  then show ?thesis by (auto simp: in_map_values)
qed

interpretation lease_lookup:
  lease_source find_lease_for_action "\<lambda>m l. \<exists>k. m k = Some l" iterates
proof unfold_locales
  fix ks :: "uuid list" and now tid a and m :: lease_map and l
  show "find_lease_for_action ks now tid a m = Some l \<Longrightarrow>
      (\<exists>k. m k = Some l) \<and> lease_thread l = tid \<and> is_valid now l \<and> covers_action l a"
    by (rule find_lease_Some)
next
  fix ks :: "uuid list" and now tid a and m :: lease_map and l
  assume ord: "iterates ks m" and l: "\<exists>k. m k = Some l" "lease_thread l = tid" "is_valid now l"
    "covers_action l a"
  from ord l(1) have "l \<in> set (map_values ks m)" by (simp add: in_map_values_ran)
  with l(2-4) show "find_lease_for_action ks now tid a m \<noteq> None"
    by (auto simp: find_lease_pred find_None_iff)
qed

lemma find_entries_values:
  "map_option snd (find (\<lambda>(k, l). Q l) (map_entries ks m)) = find Q (map_values ks m)"
  by (induction ks) (auto split: option.splits)

subsection \<open>Derivation\<close>

lemma child_grants_le:
  assumes "covers (child_grants req g) a"
  shows "covers g a"
  using assms
  by (cases g; cases req) (auto simp: child_grants_def list_ex_iff)

lemma child_grants_requested:
  assumes "covers (child_grants (Some req) g) a"
  shows "covers (Specific req) a"
  using assms by (cases g) (auto simp: child_grants_def list_ex_iff)

lemma derive_children_parent:
  assumes "c \<in> set (derive_children ks now1 now2 new_id pt ct req m)"
  shows "\<exists>k p. m k = Some p \<and> lease_thread p = pt \<and> is_valid now1 p \<and> is_valid now2 p \<and>
     c = child_lease (new_id (lease_id p)) now2 ct (child_grants req (granted_actions p)) p"
  using assms unfolding derive_children_def active_for_thread_def
  by (fastforce dest!: derive_loop_children simp: in_map_values)

subsection \<open>Properties\<close>

text \<open>
  C2. Budget of a lease: over any interleaving of the manager's operations by any threads,
  the uses taken from a limited lease never exceed what it had left plus what was refunded.
\<close>

theorem lease_budget:
  assumes "system_wf s" and "not_pending i s" and "list_all (other_id i) es"
    and "active s i = Some l" and "uses_remaining l = Some n"
  shows "total_taken i s es \<le> n + sum_list (map (refunds i) es)"
proof -
  have "limited i s" and "budget_left i s = n"
    using assms(4,5) by (simp_all add: limited_def budget_left_def)
  with budget_run [OF assms(1,2) _ assms(3)] show ?thesis by simp
qed

definition sample_system :: lease_system where
  "sample_system = lease_step empty_system (EvGrant 1 0 7 ''github'' AllActions None (Some 2))"

lemma sample_system_active: "active sample_system = [1 \<mapsto> new_lease 1 0 7 ''github'' AllActions None (Some 2)]"
  by (simp add: sample_system_def empty_system_def grant_def Let_def new_lease_def)

lemma sample_system_wf: "system_wf sample_system \<and> not_pending 1 sample_system"
proof
  show "system_wf sample_system"
    unfolding sample_system_def by (rule lease_step_wf [OF system_wf_empty])
  show "not_pending 1 sample_system"
    by (simp add: sample_system_def not_pending_def empty_system_def)
qed

theorem lease_budget_witness:
  "total_taken 1 sample_system [EvConsume 1 1, EvConsume 2 1, EvConsume 3 1] \<le> 2"
  using lease_budget [of sample_system 1 "[EvConsume 1 1, EvConsume 2 1, EvConsume 3 1]"
      "new_lease 1 0 7 ''github'' AllActions None (Some 2)" 2]
    sample_system_wf sample_system_active
  by (simp add: new_lease_def)

text \<open>
  Revocation is final: once a lease is revoked, no sequence of operations by any
  threads, refunds included, makes it valid again.
\<close>

theorem revoked_forever:
  assumes "not_pending i s" and "list_all (other_id i) es"
    and "active s i = Some l" and "revoked l"
  shows "is_ok (check now i (active (foldl lease_step s es))) = False"
proof -
  have "dead_lease i (foldl lease_step s es)"
    by (rule dead_machine.run_inv [OF _ assms(2)]) (simp add: dead_lease_def assms)
  then show ?thesis
    by (auto simp: dead_lease_def check_def is_valid_def split: option.splits)
qed

theorem revoked_forever_witness:
  "is_ok (check 9 1 (active (foldl lease_step
      (lease_step sample_system (EvRevoke 1 ''audit'')) [EvRefund 1, EvUpdate 1 AllActions]))) = False"
proof (rule revoked_forever)
  show "not_pending 1 (lease_step sample_system (EvRevoke 1 ''audit''))"
    using sample_system_wf by (simp add: not_pending_def)
  show "list_all (other_id 1) [EvRefund 1, EvUpdate 1 AllActions]" by simp
  show "active (lease_step sample_system (EvRevoke 1 ''audit'')) 1 =
      Some ((new_lease 1 0 7 ''github'' AllActions None (Some 2))
        \<lparr>revoked := True, revoked_reason := Some ''audit''\<rparr>)"
    by (simp add: sample_system_active revoke_def)
qed simp

text \<open>
  No escalation: a derived lease belongs to the child thread and comes from a lease of
  the parent that is valid at the time; it expires when that lease does, starts with that
  lease's remaining uses, covers only actions that lease covers and, when the child asked
  for a set of actions, only actions of that set (up to hyphens and underscores).
\<close>

theorem derive_no_escalation:
  assumes "c \<in> set (derive_children ks now1 now2 new_id pt ct req m)"
  shows "\<exists>k p. m k = Some p \<and> lease_thread p = pt \<and> is_valid now2 p \<and> lease_thread c = ct \<and>
     expires_at c = expires_at p \<and> max_uses c = uses_remaining p \<and> uses_remaining c = uses_remaining p \<and>
     (\<forall>a. covers_action c a \<longrightarrow> covers_action p a \<and>
        (case req of None \<Rightarrow> True | Some r \<Rightarrow> underscored a \<in> underscored ` set r))"
proof -
  obtain k p where p: "m k = Some p" "lease_thread p = pt" "is_valid now2 p"
    and c: "c = child_lease (new_id (lease_id p)) now2 ct (child_grants req (granted_actions p)) p"
    using derive_children_parent [OF assms] by blast
  have "covers_action p a \<and> (case req of None \<Rightarrow> True | Some r \<Rightarrow> underscored a \<in> underscored ` set r)"
    if "covers_action c a" for a
  proof
    from that have cg: "covers (child_grants req (granted_actions p)) a"
      by (simp add: c child_lease_def covers_action_def)
    then show "covers_action p a" by (simp add: covers_action_def child_grants_le)
    show "case req of None \<Rightarrow> True | Some r \<Rightarrow> underscored a \<in> underscored ` set r"
      using cg by (cases req) (auto dest!: child_grants_requested covers_sound intro!: rev_image_eqI)
  qed
  then show ?thesis using p by (intro exI [of _ k] exI [of _ p]) (simp add: c child_lease_def)
qed

theorem derive_no_escalation_witness:
  "\<exists>k p. active sample_system k = Some p \<and> lease_thread p = 7 \<and> is_valid 6 p \<and>
     expires_at p = None \<and> uses_remaining p = Some 2"
proof -
  let ?c = "child_lease 2 6 8 (Specific [''create_issue'']) (new_lease 1 0 7 ''github'' AllActions None (Some 2))"
  have "?c \<in> set (derive_children [1] 5 6 Suc 7 8 (Some [''create_issue'']) (active sample_system))"
    by (simp add: sample_system_active derive_children_def active_for_thread_def new_lease_def
        is_valid_iff child_grants_def child_lease_def)
  from derive_no_escalation [OF this] obtain k p where "active sample_system k = Some p"
    and "lease_thread p = 7" and "is_valid 6 p" and "expires_at p = expires_at ?c"
    and "uses_remaining p = uses_remaining ?c"
    by metis
  then show ?thesis
    by (intro exI [of _ k] exI [of _ p]) (simp add: child_lease_def new_lease_def)
qed

text \<open>
  The atomic lookup-and-consume agrees with looking up and then consuming: it fails
  exactly when no lease is found, otherwise it consumes one use of the very lease the lookup
  finds; its error branch for an exhausted lease is never taken.
\<close>

theorem find_and_consume_is_lookup_then_consume:
  assumes "lease_map_wf m"
  shows "find_and_consume ks now tid a m =
     (case find_lease_for_action ks now tid a m of
        None \<Rightarrow> (Inl (NoLeaseForAction a), m)
      | Some l \<Rightarrow> (Inr (snd (consume_use l)), snd (consume_use_of now (lease_id l) m)))"
proof (cases "find (\<lambda>(k, l). lease_thread l = tid \<and> is_valid now l \<and> covers_action l a) (map_entries ks m)")
  case None
  then show ?thesis
    using find_entries_values [of "\<lambda>l. lease_thread l = tid \<and> is_valid now l \<and> covers_action l a" ks m]
    by (simp add: find_and_consume_def find_lease_pred)
next
  case (Some kl)
  obtain k l where kl: "kl = (k, l)" by (cases kl)
  with Some have ent: "m k = Some l" "is_valid now l" by (auto dest: find_entry)
  have "find_lease_for_action ks now tid a m = Some l"
    using Some kl
      find_entries_values [of "\<lambda>l. lease_thread l = tid \<and> is_valid now l \<and> covers_action l a" ks m]
    by (simp add: find_lease_pred)
  with Some kl ent valid_consume [OF ent(2)] lease_map_wfD [OF assms ent(1)] show ?thesis
    by (simp add: find_and_consume_def consume_use_of_def case_prod_unfold)
qed

theorem find_and_consume_is_lookup_then_consume_witness:
  "find_and_consume [1] 3 7 ''any'' (active sample_system) =
     (Inr ((new_lease 1 0 7 ''github'' AllActions None (Some 2))\<lparr>uses_remaining := Some 1\<rparr>),
      [1 \<mapsto> (new_lease 1 0 7 ''github'' AllActions None (Some 2))\<lparr>uses_remaining := Some 1\<rparr>])"
proof -
  have wf: "lease_map_wf (active sample_system)" using sample_system_wf by (simp add: system_wf_def)
  show ?thesis
    using find_and_consume_is_lookup_then_consume [OF wf, of "[1]" 3 7 "''any''"]
    by (simp add: sample_system_active find_lease_pred new_lease_def is_valid_iff covers_action_def
        consume_use_of_def consume_use_def)
qed

end
