(* ===== verification/Policy.thy ===== *)
theory Policy
  imports Capability
begin

text \<open>
  The deterministic policy engine, \<open>crates/ironclaw_engine/src/capability/policy.rs\<close>. The
  lemmas show that a decision is the strictest of all the checks and rules that apply,
  whatever their order, and that provenance can only make it stricter.
\<close>

section \<open>Decisions\<close>

datatype policy_decision =
  Allowed | Denied (deny_reason: string) | NeedsApproval (approval_reason: string)

record policy_engine =
  global_policies :: "policy_rule list"
  denied_effects :: "effect_type list"

definition engine_new :: policy_engine where
  "engine_new = \<lparr>global_policies = [], denied_effects = []\<rparr>"

definition add_global_policy :: "policy_rule \<Rightarrow> policy_engine \<Rightarrow> policy_engine" where
  "add_global_policy rule e = e\<lparr>global_policies := global_policies e @ [rule]\<rparr>"

definition deny_effect :: "effect_type \<Rightarrow> policy_engine \<Rightarrow> policy_engine" where
  "deny_effect eff e = e\<lparr>denied_effects := denied_effects e @ [eff]\<rparr>"

definition rule_matches :: "policy_rule \<Rightarrow> 'j action_def \<Rightarrow> bool" where
  "rule_matches rule action =
     (case condition rule of
        Always \<Rightarrow> True
      | ActionMatches p \<Rightarrow> action_name action = p
      | EffectTypeIs eff \<Rightarrow> eff \<in> set (effects action))"

definition merge_decision :: "policy_decision \<Rightarrow> policy_effect \<Rightarrow> string \<Rightarrow> policy_decision" where
  "merge_decision current effect source =
     (case effect of
        Deny \<Rightarrow> Denied source
      | RequireApproval \<Rightarrow>
          (case current of Denied _ \<Rightarrow> current | _ \<Rightarrow> NeedsApproval source)
      | Allow \<Rightarrow> current)"

text \<open>\<open>{effect:?}\<close>.\<close>

fun effect_debug :: "effect_type \<Rightarrow> string" where
  "effect_debug ReadLocal = ''ReadLocal''"
| "effect_debug ReadExternal = ''ReadExternal''"
| "effect_debug WriteLocal = ''WriteLocal''"
| "effect_debug WriteExternal = ''WriteExternal''"
| "effect_debug CredentialedNetwork = ''CredentialedNetwork''"
| "effect_debug Compute = ''Compute''"
| "effect_debug Financial = ''Financial''"

text \<open>The loop over the rules of one list.\<close>

fun apply_rules :: "'j action_def \<Rightarrow> policy_decision \<Rightarrow> policy_rule list \<Rightarrow> policy_decision" where
  "apply_rules action decision [] = decision"
| "apply_rules action decision (rule # rules) =
     apply_rules action
       (if rule_matches rule action then merge_decision decision (rule_effect rule) (rule_name rule)
        else decision) rules"

definition evaluate ::
  "policy_engine \<Rightarrow> utc \<Rightarrow> 'j action_def \<Rightarrow> capability_lease \<Rightarrow> policy_rule list \<Rightarrow> policy_decision" where
  "evaluate engine now action lease capability_policies =
     (if \<not> is_valid now lease
      then Denied (''lease for '' @ capability_name lease @ '' is expired/revoked'')
      else if \<not> covers_action lease (action_name action)
      then Denied (''lease for '' @ capability_name lease @ '' does not cover action '' @ action_name action)
      else case find (\<lambda>eff. eff \<in> set (denied_effects engine)) (effects action) of
        Some eff \<Rightarrow> Denied (''effect type '' @ effect_debug eff @ '' is denied by global policy'')
      | None \<Rightarrow>
          let d1 = apply_rules action Allowed (global_policies engine);
              d2 = apply_rules action d1 capability_policies
          in if requires_approval action
             then merge_decision d2 RequireApproval ''action requires approval'' else d2)"

definition evaluate_with_provenance ::
  "policy_engine \<Rightarrow> utc \<Rightarrow> 'j action_def \<Rightarrow> capability_lease \<Rightarrow> policy_rule list \<Rightarrow> provenance
    \<Rightarrow> policy_decision" where
  "evaluate_with_provenance engine now action lease capability_policies prov =
     (let decision = evaluate engine now action lease capability_policies in
      case prov of
        LlmGenerated \<Rightarrow>
          let d1 = (if Financial \<in> set (effects action)
                    then merge_decision decision RequireApproval
                      ''LLM-generated data cannot trigger financial effects without approval''
                    else decision)
          in if WriteExternal \<in> set (effects action)
             then merge_decision d1 RequireApproval
               ''LLM-generated data requires approval for external writes''
             else d1
      | ToolOutput _ \<Rightarrow>
          if Financial \<in> set (effects action)
          then merge_decision decision RequireApproval
            ''tool output data requires approval for financial effects''
          else decision
      | FromUser \<Rightarrow> decision
      | FromSystem \<Rightarrow> decision
      | MemoryRetrieval _ \<Rightarrow> decision)"

section \<open>A decision is a maximum\<close>

text \<open>The documented precedence, \<open>Deny > RequireApproval > Allow\<close>.\<close>

fun severity :: "policy_decision \<Rightarrow> nat" where
  "severity Allowed = 0"
| "severity (NeedsApproval _) = 1"
| "severity (Denied _) = 2"

fun effect_severity :: "policy_effect \<Rightarrow> nat" where
  "effect_severity Allow = 0"
| "effect_severity RequireApproval = 1"
| "effect_severity Deny = 2"

definition strictest :: "nat list \<Rightarrow> nat" where
  "strictest ns = foldr max ns 0"

lemma strictest_simps [simp]: "strictest [] = 0" "strictest (n # ns) = max n (strictest ns)"
  by (simp_all add: strictest_def)

lemma strictest_append: "strictest (ms @ ns) = max (strictest ms) (strictest ns)"
  by (induction ms) simp_all

lemma strictest_set: "ns \<noteq> [] \<Longrightarrow> strictest ns = Max (set ns)"
proof (induction ns)
  case (Cons n ns)
  then show ?case by (cases ns) auto
qed simp

text \<open>The verdicts of the rules that match an action.\<close>

definition rule_verdicts :: "'j action_def \<Rightarrow> policy_rule list \<Rightarrow> nat list" where
  "rule_verdicts action rules =
     map (\<lambda>r. effect_severity (rule_effect r)) (filter (\<lambda>r. rule_matches r action) rules)"

lemma severity_merge: "severity (merge_decision d e src) = max (severity d) (effect_severity e)"
  by (cases d; cases e) (simp_all add: merge_decision_def)

lemma severity_le: "severity d \<le> 2"
  by (cases d) simp_all

lemma severity_apply_rules:
  "severity (apply_rules action d rules) = max (severity d) (strictest (rule_verdicts action rules))"
  by (induction rules arbitrary: d)
     (simp_all add: rule_verdicts_def severity_merge max.assoc max.left_commute)

lemma severity_evaluate:
  "severity (evaluate engine now action lease caps) =
     (if \<not> is_valid now lease \<or> \<not> covers_action lease (action_name action) \<or>
         list_ex (\<lambda>eff. eff \<in> set (denied_effects engine)) (effects action)
      then 2
      else strictest (rule_verdicts action (global_policies engine @ caps)
             @ [if requires_approval action then 1 else 0]))"
proof (cases "find (\<lambda>eff. eff \<in> set (denied_effects engine)) (effects action)")
  case None
  then have "\<not> list_ex (\<lambda>eff. eff \<in> set (denied_effects engine)) (effects action)"
    by (auto simp: find_None_iff list_ex_iff)
  with None show ?thesis
    by (simp add: evaluate_def Let_def severity_merge severity_apply_rules rule_verdicts_def
        strictest_append max.assoc)
next
  case (Some eff)
  then have "list_ex (\<lambda>eff. eff \<in> set (denied_effects engine)) (effects action)"
    by (intro find_Some_ex [THEN iffD1] exI)
  with Some show ?thesis by (simp add: evaluate_def)
qed

text \<open>How strictly provenance alone treats an action.\<close>

definition taint :: "'j action_def \<Rightarrow> provenance \<Rightarrow> nat" where
  "taint action prov =
     (case prov of
        LlmGenerated \<Rightarrow> if Financial \<in> set (effects action) \<or> WriteExternal \<in> set (effects action) then 1 else 0
      | ToolOutput _ \<Rightarrow> if Financial \<in> set (effects action) then 1 else 0
      | _ \<Rightarrow> 0)"

lemma severity_with_provenance:
  "severity (evaluate_with_provenance engine now action lease caps prov) =
     max (severity (evaluate engine now action lease caps)) (taint action prov)"
  by (simp add: evaluate_with_provenance_def taint_def Let_def severity_merge split: provenance.splits)

lemma merge_keeps_deny: "merge_decision (Denied r) RequireApproval src = Denied r"
  by (simp add: merge_decision_def)

lemma severity_0: "severity d = 0 \<longleftrightarrow> d = Allowed"
  by (cases d) simp_all

lemma max_nat_0: "max a b = (0::nat) \<longleftrightarrow> a = 0 \<and> b = 0"
  by (auto simp: max_def)

lemma strictest_0: "strictest ns = 0 \<longleftrightarrow> list_all (\<lambda>n. n = 0) ns"
  by (induction ns) (simp_all add: max_nat_0)

subsection \<open>Properties\<close>

text \<open>
  The decision is the strictest verdict: denial when the lease is invalid, does not
  cover the action, or the action has a denied effect; otherwise the maximum over the
  matching global and capability rules, the action's own approval flag, and the taint of the
  data's origin. No order of the rules changes how strict the decision is.
\<close>

theorem decision_is_strictest:
  "severity (evaluate_with_provenance engine now action lease caps prov) =
     max (taint action prov)
       (if is_valid now lease \<and> covers_action lease (action_name action) \<and>
           list_all (\<lambda>eff. eff \<notin> set (denied_effects engine)) (effects action)
        then strictest ((if requires_approval action then 1 else 0) #
               rule_verdicts action (global_policies engine @ caps))
        else 2)"
  by (auto simp: severity_with_provenance severity_evaluate strictest_append max.commute list_ex_iff list_all_iff)

text \<open>
  An action runs without approval exactly when its lease is valid and covers it, none
  of its effects is denied, it does not ask for approval, no matching rule denies or asks
  for approval, and its data is not tainted for its effects.
\<close>

theorem allowed_iff:
  "(evaluate_with_provenance engine now action lease caps prov = Allowed) =
     (is_valid now lease \<and> covers_action lease (action_name action) \<and>
      \<not> list_ex (\<lambda>eff. eff \<in> set (denied_effects engine)) (effects action) \<and>
      \<not> requires_approval action \<and>
      \<not> list_ex (\<lambda>r. rule_matches r action \<and> rule_effect r \<noteq> Allow) (global_policies engine @ caps) \<and>
      taint action prov = 0)"
proof -
  have zero: "effect_severity e = 0 \<longleftrightarrow> e = Allow" for e by (cases e) simp_all
  have rules: "strictest (rule_verdicts action rs) = 0 \<longleftrightarrow>
      \<not> list_ex (\<lambda>r. rule_matches r action \<and> rule_effect r \<noteq> Allow) rs" for rs
    by (auto simp: strictest_0 rule_verdicts_def list_all_iff list_ex_iff zero)
  have sev: "(evaluate_with_provenance engine now action lease caps prov = Allowed) =
      (severity (evaluate_with_provenance engine now action lease caps prov) = 0)"
    by (simp add: severity_0)
  show ?thesis
    unfolding sev severity_with_provenance severity_evaluate max_nat_0 strictest_append rules [symmetric]
    by (simp add: max_nat_0 conj_comms)
qed

end
