(* ===== verification/Planner.thy ===== *)
theory Planner
  imports LeaseManager ThreadMachine "HOL-Library.List_Lexorder" "HOL-Library.Char_ord"
begin

text \<open>
  Which actions a new thread is granted: the tier classification
  (\<open>crates/ironclaw_engine/src/gate/tool_tier.rs\<close>), the capability registry
  (\<open>capability/registry.rs\<close>), the lease planner (\<open>capability/planner.rs\<close>) and the refresh of
  a thread's tool lease (\<open>runtime/lease_refresh.rs\<close>). The lemmas characterise the plan of
  each thread type and what the refresh may add.
\<close>

section \<open>Tiers\<close>

definition autonomous_tool_denylist :: "string list" where
  "autonomous_tool_denylist = [
     ''routine_create'', ''routine_update'', ''routine_delete'', ''routine_fire'',
     ''event_emit'', ''create_job'', ''job_prompt'', ''restart'', ''tool_install'',
     ''tool_auth'', ''tool_activate'', ''tool_remove'', ''tool_upgrade'',
     ''skill_install'', ''skill_remove'', ''secret_list'', ''secret_delete'']"

definition is_autonomous_denylisted :: "string \<Rightarrow> bool" where
  "is_autonomous_denylisted a \<longleftrightarrow> a \<in> set autonomous_tool_denylist"

datatype tool_tier = ReadOnly | Stateful | Privileged | Administrative

text \<open>The derived order of the enum: the order of its variants.\<close>

fun tier_rank :: "tool_tier \<Rightarrow> nat" where
  "tier_rank ReadOnly = 0"
| "tier_rank Stateful = 1"
| "tier_rank Privileged = 2"
| "tier_rank Administrative = 3"

lemma tier_rank_inj: "tier_rank a = tier_rank b \<Longrightarrow> a = b"
  by (cases a; cases b) simp_all

instantiation tool_tier :: linorder
begin

definition less_eq_tool_tier :: "tool_tier \<Rightarrow> tool_tier \<Rightarrow> bool" where
  "a \<le> b \<longleftrightarrow> tier_rank a \<le> tier_rank b"

definition less_tool_tier :: "tool_tier \<Rightarrow> tool_tier \<Rightarrow> bool" where
  "a < b \<longleftrightarrow> tier_rank a < tier_rank b"

instance
  by standard (auto simp: less_eq_tool_tier_def less_tool_tier_def intro: tier_rank_inj)

end

definition classify_tool_tier :: "'j action_def \<Rightarrow> tool_tier" where
  "classify_tool_tier action =
     (if is_autonomous_denylisted (action_name action) then Administrative
      else if requires_approval action then Privileged
      else if effects action \<noteq> [] \<and>
              list_all (\<lambda>e. case e of ReadLocal \<Rightarrow> True | Compute \<Rightarrow> True | _ \<Rightarrow> False) (effects action)
      then ReadOnly
      else Stateful)"

lemma classify_admin: "classify_tool_tier a = Administrative \<longleftrightarrow> is_autonomous_denylisted (action_name a)"
  by (simp add: classify_tool_tier_def)

lemma classify_le_stateful:
  "classify_tool_tier a \<le> Stateful \<longleftrightarrow>
     \<not> is_autonomous_denylisted (action_name a) \<and> \<not> requires_approval a"
  by (simp add: classify_tool_tier_def less_eq_tool_tier_def)

section \<open>Registry\<close>

type_synonym 'j registry = "string \<rightharpoonup> 'j capability"

definition register :: "'j capability \<Rightarrow> 'j registry \<Rightarrow> 'j registry" where
  "register cap r = r(capability_name_of cap \<mapsto> cap)"

definition registry_list :: "string list \<Rightarrow> 'j registry \<Rightarrow> 'j capability list" where
  "registry_list ks r = map_values ks r"

fun find_action_in :: "string \<Rightarrow> 'j capability list \<Rightarrow> (string \<times> 'j action_def) option" where
  "find_action_in a [] = None"
| "find_action_in a (cap # caps) =
     (case find (\<lambda>d. action_name d = a) (capability_actions cap) of
        Some d \<Rightarrow> Some (capability_name_of cap, d)
      | None \<Rightarrow> find_action_in a caps)"

definition find_action :: "string list \<Rightarrow> string \<Rightarrow> 'j registry \<Rightarrow> (string \<times> 'j action_def) option" where
  "find_action ks a r = find_action_in a (map_values ks r)"

definition get_action :: "string \<Rightarrow> string \<Rightarrow> 'j registry \<Rightarrow> 'j action_def option" where
  "get_action cap a r =
     Option.bind (r cap) (\<lambda>c. find (\<lambda>d. action_name d = a) (capability_actions c))"

definition all_actions :: "string list \<Rightarrow> 'j registry \<Rightarrow> 'j action_def list" where
  "all_actions ks r = concat (map capability_actions (map_values ks r))"

text \<open>Capabilities are stored under their own name.\<close>

definition registry_wf :: "'j registry \<Rightarrow> bool" where
  "registry_wf r \<longleftrightarrow> (\<forall>k c. r k = Some c \<longrightarrow> capability_name_of c = k)"

lemma registry_wf_empty: "registry_wf Map.empty"
  by (simp add: registry_wf_def)

lemma registry_wf_register: "registry_wf r \<Longrightarrow> registry_wf (register cap r)"
  by (simp add: registry_wf_def register_def)

lemma find_action_in_Some:
  "find_action_in a caps = Some (n, d) \<Longrightarrow>
     \<exists>c \<in> set caps. capability_name_of c = n \<and> find (\<lambda>d. action_name d = a) (capability_actions c) = Some d"
  by (induction caps) (auto split: option.splits)

text \<open>What \<open>find_action\<close> reports, \<open>get_action\<close> finds under the reported capability.\<close>

lemma find_action_get_action:
  assumes "registry_wf r" and "find_action ks a r = Some (n, d)"
  shows "get_action n a r = Some d"
proof -
  obtain c where c: "c \<in> set (map_values ks r)" "capability_name_of c = n"
    "find (\<lambda>d. action_name d = a) (capability_actions c) = Some d"
    using find_action_in_Some assms(2) unfolding find_action_def by blast
  then obtain k where "r k = Some c" by (auto simp: in_map_values)
  with assms(1) c show ?thesis by (auto simp: registry_wf_def get_action_def)
qed

section \<open>Planner\<close>

record capability_grant_plan =
  plan_capability :: string
  plan_granted :: granted_actions

definition tier_allowed :: "thread_type \<Rightarrow> string \<Rightarrow> tool_tier \<Rightarrow> bool" where
  "tier_allowed ty a tier =
     (case ty of
        Foreground \<Rightarrow> True
      | Research \<Rightarrow> tier \<le> Stateful
      | Mission \<Rightarrow>
          (case tier of
             ReadOnly \<Rightarrow> True
           | Stateful \<Rightarrow> True
           | Privileged \<Rightarrow> \<not> is_autonomous_denylisted a
           | Administrative \<Rightarrow> False))"

definition granted_for :: "thread_type \<Rightarrow> 'j capability \<Rightarrow> string list" where
  "granted_for ty cap =
     map action_name
       (filter (\<lambda>a. tier_allowed ty (action_name a) (classify_tool_tier a)) (capability_actions cap))"

definition plan_for_thread ::
  "string list \<Rightarrow> thread_type \<Rightarrow> 'j registry \<Rightarrow> capability_grant_plan list" where
  "plan_for_thread ks ty r =
     List.map_filter (\<lambda>cap.
         let granted = granted_for ty cap
         in if granted = [] then None
            else Some \<lparr>plan_capability = capability_name_of cap, plan_granted = Specific granted\<rparr>)
       (registry_list ks r)"

text \<open>
  What each thread type is granted, in terms of the action alone. For missions the extra
  test on privileged actions never fails: a denylisted action is administrative.
\<close>

definition type_permits :: "thread_type \<Rightarrow> 'j action_def \<Rightarrow> bool" where
  "type_permits ty a =
     (case ty of
        Foreground \<Rightarrow> True
      | Research \<Rightarrow> \<not> is_autonomous_denylisted (action_name a) \<and> \<not> requires_approval a
      | Mission \<Rightarrow> \<not> is_autonomous_denylisted (action_name a))"

lemma tier_allowed_permits:
  "tier_allowed ty (action_name a) (classify_tool_tier a) \<longleftrightarrow> type_permits ty a"
proof (cases ty)
  case Mission
  then show ?thesis
    by (simp add: tier_allowed_def type_permits_def classify_tool_tier_def)
qed (simp_all add: tier_allowed_def type_permits_def classify_le_stateful)

lemma in_plan:
  "p \<in> set (plan_for_thread ks ty r) \<longleftrightarrow>
     (\<exists>cap \<in> set (map_values ks r). granted_for ty cap \<noteq> [] \<and>
        p = \<lparr>plan_capability = capability_name_of cap, plan_granted = Specific (granted_for ty cap)\<rparr>)"
  by (auto simp: plan_for_thread_def registry_list_def List.map_filter_def Let_def image_iff)

lemma in_granted_for:
  "a \<in> set (granted_for ty cap) \<longleftrightarrow>
     (\<exists>d \<in> set (capability_actions cap). action_name d = a \<and> type_permits ty d)"
  by (auto simp: granted_for_def tier_allowed_permits)

section \<open>Refresh of the tool lease\<close>

text \<open>
  \<open>reconcile_dynamic_tool_lease\<close>. The effect executor and the store are parameters:
  \<open>available\<close> is what \<open>available_actions\<close> answered, \<open>save\<close> the store's \<open>save_lease\<close> when there
  is a store. A string set that is collected and sorted is \<open>sort\<close> of a list without repetition
  (strings are ordered bytewise, as in Rust). An error leaves the changes made before it.
\<close>

definition tools_name :: string where
  "tools_name = ''tools''"

datatype 'e refresh_error = ExecutorError 'e | LeaseFailure lease_error | StoreFailure 'e

definition tools_registry :: "'j action_def list \<Rightarrow> 'j registry" where
  "tools_registry actions = register
     \<lparr>capability_name_of = tools_name, capability_description = ''Available tools'',
      capability_actions = actions, knowledge = [], policies = []\<rparr> Map.empty"

fun save_lease :: "(capability_lease \<Rightarrow> ('e, unit) result) option \<Rightarrow> capability_lease
    \<Rightarrow> ('e refresh_error, unit) result" where
  "save_lease None l = Inr ()"
| "save_lease (Some save) l = (case save l of Inl e \<Rightarrow> Inl (StoreFailure e) | Inr _ \<Rightarrow> Inr ())"

definition reconcile_dynamic_tool_lease ::
  "uuid list \<Rightarrow> utc \<Rightarrow> uuid \<Rightarrow> ('e, 'j action_def list) result
    \<Rightarrow> (capability_lease \<Rightarrow> ('e, unit) result) option
    \<Rightarrow> ('k, 'm, 'v) thread \<Rightarrow> lease_map
    \<Rightarrow> ('e refresh_error, unit) result \<times> ('k, 'm, 'v) thread \<times> lease_map" where
  "reconcile_dynamic_tool_lease ks now new_id available save th m =
     (let active_leases = active_for_thread ks now (thread_id th) m in
      case available of
        Inl e \<Rightarrow> (Inl (ExecutorError e), th, m)
      | Inr actions \<Rightarrow>
          if actions = [] then (Inr (), th, m)
          else
            case find (\<lambda>g. plan_capability g = tools_name)
                   (plan_for_thread [tools_name] (thread_type_of th) (tools_registry actions)) of
              None \<Rightarrow> (Inr (), th, m)
            | Some g \<Rightarrow>
                (case plan_granted g of
                   AllActions \<Rightarrow> (Inr (), th, m)
                 | Specific desired \<Rightarrow>
                     if desired = [] then (Inr (), th, m)
                     else
                       case find (\<lambda>l. capability_name l = tools_name) active_leases of
                         Some existing \<Rightarrow>
                           if is_all (granted_actions existing) then (Inr (), th, m)
                           else
                             let old = granted_list (granted_actions existing);
                                 merged = remdups (old @ desired)
                             in if length merged = length (remdups old) then (Inr (), th, m)
                                else
                                  (case update_granted_actions (lease_id existing) (Specific (sort merged)) m of
                                     (Inl e, m') \<Rightarrow> (Inl (LeaseFailure e), th, m')
                                   | (Inr updated, m') \<Rightarrow> (save_lease save updated, th, m'))
                       | None \<Rightarrow>
                           (case grant new_id now (thread_id th) tools_name
                                   (Specific (sort (remdups desired))) None None m of
                              (Inl e, m') \<Rightarrow> (Inl (LeaseFailure e), th, m')
                            | (Inr lease, m') \<Rightarrow>
                                (case save_lease save lease of
                                   Inl e \<Rightarrow> (Inl e, th, m')
                                 | Inr _ \<Rightarrow>
                                     (Inr (),
                                      (if lease_id lease \<in> set (capability_leases th) then th
                                       else th\<lparr>capability_leases := capability_leases th @ [lease_id lease]\<rparr>),
                                      m')))))"

lemma tools_plan:
  "plan_for_thread [tools_name] ty (tools_registry actions) =
     (let granted = map action_name (filter (type_permits ty) actions)
      in if granted = [] then []
         else [\<lparr>plan_capability = tools_name, plan_granted = Specific granted\<rparr>])"
  by (simp add: plan_for_thread_def registry_list_def tools_registry_def register_def
      granted_for_def tier_allowed_permits Let_def)

text \<open>How one call of the refresh may change the lease map.\<close>

definition refresh_change ::
  "thread_type \<Rightarrow> uuid \<Rightarrow> 'j action_def list \<Rightarrow> lease_map \<Rightarrow> lease_map \<Rightarrow> bool" where
  "refresh_change ty tid actions m m' \<longleftrightarrow>
     m' = m \<or>
     (\<exists>k l acts. m k = Some l \<and> lease_thread l = tid \<and> \<not> is_all (granted_actions l) \<and>
        m' = m(k \<mapsto> l\<lparr>granted_actions := Specific acts\<rparr>) \<and>
        set acts = set (granted_list (granted_actions l)) \<union>
          action_name ` {d \<in> set actions. type_permits ty d}) \<or>
     (\<exists>l acts. m' = m(lease_id l \<mapsto> l) \<and> lease_thread l = tid \<and> granted_actions l = Specific acts \<and>
        set acts = action_name ` {d \<in> set actions. type_permits ty d})"

lemma refresh_changeI:
  assumes "lease_map_wf m"
  shows "refresh_change (thread_type_of th) (thread_id th) actions m
    (snd (snd (reconcile_dynamic_tool_lease ks now new_id (Inr actions) save th m)))"
proof -
  let ?granted = "map action_name (filter (type_permits (thread_type_of th)) actions)"
  let ?find = "find (\<lambda>l. capability_name l = tools_name) (active_for_thread ks now (thread_id th) m)"
  have set_granted: "set ?granted = action_name ` {d \<in> set actions. type_permits (thread_type_of th) d}"
    by auto
  show ?thesis
  proof (cases "actions = [] \<or> ?granted = []")
    case True
    then show ?thesis
      by (auto simp: reconcile_dynamic_tool_lease_def tools_plan refresh_change_def Let_def)
  next
    case False
    show ?thesis
    proof (cases ?find)
      case None
      let ?l = "new_lease new_id now (thread_id th) tools_name (Specific (sort (remdups ?granted))) None None"
      have "snd (snd (reconcile_dynamic_tool_lease ks now new_id (Inr actions) save th m)) = m(lease_id ?l \<mapsto> ?l)"
        using False None
        by (auto simp: reconcile_dynamic_tool_lease_def tools_plan Let_def grant_def split: sum.splits)
      moreover have "lease_thread ?l = thread_id th" and "granted_actions ?l = Specific (sort (remdups ?granted))"
        by (simp_all add: new_lease_def)
      ultimately show ?thesis
        unfolding refresh_change_def using set_granted
        by (intro disjI2 exI [of _ ?l] exI [of _ "sort (remdups ?granted)"]) auto
    next
      case (Some l)
      from find_SomeD [OF Some] obtain k where k: "m k = Some l" "lease_thread l = thread_id th"
        by (auto simp: active_for_thread_def in_map_values)
      have lk: "lease_id l = k" using lease_map_wfD [OF assms k(1)] by simp
      let ?merged = "remdups (granted_list (granted_actions l) @ ?granted)"
      have "snd (snd (reconcile_dynamic_tool_lease ks now new_id (Inr actions) save th m)) = m \<or>
          \<not> is_all (granted_actions l) \<and>
          snd (snd (reconcile_dynamic_tool_lease ks now new_id (Inr actions) save th m)) =
            m(k \<mapsto> l\<lparr>granted_actions := Specific (sort ?merged)\<rparr>)"
        using False Some k lk
        by (auto simp: reconcile_dynamic_tool_lease_def tools_plan Let_def update_granted_actions_def)
      then show ?thesis
      proof (elim disjE conjE)
        assume "\<not> is_all (granted_actions l)"
          and "snd (snd (reconcile_dynamic_tool_lease ks now new_id (Inr actions) save th m)) =
            m(k \<mapsto> l\<lparr>granted_actions := Specific (sort ?merged)\<rparr>)"
        with k set_granted show ?thesis
          unfolding refresh_change_def
          by (intro disjI2 disjI1 exI [of _ k] exI [of _ l] exI [of _ "sort ?merged"]) auto
      qed (simp add: refresh_change_def)
    qed
  qed
qed

section \<open>The denylist and spelling\<close>

lemma hyphenated_no_hyphen: "CHR ''-'' \<notin> set (hyphenated a) \<Longrightarrow> hyphenated a = a"
proof -
  assume no: "CHR ''-'' \<notin> set (hyphenated a)"
  have "CHR ''_'' \<notin> set a"
  proof
    assume "CHR ''_'' \<in> set a"
    then have "CHR ''-'' \<in> set (hyphenated a)" by (force simp: hyphenated_def replace_char_def image_iff)
    with no show False by simp
  qed
  then show ?thesis by (simp add: hyphenated_def replace_char_absent)
qed

lemma denylist_no_hyphen: "a \<in> set autonomous_tool_denylist \<Longrightarrow> underscored a = a"
  by (auto simp: autonomous_tool_denylist_def underscored_def replace_char_def)

lemma plan_granted_permits:
  assumes "p \<in> set (plan_for_thread ks ty r)" and "covers (plan_granted p) a"
  shows "\<exists>cap \<in> set (map_values ks r). \<exists>d \<in> set (capability_actions cap). type_permits ty d \<and>
    (action_name d = a \<or> action_name d = hyphenated a \<or> action_name d = underscored a)"
proof -
  from assms(1) obtain cap where cap: "cap \<in> set (map_values ks r)"
    and p: "plan_granted p = Specific (granted_for ty cap)"
    by (auto simp: in_plan)
  from assms(2) p obtain b where b: "b \<in> set (granted_for ty cap)"
    "b = a \<or> b = hyphenated a \<or> b = underscored a"
    by (auto simp: list_ex_iff)
  from b(1) obtain d where "d \<in> set (capability_actions cap)" "action_name d = b" "type_permits ty d"
    by (auto simp: in_granted_for)
  with cap b(2) show ?thesis by blast
qed

definition sample_action :: "string \<Rightarrow> effect_type list \<Rightarrow> bool \<Rightarrow> unit action_def" where
  "sample_action n effs approval = \<lparr>action_name = n, action_description = [], parameters_schema = (),
     effects = effs, requires_approval = approval, tool_surface = FullSchema, discovery = None\<rparr>"

definition sample_registry :: "unit action_def list \<Rightarrow> unit registry" where
  "sample_registry acts = register
     \<lparr>capability_name_of = ''tools'', capability_description = [], capability_actions = acts,
      knowledge = [], policies = []\<rparr> Map.empty"

text \<open>No entry of a background plan covers a denylisted action.\<close>

lemma planned_not_denylisted:
  assumes "p \<in> set (plan_for_thread ks ty r)" and "ty \<noteq> Foreground"
    and "\<forall>cap \<in> set (map_values ks r). \<forall>d \<in> set (capability_actions cap). CHR ''-'' \<notin> set (action_name d)"
    and "is_autonomous_denylisted a"
  shows "\<not> covers (plan_granted p) a"
proof
  assume "covers (plan_granted p) a"
  then obtain cap d where d: "cap \<in> set (map_values ks r)" "d \<in> set (capability_actions cap)"
    "type_permits ty d" and n: "action_name d = a \<or> action_name d = hyphenated a \<or> action_name d = underscored a"
    using plan_granted_permits [OF assms(1)] by blast
  have "CHR ''-'' \<notin> set (action_name d)" using assms(3) d(1,2) by blast
  with n assms(4) have "action_name d = a"
    by (auto simp: is_autonomous_denylisted_def denylist_no_hyphen dest!: hyphenated_no_hyphen)
  with d(3) assms(2,4) show False by (cases ty) (simp_all add: type_permits_def)
qed

subsection \<open>Properties\<close>

text \<open>
  The plan of a thread is complete and exact: a capability appears with exactly its
  actions the thread type permits, and only when there is one. A mission is granted every
  action that is not on the denylist; a research thread those that also need no approval; a
  foreground thread all.
\<close>

theorem plan_exact:
  "(p \<in> set (plan_for_thread ks ty r)) =
     (\<exists>cap \<in> set (map_values ks r).
        filter (type_permits ty) (capability_actions cap) \<noteq> [] \<and>
        p = \<lparr>plan_capability = capability_name_of cap,
             plan_granted = Specific (map action_name (filter (type_permits ty) (capability_actions cap)))\<rparr>)"
  by (simp add: in_plan granted_for_def tier_allowed_permits)

text \<open>
  Refreshing the tool lease of a thread touches at most one lease of that thread, keeps
  every action it granted, never touches a wildcard, and adds exactly the available actions
  the planner permits for the thread's type, whatever the store answers.
\<close>

theorem refresh_adds_only_planned:
  assumes "lease_map_wf m"
  shows "refresh_change (thread_type_of th) (thread_id th) actions m
    (snd (snd (reconcile_dynamic_tool_lease ks now new_id (Inr actions) save th m)))"
  using assms by (rule refresh_changeI)

theorem refresh_adds_only_planned_witness:
  "refresh_change Mission 7 [sample_action ''echo'' [ReadLocal] False, sample_action ''restart'' [] False]
     Map.empty
     (snd (snd (reconcile_dynamic_tool_lease [] 5 9
        (Inr [sample_action ''echo'' [ReadLocal] False, sample_action ''restart'' [] False] :: (unit, _) result)
        None (thread_new 7 0 [] Mission 2 ''u'' default_config :: (nat, nat, nat) thread) Map.empty)))"
proof -
  have "lease_map_wf Map.empty" by (simp add: lease_map_wf_def)
  from refresh_adds_only_planned [OF this, of "thread_new 7 0 [] Mission 2 ''u'' default_config :: (nat, nat, nat) thread"]
  show ?thesis by (simp add: thread_new_def)
qed

text \<open>
  No background thread gets a denylisted action: as long as registered action names are
  written without hyphens, no lease planned for a mission or research thread covers an
  action of the autonomous denylist under any spelling the lease check accepts.
\<close>

theorem background_never_denylisted:
  assumes "p \<in> set (plan_for_thread ks ty r)" and "ty \<noteq> Foreground"
    and "\<forall>cap \<in> set (map_values ks r). \<forall>d \<in> set (capability_actions cap). CHR ''-'' \<notin> set (action_name d)"
    and "is_autonomous_denylisted a"
  shows "\<not> covers (plan_granted p) a"
  using assms by (rule planned_not_denylisted)

theorem background_never_denylisted_witness:
  "\<not> covers (plan_granted \<lparr>plan_capability = ''tools'', plan_granted = Specific [''echo'']\<rparr>) ''restart''"
proof (rule background_never_denylisted)
  show "\<lparr>plan_capability = ''tools'', plan_granted = Specific [''echo'']\<rparr> \<in>
      set (plan_for_thread [''tools''] Mission
        (sample_registry [sample_action ''echo'' [ReadLocal] False, sample_action ''restart'' [] False]))"
    by (simp add: in_plan sample_registry_def register_def granted_for_def tier_allowed_permits
        type_permits_def sample_action_def is_autonomous_denylisted_def autonomous_tool_denylist_def)
  show "\<forall>cap \<in> set (map_values [''tools'']
        (sample_registry [sample_action ''echo'' [ReadLocal] False, sample_action ''restart'' [] False])).
      \<forall>d \<in> set (capability_actions cap). CHR ''-'' \<notin> set (action_name d)"
    by (simp add: sample_registry_def register_def sample_action_def)
qed (simp_all add: is_autonomous_denylisted_def autonomous_tool_denylist_def)

text \<open>
  The hyphen matters: an action registered as \<open>tool-install\<close> is not on the denylist, so
  a mission's plan grants it, and the lease check then accepts the denylisted name
  \<open>tool_install\<close>; and the classification lets a research thread move money, since an action
  with a financial effect that asks for no approval is only \<open>Stateful\<close>.
\<close>

theorem denylist_bypassed_by_hyphen:
  "\<exists>p \<in> set (plan_for_thread [''tools''] Mission (sample_registry [sample_action ''tool-install'' [Compute] False])).
     is_autonomous_denylisted ''tool_install'' \<and> covers (plan_granted p) ''tool_install'' \<and>
     type_permits Research (sample_action ''pay'' [Financial, WriteExternal] False)"
proof -
  let ?p = "\<lparr>plan_capability = ''tools'', plan_granted = Specific [''tool-install'']\<rparr>"
  have "?p \<in> set (plan_for_thread [''tools''] Mission (sample_registry [sample_action ''tool-install'' [Compute] False]))"
    by (simp add: in_plan sample_registry_def register_def granted_for_def tier_allowed_permits
        type_permits_def sample_action_def is_autonomous_denylisted_def autonomous_tool_denylist_def)
  moreover have "covers (plan_granted ?p) ''tool_install''"
    by (simp add: hyphenated_def replace_char_def)
  moreover have "is_autonomous_denylisted ''tool_install''"
    by (simp add: is_autonomous_denylisted_def autonomous_tool_denylist_def)
  moreover have "type_permits Research (sample_action ''pay'' [Financial, WriteExternal] False)"
    by (simp add: type_permits_def sample_action_def is_autonomous_denylisted_def autonomous_tool_denylist_def)
  ultimately show ?thesis by blast
qed

end
