(* ===== verification/Gates.thy ===== *)
theory Gates
  imports LeaseManager
begin

text \<open>
  The execution gates of the engine: \<open>crates/ironclaw_engine/src/gate/mod.rs\<close> (decisions,
  contexts and the gate interface), \<open>gate/pipeline.rs\<close> (ordered evaluation) and
  \<open>gate/lease.rs\<close> (the lease gate). The lemmas show that a pipeline fails closed, what
  decides between several gates that stop a call, and that the lease gate allows a call only
  with a lease for it.
\<close>

section \<open>Decisions and contexts\<close>

datatype resume_kind =
  Approval (allow_always: bool)
| Authentication (credential_name: string) (instructions: utext) (auth_url: "string option")
| External (callback_id: string)

fun kind_name :: "resume_kind \<Rightarrow> string" where
  "kind_name (Approval _) = ''approval''"
| "kind_name (Authentication _ _ _) = ''authentication''"
| "kind_name (External _) = ''external confirmation''"

datatype gate_decision =
  GateAllow
| GatePause (pause_reason: string) (resume: resume_kind)
| GateDeny (gate_deny_reason: string)

datatype execution_mode = Interactive | InteractiveAutoApprove | Autonomous | Container

record 'j gate_context =
  ctx_user_id :: string
  ctx_thread_id :: uuid
  ctx_source_channel :: string
  ctx_action_name :: string
  ctx_call_id :: string
  ctx_parameters :: 'j
  ctx_action_def :: "'j action_def"
  ctx_execution_mode :: execution_mode
  ctx_auto_approved :: "string set"

text \<open>
  A gate is a value of the trait \<open>ExecutionGate\<close>: its name, its priority and its evaluation.
\<close>

record 'j execution_gate =
  gate_name :: string
  gate_priority :: nat
  gate_evaluate :: "'j gate_context \<Rightarrow> gate_decision"

section \<open>Pipeline\<close>

text \<open>\<open>sort_by_key\<close> is stable, as \<open>sort_key\<close> is.\<close>

definition pipeline_new :: "'j execution_gate list \<Rightarrow> 'j execution_gate list" where
  "pipeline_new gates = sort_key gate_priority gates"

definition allow_all :: "'j execution_gate list" where
  "allow_all = []"

fun pipeline_evaluate :: "'j execution_gate list \<Rightarrow> 'j gate_context \<Rightarrow> gate_decision" where
  "pipeline_evaluate [] ctx = GateAllow"
| "pipeline_evaluate (gate # gates) ctx =
     (case gate_evaluate gate ctx of
        GateAllow \<Rightarrow> pipeline_evaluate gates ctx
      | GatePause r k \<Rightarrow> GatePause r k
      | GateDeny r \<Rightarrow> GateDeny r)"

lemma pipeline_find:
  "pipeline_evaluate gates ctx =
     (case find (\<lambda>g. gate_evaluate g ctx \<noteq> GateAllow) gates of
        None \<Rightarrow> GateAllow | Some g \<Rightarrow> gate_evaluate g ctx)"
  by (induction gates) (auto split: gate_decision.splits)

lemma find_sorted_key_least:
  assumes "sorted (map f xs)" and "find P xs = Some x" and "y \<in> set xs" and "P y"
  shows "f x \<le> f y"
  using assms by (induction xs) (auto split: if_splits)

text \<open>
  The order in which a pipeline consults its gates is determined by the priorities when
  they differ, whatever order the gates are given in.
\<close>

lemma pipeline_order_irrelevant:
  assumes "set gs = set hs" and "inj_on gate_priority (set gs)" and "distinct gs" and "distinct hs"
  shows "pipeline_new gs = pipeline_new hs"
proof -
  have sorted: "sorted (map gate_priority (pipeline_new xs))" for xs :: "'j execution_gate list"
    by (simp add: pipeline_new_def)
  have set_eq: "set (pipeline_new gs) = set (pipeline_new hs)"
    using assms(1) by (simp add: pipeline_new_def)
  have "map gate_priority (pipeline_new gs) = map gate_priority (pipeline_new hs)"
    using sorted set_eq assms
    by (intro sorted_distinct_set_unique) (auto simp: pipeline_new_def distinct_map)
  with assms(2) set_eq show ?thesis
    by (intro map_inj_on [of gate_priority]) (auto simp: pipeline_new_def assms(1))
qed

section \<open>Lease gate\<close>

text \<open>
  \<open>LeaseGate::evaluate\<close> at a moment: the lookup reads the clock at \<open>now\<close>, the guard of the
  match reads it again at \<open>later\<close>. \<open>show_thread\<close> prints a thread identifier.
\<close>

definition lease_gate_evaluate ::
  "(uuid \<Rightarrow> string) \<Rightarrow> bool \<Rightarrow> uuid list \<Rightarrow> utc \<Rightarrow> utc \<Rightarrow> lease_map \<Rightarrow> 'j gate_context \<Rightarrow> gate_decision" where
  "lease_gate_evaluate show_thread permissive ks now later m ctx =
     (if permissive then GateAllow
      else case find_lease_for_action ks now (ctx_thread_id ctx) (ctx_action_name ctx) m of
        Some lease \<Rightarrow>
          if is_valid later lease then GateAllow
          else GateDeny (''No valid lease for action '' @ [CHR 0x27] @ ctx_action_name ctx @ [CHR 0x27] @ '' on thread ''
                 @ show_thread (ctx_thread_id ctx))
      | None \<Rightarrow> GateDeny (''No valid lease for action '' @ [CHR 0x27] @ ctx_action_name ctx @ [CHR 0x27] @ '' on thread ''
                 @ show_thread (ctx_thread_id ctx)))"

definition lease_gate ::
  "(uuid \<Rightarrow> string) \<Rightarrow> bool \<Rightarrow> uuid list \<Rightarrow> utc \<Rightarrow> utc \<Rightarrow> lease_map \<Rightarrow> 'j execution_gate" where
  "lease_gate show_thread permissive ks now later m =
     \<lparr>gate_name = ''lease'', gate_priority = 10,
      gate_evaluate = lease_gate_evaluate show_thread permissive ks now later m\<rparr>"

lemma lease_gate_allows:
  "lease_gate_evaluate show_thread False ks now later m ctx = GateAllow \<longleftrightarrow>
     (case find_lease_for_action ks now (ctx_thread_id ctx) (ctx_action_name ctx) m of
        Some l \<Rightarrow> is_valid later l | None \<Rightarrow> False)"
  by (simp add: lease_gate_evaluate_def split: option.splits)

lemma lease_gate_needs_lease:
  assumes "lease_gate_evaluate show_thread False ks now later m ctx = GateAllow"
  shows "\<exists>k l. m k = Some l \<and> lease_thread l = ctx_thread_id ctx \<and> is_valid later l \<and>
    covers_action l (ctx_action_name ctx)"
  using lease_lookup.allowed_needs_lease [OF assms [unfolded lease_gate_allows]] by blast

text \<open>A call that passes a pipeline with the enforcing lease gate has a lease.\<close>

lemma allowed_pipeline_lease:
  assumes "lease_gate show_thread False ks now later m \<in> set gates"
    and "pipeline_evaluate (pipeline_new gates) ctx = GateAllow"
  shows "\<exists>k l. m k = Some l \<and> lease_thread l = ctx_thread_id ctx \<and>
    covers_action l (ctx_action_name ctx) \<and> is_valid later l"
proof -
  have "find (\<lambda>g. gate_evaluate g ctx \<noteq> GateAllow) (pipeline_new gates) = None"
  proof (cases "find (\<lambda>g. gate_evaluate g ctx \<noteq> GateAllow) (pipeline_new gates)")
    case (Some g)
    with assms(2) find_SomeD [OF Some] show ?thesis by (simp add: pipeline_find)
  qed
  with assms(1) have "gate_evaluate (lease_gate show_thread False ks now later m) ctx = GateAllow"
    by (auto simp: find_None_iff pipeline_new_def)
  then have "lease_gate_evaluate show_thread False ks now later m ctx = GateAllow"
    by (simp add: lease_gate_def)
  from lease_gate_needs_lease [OF this] show ?thesis by blast
qed

subsection \<open>Properties\<close>

text \<open>
  A pipeline fails closed: a call proceeds exactly when every gate allows it, and
  otherwise the decision is that of a gate that stops it with the lowest priority number
  among all the gates that do.
\<close>

theorem pipeline_fails_closed:
  "if pipeline_evaluate (pipeline_new gates) ctx = GateAllow
   then list_all (\<lambda>g. gate_evaluate g ctx = GateAllow) gates
   else \<exists>g. g \<in> set gates \<and> gate_evaluate g ctx \<noteq> GateAllow \<and>
     pipeline_evaluate (pipeline_new gates) ctx = gate_evaluate g ctx \<and>
     list_all (\<lambda>h. gate_evaluate h ctx = GateAllow \<or> gate_priority g \<le> gate_priority h) gates"
proof (cases "find (\<lambda>g. gate_evaluate g ctx \<noteq> GateAllow) (pipeline_new gates)")
  case None
  then have "list_all (\<lambda>g. gate_evaluate g ctx = GateAllow) gates"
    by (simp add: find_None_iff pipeline_new_def list_all_iff)
  with None show ?thesis by (simp add: pipeline_find)
next
  case (Some g)
  have sorted: "sorted (map gate_priority (pipeline_new gates))" by (simp add: pipeline_new_def)
  have least: "gate_evaluate h ctx = GateAllow \<or> gate_priority g \<le> gate_priority h" if "h \<in> set gates" for h
    using find_sorted_key_least [OF sorted Some, of h] that by (auto simp: pipeline_new_def)
  from find_SomeD [OF Some] have "g \<in> set gates" and "gate_evaluate g ctx \<noteq> GateAllow"
    by (simp_all add: pipeline_new_def)
  with Some least show ?thesis by (auto simp: pipeline_find list_all_iff)
qed

text \<open>
  C1. Authorization end to end: when a pipeline holds the enforcing lease gate, a tool call
  proceeds only if the calling thread has a lease that covers the action, is not revoked, is
  not expired and has a use left, whatever the other gates are.
\<close>

theorem call_needs_lease:
  assumes "lease_gate show_thread False ks now later m \<in> set gates"
    and "pipeline_evaluate (pipeline_new gates) ctx = GateAllow"
  shows "\<exists>k l. m k = Some l \<and> lease_thread l = ctx_thread_id ctx \<and>
    covers_action l (ctx_action_name ctx) \<and> is_valid later l"
  using assms by (rule allowed_pipeline_lease)

definition sample_context :: "unit gate_context" where
  "sample_context = \<lparr>ctx_user_id = ''u'', ctx_thread_id = 7, ctx_source_channel = ''web'',
     ctx_action_name = ''create_issue'', ctx_call_id = ''c'', ctx_parameters = (),
     ctx_action_def = \<lparr>action_name = ''create_issue'', action_description = [], parameters_schema = (),
       effects = [], requires_approval = False, tool_surface = FullSchema, discovery = None\<rparr>,
     ctx_execution_mode = Autonomous, ctx_auto_approved = {}\<rparr>"

theorem call_needs_lease_witness:
  "\<exists>k l. active sample_system k = Some l \<and> lease_thread l = 7 \<and>
    covers_action l ''create_issue'' \<and> is_valid 4 l"
proof -
  let ?g = "lease_gate (\<lambda>_. []) False [1] 3 4 (active sample_system)"
  have "?g \<in> set [?g]" by simp
  moreover have "lease_gate_evaluate (\<lambda>_. []) False [1] 3 4 (active sample_system) sample_context = GateAllow"
    by (simp add: lease_gate_allows find_lease_pred sample_system_active
        sample_context_def new_lease_def is_valid_iff covers_action_def)
  then have "pipeline_evaluate (pipeline_new [?g]) sample_context = GateAllow"
    by (simp add: pipeline_new_def lease_gate_def)
  ultimately show ?thesis
    using call_needs_lease [of "\<lambda>_. []" "[1]" 3 4 "active sample_system" "[?g]" sample_context]
    by (simp add: sample_context_def)
qed

end
