(* ===== verification/ThreadTree.thy ===== *)
theory ThreadTree
  imports Prelude
begin

text \<open>
  Parent and child threads, \<open>crates/ironclaw_engine/src/runtime/tree.rs\<close>. The two maps are
  kept as the code keeps them. The lemmas show when the two directions agree, that the walk
  to the root terminates on the trees the runtime builds (each child is a fresh thread), and
  that it does not on a cycle, which \<open>add_child\<close> does not exclude.
\<close>

section \<open>The two maps\<close>

record thread_tree =
  parents :: "uuid \<rightharpoonup> uuid"
  children :: "uuid \<rightharpoonup> uuid list"

definition tree_new :: thread_tree where
  "tree_new = \<lparr>parents = Map.empty, children = Map.empty\<rparr>"

definition children_of :: "thread_tree \<Rightarrow> uuid \<Rightarrow> uuid list" where
  "children_of t i = (case children t i of None \<Rightarrow> [] | Some cs \<Rightarrow> cs)"

definition add_child :: "uuid \<Rightarrow> uuid \<Rightarrow> thread_tree \<Rightarrow> thread_tree" where
  "add_child parent child t =
     \<lparr>parents = (parents t)(child \<mapsto> parent),
      children = (children t)(parent \<mapsto> children_of t parent @ [child])\<rparr>"

definition parent_of :: "thread_tree \<Rightarrow> uuid \<Rightarrow> uuid option" where
  "parent_of t i = parents t i"

definition remove :: "uuid \<Rightarrow> thread_tree \<Rightarrow> thread_tree" where
  "remove i t =
     (let ps = (parents t)(i := None);
          cs = (case parents t i of
                  None \<Rightarrow> children t
                | Some p \<Rightarrow>
                    (case children t p of
                       None \<Rightarrow> children t
                     | Some siblings \<Rightarrow> (children t)(p \<mapsto> filter (\<lambda>c. c \<noteq> i) siblings)))
      in \<lparr>parents = ps, children = cs(i := None)\<rparr>)"

definition is_root :: "thread_tree \<Rightarrow> uuid \<Rightarrow> bool" where
  "is_root t i \<longleftrightarrow> parents t i = None"

text \<open>
  \<open>ancestors\<close> is a \<open>while let\<close> loop without a bound; \<open>None\<close> means it does not return.
\<close>

partial_function (option) ancestors_loop ::
  "(uuid \<rightharpoonup> uuid) \<Rightarrow> uuid \<Rightarrow> uuid list \<Rightarrow> uuid list option" where
  "ancestors_loop ps current result =
     (case ps current of
        None \<Rightarrow> Some result
      | Some parent \<Rightarrow> ancestors_loop ps parent (result @ [parent]))"

definition ancestors :: "thread_tree \<Rightarrow> uuid \<Rightarrow> uuid list option" where
  "ancestors t i = ancestors_loop (parents t) i []"

section \<open>The walk to the root\<close>

text \<open>The chain of parents above a thread, as far as it is finite.\<close>

inductive chain :: "(uuid \<rightharpoonup> uuid) \<Rightarrow> uuid \<Rightarrow> uuid list \<Rightarrow> bool" for ps where
  chain_root: "ps i = None \<Longrightarrow> chain ps i []"
| chain_up: "ps i = Some p \<Longrightarrow> chain ps p as \<Longrightarrow> chain ps i (p # as)"

inductive_simps chain_Nil: "chain ps i []"
inductive_simps chain_Cons: "chain ps i (a # as)"

lemma ancestors_loop_chain: "chain ps i as \<Longrightarrow> ancestors_loop ps i acc = Some (acc @ as)"
  by (induction arbitrary: acc rule: chain.induct) (simp_all add: ancestors_loop.simps)

lemma ancestors_loop_sound:
  assumes "ancestors_loop ps i acc = Some r"
  shows "\<exists>as. chain ps i as \<and> r = acc @ as"
proof (rule ancestors_loop.raw_induct
    [where P = "\<lambda>ps i acc r. \<exists>as. chain ps i as \<and> r = acc @ as", OF _ assms])
  fix f :: "(uuid \<rightharpoonup> uuid) \<Rightarrow> uuid \<Rightarrow> uuid list \<Rightarrow> uuid list option" and ps i acc r
  assume IH: "\<And>ps i acc r. f ps i acc = Some r \<Longrightarrow> \<exists>as. chain ps i as \<and> r = acc @ as"
    and eq: "(case ps i of None \<Rightarrow> Some acc | Some parent \<Rightarrow> f ps parent (acc @ [parent])) = Some r"
  show "\<exists>as. chain ps i as \<and> r = acc @ as"
  proof (cases "ps i")
    case None
    with eq show ?thesis by (auto intro: chain_root)
  next
    case (Some p)
    with eq IH obtain as where "chain ps p as" and "r = (acc @ [p]) @ as" by fastforce
    with Some show ?thesis by (auto intro: chain_up)
  qed
qed

lemma ancestors_iff: "ancestors t i = Some as \<longleftrightarrow> chain (parents t) i as"
  unfolding ancestors_def using ancestors_loop_chain ancestors_loop_sound by fastforce

lemma chain_unique: "chain ps i as \<Longrightarrow> chain ps i bs \<Longrightarrow> as = bs"
proof (induction arbitrary: bs rule: chain.induct)
  case (chain_root i)
  show ?case
    using chain_root.prems by (rule chain.cases) (use chain_root.hyps in auto)
next
  case (chain_up i p as)
  have "\<exists>bs'. bs = p # bs' \<and> chain ps p bs'"
    using chain_up.prems by (rule chain.cases) (use chain_up.hyps(1) in auto)
  with chain_up.IH show ?case by blast
qed

text \<open>No chain leaves a set of threads that all have a parent in the set: a cycle.\<close>

lemma closed_no_chain:
  assumes "chain ps i as" and "i \<in> C" and "\<forall>j \<in> C. \<exists>p \<in> C. ps j = Some p"
  shows False
  using assms by (induction rule: chain.induct) fastforce+

text \<open>On a chain that reaches \<open>c\<close>, every thread before \<open>c\<close> has its parent on the way to \<open>c\<close>.\<close>

lemma chain_way_to:
  assumes "chain ps i as" and "c \<in> set (i # as)"
  shows "\<forall>j \<in> set (takeWhile (\<lambda>x. x \<noteq> c) (i # as)).
    \<exists>q \<in> insert c (set (takeWhile (\<lambda>x. x \<noteq> c) (i # as))). ps j = Some q"
  using assms
proof (induction rule: chain.induct)
  case (chain_root i)
  then show ?case by simp
next
  case (chain_up i p as)
  then show ?case by (cases "i = c"; cases "p = c") auto
qed

section \<open>Trees the runtime builds\<close>

text \<open>
  A spawned thread is fresh: it is not in the tree yet and is not its own parent.
\<close>

definition agrees :: "thread_tree \<Rightarrow> bool" where
  "agrees t \<longleftrightarrow> (\<forall>p c. parents t c = Some p \<longleftrightarrow> c \<in> set (children_of t p))"

lemma agrees_new: "agrees tree_new"
  by (simp add: agrees_def tree_new_def children_of_def)

lemma children_of_add_child:
  "children_of (add_child p c t) q = (if q = p then children_of t p @ [c] else children_of t q)"
  by (simp add: children_of_def add_child_def)

lemma parents_add_child: "parents (add_child p c t) = (parents t)(c \<mapsto> p)"
  by (simp add: add_child_def)

lemma agrees_add_child:
  assumes "agrees t" and "parents t c = None"
  shows "agrees (add_child p c t)"
proof -
  have iff: "parents t d = Some q \<longleftrightarrow> d \<in> set (children_of t q)" for q d
    using assms(1) by (simp add: agrees_def)
  have "c \<notin> set (children_of t q)" for q
    using iff [of c q] assms(2) by simp
  then show ?thesis
    by (auto simp: agrees_def children_of_add_child parents_add_child iff split: if_splits)
qed

text \<open>Spawning a list of (parent, child) pairs in order.\<close>

fun spawn_all :: "thread_tree \<Rightarrow> (uuid \<times> uuid) list \<Rightarrow> thread_tree" where
  "spawn_all t [] = t"
| "spawn_all t ((p, c) # es) = spawn_all (add_child p c t) es"

fun fresh_spawns :: "uuid set \<Rightarrow> (uuid \<times> uuid) list \<Rightarrow> bool" where
  "fresh_spawns seen [] = True"
| "fresh_spawns seen ((p, c) # es) =
     (c \<notin> seen \<and> c \<noteq> p \<and> fresh_spawns (insert p (insert c seen)) es)"

definition wf_tree :: "uuid set \<Rightarrow> thread_tree \<Rightarrow> bool" where
  "wf_tree seen t \<longleftrightarrow> agrees t \<and> dom (parents t) \<union> ran (parents t) \<subseteq> seen \<and>
     (\<forall>i. \<exists>as. chain (parents t) i as)"

lemma chain_fresh_child:
  assumes "chain ps i as" and "c \<notin> set (i # as)"
  shows "chain (ps(c := x)) i as"
  using assms by (induction rule: chain.induct) (auto intro: chain.intros)

lemma chain_members: "chain ps i as \<Longrightarrow> set as \<subseteq> ran ps"
  by (induction rule: chain.induct) (auto intro: ranI)

lemma wf_tree_add_child:
  assumes wf: "wf_tree seen t" and c: "c \<notin> seen" "c \<noteq> p"
  shows "wf_tree (insert p (insert c seen)) (add_child p c t)"
proof -
  have none: "parents t c = None" and not_ran: "c \<notin> ran (parents t)"
    using wf c(1) by (auto simp: wf_tree_def)
  have keep: "chain ((parents t)(c \<mapsto> p)) i as" if "chain (parents t) i as" "i \<noteq> c" for i as
    by (rule chain_fresh_child [OF that(1)]) (use chain_members [OF that(1)] that(2) not_ran in auto)
  have "\<exists>as. chain ((parents t)(c \<mapsto> p)) i as" for i
  proof (cases "i = c")
    case True
    obtain as where "chain (parents t) p as" using wf unfolding wf_tree_def by blast
    with keep c(2) have "chain ((parents t)(c \<mapsto> p)) p as" by blast
    then have "chain ((parents t)(c \<mapsto> p)) c (p # as)" by (intro chain_up) simp_all
    with True show ?thesis by blast
  next
    case False
    moreover obtain as where "chain (parents t) i as" using wf unfolding wf_tree_def by blast
    ultimately show ?thesis using keep by blast
  qed
  moreover have "agrees (add_child p c t)"
    using wf none by (simp add: wf_tree_def agrees_add_child)
  moreover have "dom (parents (add_child p c t)) \<union> ran (parents (add_child p c t))
      \<subseteq> insert p (insert c seen)"
    using wf by (auto simp: wf_tree_def add_child_def ran_def)
  ultimately show ?thesis by (simp add: wf_tree_def add_child_def)
qed

lemma wf_tree_spawn_all:
  "wf_tree seen t \<Longrightarrow> fresh_spawns seen es \<Longrightarrow> \<exists>seen'. wf_tree seen' (spawn_all t es)"
proof (induction es arbitrary: seen t)
  case Nil
  then show ?case by auto
next
  case (Cons e es)
  then show ?case by (cases e) (auto dest: wf_tree_add_child)
qed

lemma wf_tree_new: "wf_tree {} tree_new"
  using agrees_new by (auto simp: wf_tree_def tree_new_def intro: chain_root)

section \<open>Removal\<close>

lemma parents_remove: "parents (remove i t) = (parents t)(i := None)"
  by (simp add: remove_def Let_def)

lemma children_of_remove:
  "children_of (remove i t) q =
     (if q = i then []
      else if parents t i = Some q then filter (\<lambda>c. c \<noteq> i) (children_of t q) else children_of t q)"
  by (auto simp: remove_def children_of_def Let_def split: option.splits)

subsection \<open>Properties\<close>

text \<open>
  On a tree built by spawning fresh threads, the walk to the root returns for every
  thread, and the parent and child maps agree.
\<close>

theorem spawned_tree_walk_returns:
  assumes "fresh_spawns {} es"
  shows "(\<exists>as. ancestors (spawn_all tree_new es) i = Some as) \<and>
    (parent_of (spawn_all tree_new es) c = Some p) = (c \<in> set (children_of (spawn_all tree_new es) p))"
proof -
  obtain seen where "wf_tree seen (spawn_all tree_new es)"
    using wf_tree_spawn_all [OF wf_tree_new assms] by blast
  then show ?thesis by (simp add: wf_tree_def ancestors_iff agrees_def parent_of_def)
qed

theorem spawned_tree_walk_returns_witness:
  "\<exists>as. ancestors (spawn_all tree_new [(1, 2), (2, 3)]) 3 = Some as"
  using spawned_tree_walk_returns [of "[(1, 2), (2, 3)]" 3] by simp

text \<open>
  Adding a thread under one of its own descendants (or under itself) makes the walk to
  the root run for ever: \<open>add_child\<close> does not guard against it and \<open>ancestors\<close> has no bound.
\<close>

theorem cyclic_walk_diverges:
  assumes "ancestors t p = Some as" and "c \<in> set (p # as)"
  shows "ancestors (add_child p c t) c = None"
proof (rule ccontr)
  let ?ps = "(parents t)(c \<mapsto> p)"
  let ?C = "insert c (set (takeWhile (\<lambda>x. x \<noteq> c) (p # as)))"
  assume "ancestors (add_child p c t) c \<noteq> None"
  then obtain bs where chain_c: "chain ?ps c bs"
    by (auto simp: ancestors_iff parents_add_child)
  have "chain (parents t) p as" using assms(1) by (simp add: ancestors_iff)
  note way = chain_way_to [OF this assms(2)]
  have closed: "\<forall>j \<in> ?C. \<exists>q \<in> ?C. ?ps j = Some q"
  proof
    fix j assume "j \<in> ?C"
    show "\<exists>q \<in> ?C. ?ps j = Some q"
    proof (cases "j = c")
      case True
      have "p \<in> ?C" by simp
      with True show ?thesis by (metis fun_upd_same)
    next
      case False
      with \<open>j \<in> ?C\<close> have "j \<in> set (takeWhile (\<lambda>x. x \<noteq> c) (p # as))" by blast
      with way have "\<exists>q \<in> ?C. parents t j = Some q" by blast
      with False show ?thesis by (metis fun_upd_other)
    qed
  qed
  have "c \<in> ?C" by blast
  then show False using closed by (rule closed_no_chain [OF chain_c])
qed

theorem cyclic_walk_diverges_witness:
  "ancestors (add_child 2 1 (add_child 1 2 tree_new)) 1 = None"
proof (rule cyclic_walk_diverges)
  show "ancestors (add_child 1 2 tree_new) 2 = Some [1]"
    by (auto simp: ancestors_iff parents_add_child tree_new_def intro!: chain.intros)
qed simp

text \<open>
  Removing a thread keeps the two maps in agreement exactly when it has no child (other
  than itself): the children keep their parent entry, which the child map has lost.
\<close>

theorem remove_agreement:
  assumes "agrees t"
  shows "agrees (remove i t) = list_all (\<lambda>c. c = i) (children_of t i)"
proof -
  have iff: "parents t c = Some p \<longleftrightarrow> c \<in> set (children_of t p)" for p c
    using assms by (simp add: agrees_def)
  show ?thesis
  proof
    assume "agrees (remove i t)"
    then have none: "parents (remove i t) c \<noteq> Some i" for c
      by (simp add: agrees_def children_of_remove)
    have "c = i" if "c \<in> set (children_of t i)" for c
      using none [of c] that by (auto simp: parents_remove iff [symmetric] split: if_splits)
    then show "list_all (\<lambda>c. c = i) (children_of t i)" by (simp add: list_all_iff)
  next
    assume only: "list_all (\<lambda>c. c = i) (children_of t i)"
    have "parents (remove i t) c = Some p \<longleftrightarrow> c \<in> set (children_of (remove i t) p)" for c p
      using only iff [of c p] iff [of i p] by (auto simp: list_all_iff parents_remove children_of_remove)
    then show "agrees (remove i t)" by (simp add: agrees_def)
  qed
qed

theorem remove_agreement_witness:
  "agrees (remove 1 (add_child 1 2 tree_new)) = False"
proof -
  have "agrees (add_child 1 2 tree_new)"
    by (rule agrees_add_child) (simp_all add: agrees_new, simp add: tree_new_def)
  from remove_agreement [OF this, of 1] show ?thesis
    by (simp add: children_of_add_child)
qed

end
