(* ===== verification/Spawn.thy ===== *)
theory Spawn
  imports Planner Gates ThreadTree
begin

text \<open>
  Spawning a thread, the first half of \<open>crates/ironclaw_engine/src/runtime/manager.rs\<close>: from
  the request to the saved thread with its leases, before its execution loop is started. The
  lemmas show what leases a spawned thread holds, that the leases of other threads do not
  change, and what the planner's promise means for the calls the lease gate lets through.
\<close>

section \<open>Spawning\<close>

text \<open>\<open>save\<close> is the store's \<open>save_lease\<close>; the i-th lease gets the identifier \<open>lid i\<close>.\<close>

fun grant_plans ::
  "(capability_lease \<Rightarrow> ('e, unit) result) \<Rightarrow> utc \<Rightarrow> (nat \<Rightarrow> uuid) \<Rightarrow> nat \<Rightarrow> capability_grant_plan list
    \<Rightarrow> ('k, 'm, 'v) thread \<Rightarrow> lease_map
    \<Rightarrow> ('e refresh_error, unit) result \<times> ('k, 'm, 'v) thread \<times> lease_map" where
  "grant_plans save now lid i [] th m = (Inr (), th, m)"
| "grant_plans save now lid i (g # gs) th m =
     (case grant (lid i) now (thread_id th) (plan_capability g) (plan_granted g) None None m of
        (Inl e, m') \<Rightarrow> (Inl (LeaseFailure e), th, m')
      | (Inr lease, m') \<Rightarrow>
          (case save_lease (Some save) lease of
             Inl e \<Rightarrow> (Inl e, th, m')
           | Inr _ \<Rightarrow>
               grant_plans save now lid (Suc i) gs
                 (th\<lparr>capability_leases := capability_leases th @ [lease_id lease]\<rparr>) m'))"

definition apply_metadata :: "(string \<times> 'v) list \<Rightarrow> 'v metadata \<Rightarrow> 'v metadata" where
  "apply_metadata kvs md =
     (case md of
        MetaObject obj \<Rightarrow> if kvs = [] then md else MetaObject (foldl (\<lambda>o' (k, v). o'(k \<mapsto> v)) obj kvs)
      | MetaOther \<Rightarrow> md)"

record spawn_request =
  rq_goal :: utext
  rq_title :: "utext option"
  rq_type :: thread_type
  rq_project :: uuid
  rq_config :: thread_config
  rq_parent :: "uuid option"
  rq_user :: string

text \<open>
  \<open>spawn_thread_with_history\<close> up to \<open>save_thread\<close>. The outcome is the saved thread, or the
  error, with the tree and the lease map as they are then. \<open>goal_rest\<close> is the rest of the
  message that carries the goal.
\<close>

definition spawn_thread_with_history ::
  "(capability_lease \<Rightarrow> ('e, unit) result) \<Rightarrow> (('k, 'm, 'v) thread \<Rightarrow> ('e, unit) result) \<Rightarrow> utc \<Rightarrow> uuid \<Rightarrow> (nat \<Rightarrow> uuid)
    \<Rightarrow> string list \<Rightarrow> 'j registry \<Rightarrow> 'm \<Rightarrow> spawn_request \<Rightarrow> 'm thread_message list \<Rightarrow> (string \<times> 'v) list
    \<Rightarrow> thread_tree \<times> lease_map
    \<Rightarrow> ('e refresh_error, ('k, 'm, 'v) thread) result \<times> thread_tree \<times> lease_map" where
  "spawn_thread_with_history save save_thread now fresh lid ks r goal_rest rq initial_messages initial_metadata =
     (\<lambda>(tree, m).
        let th0 = thread_new fresh now (rq_goal rq) (rq_type rq) (rq_project rq) (rq_user rq) (rq_config rq);
            th1 = (case rq_parent rq of Some p \<Rightarrow> with_parent p th0 | None \<Rightarrow> th0);
            th2 = th1\<lparr>title := rq_title rq, thread_metadata := apply_metadata initial_metadata (thread_metadata th1)\<rparr>;
            tree' = (case rq_parent rq of Some p \<Rightarrow> add_child p fresh tree | None \<Rightarrow> tree)
        in case grant_plans save now lid 0 (plan_for_thread ks (rq_type rq) r) th2 m of
             (Inl e, _, m') \<Rightarrow> (Inl e, tree', m')
           | (Inr _, th3, m') \<Rightarrow>
               let th4 = add_message now \<lparr>msg_role = RoleUser, msg_content = goal th3, msg_rest = goal_rest\<rparr>
                           (th3\<lparr>messages := messages th3 @ initial_messages\<rparr>)
               in case save_thread th4 of
                    Inl e \<Rightarrow> (Inl (StoreFailure e), tree', m')
                  | Inr _ \<Rightarrow> (Inr th4, tree', m'))"

definition spawn_thread ::
  "(capability_lease \<Rightarrow> ('e, unit) result) \<Rightarrow> (('k, 'm, 'v) thread \<Rightarrow> ('e, unit) result) \<Rightarrow> utc \<Rightarrow> uuid \<Rightarrow> (nat \<Rightarrow> uuid)
    \<Rightarrow> string list \<Rightarrow> 'j registry \<Rightarrow> 'm \<Rightarrow> spawn_request \<Rightarrow> thread_tree \<times> lease_map
    \<Rightarrow> ('e refresh_error, ('k, 'm, 'v) thread) result \<times> thread_tree \<times> lease_map" where
  "spawn_thread save save_thread now fresh lid ks r goal_rest rq =
     spawn_thread_with_history save save_thread now fresh lid ks r goal_rest (rq\<lparr>rq_title := None\<rparr>) [] []"

section \<open>The leases of a spawned thread\<close>

lemma grant_forever:
  "grant i now tid cap acts None None m =
    (Inr (new_lease i now tid cap acts None None), m(i \<mapsto> new_lease i now tid cap acts None None))"
  by (simp add: grant_def Let_def new_lease_def)

text \<open>The lease for one entry of the plan.\<close>

definition planned_lease :: "utc \<Rightarrow> uuid \<Rightarrow> uuid \<Rightarrow> capability_grant_plan \<Rightarrow> capability_lease" where
  "planned_lease now i tid g = new_lease i now tid (plan_capability g) (plan_granted g) None None"

lemma grant_plans_rest:
  assumes "grant_plans save now lid i (g # gs) th m = (Inr (), th', m')"
  shows "grant_plans save now lid (Suc i) gs (th\<lparr>capability_leases := capability_leases th @ [lid i]\<rparr>)
    (m(lid i \<mapsto> planned_lease now (lid i) (thread_id th) g)) = (Inr (), th', m')"
  using assms by (auto simp: grant_forever new_lease_def planned_lease_def split: sum.splits)

lemma grant_plans_ok:
  assumes "grant_plans save now lid i gs th m = (Inr (), th', m')" and "inj lid"
  shows "th' = th\<lparr>capability_leases := capability_leases th @ map lid [i..<i + length gs]\<rparr>"
    and "(\<forall>j < length gs. lid (i + j) \<noteq> k) \<Longrightarrow> m' k = m k"
    and "j < length gs \<Longrightarrow> m' (lid (i + j)) = Some (planned_lease now (lid (i + j)) (thread_id th) (gs ! j))"
  using assms(1)
proof (induction gs arbitrary: i j k th m)
  case Nil
  {
    case 1
    then show ?case by simp
  next
    case 2
    then show ?case by simp
  next
    case 3
    then show ?case by simp
  }
next
  case (Cons g gs)
  {
    case 1
    then show ?case
      using Cons.IH(1) [OF grant_plans_rest [OF 1]] by (simp add: upt_conv_Cons del: upt_Suc)
  next
    case 2
    have "lid (Suc i + j') \<noteq> k" if "j' < length gs" for j'
      using 2(1) [rule_format, of "Suc j'"] that by simp
    moreover have "lid i \<noteq> k" using 2(1) [rule_format, of 0] by simp
    ultimately show ?case
      using Cons.IH(2) [OF _ grant_plans_rest [OF 2(2)]] by simp
  next
    case 3
    have other: "\<forall>j' < length gs. lid (Suc i + j') \<noteq> lid i" by (simp add: inj_eq [OF assms(2)])
    show ?case
    proof (cases k)
      case 0
      then show ?thesis
        using Cons.IH(2) [OF other grant_plans_rest [OF 3(2)]] by simp
    next
      case (Suc j')
      then have "j' < length gs" using 3(1) by simp
      from Cons.IH(3) [OF this grant_plans_rest [OF 3(2)]] Suc show ?thesis by simp
    qed
  }
qed

text \<open>What the thread holds after a successful spawn, and what everybody else holds.\<close>

lemma spawn_leases:
  assumes "spawn_thread_with_history save save_thread now fresh lid ks r rest rq ims imd (tree, m) = (Inr th, tree', m')"
    and "inj lid"
  shows "capability_leases th = map lid [0..<length (plan_for_thread ks (rq_type rq) r)]"
    and "(\<forall>j < length (plan_for_thread ks (rq_type rq) r). lid j \<noteq> k) \<Longrightarrow> m' k = m k"
    and "j < length (plan_for_thread ks (rq_type rq) r) \<Longrightarrow>
      m' (lid j) = Some (planned_lease now (lid j) fresh (plan_for_thread ks (rq_type rq) r ! j))"
proof -
  let ?th0 = "thread_new fresh now (rq_goal rq) (rq_type rq) (rq_project rq) (rq_user rq) (rq_config rq) :: ('b, 'c, 'd) thread"
  let ?th1 = "case rq_parent rq of Some p \<Rightarrow> with_parent p ?th0 | None \<Rightarrow> ?th0"
  let ?th2 = "?th1\<lparr>title := rq_title rq, thread_metadata := apply_metadata imd (thread_metadata ?th1)\<rparr>"
  have th2: "thread_id ?th2 = fresh" "capability_leases ?th2 = []"
    by (simp_all add: thread_new_def with_parent_def split: option.splits)
  obtain th3 where loop: "grant_plans save now lid 0 (plan_for_thread ks (rq_type rq) r) ?th2 m = (Inr (), th3, m')"
    and th: "capability_leases th = capability_leases th3"
    using assms(1)
    by (auto simp: spawn_thread_with_history_def Let_def add_message_def add_event_def split: prod.splits sum.splits)
  note ok = grant_plans_ok [OF loop assms(2)]
  show "capability_leases th = map lid [0..<length (plan_for_thread ks (rq_type rq) r)]"
    using ok(1) th2(2) by (simp add: th)
  show "(\<forall>j < length (plan_for_thread ks (rq_type rq) r). lid j \<noteq> k) \<Longrightarrow> m' k = m k"
    using ok(2) by simp
  show "j < length (plan_for_thread ks (rq_type rq) r) \<Longrightarrow>
      m' (lid j) = Some (planned_lease now (lid j) fresh (plan_for_thread ks (rq_type rq) r ! j))"
    using ok(3) [of j] th2(1) by simp
qed

text \<open>The leases a fresh thread holds are those of its plan.\<close>

lemma spawned_holds:
  assumes "spawn_thread_with_history save save_thread now fresh lid ks r rest rq ims imd (tree, m) = (Inr th, tree', m')"
    and "inj lid" and "\<forall>k l. m k = Some l \<longrightarrow> lease_thread l \<noteq> fresh"
  shows "(\<exists>k l. m' k = Some l \<and> lease_thread l = fresh \<and> Q l) \<longleftrightarrow>
    (\<exists>j < length (plan_for_thread ks (rq_type rq) r). Q (planned_lease now (lid j) fresh (plan_for_thread ks (rq_type rq) r ! j)))"
proof
  assume "\<exists>k l. m' k = Some l \<and> lease_thread l = fresh \<and> Q l"
  then obtain k l where kl: "m' k = Some l" "lease_thread l = fresh" "Q l" by blast
  show "\<exists>j < length (plan_for_thread ks (rq_type rq) r). Q (planned_lease now (lid j) fresh (plan_for_thread ks (rq_type rq) r ! j))"
  proof (cases "\<exists>j < length (plan_for_thread ks (rq_type rq) r). lid j = k")
    case True
    with spawn_leases(3) [OF assms(1,2)] kl show ?thesis by auto
  next
    case False
    then have "m' k = m k" using spawn_leases(2) [OF assms(1,2)] by blast
    with kl assms(3) show ?thesis by auto
  qed
next
  assume "\<exists>j < length (plan_for_thread ks (rq_type rq) r). Q (planned_lease now (lid j) fresh (plan_for_thread ks (rq_type rq) r ! j))"
  then show "\<exists>k l. m' k = Some l \<and> lease_thread l = fresh \<and> Q l"
    using spawn_leases(3) [OF assms(1,2)] by (fastforce simp: planned_lease_def new_lease_def)
qed

subsection \<open>Properties\<close>

text \<open>
  A spawned thread holds leases for exactly the actions of its type's plan, whichever
  parent it is given and whatever that parent holds (no lease is derived from the parent's), the
  leases of all other threads stay as they are, and the thread lists one lease for each entry of the plan.
\<close>

theorem spawn_grants_the_plan:
  assumes "spawn_thread_with_history save save_thread now fresh lid ks r rest rq ims imd (tree, m) = (Inr th, tree', m')"
    and "inj lid" and "\<forall>k l. m k = Some l \<longrightarrow> lease_thread l \<noteq> fresh" and "\<forall>j. m (lid j) = None"
  shows "((\<exists>k l. m' k = Some l \<and> lease_thread l = fresh \<and> covers_action l a) \<longleftrightarrow>
      list_ex (\<lambda>g. covers (plan_granted g) a) (plan_for_thread ks (rq_type rq) r)) \<and>
    (tid \<noteq> fresh \<longrightarrow> (\<lambda>k. case m' k of Some l \<Rightarrow> if lease_thread l = tid then Some l else None | None \<Rightarrow> None) =
      (\<lambda>k. case m k of Some l \<Rightarrow> if lease_thread l = tid then Some l else None | None \<Rightarrow> None)) \<and>
    length (capability_leases th) = length (plan_for_thread ks (rq_type rq) r) \<and>
    tree' = (case rq_parent rq of Some p \<Rightarrow> add_child p fresh tree | None \<Rightarrow> tree)"
proof (intro conjI impI)
  let ?gs = "plan_for_thread ks (rq_type rq) r"
  show "(\<exists>k l. m' k = Some l \<and> lease_thread l = fresh \<and> covers_action l a) \<longleftrightarrow>
      list_ex (\<lambda>g. covers (plan_granted g) a) ?gs"
    unfolding spawned_holds [OF assms(1-3), of "\<lambda>l. covers_action l a"]
    by (simp add: list_ex_length covers_action_def planned_lease_def new_lease_def)
  show "length (capability_leases th) = length ?gs"
    using spawn_leases(1) [OF assms(1,2)] by simp
  show "tree' = (case rq_parent rq of Some p \<Rightarrow> add_child p fresh tree | None \<Rightarrow> tree)"
    using assms(1) by (auto simp: spawn_thread_with_history_def Let_def split: prod.splits sum.splits)
  show "(\<lambda>k. case m' k of Some l \<Rightarrow> if lease_thread l = tid then Some l else None | None \<Rightarrow> None) =
      (\<lambda>k. case m k of Some l \<Rightarrow> if lease_thread l = tid then Some l else None | None \<Rightarrow> None)" if "tid \<noteq> fresh"
  proof
    fix k
    show "(case m' k of Some l \<Rightarrow> if lease_thread l = tid then Some l else None | None \<Rightarrow> None) =
        (case m k of Some l \<Rightarrow> if lease_thread l = tid then Some l else None | None \<Rightarrow> None)"
    proof (cases "\<exists>j < length ?gs. lid j = k")
      case True
      with spawn_leases(3) [OF assms(1,2)] assms(4) that show ?thesis
        by (auto simp: planned_lease_def new_lease_def)
    next
      case False
      then have "m' k = m k" using spawn_leases(2) [OF assms(1,2)] by blast
      then show ?thesis by simp
    qed
  qed
qed

definition sample_request :: "thread_type \<Rightarrow> uuid option \<Rightarrow> spawn_request" where
  "sample_request ty parent = \<lparr>rq_goal = [104, 105], rq_title = None, rq_type = ty, rq_project = 2,
     rq_config = default_config, rq_parent = parent, rq_user = ''u''\<rparr>"

definition sample_spawn ::
  "(unit refresh_error, (nat, nat, nat) thread) result \<times> thread_tree \<times> lease_map" where
  "sample_spawn = spawn_thread_with_history (\<lambda>_. Inr ()) (\<lambda>_. Inr ()) 5 7 (\<lambda>j. 100 + j) [''tools'']
     (sample_registry [sample_action ''echo'' [ReadLocal] False, sample_action ''restart'' [] False]) 0
     (sample_request Mission (Some 3)) [] [] (tree_new, Map.empty)"

lemma sample_plan:
  "plan_for_thread [''tools''] Mission
     (sample_registry [sample_action ''echo'' [ReadLocal] False, sample_action ''restart'' [] False]) =
   [\<lparr>plan_capability = ''tools'', plan_granted = Specific [''echo'']\<rparr>]"
  by (simp add: plan_for_thread_def registry_list_def sample_registry_def register_def granted_for_def
      tier_allowed_permits type_permits_def sample_action_def is_autonomous_denylisted_def
      autonomous_tool_denylist_def Let_def)

lemma sample_spawn_ok:
  "\<exists>th tree' m'. sample_spawn = (Inr th, tree', m') \<and>
     m' = [100 \<mapsto> planned_lease 5 100 7 \<lparr>plan_capability = ''tools'', plan_granted = Specific [''echo'']\<rparr>]"
  unfolding sample_spawn_def spawn_thread_with_history_def
  by (simp add: sample_request_def sample_plan Let_def grant_forever planned_lease_def thread_new_def with_parent_def)

theorem spawn_grants_the_plan_witness:
  "\<exists>m' k l. snd (snd sample_spawn) = m' \<and> m' k = Some l \<and> lease_thread l = 7 \<and> covers_action l ''echo''"
proof -
  obtain th tree' m' where ok: "sample_spawn = (Inr th, tree', m')" using sample_spawn_ok by blast
  have inj: "inj (\<lambda>j :: nat. 100 + j)" by (simp add: inj_def)
  from spawn_grants_the_plan [OF ok [unfolded sample_spawn_def] inj, of "''echo''" 0]
  have "\<exists>k l. m' k = Some l \<and> lease_thread l = 7 \<and> covers_action l ''echo''"
    by (simp add: sample_request_def sample_plan)
  then show ?thesis by (simp add: ok)
qed

text \<open>
  C33. The denylist end to end: as long as registered action names are written without
  hyphens, no pipeline that holds the enforcing lease gate lets a mission or research thread
  call an action of the autonomous denylist with the leases it was spawned with.
\<close>

theorem spawned_background_call:
  assumes "spawn_thread_with_history save save_thread now fresh lid ks r rest rq ims imd (tree, m) = (Inr th, tree', m')"
    and "inj lid" and "\<forall>k l. m k = Some l \<longrightarrow> lease_thread l \<noteq> fresh" and "rq_type rq \<noteq> Foreground"
    and "\<forall>cap \<in> set (map_values ks r). \<forall>d \<in> set (capability_actions cap). CHR ''-'' \<notin> set (action_name d)"
    and "lease_gate show_thread False ks' t1 t2 m' \<in> set gates" and "ctx_thread_id ctx = fresh"
    and "pipeline_evaluate (pipeline_new gates) ctx = GateAllow"
  shows "\<not> is_autonomous_denylisted (ctx_action_name ctx)"
proof
  assume deny: "is_autonomous_denylisted (ctx_action_name ctx)"
  obtain k l where "m' k = Some l" "lease_thread l = fresh" "covers_action l (ctx_action_name ctx)"
    using allowed_pipeline_lease [OF assms(6,8)] assms(7) by blast
  then obtain j where j: "j < length (plan_for_thread ks (rq_type rq) r)"
    and cov: "covers_action (planned_lease now (lid j) fresh (plan_for_thread ks (rq_type rq) r ! j)) (ctx_action_name ctx)"
    using spawned_holds [OF assms(1-3), of "\<lambda>l. covers_action l (ctx_action_name ctx)"] by blast
  have "\<not> covers (plan_granted (plan_for_thread ks (rq_type rq) r ! j)) (ctx_action_name ctx)"
    by (rule planned_not_denylisted [OF nth_mem [OF j] assms(4,5) deny])
  with cov show False by (simp add: covers_action_def planned_lease_def new_lease_def)
qed

theorem spawned_background_call_witness:
  "\<exists>m'. snd (snd sample_spawn) = m' \<and>
     pipeline_evaluate (pipeline_new [lease_gate (\<lambda>_. []) False [100] 6 6 m']) (sample_context\<lparr>ctx_action_name := ''echo''\<rparr>) = GateAllow \<and>
     \<not> is_autonomous_denylisted ''echo''"
proof -
  obtain th tree' m' where ok: "sample_spawn = (Inr th, tree', m')"
    and m': "m' = [100 \<mapsto> planned_lease 5 100 7 \<lparr>plan_capability = ''tools'', plan_granted = Specific [''echo'']\<rparr>]"
    using sample_spawn_ok by blast
  let ?g = "lease_gate (\<lambda>_. []) False [100] 6 6 m' :: unit execution_gate"
  let ?ctx = "sample_context\<lparr>ctx_action_name := ''echo''\<rparr>"
  have inj: "inj (\<lambda>j :: nat. 100 + j)" by (simp add: inj_def)
  have "lease_gate_evaluate (\<lambda>_. []) False [100] 6 6 m' ?ctx = GateAllow"
    by (simp add: lease_gate_allows find_lease_pred m' planned_lease_def
        sample_context_def new_lease_def is_valid_iff covers_action_def)
  then have allow: "pipeline_evaluate (pipeline_new [?g]) ?ctx = GateAllow"
    by (simp add: pipeline_new_def lease_gate_def)
  have "\<not> is_autonomous_denylisted (ctx_action_name ?ctx)"
    by (rule spawned_background_call [OF ok [unfolded sample_spawn_def] inj _ _ _ _ _ allow])
       (simp_all add: sample_request_def sample_registry_def register_def sample_action_def sample_context_def)
  then show ?thesis using allow by (simp add: ok)
qed

end
