(* ===== verification/JobState.thy ===== *)
theory JobState
  imports Prelude
begin

text \<open>
  The job state machine and job context, \<open>src/context/state.rs\<close>. Amounts of money are of an
  abstract type with the operations the code uses on \<open>Decimal\<close>; token counters are 64-bit
  words and wrap as they do in a release build. The lemmas show that the transition history
  is an unbroken, bounded record of the lifecycle and when the timestamps are set.
\<close>

section \<open>States\<close>

datatype job_state =
  Pending | InProgress | JobCompleted | Submitted | Accepted | JobFailed | Stuck | Cancelled

fun job_can_transition :: "job_state \<Rightarrow> job_state \<Rightarrow> bool" where
  "job_can_transition JobCompleted JobCompleted = True"
| "job_can_transition Pending InProgress = True"
| "job_can_transition Pending JobFailed = True"
| "job_can_transition Pending Cancelled = True"
| "job_can_transition InProgress JobCompleted = True"
| "job_can_transition InProgress JobFailed = True"
| "job_can_transition InProgress Stuck = True"
| "job_can_transition InProgress Cancelled = True"
| "job_can_transition JobCompleted Submitted = True"
| "job_can_transition JobCompleted JobFailed = True"
| "job_can_transition Submitted Accepted = True"
| "job_can_transition Submitted JobFailed = True"
| "job_can_transition Stuck InProgress = True"
| "job_can_transition Stuck JobFailed = True"
| "job_can_transition Stuck Cancelled = True"
| "job_can_transition _ _ = False"

definition job_terminal :: "job_state \<Rightarrow> bool" where
  "job_terminal s \<longleftrightarrow> s \<in> {Accepted, JobFailed, Cancelled}"

definition job_active :: "job_state \<Rightarrow> bool" where
  "job_active s \<longleftrightarrow> \<not> job_terminal s"

definition is_parallel_blocking :: "job_state \<Rightarrow> bool" where
  "is_parallel_blocking s \<longleftrightarrow> s \<in> {Pending, InProgress, Stuck}"

fun job_state_display :: "job_state \<Rightarrow> string" where
  "job_state_display Pending = ''pending''"
| "job_state_display InProgress = ''in_progress''"
| "job_state_display JobCompleted = ''completed''"
| "job_state_display Submitted = ''submitted''"
| "job_state_display Accepted = ''accepted''"
| "job_state_display JobFailed = ''failed''"
| "job_state_display Stuck = ''stuck''"
| "job_state_display Cancelled = ''cancelled''"

interpretation job_life: lifecycle job_can_transition job_terminal
proof unfold_locales
  fix s t :: job_state
  assume "job_terminal s"
  then show "\<not> job_can_transition s t" by (cases s; cases t) (simp_all add: job_terminal_def)
qed

text \<open>A job that has given up its execution slot never takes one again.\<close>

lemma slot_not_retaken: "job_can_transition s t \<Longrightarrow> is_parallel_blocking t \<Longrightarrow> is_parallel_blocking s"
  by (cases s; cases t) (simp_all add: is_parallel_blocking_def)

lemma self_transition: "job_can_transition s s \<longleftrightarrow> s = JobCompleted"
  by (cases s) simp_all

section \<open>Job context\<close>

record state_transition =
  trans_from :: job_state
  trans_to :: job_state
  trans_time :: utc
  trans_reason :: "string option"

text \<open>
  \<open>'a\<close> is the approval context and \<open>'x\<close> what the operations here only carry (JSON metadata,
  environment, interceptor and output stash).
\<close>

record ('d, 'a, 'x) job_context =
  job_id :: uuid
  job_state_of :: job_state
  job_user_id :: string
  requester_id :: "string option"
  conversation_id :: "uuid option"
  job_title :: utext
  job_description :: utext
  category :: "string option"
  budget :: "'d option"
  budget_token :: "string option"
  bid_amount :: "'d option"
  estimated_cost :: "'d option"
  estimated_duration :: "duration option"
  actual_cost :: 'd
  job_tokens_used :: "64 word"
  job_max_tokens :: "64 word"
  job_created_at :: utc
  job_started_at :: "utc option"
  job_completed_at :: "utc option"
  repair_attempts :: "32 word"
  transitions :: "state_transition list"
  user_timezone :: string
  approval_context :: "'a option"
  job_rest :: 'x

definition job_with_user ::
  "uuid \<Rightarrow> utc \<Rightarrow> 'x \<Rightarrow> string \<Rightarrow> utext \<Rightarrow> utext \<Rightarrow> ('d::zero, 'a, 'x) job_context" where
  "job_with_user new_id now rest user ti desc = \<lparr>
     job_id = new_id,
     job_state_of = Pending,
     job_user_id = user,
     requester_id = None,
     conversation_id = None,
     job_title = ti,
     job_description = desc,
     category = None,
     budget = None,
     budget_token = None,
     bid_amount = None,
     estimated_cost = None,
     estimated_duration = None,
     actual_cost = 0,
     job_tokens_used = 0,
     job_max_tokens = 0,
     job_created_at = now,
     job_started_at = None,
     job_completed_at = None,
     repair_attempts = 0,
     transitions = [],
     user_timezone = ''UTC'',
     approval_context = None,
     job_rest = rest\<rparr>"

definition job_new :: "uuid \<Rightarrow> utc \<Rightarrow> 'x \<Rightarrow> utext \<Rightarrow> utext \<Rightarrow> ('d::zero, 'a, 'x) job_context" where
  "job_new new_id now rest ti desc = job_with_user new_id now rest ''default'' ti desc"

definition job_system :: "utc \<Rightarrow> 'x \<Rightarrow> string \<Rightarrow> uuid \<Rightarrow> ('d::zero, 'a, 'x) job_context" where
  "job_system now rest user jid =
     (job_with_user jid now rest user (utext_of ''system'') (utext_of ''system operation''))
       \<lparr>job_state_of := JobCompleted, category := Some ''system'',
        job_started_at := Some now, job_completed_at := Some now\<rparr>"

definition with_timezone :: "string \<Rightarrow> ('d, 'a, 'x) job_context \<Rightarrow> ('d, 'a, 'x) job_context" where
  "with_timezone tz c = c\<lparr>user_timezone := tz\<rparr>"

definition with_requester_id :: "string \<Rightarrow> ('d, 'a, 'x) job_context \<Rightarrow> ('d, 'a, 'x) job_context" where
  "with_requester_id r c = c\<lparr>requester_id := Some r\<rparr>"

definition with_approval_context :: "'a \<Rightarrow> ('d, 'a, 'x) job_context \<Rightarrow> ('d, 'a, 'x) job_context" where
  "with_approval_context a c = c\<lparr>approval_context := Some a\<rparr>"

datatype job_ctx_error = CannotTransition job_state job_state | NotStuck

definition max_transitions :: nat where
  "max_transitions = 200"

definition record_transition :: "state_transition \<Rightarrow> state_transition list \<Rightarrow> state_transition list" where
  "record_transition t ts =
     (let ts' = ts @ [t]
      in if length ts' > max_transitions then drop (length ts' - max_transitions) ts' else ts')"

definition job_transition_to ::
  "utc \<Rightarrow> job_state \<Rightarrow> string option \<Rightarrow> ('d, 'a, 'x) job_context
    \<Rightarrow> (job_ctx_error, ('d, 'a, 'x) job_context) result" where
  "job_transition_to now new_state reason c =
     (if \<not> job_can_transition (job_state_of c) new_state
      then Inl (CannotTransition (job_state_of c) new_state)
      else if job_state_of c = new_state then Inr c
      else
        let t = \<lparr>trans_from = job_state_of c, trans_to = new_state, trans_time = now, trans_reason = reason\<rparr>;
            c1 = c\<lparr>transitions := record_transition t (transitions c), job_state_of := new_state\<rparr>
        in Inr (case new_state of
             InProgress \<Rightarrow> if job_started_at c1 = None then c1\<lparr>job_started_at := Some now\<rparr> else c1
           | JobCompleted \<Rightarrow> c1\<lparr>job_completed_at := Some now\<rparr>
           | Accepted \<Rightarrow> c1\<lparr>job_completed_at := Some now\<rparr>
           | JobFailed \<Rightarrow> c1\<lparr>job_completed_at := Some now\<rparr>
           | Cancelled \<Rightarrow> c1\<lparr>job_completed_at := Some now\<rparr>
           | _ \<Rightarrow> c1))"

definition add_cost :: "'d::plus \<Rightarrow> ('d, 'a, 'x) job_context \<Rightarrow> ('d, 'a, 'x) job_context" where
  "add_cost cost c = c\<lparr>actual_cost := actual_cost c + cost\<rparr>"

record token_budget_exceeded =
  tokens_used :: "64 word"
  tokens_limit :: "64 word"

text \<open>The counter is updated whether or not the budget is exceeded.\<close>

definition add_tokens ::
  "64 word \<Rightarrow> ('d, 'a, 'x) job_context
    \<Rightarrow> (token_budget_exceeded, unit) result \<times> ('d, 'a, 'x) job_context" where
  "add_tokens n c =
     (let total = job_tokens_used c + n; c' = c\<lparr>job_tokens_used := total\<rparr>
      in if job_max_tokens c > 0 \<and> total > job_max_tokens c
         then (Inl \<lparr>tokens_used = total, tokens_limit = job_max_tokens c\<rparr>, c')
         else (Inr (), c'))"

definition budget_exceeded :: "('d::ord, 'a, 'x) job_context \<Rightarrow> bool" where
  "budget_exceeded c = (case budget c of Some b \<Rightarrow> actual_cost c > b | None \<Rightarrow> False)"

text \<open>Whole seconds, truncated and never negative.\<close>

definition elapsed :: "utc \<Rightarrow> ('d, 'a, 'x) job_context \<Rightarrow> nat option" where
  "elapsed now c =
     map_option (\<lambda>start.
       let stop = (case job_completed_at c of None \<Rightarrow> now | Some t \<Rightarrow> t)
       in nat ((stop - start) div 1000000000)) (job_started_at c)"

definition mark_stuck ::
  "utc \<Rightarrow> string \<Rightarrow> ('d, 'a, 'x) job_context \<Rightarrow> (job_ctx_error, ('d, 'a, 'x) job_context) result" where
  "mark_stuck now reason c = job_transition_to now Stuck (Some reason) c"

definition attempt_recovery ::
  "utc \<Rightarrow> ('d, 'a, 'x) job_context \<Rightarrow> (job_ctx_error, ('d, 'a, 'x) job_context) result" where
  "attempt_recovery now c =
     (if job_state_of c \<noteq> Stuck then Inl NotStuck
      else job_transition_to now InProgress (Some ''Recovery attempt'')
             (c\<lparr>repair_attempts := repair_attempts c + 1\<rparr>))"

section \<open>History and timestamps\<close>

text \<open>Each recorded transition starts where the one before it ended.\<close>

fun linked :: "state_transition list \<Rightarrow> bool" where
  "linked [] = True"
| "linked [t] = True"
| "linked (t # u # ts) = (trans_to t = trans_from u \<and> linked (u # ts))"

definition permitted :: "state_transition \<Rightarrow> bool" where
  "permitted t \<longleftrightarrow> job_can_transition (trans_from t) (trans_to t) \<and> trans_from t \<noteq> trans_to t"

definition history_ok :: "state_transition list \<Rightarrow> job_state \<Rightarrow> bool" where
  "history_ok ts s \<longleftrightarrow> linked ts \<and> list_all permitted ts \<and> length ts \<le> max_transitions \<and>
     (ts = [] \<or> trans_to (last ts) = s)"

definition stamps_ok :: "('d, 'a, 'x) job_context \<Rightarrow> bool" where
  "stamps_ok c \<longleftrightarrow> (job_completed_at c = None \<longleftrightarrow> is_parallel_blocking (job_state_of c)) \<and>
     (job_started_at c = None \<longrightarrow> job_state_of c \<in> {Pending, JobFailed, Cancelled})"

definition job_wf :: "('d, 'a, 'x) job_context \<Rightarrow> bool" where
  "job_wf c \<longleftrightarrow> history_ok (transitions c) (job_state_of c) \<and> stamps_ok c"

lemma linked_append: "linked (ts @ [t]) \<longleftrightarrow> linked ts \<and> (ts = [] \<or> trans_to (last ts) = trans_from t)"
  by (induction ts rule: linked.induct) auto

lemma linked_drop: "linked ts \<Longrightarrow> linked (drop n ts)"
proof (induction n arbitrary: ts)
  case (Suc n)
  then show ?case by (cases ts rule: linked.cases) (auto simp: drop_Suc)
qed simp

lemma record_transition_ok:
  assumes "history_ok ts (trans_from t)" and "permitted t"
  shows "history_ok (record_transition t ts) (trans_to t)"
proof -
  have all: "list_all permitted (ts @ [t])" and lk: "linked (ts @ [t])"
    using assms by (auto simp: history_ok_def linked_append)
  show ?thesis
  proof (cases "length (ts @ [t]) > max_transitions")
    case True
    let ?n = "length (ts @ [t]) - max_transitions"
    have "?n \<le> length ts" using assms(1) by (simp add: max_transitions_def)
    then have "drop ?n (ts @ [t]) = drop ?n ts @ [t]" by simp
    moreover have "list_all permitted (drop ?n (ts @ [t]))"
      using all by (auto simp: list_all_iff dest: in_set_dropD)
    ultimately show ?thesis
      using linked_drop [OF lk, of ?n] True
      by (simp add: history_ok_def record_transition_def Let_def max_transitions_def)
  next
    case False
    with all lk show ?thesis by (simp add: history_ok_def record_transition_def Let_def)
  qed
qed

lemma job_transition_cases:
  assumes "job_transition_to now t r c = Inr c'"
  shows "(t = job_state_of c \<and> t = JobCompleted \<and> c' = c) \<or>
    (t \<noteq> job_state_of c \<and> job_can_transition (job_state_of c) t \<and> job_state_of c' = t \<and>
     transitions c' = record_transition
       \<lparr>trans_from = job_state_of c, trans_to = t, trans_time = now, trans_reason = r\<rparr> (transitions c) \<and>
     job_started_at c' = (if t = InProgress \<and> job_started_at c = None then Some now else job_started_at c) \<and>
     job_completed_at c' = (if t \<in> {JobCompleted, Accepted, JobFailed, Cancelled} then Some now
                            else job_completed_at c))"
proof (cases "t = job_state_of c")
  case True
  with assms show ?thesis by (simp add: job_transition_to_def self_transition split: if_splits)
next
  case False
  with assms show ?thesis
    unfolding job_transition_to_def Let_def
    by (cases t) (auto split: if_splits)
qed

lemma job_transition_frame [frame_simps]:
  assumes "job_transition_to now t r c = Inr c'"
  shows "job_id c' = job_id c" and "job_user_id c' = job_user_id c"
    and "job_tokens_used c' = job_tokens_used c" and "repair_attempts c' = repair_attempts c"
  using assms unfolding job_transition_to_def Let_def
  by (cases t; auto split: if_splits)+

lemma stamps_step:
  assumes "job_can_transition s t" and "t \<noteq> s"
    and "(ca = None) = is_parallel_blocking s" and "sa = None \<longrightarrow> s \<in> {Pending, JobFailed, Cancelled}"
  shows "((if t \<in> {JobCompleted, Accepted, JobFailed, Cancelled} then Some now else ca) = None)
      = is_parallel_blocking t"
    and "(if t = InProgress \<and> sa = None then Some now else sa) = None \<longrightarrow> t \<in> {Pending, JobFailed, Cancelled}"
  using assms by (cases s; cases t; auto simp: is_parallel_blocking_def)+

lemma job_transition_wf [keeps_intros]:
  assumes "job_wf c" and "job_transition_to now t r c = Inr c'"
  shows "job_wf c'"
  using job_transition_cases [OF assms(2)]
proof (elim disjE conjE)
  assume t: "t \<noteq> job_state_of c" "job_can_transition (job_state_of c) t"
    and c': "job_state_of c' = t" "transitions c' = record_transition
       \<lparr>trans_from = job_state_of c, trans_to = t, trans_time = now, trans_reason = r\<rparr> (transitions c)"
      "job_started_at c' = (if t = InProgress \<and> job_started_at c = None then Some now else job_started_at c)"
      "job_completed_at c' = (if t \<in> {JobCompleted, Accepted, JobFailed, Cancelled} then Some now
                            else job_completed_at c)"
  have "history_ok (transitions c') (job_state_of c')"
    using record_transition_ok [of "transitions c"
        "\<lparr>trans_from = job_state_of c, trans_to = t, trans_time = now, trans_reason = r\<rparr>"] assms(1) t
    by (simp add: c' job_wf_def permitted_def)
  moreover have "stamps_ok c'"
    using stamps_step [OF t(2,1), of "job_completed_at c" "job_started_at c" now] assms(1)
    unfolding job_wf_def stamps_ok_def c' by simp
  ultimately show ?thesis by (simp add: job_wf_def)
qed (use assms(1) in simp)

text \<open>The operations as events; a failing one changes nothing.\<close>

datatype 'd job_op =
  JobTransition utc job_state "string option"
| JobAddCost 'd
| JobAddTokens "64 word"
| JobMarkStuck utc string
| JobRecover utc

definition ok_or :: "'c \<Rightarrow> ('e, 'c) result \<Rightarrow> 'c" where
  "ok_or c r = (case r of Inl _ \<Rightarrow> c | Inr c' \<Rightarrow> c')"

fun job_step :: "('d::plus, 'a, 'x) job_context \<Rightarrow> 'd job_op \<Rightarrow> ('d, 'a, 'x) job_context" where
  "job_step c (JobTransition now t r) = ok_or c (job_transition_to now t r c)"
| "job_step c (JobAddCost d) = add_cost d c"
| "job_step c (JobAddTokens n) = snd (add_tokens n c)"
| "job_step c (JobMarkStuck now r) = ok_or c (mark_stuck now r c)"
| "job_step c (JobRecover now) = ok_or c (attempt_recovery now c)"

lemma ok_or_wf: "job_wf c \<Longrightarrow> (\<And>c'. r = Inr c' \<Longrightarrow> job_wf c') \<Longrightarrow> job_wf (ok_or c r)"
  by (cases r) (simp_all add: ok_or_def)

lemma job_wf_frame [simp]:
  "job_wf (c\<lparr>actual_cost := d\<rparr>) = job_wf c"
  "job_wf (c\<lparr>job_tokens_used := n\<rparr>) = job_wf c"
  "job_wf (c\<lparr>repair_attempts := k\<rparr>) = job_wf c"
  by (simp_all add: job_wf_def stamps_ok_def)

lemma job_step_wf: "job_wf c \<Longrightarrow> job_wf (job_step c e)"
  by (cases e)
     (auto intro!: ok_or_wf simp: add_cost_def add_tokens_def Let_def mark_stuck_def attempt_recovery_def
       intro: job_transition_wf job_transition_wf [OF iffD2 [OF job_wf_frame(3)]] split: if_splits)

interpretation job_machine: machine job_step job_wf
  by unfold_locales (rule job_step_wf)

lemma job_wf_new: "job_wf (job_with_user i now rest user ti desc)"
  by (simp add: job_wf_def job_with_user_def history_ok_def stamps_ok_def is_parallel_blocking_def)

lemma job_wf_system: "job_wf (job_system now rest user i)"
  by (simp add: job_wf_def job_system_def job_with_user_def history_ok_def stamps_ok_def
      is_parallel_blocking_def)

lemma job_step_state:
  "job_state_of (job_step c e) = job_state_of c \<or>
     job_can_transition (job_state_of c) (job_state_of (job_step c e))"
  by (cases e)
     (auto simp: ok_or_def mark_stuck_def attempt_recovery_def add_cost_def add_tokens_def Let_def
       dest!: job_transition_cases split: sum.splits if_splits)

lemma add_tokens_exact:
  assumes "unat (job_tokens_used c) + unat n < 2 ^ 64"
  shows "(fst (add_tokens n c) = Inr ()) =
     (job_max_tokens c = 0 \<or> unat (job_tokens_used c) + unat n \<le> unat (job_max_tokens c))"
proof -
  have "unat (job_tokens_used c + n) = unat (job_tokens_used c) + unat n"
    using assms by (simp add: unat_add_lem [THEN iffD1])
  then show ?thesis
    by (auto simp: add_tokens_def Let_def word_less_nat_alt unat_gt_0)
qed

subsection \<open>Properties\<close>

text \<open>
  The transition history of a job: after any operations on a new job the recorded
  transitions are permitted, follow each other without a gap, end in the current state and
  number at most 200; the completion time is set exactly when the job no longer takes an
  execution slot, and a job that is running, stuck or done has a start time.
\<close>

theorem job_history_sound:
  "let c = foldl job_step (job_with_user i now rest user ti desc) ops
   in linked (transitions c) \<and> list_all permitted (transitions c) \<and> length (transitions c) \<le> 200 \<and>
      (transitions c = [] \<or> trans_to (last (transitions c)) = job_state_of c) \<and>
      (job_completed_at c = None) = is_parallel_blocking (job_state_of c) \<and>
      (case job_started_at c of None \<Rightarrow> job_state_of c \<in> {Pending, JobFailed, Cancelled} | Some _ \<Rightarrow> True)"
proof -
  have "job_wf (foldl job_step (job_with_user i now rest user ti desc) ops)"
    by (rule job_machine.run_inv) (rule job_wf_new)
  then show ?thesis
    by (auto simp: Let_def job_wf_def history_ok_def stamps_ok_def max_transitions_def split: option.split)
qed

text \<open>
  Completion is idempotent: when two parties race to mark a job completed, the second
  succeeds and changes nothing, so the first reason and time stand; no other state accepts
  being entered twice.
\<close>

theorem completion_idempotent:
  assumes "job_transition_to now t r c = Inr c'"
  shows "job_transition_to now2 t r2 c' =
    (if t = JobCompleted then Inr c' else Inl (CannotTransition t t))"
proof -
  from assms have "job_state_of c' = t"
    using job_transition_cases [OF assms] by auto
  then show ?thesis
    by (simp add: job_transition_to_def self_transition)
qed

theorem completion_idempotent_witness:
  "job_transition_to 9 JobCompleted None
     ((job_with_user 1 0 () ''u'' [] [] :: (int, unit, unit) job_context)
        \<lparr>job_state_of := JobCompleted, transitions :=
           [\<lparr>trans_from = InProgress, trans_to = JobCompleted, trans_time = 5, trans_reason = None\<rparr>],
         job_completed_at := Some 5\<rparr>) =
   Inr ((job_with_user 1 0 () ''u'' [] [])
        \<lparr>job_state_of := JobCompleted, transitions :=
           [\<lparr>trans_from = InProgress, trans_to = JobCompleted, trans_time = 5, trans_reason = None\<rparr>],
         job_completed_at := Some 5\<rparr>)"
proof -
  have "job_transition_to 5 JobCompleted None
     ((job_with_user 1 0 () ''u'' [] [] :: (int, unit, unit) job_context)\<lparr>job_state_of := InProgress\<rparr>) =
   Inr ((job_with_user 1 0 () ''u'' [] [])
        \<lparr>job_state_of := JobCompleted, transitions :=
           [\<lparr>trans_from = InProgress, trans_to = JobCompleted, trans_time = 5, trans_reason = None\<rparr>],
         job_completed_at := Some 5\<rparr>)"
    by (simp add: job_transition_to_def record_transition_def max_transitions_def Let_def job_with_user_def)
  from completion_idempotent [OF this, of 9 None] show ?thesis by simp
qed

end
