(* ===== verification/JobManager.thy ===== *)
theory JobManager
  imports JobState
begin

text \<open>
  The manager of isolated job contexts, \<open>src/context/manager.rs\<close>. Contexts and memories are
  two maps under two locks; creating and removing a job take both in turn, so between the
  two halves other operations may run. The lemmas show that the limit on parallel jobs
  holds in every interleaving, that the two maps agree when operations run one at a time and
  how they come apart when they do not, and that the summaries count every job once.
\<close>

section \<open>State and queries\<close>

record ('d, 'a, 'x, 'mem) context_manager =
  contexts :: "uuid \<rightharpoonup> ('d, 'a, 'x) job_context"
  memories :: "uuid \<rightharpoonup> 'mem"
  max_jobs :: nat

datatype job_error = NotFound uuid | MaxJobsExceeded nat

definition manager_new :: "nat \<Rightarrow> ('d, 'a, 'x, 'mem) context_manager" where
  "manager_new n = \<lparr>contexts = Map.empty, memories = Map.empty, max_jobs = n\<rparr>"

definition job_owned_by :: "string \<Rightarrow> ('d, 'a, 'x) job_context \<Rightarrow> bool" where
  "job_owned_by user c \<longleftrightarrow> job_user_id c = user"

definition get_context :: "uuid \<Rightarrow> ('d, 'a, 'x, 'mem) context_manager \<Rightarrow> (job_error, ('d, 'a, 'x) job_context) result" where
  "get_context i m = (case contexts m i of None \<Rightarrow> Inl (NotFound i) | Some c \<Rightarrow> Inr c)"

definition get_memory :: "uuid \<Rightarrow> ('d, 'a, 'x, 'mem) context_manager \<Rightarrow> (job_error, 'mem) result" where
  "get_memory i m = (case memories m i of None \<Rightarrow> Inl (NotFound i) | Some c \<Rightarrow> Inr c)"

definition jobs_where ::
  "(('d, 'a, 'x) job_context \<Rightarrow> bool) \<Rightarrow> uuid list \<Rightarrow> ('d, 'a, 'x, 'mem) context_manager \<Rightarrow> uuid list" where
  "jobs_where P ks m = map fst (filter (\<lambda>(i, c). P c) (map_entries ks (contexts m)))"

definition active_jobs :: "uuid list \<Rightarrow> ('d, 'a, 'x, 'mem) context_manager \<Rightarrow> uuid list" where
  "active_jobs ks m = jobs_where (\<lambda>c. job_active (job_state_of c)) ks m"

definition all_jobs :: "uuid list \<Rightarrow> ('d, 'a, 'x, 'mem) context_manager \<Rightarrow> uuid list" where
  "all_jobs ks m = map fst (map_entries ks (contexts m))"

definition active_jobs_for :: "string \<Rightarrow> uuid list \<Rightarrow> ('d, 'a, 'x, 'mem) context_manager \<Rightarrow> uuid list" where
  "active_jobs_for user ks m = jobs_where (\<lambda>c. job_owned_by user c \<and> job_active (job_state_of c)) ks m"

definition parallel_blocking_count_for :: "string \<Rightarrow> uuid list \<Rightarrow> ('d, 'a, 'x, 'mem) context_manager \<Rightarrow> nat" where
  "parallel_blocking_count_for user ks m =
     length (jobs_where (\<lambda>c. job_owned_by user c \<and> is_parallel_blocking (job_state_of c)) ks m)"

definition all_jobs_for :: "string \<Rightarrow> uuid list \<Rightarrow> ('d, 'a, 'x, 'mem) context_manager \<Rightarrow> uuid list" where
  "all_jobs_for user ks m = jobs_where (job_owned_by user) ks m"

definition active_count :: "uuid list \<Rightarrow> ('d, 'a, 'x, 'mem) context_manager \<Rightarrow> nat" where
  "active_count ks m = length (filter (\<lambda>c. job_active (job_state_of c)) (map_values ks (contexts m)))"

text \<open>Seconds are truncated as \<open>num_seconds().max(0)\<close> and \<open>Duration::as_secs\<close> do.\<close>

definition is_stuck_job :: "utc \<Rightarrow> duration option \<Rightarrow> ('d, 'a, 'x) job_context \<Rightarrow> bool" where
  "is_stuck_job now threshold c =
     (if job_state_of c = Stuck then True
      else if job_state_of c = InProgress then
        (case (threshold, job_started_at c) of
           (Some th, Some started) \<Rightarrow> nat ((now - started) div 1000000000) > th div 1000000000
         | _ \<Rightarrow> False)
      else False)"

definition find_stuck_jobs_with_threshold ::
  "utc \<Rightarrow> duration option \<Rightarrow> uuid list \<Rightarrow> ('d, 'a, 'x, 'mem) context_manager \<Rightarrow> uuid list" where
  "find_stuck_jobs_with_threshold now threshold ks m = jobs_where (is_stuck_job now threshold) ks m"

definition find_stuck_jobs :: "utc \<Rightarrow> uuid list \<Rightarrow> ('d, 'a, 'x, 'mem) context_manager \<Rightarrow> uuid list" where
  "find_stuck_jobs now ks m = find_stuck_jobs_with_threshold now None ks m"

record context_summary =
  sum_total :: nat
  sum_pending :: nat
  sum_in_progress :: nat
  sum_completed :: nat
  sum_submitted :: nat
  sum_accepted :: nat
  sum_failed :: nat
  sum_stuck :: nat
  sum_cancelled :: nat

definition empty_summary :: context_summary where
  "empty_summary = \<lparr>sum_total = 0, sum_pending = 0, sum_in_progress = 0, sum_completed = 0,
     sum_submitted = 0, sum_accepted = 0, sum_failed = 0, sum_stuck = 0, sum_cancelled = 0\<rparr>"

fun count_state :: "context_summary \<Rightarrow> job_state \<Rightarrow> context_summary" where
  "count_state s Pending = s\<lparr>sum_pending := sum_pending s + 1\<rparr>"
| "count_state s InProgress = s\<lparr>sum_in_progress := sum_in_progress s + 1\<rparr>"
| "count_state s JobCompleted = s\<lparr>sum_completed := sum_completed s + 1\<rparr>"
| "count_state s Submitted = s\<lparr>sum_submitted := sum_submitted s + 1\<rparr>"
| "count_state s Accepted = s\<lparr>sum_accepted := sum_accepted s + 1\<rparr>"
| "count_state s JobFailed = s\<lparr>sum_failed := sum_failed s + 1\<rparr>"
| "count_state s Stuck = s\<lparr>sum_stuck := sum_stuck s + 1\<rparr>"
| "count_state s Cancelled = s\<lparr>sum_cancelled := sum_cancelled s + 1\<rparr>"

definition count_states :: "('d, 'a, 'x) job_context list \<Rightarrow> context_summary" where
  "count_states cs = foldl (\<lambda>s c. count_state s (job_state_of c)) empty_summary cs"

definition sum_parts :: "context_summary \<Rightarrow> nat" where
  "sum_parts s = sum_pending s + sum_in_progress s + sum_completed s + sum_submitted s
     + sum_accepted s + sum_failed s + sum_stuck s + sum_cancelled s"

definition summary :: "uuid list \<Rightarrow> ('d, 'a, 'x, 'mem) context_manager \<Rightarrow> context_summary" where
  "summary ks m =
     (let cs = map_values ks (contexts m)
      in (count_states cs)\<lparr>sum_total := length cs\<rparr>)"

definition summary_for :: "string \<Rightarrow> uuid list \<Rightarrow> ('d, 'a, 'x, 'mem) context_manager \<Rightarrow> context_summary" where
  "summary_for user ks m =
     (let s = count_states (filter (job_owned_by user) (map_values ks (contexts m)))
      in s\<lparr>sum_total := sum_parts s\<rparr>)"

section \<open>Updates\<close>

definition update_context ::
  "uuid \<Rightarrow> (('d, 'a, 'x) job_context \<Rightarrow> 'r \<times> ('d, 'a, 'x) job_context) \<Rightarrow> ('d, 'a, 'x, 'mem) context_manager
    \<Rightarrow> (job_error, 'r) result \<times> ('d, 'a, 'x, 'mem) context_manager" where
  "update_context i f m =
     (case contexts m i of
        None \<Rightarrow> (Inl (NotFound i), m)
      | Some c \<Rightarrow> (case f c of (r, c') \<Rightarrow> (Inr r, m\<lparr>contexts := (contexts m)(i \<mapsto> c')\<rparr>)))"

definition update_context_and_get ::
  "uuid \<Rightarrow> (('d, 'a, 'x) job_context \<Rightarrow> ('d, 'a, 'x) job_context) \<Rightarrow> ('d, 'a, 'x, 'mem) context_manager
    \<Rightarrow> (job_error, ('d, 'a, 'x) job_context) result \<times> ('d, 'a, 'x, 'mem) context_manager" where
  "update_context_and_get i f m =
     (case contexts m i of
        None \<Rightarrow> (Inl (NotFound i), m)
      | Some c \<Rightarrow> (Inr (f c), m\<lparr>contexts := (contexts m)(i \<mapsto> f c)\<rparr>))"

definition update_memory ::
  "uuid \<Rightarrow> ('mem \<Rightarrow> 'r \<times> 'mem) \<Rightarrow> ('d, 'a, 'x, 'mem) context_manager
    \<Rightarrow> (job_error, 'r) result \<times> ('d, 'a, 'x, 'mem) context_manager" where
  "update_memory i f m =
     (case memories m i of
        None \<Rightarrow> (Inl (NotFound i), m)
      | Some v \<Rightarrow> (case f v of (r, v') \<Rightarrow> (Inr r, m\<lparr>memories := (memories m)(i \<mapsto> v')\<rparr>)))"

text \<open>
  \<open>insert_context\<close>: the part under the lock of the contexts, and the part under the lock of
  the memories. \<open>mem_new\<close> is \<open>Memory::new\<close>.
\<close>

definition insert_context_part ::
  "uuid list \<Rightarrow> ('d, 'a, 'x) job_context \<Rightarrow> ('d, 'a, 'x, 'mem) context_manager
    \<Rightarrow> (job_error, unit) result \<times> ('d, 'a, 'x, 'mem) context_manager" where
  "insert_context_part ks c m =
     (let parallel_count = length (filter (\<lambda>c. is_parallel_blocking (job_state_of c)) (map_values ks (contexts m)))
      in if parallel_count \<ge> max_jobs m then (Inl (MaxJobsExceeded (max_jobs m)), m)
         else (Inr (), m\<lparr>contexts := (contexts m)(job_id c \<mapsto> c)\<rparr>))"

definition insert_memory_part ::
  "(uuid \<Rightarrow> 'mem) \<Rightarrow> uuid \<Rightarrow> ('d, 'a, 'x, 'mem) context_manager \<Rightarrow> ('d, 'a, 'x, 'mem) context_manager" where
  "insert_memory_part mem_new i m = m\<lparr>memories := (memories m)(i \<mapsto> mem_new i)\<rparr>"

definition insert_context ::
  "(uuid \<Rightarrow> 'mem) \<Rightarrow> uuid list \<Rightarrow> ('d, 'a, 'x) job_context \<Rightarrow> ('d, 'a, 'x, 'mem) context_manager
    \<Rightarrow> (job_error, unit) result \<times> ('d, 'a, 'x, 'mem) context_manager" where
  "insert_context mem_new ks c m =
     (case insert_context_part ks c m of
        (Inl e, m') \<Rightarrow> (Inl e, m')
      | (Inr _, m') \<Rightarrow> (Inr (), insert_memory_part mem_new (job_id c) m'))"

definition create_job_for_user ::
  "(uuid \<Rightarrow> 'mem) \<Rightarrow> uuid list \<Rightarrow> uuid \<Rightarrow> utc \<Rightarrow> 'x \<Rightarrow> string \<Rightarrow> utext \<Rightarrow> utext
    \<Rightarrow> ('d::zero, 'a, 'x, 'mem) context_manager \<Rightarrow> (job_error, uuid) result \<times> ('d, 'a, 'x, 'mem) context_manager" where
  "create_job_for_user mem_new ks new_id now rest user ti desc m =
     (let c = job_with_user new_id now rest user ti desc
      in case insert_context mem_new ks c m of
           (Inl e, m') \<Rightarrow> (Inl e, m')
         | (Inr _, m') \<Rightarrow> (Inr (job_id c), m'))"

definition register_sandbox_job ::
  "(uuid \<Rightarrow> 'mem) \<Rightarrow> uuid list \<Rightarrow> uuid \<Rightarrow> utc \<Rightarrow> 'x \<Rightarrow> uuid \<Rightarrow> string \<Rightarrow> utext \<Rightarrow> utext
    \<Rightarrow> ('d::zero, 'a, 'x, 'mem) context_manager \<Rightarrow> (job_error, unit) result \<times> ('d, 'a, 'x, 'mem) context_manager" where
  "register_sandbox_job mem_new ks fresh now rest jid user ti desc m =
     insert_context mem_new ks
       ((job_with_user fresh now rest user ti desc)
          \<lparr>job_id := jid, job_state_of := InProgress, job_started_at := Some now\<rparr>) m"

definition remove_context_part ::
  "uuid \<Rightarrow> ('d, 'a, 'x, 'mem) context_manager
    \<Rightarrow> (job_error, ('d, 'a, 'x) job_context) result \<times> ('d, 'a, 'x, 'mem) context_manager" where
  "remove_context_part i m =
     (case contexts m i of
        None \<Rightarrow> (Inl (NotFound i), m)
      | Some c \<Rightarrow> (Inr c, m\<lparr>contexts := (contexts m)(i := None)\<rparr>))"

definition remove_memory_part ::
  "uuid \<Rightarrow> ('d, 'a, 'x, 'mem) context_manager \<Rightarrow> (job_error, 'mem) result \<times> ('d, 'a, 'x, 'mem) context_manager" where
  "remove_memory_part i m =
     (case memories m i of
        None \<Rightarrow> (Inl (NotFound i), m)
      | Some v \<Rightarrow> (Inr v, m\<lparr>memories := (memories m)(i := None)\<rparr>))"

definition remove_job ::
  "uuid \<Rightarrow> ('d, 'a, 'x, 'mem) context_manager
    \<Rightarrow> (job_error, ('d, 'a, 'x) job_context \<times> 'mem) result \<times> ('d, 'a, 'x, 'mem) context_manager" where
  "remove_job i m =
     (case remove_context_part i m of
        (Inl e, m1) \<Rightarrow> (Inl e, m1)
      | (Inr c, m1) \<Rightarrow>
          (case remove_memory_part i m1 of
             (Inl e, m2) \<Rightarrow> (Inl e, m2)
           | (Inr v, m2) \<Rightarrow> (Inr (c, v), m2)))"

section \<open>Operations one at a time\<close>

text \<open>\<open>'r\<close> is what a caller's closure on a memory returns.\<close>

datatype ('d, 'a, 'x, 'mem) manager_op =
  OpInsert "uuid list" "('d, 'a, 'x) job_context"
| OpRemove uuid
| OpUpdate uuid "'d job_op"
| OpUpdateMemory uuid "'mem \<Rightarrow> 'mem"

fun manager_step ::
  "(uuid \<Rightarrow> 'mem) \<Rightarrow> ('d::plus, 'a, 'x, 'mem) context_manager \<Rightarrow> ('d, 'a, 'x, 'mem) manager_op
    \<Rightarrow> ('d, 'a, 'x, 'mem) context_manager" where
  "manager_step mem_new m (OpInsert ks c) = snd (insert_context mem_new ks c m)"
| "manager_step mem_new m (OpRemove i) = snd (remove_job i m)"
| "manager_step mem_new m (OpUpdate i e) = snd (update_context i (\<lambda>c. ((), job_step c e)) m)"
| "manager_step mem_new m (OpUpdateMemory i f) = snd (update_memory i (\<lambda>v. ((), f v)) m)"

definition maps_agree :: "('d, 'a, 'x, 'mem) context_manager \<Rightarrow> bool" where
  "maps_agree m \<longleftrightarrow> dom (contexts m) = dom (memories m)"

lemma maps_agree_step: "maps_agree m \<Longrightarrow> maps_agree (manager_step mem_new m e)"
proof (cases e)
  case (OpInsert ks c)
  assume "maps_agree m"
  then show ?thesis
    by (simp add: OpInsert maps_agree_def insert_context_def insert_context_part_def
        insert_memory_part_def Let_def)
next
  case (OpRemove i)
  assume "maps_agree m"
  then show ?thesis
    by (auto simp: OpRemove maps_agree_def remove_job_def remove_context_part_def
        remove_memory_part_def split: option.splits)
next
  case (OpUpdate i e)
  assume "maps_agree m"
  then show ?thesis
    by (auto simp: OpUpdate maps_agree_def update_context_def split: option.splits)
next
  case (OpUpdateMemory i f)
  assume "maps_agree m"
  then show ?thesis
    by (auto simp: OpUpdateMemory maps_agree_def update_memory_def split: option.splits)
qed

interpretation sequential_manager: machine "manager_step mem_new" maps_agree for mem_new
  by unfold_locales (rule maps_agree_step)

section \<open>Operations interleaved\<close>

text \<open>
  The manager with the jobs whose context is inserted but not yet their memory, and those
  whose context is removed but not yet their memory. Each rule is one critical section.
\<close>

record ('d, 'a, 'x, 'mem) manager_system =
  mgr :: "('d, 'a, 'x, 'mem) context_manager"
  inserting :: "uuid list"
  removing :: "uuid list"

inductive manager_reach ::
  "(uuid \<Rightarrow> 'mem) \<Rightarrow> nat \<Rightarrow> ('d::plus, 'a, 'x, 'mem) manager_system \<Rightarrow> bool" for mem_new n where
  reach_new: "manager_reach mem_new n \<lparr>mgr = manager_new n, inserting = [], removing = []\<rparr>"
| reach_insert_context: "manager_reach mem_new n s \<Longrightarrow> iterates ks (contexts (mgr s)) \<Longrightarrow>
    insert_context_part ks c (mgr s) = (Inr (), m') \<Longrightarrow>
    manager_reach mem_new n (s\<lparr>mgr := m', inserting := inserting s @ [job_id c]\<rparr>)"
| reach_insert_memory: "manager_reach mem_new n s \<Longrightarrow> i \<in> set (inserting s) \<Longrightarrow>
    manager_reach mem_new n (s\<lparr>mgr := insert_memory_part mem_new i (mgr s), inserting := remove1 i (inserting s)\<rparr>)"
| reach_remove_context: "manager_reach mem_new n s \<Longrightarrow> remove_context_part i (mgr s) = (Inr c, m') \<Longrightarrow>
    manager_reach mem_new n (s\<lparr>mgr := m', removing := removing s @ [i]\<rparr>)"
| reach_remove_memory: "manager_reach mem_new n s \<Longrightarrow> i \<in> set (removing s) \<Longrightarrow>
    remove_memory_part i (mgr s) = (r, m') \<Longrightarrow>
    manager_reach mem_new n (s\<lparr>mgr := m', removing := remove1 i (removing s)\<rparr>)"
| reach_update: "manager_reach mem_new n s \<Longrightarrow>
    update_context i (\<lambda>c. ((), job_step c e)) (mgr s) = (r', m') \<Longrightarrow>
    manager_reach mem_new n (s\<lparr>mgr := m'\<rparr>)"
| reach_update_memory: "manager_reach mem_new n s \<Longrightarrow>
    update_memory i (\<lambda>v. ((), f v)) (mgr s) = (r', m') \<Longrightarrow>
    manager_reach mem_new n (s\<lparr>mgr := m'\<rparr>)"

abbreviation blocking :: "('d, 'a, 'x) job_context \<Rightarrow> bool" where
  "blocking c \<equiv> is_parallel_blocking (job_state_of c)"

definition within_limit :: "nat \<Rightarrow> ('d, 'a, 'x, 'mem) context_manager \<Rightarrow> bool" where
  "within_limit n m \<longleftrightarrow> max_jobs m = n \<and> finite (dom (contexts m)) \<and> map_count blocking (contexts m) \<le> n"

lemma blocking_step: "blocking (job_step c e) \<Longrightarrow> blocking c"
  using job_step_state [of c e] slot_not_retaken by metis

lemma within_limit_insert:
  assumes "within_limit n m" and "iterates ks (contexts m)" and "insert_context_part ks c m = (Inr (), m')"
  shows "within_limit n m'"
proof -
  from assms(3) have lt: "map_count blocking (contexts m) < max_jobs m"
    and m': "m' = m\<lparr>contexts := (contexts m)(job_id c \<mapsto> c)\<rparr>"
    by (auto simp: insert_context_part_def Let_def length_filter_iterates [OF assms(2)] split: if_splits)
  have fin: "finite (dom (contexts m))" using assms(1) by (simp add: within_limit_def)
  from map_count_upd [OF fin, of blocking "job_id c" c] lt assms(1) show ?thesis
    by (auto simp: within_limit_def m' split: option.splits if_splits)
qed

lemma within_limit_update:
  assumes "within_limit n m" and "update_context i (\<lambda>c. ((), job_step c e)) m = (r, m')"
  shows "within_limit n m'"
proof (cases "contexts m i")
  case None
  with assms show ?thesis by (simp add: update_context_def)
next
  case (Some c)
  then have m': "m' = m\<lparr>contexts := (contexts m)(i \<mapsto> job_step c e)\<rparr>"
    using assms(2) by (simp add: update_context_def)
  have fin: "finite (dom (contexts m))" using assms(1) by (simp add: within_limit_def)
  from map_count_upd [OF fin, of blocking i "job_step c e"] Some blocking_step [of c e] assms(1)
  show ?thesis by (auto simp: within_limit_def m' split: if_splits)
qed

lemma within_limit_remove:
  assumes "within_limit n m" and "remove_context_part i m = (r, m')"
  shows "within_limit n m'"
proof -
  have "map_count blocking ((contexts m)(i := None)) \<le> map_count blocking (contexts m)"
    using assms(1) by (intro map_count_delete_le) (simp add: within_limit_def)
  with assms show ?thesis
    by (auto simp: within_limit_def remove_context_part_def split: option.splits)
qed

lemma within_limit_memory:
  "within_limit n m \<Longrightarrow> within_limit n (insert_memory_part mem_new i m)"
  "within_limit n m \<Longrightarrow> within_limit n (snd (remove_memory_part i m))"
  "within_limit n m \<Longrightarrow> within_limit n (snd (update_memory i g m))"
  by (auto simp: within_limit_def insert_memory_part_def remove_memory_part_def update_memory_def
      split: option.splits prod.splits)

lemma reach_within_limit: "manager_reach mem_new n s \<Longrightarrow> within_limit n (mgr s)"
proof (induction rule: manager_reach.induct)
  case reach_new
  then show ?case by (simp add: within_limit_def manager_new_def)
next
  case (reach_insert_context s ks c m')
  then show ?case by (simp add: within_limit_insert)
next
  case (reach_insert_memory s i)
  then show ?case by (simp add: within_limit_memory)
next
  case (reach_remove_context s i c m')
  then show ?case by (simp add: within_limit_remove)
next
  case (reach_remove_memory s i r m')
  then show ?case using within_limit_memory(2) [of n "mgr s" i] by simp
next
  case (reach_update s i e r' m')
  then show ?case by (simp add: within_limit_update)
next
  case (reach_update_memory s i f r' m')
  then show ?case using within_limit_memory(3) [of n "mgr s" i "\<lambda>v. ((), f v)"] by simp
qed

section \<open>Summaries\<close>

lemma sum_parts_count_state: "sum_parts (count_state s st) = Suc (sum_parts s)"
  by (cases st) (simp_all add: sum_parts_def)

lemma sum_parts_fold:
  "sum_parts (foldl (\<lambda>s c. count_state s (job_state_of c)) s cs) = sum_parts s + length cs"
  by (induction cs arbitrary: s) (simp_all add: sum_parts_count_state)

lemma sum_parts_count_states: "sum_parts (count_states cs) = length cs"
  by (simp add: count_states_def sum_parts_fold) (simp add: sum_parts_def empty_summary_def)

lemma sum_parts_total [simp]: "sum_parts (s\<lparr>sum_total := t\<rparr>) = sum_parts s"
  by (simp add: sum_parts_def)

lemma length_map_values: "iterates ks m \<Longrightarrow> length (map_values ks m) = card (dom m)"
proof -
  assume ord: "iterates ks m"
  have "dom m = {k. \<exists>v. m k = Some v \<and> True}" by auto
  with length_filter_iterates [OF ord, of "\<lambda>_. True"] show ?thesis
    by (simp add: map_count_def)
qed

subsection \<open>Properties\<close>

text \<open>
  C23. The limit on parallel jobs holds in every interleaving: whatever order creations,
  sandbox registrations, removals and job operations take the locks in, the jobs that hold
  an execution slot never outnumber the configured maximum.
\<close>

theorem parallel_limit:
  assumes "manager_reach mem_new n s" and "iterates ks (contexts (mgr s))"
  shows "length (filter (\<lambda>c. is_parallel_blocking (job_state_of c)) (map_values ks (contexts (mgr s)))) \<le> n"
  using reach_within_limit [OF assms(1)]
  by (simp add: length_filter_iterates [OF assms(2)] within_limit_def)

lemma reach_one_job:
  fixes c :: "(int, unit, unit) job_context" and mem_new :: "uuid \<Rightarrow> nat"
  shows "manager_reach mem_new 1
    \<lparr>mgr = \<lparr>contexts = [job_id c \<mapsto> c], memories = Map.empty, max_jobs = 1\<rparr>,
     inserting = [job_id c], removing = []\<rparr>"
proof -
  have "insert_context_part [] c (manager_new 1 :: (int, unit, unit, nat) context_manager) =
      (Inr (), \<lparr>contexts = [job_id c \<mapsto> c], memories = Map.empty, max_jobs = 1\<rparr>)"
    by (simp add: insert_context_part_def manager_new_def)
  then have ins: "insert_context_part [] c
      (mgr \<lparr>mgr = manager_new 1 :: (int, unit, unit, nat) context_manager, inserting = [], removing = []\<rparr>) =
      (Inr (), \<lparr>contexts = [job_id c \<mapsto> c], memories = Map.empty, max_jobs = 1\<rparr>)"
    by simp
  have "iterates []
      (contexts (mgr \<lparr>mgr = manager_new 1 :: (int, unit, unit, nat) context_manager, inserting = [], removing = []\<rparr>))"
    by (simp add: iterates_def manager_new_def)
  from reach_insert_context [OF reach_new this ins] show ?thesis
    by simp
qed

theorem parallel_limit_witness:
  "length (filter (\<lambda>c. is_parallel_blocking (job_state_of c))
     (map_values [3] (contexts (mgr
       \<lparr>mgr = \<lparr>contexts = [3 \<mapsto> (job_with_user 3 0 () ''u'' [] [] :: (int, unit, unit) job_context)],
                memories = (Map.empty :: uuid \<rightharpoonup> nat), max_jobs = 1\<rparr>,
        inserting = [3], removing = []\<rparr>)))) \<le> 1"
proof (rule parallel_limit)
  show "manager_reach (\<lambda>_. 0 :: nat) 1
       \<lparr>mgr = \<lparr>contexts = [3 \<mapsto> (job_with_user 3 0 () ''u'' [] [] :: (int, unit, unit) job_context)],
                memories = Map.empty, max_jobs = 1\<rparr>, inserting = [3], removing = []\<rparr>"
    using reach_one_job [of "\<lambda>_. 0" "job_with_user 3 0 () ''u'' [] []"] by (simp add: job_with_user_def)
qed (simp add: iterates_def)

text \<open>
  When operations run one at a time, every job has both a context and a memory, so
  removing a known job never reports it missing.
\<close>

theorem sequential_maps_agree:
  "let m = foldl (manager_step mem_new) (manager_new n) ops
   in dom (contexts m) = dom (memories m) \<and> is_ok (fst (remove_job i m)) = (contexts m i \<noteq> None)"
proof -
  let ?m = "foldl (manager_step mem_new) (manager_new n) ops"
  have "maps_agree ?m"
    by (rule sequential_manager.run_inv) (simp add: maps_agree_def manager_new_def)
  then have dom_eq: "dom (contexts ?m) = dom (memories ?m)" by (simp add: maps_agree_def)
  then have "contexts ?m i = None \<longleftrightarrow> memories ?m i = None" by (metis domIff)
  with dom_eq show ?thesis
    by (auto simp: Let_def remove_job_def remove_context_part_def remove_memory_part_def split: option.splits)
qed

text \<open>
  Interleaved, they come apart: when a job is removed between the two halves of its
  creation, the removal reports the job missing although it deleted its context, and the
  creation then leaves a memory without a context, which \<open>remove_job\<close> can never delete.
\<close>

theorem create_remove_race:
  assumes "fst (insert_context_part ks c m) = Inr ()" and "memories m (job_id c) = None"
  shows "let m1 = snd (insert_context_part ks c m);
             m2 = snd (remove_job (job_id c) m1);
             m3 = insert_memory_part mem_new (job_id c) m2
    in fst (remove_job (job_id c) m1) = Inl (NotFound (job_id c)) \<and>
       contexts m3 (job_id c) = None \<and> memories m3 (job_id c) \<noteq> None \<and>
       remove_job (job_id c) m3 = (Inl (NotFound (job_id c)), m3)"
  using assms
  by (auto simp: Let_def insert_context_part_def remove_job_def remove_context_part_def
      remove_memory_part_def insert_memory_part_def split: if_splits)

theorem create_remove_race_witness:
  "let m1 = snd (insert_context_part [] (job_with_user 3 0 () ''u'' [] [] :: (int, unit, unit) job_context)
              (manager_new 1 :: (int, unit, unit, nat) context_manager));
       m2 = snd (remove_job 3 m1); m3 = insert_memory_part (\<lambda>_. 0) 3 m2
   in contexts m3 3 = None \<and> memories m3 3 \<noteq> None"
  using create_remove_race [of "[]" "job_with_user 3 0 () ''u'' [] [] :: (int, unit, unit) job_context"
      "manager_new 1 :: (int, unit, unit, nat) context_manager" "\<lambda>_. 0"]
  by (simp add: insert_context_part_def manager_new_def job_with_user_def Let_def)

text \<open>
  A summary counts every job once: its parts add up to its total, which is the number
  of jobs (of the user), whatever order the map is read in.
\<close>

theorem summary_total:
  assumes "iterates ks (contexts m)"
  shows "sum_parts (summary ks m) = sum_total (summary ks m) \<and>
    sum_total (summary ks m) = card (dom (contexts m)) \<and>
    sum_total (summary_for user ks m) = length (all_jobs_for user ks m)"
proof -
  have "length (filter (job_owned_by user) (map_values ks (contexts m))) = length (all_jobs_for user ks m)"
    unfolding all_jobs_for_def jobs_where_def
    by (induction ks) (auto split: option.splits)
  then show ?thesis
    by (simp add: summary_def summary_for_def Let_def sum_parts_count_states length_map_values [OF assms])
qed

theorem summary_total_witness:
  "sum_parts (summary [3] (\<lparr>contexts = [3 \<mapsto> (job_with_user 3 0 () ''u'' [] [] :: (int, unit, unit) job_context)],
      memories = (Map.empty :: uuid \<rightharpoonup> nat), max_jobs = 1\<rparr>)) = 1"
proof -
  let ?m = "\<lparr>contexts = [3 \<mapsto> (job_with_user 3 0 () ''u'' [] [] :: (int, unit, unit) job_context)],
      memories = (Map.empty :: uuid \<rightharpoonup> nat), max_jobs = 1\<rparr>"
  have "iterates [3] (contexts ?m)" by (simp add: iterates_def)
  from summary_total [OF this, of "''u''"] show ?thesis by simp
qed

end
