(* ===== verification/CircuitBreaker.thy ===== *)
theory CircuitBreaker
  imports Prelude
begin

text \<open>
  The circuit breaker in front of a model provider, \<open>src/llm/circuit_breaker.rs\<close>, with the
  errors of \<open>src/llm/error.rs\<close>. A call is two critical sections (\<open>check_allowed\<close>, then one of
  the two recorders) with the provider's answer in between, so calls overlap. The lemmas show
  what the counters can hold in every interleaving, when the breaker trips and recovers, and
  that the case the code calls a bug cannot happen to a single caller but can to two.
\<close>

section \<open>Errors of a provider\<close>

text \<open>\<open>'x\<close> stands for the errors of the HTTP, JSON and I/O libraries.\<close>

datatype 'x llm_error =
  RequestFailed string string
| RateLimited string "duration option"
| BadGateway string "16 word" "duration option"
| InvalidResponse string string
| EmptyResponse string
| ContextLengthExceeded nat nat
| ModelNotAvailable string string
| AuthFailed string
| SessionExpired string
| SessionRenewalFailed string string
| Http 'x
| Json 'x
| Io 'x

fun is_transient :: "'x llm_error \<Rightarrow> bool" where
  "is_transient (RequestFailed _ _) = True"
| "is_transient (RateLimited _ _) = True"
| "is_transient (BadGateway _ _ _) = True"
| "is_transient (InvalidResponse _ _) = True"
| "is_transient (EmptyResponse _) = True"
| "is_transient (SessionExpired _) = True"
| "is_transient (SessionRenewalFailed _ _) = True"
| "is_transient (Http _) = True"
| "is_transient (Io _) = True"
| "is_transient _ = False"

section \<open>State and operations\<close>

record breaker_config =
  failure_threshold :: "32 word"
  recovery_timeout :: duration
  half_open_successes_needed :: "32 word"

definition default_breaker_config :: breaker_config where
  "default_breaker_config =
     \<lparr>failure_threshold = 5, recovery_timeout = secs 30, half_open_successes_needed = 2\<rparr>"

datatype circuit_state = Closed | Open | HalfOpen

record breaker =
  circuit :: circuit_state
  consecutive_failures :: "32 word"
  opened_at :: "instant option"
  half_open_successes :: "32 word"

definition breaker_new :: breaker where
  "breaker_new = \<lparr>circuit = Closed, consecutive_failures = 0, opened_at = None, half_open_successes = 0\<rparr>"

text \<open>The \<open>{:.0}\<close> format rounds to the nearest second, a tie to the even one.\<close>

definition rounded_secs :: "duration \<Rightarrow> nat" where
  "rounded_secs d =
     (let q = d div 1000000000; r = d mod 1000000000
      in if r > 500000000 \<or> (r = 500000000 \<and> odd q) then q + 1 else q)"

definition open_error :: "string \<Rightarrow> 32 word \<Rightarrow> duration \<Rightarrow> 'x llm_error" where
  "open_error provider failures remaining =
     RequestFailed provider
       (''Circuit breaker open ('' @ string_of_nat (unat failures) @ '' consecutive failures, recovery in ''
          @ string_of_nat (rounded_secs remaining) @ ''s)'')"

text \<open>The clock is read once for the decision and once for the message; subtraction on
  \<open>nat\<close> is \<open>checked_sub(..).unwrap_or(ZERO)\<close>.\<close>

definition check_allowed ::
  "string \<Rightarrow> breaker_config \<Rightarrow> instant \<Rightarrow> instant \<Rightarrow> breaker \<Rightarrow> ('x llm_error, unit) result \<times> breaker" where
  "check_allowed provider cfg t1 t2 s =
     (case circuit s of
        Open \<Rightarrow>
          (case opened_at s of
             Some opened \<Rightarrow>
               if t1 - opened \<ge> recovery_timeout cfg
               then (Inr (), s\<lparr>circuit := HalfOpen, half_open_successes := 0\<rparr>)
               else (Inl (open_error provider (consecutive_failures s)
                            (recovery_timeout cfg - (t2 - opened))), s)
           | None \<Rightarrow> (Inr (), s\<lparr>circuit := Closed\<rparr>))
      | _ \<Rightarrow> (Inr (), s))"

definition record_success :: "breaker_config \<Rightarrow> breaker \<Rightarrow> breaker" where
  "record_success cfg s =
     (case circuit s of
        Closed \<Rightarrow> s\<lparr>consecutive_failures := 0\<rparr>
      | HalfOpen \<Rightarrow>
          (let s1 = s\<lparr>half_open_successes := half_open_successes s + 1\<rparr>
           in if half_open_successes s1 \<ge> half_open_successes_needed cfg
              then s1\<lparr>circuit := Closed, consecutive_failures := 0, opened_at := None\<rparr>
              else s1)
      | Open \<Rightarrow> s\<lparr>circuit := Closed, consecutive_failures := 0, opened_at := None\<rparr>)"

text \<open>The \<open>debug_assert!\<close> of \<open>record_success\<close> fails in this case.\<close>

definition success_assert_fails :: "breaker \<Rightarrow> bool" where
  "success_assert_fails s \<longleftrightarrow> circuit s = Open"

definition record_failure :: "breaker_config \<Rightarrow> instant \<Rightarrow> 'x llm_error \<Rightarrow> breaker \<Rightarrow> breaker" where
  "record_failure cfg now err s =
     (if \<not> is_transient err then s
      else case circuit s of
        Closed \<Rightarrow>
          (let s1 = s\<lparr>consecutive_failures := consecutive_failures s + 1\<rparr>
           in if consecutive_failures s1 \<ge> failure_threshold cfg
              then s1\<lparr>circuit := Open, opened_at := Some now\<rparr>
              else s1)
      | HalfOpen \<Rightarrow> s\<lparr>circuit := Open, opened_at := Some now, half_open_successes := 0\<rparr>
      | Open \<Rightarrow> s)"

text \<open>
  \<open>complete\<close> and \<open>complete_with_tools\<close> differ only in the method of the wrapped provider they
  call; \<open>answer\<close> is what it returns. The boolean says whether the wrapped provider was called.
\<close>

definition breaker_complete ::
  "string \<Rightarrow> breaker_config \<Rightarrow> instant \<Rightarrow> instant \<Rightarrow> instant \<Rightarrow> ('x llm_error, 'r) result \<Rightarrow> breaker
    \<Rightarrow> ('x llm_error, 'r) result \<times> bool \<times> breaker" where
  "breaker_complete provider cfg t1 t2 t3 answer s =
     (case check_allowed provider cfg t1 t2 s of
        (Inl e, s1) \<Rightarrow> (Inl e, False, s1)
      | (Inr _, s1) \<Rightarrow>
          (case answer of
             Inr r \<Rightarrow> (Inr r, True, record_success cfg s1)
           | Inl e \<Rightarrow> (Inl e, True, record_failure cfg t3 e s1)))"

section \<open>The invariant\<close>

definition breaker_inv :: "breaker_config \<Rightarrow> breaker \<Rightarrow> bool" where
  "breaker_inv cfg s \<longleftrightarrow>
     (circuit s = Closed \<longrightarrow> unat (consecutive_failures s) < max 1 (unat (failure_threshold cfg))) \<and>
     (circuit s = HalfOpen \<longrightarrow> unat (half_open_successes s) < max 1 (unat (half_open_successes_needed cfg))) \<and>
     (circuit s = Open \<longrightarrow> opened_at s \<noteq> None) \<and>
     unat (consecutive_failures s) \<le> max 1 (unat (failure_threshold cfg)) \<and>
     unat (half_open_successes s) \<le> max 1 (unat (half_open_successes_needed cfg))"

text \<open>A counter below a limit of its own width counts up without wrapping around.\<close>

lemma counter_no_wrap:
  fixes c :: "32 word"
  assumes "unat c < max 1 (unat (l :: 32 word))"
  shows "unat (c + 1) = unat c + 1"
proof -
  have "unat l < 2 ^ LENGTH(32)" by (rule unsigned_less)
  with assms have "unat c + 1 < 2 ^ 32" by (simp add: max_def split: if_splits)
  then show ?thesis by (simp add: unat_word_ariths)
qed

lemma breaker_new_inv: "breaker_inv cfg breaker_new"
  by (simp add: breaker_inv_def breaker_new_def)

lemma check_allowed_inv: "breaker_inv cfg s \<Longrightarrow> breaker_inv cfg (snd (check_allowed p cfg t1 t2 s))"
  by (auto simp: breaker_inv_def check_allowed_def split: circuit_state.splits option.splits)

lemma check_allowed_inv_eq: "breaker_inv cfg s \<Longrightarrow> check_allowed p cfg t1 t2 s = (r, b) \<Longrightarrow> breaker_inv cfg b"
  by (metis check_allowed_inv snd_conv)

lemma record_success_inv:
  assumes "breaker_inv cfg s"
  shows "breaker_inv cfg (record_success cfg s)"
proof (cases "circuit s")
  case HalfOpen
  with assms have lt: "unat (half_open_successes s) < max 1 (unat (half_open_successes_needed cfg))"
    by (simp add: breaker_inv_def)
  note up = counter_no_wrap [OF lt]
  show ?thesis
  proof (cases "half_open_successes s + 1 \<ge> half_open_successes_needed cfg")
    case True
    with assms HalfOpen lt up show ?thesis
      by (simp add: record_success_def breaker_inv_def Let_def)
  next
    case False
    then have "unat (half_open_successes s + 1) < unat (half_open_successes_needed cfg)"
      by (simp add: word_less_nat_alt not_le)
    with False assms HalfOpen up show ?thesis
      by (simp add: record_success_def breaker_inv_def Let_def)
  qed
qed (use assms in \<open>simp_all add: record_success_def breaker_inv_def\<close>)

lemma record_failure_inv:
  assumes "breaker_inv cfg s"
  shows "breaker_inv cfg (record_failure cfg now e s)"
proof (cases "is_transient e \<and> circuit s = Closed")
  case True
  with assms have lt: "unat (consecutive_failures s) < max 1 (unat (failure_threshold cfg))"
    by (simp add: breaker_inv_def)
  note up = counter_no_wrap [OF lt]
  show ?thesis
  proof (cases "consecutive_failures s + 1 \<ge> failure_threshold cfg")
    case le: True
    with assms True lt up show ?thesis
      by (simp add: record_failure_def breaker_inv_def Let_def)
  next
    case False
    then have "unat (consecutive_failures s + 1) < unat (failure_threshold cfg)"
      by (simp add: word_less_nat_alt not_le)
    with False assms True up show ?thesis
      by (simp add: record_failure_def breaker_inv_def Let_def)
  qed
next
  case False
  with assms show ?thesis
    by (cases "circuit s") (auto simp: record_failure_def breaker_inv_def)
qed

section \<open>Overlapping calls\<close>

text \<open>
  The breaker, the clock, the number of calls the provider has not answered yet, and the
  errors it has answered with.
\<close>

record 'x breaker_system =
  brk :: breaker
  clock :: instant
  in_flight :: nat
  answered :: "'x llm_error list"

inductive breaker_reach :: "string \<Rightarrow> breaker_config \<Rightarrow> 'x breaker_system \<Rightarrow> bool" for p cfg where
  br_new: "breaker_reach p cfg \<lparr>brk = breaker_new, clock = t, in_flight = 0, answered = []\<rparr>"
| br_tick: "breaker_reach p cfg s \<Longrightarrow> clock s \<le> t \<Longrightarrow> breaker_reach p cfg (s\<lparr>clock := t\<rparr>)"
| br_start: "breaker_reach p cfg s \<Longrightarrow> check_allowed p cfg (clock s) t2 (brk s) = (Inr () :: ('x llm_error, unit) result, b) \<Longrightarrow>
    breaker_reach p cfg (s\<lparr>brk := b, in_flight := in_flight s + 1\<rparr>)"
| br_reject: "breaker_reach p cfg s \<Longrightarrow> check_allowed p cfg (clock s) t2 (brk s) = (Inl (e :: 'x llm_error), b) \<Longrightarrow>
    breaker_reach p cfg (s\<lparr>brk := b\<rparr>)"
| br_success: "breaker_reach p cfg s \<Longrightarrow> 0 < in_flight s \<Longrightarrow>
    breaker_reach p cfg (s\<lparr>brk := record_success cfg (brk s), in_flight := in_flight s - 1\<rparr>)"
| br_failure: "breaker_reach p cfg s \<Longrightarrow> 0 < in_flight s \<Longrightarrow>
    breaker_reach p cfg (s\<lparr>brk := record_failure cfg (clock s) e (brk s), in_flight := in_flight s - 1,
        answered := answered s @ [e]\<rparr>)"

lemma breaker_reach_inv: "breaker_reach p cfg s \<Longrightarrow> breaker_inv cfg (brk s)"
proof (induction rule: breaker_reach.induct)
  case (br_start s t2 b)
  then show ?case by (simp add: check_allowed_inv_eq)
next
  case (br_reject s t2 e b)
  then show ?case by (simp add: check_allowed_inv_eq)
qed (simp_all add: breaker_new_inv record_success_inv record_failure_inv)

text \<open>Starting calls of a closed breaker, and failing them one after the other.\<close>

lemma start_closed:
  assumes "breaker_reach p cfg s" and "circuit (brk s) = Closed"
  shows "breaker_reach p cfg (s\<lparr>in_flight := in_flight s + k\<rparr>)"
proof (induction k)
  case 0
  then show ?case using assms(1) by simp
next
  case (Suc k)
  have "check_allowed p cfg (clock s) (clock s) (brk s) = (Inr (), brk s)"
    using assms(2) by (simp add: check_allowed_def)
  with br_start [OF Suc.IH, of "clock s" "brk s"] show ?case by simp
qed

lemma fail_closed:
  assumes "circuit s = Closed" and "is_transient e"
    and "unat (consecutive_failures s) < max 1 (unat (failure_threshold cfg))"
  shows "unat (consecutive_failures (record_failure cfg t e s)) = unat (consecutive_failures s) + 1"
    and "circuit (record_failure cfg t e s) =
      (if unat (failure_threshold cfg) \<le> unat (consecutive_failures s) + 1 then Open else Closed)"
    and "unat (failure_threshold cfg) \<le> unat (consecutive_failures s) + 1 \<Longrightarrow>
      opened_at (record_failure cfg t e s) = Some t"
  using assms(1,2) counter_no_wrap [OF assms(3)]
  by (auto simp: record_failure_def Let_def word_le_nat_alt)

lemma fail_all:
  fixes s :: "'x breaker_system" and e :: "'x llm_error"
  assumes "breaker_reach p cfg s" and "circuit (brk s) = Closed" and "is_transient e"
    and "unat (consecutive_failures (brk s)) + k < max 1 (unat (failure_threshold cfg))"
    and "k \<le> in_flight s"
  shows "\<exists>b es. breaker_reach p cfg (s\<lparr>brk := b, in_flight := in_flight s - k, answered := es\<rparr>) \<and>
    circuit b = Closed \<and> unat (consecutive_failures b) = unat (consecutive_failures (brk s)) + k"
  using assms(4,5)
proof (induction k)
  case 0
  then show ?case using assms(1,2) by (intro exI [of _ "brk s"] exI [of _ "answered s"]) simp
next
  case (Suc k)
  obtain b es where b: "breaker_reach p cfg (s\<lparr>brk := b, in_flight := in_flight s - k, answered := es\<rparr>)"
    "circuit b = Closed" "unat (consecutive_failures b) = unat (consecutive_failures (brk s)) + k"
    using Suc.IH Suc.prems by force
  let ?b = "record_failure cfg (clock s) e b"
  have lt: "unat (consecutive_failures b) < max 1 (unat (failure_threshold cfg))"
    using b(3) Suc.prems by simp
  have "breaker_reach p cfg (s\<lparr>brk := ?b, in_flight := in_flight s - Suc k, answered := es @ [e]\<rparr>)"
    using br_failure [OF b(1), of e] Suc.prems by simp
  moreover have "circuit ?b = Closed"
    using fail_closed(2) [OF b(2) assms(3) lt] b(3) Suc.prems by auto
  moreover have "unat (consecutive_failures ?b) = unat (consecutive_failures (brk s)) + Suc k"
    using fail_closed(1) [OF b(2) assms(3) lt] b(3) by simp
  ultimately show ?case by blast
qed

section \<open>One caller\<close>

text \<open>The state after a list of calls made one after the other, each with its time and answer.\<close>

definition breaker_after ::
  "string \<Rightarrow> breaker_config \<Rightarrow> breaker \<Rightarrow> (instant \<times> ('x llm_error, 'r) result) list \<Rightarrow> breaker" where
  "breaker_after p cfg = foldl (\<lambda>s (t, answer). snd (snd (breaker_complete p cfg t t t answer s)))"

lemma breaker_after_simps [simp]:
  "breaker_after p cfg s [] = s"
  "breaker_after p cfg s (c # cs) =
     breaker_after p cfg (snd (snd (breaker_complete p cfg (fst c) (fst c) (fst c) (snd c) s))) cs"
  "breaker_after p cfg s (cs @ [c]) =
     snd (snd (breaker_complete p cfg (fst c) (fst c) (fst c) (snd c) (breaker_after p cfg s cs)))"
  by (simp_all add: breaker_after_def case_prod_beta)

text \<open>No call of a single caller reaches \<open>record_success\<close> while the breaker is open.\<close>

lemma allowed_not_open: "check_allowed p cfg t1 t2 s = (Inr (), s1) \<Longrightarrow> circuit s1 \<noteq> Open"
  by (auto simp: check_allowed_def split: circuit_state.splits option.splits if_splits)

lemma complete_closed_failure:
  "circuit s = Closed \<Longrightarrow> breaker_complete p cfg t1 t2 t3 (Inl e) s = (Inl e, True, record_failure cfg t3 e s)"
  by (simp add: breaker_complete_def check_allowed_def)

definition failing_calls ::
  "(instant \<times> 'x llm_error) list \<Rightarrow> (instant \<times> ('x llm_error, 'r) result) list" where
  "failing_calls = map (\<lambda>(t, e). (t, Inl e))"

lemma failing_calls_simps [simp]:
  "failing_calls [] = []"
  "failing_calls (es @ [te]) = failing_calls es @ [(fst te, Inl (snd te))]"
  by (simp_all add: failing_calls_def case_prod_beta)

lemma transient_failures_count:
  assumes "list_all (\<lambda>(t, e). is_transient e) es" and "length es < max 1 (unat (failure_threshold cfg))"
  shows "circuit (breaker_after p cfg breaker_new (failing_calls es :: (instant \<times> ('x llm_error, 'r) result) list)) = Closed \<and>
    unat (consecutive_failures (breaker_after p cfg breaker_new (failing_calls es :: (instant \<times> ('x llm_error, 'r) result) list))) = length es"
  using assms
proof (induction es rule: rev_induct)
  case Nil
  then show ?case by (simp add: breaker_new_def)
next
  case (snoc te es)
  obtain t e where te: "te = (t, e)" by (cases te)
  let ?s = "breaker_after p cfg breaker_new (failing_calls es :: (instant \<times> ('x llm_error, 'r) result) list)"
  from snoc have closed: "circuit ?s = Closed" and n: "unat (consecutive_failures ?s) = length es"
    by auto
  have tr: "is_transient e" using snoc.prems te by simp
  have lt: "unat (consecutive_failures ?s) < max 1 (unat (failure_threshold cfg))"
    using n snoc.prems by simp
  show ?case
    using fail_closed(1,2) [OF closed tr lt, of t] snoc.prems n
    by (auto simp: te complete_closed_failure [OF closed])
qed

lemma probe_success:
  assumes "circuit s = HalfOpen" and "unat (half_open_successes s) < max 1 (unat (half_open_successes_needed cfg))"
  shows "circuit (record_success cfg s) =
      (if unat (half_open_successes_needed cfg) \<le> unat (half_open_successes s) + 1 then Closed else HalfOpen)"
    and "unat (half_open_successes (record_success cfg s)) = unat (half_open_successes s) + 1"
    and "unat (half_open_successes_needed cfg) \<le> unat (half_open_successes s) + 1 \<Longrightarrow>
      consecutive_failures (record_success cfg s) = 0 \<and> opened_at (record_success cfg s) = None"
  using assms(1) counter_no_wrap [OF assms(2)]
  by (auto simp: record_success_def Let_def word_le_nat_alt)

lemma complete_half_open:
  assumes "circuit s = HalfOpen"
  shows "breaker_complete p cfg t1 t2 t3 (Inr r) s = (Inr r, True, record_success cfg s)"
    and "breaker_complete p cfg t1 t2 t3 (Inl e) s = (Inl e, True, record_failure cfg t3 e s)"
  using assms by (simp_all add: breaker_complete_def check_allowed_def)

lemma complete_first_probe:
  assumes "circuit s = Open" and "opened_at s = Some opened" and "recovery_timeout cfg \<le> t1 - opened"
  shows "breaker_complete p cfg t1 t2 t3 (Inr r) s =
    (Inr r, True, record_success cfg (s\<lparr>circuit := HalfOpen, half_open_successes := 0\<rparr>))"
  using assms by (simp add: breaker_complete_def check_allowed_def)

text \<open>The calls of one caller that the provider answers.\<close>

definition answered_calls ::
  "(instant \<times> 'r) list \<Rightarrow> (instant \<times> ('x llm_error, 'r) result) list" where
  "answered_calls = map (\<lambda>(t, r). (t, Inr r))"

lemma answered_calls_simps [simp]:
  "answered_calls [] = []"
  "answered_calls [tr] = [(fst tr, Inr (snd tr))]"
  "answered_calls (rs @ [tr]) = answered_calls rs @ [(fst tr, Inr (snd tr))]"
  by (simp_all add: answered_calls_def case_prod_beta)

text \<open>After k answered probes of an open breaker, k at most the number it needs.\<close>

lemma probes_count:
  assumes "circuit s = Open" and "opened_at s = Some opened" and "recovery_timeout cfg \<le> fst (hd rs) - opened"
    and "rs \<noteq> []" and "length rs \<le> max 1 (unat (half_open_successes_needed cfg))"
  shows "let s' = breaker_after p cfg s (answered_calls rs :: (instant \<times> ('x llm_error, 'r) result) list)
    in unat (half_open_successes s') = length rs \<and>
       circuit s' = (if unat (half_open_successes_needed cfg) \<le> length rs then Closed else HalfOpen) \<and>
       (unat (half_open_successes_needed cfg) \<le> length rs \<longrightarrow> consecutive_failures s' = 0 \<and> opened_at s' = None)"
  using assms(3-)
proof (induction rs rule: rev_induct)
  case Nil
  then show ?case by simp
next
  case (snoc tr rs)
  show ?case
  proof (cases "rs = []")
    case True
    with snoc.prems(1) have due: "recovery_timeout cfg \<le> fst tr - opened" by simp
    let ?h = "s\<lparr>circuit := HalfOpen, half_open_successes := 0\<rparr>"
    have "circuit ?h = HalfOpen" and "unat (half_open_successes ?h) < max 1 (unat (half_open_successes_needed cfg))"
      by simp_all
    note probe = probe_success [OF this]
    show ?thesis
      using probe True
      by (auto simp: Let_def complete_first_probe [OF assms(1,2) due])
  next
    case False
    let ?s = "breaker_after p cfg s (answered_calls rs :: (instant \<times> ('x llm_error, 'r) result) list)"
    have lt: "length rs < max 1 (unat (half_open_successes_needed cfg))" using snoc.prems by simp
    have "\<not> unat (half_open_successes_needed cfg) \<le> length rs"
      using lt False by (cases rs) (auto simp: max_def split: if_splits)
    with snoc.IH snoc.prems False have half: "circuit ?s = HalfOpen" and n: "unat (half_open_successes ?s) = length rs"
      by (auto simp: Let_def)
    note probe = probe_success [OF half, unfolded n, OF lt]
    show ?thesis
      using probe by (auto simp: Let_def complete_half_open [OF half])
  qed
qed

subsection \<open>Properties\<close>

text \<open>
  However calls overlap, a closed breaker has counted fewer failures than its threshold
  and a half-open one fewer successes than it needs (so neither \<open>u32\<close> counter can wrap around
  when it counts on), and an open breaker knows when it opened, so the fallback that closes
  one that does not is never taken.
\<close>

theorem breaker_counters_bounded:
  assumes "breaker_reach p cfg s"
  shows "case circuit (brk s) of
      Closed \<Rightarrow> unat (consecutive_failures (brk s)) < max 1 (unat (failure_threshold cfg)) \<and>
        unat (consecutive_failures (brk s) + 1) = unat (consecutive_failures (brk s)) + 1
    | HalfOpen \<Rightarrow> unat (half_open_successes (brk s)) < max 1 (unat (half_open_successes_needed cfg)) \<and>
        unat (half_open_successes (brk s) + 1) = unat (half_open_successes (brk s)) + 1
    | Open \<Rightarrow> opened_at (brk s) \<noteq> None"
  using breaker_reach_inv [OF assms]
  by (auto simp: breaker_inv_def counter_no_wrap simp del: One_nat_def split: circuit_state.splits)

theorem breaker_counters_bounded_witness:
  "opened_at (record_failure (default_breaker_config\<lparr>failure_threshold := 1\<rparr>) 7 (EmptyResponse ''m'' :: unit llm_error)
     breaker_new) \<noteq> None"
proof -
  let ?cfg = "default_breaker_config\<lparr>failure_threshold := 1\<rparr>"
  let ?s = "\<lparr>brk = breaker_new, clock = 7, in_flight = 0, answered = []\<rparr> :: unit breaker_system"
  have "breaker_reach ''m'' ?cfg (?s\<lparr>in_flight := in_flight ?s + 1\<rparr>)"
    by (rule start_closed) (simp_all only: br_new, simp add: breaker_new_def)
  from br_failure [OF this, of "EmptyResponse ''m''"]
  have "breaker_reach ''m'' ?cfg \<lparr>brk = record_failure ?cfg 7 (EmptyResponse ''m'' :: unit llm_error) breaker_new,
      clock = 7, in_flight = 0, answered = [EmptyResponse ''m'' :: unit llm_error]\<rparr>"
    by simp
  from breaker_counters_bounded [OF this] show ?thesis
    by (simp add: record_failure_def breaker_new_def default_breaker_config_def Let_def)
qed

text \<open>
  For one caller, the breaker stays closed through fewer consecutive transient failures
  than its threshold, opens at exactly the threshold (at once for a threshold of 0), and from
  then until the recovery timeout has passed every call is refused without calling the
  provider and without changing the breaker.
\<close>

theorem breaker_trips:
  fixes es :: "(instant \<times> 'x llm_error) list" and answer :: "('x llm_error, 'r) result"
  assumes "list_all (\<lambda>(t, e). is_transient e) es" and "length es = max 1 (unat (failure_threshold cfg))"
    and "k < length es" and "t1 - fst (last es) < recovery_timeout cfg"
  shows "let after = (\<lambda>es. breaker_after p cfg breaker_new (failing_calls es :: (instant \<times> ('x llm_error, 'r) result) list))
    in circuit (after (take k es)) = Closed \<and>
       circuit (after es) = Open \<and> opened_at (after es) = Some (fst (last es)) \<and>
       breaker_complete p cfg t1 t2 t3 answer (after es) =
         (Inl (open_error p (consecutive_failures (after es)) (recovery_timeout cfg - (t2 - fst (last es)))),
          False, after es)"
proof -
  let ?after = "\<lambda>es. breaker_after p cfg breaker_new (failing_calls es :: (instant \<times> ('x llm_error, 'r) result) list)"
  obtain es1 t e where es: "es = es1 @ [(t, e)]"
    using assms(2,3) by (cases es rule: rev_cases) auto
  have tr: "list_all (\<lambda>(t, e). is_transient e) es1" and tre: "is_transient e"
    using assms(1) by (simp_all add: es)
  have len: "length es1 < max 1 (unat (failure_threshold cfg))" using assms(2) by (simp add: es)
  from transient_failures_count [OF tr len]
  have closed: "circuit (?after es1) = Closed" and n: "unat (consecutive_failures (?after es1)) = length es1"
    by blast+
  note fail = fail_closed [OF closed tre, unfolded n, OF len]
  have thr: "unat (failure_threshold cfg) \<le> length es1 + 1" using assms(2) by (simp add: es)
  have step: "?after es = record_failure cfg t e (?after es1)"
    by (simp add: es complete_closed_failure [OF closed])
  have opened: "circuit (?after es) = Open" "opened_at (?after es) = Some t"
    using fail(2,3) thr by (simp_all add: step)
  have trk: "list_all (\<lambda>(t, e). is_transient e) (take k es)"
    using assms(1) by (auto simp: list_all_iff dest: in_set_takeD)
  have "circuit (?after (take k es)) = Closed"
    using transient_failures_count [OF trk, where 'r = 'r] assms(2,3) by simp
  with opened assms(4) show ?thesis
    by (simp add: es Let_def breaker_complete_def check_allowed_def)
qed

theorem breaker_trips_witness:
  "circuit (breaker_after ''m'' default_breaker_config breaker_new
     (failing_calls (replicate 5 (9, EmptyResponse ''m'' :: unit llm_error))
        :: (instant \<times> (unit llm_error, nat) result) list)) = Open"
  using breaker_trips [of "replicate 5 (9, EmptyResponse ''m'' :: unit llm_error)" default_breaker_config 0 9
      "''m''" 0 0 "Inr (0 :: nat)"]
  by (simp add: default_breaker_config_def Let_def list_all_iff)

text \<open>
  After the recovery timeout the breaker lets probes through: it stays half-open while
  fewer have been answered than it needs, closes with its failures forgotten at exactly that
  number, and one transient failure among the probes opens it again for a whole timeout.
\<close>

theorem breaker_recovers:
  fixes rs :: "(instant \<times> 'r) list" and e :: "'x llm_error"
  assumes "circuit s = Open" and "opened_at s = Some opened" and "recovery_timeout cfg \<le> fst (hd rs) - opened"
    and "length rs = max 1 (unat (half_open_successes_needed cfg))" and "0 < k" and "k < length rs"
    and "is_transient e"
  shows "let after = (\<lambda>cs. breaker_after p cfg s (cs :: (instant \<times> ('x llm_error, 'r) result) list))
    in circuit (after (answered_calls (take k rs))) = HalfOpen \<and>
       circuit (after (answered_calls rs)) = Closed \<and> consecutive_failures (after (answered_calls rs)) = 0 \<and>
       circuit (after (answered_calls (take k rs) @ [(t, Inl e)])) = Open \<and>
       opened_at (after (answered_calls (take k rs) @ [(t, Inl e)])) = Some t"
proof -
  let ?after = "\<lambda>cs. breaker_after p cfg s (cs :: (instant \<times> ('x llm_error, 'r) result) list)"
  have rs: "rs \<noteq> []" "take k rs \<noteq> []" "hd (take k rs) = hd rs" using assms(5,6) by auto
  have needed: "unat (half_open_successes_needed cfg) = length rs" using assms(4-6) by (simp add: max_def split: if_splits)
  have full: "circuit (?after (answered_calls rs)) = Closed \<and> consecutive_failures (?after (answered_calls rs)) = 0"
    using probes_count [OF assms(1-3) rs(1), where 'x = 'x] needed by (simp add: Let_def)
  have half: "circuit (?after (answered_calls (take k rs))) = HalfOpen"
    using probes_count [OF assms(1,2), of cfg "take k rs", where 'x = 'x] assms(3,6) needed rs by (simp add: Let_def)
  then show ?thesis
    using full assms(7)
    by (simp add: Let_def complete_half_open [OF half]) (simp add: record_failure_def half)
qed

theorem breaker_recovers_witness:
  "circuit (breaker_after ''m'' default_breaker_config
     \<lparr>circuit = Open, consecutive_failures = 5, opened_at = Some 0, half_open_successes = 0\<rparr>
     (answered_calls [(secs 30, 1 :: nat), (secs 31, 2)] :: (instant \<times> (unit llm_error, nat) result) list)) = Closed"
  using breaker_recovers [of "\<lparr>circuit = Open, consecutive_failures = 5, opened_at = Some 0, half_open_successes = 0\<rparr>"
      0 default_breaker_config "[(secs 30, 1 :: nat), (secs 31, 2)]" 1 "EmptyResponse ''m'' :: unit llm_error" "''m''" 0]
  by (simp add: default_breaker_config_def Let_def)

text \<open>
  The case \<open>record_success\<close> marks as a bug needs no bug: with overlapping calls, whatever
  the configuration, a call admitted before the breaker opened can be answered right after it
  opened. Its success then fails the debug assertion and closes the breaker at the very
  instant it opened, without a timeout or a probe.
\<close>

theorem stale_success_closes:
  "\<exists>s :: 'x breaker_system. breaker_reach p cfg s \<and> 0 < in_flight s \<and> success_assert_fails (brk s) \<and>
     opened_at (brk s) = Some (clock s) \<and> circuit (record_success cfg (brk s)) = Closed"
proof -
  let ?n = "max 1 (unat (failure_threshold cfg))"
  let ?e = "EmptyResponse p :: 'x llm_error"
  let ?s = "\<lparr>brk = breaker_new, clock = 0, in_flight = 0, answered = []\<rparr> :: 'x breaker_system"
  let ?s1 = "?s\<lparr>in_flight := in_flight ?s + (?n + 1)\<rparr>"
  have reach1: "breaker_reach p cfg ?s1"
    by (rule start_closed) (simp_all only: br_new, simp add: breaker_new_def)
  have "\<exists>b es. breaker_reach p cfg (?s1\<lparr>brk := b, in_flight := in_flight ?s1 - (?n - 1), answered := es\<rparr>) \<and>
      circuit b = Closed \<and> unat (consecutive_failures b) = unat (consecutive_failures (brk ?s1)) + (?n - 1)"
    by (rule fail_all [OF reach1, of ?e]) (simp_all add: breaker_new_def)
  then obtain b es where b: "breaker_reach p cfg (?s1\<lparr>brk := b, in_flight := in_flight ?s1 - (?n - 1), answered := es\<rparr>)"
    "circuit b = Closed" "unat (consecutive_failures b) = ?n - 1"
    by (auto simp: breaker_new_def)
  let ?b = "record_failure cfg 0 ?e b"
  let ?s3 = "?s1\<lparr>brk := ?b, in_flight := 1, answered := es @ [?e]\<rparr>"
  have "breaker_reach p cfg ?s3" using br_failure [OF b(1), of ?e] by simp
  moreover have "circuit ?b = Open" and "opened_at ?b = Some 0"
    using fail_closed(2,3) [OF b(2), of ?e cfg 0] b(3) by (simp_all add: max_def split: if_splits)
  moreover have "circuit (record_success cfg ?b) = Closed"
    using \<open>circuit ?b = Open\<close> by (simp add: record_success_def)
  ultimately show ?thesis
    by (intro exI [of _ ?s3]) (simp add: success_assert_fails_def)
qed

end
