(* ===== verification/Costs.thy ===== *)
theory Costs
  imports Prelude
begin

text \<open>
  The price table of the models, \<open>src/llm/costs.rs\<close>, over an abstract decimal type. The
  lemmas show which identifiers the table prices at zero.
\<close>

section \<open>Decimals\<close>

text \<open>
  \<open>rust_decimal::Decimal\<close> is a library type, so its operations are a parameter: the field
  \<open>dec_lit m s\<close> is the literal with mantissa \<open>m\<close> and scale \<open>s\<close>, and \<open>dec_whole_u64\<close> truncates,
  prints and parses as \<open>u64\<close>.
\<close>

record 'd decimal =
  dec_lit :: "nat \<Rightarrow> nat \<Rightarrow> 'd"
  dec_of :: "nat \<Rightarrow> 'd"
  dec_add :: "'d \<Rightarrow> 'd \<Rightarrow> 'd"
  dec_mul :: "'d \<Rightarrow> 'd \<Rightarrow> 'd"
  dec_div :: "'d \<Rightarrow> 'd \<Rightarrow> 'd"
  dec_is_zero :: "'d \<Rightarrow> bool"
  dec_whole_u64 :: "'d \<Rightarrow> nat option"

abbreviation dec_zero :: "('d, 'z) decimal_scheme \<Rightarrow> 'd" where
  "dec_zero D \<equiv> dec_lit D 0 0"

abbreviation dec_one :: "('d, 'z) decimal_scheme \<Rightarrow> 'd" where
  "dec_one D \<equiv> dec_lit D 1 0"

text \<open>Exact arithmetic is one such type.\<close>

definition exact_decimal :: "rat decimal" where
  "exact_decimal = \<lparr>
     dec_lit = (\<lambda>m s. of_nat m / 10 ^ s), dec_of = of_nat, dec_add = (+), dec_mul = (*), dec_div = (/),
     dec_is_zero = (\<lambda>q. q = 0),
     dec_whole_u64 = (\<lambda>q. if 0 \<le> q \<and> \<lfloor>q\<rfloor> < 2 ^ 64 then Some (nat \<lfloor>q\<rfloor>) else None)\<rparr>"

section \<open>The table\<close>

definition price_table :: "(string list \<times> (nat \<times> nat) \<times> (nat \<times> nat)) list" where
  "price_table = [
    ([''gpt-5.3-codex'', ''gpt-5.3-codex-spark''], (2, 6), (8, 6)),
    ([''gpt-5.2-codex'', ''gpt-5.2-pro'', ''gpt-5.2''], (2, 6), (8, 6)),
    ([''gpt-5.1-codex'', ''gpt-5.1-codex-max'', ''gpt-5.1''], (2, 6), (8, 6)),
    ([''gpt-5.1-codex-mini''], (3, 7), (12, 7)),
    ([''gpt-5-codex'', ''gpt-5-pro'', ''gpt-5''], (2, 6), (8, 6)),
    ([''gpt-5-mini'', ''gpt-5-nano''], (3, 7), (12, 7)),
    ([''gpt-4.1''], (2, 6), (8, 6)),
    ([''gpt-4.1-mini''], (4, 7), (16, 7)),
    ([''gpt-4.1-nano''], (1, 7), (4, 7)),
    ([''gpt-4o'', ''gpt-4o-2024-11-20'', ''gpt-4o-2024-08-06''], (25, 7), (1, 5)),
    ([''gpt-4o-mini'', ''gpt-4o-mini-2024-07-18''], (15, 8), (6, 7)),
    ([''gpt-4-turbo'', ''gpt-4-turbo-2024-04-09''], (1, 5), (3, 5)),
    ([''gpt-4'', ''gpt-4-0613''], (3, 5), (6, 5)),
    ([''gpt-3.5-turbo'', ''gpt-3.5-turbo-0125''], (5, 7), (15, 7)),
    ([''o3''], (2, 6), (8, 6)),
    ([''o3-mini'', ''o3-mini-2025-01-31''], (11, 7), (44, 7)),
    ([''o4-mini''], (11, 7), (44, 7)),
    ([''o1'', ''o1-2024-12-17''], (15, 6), (6, 5)),
    ([''o1-mini'', ''o1-mini-2024-09-12''], (3, 6), (12, 6)),
    ([''claude-opus-4-6'', ''claude-opus-4-5'', ''claude-opus-4-5-20251101'',
      ''claude-opus-4-1'', ''claude-opus-4-1-20250805'', ''claude-opus-4-0'',
      ''claude-opus-4-20250514'', ''claude-3-opus-20240229'', ''claude-3-opus-latest''], (15, 6), (75, 6)),
    ([''claude-sonnet-4-6'', ''claude-sonnet-4-5'', ''claude-sonnet-4-5-20250929'',
      ''claude-sonnet-4-0'', ''claude-sonnet-4-20250514'', ''claude-3-7-sonnet-20250219'',
      ''claude-3-7-sonnet-latest'', ''claude-3-5-sonnet-20241022'',
      ''claude-3-5-sonnet-latest''], (3, 6), (15, 6)),
    ([''claude-haiku-4-5'', ''claude-haiku-4-5-20251001'', ''claude-3-5-haiku-20241022'',
      ''claude-3-5-haiku-latest''], (8, 7), (4, 6)),
    ([''claude-3-haiku-20240307''], (25, 8), (125, 8))
   ]"

definition is_local_model :: "string \<Rightarrow> bool" where
  "is_local_model model_id \<longleftrightarrow>
     (let lower = ascii_lower model_id
      in list_ex (starts_with lower)
           [''llama'', ''mistral'', ''mixtral'', ''phi'', ''gemma'', ''qwen'', ''codellama'', ''deepseek'',
            ''starcoder'', ''vicuna'', ''yi''] \<or>
         contains_str lower '':latest'' \<or> contains_str lower '':instruct'')"

text \<open>What follows the last slash, or the whole identifier.\<close>

definition after_last_slash :: "string \<Rightarrow> string" where
  "after_last_slash s = rev (takeWhile (\<lambda>c. c \<noteq> CHR ''/'') (rev s))"

definition model_cost :: "'d decimal \<Rightarrow> string \<Rightarrow> ('d \<times> 'd) option" where
  "model_cost D model_id =
     (if ends_with model_id '':free'' \<or> model_id = ''openrouter/free'' \<or> model_id = ''free''
      then Some (dec_zero D, dec_zero D)
      else let m = after_last_slash model_id
        in case find (\<lambda>(names, _). m \<in> set names) price_table of
             Some (_, (im, is), (om, os)) \<Rightarrow> Some (dec_lit D im is, dec_lit D om os)
           | None \<Rightarrow> if is_local_model m then Some (dec_zero D, dec_zero D) else None)"

definition default_cost :: "'d decimal \<Rightarrow> 'd \<times> 'd" where
  "default_cost D = (dec_lit D 25 7, dec_lit D 1 5)"

section \<open>Facts about the table\<close>

text \<open>A provider prefix does not change what follows the last slash.\<close>

lemma after_last_slash_prefix: "after_last_slash (p @ ''/'' @ m) = after_last_slash m"
proof -
  have "takeWhile (\<lambda>c. c \<noteq> CHR ''/'') (rev m @ ''/'' @ rev p) = takeWhile (\<lambda>c. c \<noteq> CHR ''/'') (rev m)"
  proof (cases "CHR ''/'' \<in> set m")
    case True
    then show ?thesis by (intro takeWhile_append1 [of "CHR ''/''"]) auto
  next
    case False
    then have all: "\<And>c. c \<in> set (rev m) \<Longrightarrow> c \<noteq> CHR ''/''" by auto
    have whole: "takeWhile (\<lambda>c. c \<noteq> CHR ''/'') (rev m) = rev m"
      using all by (simp only: takeWhile_eq_all_conv) blast
    have "takeWhile (\<lambda>c. c \<noteq> CHR ''/'') (rev m @ ''/'' @ rev p) =
        rev m @ takeWhile (\<lambda>c. c \<noteq> CHR ''/'') (''/'' @ rev p)"
      by (rule takeWhile_append2) (rule all)
    then show ?thesis by (simp only: whole) simp
  qed
  then show ?thesis by (simp add: after_last_slash_def)
qed

text \<open>Every row of the table is priced above zero, so only free and local models cost nothing.\<close>

lemma price_table_positive:
  "list_all (\<lambda>(_, (im, _), (om, _)). 0 < im \<and> 0 < om) price_table"
  by (simp add: price_table_def)

text \<open>
  The test for local models looks only at the name after the last slash, so a hosted model of
  such a family is free for the cost guard whatever provider serves it.
\<close>

lemma hosted_model_free:
  assumes "m = ''deepseek-chat''" and "\<not> ends_with (p @ ''/'' @ m) '':free''"
  shows "model_cost D (p @ ''/'' @ m) = Some (dec_zero D, dec_zero D)"
proof -
  have "after_last_slash ''deepseek-chat'' = ''deepseek-chat''"
    by (simp add: after_last_slash_def)
  moreover have "find (\<lambda>(names, _). ''deepseek-chat'' \<in> set names) price_table = None"
    by (simp add: price_table_def)
  moreover have "is_local_model ''deepseek-chat''"
    by (simp add: is_local_model_def ascii_lower_def starts_with_def Let_def)
  ultimately show ?thesis
    using assms(1) by (simp only: model_cost_def after_last_slash_prefix Let_def option.case if_True if_cancel if_split)
qed

end
