(* ===== verification/CostGuard.thy ===== *)
theory CostGuard
  imports Costs
begin

text \<open>
  The cost guardrails of the agent, \<open>src/agent/cost_guard.rs\<close>: a daily budget, an hourly
  rate of calls and a daily budget per user. The lemmas show what the window of calls and the
  spend counters hold, exactly when a call is allowed, and that a guard once over its budget
  stays there for callers that ask before they call.
\<close>

section \<open>State\<close>

text \<open>A calendar date is the number of its day.\<close>

type_synonym date = int

record cost_config =
  max_cost_per_day_cents :: "nat option"
  max_actions_per_hour :: "nat option"
  max_cost_per_user_per_day_cents :: "nat option"

definition default_cost_config :: cost_config where
  "default_cost_config = \<lparr>max_cost_per_day_cents = None, max_actions_per_hour = None,
     max_cost_per_user_per_day_cents = None\<rparr>"

datatype cost_limit =
  DailyBudget nat nat
| HourlyRate nat nat
| UserDailyBudget string nat nat

record 'd model_tokens =
  input_tokens :: "64 word"
  output_tokens :: "64 word"
  tokens_cost :: 'd

record 'd daily_cost =
  day_total :: 'd
  reset_date :: date

record 'd cost_guard =
  daily :: "'d daily_cost"
  action_window :: "instant list"
  over_budget :: bool
  tokens_of :: "string \<rightharpoonup> 'd model_tokens"
  per_user :: "string \<rightharpoonup> 'd daily_cost"

definition cost_guard_new :: "'d decimal \<Rightarrow> date \<Rightarrow> 'd cost_guard" where
  "cost_guard_new D today = \<lparr>daily = \<lparr>day_total = dec_zero D, reset_date = today\<rparr>, action_window = [],
     over_budget = False, tokens_of = Map.empty, per_user = Map.empty\<rparr>"

section \<open>Operations\<close>

definition to_cents :: "'d decimal \<Rightarrow> 'd \<Rightarrow> nat" where
  "to_cents D usd = (case dec_whole_u64 D (dec_mul D usd (dec_lit D 100 0)) of Some n \<Rightarrow> n | None \<Rightarrow> 0)"

text \<open>The instants below the cutoff are popped from the front; before the first hour of the
  clock there is no cutoff.\<close>

definition drain_window :: "instant \<Rightarrow> instant list \<Rightarrow> instant list" where
  "drain_window now w = (if secs 3600 \<le> now then dropWhile (\<lambda>t. t < now - secs 3600) w else w)"

definition check_hourly ::
  "cost_config \<Rightarrow> instant \<Rightarrow> 'd cost_guard \<Rightarrow> (cost_limit, unit) result \<times> 'd cost_guard" where
  "check_hourly cfg now g =
     (case max_actions_per_hour cfg of
        None \<Rightarrow> (Inr (), g)
      | Some limit \<Rightarrow>
          (let w = drain_window now (action_window g); g1 = g\<lparr>action_window := w\<rparr>
           in if length w \<ge> limit then (Inl (HourlyRate (length w) limit), g1) else (Inr (), g1)))"

definition check_allowed_cost ::
  "'d decimal \<Rightarrow> cost_config \<Rightarrow> instant \<Rightarrow> 'd cost_guard \<Rightarrow> (cost_limit, unit) result \<times> 'd cost_guard" where
  "check_allowed_cost D cfg now g =
     (let spent = to_cents D (day_total (daily g))
      in if over_budget g
         then (Inl (DailyBudget spent (case max_cost_per_day_cents cfg of Some l \<Rightarrow> l | None \<Rightarrow> 0)), g)
         else case max_cost_per_day_cents cfg of
             Some limit \<Rightarrow>
               if spent \<ge> limit then (Inl (DailyBudget spent limit), g\<lparr>over_budget := True\<rparr>)
               else check_hourly cfg now g
           | None \<Rightarrow> check_hourly cfg now g)"

definition llm_call_cost ::
  "'d decimal \<Rightarrow> string \<Rightarrow> 32 word \<Rightarrow> 32 word \<Rightarrow> 32 word \<Rightarrow> 32 word \<Rightarrow> 'd \<Rightarrow> 'd \<Rightarrow> ('d \<times> 'd) option \<Rightarrow> 'd" where
  "llm_call_cost D model inp out cache_read cache_creation discount multiplier cost_per_token =
     (let (input_rate, output_rate) =
            (case cost_per_token of Some r \<Rightarrow> r
             | None \<Rightarrow> (case model_cost D model of Some r \<Rightarrow> r | None \<Rightarrow> default_cost D));
          cached_total = min (2 ^ 32 - 1) (unat cache_read + unat cache_creation);
          uncached_input = unat inp - cached_total;
          effective_discount = (if dec_is_zero D discount then dec_one D else discount);
          cache_read_cost = dec_div D (dec_mul D input_rate (dec_of D (unat cache_read))) effective_discount;
          cache_write_cost = dec_mul D (dec_mul D input_rate (dec_of D (unat cache_creation))) multiplier
      in dec_add D (dec_add D (dec_add D (dec_mul D input_rate (dec_of D uncached_input)) cache_read_cost)
           cache_write_cost) (dec_mul D output_rate (dec_of D (unat out))))"

text \<open>The three critical sections of \<open>record_llm_call\<close>.\<close>

definition record_daily :: "'d decimal \<Rightarrow> cost_config \<Rightarrow> date \<Rightarrow> 'd \<Rightarrow> 'd cost_guard \<Rightarrow> 'd cost_guard" where
  "record_daily D cfg today cost g =
     (let g1 = (if today \<noteq> reset_date (daily g)
                then g\<lparr>daily := \<lparr>day_total = dec_zero D, reset_date = today\<rparr>, over_budget := False,
                       per_user := map_retain (\<lambda>e. reset_date e = today) (per_user g)\<rparr>
                else g);
          g2 = g1\<lparr>daily := (daily g1)\<lparr>day_total := dec_add D (day_total (daily g1)) cost\<rparr>\<rparr>
      in case max_cost_per_day_cents cfg of
           Some limit \<Rightarrow> if to_cents D (day_total (daily g2)) \<ge> limit then g2\<lparr>over_budget := True\<rparr> else g2
         | None \<Rightarrow> g2)"

definition record_action :: "instant \<Rightarrow> 'd cost_guard \<Rightarrow> 'd cost_guard" where
  "record_action now g = g\<lparr>action_window := action_window g @ [now]\<rparr>"

definition record_tokens :: "'d decimal \<Rightarrow> string \<Rightarrow> 32 word \<Rightarrow> 32 word \<Rightarrow> 'd \<Rightarrow> 'd cost_guard \<Rightarrow> 'd cost_guard" where
  "record_tokens D model inp out cost g =
     (let e = (case tokens_of g model of Some e \<Rightarrow> e
               | None \<Rightarrow> \<lparr>input_tokens = 0, output_tokens = 0, tokens_cost = dec_zero D\<rparr>)
      in g\<lparr>tokens_of := (tokens_of g)(model \<mapsto>
             \<lparr>input_tokens = input_tokens e + ucast inp, output_tokens = output_tokens e + ucast out,
              tokens_cost = dec_add D (tokens_cost e) cost\<rparr>)\<rparr>)"

text \<open>The arguments of one recorded call.\<close>

record 'd llm_call =
  call_model :: string
  call_input :: "32 word"
  call_output :: "32 word"
  call_cache_read :: "32 word"
  call_cache_creation :: "32 word"
  call_discount :: 'd
  call_multiplier :: 'd
  call_rates :: "('d \<times> 'd) option"

definition cost_of_call :: "'d decimal \<Rightarrow> 'd llm_call \<Rightarrow> 'd" where
  "cost_of_call D c = llm_call_cost D (call_model c) (call_input c) (call_output c) (call_cache_read c)
     (call_cache_creation c) (call_discount c) (call_multiplier c) (call_rates c)"

definition record_llm_call ::
  "'d decimal \<Rightarrow> cost_config \<Rightarrow> date \<Rightarrow> instant \<Rightarrow> 'd llm_call \<Rightarrow> 'd cost_guard \<Rightarrow> 'd \<times> 'd cost_guard" where
  "record_llm_call D cfg today now c g =
     (let cost = cost_of_call D c
      in (cost, record_tokens D (call_model c) (call_input c) (call_output c) cost
                  (record_action now (record_daily D cfg today cost g))))"

definition record_user :: "'d decimal \<Rightarrow> date \<Rightarrow> string \<Rightarrow> 'd \<Rightarrow> 'd cost_guard \<Rightarrow> 'd cost_guard" where
  "record_user D today user cost g =
     (let e = (case per_user g user of Some e \<Rightarrow> e | None \<Rightarrow> \<lparr>day_total = dec_zero D, reset_date = today\<rparr>);
          e1 = (if today \<noteq> reset_date e then \<lparr>day_total = dec_zero D, reset_date = today\<rparr> else e)
      in g\<lparr>per_user := (per_user g)(user \<mapsto> e1\<lparr>day_total := dec_add D (day_total e1) cost\<rparr>)\<rparr>)"

text \<open>The date is read once by \<open>record_llm_call\<close> and once more for the user's counter.\<close>

definition record_llm_call_for_user ::
  "'d decimal \<Rightarrow> cost_config \<Rightarrow> date \<Rightarrow> date \<Rightarrow> instant \<Rightarrow> string \<Rightarrow> 'd llm_call \<Rightarrow> 'd cost_guard \<Rightarrow> 'd \<times> 'd cost_guard" where
  "record_llm_call_for_user D cfg today1 today2 now user c g =
     (case record_llm_call D cfg today1 now c g of (cost, g1) \<Rightarrow> (cost, record_user D today2 user cost g1))"

definition check_allowed_for_user ::
  "'d decimal \<Rightarrow> cost_config \<Rightarrow> instant \<Rightarrow> date \<Rightarrow> string \<Rightarrow> 'd cost_guard \<Rightarrow> (cost_limit, unit) result \<times> 'd cost_guard" where
  "check_allowed_for_user D cfg now today user g =
     (case check_allowed_cost D cfg now g of
        (Inl e, g1) \<Rightarrow> (Inl e, g1)
      | (Inr _, g1) \<Rightarrow>
          (case max_cost_per_user_per_day_cents cfg of
             None \<Rightarrow> (Inr (), g1)
           | Some limit \<Rightarrow>
               (case per_user g1 user of
                  None \<Rightarrow> (Inr (), g1)
                | Some e \<Rightarrow>
                    if reset_date e = today \<and> to_cents D (day_total e) \<ge> limit
                    then (Inl (UserDailyBudget user (to_cents D (day_total e)) limit), g1)
                    else (Inr (), g1))))"

definition daily_spend :: "'d decimal \<Rightarrow> date \<Rightarrow> 'd cost_guard \<Rightarrow> 'd" where
  "daily_spend D today g = (if today \<noteq> reset_date (daily g) then dec_zero D else day_total (daily g))"

definition daily_spend_for_user :: "'d decimal \<Rightarrow> date \<Rightarrow> string \<Rightarrow> 'd cost_guard \<Rightarrow> 'd" where
  "daily_spend_for_user D today user g =
     (case per_user g user of
        Some e \<Rightarrow> if reset_date e = today then day_total e else dec_zero D
      | None \<Rightarrow> dec_zero D)"

definition actions_this_hour :: "instant \<Rightarrow> 'd cost_guard \<Rightarrow> nat \<times> 'd cost_guard" where
  "actions_this_hour now g =
     (let w = drain_window now (action_window g) in (length w, g\<lparr>action_window := w\<rparr>))"

section \<open>The window of calls\<close>

lemma drain_window_filter:
  assumes "sorted w"
  shows "drain_window now w = filter (\<lambda>t. now - secs 3600 \<le> t) w"
proof (cases "secs 3600 \<le> now")
  case True
  have "dropWhile (\<lambda>t. t < c) w = filter (\<lambda>t. c \<le> t) w" for c :: nat
    using assms
  proof (induction w)
    case (Cons a w)
    then have "c \<le> a \<Longrightarrow> filter ((\<le>) c) w = w" by (auto simp: filter_id_conv)
    with Cons show ?case by auto
  qed simp
  with True show ?thesis by (simp add: drain_window_def)
next
  case False
  then show ?thesis by (simp add: drain_window_def)
qed

text \<open>
  The guards that occur: the clock, the times of the calls recorded so far, and the guard.
  Instants do not run backwards; dates are arbitrary.
\<close>

inductive guard_run ::
  "'d decimal \<Rightarrow> cost_config \<Rightarrow> instant \<Rightarrow> instant list \<Rightarrow> 'd cost_guard \<Rightarrow> bool" for D cfg where
  run_new: "guard_run D cfg now [] (cost_guard_new D d)"
| run_check: "guard_run D cfg now calls g \<Longrightarrow> now \<le> t \<Longrightarrow>
    guard_run D cfg t calls (snd (check_allowed_cost D cfg t g))"
| run_check_user: "guard_run D cfg now calls g \<Longrightarrow> now \<le> t \<Longrightarrow>
    guard_run D cfg t calls (snd (check_allowed_for_user D cfg t d user g))"
| run_call: "guard_run D cfg now calls g \<Longrightarrow> now \<le> t \<Longrightarrow>
    guard_run D cfg t (calls @ [t]) (snd (record_llm_call D cfg d t c g))"
| run_call_user: "guard_run D cfg now calls g \<Longrightarrow> now \<le> t \<Longrightarrow>
    guard_run D cfg t (calls @ [t]) (snd (record_llm_call_for_user D cfg d d' t user c g))"
| run_count: "guard_run D cfg now calls g \<Longrightarrow> now \<le> t \<Longrightarrow>
    guard_run D cfg t calls (snd (actions_this_hour t g))"

definition window_inv :: "instant \<Rightarrow> instant list \<Rightarrow> instant list \<Rightarrow> bool" where
  "window_inv now calls w \<longleftrightarrow> sorted calls \<and> (\<forall>t \<in> set calls. t \<le> now) \<and>
     (\<exists>c \<le> now - secs 3600. w = filter (\<lambda>t. c \<le> t) calls)"

lemma window_inv_later: "window_inv now calls w \<Longrightarrow> now \<le> t \<Longrightarrow> window_inv t calls w"
  unfolding window_inv_def
  by (elim conjE exE) (intro conjI exI, assumption, fastforce, erule le_trans, simp_all)

lemma window_inv_drain_eq:
  assumes "window_inv now calls w" and "now \<le> t"
  shows "drain_window t w = filter (\<lambda>a. t - secs 3600 \<le> a) calls"
proof -
  from assms(1) obtain c where c: "c \<le> now - secs 3600" "w = filter (\<lambda>t. c \<le> t) calls" and "sorted calls"
    by (auto simp: window_inv_def)
  have "c \<le> t - secs 3600" using c(1) assms(2) by linarith
  then have "filter (\<lambda>a. t - secs 3600 \<le> a) (filter (\<lambda>t. c \<le> t) calls) = filter (\<lambda>a. t - secs 3600 \<le> a) calls"
    unfolding filter_filter by (intro filter_cong) auto
  with \<open>sorted calls\<close> show ?thesis
    using drain_window_filter [of w t] sorted_filter [of id calls] by (simp add: c(2))
qed

lemma window_inv_drain:
  assumes "window_inv now calls w" and "now \<le> t"
  shows "window_inv t calls (drain_window t w)"
  using assms window_inv_drain_eq [OF assms] by (fastforce simp: window_inv_def)

lemma window_inv_push:
  assumes "window_inv now calls w" and "now \<le> t"
  shows "window_inv t (calls @ [t]) (w @ [t])"
proof -
  from assms(1) obtain c where c: "c \<le> now - secs 3600" "w = filter (\<lambda>t. c \<le> t) calls" and "sorted calls"
    "\<forall>a \<in> set calls. a \<le> now"
    by (auto simp: window_inv_def)
  have le: "c \<le> t - secs 3600" using c(1) assms(2) by linarith
  then have "w @ [t] = filter (\<lambda>t. c \<le> t) (calls @ [t])" by (simp add: c(2))
  with le \<open>sorted calls\<close> \<open>\<forall>a \<in> set calls. a \<le> now\<close> assms(2) show ?thesis
    by (auto simp: window_inv_def sorted_append)
qed

lemma check_hourly_window:
  "action_window (snd (check_hourly cfg t g)) \<in> {action_window g, drain_window t (action_window g)}"
  by (auto simp: check_hourly_def Let_def split: option.splits)

lemma check_window:
  "action_window (snd (check_allowed_cost D cfg t g)) \<in> {action_window g, drain_window t (action_window g)}"
  using check_hourly_window [of cfg t g]
  by (auto simp: check_allowed_cost_def Let_def split: option.splits)

lemma check_user_same_guard:
  "snd (check_allowed_for_user D cfg t d user g) = snd (check_allowed_cost D cfg t g)"
  by (auto simp: check_allowed_for_user_def split: prod.splits sum.splits option.splits)

lemma record_window [simp]:
  "action_window (record_daily D cfg d cost g) = action_window g"
  "action_window (record_tokens D m i out cost g) = action_window g"
  "action_window (record_user D d user cost g) = action_window g"
  "action_window (record_action t g) = action_window g @ [t]"
  by (auto simp: record_daily_def record_tokens_def record_user_def record_action_def Let_def split: option.splits)

lemma call_window [simp]:
  "action_window (snd (record_llm_call D cfg d t c g)) = action_window g @ [t]"
  "action_window (snd (record_llm_call_for_user D cfg d d' t user c g)) = action_window g @ [t]"
  by (simp_all add: record_llm_call_def record_llm_call_for_user_def Let_def)

lemma guard_run_window: "guard_run D cfg now calls g \<Longrightarrow> window_inv now calls (action_window g)"
proof (induction rule: guard_run.induct)
  case (run_new now d)
  then show ?case by (auto simp: window_inv_def cost_guard_new_def)
next
  case (run_check now calls g t)
  then show ?case using check_window [of D cfg t g] window_inv_later window_inv_drain by fastforce
next
  case (run_check_user now calls g t d user)
  then show ?case
    unfolding check_user_same_guard using check_window [of D cfg t g] window_inv_later window_inv_drain by fastforce
next
  case (run_count now calls g t)
  then show ?case by (simp add: actions_this_hour_def Let_def window_inv_drain)
qed (simp_all add: window_inv_push)

section \<open>The spend counters\<close>

definition add_all :: "'d decimal \<Rightarrow> 'd list \<Rightarrow> 'd" where
  "add_all D = foldl (dec_add D) (dec_zero D)"

lemma add_all_simps [simp]:
  "add_all D [] = dec_zero D" "add_all D (xs @ [x]) = dec_add D (add_all D xs) x"
  by (simp_all add: add_all_def)

lemma spend_after_daily:
  "daily_spend D today (record_daily D cfg d cost g) =
    (if today = d then dec_add D (daily_spend D today g) cost else dec_zero D)"
  "daily_spend_for_user D today user (record_daily D cfg d cost g) =
    (if d \<noteq> reset_date (daily g) \<and> today \<noteq> d then dec_zero D else daily_spend_for_user D today user g)"
  by (auto simp: record_daily_def daily_spend_def daily_spend_for_user_def map_retain_def Let_def
      split: option.splits)

lemma spend_after_user:
  "daily_spend D today (record_user D d user cost g) = daily_spend D today g"
  "daily_spend_for_user D today user (record_user D d user' cost g) =
    (if user = user'
     then if d = today then dec_add D (daily_spend_for_user D today user g) cost else dec_zero D
     else daily_spend_for_user D today user g)"
  by (auto simp: record_user_def daily_spend_def daily_spend_for_user_def Let_def split: option.splits)

lemma spend_after_rest [simp]:
  "daily_spend D today (record_action t g) = daily_spend D today g"
  "daily_spend D today (record_tokens D m i out cost g) = daily_spend D today g"
  "daily_spend_for_user D today user (record_action t g) = daily_spend_for_user D today user g"
  "daily_spend_for_user D today user (record_tokens D m i out cost g) = daily_spend_for_user D today user g"
  by (simp_all add: record_action_def record_tokens_def daily_spend_def daily_spend_for_user_def Let_def)

text \<open>A recorded call with its user, the two dates its recording reads and its instant.\<close>

record 'd attributed_call =
  at_user :: string
  at_date :: date
  at_user_date :: date
  at_instant :: instant
  at_call :: "'d llm_call"

definition guard_after :: "'d decimal \<Rightarrow> cost_config \<Rightarrow> date \<Rightarrow> 'd attributed_call list \<Rightarrow> 'd cost_guard" where
  "guard_after D cfg d0 cs =
     foldl (\<lambda>g c. snd (record_llm_call_for_user D cfg (at_date c) (at_user_date c) (at_instant c) (at_user c) (at_call c) g))
       (cost_guard_new D d0) cs"

definition call_dates :: "'d attributed_call list \<Rightarrow> date list" where
  "call_dates cs = concat (map (\<lambda>c. [at_date c, at_user_date c]) cs)"

lemma call_dates_simps [simp]:
  "call_dates [] = []" "call_dates (cs @ [c]) = call_dates cs @ [at_date c, at_user_date c]"
  by (simp_all add: call_dates_def)

lemma spend_exact_lemma:
  assumes "sorted (d0 # call_dates cs @ [today])"
  shows "daily_spend D today (guard_after D cfg d0 cs) =
      add_all D (map (\<lambda>c. cost_of_call D (at_call c)) (filter (\<lambda>c. at_date c = today) cs))"
    and "daily_spend_for_user D today user (guard_after D cfg d0 cs) =
      add_all D (map (\<lambda>c. cost_of_call D (at_call c)) (filter (\<lambda>c. at_user c = user \<and> at_user_date c = today) cs))"
  using assms
proof (induction cs rule: rev_induct)
  case Nil
  {
    case 1
    then show ?case by (simp add: guard_after_def cost_guard_new_def daily_spend_def)
  next
    case 2
    then show ?case by (simp add: guard_after_def cost_guard_new_def daily_spend_for_user_def)
  }
next
  case (snoc c cs)
  let ?g = "guard_after D cfg d0 cs"
  have step: "guard_after D cfg d0 (cs @ [c]) =
      record_user D (at_user_date c) (at_user c) (cost_of_call D (at_call c))
        (record_tokens D (call_model (at_call c)) (call_input (at_call c)) (call_output (at_call c)) (cost_of_call D (at_call c))
          (record_action (at_instant c) (record_daily D cfg (at_date c) (cost_of_call D (at_call c)) ?g)))"
    by (simp add: guard_after_def record_llm_call_for_user_def record_llm_call_def Let_def)
  have old: "sorted (d0 # call_dates cs @ [today])"
    and le: "\<forall>d \<in> set (call_dates cs). d \<le> at_date c" "at_date c \<le> at_user_date c" "at_user_date c \<le> today"
    if "sorted (d0 # call_dates (cs @ [c]) @ [today])"
    using that by (auto simp: sorted_append)
  have none: "filter (\<lambda>c. at_date c = today) cs = []" "filter (\<lambda>c. at_user c = user \<and> at_user_date c = today) cs = []"
    if "sorted (d0 # call_dates (cs @ [c]) @ [today])" "at_date c < today"
    using le [OF that(1)] that(2) by (force simp: call_dates_def filter_empty_conv)+
  {
    case 1
    then show ?case
      using snoc.IH(1) [OF old [OF 1]] none(1) [OF 1] le(2,3) [OF 1]
      by (auto simp: step spend_after_daily spend_after_user)
  next
    case 2
    then show ?case
      using snoc.IH(2) [OF old [OF 2]] none(2) [OF 2] le(2,3) [OF 2]
      by (auto simp: step spend_after_daily spend_after_user)
  }
qed

section \<open>Callers that ask before they call\<close>

text \<open>
  The callers in \<open>src/tenant.rs\<close> and \<open>src/agent/dispatcher.rs\<close> ask, call the model when they are
  allowed, and record the call when it succeeded; \<open>src/bridge/cost_guard_gate.rs\<close> only asks. Other
  callers ask and record in between, so the state has the calls in flight: for each the user it is
  for, if any. A call that fails is not recorded.
\<close>

record 'd guarded =
  gc_guard :: "'d cost_guard"
  gc_flights :: "string option list"

datatype 'd guard_event =
  Ask "string option" instant date
| Finish nat date date instant "'d llm_call"
| GiveUp nat
| CountActions instant

definition asked :: "'d decimal \<Rightarrow> cost_config \<Rightarrow> string option \<Rightarrow> instant \<Rightarrow> date \<Rightarrow> 'd cost_guard \<Rightarrow> (cost_limit, unit) result \<times> 'd cost_guard" where
  "asked D cfg user t d g =
     (case user of None \<Rightarrow> check_allowed_cost D cfg t g | Some u \<Rightarrow> check_allowed_for_user D cfg t d u g)"

definition recorded :: "'d decimal \<Rightarrow> cost_config \<Rightarrow> string option \<Rightarrow> date \<Rightarrow> date \<Rightarrow> instant \<Rightarrow> 'd llm_call \<Rightarrow> 'd cost_guard \<Rightarrow> 'd cost_guard" where
  "recorded D cfg user d1 d2 t c g =
     snd (case user of None \<Rightarrow> record_llm_call D cfg d1 t c g | Some u \<Rightarrow> record_llm_call_for_user D cfg d1 d2 t u c g)"

definition landed :: "nat \<Rightarrow> 'x list \<Rightarrow> 'x list" where
  "landed k xs = take k xs @ drop (Suc k) xs"

fun guard_step :: "'d decimal \<Rightarrow> cost_config \<Rightarrow> 'd guarded \<Rightarrow> 'd guard_event \<Rightarrow> 'd guarded" where
  "guard_step D cfg s (Ask user t d) =
     (case asked D cfg user t d (gc_guard s) of
        (Inl _, g1) \<Rightarrow> s\<lparr>gc_guard := g1\<rparr>
      | (Inr _, g1) \<Rightarrow> s\<lparr>gc_guard := g1, gc_flights := gc_flights s @ [user]\<rparr>)"
| "guard_step D cfg s (Finish k d1 d2 t c) =
     (if k < length (gc_flights s)
      then s\<lparr>gc_guard := recorded D cfg (gc_flights s ! k) d1 d2 t c (gc_guard s), gc_flights := landed k (gc_flights s)\<rparr> else s)"
| "guard_step D cfg s (GiveUp k) = s\<lparr>gc_flights := landed k (gc_flights s)\<rparr>"
| "guard_step D cfg s (CountActions t) = s\<lparr>gc_guard := snd (actions_this_hour t (gc_guard s))\<rparr>"

text \<open>Calls that land are recorded on day \<open>d\<close>.\<close>

fun lands_on :: "date \<Rightarrow> 'd guard_event \<Rightarrow> bool" where
  "lands_on d (Finish k d1 d2 t c) \<longleftrightarrow> d1 = d"
| "lands_on d _ \<longleftrightarrow> True"

text \<open>Over the budget of day \<open>d\<close>, with no more than \<open>n\<close> calls in flight.\<close>

definition blocked :: "date \<Rightarrow> nat \<Rightarrow> 'd guarded \<Rightarrow> bool" where
  "blocked d n s \<longleftrightarrow> over_budget (gc_guard s) \<and> reset_date (daily (gc_guard s)) = d \<and> length (gc_flights s) \<le> n"

lemma flag_refuses:
  assumes "over_budget g"
  shows "asked D cfg user t d g =
    (Inl (DailyBudget (to_cents D (day_total (daily g))) (case max_cost_per_day_cents cfg of Some l \<Rightarrow> l | None \<Rightarrow> 0)), g)"
  using assms by (simp add: asked_def check_allowed_for_user_def check_allowed_cost_def Let_def split: option.split)

lemma record_keeps_flag:
  assumes "over_budget g" and "reset_date (daily g) = d"
  shows "over_budget (recorded D cfg user d d2 t c g)" and "reset_date (daily (recorded D cfg user d d2 t c g)) = d"
  using assms by (auto simp: recorded_def record_llm_call_for_user_def record_llm_call_def record_user_def record_tokens_def record_action_def
      record_daily_def Let_def split: option.split)

lemma landed_shorter: "length (landed k xs) \<le> length xs"
  by (simp add: landed_def)

lemma blocked_step:
  assumes "blocked d n s" and "lands_on d e"
  shows "blocked d n (guard_step D cfg s e)"
proof (cases e)
  case (Ask user t d1)
  then show ?thesis using assms flag_refuses [of "gc_guard s"] by (simp add: blocked_def)
next
  case (Finish k d1 d2 t c)
  then show ?thesis using assms record_keeps_flag [of "gc_guard s" d] landed_shorter [of k "gc_flights s"]
    by (auto simp: blocked_def)
next
  case (GiveUp k)
  then show ?thesis using assms landed_shorter [of k "gc_flights s"] by (simp add: blocked_def)
next
  case (CountActions t)
  then show ?thesis using assms by (simp add: blocked_def actions_this_hour_def Let_def)
qed

text \<open>The machine of a day: nothing is recorded on another.\<close>

interpretation budget_day: guarded_machine "guard_step D cfg" "blocked d n" "lands_on d" for D cfg d n
  by unfold_locales (rule blocked_step)

lemma record_daily_part:
  "daily (snd (record_llm_call D cfg d t c g)) = daily (record_daily D cfg d (cost_of_call D c) g)"
  "reset_date (daily (record_daily D cfg d cost g)) = d"
  by (auto simp: record_llm_call_def record_tokens_def record_action_def record_daily_def Let_def split: option.splits)

subsection \<open>Properties\<close>

text \<open>
  A call is allowed exactly when the guard is not flagged over budget, today's counter is
  below the daily limit, and fewer calls than the hourly limit were recorded in the hour
  before; \<open>actions_this_hour\<close> counts those calls exactly, although each check throws
  expired entries away.
\<close>

theorem call_allowed_iff:
  assumes "guard_run D cfg now calls g" and "now \<le> t"
  shows "(is_ok (fst (check_allowed_cost D cfg t g)) \<longleftrightarrow>
      \<not> over_budget g \<and>
      (case max_cost_per_day_cents cfg of None \<Rightarrow> True | Some l \<Rightarrow> to_cents D (day_total (daily g)) < l) \<and>
      (case max_actions_per_hour cfg of None \<Rightarrow> True
       | Some l \<Rightarrow> length (filter (\<lambda>a. t - secs 3600 \<le> a) calls) < l)) \<and>
    fst (actions_this_hour t g) = length (filter (\<lambda>a. t - secs 3600 \<le> a) calls)"
  using window_inv_drain_eq [OF guard_run_window [OF assms(1)] assms(2)]
  by (auto simp: check_allowed_cost_def check_hourly_def actions_this_hour_def Let_def is_ok_def
      split: option.splits)

theorem call_allowed_iff_witness:
  "fst (actions_this_hour (secs 4000)
     (snd (record_llm_call exact_decimal default_cost_config 0 (secs 10)
       \<lparr>call_model = ''m'', call_input = 1, call_output = 1, call_cache_read = 0, call_cache_creation = 0,
        call_discount = 1, call_multiplier = 1, call_rates = Some (1, 1)\<rparr> (cost_guard_new exact_decimal 0)))) = 0"
proof -
  let ?c = "\<lparr>call_model = ''m'', call_input = 1, call_output = 1, call_cache_read = 0, call_cache_creation = 0,
        call_discount = 1 :: rat, call_multiplier = 1, call_rates = Some (1, 1)\<rparr>"
  have "guard_run exact_decimal default_cost_config (secs 10) ([] @ [secs 10])
      (snd (record_llm_call exact_decimal default_cost_config 0 (secs 10) ?c (cost_guard_new exact_decimal 0)))"
    by (rule run_call, rule run_new [of _ _ 0]) simp
  from call_allowed_iff [OF this, of "secs 4000"] show ?thesis by simp
qed

text \<open>
  As long as dates do not run backwards, today's spend is the sum of the costs of the
  calls recorded today, and a user's spend is the sum over the calls of that user, whatever the
  other users spend and although old entries are pruned when the day changes.
\<close>

theorem spend_exact:
  assumes "sorted (d0 # call_dates cs @ [today])"
  shows "daily_spend D today (guard_after D cfg d0 cs) =
      foldl (dec_add D) (dec_zero D) (map (\<lambda>c. cost_of_call D (at_call c)) (filter (\<lambda>c. at_date c = today) cs)) \<and>
    daily_spend_for_user D today user (guard_after D cfg d0 cs) =
      foldl (dec_add D) (dec_zero D)
        (map (\<lambda>c. cost_of_call D (at_call c)) (filter (\<lambda>c. at_user c = user \<and> at_user_date c = today) cs))"
  using spend_exact_lemma [OF assms] by (simp add: add_all_def)

theorem spend_exact_witness:
  "let c = \<lparr>call_model = ''m'', call_input = 1, call_output = 1, call_cache_read = 0, call_cache_creation = 0,
             call_discount = 1, call_multiplier = 1, call_rates = Some (2, 3)\<rparr>;
       g = guard_after exact_decimal default_cost_config 3
             [\<lparr>at_user = ''u'', at_date = 3, at_user_date = 3, at_instant = 0, at_call = c\<rparr>,
              \<lparr>at_user = ''v'', at_date = 5, at_user_date = 5, at_instant = 9, at_call = c\<rparr>]
   in daily_spend exact_decimal 5 g = 5 \<and> daily_spend_for_user exact_decimal 5 ''u'' g = 0"
proof -
  let ?c = "\<lparr>call_model = ''m'', call_input = 1, call_output = 1, call_cache_read = 0, call_cache_creation = 0,
             call_discount = 1 :: rat, call_multiplier = 1, call_rates = Some (2, 3)\<rparr>"
  let ?cs = "[\<lparr>at_user = ''u'', at_date = 3, at_user_date = 3, at_instant = 0, at_call = ?c\<rparr>,
              \<lparr>at_user = ''v'', at_date = 5, at_user_date = 5, at_instant = 9, at_call = ?c\<rparr>]"
  have "cost_of_call exact_decimal ?c = 5"
    by (simp add: cost_of_call_def llm_call_cost_def exact_decimal_def)
  moreover have "sorted (3 # call_dates ?cs @ [5])" by (simp add: call_dates_def)
  ultimately show ?thesis
    using spend_exact [of 3 ?cs 5 exact_decimal default_cost_config "''u''"]
    by (simp add: Let_def) (simp add: exact_decimal_def)
qed

text \<open>
  C25. Once a recorded call has used up the daily budget, nothing is allowed on that day or any later
  one, with nothing spent that day, as long as the calls that were in flight are recorded on the day
  the limit was reached or fail: however they and any callers overlap, the check answers with the
  budget of that day and no call takes off. Only a recorded call resets the counter.
\<close>

theorem budget_block_is_permanent:
  assumes limit: "max_cost_per_day_cents cfg = Some l"
    and spent: "l \<le> to_cents D (day_total (daily (snd (record_llm_call D cfg d t c g))))"
    and lands: "list_all (lands_on d) es" and "d < d'"
    and s: "s = foldl (guard_step D cfg) \<lparr>gc_guard = snd (record_llm_call D cfg d t c g), gc_flights = flying\<rparr> es"
  shows "daily_spend D d' (gc_guard s) = dec_zero D \<and> length (gc_flights s) \<le> length flying \<and>
    fst (check_allowed_cost D cfg t' (gc_guard s)) = Inl (DailyBudget (to_cents D (day_total (daily (gc_guard s)))) l) \<and>
    fst (check_allowed_for_user D cfg t' d' user (gc_guard s)) = Inl (DailyBudget (to_cents D (day_total (daily (gc_guard s)))) l)"
proof -
  let ?g1 = "snd (record_llm_call D cfg d t c g)"
  have "over_budget ?g1"
    using limit spent by (simp add: record_llm_call_def record_tokens_def record_action_def record_daily_def Let_def split: if_splits)
  then have "blocked d (length flying) \<lparr>gc_guard = ?g1, gc_flights = flying\<rparr>" by (simp add: blocked_def record_daily_part)
  then have kept: "blocked d (length flying) s" unfolding s using lands by (rule budget_day.run_inv)
  then have "daily_spend D d' (gc_guard s) = dec_zero D" using \<open>d < d'\<close> by (simp add: daily_spend_def blocked_def)
  moreover have over: "over_budget (gc_guard s)" using kept by (simp add: blocked_def)
  ultimately show ?thesis
    using kept flag_refuses [OF over, of D cfg None t'] flag_refuses [OF over, of D cfg "Some user" t' d']
    by (simp add: blocked_def asked_def limit)
qed

abbreviation two_dollars :: "rat llm_call" where
  "two_dollars \<equiv> \<lparr>call_model = ''m'', call_input = 0, call_output = 2, call_cache_read = 0, call_cache_creation = 0,
     call_discount = 1, call_multiplier = 1, call_rates = Some (1, 1)\<rparr>"

abbreviation dollar_a_day :: cost_config where
  "dollar_a_day \<equiv> default_cost_config\<lparr>max_cost_per_day_cents := Some 100\<rparr>"

lemma two_dollars_cost: "cost_of_call exact_decimal two_dollars = 2"
  by (simp add: cost_of_call_def llm_call_cost_def exact_decimal_def)

lemma two_dollars_spent:
  "to_cents exact_decimal (day_total (daily (snd (record_llm_call exact_decimal dollar_a_day 0 (secs 10) two_dollars (cost_guard_new exact_decimal 0))))) = 200"
  by (simp add: record_daily_part two_dollars_cost record_daily_def cost_guard_new_def Let_def)
     (simp add: exact_decimal_def to_cents_def)

text \<open>Another call that was in flight is recorded on the same day; the day after is refused.\<close>

theorem budget_block_is_permanent_witness:
  "\<exists>n. fst (check_allowed_cost exact_decimal dollar_a_day (secs 90000) (gc_guard (foldl (guard_step exact_decimal dollar_a_day)
     \<lparr>gc_guard = snd (record_llm_call exact_decimal dollar_a_day 0 (secs 10) two_dollars (cost_guard_new exact_decimal 0)), gc_flights = [Some ''ann'']\<rparr>
     [Finish 0 0 0 (secs 20) two_dollars, Ask None (secs 30) 0]))) = Inl (DailyBudget n 100)"
proof -
  have "list_all (lands_on 0) [Finish 0 0 0 (secs 20) two_dollars, Ask None (secs 30) 0]" by simp
  moreover have "max_cost_per_day_cents dollar_a_day = Some 100" by simp
  moreover have "100 \<le> to_cents exact_decimal (day_total (daily (snd (record_llm_call exact_decimal dollar_a_day 0 (secs 10) two_dollars
      (cost_guard_new exact_decimal 0)))))" unfolding two_dollars_spent by simp
  ultimately show ?thesis
    using budget_block_is_permanent [where d = 0 and d' = 1 and flying = "[Some ''ann'']", OF _ _ _ _ refl] zero_less_one by blast
qed

text \<open>
  A call that was allowed before the budget was used up and is recorded after midnight opens the
  guard again: the total is what this call cost, and below the limit the flag is gone.
\<close>

theorem late_record_reopens:
  assumes "max_cost_per_day_cents cfg = Some l" and "reset_date (daily g) \<noteq> d"
    and "to_cents D (dec_add D (dec_zero D) (cost_of_call D c)) < l"
  shows "fst (check_allowed_cost D cfg t' (recorded D cfg user d d2 t c g)) = fst (check_hourly cfg t' (recorded D cfg user d d2 t c g))"
  using assms by (auto simp: check_allowed_cost_def recorded_def record_llm_call_for_user_def record_llm_call_def record_user_def record_tokens_def
      record_action_def record_daily_def check_hourly_def Let_def split: option.split)

theorem late_record_reopens_witness:
  "fst (check_allowed_cost exact_decimal (dollar_a_day\<lparr>max_cost_per_day_cents := Some 300\<rparr>) (secs 90000)
     (recorded exact_decimal (dollar_a_day\<lparr>max_cost_per_day_cents := Some 300\<rparr>) None 1 1 (secs 86500) two_dollars
       ((cost_guard_new exact_decimal 0)\<lparr>over_budget := True\<rparr>))) = Inr ()"
proof -
  have "to_cents exact_decimal (dec_add exact_decimal (dec_zero exact_decimal) (cost_of_call exact_decimal two_dollars)) < 300"
    unfolding two_dollars_cost by (simp add: exact_decimal_def to_cents_def)
  from late_record_reopens [OF _ _ this, of "dollar_a_day\<lparr>max_cost_per_day_cents := Some 300\<rparr>" "(cost_guard_new exact_decimal 0)\<lparr>over_budget := True\<rparr>" 1
      "secs 90000" None 1 "secs 86500"]
  show ?thesis by (simp add: cost_guard_new_def check_hourly_def default_cost_config_def)
qed

end
