(* ===== verification/RateLimiter.thy ===== *)
theory RateLimiter
  imports Prelude
begin

text \<open>
  The rate limiter of tool calls, \<open>src/tools/rate_limiter.rs\<close>, keyed by user and tool. An
  operation reads the clock several times in a row under one lock; the model takes one
  reading for all of them. The lemmas show how many calls a window and any interval of its
  length can admit, and that keys do not influence each other.
\<close>

section \<open>State and operations\<close>

record tool_rate_limit_config =
  requests_per_minute :: "32 word"
  requests_per_hour :: "32 word"

definition default_rate_limit :: tool_rate_limit_config where
  "default_rate_limit = \<lparr>requests_per_minute = 60, requests_per_hour = 1000\<rparr>"

datatype limit_type = PerMinute | PerHour

datatype rate_limit_result =
  RateAllowed "32 word" "32 word"
| RateLimited duration limit_type

fun is_allowed :: "rate_limit_result \<Rightarrow> bool" where
  "is_allowed (RateAllowed _ _) = True"
| "is_allowed (RateLimited _ _) = False"

record window_state =
  window_start :: instant
  window_count :: "32 word"

definition window_new :: "instant \<Rightarrow> window_state" where
  "window_new now = \<lparr>window_start = now, window_count = 0\<rparr>"

definition maybe_reset :: "instant \<Rightarrow> duration \<Rightarrow> window_state \<Rightarrow> window_state" where
  "maybe_reset now d w = (if now - window_start w \<ge> d then \<lparr>window_start = now, window_count = 0\<rparr> else w)"

definition time_until_reset :: "instant \<Rightarrow> duration \<Rightarrow> window_state \<Rightarrow> duration" where
  "time_until_reset now d w = (let elapsed = now - window_start w in if elapsed \<ge> d then 0 else d - elapsed)"

record tool_rate_limit_state =
  minute_window :: window_state
  hour_window :: window_state

definition tool_rate_limit_new :: "instant \<Rightarrow> tool_rate_limit_state" where
  "tool_rate_limit_new now = \<lparr>minute_window = window_new now, hour_window = window_new now\<rparr>"

type_synonym rate_key = "string \<times> utext"
type_synonym rate_limiter = "rate_key \<rightharpoonup> tool_rate_limit_state"

definition check_entry ::
  "instant \<Rightarrow> tool_rate_limit_config \<Rightarrow> bool \<Rightarrow> tool_rate_limit_state \<Rightarrow> rate_limit_result \<times> tool_rate_limit_state" where
  "check_entry now cfg rec s0 =
     (let s = \<lparr>minute_window = maybe_reset now (secs 60) (minute_window s0),
               hour_window = maybe_reset now (secs 3600) (hour_window s0)\<rparr>
      in if window_count (minute_window s) \<ge> requests_per_minute cfg
         then (RateLimited (time_until_reset now (secs 60) (minute_window s)) PerMinute, s)
         else if window_count (hour_window s) \<ge> requests_per_hour cfg
         then (RateLimited (time_until_reset now (secs 3600) (hour_window s)) PerHour, s)
         else let s1 = (if rec then \<lparr>minute_window = (minute_window s)\<lparr>window_count := window_count (minute_window s) + 1\<rparr>,
                                    hour_window = (hour_window s)\<lparr>window_count := window_count (hour_window s) + 1\<rparr>\<rparr>
                        else s)
           in (RateAllowed (requests_per_minute cfg - window_count (minute_window s1))
                 (requests_per_hour cfg - window_count (hour_window s1)), s1))"

definition check_internal ::
  "instant \<Rightarrow> rate_key \<Rightarrow> tool_rate_limit_config \<Rightarrow> bool \<Rightarrow> rate_limiter \<Rightarrow> rate_limit_result \<times> rate_limiter" where
  "check_internal now key cfg rec m =
     (let s = (case m key of Some s \<Rightarrow> s | None \<Rightarrow> tool_rate_limit_new now)
      in case check_entry now cfg rec s of (r, s') \<Rightarrow> (r, m(key \<mapsto> s')))"

definition check_and_record ::
  "instant \<Rightarrow> rate_key \<Rightarrow> tool_rate_limit_config \<Rightarrow> rate_limiter \<Rightarrow> rate_limit_result \<times> rate_limiter" where
  "check_and_record now key cfg m = check_internal now key cfg True m"

definition check_rate ::
  "instant \<Rightarrow> rate_key \<Rightarrow> tool_rate_limit_config \<Rightarrow> rate_limiter \<Rightarrow> rate_limit_result \<times> rate_limiter" where
  "check_rate now key cfg m = check_internal now key cfg False m"

definition get_usage :: "rate_key \<Rightarrow> rate_limiter \<Rightarrow> (32 word \<times> 32 word) option" where
  "get_usage key m =
     map_option (\<lambda>s. (window_count (minute_window s), window_count (hour_window s))) (m key)"

definition clear_rate :: "rate_key \<Rightarrow> rate_limiter \<Rightarrow> rate_limiter" where
  "clear_rate key m = m(key := None)"

definition clear_all_rates :: "rate_limiter \<Rightarrow> rate_limiter" where
  "clear_all_rates m = Map.empty"

definition rate_limit_error :: "rate_limit_result \<Rightarrow> (duration \<times> limit_type, unit) result" where
  "rate_limit_error r = (case r of RateAllowed _ _ \<Rightarrow> Inr () | RateLimited d t \<Rightarrow> Inl (d, t))"

section \<open>One window\<close>

text \<open>How many of the admitted calls fall into an interval of time.\<close>

definition calls_in :: "nat list \<Rightarrow> nat \<Rightarrow> nat \<Rightarrow> nat" where
  "calls_in calls a b = length (filter (\<lambda>t. a \<le> t \<and> t < b) calls)"

lemma calls_in_snoc [simp]: "calls_in (calls @ [t]) a b = calls_in calls a b + (if a \<le> t \<and> t < b then 1 else 0)"
  by (simp add: calls_in_def)

lemma calls_in_Nil [simp]: "calls_in [] a b = 0"
  by (simp add: calls_in_def)

lemma calls_in_mono: "a' \<le> a \<Longrightarrow> b \<le> b' \<Longrightarrow> calls_in calls a b \<le> calls_in calls a' b'"
  unfolding calls_in_def by (induction calls) auto

lemma calls_in_split: "a \<le> c \<Longrightarrow> c \<le> b \<Longrightarrow> calls_in calls a b = calls_in calls a c + calls_in calls c b"
  unfolding calls_in_def by (induction calls) auto

text \<open>
  A window of length d and limit l at the time now: every call was admitted before the window
  expires, its counter counts the calls since it started, the last d before its start admitted
  at most l, and so any interval of length d holds at most twice the limit.
\<close>

definition window_ok :: "duration \<Rightarrow> nat \<Rightarrow> instant \<Rightarrow> instant list \<Rightarrow> window_state \<Rightarrow> bool" where
  "window_ok d l now calls w \<longleftrightarrow>
     window_start w \<le> now \<and> (\<forall>t \<in> set calls. t \<le> now \<and> t < window_start w + d) \<and>
     unat (window_count w) = calls_in calls (window_start w) (Suc now) \<and> unat (window_count w) \<le> l \<and>
     (\<forall>a. window_start w < a + d \<longrightarrow> calls_in calls a (window_start w) \<le> l) \<and>
     (\<forall>a. calls_in calls a (a + d) \<le> 2 * l)"

lemma calls_in_after: "\<forall>t \<in> set calls. t \<le> now \<Longrightarrow> Suc now \<le> b \<Longrightarrow> calls_in calls a b = calls_in calls a (Suc now)"
  unfolding calls_in_def by (induction calls) auto

lemma window_ok_later:
  assumes "window_ok d l now calls w" and "now \<le> now'"
  shows "window_ok d l now' calls w"
  using assms calls_in_after [of calls now "Suc now'"] by (fastforce simp: window_ok_def)

lemma window_ok_reset:
  assumes "window_ok d l now calls w" and "now \<le> now'"
  shows "window_ok d l now' calls (maybe_reset now' d w)"
proof (cases "now' - window_start w \<ge> d")
  case False
  then show ?thesis
    using window_ok_later [OF assms] by (simp add: maybe_reset_def)
next
  case True
  let ?s = "window_start w"
  have ok: "\<forall>t \<in> set calls. t \<le> now' \<and> t < ?s + d" "unat (window_count w) = calls_in calls ?s (Suc now')"
    "unat (window_count w) \<le> l" "?s \<le> now'"
    using window_ok_later [OF assms] by (auto simp: window_ok_def)
  have before: "\<forall>t \<in> set calls. t < now'" using ok(1,4) True by fastforce
  have "calls_in calls a now' \<le> l" if "now' < a + d" for a
  proof -
    have "?s \<le> a" using True that ok(4) by linarith
    then show ?thesis using ok(2,3) calls_in_mono [of ?s a now' "Suc now'" calls] by simp
  qed
  moreover have "calls_in calls now' (Suc now') = 0"
    using before by (auto simp: calls_in_def filter_empty_conv)
  ultimately show ?thesis
    using True assms(1) before by (fastforce simp: window_ok_def maybe_reset_def)
qed

lemma window_ok_call:
  assumes "window_ok d l now calls w" and "now < window_start w + d" and "unat (window_count w) < l" and "l < 2 ^ 32"
  shows "window_ok d l now (calls @ [now]) (w\<lparr>window_count := window_count w + 1\<rparr>)"
proof -
  let ?s = "window_start w"
  have ok: "?s \<le> now" "unat (window_count w) = calls_in calls ?s (Suc now)"
    "\<And>a. ?s < a + d \<Longrightarrow> calls_in calls a ?s \<le> l" "\<And>a. calls_in calls a (a + d) \<le> 2 * l"
    "\<forall>t \<in> set calls. t \<le> now \<and> t < ?s + d"
    using assms(1) by (auto simp: window_ok_def)
  have up: "unat (window_count w + 1) = unat (window_count w) + 1"
    using assms(3,4) by (simp add: unat_word_ariths)
  have "calls_in (calls @ [now]) a (a + d) \<le> 2 * l" for a
  proof (cases "a \<le> now \<and> now < a + d")
    case True
    have "calls_in calls a (a + d) \<le> l + unat (window_count w)"
    proof (cases "a \<le> ?s")
      case le: True
      have "calls_in calls a (a + d) = calls_in calls a (Suc now)"
        using calls_in_after [of calls now "a + d" a] ok(5) True by auto
      also have "\<dots> = calls_in calls a ?s + calls_in calls ?s (Suc now)"
        using calls_in_split [OF le, of "Suc now"] ok(1) by simp
      finally show ?thesis using ok(2) ok(3) [of a] True ok(1) by simp
    next
      case False
      have "calls_in calls a (a + d) = calls_in calls a (Suc now)"
        using calls_in_after [of calls now "a + d" a] ok(5) True by auto
      also have "\<dots> \<le> calls_in calls ?s (Suc now)"
        by (rule calls_in_mono) (use False in auto)
      finally show ?thesis using ok(2) by simp
    qed
    with assms(3) show ?thesis by (simp add: True)
  next
    case False
    then show ?thesis using ok(4) [of a] by auto
  qed
  then show ?thesis
    using ok assms up by (auto simp: window_ok_def)
qed

lemma window_ok_new: "window_ok d l now [] (window_new now) \<longleftrightarrow> True"
  by (auto simp: window_ok_def window_new_def)

section \<open>One key\<close>

definition entry_ok :: "tool_rate_limit_config \<Rightarrow> instant \<Rightarrow> instant list \<Rightarrow> tool_rate_limit_state \<Rightarrow> bool" where
  "entry_ok cfg now calls s \<longleftrightarrow>
     window_ok (secs 60) (unat (requests_per_minute cfg)) now calls (minute_window s) \<and>
     window_ok (secs 3600) (unat (requests_per_hour cfg)) now calls (hour_window s)"

lemma entry_ok_new: "entry_ok cfg now [] (tool_rate_limit_new now)"
  by (simp add: entry_ok_def tool_rate_limit_new_def window_ok_new)

lemma entry_ok_later: "entry_ok cfg now calls s \<Longrightarrow> now \<le> t \<Longrightarrow> entry_ok cfg t calls s"
  by (auto simp: entry_ok_def intro: window_ok_later)

lemma reset_running: "0 < d \<Longrightarrow> now < window_start (maybe_reset now d w) + d"
  by (auto simp: maybe_reset_def)

lemma limit_below: "unat (l :: 32 word) < 2 ^ 32"
proof -
  have "unat l < 2 ^ LENGTH(32)" by (rule unsigned_less)
  then show ?thesis by simp
qed

lemma entry_ok_check:
  assumes "entry_ok cfg now calls s" and "now \<le> t" and "check_entry t cfg rec s = (r, s')"
  shows "entry_ok cfg t (if rec \<and> is_allowed r then calls @ [t] else calls) s'"
proof -
  let ?m = "maybe_reset t (secs 60) (minute_window s)" and ?h = "maybe_reset t (secs 3600) (hour_window s)"
  have m: "window_ok (secs 60) (unat (requests_per_minute cfg)) t calls ?m"
    and h: "window_ok (secs 3600) (unat (requests_per_hour cfg)) t calls ?h"
    using assms(1,2) by (auto simp: entry_ok_def intro: window_ok_reset)
  have up: "window_ok (secs 60) (unat (requests_per_minute cfg)) t (calls @ [t]) (?m\<lparr>window_count := window_count ?m + 1\<rparr>)"
    if "\<not> window_count ?m \<ge> requests_per_minute cfg"
    by (rule window_ok_call [OF m]) (use that reset_running [of "secs 60" t] limit_below in \<open>auto simp: word_le_nat_alt\<close>)
  have up': "window_ok (secs 3600) (unat (requests_per_hour cfg)) t (calls @ [t]) (?h\<lparr>window_count := window_count ?h + 1\<rparr>)"
    if "\<not> window_count ?h \<ge> requests_per_hour cfg"
    by (rule window_ok_call [OF h]) (use that reset_running [of "secs 3600" t] limit_below in \<open>auto simp: word_le_nat_alt\<close>)
  consider (minute) "window_count ?m \<ge> requests_per_minute cfg"
    | (hour) "\<not> window_count ?m \<ge> requests_per_minute cfg" "window_count ?h \<ge> requests_per_hour cfg"
    | (both) "\<not> window_count ?m \<ge> requests_per_minute cfg" "\<not> window_count ?h \<ge> requests_per_hour cfg"
    by blast
  then show ?thesis
  proof cases
    case minute
    with assms(3) m h show ?thesis by (auto simp: check_entry_def entry_ok_def)
  next
    case hour
    with assms(3) m h show ?thesis by (auto simp: check_entry_def entry_ok_def Let_def)
  next
    case both
    with assms(3) m h up up' show ?thesis by (cases rec) (auto simp: check_entry_def entry_ok_def Let_def)
  qed
qed

text \<open>
  The runs of a limiter as one key sees them: the clock, the calls of that key admitted by
  \<open>check_and_record\<close>, and the limiter. The key is always checked against the same
  configuration and is not cleared; everything about the other keys is arbitrary.
\<close>

inductive rate_run ::
  "rate_key \<Rightarrow> tool_rate_limit_config \<Rightarrow> instant \<Rightarrow> instant list \<Rightarrow> rate_limiter \<Rightarrow> bool" for key cfg where
  rate_new: "rate_run key cfg now [] Map.empty"
| rate_record: "rate_run key cfg now calls m \<Longrightarrow> now \<le> t \<Longrightarrow> check_and_record t key cfg m = (r, m') \<Longrightarrow>
    rate_run key cfg t (if is_allowed r then calls @ [t] else calls) m'"
| rate_check: "rate_run key cfg now calls m \<Longrightarrow> now \<le> t \<Longrightarrow>
    rate_run key cfg t calls (snd (check_rate t key cfg m))"
| rate_other: "rate_run key cfg now calls m \<Longrightarrow> now \<le> t \<Longrightarrow> key' \<noteq> key \<Longrightarrow>
    rate_run key cfg t calls (snd (check_internal t key' cfg' rec m))"
| rate_clear_other: "rate_run key cfg now calls m \<Longrightarrow> key' \<noteq> key \<Longrightarrow>
    rate_run key cfg now calls (clear_rate key' m)"

definition key_ok :: "rate_key \<Rightarrow> tool_rate_limit_config \<Rightarrow> instant \<Rightarrow> instant list \<Rightarrow> rate_limiter \<Rightarrow> bool" where
  "key_ok key cfg now calls m \<longleftrightarrow> (case m key of None \<Rightarrow> calls = [] | Some s \<Rightarrow> entry_ok cfg now calls s)"

lemma key_ok_check:
  assumes "key_ok key cfg now calls m" and "now \<le> t" and "check_internal t key cfg rec m = (r, m')"
  shows "key_ok key cfg t (if rec \<and> is_allowed r then calls @ [t] else calls) m'"
proof -
  let ?s = "case m key of Some s \<Rightarrow> s | None \<Rightarrow> tool_rate_limit_new t"
  obtain s' where s': "check_entry t cfg rec ?s = (r, s')" and m': "m' = m(key \<mapsto> s')"
    using assms(3) by (auto simp: check_internal_def Let_def split: prod.splits)
  have "entry_ok cfg t calls ?s"
    using assms(1,2) entry_ok_later by (auto simp: key_ok_def entry_ok_new split: option.splits)
  from entry_ok_check [OF this le_refl s'] show ?thesis by (simp add: key_ok_def m')
qed

text \<open>Other keys do not touch the entry of a key.\<close>

lemma other_key: "key' \<noteq> key \<Longrightarrow> snd (check_internal t key' cfg rec m) key = m key"
  by (simp add: check_internal_def Let_def split: prod.splits)

lemma rate_run_ok: "rate_run key cfg now calls m \<Longrightarrow> key_ok key cfg now calls m"
proof (induction rule: rate_run.induct)
  case (rate_record now calls m t r m')
  then show ?case using key_ok_check [of key cfg now calls m t True r m'] by (simp add: check_and_record_def)
next
  case (rate_check now calls m t)
  then show ?case
    using key_ok_check [of key cfg now calls m t False "fst (check_rate t key cfg m)" "snd (check_rate t key cfg m)"]
    by (simp add: check_rate_def)
next
  case (rate_other now calls m t key' cfg' rec)
  then show ?case using entry_ok_later by (auto simp: key_ok_def other_key split: option.splits)
next
  case (rate_clear_other now calls m key')
  then show ?case by (simp add: key_ok_def clear_rate_def)
qed (simp add: key_ok_def)

text \<open>An answer that allows a call counts down exactly: the subtractions do not wrap around.\<close>

lemma remaining_exact:
  assumes "check_entry t cfg rec s = (RateAllowed rm rh, s')"
  shows "unat rm + unat (window_count (minute_window s')) = unat (requests_per_minute cfg) \<and>
    unat rh + unat (window_count (hour_window s')) = unat (requests_per_hour cfg)"
proof -
  have sub: "unat (l - c) + unat c = unat l" if "c \<le> l" for l c :: "32 word"
    using that by (simp add: word_le_nat_alt unat_sub_if')
  have inc: "c + 1 \<le> l" if "\<not> l \<le> c" for l c :: "32 word"
    using that by (simp add: inc_le not_le)
  from assms show ?thesis
    by (auto simp: check_entry_def Let_def sub inc not_le less_imp_le split: if_splits)
qed

section \<open>Repeated calls\<close>

fun record_n :: "nat \<Rightarrow> instant \<Rightarrow> rate_key \<Rightarrow> tool_rate_limit_config \<Rightarrow> rate_limiter \<Rightarrow> rate_limit_result list \<times> rate_limiter" where
  "record_n 0 t key cfg m = ([], m)"
| "record_n (Suc n) t key cfg m =
     (case check_and_record t key cfg m of (r, m1) \<Rightarrow>
      case record_n n t key cfg m1 of (rs, m2) \<Rightarrow> (r # rs, m2))"

lemma maybe_reset_again: "0 < d \<Longrightarrow> maybe_reset t d (maybe_reset t d w) = maybe_reset t d w"
  by (simp add: maybe_reset_def)

lemma maybe_reset_count: "0 < d \<Longrightarrow> maybe_reset t d ((maybe_reset t d w)\<lparr>window_count := c\<rparr>) = (maybe_reset t d w)\<lparr>window_count := c\<rparr>"
  by (simp add: maybe_reset_def)

text \<open>At one instant, a key is served as long as both of its windows have room.\<close>

lemma record_n_allowed:
  assumes "m key = Some s"
    and "maybe_reset t (secs 60) (minute_window s) = mw" and "maybe_reset t (secs 3600) (hour_window s) = hw"
    and "unat (window_count mw) + n \<le> unat (requests_per_minute cfg)"
    and "unat (window_count hw) + n \<le> unat (requests_per_hour cfg)"
  shows "list_all is_allowed (fst (record_n n t key cfg m)) \<and>
    (0 < n \<longrightarrow> snd (record_n n t key cfg m) key =
      Some \<lparr>minute_window = mw\<lparr>window_count := window_count mw + of_nat n\<rparr>,
            hour_window = hw\<lparr>window_count := window_count hw + of_nat n\<rparr>\<rparr>)"
  using assms
proof (induction n arbitrary: m s mw hw)
  case 0
  then show ?case by simp
next
  case (Suc n)
  let ?mw = "mw\<lparr>window_count := window_count mw + 1\<rparr>" and ?hw = "hw\<lparr>window_count := window_count hw + 1\<rparr>"
  let ?m1 = "m(key \<mapsto> \<lparr>minute_window = ?mw, hour_window = ?hw\<rparr>)"
  have up: "unat (window_count mw + 1) = unat (window_count mw) + 1" "unat (window_count hw + 1) = unat (window_count hw) + 1"
    using Suc.prems(4,5) limit_below [of "requests_per_minute cfg"] limit_below [of "requests_per_hour cfg"]
    by (simp_all add: unat_word_ariths)
  have room: "\<not> requests_per_minute cfg \<le> window_count mw" "\<not> requests_per_hour cfg \<le> window_count hw"
    using Suc.prems(4,5) by (simp_all add: word_le_nat_alt)
  obtain r where r: "check_and_record t key cfg m = (r, ?m1)" and ok: "is_allowed r"
    using Suc.prems(1-3) room by (simp add: check_and_record_def check_internal_def check_entry_def Let_def)
  have again: "maybe_reset t (secs 60) (minute_window \<lparr>minute_window = ?mw, hour_window = ?hw\<rparr>) = ?mw"
    "maybe_reset t (secs 3600) (hour_window \<lparr>minute_window = ?mw, hour_window = ?hw\<rparr>) = ?hw"
    by (auto simp: maybe_reset_def simp flip: Suc.prems(2,3))
  have "list_all is_allowed (fst (record_n n t key cfg ?m1)) \<and>
    (0 < n \<longrightarrow> snd (record_n n t key cfg ?m1) key =
      Some \<lparr>minute_window = ?mw\<lparr>window_count := window_count ?mw + of_nat n\<rparr>,
            hour_window = ?hw\<lparr>window_count := window_count ?hw + of_nat n\<rparr>\<rparr>)"
    by (rule Suc.IH [OF _ again]) (use Suc.prems(4,5) up in simp_all)
  moreover have "record_n (Suc n) t key cfg m = (r # fst (record_n n t key cfg ?m1), snd (record_n n t key cfg ?m1))"
    by (simp add: r case_prod_beta)
  ultimately show ?case using ok by (cases n) (simp_all add: add.assoc)
qed

subsection \<open>Properties\<close>

text \<open>
  Whatever the other keys do, a key whose limits stay the same is never admitted more
  than twice its minute limit in any 60 seconds, nor twice its hour limit in any 3600, and its
  usage counters hold the number of calls since the window started, never above the limit.
\<close>

theorem rate_bound:
  assumes "rate_run key cfg now calls m"
  shows "length (filter (\<lambda>t. a \<le> t \<and> t < a + secs 60) calls) \<le> 2 * unat (requests_per_minute cfg) \<and>
    length (filter (\<lambda>t. a \<le> t \<and> t < a + secs 3600) calls) \<le> 2 * unat (requests_per_hour cfg) \<and>
    (case get_usage key m of
       None \<Rightarrow> calls = []
     | Some (c, h) \<Rightarrow> c \<le> requests_per_minute cfg \<and> h \<le> requests_per_hour cfg)"
proof (cases "m key")
  case None
  with rate_run_ok [OF assms] show ?thesis by (simp add: key_ok_def get_usage_def)
next
  case (Some s)
  with rate_run_ok [OF assms] have ok: "entry_ok cfg now calls s" by (simp add: key_ok_def)
  then have "calls_in calls a (a + secs 60) \<le> 2 * unat (requests_per_minute cfg)"
    "calls_in calls a (a + secs 3600) \<le> 2 * unat (requests_per_hour cfg)"
    "unat (window_count (minute_window s)) \<le> unat (requests_per_minute cfg)"
    "unat (window_count (hour_window s)) \<le> unat (requests_per_hour cfg)"
    by (auto simp: entry_ok_def window_ok_def)
  with Some show ?thesis by (simp add: calls_in_def get_usage_def word_le_nat_alt)
qed

theorem rate_bound_witness:
  "length (filter (\<lambda>t. 0 \<le> t \<and> t < 0 + secs 60) [5]) \<le> 2 * unat (requests_per_minute default_rate_limit)"
proof -
  let ?out = "check_and_record 5 (''u'', utext_of ''shell'') default_rate_limit Map.empty"
  have "is_allowed (fst ?out)"
    by (simp add: check_and_record_def check_internal_def check_entry_def default_rate_limit_def
        tool_rate_limit_new_def window_new_def maybe_reset_def Let_def)
  then have "rate_run (''u'', utext_of ''shell'') default_rate_limit 5 [5] (snd ?out)"
    using rate_record [OF rate_new [of _ _ 0], of 5 "(''u'', utext_of ''shell'')" default_rate_limit "fst ?out" "snd ?out"] by simp
  from rate_bound [OF this, of 0] show ?thesis by blast
qed

text \<open>
  The factor of two is reached: the windows are fixed, not sliding, so a key that has
  opened its window can be admitted its whole minute limit in the last nanosecond of the
  window and the whole limit again one nanosecond later.
\<close>

theorem burst_of_twice_the_limit:
  assumes "n = unat (requests_per_minute cfg)" and "2 * n \<le> unat (requests_per_hour cfg)"
  shows "let m0 = snd (check_rate 0 key cfg Map.empty);
             (first, m1) = record_n n (secs 60 - 1) key cfg m0;
             (second, m2) = record_n n (secs 60) key cfg m1
    in length (filter is_allowed (first @ second)) = 2 * n"
proof (cases "n = 0")
  case True
  then show ?thesis by (simp add: Let_def)
next
  case False
  have len: "length (fst (record_n k t key cfg m)) = k" for k t m
    by (induction k arbitrary: m) (simp_all add: case_prod_beta)
  let ?m0 = "snd (check_rate 0 key cfg Map.empty)"
  let ?r1 = "record_n n (secs 60 - 1) key cfg ?m0"
  let ?r2 = "record_n n (secs 60) key cfg (snd ?r1)"
  have m0: "?m0 key = Some (tool_rate_limit_new 0)"
    by (auto simp: check_rate_def check_internal_def check_entry_def Let_def maybe_reset_def
        tool_rate_limit_new_def window_new_def split: prod.splits if_splits)
  have cnt: "unat (of_nat n :: 32 word) = n" using assms(1) by simp
  have one: "list_all is_allowed (fst ?r1) \<and>
    (0 < n \<longrightarrow> snd ?r1 key = Some \<lparr>minute_window = (window_new 0)\<lparr>window_count := window_count (window_new 0) + of_nat n\<rparr>,
      hour_window = (window_new 0)\<lparr>window_count := window_count (window_new 0) + of_nat n\<rparr>\<rparr>)"
    by (rule record_n_allowed [where m = ?m0 and key = key, OF m0])
       (use assms in \<open>simp_all add: tool_rate_limit_new_def window_new_def maybe_reset_def\<close>)
  then have m1: "snd ?r1 key = Some \<lparr>minute_window = \<lparr>window_start = 0, window_count = of_nat n\<rparr>,
      hour_window = \<lparr>window_start = 0, window_count = of_nat n\<rparr>\<rparr>"
    using False by (simp add: window_new_def)
  have two: "list_all is_allowed (fst ?r2)"
    by (rule record_n_allowed [where m = "snd ?r1" and key = key and t = "secs 60" and mw = "window_new (secs 60)"
          and hw = "\<lparr>window_start = 0, window_count = of_nat n\<rparr>", OF m1, THEN conjunct1])
       (use assms cnt in \<open>simp_all add: window_new_def maybe_reset_def\<close>)
  have "filter is_allowed (fst ?r1 @ fst ?r2) = fst ?r1 @ fst ?r2"
    using one two by (simp add: filter_id_conv list_all_iff)
  then have "length (filter is_allowed (fst ?r1 @ fst ?r2)) = 2 * n"
    by (simp only: length_append len mult_2)
  then show ?thesis by (simp only: Let_def case_prod_beta)
qed

theorem burst_of_twice_the_limit_witness:
  "let m0 = snd (check_rate 0 (''u'', utext_of ''shell'') default_rate_limit Map.empty);
       (first, m1) = record_n 60 (secs 60 - 1) (''u'', utext_of ''shell'') default_rate_limit m0;
       (second, m2) = record_n 60 (secs 60) (''u'', utext_of ''shell'') default_rate_limit m1
   in length (filter is_allowed (first @ second)) = 120"
  using burst_of_twice_the_limit [of 60 default_rate_limit "(''u'', utext_of ''shell'')"]
  by (simp add: default_rate_limit_def)

end
