(* ===== verification/ChatMessages.thy ===== *)
theory ChatMessages
  imports Prelude
begin

text \<open>
  Messages exchanged with a model (\<open>src/llm/provider.rs\<close>), the preview of long text
  (\<open>crates/ironclaw_common/src/util.rs\<close>) and the sentinel of a generated image
  (\<open>src/generated_images.rs\<close>). The lemmas show the format of the tool-call identifiers, what
  the clean-up of tool results guarantees, and when a preview is stable.
\<close>

section \<open>Text as bytes\<close>

text \<open>The number of UTF-8 bytes of a scalar value; \<open>str::len\<close> counts bytes.\<close>

definition utf8_len :: "nat \<Rightarrow> nat" where
  "utf8_len c = (if c < 128 then 1 else if c < 2048 then 2 else if c < 65536 then 3 else 4)"

definition byte_len :: "utext \<Rightarrow> nat" where
  "byte_len s = sum_list (map utf8_len s)"

text \<open>
  \<open>&s[..end]\<close> for the largest character boundary \<open>end\<close> not beyond \<open>max_bytes\<close>: as many whole
  characters as fit.
\<close>

fun take_bytes :: "nat \<Rightarrow> utext \<Rightarrow> utext" where
  "take_bytes n [] = []"
| "take_bytes n (c # s) = (if utf8_len c \<le> n then c # take_bytes (n - utf8_len c) s else [])"

definition truncate_preview :: "utext \<Rightarrow> nat \<Rightarrow> utext" where
  "truncate_preview s max_bytes =
     (if byte_len s \<le> max_bytes then s
      else let result = take_bytes max_bytes s @ utext_of ''...''
        in if take 12 s = utext_of ''<tool_output'' \<and>
              \<not> (14 \<le> length result \<and> drop (length result - 14) result = utext_of ''</tool_output>'')
           then result @ [10] @ utext_of ''</tool_output>'' else result)"

lemma byte_len_simps [simp]:
  "byte_len [] = 0" "byte_len (c # s) = utf8_len c + byte_len s" "byte_len (s @ t) = byte_len s + byte_len t"
  by (simp_all add: byte_len_def)

lemma take_bytes_le: "byte_len (take_bytes n s) \<le> n"
proof (induction s arbitrary: n)
  case (Cons c s)
  have "byte_len (take_bytes (n - utf8_len c) s) \<le> n - utf8_len c" by (rule Cons.IH)
  then show ?case by auto
qed simp

lemma take_bytes_prefix: "\<exists>rest. s = take_bytes n s @ rest"
  by (induction s arbitrary: n) auto

lemma byte_len_ascii: "\<forall>c \<in> set s. c < 128 \<Longrightarrow> byte_len s = length s"
  by (induction s) (auto simp: utf8_len_def)

lemma byte_len_dots: "byte_len (utext_of ''...'') = 3"
  by (simp add: utext_of_def utf8_len_def)

lemma byte_len_closing: "byte_len (utext_of ''</tool_output>'') = 14"
  by (simp add: utext_of_def utf8_len_def)

text \<open>A preview exceeds its bound by the dots and, at worst, the line that closes the tag.\<close>

lemma truncate_preview_len: "byte_len (truncate_preview s n) \<le> n + 18"
proof -
  have "byte_len (take_bytes n s) \<le> n" by (rule take_bytes_le)
  moreover have "utf8_len 10 = 1" by (simp add: utf8_len_def)
  ultimately show ?thesis
    by (simp add: truncate_preview_def Let_def byte_len_dots byte_len_closing)
qed

lemma truncate_preview_short: "byte_len s \<le> n \<Longrightarrow> truncate_preview s n = s"
  by (simp add: truncate_preview_def)

section \<open>JSON values and generated images\<close>

text \<open>
  \<open>serde_json::Value\<close>; the keys of an object are distinct. Reading and printing JSON are
  library functions and arguments of the definitions that use them.
\<close>

datatype 'n json =
  JNull | JBool bool | JNum 'n | JString utext | JArray "'n json list" | JObject "(utext \<times> 'n json) list"

fun json_get :: "'n json \<Rightarrow> string \<Rightarrow> 'n json option" where
  "json_get (JObject kvs) k = map_of kvs (utext_of k)"
| "json_get _ _ = None"

fun json_str :: "'n json \<Rightarrow> utext option" where
  "json_str (JString s) = Some s"
| "json_str _ = None"

definition json_get_str :: "'n json \<Rightarrow> string \<Rightarrow> utext option" where
  "json_get_str v k = Option.bind (json_get v k) json_str"

text \<open>The loop runs \<open>MAX_EMBEDDED_JSON_STRING_LAYERS - 1\<close> = 2 rounds.\<close>

fun unwrap_layers :: "(utext \<Rightarrow> 'n json option) \<Rightarrow> nat \<Rightarrow> 'n json \<Rightarrow> 'n json option" where
  "unwrap_layers parse 0 current = Some current"
| "unwrap_layers parse (Suc n) current =
     (case current of
        JString s \<Rightarrow> (case parse s of None \<Rightarrow> None | Some v \<Rightarrow> unwrap_layers parse n v)
      | _ \<Rightarrow> Some current)"

definition normalize_embedded_json :: "(utext \<Rightarrow> 'n json option) \<Rightarrow> 'n json \<Rightarrow> 'n json option" where
  "normalize_embedded_json parse v =
     (case v of
        JString s \<Rightarrow> (case parse s of None \<Rightarrow> None | Some current \<Rightarrow> unwrap_layers parse 2 current)
      | _ \<Rightarrow> Some v)"

definition image_from_value :: "(utext \<Rightarrow> 'n json option) \<Rightarrow> 'n json \<Rightarrow> 'n json option" where
  "image_from_value parse v =
     (case normalize_embedded_json parse v of
        None \<Rightarrow> None
      | Some w \<Rightarrow> if json_get_str w ''type'' = Some (utext_of ''image_generated'') then Some w else None)"

definition image_media_type :: "'n json \<Rightarrow> utext option" where
  "image_media_type v =
     Option.bind (case json_get v ''media_type'' of Some m \<Rightarrow> Some m | None \<Rightarrow> json_get v ''mime_type'') json_str"

definition image_summary_for_context :: "'n json \<Rightarrow> utext" where
  "image_summary_for_context v =
     (let media_type = (case image_media_type v of Some m \<Rightarrow> m | None \<Rightarrow> utext_of ''image'');
          short = utext_of ''Generated image ('' @ media_type @ utext_of '')''
      in case json_get_str v ''path'' of
           Some path \<Rightarrow> if path \<noteq> [] then short @ utext_of '' at '' @ path else short
         | None \<Rightarrow> short)"

section \<open>Messages\<close>

datatype chat_role = ChatSystem | ChatUser | ChatAssistant | ChatTool

record image_url =
  image_href :: utext
  image_detail :: "string option"

datatype content_part = TextPart utext | ImageUrlPart image_url

definition normalize_openai_image_detail :: "string option \<Rightarrow> string" where
  "normalize_openai_image_detail detail =
     (case detail of
        None \<Rightarrow> ''auto''
      | Some d \<Rightarrow>
          (let low = ascii_lower (trim d)
           in if trim d \<noteq> [] \<and> low \<in> {''auto'', ''low'', ''high''} then low else ''auto''))"

record 'n tool_call =
  tc_id :: string
  tc_name :: utext
  tc_arguments :: "'n json"
  tc_reasoning :: "utext option"

record 'n chat_message =
  chat_role_of :: chat_role
  chat_content :: utext
  chat_parts :: "content_part list"
  chat_tool_call_id :: "string option"
  chat_name :: "utext option"
  chat_tool_calls :: "'n tool_call list option"

definition chat_plain :: "chat_role \<Rightarrow> utext \<Rightarrow> 'n chat_message" where
  "chat_plain r content = \<lparr>chat_role_of = r, chat_content = content, chat_parts = [],
     chat_tool_call_id = None, chat_name = None, chat_tool_calls = None\<rparr>"

definition chat_system :: "utext \<Rightarrow> 'n chat_message" where
  "chat_system content = chat_plain ChatSystem content"

definition chat_user :: "utext \<Rightarrow> 'n chat_message" where
  "chat_user content = chat_plain ChatUser content"

definition chat_assistant :: "utext \<Rightarrow> 'n chat_message" where
  "chat_assistant content = chat_plain ChatAssistant content"

definition user_with_parts :: "utext \<Rightarrow> content_part list \<Rightarrow> 'n chat_message" where
  "user_with_parts content parts = (chat_plain ChatUser content)\<lparr>chat_parts := parts\<rparr>"

definition assistant_with_tool_calls :: "utext option \<Rightarrow> 'n tool_call list \<Rightarrow> 'n chat_message" where
  "assistant_with_tool_calls content calls =
     (chat_plain ChatAssistant (case content of Some c \<Rightarrow> c | None \<Rightarrow> []))
       \<lparr>chat_tool_calls := (if calls = [] then None else Some calls)\<rparr>"

definition tool_result_message :: "string \<Rightarrow> utext \<Rightarrow> utext \<Rightarrow> 'n chat_message" where
  "tool_result_message call_id nm content =
     (chat_plain ChatTool content)\<lparr>chat_tool_call_id := Some call_id, chat_name := Some nm\<rparr>"

subsection \<open>Identifiers of tool calls\<close>

definition base62_char :: "nat \<Rightarrow> char" where
  "base62_char digit =
     (if digit \<le> 9 then char_of (48 + digit)
      else if digit \<le> 35 then char_of (97 + (digit - 10))
      else char_of (65 + (digit - 36)))"

text \<open>The loop fills the buffer from its last position; \<open>acc\<close> is what is filled.\<close>

fun base62 :: "nat \<Rightarrow> nat \<Rightarrow> string \<Rightarrow> string" where
  "base62 0 val acc = acc"
| "base62 (Suc n) val acc = base62 n (val div 62) (base62_char (val mod 62) # acc)"

definition generate_tool_call_id :: "64 word \<Rightarrow> 64 word \<Rightarrow> string" where
  "generate_tool_call_id seed_a seed_b =
     base62 9 (unat (seed_a * 6364136223846793005 + seed_b)) []"

subsection \<open>Results without a call\<close>

definition known_call_ids :: "'n chat_message list \<Rightarrow> string set" where
  "known_call_ids ms =
     set (concat (map (\<lambda>m. case chat_tool_calls m of
        Some calls \<Rightarrow> if chat_role_of m = ChatAssistant then map tc_id calls else []
      | None \<Rightarrow> []) ms))"

definition is_orphaned :: "string set \<Rightarrow> 'n chat_message \<Rightarrow> bool" where
  "is_orphaned known m = (case chat_tool_call_id m of Some i \<Rightarrow> i \<notin> known | None \<Rightarrow> True)"

definition rewrite_orphan :: "string set \<Rightarrow> 'n chat_message \<Rightarrow> 'n chat_message" where
  "rewrite_orphan known m =
     (if chat_role_of m \<noteq> ChatTool then m
      else if is_orphaned known m
      then m\<lparr>chat_role_of := ChatUser,
             chat_content := utext_of ''[Tool `'' @ (case chat_name m of Some n \<Rightarrow> n | None \<Rightarrow> utext_of ''unknown'')
                               @ utext_of ''` returned: '' @ chat_content m @ utext_of '']'',
             chat_tool_call_id := None, chat_name := None\<rparr>
      else m)"

definition sanitize_tool_messages :: "'n chat_message list \<Rightarrow> 'n chat_message list" where
  "sanitize_tool_messages ms = map (rewrite_orphan (known_call_ids ms)) ms"

section \<open>Lemmas\<close>

lemma base62_length: "length (base62 n val acc) = n + length acc"
  by (induction n arbitrary: val acc) simp_all

definition ascii_alnum :: "char \<Rightarrow> bool" where
  "ascii_alnum c \<longleftrightarrow> (let n = of_char c :: nat in 48 \<le> n \<and> n \<le> 57 \<or> 97 \<le> n \<and> n \<le> 122 \<or> 65 \<le> n \<and> n \<le> 90)"

lemma base62_char_alnum: "digit < 62 \<Longrightarrow> ascii_alnum (base62_char digit)"
  by (auto simp: ascii_alnum_def base62_char_def Let_def)

lemma base62_alnum: "list_all ascii_alnum acc \<Longrightarrow> list_all ascii_alnum (base62 n val acc)"
  by (induction n arbitrary: val acc) (simp_all add: base62_char_alnum)

text \<open>The clean-up of one message.\<close>

lemma rewrite_orphan_role:
  "chat_role_of (rewrite_orphan known m) = ChatTool \<Longrightarrow>
    \<exists>i \<in> known. chat_tool_call_id (rewrite_orphan known m) = Some i"
  by (auto simp: rewrite_orphan_def is_orphaned_def split: if_splits option.splits)

lemma rewrite_orphan_calls [simp]: "chat_tool_calls (rewrite_orphan known m) = chat_tool_calls m"
  by (simp add: rewrite_orphan_def)

lemma rewrite_orphan_assistant:
  "chat_role_of (rewrite_orphan known m) = ChatAssistant \<longleftrightarrow> chat_role_of m = ChatAssistant"
  by (auto simp: rewrite_orphan_def)

lemma known_call_ids_sanitize: "known_call_ids (map (rewrite_orphan known) ms) = known_call_ids ms"
  unfolding known_call_ids_def by (simp add: comp_def rewrite_orphan_assistant cong: option.case_cong)

lemma rewrite_orphan_idem: "rewrite_orphan known (rewrite_orphan known m) = rewrite_orphan known m"
  by (simp add: rewrite_orphan_def is_orphaned_def)

subsection \<open>Properties\<close>

text \<open>
  Every generated tool-call identifier is 9 ASCII letters or digits, the format the
  strictest provider demands, for all seeds including those whose mixing wraps around.
\<close>

theorem tool_call_id_format:
  "length (generate_tool_call_id a b) = 9 \<and> list_all ascii_alnum (generate_tool_call_id a b)"
  by (simp add: generate_tool_call_id_def base62_length base62_alnum)

text \<open>
  After the clean-up every tool result names a call that some assistant message of the
  list made, no message is lost and other messages are untouched, and cleaning up again
  changes nothing.
\<close>

theorem sanitize_leaves_no_orphan:
  "(let ms' = sanitize_tool_messages ms in
    list_all (\<lambda>m. if chat_role_of m = ChatTool
                  then (case chat_tool_call_id m of Some i \<Rightarrow> i \<in> known_call_ids ms' | None \<Rightarrow> False) else True) ms' \<and>
    length ms' = length ms \<and>
    filter (\<lambda>m. chat_role_of m = ChatAssistant) ms' = filter (\<lambda>m. chat_role_of m = ChatAssistant) ms \<and>
    sanitize_tool_messages ms' = ms')"
proof -
  let ?k = "known_call_ids ms"
  have "filter (\<lambda>m. chat_role_of m = ChatAssistant) (map (rewrite_orphan k) ms) =
      filter (\<lambda>m. chat_role_of m = ChatAssistant) ms" for k
    by (induction ms) (auto simp: rewrite_orphan_assistant, simp add: rewrite_orphan_def)
  moreover have "list_all (\<lambda>m. if chat_role_of m = ChatTool
        then (case chat_tool_call_id m of Some i \<Rightarrow> i \<in> ?k | None \<Rightarrow> False) else True) (map (rewrite_orphan ?k) ms)"
    using rewrite_orphan_role by (fastforce simp: list_all_iff split: option.splits)
  ultimately show ?thesis
    unfolding sanitize_tool_messages_def Let_def known_call_ids_sanitize
    by (simp only: length_map map_map comp_def rewrite_orphan_idem simp_thms)
qed

end
