(* ===== verification/Session.thy ===== *)
theory Session
  imports ChatMessages
begin

text \<open>
  The turn-based conversation of the agent, \<open>src/agent/session.rs\<close>: turns, threads and
  sessions. An operation that reads the clock takes one time for all its readings. The lemmas
  show that turns stay numbered, that the queue of pending messages is bounded, and that a
  thread can be rebuilt from the messages it sends to a model.
\<close>

section \<open>Turns\<close>

datatype turn_state = TurnProcessing | TurnCompleted | TurnFailed | TurnInterrupted

datatype turn_outcome =
  OutcomeCompleted utext | OutcomeSilently | OutcomeFailed utext | OutcomeInterrupted

record 'n turn_tool_call =
  ttc_name :: utext
  ttc_parameters :: "'n json"
  ttc_result :: "'n json option"
  ttc_error :: "utext option"
  ttc_rationale :: "utext option"
  ttc_call_id :: "string option"

record 'n turn =
  turn_number_of :: nat
  user_message_id :: "uuid option"
  user_input :: utext
  response :: "utext option"
  turn_tool_calls :: "'n turn_tool_call list"
  turn_state_of :: turn_state
  turn_started_at :: utc
  turn_completed_at :: "utc option"
  turn_error :: "utext option"
  narrative :: "utext option"
  image_content_parts :: "content_part list"

definition turn_new :: "utc \<Rightarrow> nat \<Rightarrow> utext \<Rightarrow> 'n turn" where
  "turn_new now n input = \<lparr>turn_number_of = n, user_message_id = None, user_input = input, response = None,
     turn_tool_calls = [], turn_state_of = TurnProcessing, turn_started_at = now, turn_completed_at = None,
     turn_error = None, narrative = None, image_content_parts = []\<rparr>"

definition turn_conclude :: "utc \<Rightarrow> turn_outcome \<Rightarrow> 'n turn \<Rightarrow> 'n turn" where
  "turn_conclude now outcome t =
     (case outcome of
        OutcomeCompleted r \<Rightarrow> t\<lparr>response := Some r, turn_state_of := TurnCompleted\<rparr>
      | OutcomeSilently \<Rightarrow> t\<lparr>turn_state_of := TurnCompleted\<rparr>
      | OutcomeFailed e \<Rightarrow> t\<lparr>turn_error := Some e, turn_state_of := TurnFailed\<rparr>
      | OutcomeInterrupted \<Rightarrow> t\<lparr>turn_state_of := TurnInterrupted\<rparr>)
     \<lparr>turn_completed_at := Some now, image_content_parts := []\<rparr>"

definition record_tool_call_with_reasoning ::
  "utext \<Rightarrow> 'n json \<Rightarrow> utext option \<Rightarrow> string option \<Rightarrow> 'n turn \<Rightarrow> 'n turn" where
  "record_tool_call_with_reasoning nm params rationale call_id t =
     t\<lparr>turn_tool_calls := turn_tool_calls t @
         [\<lparr>ttc_name = nm, ttc_parameters = params, ttc_result = None, ttc_error = None,
           ttc_rationale = rationale, ttc_call_id = call_id\<rparr>]\<rparr>"

definition record_tool_call :: "utext \<Rightarrow> 'n json \<Rightarrow> 'n turn \<Rightarrow> 'n turn" where
  "record_tool_call nm params t = record_tool_call_with_reasoning nm params None None t"

definition update_last :: "('a \<Rightarrow> 'a) \<Rightarrow> 'a list \<Rightarrow> 'a list" where
  "update_last f xs = (if xs = [] then [] else butlast xs @ [f (last xs)])"

definition record_tool_result :: "'n json \<Rightarrow> 'n turn \<Rightarrow> 'n turn" where
  "record_tool_result v t = t\<lparr>turn_tool_calls := update_last (\<lambda>c. c\<lparr>ttc_result := Some v\<rparr>) (turn_tool_calls t)\<rparr>"

definition record_tool_error :: "utext \<Rightarrow> 'n turn \<Rightarrow> 'n turn" where
  "record_tool_error e t = t\<lparr>turn_tool_calls := update_last (\<lambda>c. c\<lparr>ttc_error := Some e\<rparr>) (turn_tool_calls t)\<rparr>"

text \<open>\<open>iter_mut().find(..)\<close>: the first element that satisfies the test is replaced.\<close>

fun update_first :: "('a \<Rightarrow> bool) \<Rightarrow> ('a \<Rightarrow> 'a) \<Rightarrow> 'a list \<Rightarrow> 'a list option" where
  "update_first P f [] = None"
| "update_first P f (x # xs) =
     (if P x then Some (f x # xs) else map_option (\<lambda>ys. x # ys) (update_first P f xs))"

definition update_call_for ::
  "string \<Rightarrow> ('n turn_tool_call \<Rightarrow> 'n turn_tool_call) \<Rightarrow> 'n turn \<Rightarrow> 'n turn" where
  "update_call_for call_id f t =
     (case update_first (\<lambda>c. ttc_call_id c = Some call_id) f (turn_tool_calls t) of
        Some cs \<Rightarrow> t\<lparr>turn_tool_calls := cs\<rparr>
      | None \<Rightarrow>
          (case update_first (\<lambda>c. ttc_result c = None \<and> ttc_error c = None) f (turn_tool_calls t) of
             Some cs \<Rightarrow> t\<lparr>turn_tool_calls := cs\<rparr>
           | None \<Rightarrow> t))"

definition record_tool_result_for :: "string \<Rightarrow> 'n json \<Rightarrow> 'n turn \<Rightarrow> 'n turn" where
  "record_tool_result_for call_id v = update_call_for call_id (\<lambda>c. c\<lparr>ttc_result := Some v\<rparr>)"

definition record_tool_error_for :: "string \<Rightarrow> utext \<Rightarrow> 'n turn \<Rightarrow> 'n turn" where
  "record_tool_error_for call_id e = update_call_for call_id (\<lambda>c. c\<lparr>ttc_error := Some e\<rparr>)"

section \<open>Threads\<close>

datatype session_thread_state = ThreadIdle | ThreadProcessing | AwaitingApproval | ThreadDone | ThreadInterrupted

record pending_auth =
  auth_extension :: string
  auth_created_at :: utc

definition auth_is_expired :: "utc \<Rightarrow> pending_auth \<Rightarrow> bool" where
  "auth_is_expired now a \<longleftrightarrow> now - auth_created_at a > int (secs 300)"

record pending_auth_prompt =
  prompt_extension :: string
  prompt_instructions :: "utext option"
  prompt_auth_url :: "utext option"
  prompt_setup_url :: "utext option"
  prompt_awaiting_token :: bool

record 'n pending_approval =
  request_id :: uuid
  approval_tool :: utext
  approval_parameters :: "'n json"
  display_parameters :: "'n json"
  approval_description :: utext
  approval_call_id :: string
  context_messages :: "'n chat_message list"
  deferred_tool_calls :: "'n tool_call list"
  selected_auth_prompt :: "pending_auth_prompt option"
  approval_timezone :: "string option"
  allow_always :: bool

record 'n session_thread =
  st_id :: uuid
  st_session_id :: uuid
  st_state :: session_thread_state
  turns :: "'n turn list"
  st_created_at :: utc
  st_updated_at :: utc
  st_metadata :: "'n json"
  st_pending_approval :: "'n pending_approval option"
  st_pending_auth :: "pending_auth option"
  pending_messages :: "utext list"
  source_channel :: "string option"

definition thread_with_id :: "utc \<Rightarrow> uuid \<Rightarrow> uuid \<Rightarrow> string option \<Rightarrow> 'n session_thread" where
  "thread_with_id now i sid channel = \<lparr>st_id = i, st_session_id = sid, st_state = ThreadIdle, turns = [],
     st_created_at = now, st_updated_at = now, st_metadata = JNull, st_pending_approval = None,
     st_pending_auth = None, pending_messages = [], source_channel = channel\<rparr>"

definition is_approval_authorized :: "string option \<Rightarrow> string \<Rightarrow> bool" where
  "is_approval_authorized source requesting =
     (case source of
        None \<Rightarrow> False
      | Some src \<Rightarrow>
          if src = ''__bootstrap__'' then True
          else src = requesting \<or> requesting \<in> {''web'', ''gateway''})"

definition thread_turn_number :: "'n session_thread \<Rightarrow> nat" where
  "thread_turn_number t = length (turns t) + 1"

definition queue_message :: "utc \<Rightarrow> utext \<Rightarrow> 'n session_thread \<Rightarrow> bool \<times> 'n session_thread" where
  "queue_message now content t =
     (if length (pending_messages t) \<ge> 10 then (False, t)
      else (True, t\<lparr>pending_messages := pending_messages t @ [content], st_updated_at := now\<rparr>))"

definition take_pending_message :: "'n session_thread \<Rightarrow> utext option \<times> 'n session_thread" where
  "take_pending_message t =
     (case pending_messages t of [] \<Rightarrow> (None, t) | m # ms \<Rightarrow> (Some m, t\<lparr>pending_messages := ms\<rparr>))"

fun join_lines :: "utext list \<Rightarrow> utext" where
  "join_lines [] = []"
| "join_lines [s] = s"
| "join_lines (s # t # ss) = s @ [10] @ join_lines (t # ss)"

definition drain_pending_messages :: "utc \<Rightarrow> 'n session_thread \<Rightarrow> utext option \<times> 'n session_thread" where
  "drain_pending_messages now t =
     (if pending_messages t = [] then (None, t)
      else (Some (join_lines (pending_messages t)), t\<lparr>pending_messages := [], st_updated_at := now\<rparr>))"

definition requeue_drained :: "utc \<Rightarrow> utext \<Rightarrow> 'n session_thread \<Rightarrow> 'n session_thread" where
  "requeue_drained now content t = t\<lparr>pending_messages := content # pending_messages t, st_updated_at := now\<rparr>"

definition start_turn :: "utc \<Rightarrow> utext \<Rightarrow> 'n session_thread \<Rightarrow> 'n session_thread" where
  "start_turn now input t =
     t\<lparr>turns := turns t @ [turn_new now (length (turns t)) input], st_state := ThreadProcessing, st_updated_at := now\<rparr>"

definition conclude_turn :: "utc \<Rightarrow> turn_outcome \<Rightarrow> 'n session_thread \<Rightarrow> 'n session_thread" where
  "conclude_turn now outcome t =
     t\<lparr>turns := update_last (turn_conclude now outcome) (turns t), st_state := ThreadIdle, st_updated_at := now\<rparr>"

definition await_approval :: "utc \<Rightarrow> 'n pending_approval \<Rightarrow> 'n session_thread \<Rightarrow> 'n session_thread" where
  "await_approval now p t = t\<lparr>st_state := AwaitingApproval, st_pending_approval := Some p, st_updated_at := now\<rparr>"

definition take_pending_approval :: "'n session_thread \<Rightarrow> 'n pending_approval option \<times> 'n session_thread" where
  "take_pending_approval t = (st_pending_approval t, t\<lparr>st_pending_approval := None\<rparr>)"

definition clear_pending_approval :: "utc \<Rightarrow> 'n session_thread \<Rightarrow> 'n session_thread" where
  "clear_pending_approval now t = t\<lparr>st_pending_approval := None, st_state := ThreadIdle, st_updated_at := now\<rparr>"

definition enter_auth_mode :: "utc \<Rightarrow> string \<Rightarrow> 'n session_thread \<Rightarrow> 'n session_thread" where
  "enter_auth_mode now ext t =
     t\<lparr>st_pending_auth := Some \<lparr>auth_extension = ext, auth_created_at = now\<rparr>, st_updated_at := now\<rparr>"

definition take_pending_auth :: "'n session_thread \<Rightarrow> pending_auth option \<times> 'n session_thread" where
  "take_pending_auth t = (st_pending_auth t, t\<lparr>st_pending_auth := None\<rparr>)"

definition interrupt_thread :: "utc \<Rightarrow> 'n session_thread \<Rightarrow> 'n session_thread" where
  "interrupt_thread now t =
     t\<lparr>turns := update_last (turn_conclude now OutcomeInterrupted) (turns t), pending_messages := [],
       st_state := ThreadInterrupted, st_updated_at := now\<rparr>"

definition resume_thread :: "utc \<Rightarrow> 'n session_thread \<Rightarrow> 'n session_thread" where
  "resume_thread now t =
     (if st_state t = ThreadInterrupted then t\<lparr>st_state := ThreadIdle, st_updated_at := now\<rparr> else t)"

definition renumber :: "'n turn list \<Rightarrow> 'n turn list" where
  "renumber ts = map (\<lambda>(i, t). t\<lparr>turn_number_of := i\<rparr>) (enumerate 0 ts)"

definition truncate_turns :: "nat \<Rightarrow> 'n session_thread \<Rightarrow> 'n session_thread" where
  "truncate_turns keep t =
     (if length (turns t) > keep then t\<lparr>turns := renumber (drop (length (turns t) - keep) (turns t))\<rparr> else t)"

subsection \<open>Messages of a thread\<close>

text \<open>
  \<open>parse\<close> and \<open>print\<close> are \<open>serde_json::from_str\<close> and \<open>Value::to_string\<close>. The index of a turn is
  its place in the list, as a 64-bit \<open>usize\<close>.
\<close>

definition tool_result_content :: "(utext \<Rightarrow> 'n json option) \<Rightarrow> ('n json \<Rightarrow> utext) \<Rightarrow> 'n turn_tool_call \<Rightarrow> utext" where
  "tool_result_content parse print tc =
     (case ttc_error tc of
        Some err \<Rightarrow> truncate_preview err 1000
      | None \<Rightarrow>
          (case ttc_result tc of
             Some res \<Rightarrow>
               (case image_from_value parse res of
                  Some sentinel \<Rightarrow> image_summary_for_context sentinel
                | None \<Rightarrow> truncate_preview (case res of JString s \<Rightarrow> s | other \<Rightarrow> print other) 1000)
           | None \<Rightarrow> utext_of ''OK''))"

definition call_declaration :: "nat \<Rightarrow> nat \<times> 'n turn_tool_call \<Rightarrow> 'n tool_call" where
  "call_declaration turn_idx = (\<lambda>(tc_idx, tc).
     \<lparr>tc_id = generate_tool_call_id (of_nat turn_idx) (of_nat tc_idx), tc_name = ttc_name tc,
      tc_arguments = ttc_parameters tc, tc_reasoning = None\<rparr>)"

definition call_result ::
  "(utext \<Rightarrow> 'n json option) \<Rightarrow> ('n json \<Rightarrow> utext) \<Rightarrow> nat \<Rightarrow> nat \<times> 'n turn_tool_call \<Rightarrow> 'n chat_message" where
  "call_result parse print turn_idx = (\<lambda>(tc_idx, tc).
     tool_result_message (generate_tool_call_id (of_nat turn_idx) (of_nat tc_idx)) (ttc_name tc)
       (tool_result_content parse print tc))"

definition turn_messages ::
  "(utext \<Rightarrow> 'n json option) \<Rightarrow> ('n json \<Rightarrow> utext) \<Rightarrow> nat \<Rightarrow> 'n turn \<Rightarrow> 'n chat_message list" where
  "turn_messages parse print turn_idx t =
     (if image_content_parts t = [] then chat_user (user_input t)
      else user_with_parts (user_input t) (image_content_parts t)) #
     (if turn_tool_calls t = [] then []
      else assistant_with_tool_calls None (map (call_declaration turn_idx) (enumerate 0 (turn_tool_calls t))) #
           map (call_result parse print turn_idx) (enumerate 0 (turn_tool_calls t))) @
     (case response t of Some r \<Rightarrow> [chat_assistant r] | None \<Rightarrow> [])"

fun messages_from ::
  "(utext \<Rightarrow> 'n json option) \<Rightarrow> ('n json \<Rightarrow> utext) \<Rightarrow> nat \<Rightarrow> 'n turn list \<Rightarrow> 'n chat_message list" where
  "messages_from parse print k [] = []"
| "messages_from parse print k (t # ts) = turn_messages parse print k t @ messages_from parse print (Suc k) ts"

definition thread_messages ::
  "(utext \<Rightarrow> 'n json option) \<Rightarrow> ('n json \<Rightarrow> utext) \<Rightarrow> 'n session_thread \<Rightarrow> 'n chat_message list" where
  "thread_messages parse print t = messages_from parse print 0 (turns t)"

subsection \<open>Rebuilding a thread\<close>

fun set_results :: "nat \<Rightarrow> nat \<Rightarrow> 'n chat_message list \<Rightarrow> 'n turn_tool_call list \<Rightarrow> 'n turn_tool_call list" where
  "set_results base pos [] cs = cs"
| "set_results base pos (m # ms) cs =
     (let idx = base + pos
      in set_results base (Suc pos) ms
           (if idx < length cs then cs[idx := (cs ! idx)\<lparr>ttc_result := Some (JString (chat_content m))\<rparr>] else cs))"

definition record_declared :: "'n turn \<Rightarrow> 'n tool_call \<Rightarrow> 'n turn" where
  "record_declared t tc = record_tool_call_with_reasoning (tc_name tc) (tc_arguments tc) (tc_reasoning tc) (Some (tc_id tc)) t"

abbreviation is_tool :: "'n chat_message \<Rightarrow> bool" where
  "is_tool m \<equiv> chat_role_of m = ChatTool"

text \<open>The rounds of tool calls after a user message: the turn and the messages left.\<close>

function restore_rounds :: "'n turn \<Rightarrow> 'n chat_message list \<Rightarrow> 'n turn \<times> 'n chat_message list" where
  "restore_rounds t [] = (t, [])"
| "restore_rounds t (m # ms) =
     (if chat_role_of m = ChatAssistant \<and> chat_tool_calls m \<noteq> None
      then let t1 = foldl record_declared t (the (chat_tool_calls m))
        in restore_rounds
             (t1\<lparr>turn_tool_calls := set_results (length (turn_tool_calls t)) 0 (takeWhile is_tool ms) (turn_tool_calls t1)\<rparr>)
             (dropWhile is_tool ms)
      else (t, m # ms))"
  by pat_completeness auto
termination
  by (relation "measure (\<lambda>(_, ms). length ms)") (auto simp: le_imp_less_Suc length_dropWhile_le)

definition restore_turn ::
  "utc \<Rightarrow> nat \<Rightarrow> 'n chat_message \<Rightarrow> 'n chat_message list \<Rightarrow> 'n turn \<times> 'n chat_message list" where
  "restore_turn now n m ms =
     (case restore_rounds (turn_new now n (chat_content m)) ms of (t, rest) \<Rightarrow>
        (case rest of
           [] \<Rightarrow> (t, [])
         | r # rs \<Rightarrow>
             if chat_role_of r = ChatAssistant \<and> chat_tool_calls r = None
             then (turn_conclude now (OutcomeCompleted (chat_content r)) t, rs)
             else (t, rest)))"

lemma restore_rounds_length: "length (snd (restore_rounds t ms)) \<le> length ms"
proof (induction t ms rule: restore_rounds.induct)
  case (2 t m ms)
  show ?case
  proof (cases "chat_role_of m = ChatAssistant \<and> chat_tool_calls m \<noteq> None")
    case True
    with 2 show ?thesis
      by (simp add: Let_def) (meson le_SucI le_trans length_dropWhile_le)
  next
    case False
    then have "restore_rounds t (m # ms) = (t, m # ms)" by auto
    then show ?thesis by simp
  qed
qed simp

lemma restore_turn_length: "length (snd (restore_turn now n m ms)) \<le> length ms"
  using restore_rounds_length [of "turn_new now n (chat_content m)" ms]
  by (auto simp: restore_turn_def split: prod.splits list.splits)

function restore_turns :: "utc \<Rightarrow> nat \<Rightarrow> 'n chat_message list \<Rightarrow> 'n turn list" where
  "restore_turns now n [] = []"
| "restore_turns now n (m # ms) =
     (if chat_role_of m = ChatUser
      then fst (restore_turn now n m ms) # restore_turns now (Suc n) (snd (restore_turn now n m ms))
      else restore_turns now n ms)"
  by pat_completeness auto
termination
  by (relation "measure (\<lambda>(_, _, ms). length ms)") (auto simp: le_imp_less_Suc restore_turn_length)

definition restore_from_messages :: "utc \<Rightarrow> 'n chat_message list \<Rightarrow> 'n session_thread \<Rightarrow> 'n session_thread" where
  "restore_from_messages now ms t =
     t\<lparr>turns := restore_turns now 0 ms, st_state := ThreadIdle, st_updated_at := now\<rparr>"

section \<open>Sessions\<close>

record 'n session =
  session_id :: uuid
  session_user :: string
  active_thread :: "uuid option"
  session_threads :: "uuid \<rightharpoonup> 'n session_thread"
  session_created_at :: utc
  last_active_at :: utc
  session_metadata :: "'n json"
  auto_approved_tools :: "utext set"

definition session_new :: "utc \<Rightarrow> uuid \<Rightarrow> string \<Rightarrow> 'n session" where
  "session_new now i user = \<lparr>session_id = i, session_user = user, active_thread = None,
     session_threads = Map.empty, session_created_at = now, last_active_at = now, session_metadata = JNull,
     auto_approved_tools = {}\<rparr>"

definition is_tool_auto_approved :: "utext \<Rightarrow> 'n session \<Rightarrow> bool" where
  "is_tool_auto_approved tool s \<longleftrightarrow> tool \<in> auto_approved_tools s"

definition auto_approve_tool :: "utext \<Rightarrow> 'n session \<Rightarrow> 'n session" where
  "auto_approve_tool tool s = s\<lparr>auto_approved_tools := insert tool (auto_approved_tools s)\<rparr>"

text \<open>\<open>entry(id).or_insert(thread)\<close> keeps a thread that is there. The result is its key.\<close>

definition insert_thread :: "utc \<Rightarrow> uuid \<Rightarrow> string option \<Rightarrow> 'n session \<Rightarrow> 'n session" where
  "insert_thread now i channel s =
     s\<lparr>active_thread := Some i, last_active_at := now,
       session_threads := (case session_threads s i of
          Some _ \<Rightarrow> session_threads s
        | None \<Rightarrow> (session_threads s)(i \<mapsto> thread_with_id now i (session_id s) channel))\<rparr>"

definition create_thread :: "utc \<Rightarrow> uuid \<Rightarrow> string option \<Rightarrow> 'n session \<Rightarrow> uuid \<times> 'n session" where
  "create_thread now fresh channel s = (fresh, insert_thread now fresh channel s)"

definition create_thread_with_id :: "utc \<Rightarrow> uuid \<Rightarrow> string option \<Rightarrow> 'n session \<Rightarrow> uuid \<times> 'n session" where
  "create_thread_with_id now i channel s =
     (if session_threads s i \<noteq> None then (i, s) else (i, insert_thread now i channel s))"

definition get_active_thread :: "'n session \<Rightarrow> 'n session_thread option" where
  "get_active_thread s = Option.bind (active_thread s) (session_threads s)"

definition get_or_create_thread :: "utc \<Rightarrow> uuid \<Rightarrow> string option \<Rightarrow> 'n session \<Rightarrow> uuid \<times> 'n session" where
  "get_or_create_thread now fresh channel s =
     (case active_thread s of
        None \<Rightarrow> create_thread now fresh channel s
      | Some i \<Rightarrow> if session_threads s i \<noteq> None then (i, s) else create_thread now fresh channel s)"

definition switch_thread :: "utc \<Rightarrow> uuid \<Rightarrow> 'n session \<Rightarrow> bool \<times> 'n session" where
  "switch_thread now i s =
     (if session_threads s i \<noteq> None then (True, s\<lparr>active_thread := Some i, last_active_at := now\<rparr>) else (False, s))"

section \<open>Rebuilding from one's own messages\<close>

lemma set_results_all:
  assumes "pos + length ms = length cs"
  shows "set_results 0 pos ms cs =
    take pos cs @ map2 (\<lambda>c m. c\<lparr>ttc_result := Some (JString (chat_content m))\<rparr>) (drop pos cs) ms"
  using assms
proof (induction ms arbitrary: pos cs)
  case (Cons m ms)
  then have pos: "pos < length cs" by simp
  let ?c = "(cs ! pos)\<lparr>ttc_result := Some (JString (chat_content m))\<rparr>"
  have "set_results 0 (Suc pos) ms (cs[pos := ?c]) =
      take (Suc pos) (cs[pos := ?c]) @
      map2 (\<lambda>c m. c\<lparr>ttc_result := Some (JString (chat_content m))\<rparr>) (drop (Suc pos) (cs[pos := ?c])) ms"
    by (rule Cons.IH) (use Cons.prems in simp)
  moreover have "take (Suc pos) (cs[pos := ?c]) = take pos cs @ [?c]"
    using pos by (simp add: take_Suc_conv_app_nth)
  moreover have "drop pos cs = (cs ! pos) # drop (Suc pos) cs" using pos by (rule Cons_nth_drop_Suc [symmetric])
  ultimately show ?case using pos by (simp add: Let_def)
qed simp

lemma foldl_record_declared:
  "foldl record_declared t tcs = t\<lparr>turn_tool_calls := turn_tool_calls t @
     map (\<lambda>tc. \<lparr>ttc_name = tc_name tc, ttc_parameters = tc_arguments tc, ttc_result = None, ttc_error = None,
               ttc_rationale = tc_reasoning tc, ttc_call_id = Some (tc_id tc)\<rparr>) tcs\<rparr>"
  by (induction tcs arbitrary: t) (simp_all add: record_declared_def record_tool_call_with_reasoning_def)

definition restored_call ::
  "(utext \<Rightarrow> 'n json option) \<Rightarrow> ('n json \<Rightarrow> utext) \<Rightarrow> nat \<Rightarrow> nat \<times> 'n turn_tool_call \<Rightarrow> 'n turn_tool_call" where
  "restored_call parse print k = (\<lambda>(i, tc).
     \<lparr>ttc_name = ttc_name tc, ttc_parameters = ttc_parameters tc,
      ttc_result = Some (JString (tool_result_content parse print tc)), ttc_error = None, ttc_rationale = None,
      ttc_call_id = Some (generate_tool_call_id (of_nat k) (of_nat i))\<rparr>)"

definition restored_turn ::
  "utc \<Rightarrow> (utext \<Rightarrow> 'n json option) \<Rightarrow> ('n json \<Rightarrow> utext) \<Rightarrow> nat \<Rightarrow> nat \<Rightarrow> 'n turn \<Rightarrow> 'n turn" where
  "restored_turn now parse print n k t =
     (let t0 = (turn_new now n (user_input t))
                 \<lparr>turn_tool_calls := map (restored_call parse print k) (enumerate 0 (turn_tool_calls t))\<rparr>
      in case response t of None \<Rightarrow> t0 | Some r \<Rightarrow> turn_conclude now (OutcomeCompleted r) t0)"

text \<open>What may follow the tool calls of a turn: nothing, an answer, or the next user message.\<close>

definition after_rounds :: "'n chat_message list \<Rightarrow> bool" where
  "after_rounds ms = (case ms of [] \<Rightarrow> True
     | m # _ \<Rightarrow> chat_role_of m = ChatUser \<or> chat_role_of m = ChatAssistant \<and> chat_tool_calls m = None)"

lemma restore_rounds_stop: "after_rounds ms \<Longrightarrow> restore_rounds t ms = (t, ms)"
  by (cases ms) (auto simp: after_rounds_def)

lemma is_tool_results [simp]:
  "takeWhile is_tool (map (call_result parse print k) xs @ ms) = map (call_result parse print k) xs @ takeWhile is_tool ms"
  "dropWhile is_tool (map (call_result parse print k) xs @ ms) = dropWhile is_tool ms"
  by (induction xs) (auto simp: call_result_def tool_result_message_def chat_plain_def)

lemma after_rounds_no_tool:
  "after_rounds ms \<Longrightarrow> takeWhile is_tool ms = []" "after_rounds ms \<Longrightarrow> dropWhile is_tool ms = ms"
  by (cases ms; auto simp: after_rounds_def)+

lemma restore_rounds_turn:
  assumes "after_rounds rest"
  shows "restore_rounds (turn_new now n inp)
      ((if cs = [] then []
        else assistant_with_tool_calls None (map (call_declaration k) (enumerate 0 cs)) #
             map (call_result parse print k) (enumerate 0 cs)) @ rest) =
    ((turn_new now n inp)\<lparr>turn_tool_calls := map (restored_call parse print k) (enumerate 0 cs)\<rparr>, rest)"
proof (cases "cs = []")
  case True
  with assms show ?thesis by (simp add: restore_rounds_stop) (simp add: turn_new_def)
next
  case False
  have nonempty: "map (call_declaration k) (enumerate 0 cs) \<noteq> []" using False by (simp add: enumerate_eq_zip)
  let ?t = "turn_new now n inp"
  let ?declared = "map (\<lambda>tc. \<lparr>ttc_name = tc_name tc, ttc_parameters = tc_arguments tc, ttc_result = None, ttc_error = None,
       ttc_rationale = tc_reasoning tc, ttc_call_id = Some (tc_id tc)\<rparr>) (map (call_declaration k) (enumerate 0 cs))"
  have "set_results 0 0 (map (call_result parse print k) (enumerate 0 cs)) ?declared =
      map (restored_call parse print k) (enumerate 0 cs)"
    by (simp add: set_results_all map2_map_map)
       (simp add: call_declaration_def call_result_def restored_call_def tool_result_message_def chat_plain_def
          case_prod_beta)
  then show ?thesis
    using False nonempty after_rounds_no_tool [OF assms] restore_rounds_stop [OF assms]
    by (simp add: assistant_with_tool_calls_def foldl_record_declared Let_def chat_plain_def)
       (simp add: turn_new_def)
qed

lemma after_rounds_messages_from: "after_rounds (messages_from parse print k ts)"
  by (cases ts)
    (auto simp: after_rounds_def turn_messages_def chat_user_def user_with_parts_def chat_plain_def)

lemma after_rounds_response:
  "after_rounds ((case r of Some x \<Rightarrow> [chat_assistant x] | None \<Rightarrow> []) @ messages_from parse print k ts)"
  using after_rounds_messages_from [of parse print k ts]
  by (cases r) (simp_all add: after_rounds_def chat_assistant_def chat_plain_def)

lemma messages_from_head:
  "messages_from parse print k ts = m # ms \<Longrightarrow> chat_role_of m = ChatUser"
  by (cases ts) (auto simp: turn_messages_def chat_user_def user_with_parts_def chat_plain_def split: if_splits)

lemma restore_turn_own:
  assumes "turn_messages parse print k t = m # ms"
  shows "restore_turn now n m (ms @ messages_from parse print k' ts) =
    (restored_turn now parse print n k t, messages_from parse print k' ts)" and "chat_role_of m = ChatUser"
proof -
  let ?rest = "messages_from parse print k' ts"
  let ?resp = "(case response t of Some x \<Rightarrow> [chat_assistant x] | None \<Rightarrow> []) :: 'a chat_message list"
  have ms: "ms @ ?rest = (if turn_tool_calls t = [] then []
        else assistant_with_tool_calls None (map (call_declaration k) (enumerate 0 (turn_tool_calls t))) #
             map (call_result parse print k) (enumerate 0 (turn_tool_calls t))) @ ?resp @ ?rest"
    and m: "chat_content m = user_input t" and role: "chat_role_of m = ChatUser"
    using assms by (auto simp: turn_messages_def chat_user_def user_with_parts_def chat_plain_def split: if_splits)
  show "chat_role_of m = ChatUser" by (rule role)
  show "restore_turn now n m (ms @ ?rest) = (restored_turn now parse print n k t, ?rest)"
    unfolding restore_turn_def ms restore_rounds_turn [OF after_rounds_response]
    by (cases "response t"; cases ?rest)
       (auto simp: restored_turn_def m Let_def chat_assistant_def chat_plain_def dest: messages_from_head)
qed

fun restored_from ::
  "utc \<Rightarrow> (utext \<Rightarrow> 'n json option) \<Rightarrow> ('n json \<Rightarrow> utext) \<Rightarrow> nat \<Rightarrow> 'n turn list \<Rightarrow> 'n turn list" where
  "restored_from now parse print k [] = []"
| "restored_from now parse print k (t # ts) = restored_turn now parse print k k t # restored_from now parse print (Suc k) ts"

lemma restore_turns_own:
  "restore_turns now k (messages_from parse print k ts) = restored_from now parse print k ts"
proof (induction ts arbitrary: k)
  case (Cons t ts)
  obtain m ms where mm: "turn_messages parse print k t = m # ms" by (auto simp: turn_messages_def)
  from restore_turn_own [OF mm] Cons.IH [of "Suc k"] show ?case by (simp add: mm)
qed simp

text \<open>
  A tool call whose content reads the same after a round: it is short enough not to be cut
  again and does not itself read as the sentinel of an image.
\<close>

definition stable_call :: "(utext \<Rightarrow> 'n json option) \<Rightarrow> ('n json \<Rightarrow> utext) \<Rightarrow> 'n turn_tool_call \<Rightarrow> bool" where
  "stable_call parse print tc \<longleftrightarrow>
     byte_len (tool_result_content parse print tc) \<le> 1000 \<and>
     image_from_value parse (JString (tool_result_content parse print tc)) = None"

lemma restored_call_fields [simp]:
  "ttc_name (restored_call parse print k x) = ttc_name (snd x)"
  "ttc_parameters (restored_call parse print k x) = ttc_parameters (snd x)"
  "ttc_result (restored_call parse print k x) = Some (JString (tool_result_content parse print (snd x)))"
  "ttc_error (restored_call parse print k x) = None"
  by (simp_all add: restored_call_def case_prod_beta)

lemma restored_call_content:
  "stable_call parse print (snd x) \<Longrightarrow>
    tool_result_content parse print (restored_call parse print k x) = tool_result_content parse print (snd x)"
  by (simp add: stable_call_def tool_result_content_def [of parse print "restored_call parse print k x"]
      truncate_preview_short)

lemma restored_turn_fields [simp]:
  "user_input (restored_turn now parse print n k t) = user_input t"
  "response (restored_turn now parse print n k t) = response t"
  "turn_number_of (restored_turn now parse print n k t) = n"
  "image_content_parts (restored_turn now parse print n k t) = []"
  "turn_tool_calls (restored_turn now parse print n k t) =
    map (restored_call parse print k) (enumerate 0 (turn_tool_calls t))"
  by (auto simp: restored_turn_def turn_new_def turn_conclude_def Let_def split: option.splits)

lemma enumerate_map: "enumerate n (map f (enumerate n xs)) = map (\<lambda>(i, x). (i, f (i, x))) (enumerate n xs)"
  by (induction xs arbitrary: n) auto

lemma enumerate_Nil_iff [simp]: "enumerate n xs = [] \<longleftrightarrow> xs = []"
  by (cases xs) simp_all

lemma turn_messages_restored:
  assumes "image_content_parts t = []" and "list_all (stable_call parse print) (turn_tool_calls t)"
  shows "turn_messages parse print k (restored_turn now parse print n k t) = turn_messages parse print k t"
proof -
  have decl: "map (call_declaration k) (enumerate 0 (map (restored_call parse print k) (enumerate 0 cs))) =
      map (call_declaration k) (enumerate 0 cs)" for cs :: "'a turn_tool_call list"
    by (simp add: enumerate_map call_declaration_def case_prod_beta comp_def)
  have "\<forall>x \<in> set (enumerate 0 (turn_tool_calls t)). stable_call parse print (snd x)"
    using assms(2) by (auto simp: list_all_iff in_set_enumerate_eq)
  then have res: "map (call_result parse print k) (enumerate 0 (map (restored_call parse print k) (enumerate 0 (turn_tool_calls t)))) =
      map (call_result parse print k) (enumerate 0 (turn_tool_calls t))"
    by (simp add: enumerate_map call_result_def case_prod_beta restored_call_content)
  show ?thesis
    using assms(1) by (simp add: turn_messages_def decl res)
qed

lemma messages_restored_from:
  assumes "list_all (\<lambda>t. image_content_parts t = [] \<and> list_all (stable_call parse print) (turn_tool_calls t)) ts"
  shows "messages_from parse print k (restored_from now parse print k ts) = messages_from parse print k ts"
  using assms by (induction ts arbitrary: k) (simp_all add: turn_messages_restored)

lemma restored_from_fields:
  "map user_input (restored_from now parse print k ts) = map user_input ts"
  "map response (restored_from now parse print k ts) = map response ts"
  "map turn_number_of (restored_from now parse print k ts) = [k..<k + length ts]"
  by (induction ts arbitrary: k) (simp_all add: upt_conv_Cons del: upt_Suc)

section \<open>Any sequence of operations\<close>

text \<open>
  The operations on a thread. A failed drain is the protocol of the drain loop: the queue is
  drained, messages arrive while the merged text is processed, and the text is put back.
\<close>

datatype 'n thread_event =
  EvQueue utc utext
| EvTake
| EvDrain utc
| EvFailedDrain utc "utext list"
| EvStart utc utext
| EvConclude utc turn_outcome
| EvAwait utc "'n pending_approval"
| EvTakeApproval
| EvClearApproval utc
| EvAuth utc string
| EvTakeAuth
| EvInterrupt utc
| EvResume utc
| EvTruncate nat
| EvRestore utc "'n chat_message list"
| EvTurn "'n turn \<Rightarrow> 'n turn"

fun thread_event_step :: "'n session_thread \<Rightarrow> 'n thread_event \<Rightarrow> 'n session_thread" where
  "thread_event_step t (EvQueue now c) = snd (queue_message now c t)"
| "thread_event_step t EvTake = snd (take_pending_message t)"
| "thread_event_step t (EvDrain now) = snd (drain_pending_messages now t)"
| "thread_event_step t (EvFailedDrain now cs) =
     (case drain_pending_messages now t of
        (None, t1) \<Rightarrow> t1
      | (Some merged, t1) \<Rightarrow> requeue_drained now merged (foldl (\<lambda>t c. snd (queue_message now c t)) t1 cs))"
| "thread_event_step t (EvStart now i) = start_turn now i t"
| "thread_event_step t (EvConclude now out) = conclude_turn now out t"
| "thread_event_step t (EvAwait now p) = await_approval now p t"
| "thread_event_step t EvTakeApproval = snd (take_pending_approval t)"
| "thread_event_step t (EvClearApproval now) = clear_pending_approval now t"
| "thread_event_step t (EvAuth now x) = enter_auth_mode now x t"
| "thread_event_step t EvTakeAuth = snd (take_pending_auth t)"
| "thread_event_step t (EvInterrupt now) = interrupt_thread now t"
| "thread_event_step t (EvResume now) = resume_thread now t"
| "thread_event_step t (EvTruncate n) = truncate_turns n t"
| "thread_event_step t (EvRestore now ms) = restore_from_messages now ms t"
| "thread_event_step t (EvTurn f) =
     t\<lparr>turns := update_last (\<lambda>u. (f u)\<lparr>turn_number_of := turn_number_of u\<rparr>) (turns t)\<rparr>"

definition turns_numbered :: "'n session_thread \<Rightarrow> bool" where
  "turns_numbered t \<longleftrightarrow> map turn_number_of (turns t) = [0..<length (turns t)]"

definition thread_ok :: "'n session_thread \<Rightarrow> bool" where
  "thread_ok t \<longleftrightarrow> turns_numbered t \<and> length (pending_messages t) \<le> 11"

lemma update_last_length [simp]: "length (update_last f xs) = length xs"
  by (simp add: update_last_def)

lemma update_last_map: "(\<And>x. g (f x) = g x) \<Longrightarrow> map g (update_last f xs) = map g xs"
  by (cases xs rule: rev_cases) (simp_all add: update_last_def)

lemma turn_number_conclude [simp]: "turn_number_of (turn_conclude now out t) = turn_number_of t"
  by (simp add: turn_conclude_def split: turn_outcome.splits)

lemma renumber_numbers: "map turn_number_of (renumber ts) = [0..<length ts]" "length (renumber ts) = length ts"
  by (simp_all add: renumber_def enumerate_eq_zip comp_def case_prod_beta)

lemma restore_turns_numbers:
  "map turn_number_of (restore_turns now n ms) = [n..<n + length (restore_turns now n ms)]"
proof (induction now n ms rule: restore_turns.induct)
  case (2 now n m ms)
  have record_number: "turn_number_of (foldl record_declared t cs) = turn_number_of t" for t :: "'a turn" and cs
    by (simp add: foldl_record_declared)
  have rounds: "turn_number_of (fst (restore_rounds t ms)) = turn_number_of t" for t :: "'a turn" and ms
    by (induction t ms rule: restore_rounds.induct) (auto simp: Let_def record_number)
  have "turn_number_of (fst (restore_turn now n m ms)) = n"
    using rounds [of "turn_new now n (chat_content m)" ms]
    by (auto simp: restore_turn_def turn_new_def split: prod.splits list.splits)
  with 2 show ?case by (simp add: upt_conv_Cons del: upt_Suc)
qed simp

lemma queue_loop:
  "length (pending_messages (foldl (\<lambda>t c. snd (queue_message now c t)) t cs)) \<le> max 10 (length (pending_messages t))"
  "turns (foldl (\<lambda>t c. snd (queue_message now c t)) t cs) = turns t"
proof (induction cs arbitrary: t)
  case (Cons c cs)
  {
    case 1
    have "length (pending_messages (snd (queue_message now c t))) \<le> max 10 (length (pending_messages t))"
      by (simp add: queue_message_def)
    with Cons.IH(1) [of "snd (queue_message now c t)"] show ?case by simp
  next
    case 2
    with Cons.IH(2) [of "snd (queue_message now c t)"] show ?case by (simp add: queue_message_def)
  }
qed simp_all

lemma thread_ok_step: "thread_ok t \<Longrightarrow> thread_ok (thread_event_step t e)"
proof (cases e)
  case (EvFailedDrain now cs)
  assume ok: "thread_ok t"
  show ?thesis
  proof (cases "pending_messages t = []")
    case True
    with ok show ?thesis by (simp add: EvFailedDrain drain_pending_messages_def)
  next
    case False
    with ok show ?thesis
      using queue_loop(1) [of now "t\<lparr>pending_messages := [], st_updated_at := now\<rparr>" cs]
      by (simp add: EvFailedDrain drain_pending_messages_def requeue_drained_def thread_ok_def turns_numbered_def queue_loop(2))
  qed
qed (auto simp: thread_ok_def turns_numbered_def queue_message_def take_pending_message_def drain_pending_messages_def
    start_turn_def turn_new_def conclude_turn_def await_approval_def take_pending_approval_def clear_pending_approval_def
    enter_auth_mode_def take_pending_auth_def interrupt_thread_def resume_thread_def truncate_turns_def
    restore_from_messages_def update_last_map renumber_numbers restore_turns_numbers split: list.splits)

interpretation session_machine: machine thread_event_step thread_ok
  by unfold_locales (rule thread_ok_step)

subsection \<open>Properties\<close>

text \<open>
  C40. Whatever operations a thread sees, its turns are numbered from 0 without a gap, and its
  queue holds at most the ten messages of the limit plus one merged text put back by a
  failed drain.
\<close>

theorem thread_wellformed:
  "let t = foldl thread_event_step (thread_with_id now i sid channel) es
   in map turn_number_of (turns t) = [0..<length (turns t)] \<and> length (pending_messages t) \<le> 11"
  using session_machine.run_inv [of "thread_with_id now i sid channel" es]
  by (simp add: Let_def thread_ok_def turns_numbered_def thread_with_id_def)

text \<open>
  C32. A thread rebuilt from the messages it sends to a model (as undo and redo do) sends the
  same messages again, identifiers of tool calls included, and has the same inputs and
  responses, provided no turn carries images and the content of every tool call is stable.
\<close>

theorem rebuild_roundtrip:
  assumes "list_all (\<lambda>t. image_content_parts t = [] \<and> list_all (stable_call parse print) (turn_tool_calls t)) (turns th)"
  shows "let th' = restore_from_messages now (thread_messages parse print th) th0
    in thread_messages parse print th' = thread_messages parse print th \<and>
       map user_input (turns th') = map user_input (turns th) \<and> map response (turns th') = map response (turns th) \<and>
       map turn_number_of (turns th') = [0..<length (turns th)]"
  using messages_restored_from [OF assms, of 0 now]
  by (simp add: Let_def restore_from_messages_def thread_messages_def restore_turns_own restored_from_fields)

theorem rebuild_roundtrip_witness:
  "let th = \<lparr>st_id = 1, st_session_id = 2, st_state = ThreadIdle,
        turns = [(turn_new 0 0 [104, 105])\<lparr>response := Some [111, 107], turn_tool_calls :=
          [\<lparr>ttc_name = [101], ttc_parameters = JNull, ttc_result = Some (JString [120]), ttc_error = None,
            ttc_rationale = None, ttc_call_id = None\<rparr>]\<rparr>],
        st_created_at = 0, st_updated_at = 0, st_metadata = JNull, st_pending_approval = None, st_pending_auth = None,
        pending_messages = [], source_channel = None\<rparr> :: unit session_thread
   in thread_messages (\<lambda>_. None) (\<lambda>_. []) (restore_from_messages 0 (thread_messages (\<lambda>_. None) (\<lambda>_. []) th) th) =
      thread_messages (\<lambda>_. None) (\<lambda>_. []) th"
proof -
  let ?th = "\<lparr>st_id = 1, st_session_id = 2, st_state = ThreadIdle,
        turns = [(turn_new 0 0 [104, 105])\<lparr>response := Some [111, 107], turn_tool_calls :=
          [\<lparr>ttc_name = [101], ttc_parameters = JNull, ttc_result = Some (JString [120]), ttc_error = None,
            ttc_rationale = None, ttc_call_id = None\<rparr>]\<rparr>],
        st_created_at = 0, st_updated_at = 0, st_metadata = JNull, st_pending_approval = None, st_pending_auth = None,
        pending_messages = [], source_channel = None\<rparr> :: unit session_thread"
  have "list_all (\<lambda>t. image_content_parts t = [] \<and> list_all (stable_call (\<lambda>_. None) (\<lambda>_. [])) (turn_tool_calls t)) (turns ?th)"
    by (simp add: turn_new_def stable_call_def tool_result_content_def image_from_value_def normalize_embedded_json_def
        truncate_preview_def byte_len_def utf8_len_def)
  from rebuild_roundtrip [OF this, of 0 ?th] show ?thesis by (simp only: Let_def)
qed

end
