(* ===== verification/Undo.thy ===== *)
theory Undo
  imports Session
begin

text \<open>
  Checkpoints of a conversation (\<open>src/agent/undo.rs\<close>) and the undo and redo commands of the
  agent (\<open>src/agent/thread_ops.rs\<close>). The lemmas show that undoing and redoing walk the same
  history, that the two stacks never outgrow the limit together, and that at the level of a
  thread an undo followed by a redo gives the model the same messages again.
\<close>

section \<open>The manager\<close>

record 'm checkpoint =
  cp_id :: uuid
  cp_turn :: nat
  cp_messages :: "'m list"
  cp_description :: utext

text \<open>The oldest checkpoint is the head of the undo stack; the next redo is the last of its.\<close>

record 'm undo_manager =
  undo_stack :: "'m checkpoint list"
  redo_stack :: "'m checkpoint list"
  max_checkpoints :: nat

definition undo_new :: "'m undo_manager" where
  "undo_new = \<lparr>undo_stack = [], redo_stack = [], max_checkpoints = 20\<rparr>"

definition checkpoint_new :: "uuid \<Rightarrow> nat \<Rightarrow> 'm list \<Rightarrow> utext \<Rightarrow> 'm checkpoint" where
  "checkpoint_new fresh turn ms descr = \<lparr>cp_id = fresh, cp_turn = turn, cp_messages = ms, cp_description = descr\<rparr>"

fun trim_front :: "nat \<Rightarrow> 'a list \<Rightarrow> 'a list" where
  "trim_front n [] = []"
| "trim_front n (x # xs) = (if length (x # xs) > n then trim_front n xs else x # xs)"

definition push_undo :: "'m checkpoint \<Rightarrow> 'm undo_manager \<Rightarrow> 'm undo_manager" where
  "push_undo c m = m\<lparr>undo_stack := trim_front (max_checkpoints m) (undo_stack m @ [c])\<rparr>"

definition checkpoint :: "uuid \<Rightarrow> nat \<Rightarrow> 'm list \<Rightarrow> utext \<Rightarrow> 'm undo_manager \<Rightarrow> 'm undo_manager" where
  "checkpoint fresh turn ms descr m =
     push_undo (checkpoint_new fresh turn ms descr) (m\<lparr>redo_stack := []\<rparr>)"

definition turn_label :: "nat \<Rightarrow> utext" where
  "turn_label n = utext_of (''Turn '' @ string_of_nat n)"

definition undo :: "uuid \<Rightarrow> nat \<Rightarrow> 'm list \<Rightarrow> 'm undo_manager \<Rightarrow> 'm checkpoint option \<times> 'm undo_manager" where
  "undo fresh turn ms m =
     (if undo_stack m = [] then (None, m)
      else let current = checkpoint_new fresh turn ms (turn_label turn)
        in (Some (last (undo_stack m)),
            m\<lparr>redo_stack := redo_stack m @ [current], undo_stack := butlast (undo_stack m)\<rparr>))"

definition redo :: "uuid \<Rightarrow> nat \<Rightarrow> 'm list \<Rightarrow> 'm undo_manager \<Rightarrow> 'm checkpoint option \<times> 'm undo_manager" where
  "redo fresh turn ms m =
     (if redo_stack m = [] then (None, m)
      else let m1 = push_undo (checkpoint_new fresh turn ms (turn_label turn)) m
        in (Some (last (redo_stack m1)), m1\<lparr>redo_stack := butlast (redo_stack m1)\<rparr>))"

definition can_undo :: "'m undo_manager \<Rightarrow> bool" where
  "can_undo m \<longleftrightarrow> undo_stack m \<noteq> []"

definition can_redo :: "'m undo_manager \<Rightarrow> bool" where
  "can_redo m \<longleftrightarrow> redo_stack m \<noteq> []"

definition undo_count :: "'m undo_manager \<Rightarrow> nat" where
  "undo_count m = length (undo_stack m)"

definition redo_count :: "'m undo_manager \<Rightarrow> nat" where
  "redo_count m = length (redo_stack m)"

definition clear_undo :: "'m undo_manager \<Rightarrow> 'm undo_manager" where
  "clear_undo m = m\<lparr>undo_stack := [], redo_stack := []\<rparr>"

text \<open>\<open>position\<close>: the index of the first element that satisfies the test.\<close>

fun position :: "('a \<Rightarrow> bool) \<Rightarrow> 'a list \<Rightarrow> nat option" where
  "position P [] = None"
| "position P (x # xs) = (if P x then Some 0 else map_option Suc (position P xs))"

definition restore_checkpoint :: "uuid \<Rightarrow> 'm undo_manager \<Rightarrow> 'm checkpoint option \<times> 'm undo_manager" where
  "restore_checkpoint i m =
     (case position (\<lambda>c. cp_id c = i) (undo_stack m) of
        None \<Rightarrow> (None, m)
      | Some pos \<Rightarrow>
          (let kept = take (pos + 1) (undo_stack m)
           in (Some (last kept), m\<lparr>redo_stack := [], undo_stack := butlast kept\<rparr>)))"

section \<open>Counts\<close>

lemma trim_front_drop: "trim_front n xs = drop (length xs - n) xs"
proof (induction xs)
  case (Cons x xs)
  then show ?case by (auto simp: Suc_diff_le not_less_eq_eq)
qed simp

lemma trim_front_fits: "length xs \<le> n \<Longrightarrow> trim_front n xs = xs"
  by (simp add: trim_front_drop)

datatype 'm undo_event =
  UCheckpoint uuid nat "'m list" utext
| UUndo uuid nat "'m list"
| URedo uuid nat "'m list"
| UClear
| URestore uuid

fun undo_step :: "'m undo_manager \<Rightarrow> 'm undo_event \<Rightarrow> 'm undo_manager" where
  "undo_step m (UCheckpoint i t ms d) = checkpoint i t ms d m"
| "undo_step m (UUndo i t ms) = snd (undo i t ms m)"
| "undo_step m (URedo i t ms) = snd (redo i t ms m)"
| "undo_step m UClear = clear_undo m"
| "undo_step m (URestore i) = snd (restore_checkpoint i m)"

definition undo_ok :: "'m undo_manager \<Rightarrow> bool" where
  "undo_ok m \<longleftrightarrow> undo_count m + redo_count m \<le> max_checkpoints m"

lemma redo_eq:
  assumes "undo_ok m" and "redo_stack m \<noteq> []"
  shows "redo i t ms m = (Some (last (redo_stack m)),
    m\<lparr>undo_stack := undo_stack m @ [checkpoint_new i t ms (turn_label t)], redo_stack := butlast (redo_stack m)\<rparr>)"
proof -
  have "0 < length (redo_stack m)" using assms(2) by simp
  with assms(1) have "length (undo_stack m) + 1 \<le> max_checkpoints m"
    by (simp only: undo_ok_def undo_count_def redo_count_def)
  with assms(2) show ?thesis
    by (simp add: redo_def push_undo_def trim_front_fits Let_def)
qed

lemma undo_ok_step: "undo_ok m \<Longrightarrow> undo_ok (undo_step m e)"
proof (cases e)
  case (URedo i t ms)
  assume ok: "undo_ok m"
  show ?thesis
  proof (cases "redo_stack m = []")
    case True
    with ok show ?thesis by (simp add: URedo redo_def)
  next
    case False
    then show ?thesis
      using ok by (cases "redo_stack m" rule: rev_cases)
        (simp_all add: URedo redo_eq [OF ok False], simp add: undo_ok_def undo_count_def redo_count_def)
  qed
next
  case (UUndo i t ms)
  assume "undo_ok m"
  then show ?thesis
    by (cases "undo_stack m" rule: rev_cases)
      (simp_all add: UUndo undo_def undo_ok_def undo_count_def redo_count_def Let_def)
next
  case (URestore i)
  assume "undo_ok m"
  then show ?thesis
    by (auto simp: URestore restore_checkpoint_def undo_ok_def undo_count_def redo_count_def Let_def split: option.splits)
qed (auto simp: undo_ok_def undo_count_def redo_count_def checkpoint_def push_undo_def trim_front_drop undo_def
    clear_undo_def Let_def)

interpretation undo_machine: machine undo_step undo_ok
  by unfold_locales (rule undo_ok_step)

section \<open>Walking through history\<close>

text \<open>What a checkpoint holds, without its identifier and description.\<close>

definition content :: "'m checkpoint \<Rightarrow> nat \<times> 'm list" where
  "content c = (cp_turn c, cp_messages c)"

text \<open>
  A walk: the current state and the manager. A step goes to the checkpoint it gets and stays
  where it is when there is none.
\<close>

definition walk_undo :: "uuid \<Rightarrow> (nat \<times> 'm list) \<times> 'm undo_manager \<Rightarrow> (nat \<times> 'm list) \<times> 'm undo_manager" where
  "walk_undo i = (\<lambda>(cur, m). case undo i (fst cur) (snd cur) m of
     (Some c, m') \<Rightarrow> (content c, m') | (None, m') \<Rightarrow> (cur, m'))"

definition walk_redo :: "uuid \<Rightarrow> (nat \<times> 'm list) \<times> 'm undo_manager \<Rightarrow> (nat \<times> 'm list) \<times> 'm undo_manager" where
  "walk_redo i = (\<lambda>(cur, m). case redo i (fst cur) (snd cur) m of
     (Some c, m') \<Rightarrow> (content c, m') | (None, m') \<Rightarrow> (cur, m'))"

text \<open>The walk without identifiers: past, present and future.\<close>

definition view :: "(nat \<times> 'm list) \<times> 'm undo_manager \<Rightarrow> (nat \<times> 'm list) list \<times> (nat \<times> 'm list) \<times> (nat \<times> 'm list) list" where
  "view s = (map content (undo_stack (snd s)), fst s, map content (redo_stack (snd s)))"

lemma content_new [simp]: "content (checkpoint_new i t ms d) = (t, ms)"
  by (simp add: content_def checkpoint_new_def)

lemma view_undo:
  assumes "view s = (us @ [u], c, rs)"
  shows "view (walk_undo i s) = (us, u, rs @ [c])"
proof -
  obtain cur m where s: "s = (cur, m)" by (cases s)
  have "map content (undo_stack m) = us @ [u]" using assms by (simp add: view_def s)
  then obtain us' u' where "undo_stack m = us' @ [u']" "map content us' = us" "content u' = u"
    by (auto simp: map_eq_append_conv)
  with assms show ?thesis by (auto simp: s view_def walk_undo_def undo_def Let_def)
qed

lemma view_redo:
  assumes "view s = (us, c, rs @ [r])" and "undo_ok (snd s)"
  shows "view (walk_redo i s) = (us @ [c], r, rs)"
proof -
  obtain cur m where s: "s = (cur, m)" by (cases s)
  have "map content (redo_stack m) = rs @ [r]" using assms(1) by (simp add: view_def s)
  then obtain rs' r' where rs': "redo_stack m = rs' @ [r']" "map content rs' = rs" "content r' = r"
    by (auto simp: map_eq_append_conv)
  with assms redo_eq [of m] show ?thesis by (auto simp: s view_def walk_redo_def)
qed

lemma walk_ok: "undo_ok (snd s) \<Longrightarrow> undo_ok (snd (walk_undo i s))" "undo_ok (snd s) \<Longrightarrow> undo_ok (snd (walk_redo i s))"
  using undo_ok_step [of "snd s" "UUndo i (fst (fst s)) (snd (fst s))"]
    undo_ok_step [of "snd s" "URedo i (fst (fst s)) (snd (fst s))"]
  by (auto simp: walk_undo_def walk_redo_def split: prod.splits option.splits)

lemma walk_undo_n:
  assumes "undo_ok (snd s)" and "view s = (us @ ws, c, rs)"
  shows "undo_ok (snd ((walk_undo i ^^ length ws) s)) \<and>
    view ((walk_undo i ^^ length ws) s) = (us, hd (ws @ [c]), rs @ rev (tl (ws @ [c])))"
  using assms
proof (induction ws arbitrary: s c rs rule: rev_induct)
  case Nil
  then show ?case by simp
next
  case (snoc w ws)
  have "view (walk_undo i s) = (us @ ws, w, rs @ [c])"
    by (rule view_undo) (use snoc.prems in simp)
  from snoc.IH [OF walk_ok(1) [OF snoc.prems(1)] this] show ?case
    by (cases ws) (simp_all add: funpow_swap1)
qed

lemma walk_redo_n:
  assumes "undo_ok (snd s)" and "view s = (us, hd (ws @ [c]), rs @ rev (tl (ws @ [c])))"
  shows "view ((walk_redo i ^^ length ws) s) = (us @ ws, c, rs)"
  using assms
proof (induction ws arbitrary: s us)
  case Nil
  then show ?case by simp
next
  case (Cons w ws)
  have "view s = (us, w, (rs @ rev (tl (ws @ [c]))) @ [hd (ws @ [c])])"
    using Cons.prems(2) by (cases ws) auto
  from view_redo [OF this Cons.prems(1)]
  have "view (walk_redo i s) = (us @ [w], hd (ws @ [c]), rs @ rev (tl (ws @ [c])))" by simp
  from Cons.IH [OF walk_ok(2) [OF Cons.prems(1)] this] show ?case by (simp add: funpow_swap1)
qed

section \<open>The commands\<close>

datatype submission = SubOk utext | SubError utext

text \<open>
  \<open>process_undo\<close> and \<open>process_redo\<close>: the undo manager of the thread is locked first, then the
  session, in which the thread may be missing.
\<close>

definition process_undo ::
  "(utext \<Rightarrow> 'n json option) \<Rightarrow> ('n json \<Rightarrow> utext) \<Rightarrow> utc \<Rightarrow> uuid \<Rightarrow> uuid
    \<Rightarrow> 'n session \<times> 'n chat_message undo_manager
    \<Rightarrow> (uuid, submission) result \<times> 'n session \<times> 'n chat_message undo_manager" where
  "process_undo parse print now fresh tid = (\<lambda>(s, m).
     if \<not> can_undo m then (Inr (SubOk (utext_of ''Nothing to undo.'')), s, m)
     else case session_threads s tid of
         None \<Rightarrow> (Inl tid, s, m)
       | Some th \<Rightarrow>
           (case undo fresh (thread_turn_number th) (thread_messages parse print th) m of
              (Some c, m1) \<Rightarrow>
                (Inr (SubOk (utext_of (''Undone to turn '' @ string_of_nat (cp_turn c) @ ''. ''
                               @ string_of_nat (undo_count m1) @ '' undo(s) remaining.''))),
                 s\<lparr>session_threads := (session_threads s)(tid \<mapsto> restore_from_messages now (cp_messages c) th)\<rparr>, m1)
            | (None, m1) \<Rightarrow> (Inr (SubError (utext_of ''Undo failed.'')), s, m1)))"

definition process_redo ::
  "(utext \<Rightarrow> 'n json option) \<Rightarrow> ('n json \<Rightarrow> utext) \<Rightarrow> utc \<Rightarrow> uuid \<Rightarrow> uuid
    \<Rightarrow> 'n session \<times> 'n chat_message undo_manager
    \<Rightarrow> (uuid, submission) result \<times> 'n session \<times> 'n chat_message undo_manager" where
  "process_redo parse print now fresh tid = (\<lambda>(s, m).
     if \<not> can_redo m then (Inr (SubOk (utext_of ''Nothing to redo.'')), s, m)
     else case session_threads s tid of
         None \<Rightarrow> (Inl tid, s, m)
       | Some th \<Rightarrow>
           (case redo fresh (thread_turn_number th) (thread_messages parse print th) m of
              (Some c, m1) \<Rightarrow>
                (Inr (SubOk (utext_of (''Redone to turn '' @ string_of_nat (cp_turn c) @ ''.''))),
                 s\<lparr>session_threads := (session_threads s)(tid \<mapsto> restore_from_messages now (cp_messages c) th)\<rparr>, m1)
            | (None, m1) \<Rightarrow> (Inr (SubError (utext_of ''Redo failed.'')), s, m1)))"

subsection \<open>Properties\<close>

text \<open>
  From a fresh manager, however checkpoints, undos, redos and restores are mixed, the
  undo and redo steps together never exceed 20, and an undo or a redo keeps their sum.
\<close>

theorem undo_redo_counts:
  "let m = foldl undo_step undo_new es
   in undo_count m + redo_count m \<le> 20 \<and>
      undo_count (snd (undo i t ms m)) + redo_count (snd (undo i t ms m)) = undo_count m + redo_count m \<and>
      undo_count (snd (redo i t ms m)) + redo_count (snd (redo i t ms m)) = undo_count m + redo_count m"
proof -
  let ?m = "foldl undo_step undo_new es"
  have ok: "undo_ok ?m"
    by (rule undo_machine.run_inv) (simp add: undo_ok_def undo_count_def redo_count_def undo_new_def)
  have "max_checkpoints (undo_step m e) = max_checkpoints m" for m :: "'a undo_manager" and e
    by (cases e) (auto simp: checkpoint_def push_undo_def undo_def redo_def clear_undo_def restore_checkpoint_def Let_def
        split: option.splits)
  then have "max_checkpoints (foldl undo_step m es) = max_checkpoints m" for m :: "'a undo_manager"
    by (induction es arbitrary: m) simp_all
  then have "max_checkpoints ?m = 20" by (simp add: undo_new_def)
  moreover have "undo_count (snd (redo i t ms ?m)) + redo_count (snd (redo i t ms ?m)) = undo_count ?m + redo_count ?m"
  proof (cases "redo_stack ?m" rule: rev_cases)
    case Nil
    then show ?thesis by (simp add: redo_def)
  next
    case (snoc rs r)
    then show ?thesis using redo_eq [OF ok, of i t ms] by (simp add: undo_count_def redo_count_def)
  qed
  moreover have "undo_count (snd (undo i t ms ?m)) + redo_count (snd (undo i t ms ?m)) = undo_count ?m + redo_count ?m"
    by (cases "undo_stack ?m" rule: rev_cases) (simp_all add: undo_def undo_count_def redo_count_def Let_def)
  ultimately show ?thesis using ok by (simp add: Let_def undo_ok_def)
qed

text \<open>
  Undoing n steps from any point of a history and redoing them comes back to the same
  point: the state is the same, and so are the contents of every undo and redo step left.
\<close>

theorem undo_redo_walk:
  assumes "n \<le> undo_count m" and "undo_count m + redo_count m \<le> max_checkpoints m"
  shows "let s = (cur, m); s' = (walk_redo i ^^ n) ((walk_undo j ^^ n) s)
    in fst s' = fst s \<and> map content (undo_stack (snd s')) = map content (undo_stack m) \<and>
       map content (redo_stack (snd s')) = map content (redo_stack m)"
proof -
  let ?us = "map content (undo_stack m)"
  let ?ws = "drop (length ?us - n) ?us"
  have len: "length ?ws = n" using assms(1) by (simp add: undo_count_def)
  have ok: "undo_ok (snd (cur, m))" using assms(2) by (simp add: undo_ok_def)
  have start: "view (cur, m) = (take (length ?us - n) ?us @ ?ws, cur, map content (redo_stack m))"
    by (simp add: view_def flip: append_take_drop_id)
  note down = walk_undo_n [OF ok start, of j, unfolded len]
  have "view ((walk_redo i ^^ length ?ws) ((walk_undo j ^^ n) (cur, m))) =
      (take (length ?us - n) ?us @ ?ws, cur, map content (redo_stack m))"
    by (rule walk_redo_n) (use down in blast)+
  then have "view ((walk_redo i ^^ n) ((walk_undo j ^^ n) (cur, m))) = (?us, cur, map content (redo_stack m))"
    by (simp only: len append_take_drop_id)
  then show ?thesis by (simp add: Let_def view_def)
qed

theorem undo_redo_walk_witness:
  "fst ((walk_redo 1 ^^ 1) ((walk_undo 2 ^^ 1) ((2, [7 :: nat]), checkpoint 5 1 [] [] undo_new))) = (2, [7])"
  using undo_redo_walk [of 1 "checkpoint 5 1 [] [] undo_new" "(2, [7 :: nat])" 1 2]
  by (simp add: checkpoint_def push_undo_def undo_new_def undo_count_def redo_count_def Let_def)

text \<open>
  An undo command followed by a redo command leaves the thread with the messages it had
  (tool calls and their identifiers included), whatever the undone checkpoint was, provided
  the thread's turns carry no images and the content of its tool calls is stable.
\<close>

theorem undo_command_redo_command:
  assumes "session_threads s tid = Some th" and "undo_stack m \<noteq> []"
    and "undo_count m + redo_count m \<le> max_checkpoints m"
    and "list_all (\<lambda>t. image_content_parts t = [] \<and> list_all (stable_call parse print) (turn_tool_calls t)) (turns th)"
  shows "let (r1, s1, m1) = process_undo parse print now i tid (s, m);
             (r2, s2, m2) = process_redo parse print now' j tid (s1, m1)
    in is_ok r1 \<and> is_ok r2 \<and> map_option (thread_messages parse print) (session_threads s2 tid) = Some (thread_messages parse print th) \<and>
       redo_stack m2 = redo_stack m \<and> undo_count m2 = undo_count m"
proof -
  obtain us u where us: "undo_stack m = us @ [u]" using assms(2) by (cases "undo_stack m" rule: rev_cases) auto
  let ?th1 = "restore_from_messages now (cp_messages u) th"
  let ?c = "checkpoint_new i (thread_turn_number th) (thread_messages parse print th) (turn_label (thread_turn_number th))"
  let ?s1 = "s\<lparr>session_threads := (session_threads s)(tid \<mapsto> ?th1)\<rparr>"
  let ?m1 = "m\<lparr>redo_stack := redo_stack m @ [?c], undo_stack := us\<rparr>"
  have ok1: "undo_ok ?m1" using assms(3) us by (simp add: undo_ok_def undo_count_def redo_count_def)
  have undone: "\<exists>r. process_undo parse print now i tid (s, m) = (Inr r, ?s1, ?m1)"
    using assms(1) us by (simp add: process_undo_def can_undo_def undo_def Let_def)
  have redone: "\<exists>r. process_redo parse print now' j tid (?s1, ?m1) = (Inr r,
      ?s1\<lparr>session_threads := (session_threads ?s1)(tid \<mapsto> restore_from_messages now' (thread_messages parse print th) ?th1)\<rparr>,
      ?m1\<lparr>undo_stack := us @ [checkpoint_new j (thread_turn_number ?th1) (thread_messages parse print ?th1)
             (turn_label (thread_turn_number ?th1))], redo_stack := redo_stack m\<rparr>)"
    using redo_eq [OF ok1, of j "thread_turn_number ?th1" "thread_messages parse print ?th1"]
    by (simp add: process_redo_def can_redo_def) (simp add: checkpoint_new_def)
  have "thread_messages parse print (restore_from_messages now' (thread_messages parse print th) ?th1) =
      thread_messages parse print th"
    using messages_restored_from [OF assms(4), of 0 now']
    by (simp add: restore_from_messages_def thread_messages_def restore_turns_own)
  then show ?thesis
    using undone redone by (auto simp: us Let_def undo_count_def)
qed

theorem undo_command_redo_command_witness:
  "let th = start_turn 0 [104, 105] (thread_with_id 0 7 1 None) :: unit session_thread;
       s = (session_new 0 1 ''u'')\<lparr>session_threads := [7 \<mapsto> th]\<rparr>;
       (r1, s1, m1) = process_undo (\<lambda>_. None) (\<lambda>_. []) 0 8 7 (s, checkpoint 5 1 [] [] undo_new);
       (r2, s2, m2) = process_redo (\<lambda>_. None) (\<lambda>_. []) 0 9 7 (s1, m1)
   in map_option (thread_messages (\<lambda>_. None) (\<lambda>_. [])) (session_threads s2 7) = Some (thread_messages (\<lambda>_. None) (\<lambda>_. []) th)"
proof -
  let ?th = "start_turn 0 [104, 105] (thread_with_id 0 7 1 None) :: unit session_thread"
  let ?s = "(session_new 0 1 ''u'')\<lparr>session_threads := [7 \<mapsto> ?th]\<rparr> :: unit session"
  let ?m = "checkpoint 5 1 [] [] undo_new :: unit chat_message undo_manager"
  have "session_threads ?s 7 = Some ?th" "undo_stack ?m \<noteq> []" "undo_count ?m + redo_count ?m \<le> max_checkpoints ?m"
    "list_all (\<lambda>t. image_content_parts t = [] \<and> list_all (stable_call (\<lambda>_. None) (\<lambda>_. [])) (turn_tool_calls t)) (turns ?th)"
    by (simp_all add: checkpoint_def push_undo_def undo_new_def undo_count_def redo_count_def start_turn_def
        thread_with_id_def turn_new_def)
  from undo_command_redo_command [OF this, of 0 8 0 9] show ?thesis
    by (auto simp: Let_def case_prod_beta)
qed

end
