(* ===== verification/GateStore.thy ===== *)
theory GateStore
  imports Gates ChatMessages
begin

text \<open>
  Gates that wait for a decision: \<open>src/gate/pending.rs\<close> (a pending gate and its key),
  \<open>src/gate/store.rs\<close> (the store) and \<open>src/gate/persistence.rs\<close> (its file). The part of an
  operation that runs under the lock of the store is a function of its own, because the file
  is written after the lock is released; the lemmas show who may resolve a gate, that it is
  resolved once, what a restart restores, and where the late write lets a gate come back.
\<close>

section \<open>Pending gates\<close>

record pending_gate_key =
  key_user :: string
  key_thread :: uuid

record 'n pending_gate =
  pg_request_id :: uuid
  pg_gate_name :: string
  pg_user_id :: string
  pg_thread_id :: uuid
  pg_scope_thread_id :: "string option"
  pg_conversation_id :: uuid
  pg_source_channel :: string
  pg_action_name :: string
  pg_call_id :: string
  pg_parameters :: "'n json"
  pg_display_parameters :: "'n json option"
  pg_description :: string
  pg_resume_kind :: resume_kind
  pg_created_at :: utc
  pg_expires_at :: utc
  pg_original_message :: "utext option"
  pg_resume_output :: "'n json option"
  pg_paused_lease :: "capability_lease option"
  approval_already_granted :: bool

definition gate_is_expired :: "utc \<Rightarrow> 'n pending_gate \<Rightarrow> bool" where
  "gate_is_expired now g \<longleftrightarrow> now > pg_expires_at g"

definition effective_wire_thread_id :: "(uuid \<Rightarrow> string) \<Rightarrow> 'n pending_gate \<Rightarrow> string" where
  "effective_wire_thread_id show_uuid g =
     (case pg_scope_thread_id g of Some t \<Rightarrow> t | None \<Rightarrow> show_uuid (pg_thread_id g))"

definition gate_key :: "'n pending_gate \<Rightarrow> pending_gate_key" where
  "gate_key g = \<lparr>key_user = pg_user_id g, key_thread = pg_thread_id g\<rparr>"

record pending_gate_view =
  view_request_id :: string
  view_thread_id :: string
  view_gate_name :: string
  view_tool_name :: string
  view_description :: string
  view_parameters :: string
  view_resume_kind :: resume_kind

text \<open>\<open>pretty\<close> is the pretty printer of the JSON library, which may fail.\<close>

definition view_of :: "(uuid \<Rightarrow> string) \<Rightarrow> ('n json \<Rightarrow> string option) \<Rightarrow> 'n pending_gate \<Rightarrow> pending_gate_view" where
  "view_of show_uuid pretty g = \<lparr>
     view_request_id = show_uuid (pg_request_id g),
     view_thread_id = effective_wire_thread_id show_uuid g,
     view_gate_name = pg_gate_name g,
     view_tool_name = pg_action_name g,
     view_description = pg_description g,
     view_parameters =
       (case pretty (case pg_display_parameters g of Some p \<Rightarrow> p | None \<Rightarrow> pg_parameters g) of
          Some s \<Rightarrow> s | None \<Rightarrow> []),
     view_resume_kind = pg_resume_kind g\<rparr>"

section \<open>File of pending gates\<close>

datatype gate_store_error =
  GateNotFound
| RequestIdMismatch
| ChannelMismatch string string
| GateExpired
| GateAlreadyExists
| GatePersistenceError string

text \<open>
  The file: empty, the JSON text of a list of gates, or a text that does not parse. A gate
  read back is the gate written but for its paused lease, whose grant goes through the JSON
  form of \<open>GrantedActions\<close>, and for optional JSON values: a null that is there is read as none.
\<close>

datatype 'n gate_file =
  FileEmpty
| FileGates "'n pending_gate list"
| FileCorrupt string

fun reread_value :: "'n json option \<Rightarrow> 'n json option" where
  "reread_value (Some JNull) = None"
| "reread_value v = v"

definition reread :: "'n pending_gate \<Rightarrow> 'n pending_gate" where
  "reread g = g\<lparr>pg_display_parameters := reread_value (pg_display_parameters g),
     pg_resume_output := reread_value (pg_resume_output g),
     pg_paused_lease := map_option
       (\<lambda>l. l\<lparr>granted_actions := deserialize_granted (serialize_granted (granted_actions l))\<rparr>) (pg_paused_lease g)\<rparr>"

definition read_state :: "'n gate_file \<Rightarrow> (gate_store_error, 'n pending_gate list) result" where
  "read_state f =
     (case f of
        FileEmpty \<Rightarrow> Inr []
      | FileGates gs \<Rightarrow> Inr (map reread gs)
      | FileCorrupt r \<Rightarrow> Inl (GatePersistenceError r))"

text \<open>
  What the operating system makes of an update: it succeeds, it fails before the file is
  changed, or it fails while the truncated file is written and leaves some content.
\<close>

datatype 'n io_outcome = IoDone | IoFailed string | IoTorn string "'n gate_file"

definition file_update ::
  "'n io_outcome \<Rightarrow> ('n pending_gate list \<Rightarrow> 'n pending_gate list) \<Rightarrow> 'n gate_file
    \<Rightarrow> (gate_store_error, unit) result \<times> 'n gate_file" where
  "file_update io upd f =
     (case io of
        IoFailed r \<Rightarrow> (Inl (GatePersistenceError r), f)
      | _ \<Rightarrow>
          (case read_state f of
             Inl e \<Rightarrow> (Inl e, f)
           | Inr gs \<Rightarrow>
               (case io of
                  IoTorn r f' \<Rightarrow> (Inl (GatePersistenceError r), f')
                | _ \<Rightarrow> (Inr (), FileGates (upd gs)))))"

definition file_save :: "'n io_outcome \<Rightarrow> 'n pending_gate \<Rightarrow> 'n gate_file \<Rightarrow> (gate_store_error, unit) result \<times> 'n gate_file" where
  "file_save io g = file_update io (\<lambda>gs. filter (\<lambda>e. gate_key e \<noteq> gate_key g) gs @ [g])"

definition file_remove :: "'n io_outcome \<Rightarrow> pending_gate_key \<Rightarrow> 'n gate_file \<Rightarrow> (gate_store_error, unit) result \<times> 'n gate_file" where
  "file_remove io k = file_update io (filter (\<lambda>e. gate_key e \<noteq> k))"

definition file_load :: "string option \<Rightarrow> 'n gate_file \<Rightarrow> (gate_store_error, 'n pending_gate list) result" where
  "file_load failure f = (case failure of Some r \<Rightarrow> Inl (GatePersistenceError r) | None \<Rightarrow> read_state f)"

section \<open>Store\<close>

definition trusted_gate_channels :: "string list" where
  "trusted_gate_channels = [''web'', ''gateway'']"

definition reserved_channel_names :: "string list" where
  "reserved_channel_names = [''web'', ''gateway'', ''telegram'', ''signal'', ''slack'', ''discord'', ''repl'',
     ''cli'', ''http'', ''__bootstrap__'']"

definition is_channel_reserved :: "string \<Rightarrow> bool" where
  "is_channel_reserved name \<longleftrightarrow> name \<in> set reserved_channel_names"

record 'n store_inner =
  by_key :: "pending_gate_key \<rightharpoonup> 'n pending_gate"
  by_request_id :: "uuid \<rightharpoonup> pending_gate_key"

definition store_new :: "'n store_inner" where
  "store_new = \<lparr>by_key = Map.empty, by_request_id = Map.empty\<rparr>"

definition forget :: "pending_gate_key \<Rightarrow> 'n pending_gate \<Rightarrow> 'n store_inner \<Rightarrow> 'n store_inner" where
  "forget k g s = s\<lparr>by_key := (by_key s)(k := None), by_request_id := (by_request_id s)(pg_request_id g := None)\<rparr>"

subsection \<open>Under the lock\<close>

definition insert_locked :: "'n pending_gate \<Rightarrow> 'n store_inner \<Rightarrow> (gate_store_error, unit) result \<times> 'n store_inner" where
  "insert_locked g s =
     (if by_key s (gate_key g) \<noteq> None then (Inl GateAlreadyExists, s)
      else (Inr (), s\<lparr>by_request_id := (by_request_id s)(pg_request_id g \<mapsto> gate_key g),
                      by_key := (by_key s)(gate_key g \<mapsto> g)\<rparr>))"

definition channel_authorized :: "string \<Rightarrow> 'n pending_gate \<Rightarrow> bool" where
  "channel_authorized channel g \<longleftrightarrow> pg_source_channel g = channel \<or> channel \<in> set trusted_gate_channels"

definition take_locked ::
  "utc \<Rightarrow> pending_gate_key \<Rightarrow> uuid \<Rightarrow> string \<Rightarrow> 'n store_inner
    \<Rightarrow> (gate_store_error, 'n pending_gate) result \<times> 'n store_inner" where
  "take_locked now k rid channel s =
     (case by_key s k of
        None \<Rightarrow> (Inl GateNotFound, s)
      | Some g \<Rightarrow>
          if pg_request_id g \<noteq> rid then (Inl RequestIdMismatch, s)
          else if \<not> channel_authorized channel g then (Inl (ChannelMismatch (pg_source_channel g) channel), s)
          else if gate_is_expired now g then (Inl GateExpired, forget k g s)
          else (Inr g, forget k g s))"

definition discard_locked ::
  "pending_gate_key \<Rightarrow> 'n store_inner \<Rightarrow> (gate_store_error, 'n pending_gate) result \<times> 'n store_inner" where
  "discard_locked k s = (case by_key s k of None \<Rightarrow> (Inl GateNotFound, s) | Some g \<Rightarrow> (Inr g, forget k g s))"

fun forget_keys :: "pending_gate_key list \<Rightarrow> 'n store_inner \<Rightarrow> 'n pending_gate list \<times> 'n store_inner" where
  "forget_keys [] s = ([], s)"
| "forget_keys (k # ks) s =
     (case by_key s k of
        None \<Rightarrow> forget_keys ks s
      | Some g \<Rightarrow> (case forget_keys ks (forget k g s) of (gs, s') \<Rightarrow> (g # gs, s')))"

text \<open>\<open>ks\<close> is the order in which the hash map is iterated; \<open>clock g\<close> the time read for a gate.\<close>

definition keys_of_thread :: "pending_gate_key list \<Rightarrow> uuid \<Rightarrow> 'n store_inner \<Rightarrow> pending_gate_key list" where
  "keys_of_thread ks tid s = filter (\<lambda>k. key_thread k = tid) (map fst (map_entries ks (by_key s)))"

definition expired_keys ::
  "pending_gate_key list \<Rightarrow> ('n pending_gate \<Rightarrow> utc) \<Rightarrow> 'n store_inner \<Rightarrow> pending_gate_key list" where
  "expired_keys ks clock s =
     map fst (filter (\<lambda>(k, g). gate_is_expired (clock g) g) (map_entries ks (by_key s)))"

subsection \<open>Operations\<close>

text \<open>The state is the store and its file; \<open>None\<close> is a store in memory only.\<close>

type_synonym 'n gate_store = "'n store_inner \<times> 'n gate_file option"

definition remove_files ::
  "(pending_gate_key \<Rightarrow> 'n io_outcome) \<Rightarrow> pending_gate_key list \<Rightarrow> 'n gate_file option \<Rightarrow> 'n gate_file option" where
  "remove_files ios ks p = map_option (\<lambda>f. foldl (\<lambda>f k. snd (file_remove (ios k) k f)) f ks) p"

definition gate_insert :: "'n io_outcome \<Rightarrow> 'n pending_gate \<Rightarrow> 'n gate_store \<Rightarrow> (gate_store_error, unit) result \<times> 'n gate_store" where
  "gate_insert io g = (\<lambda>(s, p).
     case insert_locked g s of
       (Inl e, s') \<Rightarrow> (Inl e, s', p)
     | (Inr _, s') \<Rightarrow>
         (case p of
            None \<Rightarrow> (Inr (), s', None)
          | Some f \<Rightarrow> (case file_save io g f of (r, f') \<Rightarrow> (r, s', Some f'))))"

definition take_verified ::
  "'n io_outcome \<Rightarrow> utc \<Rightarrow> pending_gate_key \<Rightarrow> uuid \<Rightarrow> string \<Rightarrow> 'n gate_store
    \<Rightarrow> (gate_store_error, 'n pending_gate) result \<times> 'n gate_store" where
  "take_verified io now k rid channel = (\<lambda>(s, p).
     case take_locked now k rid channel s of
       (Inl e, s') \<Rightarrow> (Inl e, s', p)
     | (Inr g, s') \<Rightarrow> (Inr g, s', remove_files (\<lambda>_. io) [k] p))"

definition gate_peek ::
  "(uuid \<Rightarrow> string) \<Rightarrow> ('n json \<Rightarrow> string option) \<Rightarrow> utc \<Rightarrow> pending_gate_key \<Rightarrow> 'n gate_store \<Rightarrow> pending_gate_view option" where
  "gate_peek show_uuid pretty now k = (\<lambda>(s, p).
     case by_key s k of
       None \<Rightarrow> None
     | Some g \<Rightarrow> if gate_is_expired now g then None else Some (view_of show_uuid pretty g))"

definition list_for_user ::
  "pending_gate_key list \<Rightarrow> ('n pending_gate \<Rightarrow> utc) \<Rightarrow> string \<Rightarrow> 'n gate_store \<Rightarrow> 'n pending_gate list" where
  "list_for_user ks clock user = (\<lambda>(s, p).
     filter (\<lambda>g. pg_user_id g = user \<and> \<not> gate_is_expired (clock g) g) (map_values ks (by_key s)))"

definition list_all_gates ::
  "pending_gate_key list \<Rightarrow> ('n pending_gate \<Rightarrow> utc) \<Rightarrow> 'n gate_store \<Rightarrow> 'n pending_gate list" where
  "list_all_gates ks clock = (\<lambda>(s, p). filter (\<lambda>g. \<not> gate_is_expired (clock g) g) (map_values ks (by_key s)))"

definition discard_for_thread ::
  "(pending_gate_key \<Rightarrow> 'n io_outcome) \<Rightarrow> pending_gate_key list \<Rightarrow> uuid \<Rightarrow> 'n gate_store
    \<Rightarrow> 'n pending_gate list \<times> 'n gate_store" where
  "discard_for_thread ios ks tid = (\<lambda>(s, p).
     let keys = keys_of_thread ks tid s
     in case forget_keys keys s of (gates, s') \<Rightarrow> (gates, s', remove_files ios keys p))"

definition gate_discard :: "'n io_outcome \<Rightarrow> pending_gate_key \<Rightarrow> 'n gate_store \<Rightarrow> (gate_store_error, unit) result \<times> 'n gate_store" where
  "gate_discard io k = (\<lambda>(s, p).
     case discard_locked k s of
       (Inl e, s') \<Rightarrow> (Inl e, s', p)
     | (Inr _, s') \<Rightarrow>
         (case p of
            None \<Rightarrow> (Inr (), s', None)
          | Some f \<Rightarrow> (case file_remove io k f of (r, f') \<Rightarrow> (r, s', Some f'))))"

definition gate_expire_stale ::
  "(pending_gate_key \<Rightarrow> 'n io_outcome) \<Rightarrow> pending_gate_key list \<Rightarrow> ('n pending_gate \<Rightarrow> utc) \<Rightarrow> 'n gate_store
    \<Rightarrow> nat \<times> 'n gate_store" where
  "gate_expire_stale ios ks clock = (\<lambda>(s, p).
     let keys = expired_keys ks clock s
     in (length keys, snd (forget_keys keys s), remove_files ios keys p))"

fun restore_loop :: "('n pending_gate \<Rightarrow> utc) \<Rightarrow> 'n pending_gate list \<Rightarrow> 'n store_inner \<Rightarrow> nat \<times> 'n store_inner" where
  "restore_loop clock [] s = (0, s)"
| "restore_loop clock (g # gs) s =
     (if gate_is_expired (clock g) g then restore_loop clock gs s
      else let g' = g\<lparr>approval_already_granted := False\<rparr>
        in case restore_loop clock gs
             (s\<lparr>by_request_id := (by_request_id s)(pg_request_id g' \<mapsto> gate_key g'),
                by_key := (by_key s)(gate_key g' \<mapsto> g')\<rparr>) of (n, s') \<Rightarrow> (Suc n, s'))"

definition restore_from_persistence ::
  "string option \<Rightarrow> ('n pending_gate \<Rightarrow> utc) \<Rightarrow> 'n gate_store \<Rightarrow> (gate_store_error, nat) result \<times> 'n gate_store" where
  "restore_from_persistence failure clock = (\<lambda>(s, p).
     case p of
       None \<Rightarrow> (Inr 0, s, p)
     | Some f \<Rightarrow>
         (case file_load failure f of
            Inl e \<Rightarrow> (Inl e, s, p)
          | Inr gs \<Rightarrow> (case restore_loop clock gs s of (n, s') \<Rightarrow> (Inr n, s', p))))"

section \<open>The two indices\<close>

definition index_ok :: "'n store_inner \<Rightarrow> bool" where
  "index_ok s \<longleftrightarrow>
     (\<forall>i k. by_request_id s i = Some k \<longleftrightarrow> (\<exists>g. by_key s k = Some g \<and> pg_request_id g = i)) \<and>
     (\<forall>k g. by_key s k = Some g \<longrightarrow> gate_key g = k)"

lemma index_ok_request:
  "index_ok s \<Longrightarrow> by_request_id s i = Some k \<longleftrightarrow> (\<exists>g. by_key s k = Some g \<and> pg_request_id g = i)"
  by (simp add: index_ok_def)

lemma index_ok_key: "index_ok s \<Longrightarrow> by_key s k = Some g \<Longrightarrow> gate_key g = k"
  by (simp add: index_ok_def)

lemma index_ok_unique:
  assumes "index_ok s" and "by_key s k = Some g" and "by_key s k' = Some g'"
    and "pg_request_id g = pg_request_id g'"
  shows "k = k'"
proof -
  have "by_request_id s (pg_request_id g) = Some k"
    using assms(2) by (auto simp: index_ok_request [OF assms(1)])
  moreover have "by_request_id s (pg_request_id g) = Some k'"
    using assms(3,4) by (auto simp: index_ok_request [OF assms(1)])
  ultimately show ?thesis by simp
qed

lemmas index_okD = index_ok_request index_ok_key index_ok_unique

lemma index_ok_new [simp]: "index_ok store_new"
  by (simp add: index_ok_def store_new_def)

lemma by_key_new [simp]: "by_key store_new = Map.empty"
  by (simp add: store_new_def)

lemma forget_simps [simp]:
  "by_key (forget k g s) = (by_key s)(k := None)"
  "by_request_id (forget k g s) = (by_request_id s)(pg_request_id g := None)"
  by (simp_all add: forget_def)

lemma index_ok_forget [keeps_intros]:
  assumes "index_ok s" and "by_key s k = Some g"
  shows "index_ok (forget k g s)"
  unfolding index_ok_def
proof (intro conjI allI)
  fix i j
  show "by_request_id (forget k g s) i = Some j \<longleftrightarrow>
      (\<exists>h. by_key (forget k g s) j = Some h \<and> pg_request_id h = i)"
  proof (cases "i = pg_request_id g \<or> j = k")
    case True
    then have "by_request_id (forget k g s) i \<noteq> Some j"
      using index_ok_request [OF assms(1), of i j] assms(2) by auto
    moreover have "by_key (forget k g s) j = Some h \<Longrightarrow> pg_request_id h \<noteq> i" for h
      using True index_ok_unique [OF assms, of j h] by (auto split: if_splits)
    ultimately show ?thesis by blast
  next
    case False
    then show ?thesis by (simp add: index_ok_request [OF assms(1)])
  qed
next
  fix j h
  show "by_key (forget k g s) j = Some h \<longrightarrow> gate_key h = j"
    using index_ok_key [OF assms(1), of j h] by (simp split: if_splits)
qed

lemma index_ok_insert:
  assumes "index_ok s" and "insert_locked g s = (r, s')"
    and "\<forall>k h. by_key s k = Some h \<longrightarrow> pg_request_id h \<noteq> pg_request_id g"
  shows "index_ok s'"
proof (cases "by_key s (gate_key g)")
  case None
  with assms(2) have s': "s' = s\<lparr>by_request_id := (by_request_id s)(pg_request_id g \<mapsto> gate_key g),
      by_key := (by_key s)(gate_key g \<mapsto> g)\<rparr>"
    by (simp add: insert_locked_def)
  have "(by_request_id s' i = Some j) = (\<exists>h. by_key s' j = Some h \<and> pg_request_id h = i)" for i j
    using index_okD(1) [OF assms(1), of i j] assms(3) None by (auto simp: s')
  moreover have "by_key s' j = Some h \<Longrightarrow> gate_key h = j" for j h
    using index_okD(2) [OF assms(1), of j h] by (auto simp: s' split: if_splits)
  ultimately show ?thesis unfolding index_ok_def by blast
next
  case (Some h)
  with assms(1,2) show ?thesis by (simp add: insert_locked_def)
qed

text \<open>What the locked parts make of the first index; the second follows it.\<close>

lemma take_locked_cases:
  assumes "take_locked now k i ch s = (r, s')"
  obtains (kept) e where "r = Inl e" and "s' = s"
  | (expired) g where "by_key s k = Some g" and "r = Inl GateExpired" and "s' = forget k g s"
      and "gate_is_expired now g" and "pg_request_id g = i"
  | (taken) g where "by_key s k = Some g" and "r = Inr g" and "s' = forget k g s" and "pg_request_id g = i"
      and "channel_authorized ch g" and "\<not> gate_is_expired now g"
  using assms by (auto simp: take_locked_def split: option.splits if_splits)

lemma by_key_forget_keys:
  "by_key (snd (forget_keys ks s)) = (\<lambda>k. if k \<in> set ks then None else by_key s k)"
  by (induction ks s rule: forget_keys.induct) (auto split: option.splits prod.splits simp: fun_eq_iff)

lemma index_ok_forget_keys [keeps_intros]: "index_ok s \<Longrightarrow> index_ok (snd (forget_keys ks s))"
  by (induction ks s rule: forget_keys.induct) (auto split: option.splits prod.splits dest: index_ok_forget)

section \<open>Operations interleaved\<close>

text \<open>
  The store between its critical sections: the gates whose file entry is still to be written,
  the keys whose entry is still to be removed, every request identifier issued so far and the
  identifiers of the resolved gates in order. Each rule is one critical section or one write
  of the file, which may fail in any way.
\<close>

record 'n gate_system =
  inner :: "'n store_inner"
  disk :: "'n gate_file"
  saving :: "'n pending_gate list"
  unsaving :: "pending_gate_key list"
  issued :: "uuid set"
  resolved :: "uuid list"

inductive gate_reach :: "'n gate_system \<Rightarrow> bool" where
  gate_start: "gate_reach \<lparr>inner = store_new, disk = f, saving = [], unsaving = [], issued = {}, resolved = []\<rparr>"
| gate_inserts: "gate_reach s \<Longrightarrow> pg_request_id g \<notin> issued s \<Longrightarrow> insert_locked g (inner s) = (Inr (), st) \<Longrightarrow>
    gate_reach (s\<lparr>inner := st, saving := saving s @ [g], issued := insert (pg_request_id g) (issued s)\<rparr>)"
| gate_saves: "gate_reach s \<Longrightarrow> g \<in> set (saving s) \<Longrightarrow>
    gate_reach (s\<lparr>disk := snd (file_save io g (disk s)), saving := remove1 g (saving s)\<rparr>)"
| gate_takes: "gate_reach s \<Longrightarrow> take_locked now k i ch (inner s) = (Inr g, st) \<Longrightarrow>
    gate_reach (s\<lparr>inner := st, unsaving := unsaving s @ [k], resolved := resolved s @ [i]\<rparr>)"
| gate_refuses: "gate_reach s \<Longrightarrow> take_locked now k i ch (inner s) = (Inl e, st) \<Longrightarrow> gate_reach (s\<lparr>inner := st\<rparr>)"
| gate_discards: "gate_reach s \<Longrightarrow> discard_locked k (inner s) = (Inr g, st) \<Longrightarrow>
    gate_reach (s\<lparr>inner := st, unsaving := unsaving s @ [k]\<rparr>)"
| gate_forgets: "gate_reach s \<Longrightarrow> set keys \<subseteq> dom (by_key (inner s)) \<Longrightarrow>
    gate_reach (s\<lparr>inner := snd (forget_keys keys (inner s)), unsaving := unsaving s @ keys\<rparr>)"
| gate_removes: "gate_reach s \<Longrightarrow> k \<in> set (unsaving s) \<Longrightarrow>
    gate_reach (s\<lparr>disk := snd (file_remove io k (disk s)), unsaving := remove1 k (unsaving s)\<rparr>)"

definition gate_system_ok :: "'n gate_system \<Rightarrow> bool" where
  "gate_system_ok s \<longleftrightarrow> index_ok (inner s) \<and> distinct (resolved s) \<and> set (resolved s) \<subseteq> issued s \<and>
     (\<forall>k g. by_key (inner s) k = Some g \<longrightarrow> pg_request_id g \<in> issued s \<and> pg_request_id g \<notin> set (resolved s))"

lemma gate_reach_ok: "gate_reach s \<Longrightarrow> gate_system_ok s"
proof (induction rule: gate_reach.induct)
  case (gate_inserts s g st)
  then have fresh: "\<forall>k h. by_key (inner s) k = Some h \<longrightarrow> pg_request_id h \<noteq> pg_request_id g"
    unfolding gate_system_ok_def by metis
  have "index_ok st" using gate_inserts index_ok_insert [OF _ gate_inserts.hyps(3) fresh]
    by (simp add: gate_system_ok_def)
  with gate_inserts show ?case
    by (auto simp: gate_system_ok_def insert_locked_def split: if_splits)
next
  case (gate_takes s now k i ch g st)
  then have g: "by_key (inner s) k = Some g" "st = forget k g (inner s)" "pg_request_id g = i"
    by (auto elim!: take_locked_cases)
  have ok: "index_ok (inner s)" using gate_takes by (simp add: gate_system_ok_def)
  have "index_ok st" using index_ok_forget [OF ok g(1)] by (simp add: g)
  moreover have "pg_request_id h \<noteq> i" if "by_key (inner s) j = Some h" and "j \<noteq> k" for j h
    using that index_ok_unique [OF ok _ g(1), of j h] g(3) by auto
  ultimately show ?case using gate_takes.IH g by (auto simp: gate_system_ok_def split: if_splits)
next
  case (gate_refuses s now k i ch e st)
  then show ?case
    by (auto simp: gate_system_ok_def elim!: take_locked_cases intro: index_ok_forget split: if_splits)
next
  case (gate_discards s k g st)
  then show ?case
    by (auto simp: gate_system_ok_def discard_locked_def intro: index_ok_forget split: if_splits option.splits)
next
  case (gate_forgets s keys)
  then show ?case
    by (auto simp: gate_system_ok_def by_key_forget_keys intro: index_ok_forget_keys split: if_splits)
qed (simp_all add: gate_system_ok_def)

section \<open>Operations one after the other\<close>

text \<open>
  Runs in which every operation writes the file before the next one starts and no write
  fails. An event holds the times the operation reads; \<open>happens_by T\<close> bounds them.
\<close>

datatype 'n gate_event =
  GInsert "'n pending_gate"
| GTake utc pending_gate_key uuid string
| GDiscard pending_gate_key
| GDiscardThread "pending_gate_key list" uuid
| GExpire "pending_gate_key list" "'n pending_gate \<Rightarrow> utc"

fun gate_step :: "'n gate_store \<Rightarrow> 'n gate_event \<Rightarrow> 'n gate_store" where
  "gate_step st (GInsert g) = snd (gate_insert IoDone g st)"
| "gate_step st (GTake now k i ch) = snd (take_verified IoDone now k i ch st)"
| "gate_step st (GDiscard k) = snd (gate_discard IoDone k st)"
| "gate_step st (GDiscardThread ks tid) = snd (discard_for_thread (\<lambda>_. IoDone) ks tid st)"
| "gate_step st (GExpire ks clock) = snd (gate_expire_stale (\<lambda>_. IoDone) ks clock st)"

fun happens_by :: "utc \<Rightarrow> 'n gate_event \<Rightarrow> bool" where
  "happens_by T (GTake now k i ch) = (now \<le> T)"
| "happens_by T (GExpire ks clock) = (\<forall>g. clock g \<le> T)"
| "happens_by T _ = True"

text \<open>
  The gates that can still be resolved at a time, as a restart would have them: an approval that
  was given is withdrawn, a null parameter or output is none, and a paused lease that grants no
  action grants all of them.
\<close>

definition restored :: "utc \<Rightarrow> 'n pending_gate \<Rightarrow> 'n pending_gate option" where
  "restored T g =
     (if gate_is_expired T g then None
      else Some (g\<lparr>approval_already_granted := False,
        pg_display_parameters := (if pg_display_parameters g = Some JNull then None else pg_display_parameters g),
        pg_resume_output := (if pg_resume_output g = Some JNull then None else pg_resume_output g),
        pg_paused_lease := (case pg_paused_lease g of
            Some l \<Rightarrow> Some (if granted_actions l = Specific [] then l\<lparr>granted_actions := AllActions\<rparr> else l)
          | None \<Rightarrow> None)\<rparr>))"

lemma reread_value_if: "reread_value v = (if v = Some JNull then None else v)"
  by (cases v rule: reread_value.cases) simp_all

lemma granted_roundtrip: "deserialize_granted (serialize_granted a) = (if a = Specific [] then AllActions else a)"
  by (cases a) (auto simp: deserialize_granted_def)

lemma restored_is_reread: "restored T g = (if gate_is_expired T g then None else Some ((reread g)\<lparr>approval_already_granted := False\<rparr>))"
  by (cases "pg_paused_lease g") (simp_all add: restored_def reread_def reread_value_if granted_roundtrip)

definition live :: "utc \<Rightarrow> (pending_gate_key \<rightharpoonup> 'n pending_gate) \<Rightarrow> (pending_gate_key \<rightharpoonup> 'n pending_gate)" where
  "live T m = (\<lambda>k. Option.bind (m k) (restored T))"

definition file_map :: "'n pending_gate list \<Rightarrow> (pending_gate_key \<rightharpoonup> 'n pending_gate)" where
  "file_map gs = (\<lambda>k. find (\<lambda>g. gate_key g = k) gs)"

definition disk_ok :: "utc \<Rightarrow> 'n gate_store \<Rightarrow> bool" where
  "disk_ok T st \<longleftrightarrow> (\<exists>f gs. snd st = Some f \<and> read_state f = Inr (map reread gs) \<and> distinct (map gate_key gs) \<and>
     live T (file_map gs) = live T (by_key (fst st)))"

lemma reread_idem [simp]: "reread (reread g) = reread g"
  by (cases "pg_paused_lease g") (simp_all add: reread_def reread_value_if granted_roundtrip)

lemma reread_fields [simp]:
  "gate_key (reread g) = gate_key g" "gate_is_expired T (reread g) = gate_is_expired T g"
  by (simp_all add: reread_def gate_key_def gate_is_expired_def)

lemma live_upd:
  "live T (m(k := None)) = (live T m)(k := None)"
  "live T (m(k \<mapsto> g)) = (live T m)(k := restored T g)"
  by (auto simp: live_def fun_eq_iff)

lemma live_expired: "m k = Some g \<Longrightarrow> gate_is_expired T g \<Longrightarrow> live T (m(k := None)) = live T m"
  by (auto simp: live_def restored_is_reread fun_eq_iff)

lemma find_map_reread:
  "find (\<lambda>g. gate_key g = k) (map reread gs) = map_option reread (find (\<lambda>g. gate_key g = k) gs)"
  by (induction gs) auto

lemma restored_reread [simp]: "restored T (reread g) = restored T g"
  by (simp add: restored_is_reread)

lemma live_reread: "live T (file_map (map reread gs)) = live T (file_map gs)"
proof
  show "live T (file_map (map reread gs)) k = live T (file_map gs) k" for k
    by (cases "find (\<lambda>g. gate_key g = k) gs") (simp_all add: live_def file_map_def find_map_reread)
qed

lemma find_filter_other: "find (\<lambda>g. gate_key g = k) (filter (\<lambda>g. gate_key g \<noteq> j) gs) =
    (if k = j then None else find (\<lambda>g. gate_key g = k) gs)"
  by (induction gs) auto

lemma file_map_filter: "file_map (filter (\<lambda>g. gate_key g \<noteq> k) gs) = (file_map gs)(k := None)"
  by (auto simp: file_map_def find_filter_other fun_eq_iff)

lemma find_append: "find P (xs @ ys) = (case find P xs of None \<Rightarrow> find P ys | Some x \<Rightarrow> Some x)"
  by (induction xs) auto

lemma file_map_save:
  "file_map (filter (\<lambda>e. gate_key e \<noteq> gate_key g) gs @ [g]) = (file_map gs)(gate_key g \<mapsto> g)"
  by (auto simp: file_map_def find_append find_filter_other fun_eq_iff split: option.splits)

lemma disk_okI:
  assumes "distinct (map gate_key gs)" and "live T (file_map gs) = live T (by_key s)"
  shows "disk_ok T (s, Some (FileGates gs))"
  unfolding disk_ok_def using assms by (intro exI [of _ "FileGates gs"] exI [of _ gs]) (simp add: read_state_def)

lemma distinct_map_filter_key: "distinct (map gate_key gs) \<Longrightarrow> distinct (map gate_key (filter P gs))"
  by (simp add: distinct_map_filter)

lemma distinct_keys_reread:
  "distinct (map gate_key gs) \<Longrightarrow> distinct (map gate_key (filter P (map reread gs)))"
proof (rule distinct_map_filter_key)
  assume "distinct (map gate_key gs)"
  moreover have "map gate_key (map reread gs) = map gate_key gs" by simp
  ultimately show "distinct (map gate_key (map reread gs))" by (simp only:)
qed

lemma disk_ok_cong: "by_key s = by_key s' \<Longrightarrow> disk_ok T (s, p) = disk_ok T (s', p)"
  by (simp add: disk_ok_def)

lemma disk_ok_remove:
  assumes "disk_ok T (s, Some f)" and "by_key s' = (by_key s)(k := None)"
  shows "disk_ok T (s', Some (snd (file_remove IoDone k f)))"
proof -
  from assms(1) obtain gs where gs: "read_state f = Inr (map reread gs)" "distinct (map gate_key gs)"
    "live T (file_map gs) = live T (by_key s)" by (auto simp: disk_ok_def)
  have f': "snd (file_remove IoDone k f) = FileGates (filter (\<lambda>e. gate_key e \<noteq> k) (map reread gs))"
    by (simp add: file_remove_def file_update_def gs(1))
  show ?thesis
    unfolding f' by (rule disk_okI [OF distinct_keys_reread [OF gs(2)]]) (simp only: file_map_filter live_upd live_reread gs(3) assms(2))
qed

lemma disk_ok_save:
  assumes "disk_ok T (s, Some f)" and "by_key s' = (by_key s)(gate_key g \<mapsto> g)"
  shows "disk_ok T (s', Some (snd (file_save IoDone g f)))"
proof -
  from assms(1) obtain gs where gs: "read_state f = Inr (map reread gs)" "distinct (map gate_key gs)"
    "live T (file_map gs) = live T (by_key s)" by (auto simp: disk_ok_def)
  let ?rest = "filter (\<lambda>e. gate_key e \<noteq> gate_key g) (map reread gs)"
  have f': "snd (file_save IoDone g f) = FileGates (?rest @ [g])"
    by (simp add: file_save_def file_update_def gs(1))
  have "gate_key g \<notin> set (map gate_key ?rest)" by auto
  with distinct_keys_reread [OF gs(2)] have "distinct (map gate_key (?rest @ [g]))"
    by (simp del: map_map filter_map)
  moreover have "live T (file_map (?rest @ [g])) = (live T (file_map gs))(gate_key g := restored T g)"
    by (simp only: file_map_save live_upd live_reread)
  then have "live T (file_map (?rest @ [g])) = live T (by_key s')"
    by (simp only: gs(3) assms(2) live_upd)
  ultimately show ?thesis unfolding f' by (rule disk_okI)
qed

lemma disk_ok_forget_keys:
  "disk_ok T (s, Some f) \<Longrightarrow>
    disk_ok T (snd (forget_keys ks s), remove_files (\<lambda>_. IoDone) ks (Some f))"
proof (induction ks arbitrary: s f)
  case (Cons k ks)
  let ?s = "s\<lparr>by_key := (by_key s)(k := None)\<rparr>"
  have "disk_ok T (?s, Some (snd (file_remove IoDone k f)))"
    by (rule disk_ok_remove [OF Cons.prems]) simp
  from Cons.IH [OF this]
  have "disk_ok T (snd (forget_keys ks ?s), remove_files (\<lambda>_. IoDone) (k # ks) (Some f))"
    by (simp add: remove_files_def)
  moreover have "by_key (snd (forget_keys ks ?s)) = by_key (snd (forget_keys (k # ks) s))"
    by (simp only: by_key_forget_keys) (auto simp: fun_eq_iff)
  ultimately show ?case by (rule disk_ok_cong [THEN iffD1, rotated])
qed (simp add: remove_files_def)

lemma disk_ok_step: "disk_ok T st \<Longrightarrow> happens_by T e \<Longrightarrow> disk_ok T (gate_step st e)"
proof -
  assume ok: "disk_ok T st" and time: "happens_by T e"
  then obtain s f where st: "st = (s, Some f)" by (cases st) (auto simp: disk_ok_def)
  show ?thesis
  proof (cases e)
    case (GInsert g)
    show ?thesis
    proof (cases "by_key s (gate_key g)")
      case None
      then have "by_key (snd (insert_locked g s)) = (by_key s)(gate_key g \<mapsto> g)" by (simp add: insert_locked_def)
      from disk_ok_save [OF ok [unfolded st] this] None show ?thesis
        by (cases "file_save IoDone g f") (simp add: GInsert st gate_insert_def insert_locked_def)
    next
      case (Some h)
      then show ?thesis using ok by (simp add: GInsert st gate_insert_def insert_locked_def)
    qed
  next
    case (GTake now k i ch)
    obtain r s' where take: "take_locked now k i ch s = (r, s')" by (cases "take_locked now k i ch s")
    then show ?thesis
    proof (cases rule: take_locked_cases)
      case (kept x)
      with take ok show ?thesis by (simp add: GTake st take_verified_def)
    next
      case (expired g)
      then have "gate_is_expired T g" using time by (auto simp: GTake gate_is_expired_def)
      with expired ok take show ?thesis
        by (auto simp: GTake st take_verified_def disk_ok_def live_expired)
    next
      case (taken g)
      have "disk_ok T (s', Some (snd (file_remove IoDone k f)))"
        by (rule disk_ok_remove [OF ok [unfolded st]]) (simp add: taken)
      with taken take show ?thesis by (simp add: GTake st take_verified_def remove_files_def)
    qed
  next
    case (GDiscard k)
    show ?thesis
    proof (cases "by_key s k")
      case None
      then show ?thesis using ok by (simp add: GDiscard st gate_discard_def discard_locked_def)
    next
      case (Some g)
      then have "by_key (snd (discard_locked k s)) = (by_key s)(k := None)" by (simp add: discard_locked_def)
      from disk_ok_remove [OF ok [unfolded st] this] Some show ?thesis
        by (cases "file_remove IoDone k f") (simp add: GDiscard st gate_discard_def discard_locked_def)
    qed
  next
    case (GDiscardThread ks tid)
    then show ?thesis
      using disk_ok_forget_keys [OF ok [unfolded st], of "keys_of_thread ks tid s"]
      by (cases "forget_keys (keys_of_thread ks tid s) s") (simp add: st discard_for_thread_def Let_def)
  next
    case (GExpire ks clock)
    then show ?thesis
      using disk_ok_forget_keys [OF ok [unfolded st], of "expired_keys ks clock s"]
      by (simp add: st gate_expire_stale_def Let_def)
  qed
qed

interpretation gate_disk: guarded_machine gate_step "disk_ok T" "happens_by T" for T
  by unfold_locales (rule disk_ok_step)

text \<open>Restoring a list of gates with distinct keys into a store.\<close>

lemma snd_restore_loop_Cons:
  "snd (restore_loop clock (g # gs) s) =
     (if gate_is_expired (clock g) g then snd (restore_loop clock gs s)
      else let g' = g\<lparr>approval_already_granted := False\<rparr>
        in snd (restore_loop clock gs
             (s\<lparr>by_request_id := (by_request_id s)(pg_request_id g' \<mapsto> gate_key g'),
                by_key := (by_key s)(gate_key g' \<mapsto> g')\<rparr>)))"
  by (simp add: Let_def split: prod.splits)

lemma file_map_Cons: "file_map (g # gs) = (file_map gs)(gate_key g \<mapsto> g)"
  by (auto simp: file_map_def fun_eq_iff)

lemma restore_loop_by_key:
  assumes "distinct (map gate_key gs)"
  shows "by_key (snd (restore_loop (\<lambda>_. T) (map reread gs) s)) =
    (\<lambda>k. case live T (file_map gs) k of Some g \<Rightarrow> Some g | None \<Rightarrow> by_key s k)"
  using assms
proof (induction gs arbitrary: s)
  case Nil
  then show ?case by (simp add: live_def file_map_def)
next
  case (Cons g gs)
  have notin: "file_map gs (gate_key g) = None"
    using Cons.prems by (simp add: file_map_def find_None_iff) (metis image_eqI)
  have key: "gate_key (h\<lparr>approval_already_granted := False\<rparr>) = gate_key h" for h :: "'a pending_gate"
    by (simp add: gate_key_def)
  have IH: "by_key (snd (restore_loop (\<lambda>_. T) (map reread gs) s')) =
      (\<lambda>k. case live T (file_map gs) k of Some g \<Rightarrow> Some g | None \<Rightarrow> by_key s' k)" for s'
    using Cons by simp
  show ?case
    by (simp only: list.map snd_restore_loop_Cons file_map_Cons live_upd)
       (auto simp: IH Let_def key live_def restored_is_reread notin fun_eq_iff split: option.split)
qed

section \<open>The store as a table\<close>

text \<open>What the operations mean for a caller: one gate per user and thread, and nothing else.\<close>

fun table_step :: "(pending_gate_key \<rightharpoonup> 'n pending_gate) \<Rightarrow> 'n gate_event \<Rightarrow> (pending_gate_key \<rightharpoonup> 'n pending_gate)" where
  "table_step m (GInsert g) = (case m (gate_key g) of None \<Rightarrow> m(gate_key g \<mapsto> g) | Some _ \<Rightarrow> m)"
| "table_step m (GTake now k i ch) =
     (case m k of
        None \<Rightarrow> m
      | Some g \<Rightarrow> if pg_request_id g = i \<and> channel_authorized ch g then m(k := None) else m)"
| "table_step m (GDiscard k) = m(k := None)"
| "table_step m (GDiscardThread ks tid) = (\<lambda>k. if k \<in> set ks \<and> key_thread k = tid then None else m k)"
| "table_step m (GExpire ks clock) =
     (\<lambda>k. case m k of None \<Rightarrow> None | Some g \<Rightarrow> if k \<in> set ks \<and> gate_is_expired (clock g) g then None else Some g)"

lemma in_keys_of_thread: "k \<in> set (keys_of_thread ks tid s) \<longleftrightarrow> k \<in> set ks \<and> (\<exists>g. by_key s k = Some g) \<and> key_thread k = tid"
  by (auto simp: keys_of_thread_def in_map_keys)

lemma in_expired_keys:
  "k \<in> set (expired_keys ks clock s) \<longleftrightarrow> k \<in> set ks \<and> (\<exists>g. by_key s k = Some g \<and> gate_is_expired (clock g) g)"
  by (force simp: expired_keys_def in_map_entries)

lemma table_refines: "by_key (fst (gate_step st e)) = table_step (by_key (fst st)) e"
proof (cases st)
  case (Pair s p)
  show ?thesis
  proof (cases e)
    case (GInsert g)
    then show ?thesis
      by (cases p) (auto simp: Pair gate_insert_def insert_locked_def split: option.splits prod.splits)
  next
    case (GTake now k i ch)
    then show ?thesis
      by (auto simp: Pair take_verified_def take_locked_def split: option.splits)
  next
    case (GDiscard k)
    then show ?thesis
      by (cases p) (auto simp: Pair gate_discard_def discard_locked_def split: option.splits prod.splits)
  next
    case (GDiscardThread ks tid)
    have "fst (gate_step st e) = snd (forget_keys (keys_of_thread ks tid s) s)"
      by (simp add: Pair GDiscardThread discard_for_thread_def Let_def split: prod.splits)
    then show ?thesis
      by (auto simp: Pair GDiscardThread by_key_forget_keys in_keys_of_thread fun_eq_iff)
  next
    case (GExpire ks clock)
    then show ?thesis
      by (auto simp: Pair gate_expire_stale_def Let_def by_key_forget_keys in_expired_keys fun_eq_iff
          split: option.splits)
  qed
qed

interpretation gate_table: refinement gate_step table_step "\<lambda>st. by_key (fst st)" "disk_ok T" "happens_by T" for T
  by unfold_locales (rule disk_ok_step, assumption, assumption, rule table_refines)

lemma disk_ok_new: "disk_ok T (store_new, Some FileEmpty)"
  unfolding disk_ok_def
  by (intro exI [of _ FileEmpty] exI [of _ "[]"]) (simp add: read_state_def live_def file_map_def fun_eq_iff)

section \<open>Properties\<close>

text \<open>
  C3. Only the answer with the right request identifier, from the channel that asked or a trusted
  one, before the gate expires, resolves a gate; a wrong identifier or channel leaves the gate
  in place, and no attempt touches another gate.
\<close>

theorem take_verified_exact:
  "(fst (take_verified io now k i ch (s, p)) = Inr g) =
     (by_key s k = Some g \<and> pg_request_id g = i \<and>
      (ch = pg_source_channel g \<or> ch \<in> {''web'', ''gateway''}) \<and> now \<le> pg_expires_at g) \<and>
   by_key (fst (snd (take_verified io now k i ch (s, p)))) =
     (case by_key s k of
        None \<Rightarrow> by_key s
      | Some g \<Rightarrow>
          if pg_request_id g = i \<and> (ch = pg_source_channel g \<or> ch \<in> {''web'', ''gateway''})
          then (by_key s)(k := None) else by_key s)"
  by (auto simp: take_verified_def take_locked_def channel_authorized_def trusted_gate_channels_def
      gate_is_expired_def split: option.splits)

text \<open>
  C6. However the critical sections, the writes of the file and their failures interleave, a gate
  is resolved at most once while the process lives, a resolved gate waits no more, and the
  index by request identifier names exactly the waiting gates.
\<close>

theorem gate_resolved_once:
  assumes "gate_reach s"
  shows "distinct (resolved s) \<and>
    (by_request_id (inner s) i = Some k) = (\<exists>g. by_key (inner s) k = Some g \<and> pg_request_id g = i) \<and>
    (by_request_id (inner s) i = Some k \<longrightarrow> i \<notin> set (resolved s))"
  using gate_reach_ok [OF assms] by (auto simp: gate_system_ok_def index_ok_request)

definition sample_gate :: "unit pending_gate" where
  "sample_gate = \<lparr>pg_request_id = 5, pg_gate_name = ''approval'', pg_user_id = ''u'', pg_thread_id = 7,
     pg_scope_thread_id = None, pg_conversation_id = 1, pg_source_channel = ''telegram'',
     pg_action_name = ''shell'', pg_call_id = ''c'', pg_parameters = JObject [], pg_display_parameters = None,
     pg_description = [], pg_resume_kind = Approval True, pg_created_at = 0, pg_expires_at = 100,
     pg_original_message = None, pg_resume_output = None, pg_paused_lease = None,
     approval_already_granted = True\<rparr>"

theorem gate_resolved_once_witness:
  "distinct (resolved \<lparr>inner = forget (gate_key sample_gate) sample_gate (snd (insert_locked sample_gate store_new)),
     disk = FileEmpty, saving = [sample_gate], unsaving = [gate_key sample_gate], issued = {5}, resolved = [5]\<rparr>)"
proof -
  let ?s0 = "\<lparr>inner = store_new, disk = FileEmpty, saving = [], unsaving = [], issued = {}, resolved = []\<rparr>"
  let ?st = "snd (insert_locked sample_gate store_new)"
  have "insert_locked sample_gate (inner ?s0) = (Inr (), ?st)" by (simp add: insert_locked_def)
  from gate_inserts [OF gate_start _ this]
  have r1: "gate_reach (?s0\<lparr>inner := ?st, saving := [sample_gate], issued := {5}\<rparr>)"
    by (simp add: sample_gate_def)
  have "take_locked 50 (gate_key sample_gate) 5 ''telegram'' ?st =
      (Inr sample_gate, forget (gate_key sample_gate) sample_gate ?st)"
    by (simp add: take_locked_def insert_locked_def channel_authorized_def gate_is_expired_def)
      (simp add: sample_gate_def)
  with gate_takes [OF r1, of 50 "gate_key sample_gate" 5 "''telegram''"]
  have "gate_reach \<lparr>inner = forget (gate_key sample_gate) sample_gate ?st,
     disk = FileEmpty, saving = [sample_gate], unsaving = [gate_key sample_gate], issued = {5}, resolved = [5]\<rparr>"
    by simp
  from gate_resolved_once [OF this, of 5 "gate_key sample_gate"] show ?thesis by blast
qed

text \<open>
  C30. Run one after the other, the operations refine a table of one gate per user and thread, and
  a restart from the file gives back that table: every gate that has not expired, and no gate that
  was resolved or discarded. Four things of a gate change: an approval that was given is withdrawn, a
  null for its shown parameters or its output becomes none, and a paused lease for no action becomes
  one for all of them.
\<close>

theorem restart_restores_table:
  assumes "list_all (happens_by T) es"
  shows "let st = foldl gate_step (store_new, Some FileEmpty) es
    in by_key (fst st) = foldl table_step Map.empty es \<and>
       by_key (fst (snd (restore_from_persistence None (\<lambda>_. T) (store_new, snd st)))) =
         live T (foldl table_step Map.empty es)"
proof -
  let ?st = "foldl gate_step (store_new, Some FileEmpty) es"
  note run = gate_table.run_refines [OF disk_ok_new assms]
  have table: "by_key (fst ?st) = foldl table_step Map.empty es" using run by simp
  have "disk_ok T ?st" by (rule gate_disk.run_inv [OF disk_ok_new assms])
  then obtain f gs where f: "snd ?st = Some f" "read_state f = Inr (map reread gs)"
    and gs: "distinct (map gate_key gs)" "live T (file_map gs) = live T (by_key (fst ?st))"
    by (auto simp: disk_ok_def)
  have "by_key (fst (snd (restore_from_persistence None (\<lambda>_. T) (store_new, snd ?st)))) =
      by_key (snd (restore_loop (\<lambda>_. T) (map reread gs) store_new))"
    by (simp add: restore_from_persistence_def f file_load_def split: prod.splits)
  also have "\<dots> = live T (by_key (fst ?st))"
    by (simp add: restore_loop_by_key [OF gs(1)] gs(2) fun_eq_iff split: option.splits)
  finally show ?thesis by (simp add: Let_def table)
qed

theorem restart_restores_table_witness:
  "by_key (fst (snd (restore_from_persistence None (\<lambda>_. 60)
     (store_new, snd (gate_step (store_new, Some FileEmpty) (GInsert sample_gate)))))) (gate_key sample_gate) =
   Some (sample_gate\<lparr>approval_already_granted := False\<rparr>)"
proof -
  have "list_all (happens_by 60) [GInsert sample_gate]" by simp
  from restart_restores_table [OF this] show ?thesis
    by (simp add: Let_def live_def restored_is_reread) (simp add: sample_gate_def reread_def gate_is_expired_def)
qed

text \<open>
  C39. The file is written after the lock is released. When a gate is answered before its entry
  is saved, the removal runs before the save, and a restart brings the resolved gate back: the
  same answer resolves it a second time.
\<close>

theorem resolved_gate_comes_back:
  assumes "channel_authorized ch g" and "now \<le> pg_expires_at g"
  shows "let (r1, st1) = insert_locked g store_new;
             (r2, st2) = take_locked now (gate_key g) (pg_request_id g) ch st1;
             f = snd (file_save IoDone g (snd (file_remove IoDone (gate_key g) FileEmpty)));
             (n, st3, p) = restore_from_persistence None (\<lambda>_. now) (store_new, Some f)
    in r1 = Inr () \<and> r2 = Inr g \<and> by_key st2 (gate_key g) = None \<and>
       is_ok (fst (take_locked now (gate_key g) (pg_request_id g) ch st3))"
proof -
  have "channel_authorized ch ((reread g)\<lparr>approval_already_granted := False\<rparr>)"
    "pg_request_id ((reread g)\<lparr>approval_already_granted := False\<rparr>) = pg_request_id g"
    "gate_key ((reread g)\<lparr>approval_already_granted := False\<rparr>) = gate_key g"
    "\<not> gate_is_expired now ((reread g)\<lparr>approval_already_granted := False\<rparr>)"
    using assms by (simp_all add: reread_def channel_authorized_def gate_key_def gate_is_expired_def)
  with assms show ?thesis
    by (simp add: insert_locked_def take_locked_def file_save_def file_remove_def file_update_def read_state_def
        restore_from_persistence_def file_load_def gate_is_expired_def Let_def)
qed

theorem resolved_gate_comes_back_witness:
  "let (r1, st1) = insert_locked sample_gate store_new;
       (r2, st2) = take_locked 50 (gate_key sample_gate) 5 ''web'' st1;
       f = snd (file_save IoDone sample_gate (snd (file_remove IoDone (gate_key sample_gate) FileEmpty)));
       (n, st3, p) = restore_from_persistence None (\<lambda>_. 50) (store_new, Some f)
   in r2 = Inr sample_gate \<and> is_ok (fst (take_locked 50 (gate_key sample_gate) 5 ''web'' st3))"
proof -
  have "channel_authorized ''web'' sample_gate" "50 \<le> pg_expires_at sample_gate" "pg_request_id sample_gate = 5"
    by (simp_all add: sample_gate_def channel_authorized_def trusted_gate_channels_def)
  with resolved_gate_comes_back [of "''web''" sample_gate 50] show ?thesis
    by (simp add: case_prod_beta Let_def)
qed

end
