(* ===== verification/Retry.thy ===== *)
theory Retry
  imports CircuitBreaker
begin

text \<open>
  The retry decorator, \<open>src/llm/retry.rs\<close>: which errors are retried, how long it waits and the
  loop itself. A provider is a call on a world that holds whatever the outside keeps (the
  provider, the clock, the random numbers). The lemmas show that the loop ends, which attempt
  decides its result, and that the delays stay within their documented bounds until the
  arithmetic of the delay overflows.
\<close>

section \<open>Calls\<close>

text \<open>A call of a provider: its answer and the world after it.\<close>

type_synonym ('w, 'x, 'r) provider_call = "'w \<Rightarrow> ('x llm_error, 'r) result \<times> 'w"

fun is_retryable :: "'x llm_error \<Rightarrow> bool" where
  "is_retryable (RequestFailed _ _) = True"
| "is_retryable (RateLimited _ _) = True"
| "is_retryable (BadGateway _ _ _) = True"
| "is_retryable (InvalidResponse _ _) = True"
| "is_retryable (EmptyResponse _) = True"
| "is_retryable (SessionRenewalFailed _ _) = True"
| "is_retryable (Http _) = True"
| "is_retryable (Io _) = True"
| "is_retryable _ = False"

text \<open>What is worth a retry also counts for the breaker; only an expired session is the other way round.\<close>

lemma retryable_transient: "is_transient e \<longleftrightarrow> is_retryable e \<or> (\<exists>p. e = SessionExpired p)"
  by (cases e) auto

text \<open>An answer that ends a loop over attempts or providers.\<close>

fun final_answer :: "('x llm_error, 'r) result \<Rightarrow> bool" where
  "final_answer (Inr _) = True"
| "final_answer (Inl e) = (\<not> is_retryable e)"

section \<open>Delays\<close>

text \<open>
  \<open>retry_backoff_delay\<close> in milliseconds. The base saturates at 64 bits; the casts to \<open>i64\<close>
  and the sum are those of a release build, which wraps. \<open>offset\<close> is the random number drawn
  from 0 up to twice the jitter.
\<close>

definition backoff_base :: "32 word \<Rightarrow> nat" where
  "backoff_base attempt = min (2 ^ 64 - 1) (1000 * min (2 ^ 64 - 1) (2 ^ unat attempt))"

definition jitter_range :: "32 word \<Rightarrow> nat" where
  "jitter_range attempt = backoff_base attempt div 4"

definition backoff_delay_ms :: "32 word \<Rightarrow> nat \<Rightarrow> nat" where
  "backoff_delay_ms attempt offset =
     (let base = (of_nat (backoff_base attempt) :: 64 word);
          jitter = (if jitter_range attempt > 0
                    then of_nat offset - of_nat (jitter_range attempt) else 0)
      in nat (max 100 (sint (base + jitter))))"

definition max_retry_after :: duration where
  "max_retry_after = secs 3600"

definition cap_retry_after :: "duration \<Rightarrow> duration" where
  "cap_retry_after d = min d max_retry_after"

definition default_retry_after :: duration where
  "default_retry_after = secs 60"

text \<open>
  A \<open>Retry-After\<close> header: its text if it is one, the number of seconds if it parses as one,
  the seconds until the date if it parses as a date. The parsers are library functions.
\<close>

definition parse_retry_after_value ::
  "(string \<Rightarrow> nat option) \<Rightarrow> (string \<Rightarrow> utc option) \<Rightarrow> utc \<Rightarrow> string option \<Rightarrow> duration" where
  "parse_retry_after_value parse_u64 parse_date now header =
     (case header of
        None \<Rightarrow> default_retry_after
      | Some v \<Rightarrow>
          (case parse_u64 (trim v) of
             Some n \<Rightarrow> cap_retry_after (secs n)
           | None \<Rightarrow>
               (case parse_date (trim v) of
                  Some t \<Rightarrow> cap_retry_after (secs (nat ((t - now) div int (secs 1))))
                | None \<Rightarrow> default_retry_after)))"

definition parse_retry_after ::
  "(string \<Rightarrow> nat option) \<Rightarrow> (string \<Rightarrow> utc option) \<Rightarrow> utc \<Rightarrow> string option option \<Rightarrow> duration" where
  "parse_retry_after parse_u64 parse_date now header =
     (case header of
        None \<Rightarrow> default_retry_after
      | Some h \<Rightarrow> parse_retry_after_value parse_u64 parse_date now h)"

section \<open>Loop\<close>

record retry_config =
  max_retries :: "32 word"

definition default_retry_config :: retry_config where
  "default_retry_config = \<lparr>max_retries = 3\<rparr>"

text \<open>The world also draws random numbers up to a bound and sleeps.\<close>

record 'w retry_world =
  draw :: "nat \<Rightarrow> 'w \<Rightarrow> nat \<times> 'w"
  sleep :: "duration \<Rightarrow> 'w \<Rightarrow> 'w"

definition retry_delay :: "'w retry_world \<Rightarrow> 32 word \<Rightarrow> 'x llm_error \<Rightarrow> 'w \<Rightarrow> duration \<times> 'w" where
  "retry_delay R attempt err w =
     (case err of
        RateLimited _ (Some d) \<Rightarrow> (d, w)
      | BadGateway _ _ (Some d) \<Rightarrow> (d, w)
      | _ \<Rightarrow>
          if jitter_range attempt > 0
          then (case draw R (jitter_range attempt * 2) w of (k, w') \<Rightarrow> (backoff_delay_ms attempt k * 1000000, w'))
          else (backoff_delay_ms attempt 0 * 1000000, w))"

text \<open>The loop from an attempt on; \<open>last\<close> is the last error, \<open>model\<close> the name in the message.\<close>

function retry_from ::
  "'w retry_world \<Rightarrow> string \<Rightarrow> 32 word \<Rightarrow> ('w, 'x, 'r) provider_call \<Rightarrow> nat \<Rightarrow> 'x llm_error option
    \<Rightarrow> ('w, 'x, 'r) provider_call" where
  "retry_from R model limit op attempt last_error w =
     (if attempt > unat limit
      then (Inl (case last_error of Some e \<Rightarrow> e
                 | None \<Rightarrow> RequestFailed model ''retry loop exited unexpectedly''), w)
      else case op w of
          (Inr r, w1) \<Rightarrow> (Inr r, w1)
        | (Inl e, w1) \<Rightarrow>
            if \<not> is_retryable e \<or> attempt = unat limit then (Inl e, w1)
            else (case retry_delay R (of_nat attempt) e w1 of
                    (d, w2) \<Rightarrow> retry_from R model limit op (Suc attempt) (Some e) (sleep R d w2)))"
  by pat_completeness auto
termination
  by (relation "measure (\<lambda>(_, _, limit, _, attempt, _). Suc (unat limit) - attempt)") auto

declare retry_from.simps [simp del]

definition retry_call ::
  "'w retry_world \<Rightarrow> string \<Rightarrow> retry_config \<Rightarrow> ('w, 'x, 'r) provider_call \<Rightarrow> ('w, 'x, 'r) provider_call" where
  "retry_call R model cfg op = retry_from R model (max_retries cfg) op 0 None"

section \<open>Which attempt decides\<close>

text \<open>The answer of an attempt and the world the next one starts from, as if all were made.\<close>

definition next_world :: "'w retry_world \<Rightarrow> ('w, 'x, 'r) provider_call \<Rightarrow> nat \<Rightarrow> 'w \<Rightarrow> 'w" where
  "next_world R op attempt w =
     (case op w of
        (Inr _, w1) \<Rightarrow> w1
      | (Inl e, w1) \<Rightarrow> (case retry_delay R (of_nat attempt) e w1 of (d, w2) \<Rightarrow> sleep R d w2))"

fun attempt_world ::
  "'w retry_world \<Rightarrow> ('w, 'x, 'r) provider_call \<Rightarrow> nat \<Rightarrow> 'w \<Rightarrow> nat \<Rightarrow> 'w" where
  "attempt_world R op first w 0 = w"
| "attempt_world R op first w (Suc n) = next_world R op (first + n) (attempt_world R op first w n)"

lemma attempt_world_shift:
  "attempt_world R op (Suc first) (next_world R op first w) n = attempt_world R op first w (Suc n)"
  by (induction n) simp_all

lemma retry_from_decides:
  assumes "attempt \<le> unat limit"
  shows "\<exists>j \<le> unat limit - attempt.
    (\<forall>i < j. \<not> final_answer (fst (op (attempt_world R op attempt w i)))) \<and>
    retry_from R model limit op attempt le w = op (attempt_world R op attempt w j) \<and>
    (final_answer (fst (op (attempt_world R op attempt w j))) \<or> j = unat limit - attempt)"
  using assms
proof (induction R model limit op attempt le w rule: retry_from.induct)
  case (1 R model limit op attempt le w)
  show ?case
  proof (cases "final_answer (fst (op w)) \<or> attempt = unat limit")
    case True
    then have "retry_from R model limit op attempt le w = op w"
      using "1.prems" by (subst retry_from.simps) (auto split: prod.splits sum.splits)
    with True show ?thesis by (intro exI [of _ 0]) auto
  next
    case False
    then obtain e w1 where op: "op w = (Inl e, w1)" and e: "is_retryable e" "attempt \<noteq> unat limit"
      by (cases "op w"; cases "fst (op w)") auto
    obtain d w2 where d: "retry_delay R (of_nat attempt) e w1 = (d, w2)" by (cases "retry_delay R (of_nat attempt) e w1")
    let ?v = "next_world R op attempt w"
    have v: "?v = sleep R d w2" by (simp add: next_world_def op d)
    have step: "retry_from R model limit op attempt le w = retry_from R model limit op (Suc attempt) (Some e) ?v"
      using "1.prems" op e d by (subst retry_from.simps) (simp add: v)
    have lim: "Suc attempt \<le> unat limit" using "1.prems" e by simp
    have "\<exists>j \<le> unat limit - Suc attempt.
        (\<forall>i < j. \<not> final_answer (fst (op (attempt_world R op (Suc attempt) ?v i)))) \<and>
        retry_from R model limit op (Suc attempt) (Some e) ?v = op (attempt_world R op (Suc attempt) ?v j) \<and>
        (final_answer (fst (op (attempt_world R op (Suc attempt) ?v j))) \<or> j = unat limit - Suc attempt)"
      unfolding v by (rule "1.IH" [OF _ op [symmetric] refl _ d [symmetric]]) (use "1.prems" e lim in simp_all)
    then obtain j where j: "j \<le> unat limit - Suc attempt"
      "\<And>i. i < j \<Longrightarrow> \<not> final_answer (fst (op (attempt_world R op attempt w (Suc i))))"
      "retry_from R model limit op attempt le w = op (attempt_world R op attempt w (Suc j))"
      "final_answer (fst (op (attempt_world R op attempt w (Suc j)))) \<or> j = unat limit - Suc attempt"
      unfolding step [symmetric] attempt_world_shift by blast
    moreover have "\<not> final_answer (fst (op (attempt_world R op attempt w i)))" if "i < Suc j" for i
      using that j(2) False by (cases i) auto
    ultimately show ?thesis using lim by (intro exI [of _ "Suc j"]) auto
  qed
qed

section \<open>How many calls\<close>

text \<open>
  A measure of the world that each call raises by at most \<open>n\<close> and nothing else moves: how
  often something has been called.
\<close>

definition raises_by :: "('w \<Rightarrow> nat) \<Rightarrow> nat \<Rightarrow> ('w, 'x, 'r) provider_call \<Rightarrow> bool" where
  "raises_by count n op \<longleftrightarrow> (\<forall>w. count (snd (op w)) \<le> count w + n)"

definition quiet_world :: "('w \<Rightarrow> nat) \<Rightarrow> 'w retry_world \<Rightarrow> bool" where
  "quiet_world count R \<longleftrightarrow> (\<forall>w d hi. count (sleep R d w) = count w \<and> count (snd (draw R hi w)) = count w)"

lemma quiet_delay:
  assumes "quiet_world count R"
  shows "count (snd (retry_delay R a e w)) = count w"
proof -
  have "count (snd (draw R hi w)) = count w" for hi
    using assms by (simp add: quiet_world_def)
  then have "count (snd (case draw R hi w of (k, w') \<Rightarrow> (f k, w'))) = count w" for hi and f :: "nat \<Rightarrow> duration"
    by (simp add: case_prod_beta)
  then show ?thesis by (simp add: retry_delay_def split: llm_error.splits option.splits)
qed

lemma raises_by_next:
  assumes "raises_by count n op" and "quiet_world count R"
  shows "count (next_world R op a w) \<le> count w + n"
proof -
  have "count (snd (op w)) \<le> count w + n" using assms(1) by (simp add: raises_by_def)
  moreover have "count (next_world R op a w) = count (snd (op w))"
    using assms(2) by (simp add: next_world_def quiet_world_def case_prod_beta quiet_delay [OF assms(2)] split: sum.splits)
  ultimately show ?thesis by simp
qed

lemma raises_by_attempts:
  assumes "raises_by count n op" and "quiet_world count R"
  shows "count (attempt_world R op first w k) \<le> count w + k * n"
proof (induction k)
  case (Suc k)
  then show ?case
    using raises_by_next [OF assms, of "first + k" "attempt_world R op first w k"] by simp
qed simp

lemma retry_raises:
  assumes "raises_by count n op" and "quiet_world count R"
  shows "raises_by count (Suc (unat (max_retries cfg)) * n) (retry_call R model cfg op)"
  unfolding raises_by_def
proof
  fix w
  obtain j where j: "j \<le> unat (max_retries cfg)" "retry_call R model cfg op w = op (attempt_world R op 0 w j)"
    using retry_from_decides [of 0 "max_retries cfg" op R w model None] by (auto simp: retry_call_def)
  have "count (snd (op (attempt_world R op 0 w j))) \<le> count (attempt_world R op 0 w j) + n"
    using assms(1) by (simp add: raises_by_def)
  also have "\<dots> \<le> count w + j * n + n" using raises_by_attempts [OF assms] by simp
  also have "\<dots> \<le> count w + Suc (unat (max_retries cfg)) * n" using j(1) by simp
  finally show "count (snd (retry_call R model cfg op w)) \<le> count w + Suc (unat (max_retries cfg)) * n"
    using j(2) by simp
qed

section \<open>Bounds of the delay\<close>

lemma backoff_base_small: "unat attempt \<le> 52 \<Longrightarrow> backoff_base attempt = 1000 * 2 ^ unat attempt"
proof -
  assume "unat attempt \<le> 52"
  then have "(2::nat) ^ unat attempt \<le> 2 ^ 52" by (rule power_increasing) simp
  then show ?thesis by (simp add: backoff_base_def)
qed

lemma sint_sum_small:
  assumes "b + k < 2 ^ 63" and "j \<le> b"
  shows "sint (of_nat b + (of_nat k - of_nat j) :: 64 word) = int b + int k - int j"
proof -
  have word: "(of_nat b + (of_nat k - of_nat j) :: 64 word) = word_of_int (int b + int k - int j)"
    by simp
  have "- (2 ^ 63) \<le> int b + int k - int j" "int b + int k - int j < 2 ^ 63"
    using assms(2) of_nat_less_iff [where 'a = int, THEN iffD2, OF assms(1)] by simp_all
  then show ?thesis unfolding word sint_sbintrunc' by (simp add: signed_take_bit_int_eq_self)
qed

section \<open>Properties\<close>

text \<open>
  C37. The retry loop ends with the answer of one of its attempts: the first that succeeds or fails
  for good, or the last one allowed; every attempt before it failed in a way worth a retry, so
  the loop never ends with the error the code marks as unexpected.
\<close>

theorem retry_decides:
  "\<exists>j. j \<le> unat (max_retries cfg) \<and>
     list_all (\<lambda>i. \<not> final_answer (fst (op (attempt_world R op 0 w i)))) [0..<j] \<and>
     retry_call R model cfg op w = op (attempt_world R op 0 w j) \<and>
     (final_answer (fst (op (attempt_world R op 0 w j))) \<or> j = unat (max_retries cfg))"
  using retry_from_decides [of 0 "max_retries cfg" op R w model None]
  by (auto simp: retry_call_def list_all_iff)

text \<open>
  The delay before the next attempt is the doubled base within a quarter of it for every
  attempt up to 52, whatever the random number; at attempt 53 the sum leaves the signed range and
  the longest delay becomes the shortest.
\<close>

theorem backoff_within_quarter:
  assumes "unat attempt \<le> 52" and "k \<le> 2 * jitter_range attempt"
  shows "750 * 2 ^ unat attempt \<le> backoff_delay_ms attempt k \<and> backoff_delay_ms attempt k \<le> 1250 * 2 ^ unat attempt \<and>
    backoff_delay_ms 53 (2 * jitter_range 53) = 100"
proof -
  let ?p = "2 ^ unat attempt :: nat"
  have p: "?p \<le> 2 ^ 52" using assms(1) by (rule power_increasing) simp
  have base: "backoff_base attempt = 1000 * ?p" using assms(1) by (rule backoff_base_small)
  then have j: "jitter_range attempt = 250 * ?p" by (simp add: jitter_range_def)
  have "sint (of_nat (1000 * ?p) + (of_nat k - of_nat (250 * ?p)) :: 64 word) = int (1000 * ?p) + int k - int (250 * ?p)"
    by (rule sint_sum_small) (use p assms(2) j in simp_all)
  then have delay: "backoff_delay_ms attempt k = nat (max 100 (int (1000 * ?p) + int k - int (250 * ?p)))"
    unfolding backoff_delay_ms_def Let_def base j by simp
  have "(1 :: int) \<le> 2 ^ unat attempt" by simp
  then have "(100 :: int) \<le> 750 * 2 ^ unat attempt + int k" by linarith
  then have "backoff_delay_ms attempt k = 750 * ?p + k"
    unfolding delay by (simp add: nat_eq_iff max_def)
  moreover have "backoff_delay_ms 53 (2 * jitter_range 53) = 100"
    by (simp add: backoff_delay_ms_def jitter_range_def backoff_base_def)
  ultimately show ?thesis using assms(2) j by simp
qed

theorem backoff_within_quarter_witness:
  "3000 \<le> backoff_delay_ms 2 0 \<and> backoff_delay_ms 2 0 \<le> 5000"
  using backoff_within_quarter [of 2 0] by simp

text \<open>A header never makes the loop wait longer than an hour.\<close>

lemma parsed_retry_after_capped:
  "parse_retry_after parse_u64 parse_date now header \<le> max_retry_after"
  by (auto simp: parse_retry_after_def parse_retry_after_value_def cap_retry_after_def default_retry_after_def
      max_retry_after_def split: option.splits)

end
