(* ===== verification/Failover.thy ===== *)
theory Failover
  imports Retry "HOL-Library.List_Lexorder" "HOL-Library.Char_ord"
begin

text \<open>
  Failover between providers, \<open>src/llm/failover.rs\<close>: the cooldown of a provider, the choice of
  the providers a request may try and the loop over them. The counters are the atomics of the
  source at their width; a request is modelled from its start to its end. The lemmas show which
  providers a request calls, whose answer it returns and how long a failing provider is skipped.
\<close>

section \<open>Cooldowns\<close>

record cooldown_config =
  cooldown_duration :: duration
  cooldown_threshold :: "32 word"

definition default_cooldown_config :: cooldown_config where
  "default_cooldown_config = \<lparr>cooldown_duration = secs 300, cooldown_threshold = 3\<rparr>"

text \<open>Nanoseconds since the epoch of the failover provider; 0 is not in cooldown.\<close>

record cooldown =
  failure_count :: "32 word"
  activated_nanos :: "64 word"

definition cooldown_new :: cooldown where
  "cooldown_new = \<lparr>failure_count = 0, activated_nanos = 0\<rparr>"

definition is_in_cooldown :: "64 word \<Rightarrow> 64 word \<Rightarrow> cooldown \<Rightarrow> bool" where
  "is_in_cooldown now limit c \<longleftrightarrow>
     activated_nanos c \<noteq> 0 \<and> unat now - unat (activated_nanos c) < unat limit"

definition record_cooldown_failure :: "32 word \<Rightarrow> cooldown \<Rightarrow> bool \<times> cooldown" where
  "record_cooldown_failure threshold c =
     (failure_count c + 1 \<ge> threshold, c\<lparr>failure_count := failure_count c + 1\<rparr>)"

definition activate_cooldown :: "64 word \<Rightarrow> cooldown \<Rightarrow> cooldown" where
  "activate_cooldown now c = c\<lparr>activated_nanos := max now 1\<rparr>"

definition cooldown_reset :: "cooldown \<Rightarrow> cooldown" where
  "cooldown_reset c = c\<lparr>failure_count := 0, activated_nanos := 0\<rparr>"

section \<open>Failover provider\<close>

text \<open>The wrapped providers stay in the code's order; tasks are named by identifiers.\<close>

record failover =
  last_used :: nat
  cooldowns :: "cooldown list"
  provider_for_task :: "uuid \<rightharpoonup> nat"

definition with_cooldown :: "nat \<Rightarrow> ('x llm_error, failover) result" where
  "with_cooldown n =
     (if n = 0 then Inl (RequestFailed ''failover'' ''FailoverProvider requires at least one provider'')
      else Inr \<lparr>last_used = 0, cooldowns = replicate n cooldown_new, provider_for_task = Map.empty\<rparr>)"

definition available_providers :: "64 word \<Rightarrow> 64 word \<Rightarrow> cooldown list \<Rightarrow> nat list" where
  "available_providers now limit cs = filter (\<lambda>i. \<not> is_in_cooldown now limit (cs ! i)) [0..<length cs]"

definition candidates :: "64 word \<Rightarrow> 64 word \<Rightarrow> cooldown list \<Rightarrow> nat list option" where
  "candidates now limit cs =
     (let available = available_providers now limit cs
      in if available \<noteq> [] then Some available
         else map_option (\<lambda>i. [i]) (min_by_key (\<lambda>i. activated_nanos (cs ! i)) [0..<length cs]))"

text \<open>
  The loop over the candidates. \<open>now\<close> reads the clock of the world in nanoseconds since the
  epoch; an index always names a provider.
\<close>

fun try_loop ::
  "cooldown_config \<Rightarrow> ('w \<Rightarrow> 64 word) \<Rightarrow> ('w, 'x, 'r) provider_call list \<Rightarrow> nat list \<Rightarrow> 'x llm_error option
    \<Rightarrow> failover \<times> 'w \<Rightarrow> ('x llm_error, nat \<times> 'r) result \<times> failover \<times> 'w" where
  "try_loop cfg now ps [] last_error (f, w) =
     (Inl (case last_error of Some e \<Rightarrow> e
       | None \<Rightarrow> RequestFailed ''failover'' (''Invariant violated in FailoverProvider: providers were exhausted ''
           @ ''but no last_error was recorded (this branch should be unreachable; possible causes: ''
           @ ''no provider attempts were made or `available` was unexpectedly empty).'')), f, w)"
| "try_loop cfg now ps (i # is) last_error (f, w) =
     (case (ps ! i) w of
        (Inr r, w1) \<Rightarrow>
          (Inr (i, r), f\<lparr>last_used := i, cooldowns := (cooldowns f)[i := cooldown_reset (cooldowns f ! i)]\<rparr>, w1)
      | (Inl e, w1) \<Rightarrow>
          if \<not> is_retryable e then (Inl e, f, w1)
          else
            let (hit, c) = record_cooldown_failure (cooldown_threshold cfg) (cooldowns f ! i);
                c' = (if hit then activate_cooldown (now w1) c else c)
            in try_loop cfg now ps is (Some e) (f\<lparr>cooldowns := (cooldowns f)[i := c']\<rparr>, w1))"

text \<open>The truncating cast of the cooldown to 64 bits.\<close>

definition try_providers ::
  "cooldown_config \<Rightarrow> ('w \<Rightarrow> 64 word) \<Rightarrow> ('w, 'x, 'r) provider_call list
    \<Rightarrow> failover \<times> 'w \<Rightarrow> ('x llm_error, nat \<times> 'r) result \<times> failover \<times> 'w" where
  "try_providers cfg now ps = (\<lambda>(f, w).
     case candidates (now w) (of_nat (cooldown_duration cfg)) (cooldowns f) of
       None \<Rightarrow> (Inl (RequestFailed ''failover'' ''FailoverProvider requires at least one provider''), f, w)
     | Some is \<Rightarrow> try_loop cfg now ps is None (f, w))"

definition bind_provider_to_current_task :: "uuid option \<Rightarrow> nat \<Rightarrow> failover \<Rightarrow> failover" where
  "bind_provider_to_current_task task i f =
     (case task of None \<Rightarrow> f | Some t \<Rightarrow> f\<lparr>provider_for_task := (provider_for_task f)(t \<mapsto> i)\<rparr>)"

definition take_bound_provider_for_current_task :: "uuid option \<Rightarrow> failover \<Rightarrow> nat option \<times> failover" where
  "take_bound_provider_for_current_task task f =
     (case task of
        None \<Rightarrow> (None, f)
      | Some t \<Rightarrow> (provider_for_task f t, f\<lparr>provider_for_task := (provider_for_task f)(t := None)\<rparr>))"

text \<open>\<open>complete\<close> and \<open>complete_with_tools\<close> differ only in the method of the providers they call.\<close>

definition failover_complete ::
  "cooldown_config \<Rightarrow> ('w \<Rightarrow> 64 word) \<Rightarrow> ('w, 'x, 'r) provider_call list \<Rightarrow> uuid option
    \<Rightarrow> failover \<times> 'w \<Rightarrow> ('x llm_error, 'r) result \<times> failover \<times> 'w" where
  "failover_complete cfg now ps task st =
     (case try_providers cfg now ps st of
        (Inl e, f, w) \<Rightarrow> (Inl e, f, w)
      | (Inr (i, r), f, w) \<Rightarrow> (Inr r, bind_provider_to_current_task task i f, w))"

definition failover_effective_model_name ::
  "(string option \<Rightarrow> string) list \<Rightarrow> uuid option \<Rightarrow> string option \<Rightarrow> failover \<Rightarrow> string \<times> failover" where
  "failover_effective_model_name names task requested f =
     (case take_bound_provider_for_current_task task f of
        (Some i, f1) \<Rightarrow> ((names ! i) requested, f1)
      | (None, f1) \<Rightarrow> ((names ! last_used f1) requested, f1))"

definition failover_list_models ::
  "('x llm_error, string list) result list \<Rightarrow> string list" where
  "failover_list_models answers =
     remdups_adj (sort (concat (map (case_sum (\<lambda>_. []) (\<lambda>ms. ms)) answers)))"

fun failover_set_model :: "('w, 'x, unit) provider_call list \<Rightarrow> ('w, 'x, unit) provider_call" where
  "failover_set_model [] w = (Inr (), w)"
| "failover_set_model (p # ps) w =
     (case p w of (Inl e, w1) \<Rightarrow> (Inl e, w1) | (Inr _, w1) \<Rightarrow> failover_set_model ps w1)"

section \<open>Choosing the candidates\<close>

lemma candidates_Some:
  assumes "cs \<noteq> []"
  shows "\<exists>is. candidates now limit cs = Some is \<and> is \<noteq> [] \<and> set is \<subseteq> {..<length cs} \<and> distinct is \<and>
    ((\<exists>i < length cs. \<not> is_in_cooldown now limit (cs ! i)) \<longrightarrow>
      is = available_providers now limit cs)"
proof (cases "available_providers now limit cs = []")
  case True
  obtain i where i: "min_by_key (\<lambda>i. activated_nanos (cs ! i)) [0..<length cs] = Some i"
    using min_by_key_Some [of "[0..<length cs]"] assms by auto
  then have "i < length cs" using min_by_key_least by fastforce
  moreover have "\<forall>j < length cs. is_in_cooldown now limit (cs ! j)"
    using True by (auto simp: available_providers_def filter_empty_conv)
  ultimately show ?thesis using i True by (auto simp: candidates_def)
next
  case False
  then show ?thesis by (auto simp: candidates_def Let_def) (auto simp: available_providers_def)
qed

section \<open>Whose answer\<close>

text \<open>What a retryable failure at a time leaves of a cooldown, and of a request that goes on.\<close>

definition cool :: "32 word \<Rightarrow> cooldown \<Rightarrow> 64 word \<Rightarrow> cooldown" where
  "cool threshold c t =
     (case record_cooldown_failure threshold c of (hit, c') \<Rightarrow> if hit then activate_cooldown t c' else c')"

definition after_failure ::
  "cooldown_config \<Rightarrow> ('w \<Rightarrow> 64 word) \<Rightarrow> ('w, 'x, 'r) provider_call list \<Rightarrow> nat \<Rightarrow> failover \<times> 'w \<Rightarrow> failover \<times> 'w" where
  "after_failure cfg now ps i = (\<lambda>(f, w).
     let w1 = snd ((ps ! i) w)
     in (f\<lparr>cooldowns := (cooldowns f)[i := cool (cooldown_threshold cfg) (cooldowns f ! i) (now w1)]\<rparr>, w1))"

definition after_success :: "nat \<Rightarrow> failover \<Rightarrow> failover" where
  "after_success i f = f\<lparr>last_used := i, cooldowns := (cooldowns f)[i := cooldown_reset (cooldowns f ! i)]\<rparr>"

fun after_failures ::
  "cooldown_config \<Rightarrow> ('w \<Rightarrow> 64 word) \<Rightarrow> ('w, 'x, 'r) provider_call list \<Rightarrow> nat list \<Rightarrow> failover \<times> 'w \<Rightarrow> failover \<times> 'w" where
  "after_failures cfg now ps [] st = st"
| "after_failures cfg now ps (i # is) st = after_failures cfg now ps is (after_failure cfg now ps i st)"

definition answer_of :: "('w, 'x, 'r) provider_call list \<Rightarrow> nat \<Rightarrow> failover \<times> 'w \<Rightarrow> ('x llm_error, nat \<times> 'r) result" where
  "answer_of ps i st = (case fst ((ps ! i) (snd st)) of Inl e \<Rightarrow> Inl e | Inr r \<Rightarrow> Inr (i, r))"

lemma try_loop_final:
  assumes "final_answer (fst ((ps ! i) w))"
  shows "try_loop cfg now ps (i # is) le (f, w) =
    (answer_of ps i (f, w), (case fst ((ps ! i) w) of Inl e \<Rightarrow> f | Inr r \<Rightarrow> after_success i f), snd ((ps ! i) w))"
  using assms
  by (cases "(ps ! i) w"; cases "fst ((ps ! i) w)") (auto simp: answer_of_def after_success_def)

lemma try_loop_goes_on:
  assumes "\<not> final_answer (fst ((ps ! i) w))"
  shows "\<exists>e. fst ((ps ! i) w) = Inl e \<and>
    try_loop cfg now ps (i # is) le (f, w) = try_loop cfg now ps is (Some e) (after_failure cfg now ps i (f, w))"
  using assms
  by (cases "(ps ! i) w"; cases "fst ((ps ! i) w)") (auto simp: after_failure_def cool_def Let_def case_prod_beta)

lemma try_loop_decides:
  assumes "is \<noteq> []"
  shows "\<exists>j. j < length is \<and>
    list_all (\<lambda>k. \<not> final_answer (fst ((ps ! (is ! k)) (snd (after_failures cfg now ps (take k is) st))))) [0..<j] \<and>
    fst (try_loop cfg now ps is le st) = answer_of ps (is ! j) (after_failures cfg now ps (take j is) st) \<and>
    (final_answer (fst ((ps ! (is ! j)) (snd (after_failures cfg now ps (take j is) st)))) \<or> Suc j = length is)"
  using assms
proof (induction "is" arbitrary: le st)
  case (Cons i ks)
  obtain f w where st: "st = (f, w)" by (cases st)
  show ?case
  proof (cases "final_answer (fst ((ps ! i) w))")
    case True
    then show ?thesis using st try_loop_final [OF True, of cfg now ks le f] by (intro exI [of _ 0]) simp
  next
    case False
    let ?st = "after_failure cfg now ps i st"
    obtain e where e: "fst ((ps ! i) w) = Inl e" and
      on: "try_loop cfg now ps (i # ks) le st = try_loop cfg now ps ks (Some e) ?st"
      using try_loop_goes_on [OF False, of cfg now ks le f] st by blast
    show ?thesis
    proof (cases "ks = []")
      case True
      then show ?thesis using e on st by (intro exI [of _ 0]) (simp add: answer_of_def after_failure_def Let_def)
    next
      case ks: False
      obtain j where j: "j < length ks"
        "list_all (\<lambda>k. \<not> final_answer (fst ((ps ! (ks ! k)) (snd (after_failures cfg now ps (take k ks) ?st))))) [0..<j]"
        "fst (try_loop cfg now ps ks (Some e) ?st) = answer_of ps (ks ! j) (after_failures cfg now ps (take j ks) ?st)"
        "final_answer (fst ((ps ! (ks ! j)) (snd (after_failures cfg now ps (take j ks) ?st)))) \<or> Suc j = length ks"
        using Cons.IH [OF ks, of ?st "Some e"] by blast
      have "\<not> final_answer (fst ((ps ! ((i # ks) ! k)) (snd (after_failures cfg now ps (take k (i # ks)) st))))"
        if "k < Suc j" for k
        using that j(2) False st by (cases k) (auto simp: list_all_iff)
      then show ?thesis using j on by (intro exI [of _ "Suc j"]) (auto simp: list_all_iff)
    qed
  qed
qed simp

section \<open>How many calls\<close>

lemma try_loop_raises:
  assumes "\<forall>i \<in> set is. raises_by count (k i) (ps ! i)"
  shows "count (snd (snd (try_loop cfg now ps is le (f, w)))) \<le> count w + sum_list (map k is)"
  using assms
proof (induction "is" arbitrary: le f w)
  case (Cons i ks)
  have one: "count (snd ((ps ! i) w)) \<le> count w + k i" using Cons.prems by (simp add: raises_by_def)
  show ?case
  proof (cases "final_answer (fst ((ps ! i) w))")
    case True
    then show ?thesis using one by (simp only: try_loop_final [OF True] snd_conv list.map sum_list.Cons)
  next
    case False
    obtain e where on: "try_loop cfg now ps (i # ks) le (f, w) =
        try_loop cfg now ps ks (Some e) (after_failure cfg now ps i (f, w))"
      using try_loop_goes_on [OF False, of cfg now ks le f] by blast
    obtain f' where f': "after_failure cfg now ps i (f, w) = (f', snd ((ps ! i) w))"
      by (simp add: after_failure_def Let_def)
    have "count (snd (snd (try_loop cfg now ps ks (Some e) (f', snd ((ps ! i) w))))) \<le> count (snd ((ps ! i) w)) + sum_list (map k ks)"
      by (rule Cons.IH) (use Cons.prems in simp)
    with one show ?thesis unfolding on f' by simp
  qed
qed simp

lemma try_loop_cooldowns:
  "length (cooldowns (fst (snd (try_loop cfg now ps is le (f, w))))) = length (cooldowns f)"
  by (induction "is" arbitrary: le f w) (simp_all add: Let_def case_prod_beta split: sum.split)

section \<open>One cooldown\<close>

lemma cool_fields:
  "failure_count (cool th c t) = failure_count c + 1"
  "activated_nanos (cool th c t) = (if failure_count c + 1 \<ge> th then max t 1 else activated_nanos c)"
  by (simp_all add: cool_def record_cooldown_failure_def activate_cooldown_def)

lemma cool_count: "failure_count (foldl (cool th) c ts) = failure_count c + of_nat (length ts)"
  by (induction ts arbitrary: c) (simp_all add: cool_fields add.assoc)

lemma cool_below:
  assumes "unat (failure_count c) + length ts < unat th"
  shows "activated_nanos (foldl (cool th) c ts) = activated_nanos c"
  using assms
proof (induction ts rule: rev_induct)
  case (snoc t ts)
  have "length ts + unat (failure_count c) + 1 < 2 ^ 32"
    using snoc.prems unsigned_less [where 'a = nat and 'b = 32, of th] by simp
  then have "unat (failure_count (foldl (cool th) c ts) + 1) = unat (failure_count c) + length ts + 1"
    unfolding cool_count by (simp add: unat_word_ariths unat_of_nat take_bit_nat_eq_self)
  then have "\<not> th \<le> failure_count (foldl (cool th) c ts) + 1"
    using snoc.prems by (simp add: word_le_nat_alt)
  then show ?case using snoc by (simp add: cool_fields)
qed simp

lemma cool_above:
  assumes "unat th \<le> unat (failure_count c) + length ts" and "unat (failure_count c) + length ts < 2 ^ 32" and "ts \<noteq> []"
  shows "activated_nanos (foldl (cool th) c ts) = max (last ts) 1"
proof -
  obtain us t where ts: "ts = us @ [t]" using assms(3) by (cases ts rule: rev_cases) auto
  have "unat (failure_count (foldl (cool th) c us) + 1) = unat (failure_count c) + length us + 1"
    using assms(2) unfolding cool_count ts by (simp add: unat_word_ariths unat_of_nat take_bit_nat_eq_self)
  then have "th \<le> failure_count (foldl (cool th) c us) + 1"
    using assms(1) ts by (simp add: word_le_nat_alt)
  then show ?thesis by (simp add: ts cool_fields)
qed

section \<open>Properties\<close>

lemma candidates_length:
  assumes "candidates now limit cs = Some is"
  shows "length is \<le> max 1 (length cs)"
proof -
  have "length (available_providers now limit cs) \<le> length cs"
    unfolding available_providers_def using length_filter_le [of _ "[0..<length cs]"] by simp
  with assms show ?thesis by (auto simp: candidates_def Let_def split: if_splits)
qed

text \<open>
  C31. A request to a failover provider: when some provider is not in cooldown it tries, in order,
  exactly those that are not, otherwise the one whose cooldown started first. Its result is the
  answer of one of them: the first that succeeds or fails for good, or the last one; every one
  before it failed in a way worth a retry.
\<close>

theorem failover_decides:
  assumes "cooldowns f \<noteq> []"
  shows "\<exists>is j. candidates (now w) (of_nat (cooldown_duration cfg)) (cooldowns f) = Some is \<and> j < length is \<and>
    (if list_ex (\<lambda>c. \<not> is_in_cooldown (now w) (of_nat (cooldown_duration cfg)) c) (cooldowns f)
     then is = filter (\<lambda>i. \<not> is_in_cooldown (now w) (of_nat (cooldown_duration cfg)) (cooldowns f ! i)) [0..<length (cooldowns f)]
     else \<exists>i. is = [i] \<and> i < length (cooldowns f) \<and>
       list_all (\<lambda>c. activated_nanos (cooldowns f ! i) \<le> activated_nanos c) (cooldowns f)) \<and>
    list_all (\<lambda>k. \<not> final_answer (fst ((ps ! (is ! k)) (snd (after_failures cfg now ps (take k is) (f, w)))))) [0..<j] \<and>
    fst (try_providers cfg now ps (f, w)) = answer_of ps (is ! j) (after_failures cfg now ps (take j is) (f, w)) \<and>
    (final_answer (fst ((ps ! (is ! j)) (snd (after_failures cfg now ps (take j is) (f, w))))) \<or> Suc j = length is)"
proof -
  let ?t = "now w" and ?d = "of_nat (cooldown_duration cfg)" and ?cs = "cooldowns f"
  obtain "is" where cand: "candidates ?t ?d ?cs = Some is" "is \<noteq> []"
    "(\<exists>i < length ?cs. \<not> is_in_cooldown ?t ?d (?cs ! i)) \<longrightarrow> is = available_providers ?t ?d ?cs"
    using candidates_Some [OF assms, of ?t ?d] by blast
  have choice: "if list_ex (\<lambda>c. \<not> is_in_cooldown ?t ?d c) ?cs
     then is = filter (\<lambda>i. \<not> is_in_cooldown ?t ?d (?cs ! i)) [0..<length ?cs]
     else \<exists>i. is = [i] \<and> i < length ?cs \<and> list_all (\<lambda>c. activated_nanos (?cs ! i) \<le> activated_nanos c) ?cs"
  proof (cases "list_ex (\<lambda>c. \<not> is_in_cooldown ?t ?d c) ?cs")
    case True
    then have "\<exists>i < length ?cs. \<not> is_in_cooldown ?t ?d (?cs ! i)" by (simp add: list_ex_length)
    with cand(3) True show ?thesis by (simp add: available_providers_def)
  next
    case False
    then have none: "available_providers ?t ?d ?cs = []"
      by (auto simp: available_providers_def filter_empty_conv list_ex_length)
    obtain i where i: "min_by_key (\<lambda>i. activated_nanos (?cs ! i)) [0..<length ?cs] = Some i" and "is = [i]"
      using cand(1) none by (auto simp: candidates_def)
    with min_by_key_least [OF i] False show ?thesis by (auto simp: list_all_length)
  qed
  have run: "try_providers cfg now ps (f, w) = try_loop cfg now ps is None (f, w)"
    by (simp add: try_providers_def cand(1))
  obtain j where j: "j < length is \<and>
    list_all (\<lambda>k. \<not> final_answer (fst ((ps ! (is ! k)) (snd (after_failures cfg now ps (take k is) (f, w)))))) [0..<j] \<and>
    fst (try_loop cfg now ps is None (f, w)) = answer_of ps (is ! j) (after_failures cfg now ps (take j is) (f, w)) \<and>
    (final_answer (fst ((ps ! (is ! j)) (snd (after_failures cfg now ps (take j is) (f, w))))) \<or> Suc j = length is)"
    using try_loop_decides [OF cand(2)] by blast
  show ?thesis
    unfolding run by (rule exI [of _ "is"], rule exI [of _ j]) (use cand(1) choice j in blast)
qed

theorem failover_decides_witness:
  "\<exists>is j. candidates 5 10 [cooldown_new] = Some is \<and> j < length is"
  using failover_decides [of "\<lparr>last_used = 0, cooldowns = [cooldown_new], provider_for_task = Map.empty\<rparr>"
      "\<lambda>_. 5" "()" "\<lparr>cooldown_duration = 10, cooldown_threshold = 3\<rparr>" "[\<lambda>w. (Inr (), w)] :: (unit, unit, unit) provider_call list"]
  by auto

text \<open>
  A provider that fails in a way worth a retry is skipped once its consecutive failures reach
  the threshold, for exactly the cooldown from its latest failure; below the threshold it never
  is. A cooldown that has passed does not clear the count, so the next single failure starts
  another one.
\<close>

theorem cooldown_exact:
  assumes "length ts + length us < 2 ^ 32" and "length ts = max 1 (unat threshold)" and "k < length ts"
  shows "is_in_cooldown now limit (foldl (cool threshold) cooldown_new (take k ts)) = False \<and>
    is_in_cooldown now limit (foldl (cool threshold) cooldown_new (ts @ us)) =
      (unat now - unat (max (last (ts @ us)) 1) < unat limit) \<and>
    is_in_cooldown now limit (cooldown_reset (foldl (cool threshold) cooldown_new (ts @ us))) = False"
proof (intro conjI)
  have "unat threshold \<noteq> 0 \<or> k = 0" using assms(2,3) by (auto simp: max_def split: if_splits)
  then have "activated_nanos (foldl (cool threshold) cooldown_new (take k ts)) = 0"
  proof
    assume "unat threshold \<noteq> 0"
    then have "unat (failure_count cooldown_new) + length (take k ts) < unat threshold"
      using assms(2,3) by (simp add: cooldown_new_def max_def split: if_splits)
    from cool_below [OF this] show ?thesis by (simp add: cooldown_new_def)
  qed (simp add: cooldown_new_def)
  then show "is_in_cooldown now limit (foldl (cool threshold) cooldown_new (take k ts)) = False"
    by (simp add: is_in_cooldown_def)
  have ne: "ts @ us \<noteq> []" using assms(3) by auto
  have "activated_nanos (foldl (cool threshold) cooldown_new (ts @ us)) = max (last (ts @ us)) 1"
    by (rule cool_above) (use assms ne in \<open>simp_all add: cooldown_new_def\<close>)
  moreover have "max x 1 \<noteq> 0" for x :: "64 word"
    by (cases "x = 0") (auto simp: max_def)
  ultimately show "is_in_cooldown now limit (foldl (cool threshold) cooldown_new (ts @ us)) =
      (unat now - unat (max (last (ts @ us)) 1) < unat limit)"
    by (simp only: is_in_cooldown_def) blast
  show "is_in_cooldown now limit (cooldown_reset (foldl (cool threshold) cooldown_new (ts @ us))) = False"
    by (simp add: is_in_cooldown_def cooldown_reset_def)
qed

theorem cooldown_exact_witness:
  "is_in_cooldown 12 5 (foldl (cool 3) cooldown_new [7, 8, 9]) \<and>
   is_in_cooldown 14 5 (foldl (cool 3) cooldown_new [7, 8, 9]) = False"
  using cooldown_exact [of "[7, 8, 9]" "[]" 3 0 12 5] cooldown_exact [of "[7, 8, 9]" "[]" 3 0 14 5]
  by (simp add: max_def word_le_nat_alt)

end
