(* ===== verification/ResponseCache.thy ===== *)
theory ResponseCache
  imports Failover
begin

text \<open>
  The response cache, \<open>src/llm/response_cache.rs\<close>. A request is two critical sections, the
  lookup and the store, with the wrapped provider's answer in between, so requests overlap. The
  lemmas show that the cache stays within its capacity and never answers with anything but a
  recent answer to the same key in every interleaving, that it is transparent for a provider
  whose answer depends on the key only, and what the key tells apart.
\<close>

section \<open>Keys\<close>

text \<open>
  \<open>'m\<close> stands for the messages. A temperature is its 32-bit pattern, a string the bytes of its
  UTF-8 text.
\<close>

record 'm completion_request =
  request_messages :: 'm
  request_model :: "string option"
  request_max_tokens :: "32 word option"
  request_temperature :: "32 word option"
  request_stop_sequences :: "string list option"
  request_metadata :: "string \<rightharpoonup> string"

definition completion_request_new :: "'m \<Rightarrow> 'm completion_request" where
  "completion_request_new ms = \<lparr>request_messages = ms, request_model = None, request_max_tokens = None,
     request_temperature = None, request_stop_sequences = None, request_metadata = Map.empty\<rparr>"

definition to_le_bytes :: "32 word \<Rightarrow> string" where
  "to_le_bytes n = map (\<lambda>i. char_of (unat n div 256 ^ i)) [0..<4]"

text \<open>What is hashed; \<open>json\<close> writes the messages, if it can.\<close>

definition key_preimage :: "('m \<Rightarrow> string option) \<Rightarrow> string \<Rightarrow> 'm completion_request \<Rightarrow> string" where
  "key_preimage json model r =
     model @ ''|'' @ (case json (request_messages r) of Some s \<Rightarrow> s | None \<Rightarrow> []) @
     ''|'' @ (case request_max_tokens r of Some n \<Rightarrow> to_le_bytes n | None \<Rightarrow> []) @
     ''|'' @ (case request_temperature r of Some t \<Rightarrow> to_le_bytes t | None \<Rightarrow> []) @
     ''|'' @ (case request_stop_sequences r of Some ss \<Rightarrow> concat (map (\<lambda>s. s @ [CHR 0x00]) ss) | None \<Rightarrow> [])"

definition cache_key :: "(string \<Rightarrow> string) \<Rightarrow> ('m \<Rightarrow> string option) \<Rightarrow> string \<Rightarrow> 'm completion_request \<Rightarrow> string" where
  "cache_key sha json model r = sha (key_preimage json model r)"

section \<open>State and operations\<close>

record cache_config =
  ttl :: duration
  max_entries :: nat

definition default_cache_config :: cache_config where
  "default_cache_config = \<lparr>ttl = secs 3600, max_entries = 1000\<rparr>"

record 'r cache_entry =
  entry_response :: 'r
  entry_created_at :: instant
  entry_last_accessed :: instant
  hit_count :: "64 word"

record 'r response_cache =
  cached :: "string \<rightharpoonup> 'r cache_entry"
  request_count :: "64 word"
  total_hit_count :: "64 word"

definition cache_new :: "'r response_cache" where
  "cache_new = \<lparr>cached = Map.empty, request_count = 0, total_hit_count = 0\<rparr>"

definition cache_len :: "'r response_cache \<Rightarrow> nat" where
  "cache_len c = card (dom (cached c))"

definition cache_clear :: "'r response_cache \<Rightarrow> 'r response_cache" where
  "cache_clear c = c\<lparr>cached := Map.empty\<rparr>"

text \<open>\<open>maybe_log_stats\<close> writes a line of statistics for these requests.\<close>

definition logs_stats :: "64 word \<Rightarrow> bool" where
  "logs_stats req_no \<longleftrightarrow> unat req_no mod 100 = 0"

definition unexpired :: "cache_config \<Rightarrow> instant \<Rightarrow> 'r cache_entry \<Rightarrow> bool" where
  "unexpired cfg now e \<longleftrightarrow> now - entry_created_at e < ttl cfg"

text \<open>The first critical section of \<open>complete\<close>: a hit, or a miss that drops an expired entry.\<close>

definition cache_lookup ::
  "cache_config \<Rightarrow> instant \<Rightarrow> string \<Rightarrow> 'r response_cache \<Rightarrow> 'r option \<times> 'r response_cache" where
  "cache_lookup cfg now key c =
     (let c1 = c\<lparr>request_count := request_count c + 1\<rparr>
      in case cached c1 key of
           None \<Rightarrow> (None, c1)
         | Some e \<Rightarrow>
             if unexpired cfg now e
             then (Some (entry_response e),
                   c1\<lparr>cached := (cached c1)(key \<mapsto> e\<lparr>entry_last_accessed := now, hit_count := hit_count e + 1\<rparr>),
                      total_hit_count := total_hit_count c1 + 1\<rparr>)
             else (None, c1\<lparr>cached := (cached c1)(key := None)\<rparr>))"

lemma map_entries_delete:
  "map_entries ks (m(k := None)) = filter (\<lambda>p. fst p \<noteq> k) (map_entries ks m)"
  by (induction ks) (auto split: option.splits)

lemma map_entries_shrinks:
  assumes "min_by_key f (map_entries ks m) = Some (k, e)"
  shows "length (map_entries ks (m(k := None))) < length (map_entries ks m)"
  unfolding map_entries_delete using min_by_key_least [OF assms] by (auto intro: length_filter_less)

text \<open>
  The loop that makes room for an entry; \<open>ks\<close> is the order in which the hash map is iterated,
  which decides between entries that were last accessed at the same time.
\<close>

function evict_lru :: "nat \<Rightarrow> string list \<Rightarrow> (string \<rightharpoonup> 'r cache_entry) \<Rightarrow> (string \<rightharpoonup> 'r cache_entry)" where
  "evict_lru limit ks m =
     (if length (map_entries ks m) \<ge> limit
      then case min_by_key (\<lambda>p. entry_last_accessed (snd p)) (map_entries ks m) of
             Some (k, _) \<Rightarrow> evict_lru limit ks (m(k := None))
           | None \<Rightarrow> m
      else m)"
  by pat_completeness auto
termination
  by (relation "measure (\<lambda>(_, ks, m). length (map_entries ks m))")
    (auto dest!: sym [of _ "min_by_key _ _"] map_entries_shrinks)

declare evict_lru.simps [simp del]

text \<open>The second critical section: what it does with an answer.\<close>

definition cache_store ::
  "cache_config \<Rightarrow> string list \<Rightarrow> instant \<Rightarrow> string \<Rightarrow> 'r \<Rightarrow> 'r response_cache \<Rightarrow> 'r response_cache" where
  "cache_store cfg ks now key r c =
     (let kept = evict_lru (max_entries cfg) ks (map_retain (unexpired cfg now) (cached c))
      in c\<lparr>cached := kept(key \<mapsto> \<lparr>entry_response = r, entry_created_at = now,
                                  entry_last_accessed = now, hit_count = 0\<rparr>)\<rparr>)"

text \<open>
  A request of a single caller. \<open>now\<close> reads the clock of the world and \<open>order\<close> is the order in
  which the hash map would be iterated; \<open>key\<close> is the key of the request.
\<close>

definition cached_complete ::
  "cache_config \<Rightarrow> ('w \<Rightarrow> instant) \<Rightarrow> ((string \<rightharpoonup> 'r cache_entry) \<Rightarrow> string list) \<Rightarrow> string
    \<Rightarrow> ('w, 'x, 'r) provider_call \<Rightarrow> 'r response_cache \<times> 'w
    \<Rightarrow> ('x llm_error, 'r) result \<times> 'r response_cache \<times> 'w" where
  "cached_complete cfg now order key inner cw =
     (case cw of (c, w) \<Rightarrow>
        case cache_lookup cfg (now w) key c of
          (Some r, c1) \<Rightarrow> (Inr r, c1, w)
        | (None, c1) \<Rightarrow>
            (case inner w of
               (Inl e, w1) \<Rightarrow> (Inl e, c1, w1)
             | (Inr r, w1) \<Rightarrow>
                 (Inr r, cache_store cfg (order (map_retain (unexpired cfg (now w)) (cached c1))) (now w) key r c1, w1)))"

text \<open>Tool calls and a change of model pass the cache by.\<close>

definition cached_complete_with_tools ::
  "('w, 'x, 'r) provider_call \<Rightarrow> 'c response_cache \<times> 'w \<Rightarrow> ('x llm_error, 'r) result \<times> 'c response_cache \<times> 'w" where
  "cached_complete_with_tools inner cw = (case cw of (c, w) \<Rightarrow> case inner w of (a, w1) \<Rightarrow> (a, c, w1))"

section \<open>Eviction\<close>

lemma evict_lru_sub: "evict_lru limit ks m k = Some e \<Longrightarrow> m k = Some e"
proof (induction limit ks m rule: evict_lru.induct)
  case (1 limit ks m)
  then show ?case
    by (subst (asm) (2) evict_lru.simps) (fastforce split: if_splits option.splits)
qed

lemma evict_lru_dom: "dom (evict_lru limit ks m) \<subseteq> dom m"
  using evict_lru_sub by fast

lemma min_by_key_None: "min_by_key f xs = None \<longleftrightarrow> xs = []"
  by (cases xs) (auto split: option.splits)

lemma evict_lru_cases:
  obtains (stop) "evict_lru limit ks m = m" "length (map_entries ks m) \<le> limit - 1"
  | (evict) i x where "limit \<le> length (map_entries ks m)" "(i, x) \<in> set (map_entries ks m)"
      "min_by_key (\<lambda>p. entry_last_accessed (snd p)) (map_entries ks m) = Some (i, x)"
      "\<And>k e. (k, e) \<in> set (map_entries ks m) \<Longrightarrow> entry_last_accessed x \<le> entry_last_accessed e"
      "evict_lru limit ks m = evict_lru limit ks (m(i := None))"
proof (cases "limit \<le> length (map_entries ks m) \<and> map_entries ks m \<noteq> []")
  case False
  then show ?thesis by (intro stop) (subst evict_lru.simps, auto)
next
  case True
  then obtain i x where least: "min_by_key (\<lambda>p. entry_last_accessed (snd p)) (map_entries ks m) = Some (i, x)"
    using min_by_key_Some [of "map_entries ks m"] by fast
  show ?thesis
    by (rule evict [OF _ _ least])
      (use True least min_by_key_least [OF least] in \<open>auto simp: evict_lru.simps [of limit ks m]\<close>)
qed

lemma evict_lru_length: "length (map_entries ks (evict_lru limit ks m)) \<le> limit - 1"
proof (induction limit ks m rule: evict_lru.induct)
  case (1 limit ks m)
  show ?case
  proof (cases rule: evict_lru_cases [of limit ks m])
    case (evict i x)
    show ?thesis unfolding evict(5) by (rule "1.IH" [OF evict(1,3) refl])
  qed simp
qed

lemma map_entries_dom: "fst ` set (map_entries ks m) = set ks \<inter> dom m"
  using in_map_keys [of _ ks m] by blast

lemma card_dom_entries:
  assumes "distinct ks" and "dom m \<subseteq> set ks"
  shows "card (dom m) = length (map_entries ks m)"
proof -
  have "distinct (map fst (map_entries ks m))"
    using assms(1)
  proof (induction ks)
    case (Cons k ks)
    then show ?case using map_entries_dom [of ks m] by (fastforce split: option.splits)
  qed simp
  then have "length (map_entries ks m) = card (fst ` set (map_entries ks m))"
    by (metis distinct_card length_map list.set_map)
  then show ?thesis using assms(2) by (simp add: map_entries_dom Int_absorb1)
qed

lemma evict_lru_card:
  assumes "iterates ks m"
  shows "card (dom (evict_lru limit ks m)) \<le> limit - 1"
proof -
  have "card (dom (evict_lru limit ks m)) = length (map_entries ks (evict_lru limit ks m))"
    using iteratesD [OF assms] evict_lru_dom [of limit ks m] by (intro card_dom_entries) auto
  then show ?thesis using evict_lru_length [of ks limit m] by simp
qed

text \<open>An entry goes only while every entry that stays was accessed at least as late.\<close>

lemma evict_lru_oldest:
  assumes "dom m \<subseteq> set ks" and "m j = Some d" and "evict_lru limit ks m j = None"
    and "evict_lru limit ks m k = Some e"
  shows "entry_last_accessed d \<le> entry_last_accessed e"
  using assms
proof (induction limit ks m arbitrary: d rule: evict_lru.induct)
  case (1 limit ks m)
  show ?case
  proof (cases rule: evict_lru_cases [of limit ks m])
    case stop
    with "1.prems" show ?thesis by simp
  next
    case (evict i x)
    show ?thesis
    proof (cases "j = i")
      case True
      have "(i, x) \<in> set (map_entries ks m)" "(k, e) \<in> set (map_entries ks m)"
        using evict(2) "1.prems"(1,4) evict_lru_sub by (fastforce simp: in_map_entries)+
      then show ?thesis using True evict(4) "1.prems"(2) by (fastforce simp: in_map_entries)
    next
      case False
      show ?thesis
        by (rule "1.IH" [OF evict(1,3) refl]) (use "1.prems" False in \<open>simp_all only: evict(5), auto split: if_splits\<close>)
    qed
  qed
qed

section \<open>Requests that overlap\<close>

text \<open>
  What the program and its environment do to a cache. Each rule is one critical section; a
  request in flight carries its key and the time it began, and \<open>answers\<close> lists what the wrapped
  provider has answered, with the key and the begin of the request it answered.
\<close>

record 'r cache_run =
  the_cache :: "'r response_cache"
  in_flight :: "nat \<rightharpoonup> string \<times> instant"
  answers :: "(string \<times> instant \<times> 'r) list"

inductive cache_step :: "cache_config \<Rightarrow> 'r cache_run \<Rightarrow> 'r cache_run \<Rightarrow> bool" for cfg where
  hit: "cache_lookup cfg now key (the_cache s) = (Some r, c) \<Longrightarrow> cache_step cfg s (s\<lparr>the_cache := c\<rparr>)"
| miss: "cache_lookup cfg now key (the_cache s) = (None, c) \<Longrightarrow> in_flight s i = None \<Longrightarrow>
    cache_step cfg s (s\<lparr>the_cache := c, in_flight := (in_flight s)(i \<mapsto> (key, now))\<rparr>)"
| answered: "in_flight s i = Some (key, now) \<Longrightarrow>
    iterates ks (map_retain (unexpired cfg now) (cached (the_cache s))) \<Longrightarrow>
    cache_step cfg s (s\<lparr>the_cache := cache_store cfg ks now key r (the_cache s),
      in_flight := (in_flight s)(i := None), answers := (key, now, r) # answers s\<rparr>)"
| failed: "in_flight s i = Some p \<Longrightarrow> cache_step cfg s (s\<lparr>in_flight := (in_flight s)(i := None)\<rparr>)"
| cleared: "cache_step cfg s (s\<lparr>the_cache := cache_clear (the_cache s)\<rparr>)"

definition cache_start :: "'r cache_run" where
  "cache_start = \<lparr>the_cache = cache_new, in_flight = Map.empty, answers = []\<rparr>"

definition cache_ok :: "cache_config \<Rightarrow> 'r cache_run \<Rightarrow> bool" where
  "cache_ok cfg s \<longleftrightarrow>
     finite (dom (cached (the_cache s))) \<and> cache_len (the_cache s) \<le> max 1 (max_entries cfg) \<and>
     (\<forall>k e. cached (the_cache s) k = Some e \<longrightarrow> (k, entry_created_at e, entry_response e) \<in> set (answers s))"

lemma lookup_dom: "dom (cached (snd (cache_lookup cfg now key c))) \<subseteq> dom (cached c)"
  by (auto simp: cache_lookup_def Let_def split: option.splits if_splits)

lemma lookup_entry:
  "cached (snd (cache_lookup cfg now key c)) k = Some e \<Longrightarrow>
   \<exists>d. cached c k = Some d \<and> entry_created_at d = entry_created_at e \<and> entry_response d = entry_response e"
  by (auto simp: cache_lookup_def Let_def split: option.splits if_splits)

lemma lookup_hit:
  "cache_lookup cfg now key c = (Some r, c') \<longleftrightarrow>
   (\<exists>e. cached c key = Some e \<and> unexpired cfg now e \<and> r = entry_response e \<and> c' = snd (cache_lookup cfg now key c))"
  by (auto simp: cache_lookup_def Let_def split: option.splits if_splits)

lemma lookup_ok:
  assumes "cache_ok cfg s"
  shows "cache_ok cfg (s\<lparr>the_cache := snd (cache_lookup cfg now key (the_cache s)), in_flight := fl\<rparr>)"
proof -
  have fin: "finite (dom (cached (the_cache s)))" using assms by (simp add: cache_ok_def)
  have sub: "dom (cached (snd (cache_lookup cfg now key (the_cache s)))) \<subseteq> dom (cached (the_cache s))"
    by (rule lookup_dom)
  show ?thesis
    using assms finite_subset [OF sub fin] card_mono [OF fin sub] lookup_entry [of cfg now key "the_cache s"]
    by (fastforce simp: cache_ok_def cache_len_def)
qed

lemma store_dom:
  "dom (cached (cache_store cfg ks now key r c)) =
   insert key (dom (evict_lru (max_entries cfg) ks (map_retain (unexpired cfg now) (cached c))))"
  by (simp add: cache_store_def)

lemma store_entry:
  "cached (cache_store cfg ks now key r c) k = Some e \<Longrightarrow>
   k = key \<and> entry_response e = r \<and> entry_created_at e = now \<or> cached c k = Some e"
  by (auto simp: cache_store_def map_retain_apply dest!: evict_lru_sub split: if_splits)

lemma store_len:
  assumes "iterates ks (map_retain (unexpired cfg now) (cached c))"
  shows "finite (dom (cached (cache_store cfg ks now key r c)))"
    and "cache_len (cache_store cfg ks now key r c) \<le> max 1 (max_entries cfg)"
proof -
  let ?m = "evict_lru (max_entries cfg) ks (map_retain (unexpired cfg now) (cached c))"
  have "dom ?m \<subseteq> set ks" using evict_lru_dom iteratesD(2) [OF assms] by fast
  then have fin: "finite (dom ?m)" by (rule finite_subset) simp
  then show "finite (dom (cached (cache_store cfg ks now key r c)))" by (simp add: store_dom)
  show "cache_len (cache_store cfg ks now key r c) \<le> max 1 (max_entries cfg)"
    unfolding cache_len_def store_dom
    using card_insert_le_m1 [of "max 1 (max_entries cfg)" "dom ?m" key] evict_lru_card [OF assms, of "max_entries cfg"]
    by (simp add: card_insert_if [OF fin])
qed

lemma cache_step_ok: "cache_step cfg s t \<Longrightarrow> cache_ok cfg s \<Longrightarrow> cache_ok cfg t"
proof (induction rule: cache_step.induct)
  case (hit now key s r c)
  then show ?case using lookup_ok [of cfg s "in_flight s" now key] by simp
next
  case (miss now key s c i)
  then show ?case using lookup_ok [of cfg s "(in_flight s)(i \<mapsto> (key, now))" now key] by simp
next
  case (answered s i key now ks r)
  then show ?case
    using store_len [OF answered(2), of key r] store_entry [of cfg ks now key r "the_cache s"]
    by (auto simp: cache_ok_def)
qed (simp_all add: cache_ok_def cache_clear_def cache_len_def)

lemma cache_reach_ok: "(cache_step cfg)\<^sup>*\<^sup>* cache_start s \<Longrightarrow> cache_ok cfg s"
  by (induction rule: rtranclp_induct)
    (auto intro: cache_step_ok, simp add: cache_ok_def cache_start_def cache_new_def cache_len_def)

lemma cached_complete_cases:
  obtains (hit) r c' where "cache_lookup cfg (now w) key c = (Some r, c')"
      "cached_complete cfg now order key inner (c, w) = (Inr r, c', w)"
  | (failed) c' e w' where "cache_lookup cfg (now w) key c = (None, c')" "inner w = (Inl e, w')"
      "cached_complete cfg now order key inner (c, w) = (Inl e, c', w')"
  | (answered) c' r w' ks where "cache_lookup cfg (now w) key c = (None, c')" "inner w = (Inr r, w')"
      "cached_complete cfg now order key inner (c, w) = (Inr r, cache_store cfg ks (now w) key r c', w')"
  by (cases "cache_lookup cfg (now w) key c"; cases "fst (cache_lookup cfg (now w) key c)"; cases "inner w";
      cases "fst (inner w)") (auto simp: cached_complete_def)

text \<open>Every entry holds the answer to its key.\<close>

definition holds_answers :: "(string \<Rightarrow> 'r) \<Rightarrow> 'r response_cache \<Rightarrow> bool" where
  "holds_answers A c \<longleftrightarrow> (\<forall>k e. cached c k = Some e \<longrightarrow> entry_response e = A k)"

lemma lookup_answers:
  "holds_answers A c \<Longrightarrow> cache_lookup cfg now key c = (r, c') \<Longrightarrow> holds_answers A c'"
  using lookup_entry [of cfg now key c] by (fastforce simp: holds_answers_def)

lemma store_answers:
  "holds_answers A c \<Longrightarrow> holds_answers A (cache_store cfg ks now key (A key) c)"
  unfolding holds_answers_def using store_entry [of cfg ks now key "A key" c] by blast

lemma cached_complete_answers:
  assumes "holds_answers A (fst cw)" and "\<And>w r. fst (inner w) = Inr r \<Longrightarrow> r = A key"
  shows "holds_answers A (fst (snd (cached_complete cfg now order key inner cw)))"
proof (cases rule: cached_complete_cases [of cfg now "snd cw" key "fst cw" order inner])
  case (answered c' r w' ks)
  then have "r = A key" using assms(2) [of "snd cw"] by simp
  with answered store_answers [OF lookup_answers [OF assms(1) answered(1)], of cfg ks "now (snd cw)" key] show ?thesis
    by simp
next
  case (hit r c')
  with lookup_answers [OF assms(1) hit(1)] show ?thesis by simp
next
  case (failed c' e w')
  with lookup_answers [OF assms(1) failed(1)] show ?thesis by simp
qed

lemma cached_run_answers:
  assumes "\<And>k w r. fst (inner k w) = Inr r \<Longrightarrow> r = A k" and "holds_answers A (fst cw)"
  shows "holds_answers A (fst (foldl (\<lambda>cw k. snd (cached_complete cfg now order k (inner k) cw)) cw ks))"
  using assms(2) by (induction ks arbitrary: cw) (simp_all add: cached_complete_answers assms(1))

section \<open>What the key holds\<close>

lemma append_sep_eq:
  "a @ c # x = b @ c # y \<Longrightarrow> c \<notin> set a \<Longrightarrow> c \<notin> set b \<Longrightarrow> a = b \<and> x = y"
proof (induction a arbitrary: b)
  case Nil
  then show ?case by (cases b) auto
next
  case (Cons d a)
  then show ?case by (cases b) auto
qed

lemma length_to_le_bytes [simp]: "length (to_le_bytes n) = 4"
  by (simp add: to_le_bytes_def)

lemma le_digits:
  fixes x :: nat
  assumes "x < 2 ^ 32"
  shows "x = x mod 256 + 256 * (x div 256 mod 256 + 256 * (x div 65536 mod 256 + 256 * (x div 16777216 mod 256)))"
proof -
  have parts: "x div 65536 = x div 256 div 256" "x div 16777216 = x div 256 div 256 div 256"
    by (simp_all add: div_mult2_eq [symmetric])
  have high: "x div 16777216 mod 256 = x div 16777216" using assms by simp
  show ?thesis unfolding high unfolding parts by simp
qed

lemma to_le_bytes_inj: "to_le_bytes m = to_le_bytes n \<longleftrightarrow> m = n"
proof
  assume eq: "to_le_bytes m = to_le_bytes n"
  have digits: "[0..<4] = [0, 1, 2, 3 :: nat]" by (simp add: upt_rec)
  have "unat m mod 256 = unat n mod 256" "unat m div 256 mod 256 = unat n div 256 mod 256"
    "unat m div 65536 mod 256 = unat n div 65536 mod 256" "unat m div 16777216 mod 256 = unat n div 16777216 mod 256"
    using eq unfolding to_le_bytes_def digits by simp_all
  then have "unat m = unat n"
    using le_digits [of "unat m"] le_digits [of "unat n"] unsigned_less [where 'a = nat, of m]
      unsigned_less [where 'a = nat, of n] by simp
  then show "m = n" by (rule unsigned_word_eqI)
qed simp

definition the_stops :: "'m completion_request \<Rightarrow> string list" where
  "the_stops r = (case request_stop_sequences r of Some ss \<Rightarrow> ss | None \<Rightarrow> [])"

definition parameter_bytes :: "'m completion_request \<Rightarrow> string" where
  "parameter_bytes r =
     (case request_max_tokens r of Some n \<Rightarrow> to_le_bytes n | None \<Rightarrow> []) @
     ''|'' @ (case request_temperature r of Some t \<Rightarrow> to_le_bytes t | None \<Rightarrow> []) @
     ''|'' @ concat (map (\<lambda>s. s @ [CHR 0x00]) (the_stops r))"

lemma key_preimage_parts:
  "key_preimage json model r =
   model @ CHR ''|'' # (case json (request_messages r) of Some s \<Rightarrow> s | None \<Rightarrow> []) @ ''|'' @ parameter_bytes r"
  by (simp add: key_preimage_def parameter_bytes_def the_stops_def split: option.splits)

lemma stops_inj:
  "concat (map (\<lambda>s. s @ [c]) ss) = concat (map (\<lambda>s. s @ [c]) ts) \<Longrightarrow>
   list_all (\<lambda>s. c \<notin> set s) (ss @ ts) \<Longrightarrow> ss = ts"
proof (induction ss arbitrary: ts)
  case Nil
  then show ?case by (cases ts) auto
next
  case (Cons s ss)
  then obtain t us where "ts = t # us" by (cases ts) auto
  with Cons append_sep_eq [of s c "concat (map (\<lambda>s. s @ [c]) ss)" t "concat (map (\<lambda>s. s @ [c]) us)"]
  show ?case by auto
qed

lemma parameter_bytes_eq:
  assumes "parameter_bytes r = parameter_bytes q"
    and "request_max_tokens r = None \<longleftrightarrow> request_max_tokens q = None"
    and "request_temperature r = None \<longleftrightarrow> request_temperature q = None"
    and "list_all (\<lambda>s. CHR 0x00 \<notin> set s) (the_stops r @ the_stops q)"
  shows "request_max_tokens r = request_max_tokens q \<and> request_temperature r = request_temperature q \<and>
    the_stops r = the_stops q"
  using assms
  by (auto simp: parameter_bytes_def to_le_bytes_inj split: option.splits dest: stops_inj)

section \<open>Properties\<close>

text \<open>
  C26. In every interleaving of requests the cache holds at most its capacity (at least one) of
  entries, and a hit answers what the wrapped provider answered to a request with the same
  key that began less than the time to live before.
\<close>

theorem cache_sound:
  assumes "(cache_step cfg)\<^sup>*\<^sup>* cache_start s"
  shows "cache_len (the_cache s) \<le> max 1 (max_entries cfg) \<and>
    (case fst (cache_lookup cfg now key (the_cache s)) of
       Some r \<Rightarrow> list_ex (\<lambda>(k, t, a). k = key \<and> now - t < ttl cfg \<and> a = r) (answers s)
     | None \<Rightarrow> True)"
  using cache_reach_ok [OF assms] lookup_hit [of cfg now key "the_cache s"]
  by (cases "cache_lookup cfg now key (the_cache s)")
    (fastforce simp: cache_ok_def unexpired_def list_ex_iff split: option.splits)

theorem cache_sound_witness:
  "cache_len (cache_store \<lparr>ttl = 10, max_entries = 0\<rparr> [] 5 ''k'' ''hello''
      (snd (cache_lookup \<lparr>ttl = 10, max_entries = 0\<rparr> 5 ''k'' cache_new))) \<le> 1"
proof -
  let ?cfg = "\<lparr>ttl = 10, max_entries = 0\<rparr>"
  let ?c = "snd (cache_lookup ?cfg 5 ''k'' (cache_new :: string response_cache))"
  let ?s = "\<lparr>the_cache = ?c, in_flight = [0 \<mapsto> (''k'', 5)], answers = []\<rparr>"
  let ?t = "\<lparr>the_cache = cache_store ?cfg [] 5 ''k'' ''hello'' ?c, in_flight = Map.empty, answers = [(''k'', 5, ''hello'')]\<rparr>"
  have "cache_step ?cfg cache_start ?s"
    using cache_step.miss [of ?cfg 5 "''k''" cache_start ?c 0]
    by (simp add: cache_start_def cache_new_def cache_lookup_def)
  moreover have "cache_step ?cfg ?s ?t"
    using cache_step.answered [of ?s 0 "''k''" 5 "[]" ?cfg "''hello''"]
    by (simp add: iterates_def map_retain_def cache_new_def cache_lookup_def)
  ultimately have "(cache_step ?cfg)\<^sup>*\<^sup>* cache_start ?t" by (meson converse_rtranclp_into_rtranclp rtranclp.rtrancl_refl)
  from cache_sound [OF this] show ?thesis by simp
qed

text \<open>
  A cache in front of a provider whose answers depend on the key only changes no answer: after
  any sequence of requests the next one gets the answer to its key or the error the provider
  gives it now.
\<close>

theorem cache_transparent:
  assumes "\<And>k w r. fst (inner k w) = Inr r \<Longrightarrow> r = A k"
    and "cw = foldl (\<lambda>cw k. snd (cached_complete cfg now order k (inner k) cw)) (cache_new, w) ks"
  shows "fst (cached_complete cfg now order key (inner key) cw) = Inr (A key) \<or>
    is_ok (fst (inner key (snd cw))) = False \<and>
    fst (cached_complete cfg now order key (inner key) cw) = fst (inner key (snd cw))"
proof -
  have "holds_answers A (fst cw)"
    unfolding assms(2) by (rule cached_run_answers) (use assms(1) in \<open>simp_all add: holds_answers_def cache_new_def\<close>)
  then show ?thesis
  proof (cases rule: cached_complete_cases [of cfg now "snd cw" key "fst cw" order "inner key"])
    case (answered c' r w' ks)
    then show ?thesis using assms(1) [of key "snd cw"] by simp
  qed (auto simp: holds_answers_def lookup_hit)
qed

theorem cache_transparent_witness:
  "fst (cached_complete default_cache_config (\<lambda>w. w) (\<lambda>_. []) ''k'' (\<lambda>w. (Inr ''k'', w + 1))
     (cache_new, 7)) = (Inr ''k'' :: (unit llm_error, string) result)"
  using cache_transparent [of "\<lambda>k w. (Inr k :: (unit llm_error, string) result, w + 1)" "\<lambda>k. k" "(cache_new, 7)"
      default_cache_config "\<lambda>w. w" "\<lambda>_. []" 7 "[]" "''k''"]
  by simp

text \<open>
  What the key is made of tells requests apart that differ in the effective model, the
  messages or a parameter, as long as both set the same parameters, no model name has a bar and
  no stop sequence a NUL; two lists of stop sequences that differ only in where a NUL stands
  get the same key, whatever the hash.
\<close>

theorem cache_key_separates:
  assumes json: "\<And>ms ms' a b s s'. json ms = Some s \<Longrightarrow> json ms' = Some s' \<Longrightarrow> s @ a = s' @ b \<Longrightarrow> ms = ms'"
    and "json (request_messages r) \<noteq> None" and "json (request_messages q) \<noteq> None"
    and "CHR ''|'' \<notin> set model" and "CHR ''|'' \<notin> set model'"
    and "request_max_tokens r = None \<longleftrightarrow> request_max_tokens q = None"
    and "request_temperature r = None \<longleftrightarrow> request_temperature q = None"
    and "list_all (\<lambda>s. CHR 0x00 \<notin> set s) (the_stops r @ the_stops q)"
  shows "(key_preimage json model r = key_preimage json model' q) =
      (model = model' \<and> request_messages r = request_messages q \<and> request_max_tokens r = request_max_tokens q \<and>
       request_temperature r = request_temperature q \<and> the_stops r = the_stops q) \<and>
    cache_key sha json model (r\<lparr>request_stop_sequences := Some [''a'', ''b'']\<rparr>) =
      cache_key sha json model (r\<lparr>request_stop_sequences := Some [''a'' @ [CHR 0x00] @ ''b'']\<rparr>)"
proof
  obtain s s' where js: "json (request_messages r) = Some s" "json (request_messages q) = Some s'"
    using assms(2,3) by auto
  show "(key_preimage json model r = key_preimage json model' q) =
      (model = model' \<and> request_messages r = request_messages q \<and> request_max_tokens r = request_max_tokens q \<and>
       request_temperature r = request_temperature q \<and> the_stops r = the_stops q)" (is "?keys = ?same")
  proof
    assume eq: ?keys
    let ?rest = "\<lambda>r. ''|'' @ parameter_bytes r"
    have split: "model @ CHR ''|'' # (s @ ?rest r) = model' @ CHR ''|'' # (s' @ ?rest q)"
      using eq js by (simp add: key_preimage_parts)
    then have m: "model = model'" "s @ ?rest r = s' @ ?rest q"
      using append_sep_eq [OF split assms(4,5)] by auto
    from json [OF js m(2)] js have ms: "request_messages r = request_messages q" "s = s'" by auto
    with m(2) have "parameter_bytes r = parameter_bytes q" by simp
    from parameter_bytes_eq [OF this assms(6-8)] m ms show ?same by simp
  next
    assume ?same
    then show ?keys by (simp add: key_preimage_parts parameter_bytes_def)
  qed
qed (simp add: cache_key_def key_preimage_def)

theorem cache_key_separates_witness:
  "key_preimage (\<lambda>b. Some (if b then ''[1]'' else ''[0]'')) ''gpt'' (completion_request_new True) \<noteq>
   key_preimage (\<lambda>b. Some (if b then ''[1]'' else ''[0]'')) ''gpt'' (completion_request_new False)"
  by (subst conjunct1 [OF cache_key_separates [of "\<lambda>b. Some (if b then ''[1]'' else ''[0]'')" "completion_request_new True"
      "completion_request_new False" "''gpt''" "''gpt''" id]])
    (auto simp: completion_request_new_def the_stops_def split: if_splits)

text \<open>
  Making room keeps the entries that were used last: an entry that goes was accessed no later
  than any that stays, at least one goes only when the cache is full, and what stays is unchanged.
\<close>

theorem eviction_keeps_recent:
  assumes "dom m \<subseteq> set ks" and "distinct ks"
    and "m j = Some d" and "evict_lru limit ks m j = None"
  shows "limit \<le> card (dom m) \<and>
    (\<forall>k. case evict_lru limit ks m k of
       Some e \<Rightarrow> m k = Some e \<and> entry_last_accessed d \<le> entry_last_accessed e
     | None \<Rightarrow> True)"
proof
  show "limit \<le> card (dom m)"
    using assms by (cases rule: evict_lru_cases [of limit ks m]) (simp_all add: card_dom_entries)
  show "\<forall>k. case evict_lru limit ks m k of
       Some e \<Rightarrow> m k = Some e \<and> entry_last_accessed d \<le> entry_last_accessed e | None \<Rightarrow> True"
    using evict_lru_oldest [OF assms(1,3,4)] evict_lru_sub [of limit ks m] by (auto split: option.splits)
qed

theorem eviction_keeps_recent_witness:
  "(let e = \<lambda>t. \<lparr>entry_response = (), entry_created_at = 0, entry_last_accessed = t, hit_count = 0\<rparr>;
        m = evict_lru 2 [''a'', ''b''] [''a'' \<mapsto> e 5, ''b'' \<mapsto> e 9]
    in m = [''b'' \<mapsto> e 9] \<and> entry_last_accessed (e 5) \<le> 9)"
proof -
  let ?e = "\<lambda>t. \<lparr>entry_response = (), entry_created_at = 0, entry_last_accessed = t, hit_count = 0\<rparr>"
  have m: "evict_lru 2 [''a'', ''b''] [''a'' \<mapsto> ?e 5, ''b'' \<mapsto> ?e 9] = [''b'' \<mapsto> ?e 9]"
    by (simp add: evict_lru.simps fun_eq_iff)
  show ?thesis
    using eviction_keeps_recent [of "[''a'' \<mapsto> ?e 5, ''b'' \<mapsto> ?e 9]" "[''a'', ''b'']" "''a''" "?e 5" 2] m
    by simp
qed

text \<open>
  A request repeated right after it was answered, before the time to live has passed since it
  began, gets the same answer without another call, even from a cache of no capacity.
\<close>

theorem repeat_is_a_hit:
  assumes "cached_complete cfg now order key inner (c, w) = (Inr r, c', w')"
    and "now w' - now w < ttl cfg" and "fst (cache_lookup cfg (now w) key c) = None"
  shows "fst (cached_complete cfg now order key inner' (c', w')) = Inr r \<and>
    snd (snd (cached_complete cfg now order key inner' (c', w'))) = w'"
proof (cases rule: cached_complete_cases [of cfg now w key c order inner])
  case (answered d s v ks)
  then have "cached c' key = Some \<lparr>entry_response = r, entry_created_at = now w, entry_last_accessed = now w, hit_count = 0\<rparr>"
    using assms(1) by (auto simp: cache_store_def Let_def)
  with assms(2) show ?thesis by (simp add: cached_complete_def cache_lookup_def unexpired_def)
qed (use assms in auto)

theorem repeat_is_a_hit_witness:
  "fst (cached_complete \<lparr>ttl = 5, max_entries = 0\<rparr> id (\<lambda>_. []) ''k'' (\<lambda>w. (Inl (EmptyResponse ''p'' :: unit llm_error), w))
     (snd (cached_complete \<lparr>ttl = 5, max_entries = 0\<rparr> id (\<lambda>_. []) ''k'' (\<lambda>w. (Inr True :: (unit llm_error, bool) result, w + 4)) (cache_new, 7)))) = Inr True"
proof -
  let ?cfg = "\<lparr>ttl = 5, max_entries = 0\<rparr>" and ?op = "\<lambda>w. (Inr True :: (unit llm_error, bool) result, w + 4)"
  obtain c' where run: "cached_complete ?cfg id (\<lambda>_. []) ''k'' ?op (cache_new, 7) = (Inr True, c', 11)"
    by (simp add: cached_complete_def cache_lookup_def cache_new_def)
  show ?thesis
    unfolding run using repeat_is_a_hit [OF run, of "\<lambda>w. (Inl (EmptyResponse ''p'' :: unit llm_error), w)"]
    by (simp add: cache_lookup_def cache_new_def)
qed

end
