(* ===== verification/SmartRouting.thy ===== *)
theory SmartRouting
  imports Retry ChatMessages
begin

text \<open>
  The router between a cheap and a primary model, \<open>src/llm/smart_routing.rs\<close>: tiers, the
  classification of a request, the test for an uncertain answer, the cascade and the counters.
  The regular expressions and the scorer with its floating-point sum are arguments. The lemmas
  show which provider answers, that no request makes more than one call of each, and how the
  counters add up.
\<close>

section \<open>Tiers\<close>

datatype tier = Flash | Standard | Pro | Frontier

definition tier_from_score :: "nat \<Rightarrow> tier" where
  "tier_from_score score =
     (if score \<le> 15 then Flash else if score \<le> 40 then Standard else if score \<le> 65 then Pro else Frontier)"

fun tier_to_score :: "tier \<Rightarrow> nat" where
  "tier_to_score Flash = 8"
| "tier_to_score Standard = 28"
| "tier_to_score Pro = 52"
| "tier_to_score Frontier = 80"

fun tier_as_str :: "tier \<Rightarrow> string" where
  "tier_as_str Flash = ''flash''"
| "tier_as_str Standard = ''standard''"
| "tier_as_str Pro = ''pro''"
| "tier_as_str Frontier = ''frontier''"

datatype task_complexity = Simple | Moderate | Complex

fun complexity_of :: "tier \<Rightarrow> task_complexity" where
  "complexity_of Flash = Simple"
| "complexity_of Standard = Simple"
| "complexity_of Pro = Moderate"
| "complexity_of Frontier = Complex"

section \<open>Classification\<close>

text \<open>The tier a captured hint names.\<close>

definition hinted_tier :: "string \<Rightarrow> tier" where
  "hinted_tier capture =
     (let s = ascii_lower capture
      in if s = ''flash'' then Flash else if s = ''standard'' then Standard
         else if s = ''pro'' then Pro else if s = ''frontier'' then Frontier else Standard)"

text \<open>
  \<open>hint\<close> is the capture of the hint's regular expression, \<open>overrides\<close> the pattern overrides with
  their matchers and \<open>score\<close> the scorer.
\<close>

definition classify ::
  "(string \<Rightarrow> string option) \<Rightarrow> ((string \<Rightarrow> bool) \<times> tier) list \<Rightarrow> (string \<Rightarrow> nat)
    \<Rightarrow> (chat_role \<times> string) list \<Rightarrow> task_complexity" where
  "classify hint overrides score messages =
     (let msg = trim (case find (\<lambda>(role, _). role = ChatUser) (rev messages) of Some (_, c) \<Rightarrow> c | None \<Rightarrow> [])
      in case hint msg of
           Some capture \<Rightarrow> complexity_of (hinted_tier capture)
         | None \<Rightarrow>
             (case find (\<lambda>(matches, _). matches msg) overrides of
                Some (_, t) \<Rightarrow> complexity_of t
              | None \<Rightarrow> complexity_of (tier_from_score (score msg))))"

definition uncertainty_patterns :: "string list" where
  "uncertainty_patterns =
     [''i'm not sure'', ''i am not sure'', ''i don't know'', ''i do not know'', ''i'm unable to'',
      ''i am unable to'', ''i cannot'', ''i can't'', ''beyond my capabilities'', ''beyond my ability'',
      ''i'm not able to'', ''i am not able to'', ''i don't have enough'', ''i do not have enough'',
      ''i need more context'', ''i need more information'', ''could you clarify'',
      ''could you provide more'', ''i'm not confident'', ''i am not confident'']"

definition response_is_uncertain :: "string \<Rightarrow> bool" where
  "response_is_uncertain content =
     (let c = trim content
      in c = [] \<or> list_ex (contains_str (ascii_lower c)) uncertainty_patterns)"

section \<open>Routing\<close>

record routing_config =
  cascade_enabled :: bool
  domain_keywords :: "string list option"

definition default_routing_config :: routing_config where
  "default_routing_config = \<lparr>cascade_enabled = True, domain_keywords = None\<rparr>"

record routing_stats =
  total_requests :: "64 word"
  cheap_requests :: "64 word"
  primary_requests :: "64 word"
  cascade_escalations :: "64 word"

definition routing_stats_new :: routing_stats where
  "routing_stats_new = \<lparr>total_requests = 0, cheap_requests = 0, primary_requests = 0, cascade_escalations = 0\<rparr>"

definition count_total :: "routing_stats \<Rightarrow> routing_stats" where
  "count_total s = s\<lparr>total_requests := total_requests s + 1\<rparr>"

definition count_cheap :: "routing_stats \<Rightarrow> routing_stats" where
  "count_cheap s = s\<lparr>cheap_requests := cheap_requests s + 1\<rparr>"

definition count_primary :: "routing_stats \<Rightarrow> routing_stats" where
  "count_primary s = s\<lparr>primary_requests := primary_requests s + 1\<rparr>"

definition count_escalation :: "routing_stats \<Rightarrow> routing_stats" where
  "count_escalation s = s\<lparr>cascade_escalations := cascade_escalations s + 1\<rparr>"

text \<open>\<open>complexity\<close> is what \<open>classify\<close> says of the request, \<open>content\<close> reads the text of an answer.\<close>

definition routing_complete ::
  "routing_config \<Rightarrow> ('r \<Rightarrow> string) \<Rightarrow> task_complexity \<Rightarrow> ('w, 'x, 'r) provider_call \<Rightarrow> ('w, 'x, 'r) provider_call
    \<Rightarrow> (routing_stats \<times> 'w, 'x, 'r) provider_call" where
  "routing_complete cfg content complexity primary cheap = (\<lambda>(s, w).
     let s1 = count_total s
     in case complexity of
          Simple \<Rightarrow> (case cheap w of (a, w1) \<Rightarrow> (a, count_cheap s1, w1))
        | Complex \<Rightarrow> (case primary w of (a, w1) \<Rightarrow> (a, count_primary s1, w1))
        | Moderate \<Rightarrow>
            let s2 = count_cheap s1
            in case cheap w of
                 (Inl e, w1) \<Rightarrow> (Inl e, s2, w1)
               | (Inr r, w1) \<Rightarrow>
                   if cascade_enabled cfg \<and> response_is_uncertain (content r)
                   then (case primary w1 of (a, w2) \<Rightarrow> (a, count_primary (count_escalation s2), w2))
                   else (Inr r, s2, w1))"

definition routing_complete_with_tools ::
  "('w, 'x, 'r) provider_call \<Rightarrow> (routing_stats \<times> 'w, 'x, 'r) provider_call" where
  "routing_complete_with_tools primary = (\<lambda>(s, w).
     case primary w of (a, w1) \<Rightarrow> (a, count_primary (count_total s), w1))"

lemmas count_defs = count_total_def count_cheap_def count_primary_def count_escalation_def

section \<open>How many calls\<close>

lemma routing_raises:
  assumes "raises_by count p primary" and "raises_by count c cheap"
  shows "count (snd (snd (routing_complete cfg content complexity primary cheap (s, w)))) \<le> count w + (p + c)"
proof -
  have p: "count (snd (primary v)) \<le> count v + p" and c: "count (snd (cheap v)) \<le> count v + c" for v
    using assms by (simp_all add: raises_by_def)
  then have "count (snd (primary (snd (cheap w)))) \<le> count w + (p + c)"
    using add_mono [OF p [of "snd (cheap w)"] c [of w]] by simp
  then show ?thesis
    using p [of w] c [of w]
    by (auto simp: routing_complete_def Let_def case_prod_beta split: task_complexity.split sum.split)
qed

section \<open>The counters\<close>

text \<open>Every request went to a model, and an escalated one to both.\<close>

definition stats_balanced :: "routing_stats \<Rightarrow> bool" where
  "stats_balanced s \<longleftrightarrow> cheap_requests s + primary_requests s = total_requests s + cascade_escalations s"

text \<open>One request: plain or with tools, with what the models answer to it.\<close>

datatype ('x, 'r) routing_event =
  RouteComplete routing_config task_complexity "('x llm_error, 'r) result" "('x llm_error, 'r) result"
| RouteTools "('x llm_error, 'r) result"

fun routing_step :: "('r \<Rightarrow> string) \<Rightarrow> routing_stats \<Rightarrow> ('x, 'r) routing_event \<Rightarrow> routing_stats" where
  "routing_step content s (RouteComplete cfg k p c) =
     fst (snd (routing_complete cfg content k (Pair p) (Pair c) (s, ())))"
| "routing_step content s (RouteTools p) = fst (snd (routing_complete_with_tools (Pair p) (s, ())))"

interpretation routing: machine "routing_step content" stats_balanced for content :: "'r \<Rightarrow> string"
proof
  fix s :: routing_stats and e :: "('x, 'r) routing_event"
  assume "stats_balanced s"
  then show "stats_balanced (routing_step content s e)"
    by (cases e)
      (auto simp: stats_balanced_def routing_complete_def routing_complete_with_tools_def count_defs Let_def
        algebra_simps split: task_complexity.split sum.split)
qed

section \<open>Properties\<close>

text \<open>
  A request goes to the cheap model unless its task is complex; an answer of the cheap model is
  replaced by the primary's only for a moderate task, with the cascade on, when it is uncertain,
  and an error of the cheap model is returned as it is. Tool calls always go to the primary.
  However many requests are made, the counters say that each went to one model and an
  escalated one to both.
\<close>

theorem routing_decides:
  "fst (routing_complete cfg content k primary cheap (s, w)) =
     (if k = Complex then fst (primary w)
      else if k = Moderate \<and> cascade_enabled cfg \<and>
        (case fst (cheap w) of Inl _ \<Rightarrow> False | Inr r \<Rightarrow> response_is_uncertain (content r))
      then fst (primary (snd (cheap w)))
      else fst (cheap w)) \<and>
   fst (routing_complete_with_tools primary (s, w)) = fst (primary w) \<and>
   stats_balanced (foldl (routing_step content) routing_stats_new es)"
proof (intro conjI)
  show "stats_balanced (foldl (routing_step content) routing_stats_new es)"
    by (rule routing.run_inv) (simp add: stats_balanced_def routing_stats_new_def)
qed (auto simp: routing_complete_def routing_complete_with_tools_def Let_def case_prod_beta
    split: task_complexity.split sum.split)

text \<open>
  The tiers cut the scores into four ranges in rising order, the representative score of a tier
  lies in its range, its name is read back as a hint, and a hint overrides both the patterns
  and the score.
\<close>

theorem tier_hint_wins:
  "tier_from_score (tier_to_score t) = t \<and> hinted_tier (tier_as_str t) = t \<and>
   (case hint (trim c) of
      Some capture \<Rightarrow> classify hint overrides score (ms @ [(ChatUser, c)]) = complexity_of (hinted_tier capture)
    | None \<Rightarrow> True)"
  by (cases t; simp add: tier_from_score_def hinted_tier_def ascii_lower_def Let_def classify_def split: option.split)

end
