(* ===== verification/ProviderChain.thy ===== *)
theory ProviderChain
  imports SmartRouting ResponseCache
begin

text \<open>
  The chain of decorators around the model providers, built as \<open>src/llm/mod.rs\<close> builds it: retry
  around each provider, the router, failover, the circuit breaker and the cache, each present
  when the configuration asks for it. The lemmas bound the calls of the providers a request can
  cause and show when it causes none.
\<close>

section \<open>The state of a chain\<close>

text \<open>\<open>outside\<close> is the world of the providers, the clock and the random numbers.\<close>

record ('w, 'r) chain =
  outside :: 'w
  routing_state :: routing_stats
  failover_state :: failover
  breaker_state :: breaker
  cache_state :: "'r response_cache"

record chain_config =
  retrying :: retry_config
  routing_to_cheap :: "routing_config option"
  failing_over :: "cooldown_config option"
  breaking :: "breaker_config option"
  caching :: "cache_config option"

text \<open>What the chain is given from outside: names for messages, the clock and the sources of a world.\<close>

record ('w, 'x, 'r) chain_world =
  world_of :: "'w retry_world"
  clock :: "'w \<Rightarrow> instant"
  epoch :: instant
  primary_provider :: "('w, 'x, 'r) provider_call"
  cheap_provider :: "('w, 'x, 'r) provider_call"
  fallback_provider :: "('w, 'x, 'r) provider_call"
  content_of :: "'r \<Rightarrow> string"
  iteration :: "(string \<rightharpoonup> 'r cache_entry) \<Rightarrow> string list"
  provider_name :: string

text \<open>A request as the layers see it: its complexity, its cache key and the task that makes it.\<close>

record chain_request =
  request_complexity :: task_complexity
  request_key :: string
  request_task :: "uuid option"

section \<open>Layers\<close>

definition at_outside :: "('w, 'x, 'r) provider_call \<Rightarrow> (('w, 'r) chain, 'x, 'r) provider_call" where
  "at_outside op s = (case op (outside s) of (a, w) \<Rightarrow> (a, s\<lparr>outside := w\<rparr>))"

definition lift_world :: "'w retry_world \<Rightarrow> ('w, 'r) chain retry_world" where
  "lift_world R = \<lparr>draw = \<lambda>hi s. (case draw R hi (outside s) of (k, w) \<Rightarrow> (k, s\<lparr>outside := w\<rparr>)),
     sleep = \<lambda>d s. s\<lparr>outside := sleep R d (outside s)\<rparr>\<rparr>"

definition retry_layer ::
  "('w, 'x, 'r) chain_world \<Rightarrow> retry_config \<Rightarrow> ('w, 'x, 'r) provider_call \<Rightarrow> (('w, 'r) chain, 'x, 'r) provider_call" where
  "retry_layer W cfg op =
     (if max_retries cfg > 0 then retry_call (lift_world (world_of W)) (provider_name W) cfg (at_outside op)
      else at_outside op)"

definition routing_layer ::
  "('w, 'x, 'r) chain_world \<Rightarrow> routing_config option \<Rightarrow> task_complexity \<Rightarrow> (('w, 'r) chain, 'x, 'r) provider_call
    \<Rightarrow> (('w, 'r) chain, 'x, 'r) provider_call \<Rightarrow> (('w, 'r) chain, 'x, 'r) provider_call" where
  "routing_layer W cfg k primary cheap =
     (case cfg of
        None \<Rightarrow> primary
      | Some c \<Rightarrow> (\<lambda>s. case routing_complete c (content_of W) k primary cheap (routing_state s, s) of
          (a, st, s1) \<Rightarrow> (a, s1\<lparr>routing_state := st\<rparr>)))"

definition failover_layer ::
  "('w, 'x, 'r) chain_world \<Rightarrow> cooldown_config option \<Rightarrow> uuid option \<Rightarrow> (('w, 'r) chain, 'x, 'r) provider_call
    \<Rightarrow> (('w, 'r) chain, 'x, 'r) provider_call \<Rightarrow> (('w, 'r) chain, 'x, 'r) provider_call" where
  "failover_layer W cfg task llm fallback =
     (case cfg of
        None \<Rightarrow> llm
      | Some c \<Rightarrow> (\<lambda>s. case failover_complete c (\<lambda>s. of_nat (clock W (outside s) - epoch W)) [llm, fallback] task
            (failover_state s, s) of (a, f, s1) \<Rightarrow> (a, s1\<lparr>failover_state := f\<rparr>)))"

definition breaker_layer ::
  "('w, 'x, 'r) chain_world \<Rightarrow> breaker_config option \<Rightarrow> (('w, 'r) chain, 'x, 'r) provider_call
    \<Rightarrow> (('w, 'r) chain, 'x, 'r) provider_call" where
  "breaker_layer W cfg llm =
     (case cfg of
        None \<Rightarrow> llm
      | Some c \<Rightarrow> (\<lambda>s.
          case check_allowed (provider_name W) c (clock W (outside s)) (clock W (outside s)) (breaker_state s) of
            (Inl e, b) \<Rightarrow> (Inl e, s\<lparr>breaker_state := b\<rparr>)
          | (Inr _, b) \<Rightarrow>
              (case llm (s\<lparr>breaker_state := b\<rparr>) of
                 (Inr r, s1) \<Rightarrow> (Inr r, s1\<lparr>breaker_state := record_success c (breaker_state s1)\<rparr>)
               | (Inl e, s1) \<Rightarrow>
                   (Inl e, s1\<lparr>breaker_state := record_failure c (clock W (outside s1)) e (breaker_state s1)\<rparr>))))"

definition cache_layer ::
  "('w, 'x, 'r) chain_world \<Rightarrow> cache_config option \<Rightarrow> string \<Rightarrow> (('w, 'r) chain, 'x, 'r) provider_call
    \<Rightarrow> (('w, 'r) chain, 'x, 'r) provider_call" where
  "cache_layer W cfg key llm =
     (case cfg of
        None \<Rightarrow> llm
      | Some c \<Rightarrow> (\<lambda>s. case cached_complete c (\<lambda>s. clock W (outside s)) (iteration W) key llm (cache_state s, s) of
          (a, cs, s1) \<Rightarrow> (a, s1\<lparr>cache_state := cs\<rparr>)))"

text \<open>\<open>build_provider_chain_components\<close>, applied to a request.\<close>

definition failover_chain ::
  "('w, 'x, 'r) chain_world \<Rightarrow> chain_config \<Rightarrow> chain_request \<Rightarrow> (('w, 'r) chain, 'x, 'r) provider_call" where
  "failover_chain W cfg rq =
     (let llm = retry_layer W (retrying cfg) (primary_provider W);
          routed = routing_layer W (routing_to_cheap cfg) (request_complexity rq) llm
            (retry_layer W (retrying cfg) (cheap_provider W))
      in failover_layer W (failing_over cfg) (request_task rq) routed
           (retry_layer W (retrying cfg) (fallback_provider W)))"

definition chain_complete ::
  "('w, 'x, 'r) chain_world \<Rightarrow> chain_config \<Rightarrow> chain_request \<Rightarrow> (('w, 'r) chain, 'x, 'r) provider_call" where
  "chain_complete W cfg rq =
     cache_layer W (caching cfg) (request_key rq) (breaker_layer W (breaking cfg) (failover_chain W cfg rq))"

definition chain_start :: "'w \<Rightarrow> ('w, 'r) chain" where
  "chain_start w = \<lparr>outside = w, routing_state = routing_stats_new,
     failover_state = \<lparr>last_used = 0, cooldowns = replicate 2 cooldown_new, provider_for_task = Map.empty\<rparr>,
     breaker_state = breaker_new, cache_state = cache_new\<rparr>"

definition chain_run ::
  "('w, 'x, 'r) chain_world \<Rightarrow> chain_config \<Rightarrow> chain_request list \<Rightarrow> ('w, 'r) chain \<Rightarrow> ('w, 'r) chain" where
  "chain_run W cfg rqs s = foldl (\<lambda>s rq. snd (chain_complete W cfg rq s)) s rqs"

section \<open>How many calls each layer makes\<close>

text \<open>The worst case of one request.\<close>

definition calls_per_request :: "chain_config \<Rightarrow> nat" where
  "calls_per_request cfg =
     Suc (unat (max_retries (retrying cfg))) *
     (1 + (case routing_to_cheap cfg of None \<Rightarrow> 0 | Some _ \<Rightarrow> 1) + (case failing_over cfg of None \<Rightarrow> 0 | Some _ \<Rightarrow> 1))"

text \<open>
  Two measures of a chain: how often the providers were called, read off the outside world, and
  0 as long as the failover has its two cooldowns, which none of the layers below it touches.
\<close>

definition two_providers :: "('w, 'r) chain \<Rightarrow> bool" where
  "two_providers s \<longleftrightarrow> length (cooldowns (failover_state s)) = 2"

abbreviation calls_of :: "('w \<Rightarrow> nat) \<Rightarrow> ('w, 'r) chain \<Rightarrow> nat" where
  "calls_of n s \<equiv> n (outside s)"

abbreviation not_two :: "('w, 'r) chain \<Rightarrow> nat" where
  "not_two s \<equiv> of_bool (\<not> two_providers s)"

lemma at_outside_raises:
  "raises_by n k op \<Longrightarrow> raises_by (calls_of n) k (at_outside op)"
  "raises_by not_two 0 (at_outside op)"
  by (simp_all add: raises_by_def at_outside_def two_providers_def case_prod_beta)

lemma lift_world_quiet:
  "quiet_world n R \<Longrightarrow> quiet_world (calls_of n) (lift_world R)"
  "quiet_world not_two (lift_world R)"
  by (simp_all add: quiet_world_def lift_world_def two_providers_def case_prod_beta)

lemma retry_layer_raises:
  assumes "raises_by n 1 op" and "quiet_world n (world_of W)"
  shows "raises_by (calls_of n) (Suc (unat (max_retries cfg))) (retry_layer W cfg op)"
proof (cases "max_retries cfg > 0")
  case True
  then show ?thesis
    using retry_raises [OF at_outside_raises(1) [OF assms(1)] lift_world_quiet(1) [OF assms(2)], of cfg "provider_name W"]
    by (simp add: retry_layer_def)
next
  case False
  then have "max_retries cfg = 0" by (simp add: word_gt_0)
  with at_outside_raises(1) [OF assms(1)] show ?thesis by (simp add: retry_layer_def)
qed

lemma retry_layer_two: "raises_by not_two 0 (retry_layer W cfg op)"
proof -
  have "raises_by not_two (Suc (unat (max_retries cfg)) * 0)
      (retry_call (lift_world (world_of W)) (provider_name W) cfg (at_outside op))"
    by (rule retry_raises [OF at_outside_raises(2) lift_world_quiet(2)])
  then show ?thesis by (simp add: retry_layer_def at_outside_raises(2))
qed

lemma routing_layer_measure:
  assumes "\<And>s st. m (s\<lparr>routing_state := st\<rparr>) = m s" and "raises_by m p primary" and "raises_by m c cheap"
  shows "raises_by m (p + (case cfg of None \<Rightarrow> 0 | Some _ \<Rightarrow> c)) (routing_layer W cfg k primary cheap)"
proof (cases cfg)
  case None
  then show ?thesis using assms(2) by (simp add: routing_layer_def)
next
  case (Some rc)
  show ?thesis
    unfolding raises_by_def
    using routing_raises [OF assms(2,3), of rc "content_of W" k]
    by (simp add: Some routing_layer_def case_prod_beta assms(1))
qed

lemmas routing_layer_raises = routing_layer_measure [of "calls_of n" for n, simplified]

lemma routing_layer_two:
  "raises_by not_two 0 primary \<Longrightarrow> raises_by not_two 0 cheap \<Longrightarrow> raises_by not_two 0 (routing_layer W cfg k primary cheap)"
  using routing_layer_measure [of not_two 0 primary 0 cheap cfg W k]
  by (simp add: two_providers_def split: option.splits)

text \<open>Calls of a chain with two cooldowns, which it keeps.\<close>

definition bounded_calls :: "('w \<Rightarrow> nat) \<Rightarrow> nat \<Rightarrow> (('w, 'r) chain, 'x, 'a) provider_call \<Rightarrow> bool" where
  "bounded_calls n k op \<longleftrightarrow>
     (\<forall>s. two_providers s \<longrightarrow> calls_of n (snd (op s)) \<le> calls_of n s + k \<and> two_providers (snd (op s)))"

lemma bounded_callsI: "raises_by (calls_of n) k op \<Longrightarrow> raises_by not_two 0 op \<Longrightarrow> bounded_calls n k op"
  by (auto simp: raises_by_def bounded_calls_def)

lemma sum_list_indices:
  assumes "distinct is" and "set is \<subseteq> {..<2 :: nat}"
  shows "sum_list (map k is) \<le> k 0 + (k 1 :: nat)"
proof -
  have "sum_list (map k is) = sum k (set is)" by (rule sum_list_distinct_conv_sum_set [OF assms(1)])
  also have "\<dots> \<le> sum k {0, 1}" by (rule sum_mono2) (use assms(2) in auto)
  finally show ?thesis by simp
qed

lemma try_providers_calls:
  assumes "raises_by (calls_of n) p llm" and "raises_by (calls_of n) q fallback" and "length (cooldowns f) = 2"
  shows "calls_of n (snd (snd (try_providers c now [llm, fallback] (f, s)))) \<le> calls_of n s + (p + q)"
    and "length (cooldowns (fst (snd (try_providers c now [llm, fallback] (f, s))))) = 2"
proof -
  have "cooldowns f \<noteq> []" using assms(3) by auto
  then obtain "is" where cand: "candidates (now s) (of_nat (cooldown_duration c)) (cooldowns f) = Some is"
    "set is \<subseteq> {..<2}" "distinct is"
    using candidates_Some assms(3) by metis
  have "raises_by (calls_of n) (if i = 0 then p else q) ([llm, fallback] ! i)" if "i \<in> set is" for i
    using that cand(2) assms(1,2) by (auto simp: less_2_cases_iff)
  then have "calls_of n (snd (snd (try_loop c now [llm, fallback] is None (f, s)))) \<le>
      calls_of n s + sum_list (map (\<lambda>i. if i = 0 then p else q) is)"
    by (intro try_loop_raises [where count = "calls_of n"]) blast
  with sum_list_indices [OF cand(3,2), of "\<lambda>i. if i = 0 then p else q"]
  show "calls_of n (snd (snd (try_providers c now [llm, fallback] (f, s)))) \<le> calls_of n s + (p + q)"
    by (simp add: try_providers_def cand(1))
  show "length (cooldowns (fst (snd (try_providers c now [llm, fallback] (f, s))))) = 2"
    using assms(3) by (simp add: try_providers_def cand(1) try_loop_cooldowns)
qed

lemma failover_layer_bounded:
  fixes llm fallback :: "(('w, 'r) chain, 'x, 'r) provider_call"
  assumes "raises_by (calls_of n) p llm" and "raises_by not_two 0 llm" and "raises_by (calls_of n) q fallback"
  shows "bounded_calls n (p + (case cfg of None \<Rightarrow> 0 | Some _ \<Rightarrow> q)) (failover_layer W cfg task llm fallback)"
proof (cases cfg)
  case None
  then show ?thesis using bounded_callsI [OF assms(1,2)] by (simp add: failover_layer_def)
next
  case (Some c)
  show ?thesis
    unfolding bounded_calls_def
  proof (intro allI impI)
    fix s :: "('w, 'r) chain"
    assume "two_providers s"
    then have two: "length (cooldowns (failover_state s)) = 2" by (simp add: two_providers_def)
    let ?now = "\<lambda>s. of_nat (clock W (outside s) - epoch W)"
    note facts = try_providers_calls [OF assms(1,3) two, of c ?now s]
    show "calls_of n (snd (failover_layer W cfg task llm fallback s)) \<le>
        calls_of n s + (p + (case cfg of None \<Rightarrow> 0 | Some _ \<Rightarrow> q)) \<and>
      two_providers (snd (failover_layer W cfg task llm fallback s))"
      using facts
      by (cases "try_providers c ?now [llm, fallback] (failover_state s, s)")
        (auto simp: Some failover_layer_def failover_complete_def two_providers_def bind_provider_to_current_task_def
          split: sum.split option.split)
  qed
qed

lemma breaker_layer_bounded:
  assumes "bounded_calls n k llm"
  shows "bounded_calls n k (breaker_layer W cfg llm)"
proof (cases cfg)
  case None
  then show ?thesis using assms by (simp add: breaker_layer_def)
next
  case (Some c)
  have "calls_of n (snd (llm (s\<lparr>breaker_state := b\<rparr>))) \<le> calls_of n s + k \<and>
      two_providers (snd (llm (s\<lparr>breaker_state := b\<rparr>)))" if "two_providers s" for s b
    using assms [unfolded bounded_calls_def, rule_format, of "s\<lparr>breaker_state := b\<rparr>"] that by (simp add: two_providers_def)
  then show ?thesis
    unfolding bounded_calls_def
    by (auto simp: Some breaker_layer_def case_prod_beta two_providers_def split: sum.split)
qed

lemma cache_layer_bounded:
  fixes llm :: "(('w, 'r) chain, 'x, 'r) provider_call"
  assumes "bounded_calls n k llm"
  shows "bounded_calls n k (cache_layer W cfg key llm)"
proof (cases cfg)
  case None
  then show ?thesis using assms by (simp add: cache_layer_def)
next
  case (Some c)
  show ?thesis
    unfolding bounded_calls_def
  proof (intro allI impI)
    fix s :: "('w, 'r) chain"
    assume two: "two_providers s"
    then have "calls_of n (snd (llm s)) \<le> calls_of n s + k \<and> two_providers (snd (llm s))"
      using assms by (simp add: bounded_calls_def)
    with two show "calls_of n (snd (cache_layer W cfg key llm s)) \<le> calls_of n s + k \<and>
        two_providers (snd (cache_layer W cfg key llm s))"
      by (cases rule: cached_complete_cases [of c "\<lambda>s. clock W (outside s)" s key "cache_state s" "iteration W" llm])
        (auto simp: Some cache_layer_def two_providers_def)
  qed
qed

lemma chain_complete_bounded:
  assumes "raises_by n 1 (primary_provider W)" and "raises_by n 1 (cheap_provider W)"
    and "raises_by n 1 (fallback_provider W)" and "quiet_world n (world_of W)"
  shows "bounded_calls n (calls_per_request cfg) (chain_complete W cfg rq)"
proof -
  let ?r = "Suc (unat (max_retries (retrying cfg)))"
  let ?routed = "routing_layer W (routing_to_cheap cfg) (request_complexity rq)
    (retry_layer W (retrying cfg) (primary_provider W)) (retry_layer W (retrying cfg) (cheap_provider W))"
  have routed: "raises_by (calls_of n) (?r + (case routing_to_cheap cfg of None \<Rightarrow> 0 | Some _ \<Rightarrow> ?r)) ?routed"
    by (intro routing_layer_raises retry_layer_raises assms)
  have two: "raises_by not_two 0 ?routed" by (intro routing_layer_two retry_layer_two)
  have "bounded_calls n (?r + (case routing_to_cheap cfg of None \<Rightarrow> 0 | Some _ \<Rightarrow> ?r) +
      (case failing_over cfg of None \<Rightarrow> 0 | Some _ \<Rightarrow> ?r)) (failover_chain W cfg rq)"
    unfolding failover_chain_def Let_def
    by (rule failover_layer_bounded [OF routed two retry_layer_raises [OF assms(3,4)]])
  moreover have "?r + (case routing_to_cheap cfg of None \<Rightarrow> 0 | Some _ \<Rightarrow> ?r) +
      (case failing_over cfg of None \<Rightarrow> 0 | Some _ \<Rightarrow> ?r) = calls_per_request cfg"
    by (auto simp: calls_per_request_def algebra_simps split: option.split)
  ultimately show ?thesis
    unfolding chain_complete_def by (metis breaker_layer_bounded cache_layer_bounded)
qed

lemma chain_run_bounded:
  assumes "\<And>rq. bounded_calls n k (chain_complete W cfg rq)" and "two_providers s"
  shows "calls_of n (chain_run W cfg rqs s) \<le> calls_of n s + length rqs * k \<and> two_providers (chain_run W cfg rqs s)"
  using assms(2)
proof (induction rqs arbitrary: s)
  case (Cons rq rqs)
  then have "calls_of n (snd (chain_complete W cfg rq s)) \<le> calls_of n s + k" "two_providers (snd (chain_complete W cfg rq s))"
    using assms(1) [of rq] by (simp_all add: bounded_calls_def)
  with Cons.IH [of "snd (chain_complete W cfg rq s)"] show ?case by (simp add: chain_run_def)
qed (simp add: chain_run_def)

section \<open>Properties\<close>

text \<open>
  C21. However many requests a chain serves, its providers are called at most once per request for
  each of the configured providers and each attempt of its retry: with three retries, a cheap
  model and a fallback that is twelve calls, without either it is four.
\<close>

theorem chain_calls_bounded:
  assumes "raises_by n 1 (primary_provider W)" and "raises_by n 1 (cheap_provider W)"
    and "raises_by n 1 (fallback_provider W)" and "quiet_world n (world_of W)"
  shows "n (outside (chain_run W cfg rqs (chain_start w))) \<le> n w + length rqs * calls_per_request cfg"
proof -
  have "two_providers (chain_start w)" by (simp add: two_providers_def chain_start_def)
  from chain_run_bounded [OF chain_complete_bounded [OF assms] this] show ?thesis
    by (simp add: chain_start_def)
qed

theorem chain_calls_bounded_witness:
  "(let W = \<lparr>world_of = \<lparr>draw = \<lambda>hi w. (0, w), sleep = \<lambda>d w. w\<rparr>, clock = \<lambda>w. 0, epoch = 0,
          primary_provider = \<lambda>w. (Inl (EmptyResponse ''primary'' :: unit llm_error), w + 1),
          cheap_provider = \<lambda>w. (Inr ''I cannot'', w + 1), fallback_provider = \<lambda>w. (Inr ''fine'', w + 1),
          content_of = id, iteration = \<lambda>_. [], provider_name = ''chain''\<rparr>;
        cfg = \<lparr>retrying = default_retry_config, routing_to_cheap = Some default_routing_config,
          failing_over = Some default_cooldown_config, breaking = Some default_breaker_config,
          caching = Some default_cache_config\<rparr>;
        rq = \<lparr>request_complexity = Moderate, request_key = ''k'', request_task = None\<rparr>
    in outside (chain_run W cfg [rq, rq] (chain_start (0::nat))) \<le> 24)"
proof -
  let ?W = "\<lparr>world_of = \<lparr>draw = \<lambda>hi w. (0, w), sleep = \<lambda>d w. w\<rparr>, clock = \<lambda>w. 0, epoch = 0,
          primary_provider = \<lambda>w. (Inl (EmptyResponse ''primary'' :: unit llm_error), w + 1),
          cheap_provider = \<lambda>w. (Inr ''I cannot'', w + 1), fallback_provider = \<lambda>w. (Inr ''fine'', w + 1),
          content_of = id, iteration = \<lambda>_. [], provider_name = ''chain''\<rparr>"
  let ?cfg = "\<lparr>retrying = default_retry_config, routing_to_cheap = Some default_routing_config,
          failing_over = Some default_cooldown_config, breaking = Some default_breaker_config,
          caching = Some default_cache_config\<rparr>"
  let ?rq = "\<lparr>request_complexity = Moderate, request_key = ''k'', request_task = None\<rparr>"
  have "calls_per_request ?cfg = 12" by (simp add: calls_per_request_def default_retry_config_def)
  then show ?thesis
    using chain_calls_bounded [of id ?W ?cfg "[?rq, ?rq]" 0]
    by (simp add: raises_by_def quiet_world_def)
qed

text \<open>
  While the circuit is open and its timeout has not passed, a request calls no provider: it gets
  a cached answer or the error of the breaker, and nothing outside the chain changes.
\<close>

theorem open_circuit_calls_nobody:
  assumes "breaking cfg = Some b" and "circuit (breaker_state s) = Open" and "opened_at (breaker_state s) = Some t"
    and "clock W (outside s) - t < recovery_timeout b"
  shows "outside (snd (chain_complete W cfg rq s)) = outside s \<and>
    fst (chain_complete W cfg rq s) =
      (case Option.bind (caching cfg)
          (\<lambda>c. fst (cache_lookup c (clock W (outside s)) (request_key rq) (cache_state s))) of
         Some r \<Rightarrow> Inr r
       | None \<Rightarrow> Inl (open_error (provider_name W) (consecutive_failures (breaker_state s))
           (recovery_timeout b - (clock W (outside s) - t))))"
proof -
  have refused: "breaker_layer W (breaking cfg) llm s =
      (Inl (open_error (provider_name W) (consecutive_failures (breaker_state s))
         (recovery_timeout b - (clock W (outside s) - t))), s\<lparr>breaker_state := breaker_state s\<rparr>)" for llm
    using assms by (simp add: breaker_layer_def check_allowed_def)
  show ?thesis
    by (cases "caching cfg")
      (auto simp: chain_complete_def cache_layer_def cached_complete_def refused case_prod_beta split: option.split)
qed

theorem open_circuit_calls_nobody_witness:
  "(let W = \<lparr>world_of = \<lparr>draw = \<lambda>hi w. (0, w), sleep = \<lambda>d w. w\<rparr>, clock = \<lambda>w. w, epoch = 0,
          primary_provider = \<lambda>w. (Inr ''p'', w + 1), cheap_provider = \<lambda>w. (Inr ''c'', w + 1),
          fallback_provider = \<lambda>w. (Inr ''f'' :: (unit llm_error, string) result, w + 1),
          content_of = id, iteration = \<lambda>_. [], provider_name = ''chain''\<rparr>;
        cfg = \<lparr>retrying = default_retry_config, routing_to_cheap = None, failing_over = None,
          breaking = Some default_breaker_config, caching = None\<rparr>;
        rq = \<lparr>request_complexity = Moderate, request_key = ''k'', request_task = None\<rparr>;
        s = (chain_start 7)\<lparr>breaker_state := breaker_new\<lparr>circuit := Open, opened_at := Some 3\<rparr>\<rparr>
    in outside (snd (chain_complete W cfg rq s)) = 7)"
proof -
  let ?W = "\<lparr>world_of = \<lparr>draw = \<lambda>hi w. (0, w), sleep = \<lambda>d w. w\<rparr>, clock = \<lambda>w. w, epoch = 0,
          primary_provider = \<lambda>w. (Inr ''p'', w + 1), cheap_provider = \<lambda>w. (Inr ''c'', w + 1),
          fallback_provider = \<lambda>w. (Inr ''f'' :: (unit llm_error, string) result, w + 1),
          content_of = id, iteration = \<lambda>_. [], provider_name = ''chain''\<rparr>"
  let ?cfg = "\<lparr>retrying = default_retry_config, routing_to_cheap = None, failing_over = None,
          breaking = Some default_breaker_config, caching = None\<rparr>"
  let ?rq = "\<lparr>request_complexity = Moderate, request_key = ''k'', request_task = None\<rparr>"
  let ?s = "(chain_start 7)\<lparr>breaker_state := breaker_new\<lparr>circuit := Open, opened_at := Some 3\<rparr>\<rparr>"
  show ?thesis
    using open_circuit_calls_nobody [of ?cfg default_breaker_config ?s 3 ?W ?rq]
    by (simp add: default_breaker_config_def chain_start_def)
qed

end
