(* ===== verification/Mission.thy ===== *)
theory Mission
  imports ThreadMachine
begin

text \<open>
  Missions, \<open>crates/ironclaw_engine/src/types/mission.rs\<close>: the long-running goals that spawn
  threads, with their cadences, guardrails and the normalisation of cron expressions. \<open>'j\<close>
  stands for JSON values; text is ASCII where the code looks into it.
\<close>

section \<open>Data\<close>

datatype mission_status = MissionActive | MissionPaused | MissionCompleted | MissionFailed

datatype 'j mission_cadence =
  Cron string "string option"
| OnEvent string "string option"
| OnSystemEvent string string "(string \<times> 'j) list"
| Webhook string "string option"
| Manual

record 'j mission =
  mission_id :: uuid
  mission_project :: uuid
  mission_user :: string
  mission_name :: string
  mission_description :: "string option"
  mission_goal :: string
  status :: mission_status
  cadence :: "'j mission_cadence"
  current_focus :: "string option"
  approach_history :: "string list"
  thread_history :: "uuid list"
  success_criteria :: "string option"
  notify_channels :: "string list"
  notify_user :: "string option"
  context_paths :: "string list"
  max_threads_per_day :: "32 word"
  threads_today :: "32 word"
  cooldown_secs :: "64 word"
  max_concurrent :: "32 word"
  dedup_window_secs :: "64 word"
  last_fire_at :: "utc option"
  last_trigger_payload :: "'j option"
  mission_metadata :: 'j
  mission_created_at :: utc
  mission_updated_at :: utc
  next_fire_at :: "utc option"

fun reactive :: "'j mission_cadence \<Rightarrow> bool" where
  "reactive (OnEvent _ _) = True"
| "reactive (OnSystemEvent _ _ _) = True"
| "reactive (Webhook _ _) = True"
| "reactive _ = False"

text \<open>Reactive missions start with tighter guardrails.\<close>

definition mission_new :: "uuid \<Rightarrow> utc \<Rightarrow> 'j \<Rightarrow> uuid \<Rightarrow> string \<Rightarrow> string \<Rightarrow> string \<Rightarrow> 'j mission_cadence \<Rightarrow> 'j mission" where
  "mission_new fresh now empty_object project user name goal_text c = \<lparr>
     mission_id = fresh, mission_project = project, mission_user = user, mission_name = name,
     mission_description = None, mission_goal = goal_text, status = MissionActive, cadence = c,
     current_focus = None, approach_history = [], thread_history = [], success_criteria = None,
     notify_channels = [], notify_user = None, context_paths = [],
     max_threads_per_day = (if reactive c then 24 else 10), threads_today = 0,
     cooldown_secs = (if reactive c then 300 else 0), max_concurrent = (if reactive c then 1 else 0),
     dedup_window_secs = 0, last_fire_at = None, last_trigger_payload = None,
     mission_metadata = empty_object, mission_created_at = now, mission_updated_at = now, next_fire_at = None\<rparr>"

lemma mission_new_fields [simp]:
  "mission_id (mission_new i t j p u n g c) = i" "mission_user (mission_new i t j p u n g c) = u"
  "mission_project (mission_new i t j p u n g c) = p" "status (mission_new i t j p u n g c) = MissionActive"
  "cadence (mission_new i t j p u n g c) = c" "thread_history (mission_new i t j p u n g c) = []"
  "max_threads_per_day (mission_new i t j p u n g c) = (if reactive c then 24 else 10)"
  "threads_today (mission_new i t j p u n g c) = 0" "cooldown_secs (mission_new i t j p u n g c) = (if reactive c then 300 else 0)"
  "max_concurrent (mission_new i t j p u n g c) = (if reactive c then 1 else 0)"
  "last_fire_at (mission_new i t j p u n g c) = None"
  by (simp_all add: mission_new_def)

definition with_success_criteria :: "string \<Rightarrow> 'j mission \<Rightarrow> 'j mission" where
  "with_success_criteria c m = m\<lparr>success_criteria := Some c\<rparr>"

definition mission_owner :: "'j mission \<Rightarrow> owner_id" where
  "mission_owner m = from_user_id (mission_user m)"

definition mission_owned_by :: "'j mission \<Rightarrow> string \<Rightarrow> bool" where
  "mission_owned_by m uid = matches_user (mission_owner m) uid"

definition record_thread :: "utc \<Rightarrow> uuid \<Rightarrow> 'j mission \<Rightarrow> 'j mission" where
  "record_thread now tid m = m\<lparr>thread_history := thread_history m @ [tid], mission_updated_at := now\<rparr>"

definition mission_terminal :: "'j mission \<Rightarrow> bool" where
  "mission_terminal m \<longleftrightarrow> status m = MissionCompleted \<or> status m = MissionFailed"

definition is_event_driven :: "'j mission \<Rightarrow> bool" where
  "is_event_driven m \<longleftrightarrow> reactive (cadence m)"

section \<open>Cron expressions\<close>

lemma dropWhile_shrinks:
  assumes "dropWhile is_space s = c # cs"
  shows "length (dropWhile (\<lambda>x. \<not> is_space x) (c # cs)) < length s"
proof -
  have "\<not> is_space c" using assms hd_dropWhile [of is_space s] by auto
  then have "length (dropWhile (\<lambda>x. \<not> is_space x) (c # cs)) \<le> length cs"
    by (simp add: length_dropWhile_le)
  moreover have "length (c # cs) \<le> length s" using assms length_dropWhile_le [of is_space s] by simp
  ultimately show ?thesis by simp
qed

text \<open>\<open>split_whitespace\<close>.\<close>

function split_whitespace :: "string \<Rightarrow> string list" where
  "split_whitespace s =
     (case dropWhile is_space s of
        [] \<Rightarrow> []
      | c # cs \<Rightarrow> takeWhile (\<lambda>x. \<not> is_space x) (c # cs) # split_whitespace (dropWhile (\<lambda>x. \<not> is_space x) (c # cs)))"
  by pat_completeness auto
termination
  by (relation "measure length") (auto dest: dropWhile_shrinks)

declare split_whitespace.simps [simp del]

definition is_digit :: "char \<Rightarrow> bool" where
  "is_digit c \<longleftrightarrow> 48 \<le> (of_char c :: nat) \<and> (of_char c :: nat) \<le> 57"

definition digits_value :: "string \<Rightarrow> nat" where
  "digits_value s = foldl (\<lambda>n c. 10 * n + (of_char c - 48)) 0 s"

definition is_year_field :: "string \<Rightarrow> bool" where
  "is_year_field f \<longleftrightarrow> length f = 4 \<and> list_all is_digit f \<and> 1970 \<le> digits_value f \<and> digits_value f \<le> 2099"

text \<open>The errors of missions: \<open>EngineError::InvalidCadence\<close>, and the others the manager returns.\<close>

datatype mission_error =
  AmbiguousYear string
| WrongFieldCount string nat
| CronParse string string
| NoUpcomingFire string
| MissionNotFound uuid
| MissionAccessDenied string uuid
| NotResumable uuid mission_status
| MissionStoreError string
| MissionSpawnError string

definition normalize_cron_expression :: "string \<Rightarrow> (mission_error, string) result" where
  "normalize_cron_expression expression =
     (let trimmed = trim expression;
          fields = split_whitespace trimmed
      in if length fields = 5 then Inr (''0 '' @ join_with (CHR '' '') fields @ '' *'')
         else if length fields = 6 then
           (if is_year_field (last fields) then Inl (AmbiguousYear expression)
            else Inr (join_with (CHR '' '') fields @ '' *''))
         else if length fields = 7 then Inr trimmed
         else Inl (WrongFieldCount expression (length fields)))"

text \<open>
  \<open>upcoming\<close> is the cron library: it parses a normalised expression and gives the first instant
  after now in a time zone, if there is one.
\<close>

type_synonym cron_library = "string \<Rightarrow> string option \<Rightarrow> utc \<Rightarrow> (string, utc option) result"

definition next_cron_fire :: "cron_library \<Rightarrow> utc \<Rightarrow> string \<Rightarrow> string option \<Rightarrow> (mission_error, utc option) result" where
  "next_cron_fire upcoming now expression timezone =
     (case normalize_cron_expression expression of
        Inl e \<Rightarrow> Inl e
      | Inr normalized \<Rightarrow>
          (case upcoming normalized timezone now of
             Inl e \<Rightarrow> Inl (CronParse expression e)
           | Inr next \<Rightarrow> Inr next))"

definition next_cron_fire_required :: "cron_library \<Rightarrow> utc \<Rightarrow> string \<Rightarrow> string option \<Rightarrow> (mission_error, utc) result" where
  "next_cron_fire_required upcoming now expression timezone =
     (case next_cron_fire upcoming now expression timezone of
        Inl e \<Rightarrow> Inl e
      | Inr None \<Rightarrow> Inl (NoUpcomingFire expression)
      | Inr (Some t) \<Rightarrow> Inr t)"

section \<open>Fields\<close>

lemma split_whitespace_Nil [simp]: "split_whitespace [] = []"
  by (simp add: split_whitespace.simps)

lemma split_whitespace_space: "is_space c \<Longrightarrow> split_whitespace (c # s) = split_whitespace s"
  by (subst (1 2) split_whitespace.simps) simp

lemma split_whitespace_word:
  assumes "w \<noteq> []" and "list_all (\<lambda>c. \<not> is_space c) w"
  shows "split_whitespace (w @ CHR '' '' # s) = w # split_whitespace s" and "split_whitespace w = [w]"
proof -
  obtain c cs where w: "w = c # cs" and c: "\<not> is_space c" using assms by (cases w) auto
  have sp: "is_space (CHR '' '')" by (simp add: is_space_def)
  have take: "takeWhile (\<lambda>x. \<not> is_space x) (w @ CHR '' '' # s) = w"
    "dropWhile (\<lambda>x. \<not> is_space x) (w @ CHR '' '' # s) = CHR '' '' # s"
    using assms(2) sp by (simp_all add: list_all_iff takeWhile_append dropWhile_append)
  show "split_whitespace (w @ CHR '' '' # s) = w # split_whitespace s"
    using take c split_whitespace_space [OF sp, of s] by (subst split_whitespace.simps) (simp add: w)
  have word: "takeWhile (\<lambda>x. \<not> is_space x) cs = cs" "dropWhile (\<lambda>x. \<not> is_space x) cs = []"
    using assms(2) by (simp_all add: w list_all_iff)
  then show "split_whitespace w = [w]"
    using c by (subst split_whitespace.simps) (simp add: w word)
qed

definition field_list :: "string list \<Rightarrow> bool" where
  "field_list fs \<longleftrightarrow> list_all (\<lambda>f. f \<noteq> [] \<and> list_all (\<lambda>c. \<not> is_space c) f) fs"

lemma split_whitespace_fields: "field_list (split_whitespace s)"
proof (induction s rule: split_whitespace.induct)
  case (1 s)
  show ?case
  proof (cases "dropWhile is_space s")
    case Nil
    then have "split_whitespace s = []" by (subst split_whitespace.simps) (simp only: list.case)
    then show ?thesis by (simp add: field_list_def)
  next
    case (Cons c cs)
    then have "\<not> is_space c" using hd_dropWhile [of is_space s] by auto
    moreover have "list_all (\<lambda>x. \<not> is_space x) (takeWhile (\<lambda>x. \<not> is_space x) (c # cs))"
      unfolding list_all_iff by (blast dest: set_takeWhileD)
    ultimately show ?thesis
      using 1 [OF Cons] by (subst split_whitespace.simps) (simp add: Cons field_list_def)
  qed
qed

lemma split_fields: "field_list fs \<Longrightarrow> split_whitespace (join_with (CHR '' '') fs) = fs"
proof (induction fs)
  case (Cons f fs)
  then show ?case
    using split_whitespace_word(1) [of f "join_with (CHR '' '') fs"] split_whitespace_word(2) [of f] by (cases fs) (simp_all add: field_list_def join_Cons)
qed simp

section \<open>Properties\<close>

text \<open>
  A normalised cron expression has the seven fields the scheduler expects: the five or six fields
  given, with 0 seconds and every year added, or the seven given; any other number of fields
  and a six-field expression that ends in a year are refused.
\<close>

theorem normalized_cron_fields:
  "(case normalize_cron_expression e of
      Inr n \<Rightarrow>
        length (split_whitespace n) = 7 \<and>
        (let fs = split_whitespace (trim e)
         in split_whitespace n = (if length fs = 5 then [''0''] @ fs @ [''*'']
              else if length fs = 6 then fs @ [''*''] else fs))
    | Inl err \<Rightarrow>
        err = WrongFieldCount e (length (split_whitespace (trim e))) \<and> length (split_whitespace (trim e)) \<notin> {5, 6, 7} \<or>
        err = AmbiguousYear e \<and> is_year_field (last (split_whitespace (trim e))))"
proof -
  let ?fs = "split_whitespace (trim e)"
  have fs: "field_list ?fs" by (rule split_whitespace_fields)
  have star: "field_list (?fs @ [''*''])" "field_list ([''0''] @ ?fs @ [''*''])"
    using fs by (simp_all add: field_list_def is_space_def)
  have six: "split_whitespace (join_with (CHR '' '') ?fs @ '' *'') = ?fs @ [''*'']" if "?fs \<noteq> []"
    using split_fields [OF star(1)] join_snoc [OF that, of "CHR '' ''" "''*''"] by simp
  have five: "split_whitespace (''0 '' @ join_with (CHR '' '') ?fs @ '' *'') = [''0''] @ ?fs @ [''*'']" if "?fs \<noteq> []"
    using split_fields [OF star(2)] join_Cons [of "?fs @ [''*'']" "CHR '' ''" "''0''"] join_snoc [OF that, of "CHR '' ''" "''*''"] that by simp
  consider "length ?fs = 5" | "length ?fs = 6" | "length ?fs = 7" | "length ?fs \<notin> {5, 6, 7}" by auto
  then show ?thesis
  proof cases
    case 1
    then have "?fs \<noteq> []" by auto
    from five [OF this] 1 show ?thesis by (simp add: normalize_cron_expression_def Let_def)
  next
    case 2
    then have "?fs \<noteq> []" by auto
    from six [OF this] 2 show ?thesis by (simp add: normalize_cron_expression_def Let_def)
  qed (simp_all add: normalize_cron_expression_def Let_def)
qed

end
