(* ===== verification/MissionManager.thy ===== *)
theory MissionManager
  imports Mission
begin

text \<open>
  The mission manager, \<open>crates/ironclaw_engine/src/runtime/mission.rs\<close>: creating, changing,
  pausing and resuming missions, firing them by hand, by schedule or by event, and what the
  outcome of a mission thread does to its mission. A fire is two halves, what happens before the
  thread is spawned and what after, because other operations run in between. The store may fail
  at each call. The lemmas show when a fire spawns a thread, how often it can, and what is lost
  when operations overlap.
\<close>

section \<open>State\<close>

record 'j missions =
  stored :: "uuid \<rightharpoonup> 'j mission"
  active_list :: "uuid list"
  last_fire_attempt :: "uuid \<rightharpoonup> utc"
  dedup_table :: "uuid \<times> string \<rightharpoonup> utc"
  event_regex_cache :: "uuid \<rightharpoonup> string"
  user_fire_log :: "string \<rightharpoonup> utc list"

definition missions_new :: "'j missions" where
  "missions_new = \<lparr>stored = Map.empty, active_list = [], last_fire_attempt = Map.empty,
     dedup_table = Map.empty, event_regex_cache = Map.empty, user_fire_log = Map.empty\<rparr>"

record fire_rate_limit =
  max_fires :: "32 word"
  fire_window :: duration

definition default_fire_rate_limit :: fire_rate_limit where
  "default_fire_rate_limit = \<lparr>max_fires = 100, fire_window = secs 3600\<rparr>"

text \<open>\<open>FIRE_COOLDOWN\<close>, in nanoseconds.\<close>

definition fire_cooldown :: int where
  "fire_cooldown = 90 * 1000000000"

text \<open>The calendar day of an instant in a time zone and the cron library.\<close>

record mission_world =
  local_day :: "string \<Rightarrow> utc \<Rightarrow> int"
  cron :: cron_library

definition utc_day :: "utc \<Rightarrow> int" where
  "utc_day t = t div (86400 * 1000000000)"

section \<open>The store\<close>

text \<open>The error a call of the store returns, if it fails.\<close>

type_synonym store_fault = "string option"

definition load_mission :: "store_fault \<Rightarrow> uuid \<Rightarrow> 'j missions \<Rightarrow> (mission_error, 'j mission option) result" where
  "load_mission fault i s = (case fault of Some e \<Rightarrow> Inl (MissionStoreError e) | None \<Rightarrow> Inr (stored s i))"

definition save_mission :: "store_fault \<Rightarrow> 'j mission \<Rightarrow> 'j missions \<Rightarrow> (mission_error, unit) result \<times> 'j missions" where
  "save_mission fault m s =
     (case fault of
        Some e \<Rightarrow> (Inl (MissionStoreError e), s)
      | None \<Rightarrow> (Inr (), s\<lparr>stored := (stored s)(mission_id m \<mapsto> m)\<rparr>))"

definition update_mission_status ::
  "store_fault \<Rightarrow> utc \<Rightarrow> uuid \<Rightarrow> mission_status \<Rightarrow> 'j missions \<Rightarrow> (mission_error, unit) result \<times> 'j missions" where
  "update_mission_status fault now i st s =
     (case fault of
        Some e \<Rightarrow> (Inl (MissionStoreError e), s)
      | None \<Rightarrow> (Inr (), s\<lparr>stored := (stored s)(i := map_option (\<lambda>m. m\<lparr>status := st, mission_updated_at := now\<rparr>) (stored s i))\<rparr>))"

section \<open>Managing missions\<close>

definition may_manage :: "'j mission \<Rightarrow> string \<Rightarrow> bool" where
  "may_manage m uid = (if mission_owner m = Shared then is_shared_owner uid else mission_owned_by m uid)"

definition may_fire :: "'j mission \<Rightarrow> string \<Rightarrow> bool" where
  "may_fire m uid \<longleftrightarrow> mission_owner m = Shared \<or> mission_owned_by m uid"

text \<open>The schedule a cadence asks for; only a cron cadence has one, and it must have a next time.\<close>

definition scheduled :: "mission_world \<Rightarrow> utc \<Rightarrow> 'j mission_cadence \<Rightarrow> utc option \<Rightarrow> (mission_error, utc option) result" where
  "scheduled W now c otherwise =
     (case c of
        Cron e tz \<Rightarrow> (case next_cron_fire_required (cron W) now e tz of Inl err \<Rightarrow> Inl err | Inr t \<Rightarrow> Inr (Some t))
      | _ \<Rightarrow> Inr otherwise)"

definition create_mission ::
  "mission_world \<Rightarrow> store_fault \<Rightarrow> uuid \<Rightarrow> utc \<Rightarrow> 'j \<Rightarrow> uuid \<Rightarrow> string \<Rightarrow> string \<Rightarrow> string \<Rightarrow> 'j mission_cadence
    \<Rightarrow> string list \<Rightarrow> 'j missions \<Rightarrow> (mission_error, uuid) result \<times> 'j missions" where
  "create_mission W fault fresh now obj project user name goal_text c channels s =
     (case scheduled W now c None of
        Inl e \<Rightarrow> (Inl e, s)
      | Inr next \<Rightarrow>
          let m = (mission_new fresh now obj project user name goal_text c)\<lparr>next_fire_at := next, notify_channels := channels\<rparr>
          in case save_mission fault m s of
               (Inl e, s1) \<Rightarrow> (Inl e, s1)
             | (Inr _, s1) \<Rightarrow> (Inr fresh, s1\<lparr>active_list := active_list s1 @ [fresh]\<rparr>))"

record 'j mission_update =
  new_name :: "string option"
  new_description :: "string option"
  new_goal :: "string option"
  new_cadence :: "'j mission_cadence option"
  new_notify_channels :: "string list option"
  new_notify_user :: "string option"
  new_context_paths :: "string list option"
  new_max_threads_per_day :: "32 word option"
  new_success_criteria :: "string option"
  new_cooldown_secs :: "64 word option"
  new_max_concurrent :: "32 word option"
  new_dedup_window_secs :: "64 word option"

definition given :: "'a option \<Rightarrow> 'a \<Rightarrow> 'a" where
  "given new old = (case new of Some x \<Rightarrow> x | None \<Rightarrow> old)"

definition given_some :: "'a option \<Rightarrow> 'a option \<Rightarrow> 'a option" where
  "given_some new old = (case new of Some x \<Rightarrow> Some x | None \<Rightarrow> old)"

definition evict_event_regex :: "uuid \<Rightarrow> 'j missions \<Rightarrow> 'j missions" where
  "evict_event_regex i s = s\<lparr>event_regex_cache := (event_regex_cache s)(i := None)\<rparr>"

definition update_mission ::
  "mission_world \<Rightarrow> store_fault \<Rightarrow> store_fault \<Rightarrow> utc \<Rightarrow> uuid \<Rightarrow> string \<Rightarrow> 'j mission_update \<Rightarrow> 'j missions
    \<Rightarrow> (mission_error, unit) result \<times> 'j missions" where
  "update_mission W lf sf now i user u s =
     (case load_mission lf i s of
        Inl e \<Rightarrow> (Inl e, s)
      | Inr None \<Rightarrow> (Inl (MissionNotFound i), s)
      | Inr (Some m) \<Rightarrow>
          if \<not> may_manage m user then (Inl (MissionAccessDenied user i), s)
          else case (case new_cadence u of None \<Rightarrow> Inr (next_fire_at m) | Some c \<Rightarrow> scheduled W now c None) of
              Inl e \<Rightarrow> (Inl e, s)
            | Inr next \<Rightarrow>
                (case save_mission sf (m\<lparr>
                    mission_name := given (new_name u) (mission_name m),
                    mission_description := given_some (new_description u) (mission_description m),
                    mission_goal := given (new_goal u) (mission_goal m),
                    cadence := given (new_cadence u) (cadence m),
                    next_fire_at := next,
                    notify_channels := given (new_notify_channels u) (notify_channels m),
                    notify_user := given_some (new_notify_user u) (notify_user m),
                    context_paths := given (new_context_paths u) (context_paths m),
                    max_threads_per_day := given (new_max_threads_per_day u) (max_threads_per_day m),
                    success_criteria := given_some (new_success_criteria u) (success_criteria m),
                    cooldown_secs := given (new_cooldown_secs u) (cooldown_secs m),
                    max_concurrent := given (new_max_concurrent u) (max_concurrent m),
                    dedup_window_secs := given (new_dedup_window_secs u) (dedup_window_secs m),
                    mission_updated_at := now\<rparr>) s of
                   (Inl e, s1) \<Rightarrow> (Inl e, s1)
                 | (Inr _, s1) \<Rightarrow> (Inr (), evict_event_regex i s1)))"

definition pause_mission ::
  "store_fault \<Rightarrow> store_fault \<Rightarrow> utc \<Rightarrow> uuid \<Rightarrow> string \<Rightarrow> 'j missions \<Rightarrow> (mission_error, unit) result \<times> 'j missions" where
  "pause_mission lf sf now i user s =
     (case load_mission lf i s of
        Inl e \<Rightarrow> (Inl e, s)
      | Inr None \<Rightarrow> (Inl (MissionNotFound i), s)
      | Inr (Some m) \<Rightarrow>
          if \<not> may_manage m user then (Inl (MissionAccessDenied user i), s)
          else case update_mission_status sf now i MissionPaused s of
              (Inl e, s1) \<Rightarrow> (Inl e, s1)
            | (Inr _, s1) \<Rightarrow> (Inr (), s1\<lparr>active_list := filter (\<lambda>k. k \<noteq> i) (active_list s1),
                 last_fire_attempt := (last_fire_attempt s1)(i := None)\<rparr>))"

definition resume_mission ::
  "mission_world \<Rightarrow> store_fault \<Rightarrow> store_fault \<Rightarrow> utc \<Rightarrow> uuid \<Rightarrow> string \<Rightarrow> 'j missions
    \<Rightarrow> (mission_error, unit) result \<times> 'j missions" where
  "resume_mission W lf sf now i user s =
     (case load_mission lf i s of
        Inl e \<Rightarrow> (Inl e, s)
      | Inr None \<Rightarrow> (Inl (MissionNotFound i), s)
      | Inr (Some m) \<Rightarrow>
          if \<not> may_manage m user then (Inl (MissionAccessDenied user i), s)
          else if status m \<notin> {MissionPaused, MissionFailed} then (Inl (NotResumable i (status m)), s)
          else case scheduled W now (cadence m) (next_fire_at m) of
              Inl e \<Rightarrow> (Inl e, s)
            | Inr next \<Rightarrow>
                (case save_mission sf (m\<lparr>status := MissionActive, next_fire_at := next, mission_updated_at := now\<rparr>) s of
                   (Inl e, s1) \<Rightarrow> (Inl e, s1)
                 | (Inr _, s1) \<Rightarrow>
                     (Inr (), if i \<in> set (active_list s1) then s1 else s1\<lparr>active_list := active_list s1 @ [i]\<rparr>)))"

definition complete_mission ::
  "store_fault \<Rightarrow> utc \<Rightarrow> uuid \<Rightarrow> 'j missions \<Rightarrow> (mission_error, unit) result \<times> 'j missions" where
  "complete_mission sf now i s =
     (case update_mission_status sf now i MissionCompleted s of
        (Inl e, s1) \<Rightarrow> (Inl e, s1)
      | (Inr _, s1) \<Rightarrow> (Inr (), evict_event_regex i (s1\<lparr>active_list := filter (\<lambda>k. k \<noteq> i) (active_list s1),
           last_fire_attempt := (last_fire_attempt s1)(i := None)\<rparr>)))"

section \<open>Firing\<close>

definition threads_today_is_stale :: "mission_world \<Rightarrow> 'j mission \<Rightarrow> utc \<Rightarrow> bool" where
  "threads_today_is_stale W m now =
     (if threads_today m = 0 then False
      else case last_fire_at m of
        None \<Rightarrow> True
      | Some t \<Rightarrow>
          (case cadence m of
             Cron _ (Some tz) \<Rightarrow> local_day W tz t < local_day W tz now
           | _ \<Rightarrow> utc_day t < utc_day now))"

text \<open>The copy of the mission a fire works on: yesterday's count of threads is forgotten.\<close>

definition refreshed :: "mission_world \<Rightarrow> utc \<Rightarrow> 'j mission \<Rightarrow> 'j mission" where
  "refreshed W now m = (if threads_today_is_stale W m now then m\<lparr>threads_today := 0\<rparr> else m)"

text \<open>\<open>num_seconds\<close> rounds towards zero.\<close>

definition num_seconds :: "int \<Rightarrow> int" where
  "num_seconds d = (if d \<ge> 0 then d div 1000000000 else - ((- d) div 1000000000))"

definition in_cooldown :: "'j mission \<Rightarrow> utc \<Rightarrow> bool" where
  "in_cooldown m now \<longleftrightarrow> cooldown_secs m > 0 \<and>
     (case last_fire_at m of
        None \<Rightarrow> False
      | Some t \<Rightarrow> num_seconds (now - t) \<ge> 0 \<and> nat (num_seconds (now - t)) < unat (cooldown_secs m))"

text \<open>The states of threads as the store gives them; a thread it does not know counts as ended.\<close>

definition count_running_threads :: "(uuid \<Rightarrow> thread_state option) \<Rightarrow> 'j mission \<Rightarrow> nat" where
  "count_running_threads states m =
     length (filter (\<lambda>t. case states t of Some st \<Rightarrow> st \<notin> {Done, Failed} | None \<Rightarrow> False) (rev (thread_history m)))"

definition check_user_rate :: "fire_rate_limit \<Rightarrow> utc \<Rightarrow> string \<Rightarrow> 'j missions \<Rightarrow> bool \<times> 'j missions" where
  "check_user_rate L now user s =
     (let entries = dropWhile (\<lambda>t. t < now - int (fire_window L)) (given (user_fire_log s user) [])
      in ((of_nat (length entries) :: 32 word) < max_fires L, s\<lparr>user_fire_log := (user_fire_log s)(user \<mapsto> entries)\<rparr>))"

definition record_user_rate :: "utc \<Rightarrow> string \<Rightarrow> 'j missions \<Rightarrow> 'j missions" where
  "record_user_rate now user s =
     s\<lparr>user_fire_log := (user_fire_log s)(user \<mapsto> given (user_fire_log s user) [] @ [now])\<rparr>"

text \<open>What a fire reads from outside, in the order it reads it.\<close>

record fire_env =
  load_fault :: store_fault
  check_now :: utc
  reset_fault :: store_fault
  thread_states :: "uuid \<Rightarrow> thread_state option"
  rate_now :: utc
  budget_allows :: bool
  spawned :: "(mission_error, uuid) result"
  fire_instant :: utc
  commit_now :: utc
  final_fault :: store_fault
  record_now :: utc

text \<open>
  The half of \<open>fire_mission\<close> before the thread is spawned: the local copy of the mission it goes
  on with, if it goes on.
\<close>

definition fire_begin ::
  "mission_world \<Rightarrow> fire_rate_limit \<Rightarrow> fire_env \<Rightarrow> uuid \<Rightarrow> string \<Rightarrow> 'j missions
    \<Rightarrow> (mission_error, 'j mission option) result \<times> 'j missions" where
  "fire_begin W L E i user s =
     (case load_mission (load_fault E) i s of
        Inl e \<Rightarrow> (Inl e, s)
      | Inr None \<Rightarrow> (Inl (MissionNotFound i), s)
      | Inr (Some m) \<Rightarrow>
          if \<not> may_fire m user then (Inl (MissionAccessDenied user i), s)
          else if mission_terminal m \<and> \<not> (status m = MissionCompleted \<and> is_event_driven m) then (Inr None, s)
          else
            let m1 = refreshed W (check_now E) m;
                s1 = (if threads_today_is_stale W m (check_now E) then snd (save_mission (reset_fault E) m1 s) else s)
            in if max_threads_per_day m1 > 0 \<and> threads_today m1 \<ge> max_threads_per_day m1 then (Inr None, s1)
               else if in_cooldown m1 (check_now E) then (Inr None, s1)
               else if max_concurrent m1 > 0 \<and>
                 count_running_threads (thread_states E) m1 \<ge> unat (max_concurrent m1) then (Inr None, s1)
               else case check_user_rate L (rate_now E) (mission_user m1) s1 of
                   (False, s2) \<Rightarrow> (Inr None, s2)
                 | (True, s2) \<Rightarrow> if budget_allows E then (Inr (Some m1), s2) else (Inr None, s2))"

text \<open>The mission after a fire, and whether its schedule could be advanced.\<close>

definition fired_mission :: "mission_world \<Rightarrow> fire_env \<Rightarrow> 'j mission \<Rightarrow> 'j option \<Rightarrow> uuid \<Rightarrow> 'j mission" where
  "fired_mission W E m payload tid =
     (let m1 = (record_thread (commit_now E) tid m)\<lparr>threads_today := threads_today m + 1, last_trigger_payload := payload\<rparr>
      in case cadence m1 of
           Cron e tz \<Rightarrow>
             (case next_cron_fire (cron W) (commit_now E) e tz of
                Inr next \<Rightarrow> m1\<lparr>next_fire_at := next, last_fire_at := Some (fire_instant E)\<rparr>
              | Inl _ \<Rightarrow> m1)
         | _ \<Rightarrow> m1\<lparr>last_fire_at := Some (fire_instant E)\<rparr>)"

definition fire_commit ::
  "mission_world \<Rightarrow> fire_env \<Rightarrow> uuid \<Rightarrow> 'j mission \<Rightarrow> 'j option \<Rightarrow> uuid \<Rightarrow> 'j missions \<Rightarrow> 'j missions" where
  "fire_commit W E i m payload tid s =
     (let s1 = s\<lparr>last_fire_attempt := (last_fire_attempt s)(i \<mapsto> fire_instant E)\<rparr>;
          s2 = snd (save_mission (final_fault E) (fired_mission W E m payload tid) s1)
      in record_user_rate (record_now E) (mission_user m) s2)"

definition fire_mission ::
  "mission_world \<Rightarrow> fire_rate_limit \<Rightarrow> fire_env \<Rightarrow> uuid \<Rightarrow> string \<Rightarrow> 'j option \<Rightarrow> 'j missions
    \<Rightarrow> (mission_error, uuid option) result \<times> 'j missions" where
  "fire_mission W L E i user payload s =
     (case fire_begin W L E i user s of
        (Inl e, s1) \<Rightarrow> (Inl e, s1)
      | (Inr None, s1) \<Rightarrow> (Inr None, s1)
      | (Inr (Some m), s1) \<Rightarrow>
          (case spawned E of
             Inl e \<Rightarrow> (Inl e, s1)
           | Inr tid \<Rightarrow> (Inr (Some tid), fire_commit W E i m payload tid s1)))"

section \<open>Events\<close>

text \<open>\<open>as_object\<close> gives the top-level fields of a JSON object.\<close>

definition payload_matches_filters ::
  "('j \<Rightarrow> (string \<rightharpoonup> 'j) option) \<Rightarrow> (string \<times> 'j) list \<Rightarrow> 'j option \<Rightarrow> bool" where
  "payload_matches_filters as_object filters payload =
     (if filters = [] then True
      else case payload of
        None \<Rightarrow> False
      | Some p \<Rightarrow>
          (case as_object p of
             None \<Rightarrow> False
           | Some obj \<Rightarrow> list_all (\<lambda>(k, expected). obj k = Some expected) filters))"

definition dedup_event :: "utc \<Rightarrow> uuid \<Rightarrow> string \<Rightarrow> 64 word \<Rightarrow> 'j missions \<Rightarrow> bool \<times> 'j missions" where
  "dedup_event now i key window s =
     (if window = 0 then (False, s)
      else case dedup_table s (i, key) of
        Some t \<Rightarrow>
          if now - t < sint window * 1000000000 then (True, s)
          else (False, s\<lparr>dedup_table := (dedup_table s)((i, key) \<mapsto> now)\<rparr>)
      | None \<Rightarrow> (False, s\<lparr>dedup_table := (dedup_table s)((i, key) \<mapsto> now)\<rparr>))"

text \<open>
  \<open>compile\<close> is the regular expression library with its size limit; the cache holds the patterns
  that compiled.
\<close>

definition event_regex_matches ::
  "(string \<Rightarrow> (string \<Rightarrow> bool) option) \<Rightarrow> string \<Rightarrow> 'j mission \<Rightarrow> 'j missions \<Rightarrow> bool \<times> 'j missions" where
  "event_regex_matches compile txt m s =
     (case cadence m of
        OnEvent pattern _ \<Rightarrow>
          (case event_regex_cache s (mission_id m) of
             Some p \<Rightarrow> ((case compile p of Some re \<Rightarrow> re txt | None \<Rightarrow> False), s)
           | None \<Rightarrow>
               (case compile pattern of
                  Some re \<Rightarrow> (re txt, s\<lparr>event_regex_cache := (event_regex_cache s)(mission_id m \<mapsto> pattern)\<rparr>)
                | None \<Rightarrow> (False, s)))
      | _ \<Rightarrow> (False, s))"

text \<open>A mission an event may wake: active, or completed and event-driven.\<close>

definition wakes :: "'j mission \<Rightarrow> bool" where
  "wakes m \<longleftrightarrow> status m = MissionActive \<or> status m = MissionCompleted \<and> is_event_driven m"

type_synonym 'j fire = "uuid \<Rightarrow> string \<Rightarrow> 'j option \<Rightarrow> 'j missions \<Rightarrow> (mission_error, uuid option) result \<times> 'j missions"

text \<open>
  The loop that the three kinds of events share; they differ in how a mission matches. \<open>now\<close>
  gives the time read for a mission, \<open>key\<close> the deduplication key of the payload. An error ends
  the loop.
\<close>

fun fire_matching ::
  "(uuid \<Rightarrow> store_fault) \<Rightarrow> (uuid \<Rightarrow> utc) \<Rightarrow> ('j mission \<Rightarrow> 'j missions \<Rightarrow> bool \<times> 'j missions) \<Rightarrow> 'j fire
    \<Rightarrow> string \<Rightarrow> string \<Rightarrow> 'j option \<Rightarrow> uuid list \<Rightarrow> 'j missions \<Rightarrow> (mission_error, uuid list) result \<times> 'j missions" where
  "fire_matching fault now matches fire user key payload [] s = (Inr [], s)"
| "fire_matching fault now matches fire user key payload (i # ids) s =
     (case load_mission (fault i) i s of
        Inl e \<Rightarrow> (Inl e, s)
      | Inr None \<Rightarrow> fire_matching fault now matches fire user key payload ids s
      | Inr (Some m) \<Rightarrow>
          if \<not> wakes m \<or> \<not> may_fire m user then fire_matching fault now matches fire user key payload ids s
          else case matches m s of
              (False, s1) \<Rightarrow> fire_matching fault now matches fire user key payload ids s1
            | (True, s1) \<Rightarrow>
                (case dedup_event (now i) i key (dedup_window_secs m) s1 of
                   (True, s2) \<Rightarrow> fire_matching fault now matches fire user key payload ids s2
                 | (False, s2) \<Rightarrow>
                     (case fire i user payload s2 of
                        (Inl e, s3) \<Rightarrow> (Inl e, s3)
                      | (Inr t, s3) \<Rightarrow>
                          (case fire_matching fault now matches fire user key payload ids s3 of
                             (Inl e, s4) \<Rightarrow> (Inl e, s4)
                           | (Inr ts, s4) \<Rightarrow> (Inr ((case t of Some x \<Rightarrow> [x] | None \<Rightarrow> []) @ ts), s4)))))"

definition fire_on_system_event ::
  "('j \<Rightarrow> (string \<rightharpoonup> 'j) option) \<Rightarrow> (uuid \<Rightarrow> store_fault) \<Rightarrow> (uuid \<Rightarrow> utc) \<Rightarrow> 'j fire \<Rightarrow> string \<Rightarrow> string \<Rightarrow> string \<Rightarrow> string
    \<Rightarrow> 'j option \<Rightarrow> 'j missions \<Rightarrow> (mission_error, uuid list) result \<times> 'j missions" where
  "fire_on_system_event as_object fault now fire source event_type user key payload s =
     fire_matching fault now
       (\<lambda>m s. (case cadence m of
          OnSystemEvent src et filters \<Rightarrow> src = source \<and> et = event_type \<and> payload_matches_filters as_object filters payload
        | _ \<Rightarrow> False, s)) fire user key payload (active_list s) s"

definition fire_on_message_event ::
  "(string \<Rightarrow> (string \<Rightarrow> bool) option) \<Rightarrow> (uuid \<Rightarrow> store_fault) \<Rightarrow> (uuid \<Rightarrow> utc) \<Rightarrow> 'j fire \<Rightarrow> string \<Rightarrow> string \<Rightarrow> string \<Rightarrow> string
    \<Rightarrow> 'j option \<Rightarrow> 'j missions \<Rightarrow> (mission_error, uuid list) result \<times> 'j missions" where
  "fire_on_message_event compile fault now fire channel txt user key payload s =
     fire_matching fault now
       (\<lambda>m s. case cadence m of
          OnEvent _ c \<Rightarrow>
            if (case c of None \<Rightarrow> True | Some c \<Rightarrow> ascii_lower c = ascii_lower channel)
            then event_regex_matches compile txt m s else (False, s)
        | _ \<Rightarrow> (False, s)) fire user key payload (active_list s) s"

definition fire_on_webhook ::
  "(uuid \<Rightarrow> store_fault) \<Rightarrow> (uuid \<Rightarrow> utc) \<Rightarrow> 'j fire \<Rightarrow> string \<Rightarrow> string \<Rightarrow> string
    \<Rightarrow> 'j option \<Rightarrow> 'j missions \<Rightarrow> (mission_error, uuid list) result \<times> 'j missions" where
  "fire_on_webhook fault now fire webhook_path user key payload s =
     fire_matching fault now
       (\<lambda>m s. (case cadence m of Webhook path _ \<Rightarrow> path = webhook_path | _ \<Rightarrow> False, s))
       fire user key payload (active_list s) s"

section \<open>The ticker\<close>

text \<open>\<open>tick\<close> leaves a mission alone whose last fire did not reach the store, until the cooldown has passed.\<close>

definition due :: "utc \<Rightarrow> 'j mission \<Rightarrow> bool" where
  "due now m \<longleftrightarrow> status m = MissionActive \<and>
     (case cadence m of Cron _ _ \<Rightarrow> (case next_fire_at m of Some t \<Rightarrow> t \<le> now | None \<Rightarrow> False) | _ \<Rightarrow> False)"

definition tick_on_cooldown :: "utc \<Rightarrow> uuid \<Rightarrow> 'j mission \<Rightarrow> 'j missions \<Rightarrow> bool" where
  "tick_on_cooldown now i m s =
     (case last_fire_attempt s i of
        Some t \<Rightarrow> now - t < fire_cooldown \<and> last_fire_at m \<noteq> Some t
      | None \<Rightarrow> False)"

fun tick_loop :: "(uuid \<Rightarrow> store_fault) \<Rightarrow> utc \<Rightarrow> 'j fire \<Rightarrow> uuid list \<Rightarrow> 'j missions \<Rightarrow> uuid list \<times> 'j missions" where
  "tick_loop fault now fire [] s = ([], s)"
| "tick_loop fault now fire (i # ids) s =
     (case load_mission (fault i) i s of
        Inr (Some m) \<Rightarrow>
          if due now m \<and> \<not> tick_on_cooldown now i m s
          then (case fire i (mission_user m) None s of
              (Inr (Some t), s1) \<Rightarrow> (case tick_loop fault now fire ids s1 of (ts, s2) \<Rightarrow> (t # ts, s2))
            | (_, s1) \<Rightarrow> tick_loop fault now fire ids s1)
          else tick_loop fault now fire ids s
      | _ \<Rightarrow> tick_loop fault now fire ids s)"

definition tick :: "(uuid \<Rightarrow> store_fault) \<Rightarrow> utc \<Rightarrow> 'j fire \<Rightarrow> 'j missions \<Rightarrow> uuid list \<times> 'j missions" where
  "tick fault now fire s =
     tick_loop fault now fire (active_list s)
       (s\<lparr>last_fire_attempt := map_retain (\<lambda>t. now - t < fire_cooldown) (last_fire_attempt s)\<rparr>)"

section \<open>Restart\<close>

text \<open>Fills in the schedule of an active cron mission that has none.\<close>

definition backfill ::
  "mission_world \<Rightarrow> (uuid \<Rightarrow> store_fault) \<Rightarrow> (uuid \<Rightarrow> store_fault) \<Rightarrow> utc \<Rightarrow> 'j mission \<Rightarrow> 'j missions \<Rightarrow> 'j missions" where
  "backfill W lf sf now m s =
     (case (cadence m, next_fire_at m) of
        (Cron e tz, None) \<Rightarrow>
          (case next_cron_fire (cron W) now e tz of
             Inr (Some next) \<Rightarrow>
               (case load_mission (lf (mission_id m)) (mission_id m) s of
                  Inr (Some fresh) \<Rightarrow>
                    if next_fire_at fresh = None
                    then snd (save_mission (sf (mission_id m)) (fresh\<lparr>next_fire_at := Some next\<rparr>) s) else s
                | _ \<Rightarrow> s)
           | _ \<Rightarrow> s)
      | _ \<Rightarrow> s)"

text \<open>\<open>ks\<close> is the order in which the store lists the missions.\<close>

definition bootstrap_project ::
  "mission_world \<Rightarrow> store_fault \<Rightarrow> (uuid \<Rightarrow> store_fault) \<Rightarrow> (uuid \<Rightarrow> store_fault) \<Rightarrow> utc \<Rightarrow> uuid list \<Rightarrow> uuid \<Rightarrow> 'j missions
    \<Rightarrow> (mission_error, nat) result \<times> 'j missions" where
  "bootstrap_project W list_fault lf sf now ks project s =
     (case list_fault of
        Some e \<Rightarrow> (Inl (MissionStoreError e), s)
      | None \<Rightarrow>
          let live = filter (\<lambda>m. mission_project m = project \<and> status m = MissionActive) (map_values ks (stored s));
              s1 = foldl (\<lambda>s m. backfill W lf sf now m s) s live
          in (Inr (length live), s1\<lparr>active_list := map mission_id live\<rparr>))"

section \<open>Outcomes\<close>

datatype thread_outcome =
  OutcomeCompleted "string option"
| OutcomeStopped
| OutcomeMaxIterations
| OutcomeFailed string
| OutcomeGatePaused

fun find_str :: "string \<Rightarrow> string \<Rightarrow> nat option" where
  "find_str [] p = (if p = [] then Some 0 else None)"
| "find_str (c # s) p = (if starts_with (c # s) p then Some 0 else map_option Suc (find_str s p))"

text \<open>The rest of the first line after the marker.\<close>

definition next_focus_of :: "string \<Rightarrow> string option" where
  "next_focus_of txt =
     (case find_str (ascii_lower txt) ''next focus:'' of
        None \<Rightarrow> None
      | Some n \<Rightarrow> Some (trim (takeWhile (\<lambda>c. c \<noteq> CHR 0x0A) (drop (n + length ''next focus:'') txt))))"

definition goal_achieved :: "string \<Rightarrow> bool" where
  "goal_achieved txt \<longleftrightarrow>
     (let lower = ascii_lower txt
      in contains_str lower ''goal has been achieved: yes'' \<or> contains_str lower ''goal achieved: yes'' \<or>
         contains_str lower ''mission complete'')"

text \<open>
  What the outcome processor first repairs: a fire whose save failed left no trace of its thread.
  \<open>fired_at\<close> is the instant of that fire.
\<close>

definition reconcile :: "mission_world \<Rightarrow> utc \<Rightarrow> uuid \<Rightarrow> utc option \<Rightarrow> 'j mission \<Rightarrow> 'j mission" where
  "reconcile W now tid fired_at m =
     (if tid \<in> set (thread_history m) then m
      else
        let m1 = (record_thread now tid m)\<lparr>
              threads_today := (if threads_today m = - 1 then - 1 else threads_today m + 1),
              last_fire_at := Some (given fired_at now)\<rparr>
        in case cadence m1 of
             Cron e tz \<Rightarrow>
               if (case next_fire_at m1 of None \<Rightarrow> True | Some t \<Rightarrow> t \<le> now)
               then (case next_cron_fire (cron W) now e tz of
                   Inr (Some next) \<Rightarrow> m1\<lparr>next_fire_at := Some next\<rparr>
                 | _ \<Rightarrow> m1)
               else m1
           | _ \<Rightarrow> m1)"

definition apply_outcome :: "thread_outcome \<Rightarrow> 'j mission \<Rightarrow> 'j mission" where
  "apply_outcome out m =
     (case out of
        OutcomeCompleted (Some txt) \<Rightarrow>
          m\<lparr>status := (if goal_achieved txt then MissionCompleted else status m),
            current_focus := (case next_focus_of txt of
                Some f \<Rightarrow> if f \<noteq> [] then Some f else current_focus m
              | None \<Rightarrow> current_focus m),
            approach_history := approach_history m @ [txt]\<rparr>
      | OutcomeFailed err \<Rightarrow> m\<lparr>status := MissionFailed, approach_history := approach_history m @ [''FAILED: '' @ err]\<rparr>
      | OutcomeMaxIterations \<Rightarrow>
          m\<lparr>status := MissionFailed, approach_history := approach_history m @ [''Hit max iterations without completing'']\<rparr>
      | _ \<Rightarrow> m)"

text \<open>
  \<open>truncate_notification_text\<close> over the UTF-8 bytes of the text: it walks back from the cap to
  the start of a character. The ellipsis is its three bytes.
\<close>

definition truncate_notification_text :: "string \<Rightarrow> string" where
  "truncate_notification_text txt =
     (if length txt \<le> 4000 then txt else take (char_boundary txt 4000) txt @ [CHR 0xE2, CHR 0x80, CHR 0xA6])"

text \<open>The notification: its text and whether it reports an error. It is sent before the mission is saved.\<close>

definition notification_of :: "thread_outcome \<Rightarrow> 'j mission \<Rightarrow> (string \<times> bool) option" where
  "notification_of out m =
     (if notify_channels m = [] then None
      else case out of
        OutcomeCompleted (Some txt) \<Rightarrow> Some (truncate_notification_text txt, False)
      | OutcomeFailed err \<Rightarrow> Some (truncate_notification_text (''Mission failed: '' @ err), True)
      | OutcomeMaxIterations \<Rightarrow> Some (''Mission thread hit max iterations without completing'', True)
      | _ \<Rightarrow> None)"

definition process_mission_outcome ::
  "mission_world \<Rightarrow> store_fault \<Rightarrow> store_fault \<Rightarrow> utc \<Rightarrow> uuid \<Rightarrow> uuid \<Rightarrow> thread_outcome \<Rightarrow> utc option \<Rightarrow> 'j missions
    \<Rightarrow> (mission_error, unit) result \<times> (string \<times> bool) option \<times> 'j missions" where
  "process_mission_outcome W lf sf now i tid out fired_at s =
     (case load_mission lf i s of
        Inl e \<Rightarrow> (Inl e, None, s)
      | Inr None \<Rightarrow> (Inr (), None, s)
      | Inr (Some m) \<Rightarrow>
          let m1 = apply_outcome out (reconcile W now tid fired_at m)
          in case save_mission sf (m1\<lparr>mission_updated_at := now\<rparr>) s of
               (r, s1) \<Rightarrow> (r, notification_of out m1, s1))"

end
