(* ===== verification/MissionFires.thy ===== *)
theory MissionFires
  imports MissionManager
begin

text \<open>
  The behaviour of the mission manager: when a fire goes on and what it leaves, how often a
  mission fires over a run of fires, how often a user's missions fire, what overlapping fires and
  pauses do, and how the outcome of a thread repairs a fire whose save was lost.
\<close>

section \<open>When a fire goes on\<close>

lemma refreshed_fields [simp]:
  "mission_id (refreshed W now m) = mission_id m" "mission_user (refreshed W now m) = mission_user m"
  "status (refreshed W now m) = status m" "cadence (refreshed W now m) = cadence m"
  "thread_history (refreshed W now m) = thread_history m" "last_fire_at (refreshed W now m) = last_fire_at m"
  "max_threads_per_day (refreshed W now m) = max_threads_per_day m" "cooldown_secs (refreshed W now m) = cooldown_secs m"
  "max_concurrent (refreshed W now m) = max_concurrent m"
  by (simp_all add: refreshed_def)

lemma count_running_refreshed [simp]: "count_running_threads f (refreshed W now m) = count_running_threads f m"
  by (simp add: count_running_threads_def)

lemma in_cooldown_refreshed [simp]: "in_cooldown (refreshed W now m) t = in_cooldown m t"
  by (simp add: in_cooldown_def cong: option.case_cong)

text \<open>Everything that must hold for the first half to go on.\<close>

definition may_go_on :: "mission_world \<Rightarrow> fire_rate_limit \<Rightarrow> fire_env \<Rightarrow> string \<Rightarrow> 'j missions \<Rightarrow> 'j mission \<Rightarrow> bool" where
  "may_go_on W L E user s m \<longleftrightarrow>
     may_fire m user \<and> (mission_terminal m \<longrightarrow> status m = MissionCompleted \<and> is_event_driven m) \<and>
     (max_threads_per_day m > 0 \<longrightarrow> threads_today (refreshed W (check_now E) m) < max_threads_per_day m) \<and>
     \<not> in_cooldown m (check_now E) \<and>
     (max_concurrent m > 0 \<longrightarrow> count_running_threads (thread_states E) m < unat (max_concurrent m)) \<and>
     fst (check_user_rate L (rate_now E) (mission_user m) s) \<and> budget_allows E"

lemma save_mission_fields [simp]:
  "user_fire_log (snd (save_mission f m s)) = user_fire_log s" "active_list (snd (save_mission f m s)) = active_list s"
  "last_fire_attempt (snd (save_mission f m s)) = last_fire_attempt s"
  by (simp_all add: save_mission_def split: option.split)

lemma check_user_rate_fields [simp]:
  "stored (snd (check_user_rate L t u s)) = stored s" "active_list (snd (check_user_rate L t u s)) = active_list s"
  by (simp_all add: check_user_rate_def Let_def)

lemma check_user_rate_log: "user_fire_log s = user_fire_log s' \<Longrightarrow> fst (check_user_rate L t u s) = fst (check_user_rate L t u s')"
  by (simp add: check_user_rate_def Let_def)

lemma check_user_rate_saved [simp]:
  "fst (check_user_rate L t u (snd (save_mission f m s))) = fst (check_user_rate L t u s)"
  by (rule check_user_rate_log) simp

text \<open>The state a fire leaves when it got as far as the check of the user's rate.\<close>

definition checked :: "mission_world \<Rightarrow> fire_rate_limit \<Rightarrow> fire_env \<Rightarrow> 'j mission \<Rightarrow> 'j missions \<Rightarrow> 'j missions" where
  "checked W L E m s = snd (check_user_rate L (rate_now E) (mission_user m)
     (if threads_today_is_stale W m (check_now E) then snd (save_mission (reset_fault E) (refreshed W (check_now E) m) s)
      else s))"

lemma fire_begin_goes_on:
  assumes "load_fault E = None" and "stored s i = Some m" and "may_go_on W L E user s m"
  shows "fire_begin W L E i user s = (Inr (Some (refreshed W (check_now E) m)), checked W L E m s)"
  using assms(3)
  by (auto simp: fire_begin_def load_mission_def assms(1,2) may_go_on_def checked_def Let_def case_prod_beta
      split: bool.split)

lemma fire_begin_stops:
  assumes "stored s i = Some m" and "\<not> may_go_on W L E user s m"
  shows "\<nexists>m' s'. fire_begin W L E i user s = (Inr (Some m'), s')"
  using assms(2)
  by (auto simp: fire_begin_def load_mission_def assms(1) may_go_on_def Let_def case_prod_beta not_le
      split: bool.splits option.splits if_splits)

lemma fire_mission_spawns:
  "fst (fire_mission W L E i user payload s) = Inr (Some tid) \<longleftrightarrow>
   (\<exists>m. load_fault E = None \<and> stored s i = Some m \<and> may_go_on W L E user s m \<and> spawned E = Inr tid)"
proof (cases "\<exists>m. load_fault E = None \<and> stored s i = Some m \<and> may_go_on W L E user s m")
  case True
  then obtain m where m: "load_fault E = None" "stored s i = Some m" "may_go_on W L E user s m" by blast
  show ?thesis
    unfolding fire_mission_def fire_begin_goes_on [OF m] using m by (auto split: sum.split)
next
  case False
  have "\<nexists>m' s'. fire_begin W L E i user s = (Inr (Some m'), s')"
  proof (cases "load_fault E = None \<and> stored s i \<noteq> None")
    case True
    with False fire_begin_stops [of s i _ W L E user] show ?thesis by blast
  next
    case False
    then show ?thesis by (auto simp: fire_begin_def load_mission_def split: option.splits)
  qed
  with False show ?thesis
    by (cases "fire_begin W L E i user s"; cases "fst (fire_begin W L E i user s)")
      (auto simp: fire_mission_def split: option.split)
qed

lemma fire_mission_state:
  assumes "load_fault E = None" and "stored s i = Some m" and "may_go_on W L E user s m" and "spawned E = Inr tid"
  shows "fire_mission W L E i user payload s =
    (Inr (Some tid), fire_commit W E i (refreshed W (check_now E) m) payload tid (checked W L E m s))"
  unfolding fire_mission_def fire_begin_goes_on [OF assms(1-3)] by (simp add: assms(4))

lemma commit_stored:
  "stored (fire_commit W E i m payload tid s) =
   (if final_fault E = None then (stored s)(mission_id m \<mapsto> fired_mission W E m payload tid) else stored s)"
  by (auto simp: fire_commit_def Let_def save_mission_def record_user_rate_def fired_mission_def record_thread_def
      split: option.split mission_cadence.split sum.split)

lemma commit_active [simp]: "active_list (fire_commit W E i m payload tid s) = active_list s"
  by (simp add: fire_commit_def Let_def record_user_rate_def)

lemma fired_fields [simp]:
  "status (fired_mission W E m payload tid) = status m" "cadence (fired_mission W E m payload tid) = cadence m"
  "mission_id (fired_mission W E m payload tid) = mission_id m" "mission_user (fired_mission W E m payload tid) = mission_user m"
  "threads_today (fired_mission W E m payload tid) = threads_today m + 1"
  "thread_history (fired_mission W E m payload tid) = thread_history m @ [tid]"
  "max_threads_per_day (fired_mission W E m payload tid) = max_threads_per_day m"
  "cooldown_secs (fired_mission W E m payload tid) = cooldown_secs m"
  "max_concurrent (fired_mission W E m payload tid) = max_concurrent m"
  by (simp_all add: fired_mission_def record_thread_def Let_def split: mission_cadence.split sum.split)

section \<open>How often a mission fires\<close>

text \<open>
  The fires of one mission, one after the other, and what the manager saves of it in between: a
  refused or failing fire, a pause, a resumption, its completion, an update that leaves its cadence
  and its limits, the schedule filled in at a restart, and the outcome of a thread it has recorded;
  other missions change as they like. \<open>ts\<close> lists the instants of its fires and \<open>u\<close> is the latest time
  a fire read, which never goes back. Left out are a fire whose save fails or whose schedule cannot
  be parsed, after which the store does not know of it, and operations between its two halves.
\<close>

inductive fire_history ::
  "mission_world \<Rightarrow> fire_rate_limit \<Rightarrow> uuid \<Rightarrow> 'j mission \<Rightarrow> 'j missions \<Rightarrow> utc list \<Rightarrow> utc \<Rightarrow> bool"
  for W L i m0 where
  unfired: "stored s i = Some m0 \<Longrightarrow> mission_id m0 = i \<Longrightarrow> threads_today m0 = 0 \<Longrightarrow> fire_history W L i m0 s [] u"
| elsewhere: "fire_history W L i m0 s ts u \<Longrightarrow> stored s' i = stored s i \<Longrightarrow> fire_history W L i m0 s' ts u"
| refused: "fire_history W L i m0 s ts u \<Longrightarrow> fire_mission W L E i user payload s = (r, s') \<Longrightarrow>
    \<forall>tid. r \<noteq> Inr (Some tid) \<Longrightarrow> u \<le> check_now E \<Longrightarrow> fire_history W L i m0 s' ts (check_now E)"
| fired: "fire_history W L i m0 s ts u \<Longrightarrow> fire_mission W L E i user payload s = (Inr (Some tid), s') \<Longrightarrow>
    final_fault E = None \<Longrightarrow> u \<le> check_now E \<Longrightarrow> check_now E \<le> fire_instant E \<Longrightarrow>
    \<forall>e tz. cadence m0 = Cron e tz \<longrightarrow> is_ok (next_cron_fire (cron W) (commit_now E) e tz) \<Longrightarrow>
    fire_history W L i m0 s' (ts @ [fire_instant E]) (fire_instant E)"
| paused: "fire_history W L i m0 s ts u \<Longrightarrow> fire_history W L i m0 (snd (pause_mission lf sf now i user s)) ts u"
| resumed: "fire_history W L i m0 s ts u \<Longrightarrow> fire_history W L i m0 (snd (resume_mission W lf sf now i user s)) ts u"
| completed: "fire_history W L i m0 s ts u \<Longrightarrow> fire_history W L i m0 (snd (complete_mission sf now i s)) ts u"
| updated: "fire_history W L i m0 s ts u \<Longrightarrow> given (new_cadence up) (cadence m0) = cadence m0 \<Longrightarrow>
    given (new_max_threads_per_day up) (max_threads_per_day m0) = max_threads_per_day m0 \<Longrightarrow>
    given (new_cooldown_secs up) (cooldown_secs m0) = cooldown_secs m0 \<Longrightarrow>
    fire_history W L i m0 (snd (update_mission W lf sf now i user up s)) ts u"
| backfilled: "fire_history W L i m0 s ts u \<Longrightarrow> mission_id m = i \<Longrightarrow> fire_history W L i m0 (backfill W lfs sfs now m s) ts u"
| outcome: "fire_history W L i m0 s ts u \<Longrightarrow> stored s i = Some m \<Longrightarrow> tid \<in> set (thread_history m) \<Longrightarrow>
    fire_history W L i m0 (snd (snd (process_mission_outcome W lf sf now i tid out fired_at s))) ts u"

text \<open>The day an instant lies on for a mission.\<close>

definition mission_day :: "mission_world \<Rightarrow> 'j mission \<Rightarrow> utc \<Rightarrow> int" where
  "mission_day W m = (case cadence m of Cron _ (Some tz) \<Rightarrow> local_day W tz | _ \<Rightarrow> utc_day)"

lemma mono_mission_day:
  assumes "\<And>tz. mono (local_day W tz)"
  shows "mono (mission_day W m)"
proof -
  have "mono utc_day" by (auto simp: utc_day_def intro!: monoI zdiv_mono1)
  with assms show ?thesis by (auto simp: mission_day_def split: mission_cadence.split option.split)
qed

lemma stale_iff:
  "threads_today_is_stale W m now \<longleftrightarrow> threads_today m \<noteq> 0 \<and>
   (case last_fire_at m of None \<Rightarrow> True | Some t \<Rightarrow> mission_day W m t < mission_day W m now)"
  by (auto simp: threads_today_is_stale_def mission_day_def split: option.split mission_cadence.split)

abbreviation fires_on :: "mission_world \<Rightarrow> 'j mission \<Rightarrow> int \<Rightarrow> utc list \<Rightarrow> nat" where
  "fires_on W m d ts \<equiv> length (filter (\<lambda>t. mission_day W m t = d) ts)"

definition budget_kept :: "mission_world \<Rightarrow> 'j mission \<Rightarrow> 'j mission \<Rightarrow> utc list \<Rightarrow> utc \<Rightarrow> bool" where
  "budget_kept W m0 m ts u \<longleftrightarrow>
     mission_id m = mission_id m0 \<and> cadence m = cadence m0 \<and> max_threads_per_day m = max_threads_per_day m0 \<and>
     cooldown_secs m = cooldown_secs m0 \<and>
     (ts \<noteq> [] \<longrightarrow> last_fire_at m = Some (last ts) \<and> last ts \<le> u) \<and> sorted ts \<and>
     successively (\<lambda>a b. a + int (unat (cooldown_secs m0)) * 1000000000 \<le> b) ts \<and>
     (0 < max_threads_per_day m0 \<longrightarrow>
       (ts \<noteq> [] \<longrightarrow> mission_day W m0 (last ts) < mission_day W m0 u \<or>
         fires_on W m0 (mission_day W m0 (last ts)) ts \<le> unat (threads_today m)) \<and>
       threads_today m \<le> max_threads_per_day m0 \<and>
       (\<forall>d. fires_on W m0 d ts \<le> unat (max_threads_per_day m0)))"

lemma cooldown_passed:
  assumes "\<not> in_cooldown m now" and "last_fire_at m = Some t" and "t \<le> now"
  shows "t + int (unat (cooldown_secs m)) * 1000000000 \<le> now"
proof (cases "cooldown_secs m = 0")
  case False
  then have "unat (cooldown_secs m) \<le> nat (num_seconds (now - t))" "num_seconds (now - t) \<ge> 0"
    using assms by (auto simp: in_cooldown_def num_seconds_def word_gt_0)
  then have "int (unat (cooldown_secs m)) \<le> (now - t) div 1000000000"
    using assms(3) by (simp add: num_seconds_def le_nat_iff)
  then have "int (unat (cooldown_secs m)) * 1000000000 \<le> (now - t) div 1000000000 * 1000000000" by simp
  also have "\<dots> \<le> now - t" by (simp add: minus_mod_eq_div_mult [symmetric])
  finally show ?thesis by simp
qed (use assms in simp)

lemma no_later_day:
  assumes "mono (mission_day W m0)" and "\<forall>t \<in> set ts. t \<le> u" and "mission_day W m0 u < d"
  shows "fires_on W m0 d ts = 0"
  using assms by (auto simp: filter_empty_conv dest: monoD)

lemma budget_kept_fire:
  assumes "budget_kept W m0 m ts u" and mono: "mono (mission_day W m0)"
    and go: "may_go_on W L E user s m" and late: "u \<le> check_now E" "check_now E \<le> fire_instant E"
    and ok: "\<forall>e tz. cadence m0 = Cron e tz \<longrightarrow> is_ok (next_cron_fire (cron W) (commit_now E) e tz)"
  shows "budget_kept W m0 (fired_mission W E (refreshed W (check_now E) m) payload tid) (ts @ [fire_instant E]) (fire_instant E)"
proof -
  let ?r = "refreshed W (check_now E) m" and ?t = "fire_instant E"
  let ?f = "fired_mission W E ?r payload tid" and ?d = "mission_day W m0 (fire_instant E)"
  have base: "mission_id m = mission_id m0" "cadence m = cadence m0" "max_threads_per_day m = max_threads_per_day m0"
    "cooldown_secs m = cooldown_secs m0" "sorted ts"
    "successively (\<lambda>a b. a + int (unat (cooldown_secs m0)) * 1000000000 \<le> b) ts"
    and last: "ts \<noteq> [] \<Longrightarrow> last_fire_at m = Some (last ts) \<and> last ts \<le> u"
    using assms(1) by (auto simp: budget_kept_def)
  have day: "mission_day W m = mission_day W m0" by (simp add: mission_day_def base(2))
  have fire: "last_fire_at ?f = Some ?t"
    using ok by (auto simp: fired_mission_def record_thread_def Let_def base(2) is_ok_iff split: mission_cadence.split)
  have old: "t \<le> last ts" if "t \<in> set ts" for t
    using that base(5) by (cases ts rule: rev_cases) (auto simp: sorted_append)
  have upto: "\<forall>t \<in> set ts. t \<le> ?t" using old last late by (fastforce intro: order_trans)
  have spaced: "successively (\<lambda>a b. a + int (unat (cooldown_secs m0)) * 1000000000 \<le> b) (ts @ [?t])"
  proof (cases "ts = []")
    case False
    then have "last ts + int (unat (cooldown_secs m)) * 1000000000 \<le> check_now E"
      using cooldown_passed [of m "check_now E" "last ts"] last go late(1) by (auto simp: may_go_on_def)
    then show ?thesis using base late(2) False by (simp add: successively_append_iff)
  qed simp
  have "0 < max_threads_per_day m0 \<longrightarrow>
      fires_on W m0 ?d (ts @ [?t]) \<le> unat (threads_today ?f) \<and> threads_today ?f \<le> max_threads_per_day m0 \<and>
      (\<forall>d. fires_on W m0 d (ts @ [?t]) \<le> unat (max_threads_per_day m0))"
  proof
    assume limited: "0 < max_threads_per_day m0"
    then have kept: "ts \<noteq> [] \<Longrightarrow> mission_day W m0 (last ts) < mission_day W m0 u \<or>
        fires_on W m0 (mission_day W m0 (last ts)) ts \<le> unat (threads_today m)"
      "\<And>d. fires_on W m0 d ts \<le> unat (max_threads_per_day m0)"
      using assms(1) by (auto simp: budget_kept_def)
    have below: "threads_today ?r < max_threads_per_day m0" using go limited base(3) by (simp add: may_go_on_def)
    have room: "unat (threads_today ?r + 1) = unat (threads_today ?r) + 1"
      using below unsigned_less [where 'a = nat, of "max_threads_per_day m0"]
      by (simp add: unat_word_ariths unat_of_nat take_bit_nat_eq_self word_less_nat_alt)
    have today: "fires_on W m0 ?d ts \<le> unat (threads_today ?r)"
    proof (cases "ts = [] \<or> mission_day W m0 (last ts) < ?d")
      case True
      with old no_later_day [OF mono, of ts "last ts"] show ?thesis by auto
    next
      case False
      then have ne: "ts \<noteq> []" and same: "\<not> mission_day W m0 (last ts) < ?d" by auto
      have le: "mission_day W m0 (last ts) \<le> mission_day W m0 u" "mission_day W m0 u \<le> mission_day W m0 (check_now E)"
        "mission_day W m0 (check_now E) \<le> ?d"
        using last [OF ne] late by (auto intro: monoD [OF mono])
      then have "\<not> threads_today_is_stale W m (check_now E)" using same last [OF ne] by (simp add: stale_iff day)
      moreover have eq: "?d = mission_day W m0 (last ts)" using same le by linarith
      moreover have "fires_on W m0 (mission_day W m0 (last ts)) ts \<le> unat (threads_today m)"
        using kept(1) [OF ne] same le by linarith
      ultimately show ?thesis unfolding eq by (simp only: refreshed_def if_False)
    qed
    have "fires_on W m0 d (ts @ [?t]) \<le> unat (max_threads_per_day m0)" for d
      using kept(2) [of d] today below by (auto simp: word_less_nat_alt)
    moreover have "threads_today ?r + 1 \<le> max_threads_per_day m0"
      using below room by (simp add: word_le_nat_alt word_less_nat_alt)
    ultimately show "fires_on W m0 ?d (ts @ [?t]) \<le> unat (threads_today ?f) \<and> threads_today ?f \<le> max_threads_per_day m0 \<and>
        (\<forall>d. fires_on W m0 d (ts @ [?t]) \<le> unat (max_threads_per_day m0))"
      using today by (simp add: room)
  qed
  with base spaced fire upto show ?thesis
    by (simp add: budget_kept_def sorted_append)
qed

lemma budget_kept_refused:
  assumes "budget_kept W m0 m ts u" and mono: "mono (mission_day W m0)" and "u \<le> now"
  shows "budget_kept W m0 m ts now" and "budget_kept W m0 (refreshed W now m) ts now"
proof -
  have later: "mission_day W m0 u \<le> mission_day W m0 now" using assms(3) by (rule monoD [OF mono])
  then show kept: "budget_kept W m0 m ts now" using assms(1,3) by (fastforce simp: budget_kept_def)
  have "mission_day W m = mission_day W m0" using assms(1) by (simp add: mission_day_def budget_kept_def)
  then show "budget_kept W m0 (refreshed W now m) ts now"
    using kept by (auto simp: budget_kept_def refreshed_def stale_iff split: option.splits)
qed

text \<open>A save that leaves what the guardrails look at.\<close>

definition same_guardrails :: "'j mission \<Rightarrow> 'j mission \<Rightarrow> bool" where
  "same_guardrails m m' \<longleftrightarrow> mission_id m' = mission_id m \<and> cadence m' = cadence m \<and> max_threads_per_day m' = max_threads_per_day m \<and>
     cooldown_secs m' = cooldown_secs m \<and> threads_today m' = threads_today m \<and> last_fire_at m' = last_fire_at m"

definition keeps_guardrails :: "uuid \<Rightarrow> 'j mission \<Rightarrow> 'j missions \<Rightarrow> bool" where
  "keeps_guardrails i m s \<longleftrightarrow> (\<exists>m'. stored s i = Some m' \<and> same_guardrails m m')"

lemma keeps_guardrailsI:
  "stored s i = Some m' \<Longrightarrow> same_guardrails m m' \<Longrightarrow> keeps_guardrails i m s"
  by (auto simp: keeps_guardrails_def)

lemma budget_kept_same: "budget_kept W m0 m ts u \<Longrightarrow> same_guardrails m m' \<Longrightarrow> budget_kept W m0 m' ts u"
  by (simp add: budget_kept_def same_guardrails_def)

lemma outcome_keeps_guardrails: "same_guardrails m (apply_outcome out m)"
  by (cases out) (auto simp: apply_outcome_def same_guardrails_def split: option.split)

lemma manager_keeps_guardrails:
  assumes "stored s i = Some m" and "mission_id m = i"
  shows "keeps_guardrails i m (snd (pause_mission lf sf now i user s))"
    and "keeps_guardrails i m (snd (resume_mission W lf sf now i user s))"
    and "keeps_guardrails i m (snd (complete_mission sf now i s))"
    and "mission_id m1 = i \<Longrightarrow> keeps_guardrails i m (backfill W lfs sfs now m1 s)"
    and "tid \<in> set (thread_history m) \<Longrightarrow> keeps_guardrails i m (snd (snd (process_mission_outcome W lf sf now i tid out fired_at s)))"
proof -
  note sets = keeps_guardrails_def same_guardrails_def load_mission_def save_mission_def update_mission_status_def assms
  show "keeps_guardrails i m (snd (pause_mission lf sf now i user s))"
    by (simp add: pause_mission_def sets split: option.split sum.split)
  show "keeps_guardrails i m (snd (resume_mission W lf sf now i user s))"
    by (simp add: resume_mission_def sets split: option.split sum.split)
  show "keeps_guardrails i m (snd (complete_mission sf now i s))"
    by (simp add: complete_mission_def evict_event_regex_def sets split: option.split sum.split)
  show "mission_id m1 = i \<Longrightarrow> keeps_guardrails i m (backfill W lfs sfs now m1 s)"
    by (simp add: backfill_def sets split: option.split sum.split mission_cadence.split)
  show "tid \<in> set (thread_history m) \<Longrightarrow> keeps_guardrails i m (snd (snd (process_mission_outcome W lf sf now i tid out fired_at s)))"
    using outcome_keeps_guardrails [of m out]
    by (simp add: process_mission_outcome_def reconcile_def Let_def load_mission_def save_mission_def assms keeps_guardrails_def
        same_guardrails_def split: option.split)
qed

lemma update_keeps_guardrails:
  assumes "stored s i = Some m" and "mission_id m = i" and "given (new_cadence up) (cadence m) = cadence m"
    and "given (new_max_threads_per_day up) (max_threads_per_day m) = max_threads_per_day m"
    and "given (new_cooldown_secs up) (cooldown_secs m) = cooldown_secs m"
  shows "keeps_guardrails i m (snd (update_mission W lf sf now i user up s))"
proof (cases "new_cadence up")
  case None
  then show ?thesis using assms
    by (simp add: update_mission_def evict_event_regex_def keeps_guardrails_def same_guardrails_def load_mission_def save_mission_def given_def
        split: option.split)
next
  case (Some c)
  then show ?thesis using assms
    by (simp add: update_mission_def evict_event_regex_def keeps_guardrails_def same_guardrails_def load_mission_def save_mission_def given_def
        split: option.split sum.split)
qed

lemma refused_fire_stored:
  assumes "fire_mission W L E i user payload s = (r, s')" and "\<forall>tid. r \<noteq> Inr (Some tid)" and "stored s i = Some m" and "mission_id m = i"
  shows "stored s' i = Some m \<or> stored s' i = Some (refreshed W (check_now E) m)"
proof -
  obtain b s1 where b: "fire_begin W L E i user s = (b, s1)" by fastforce
  have "stored s1 i = Some m \<or> stored s1 i = Some (refreshed W (check_now E) m)"
    using b assms(3,4)
    by (auto simp: fire_begin_def load_mission_def save_mission_def check_user_rate_def Let_def
        split: option.splits if_splits prod.splits bool.splits)
  moreover have "s' = s1" using assms(1,2) by (auto simp: fire_mission_def b split: sum.splits option.splits)
  ultimately show ?thesis by simp
qed

lemma kept_step:
  assumes "\<exists>m. stored s i = Some m \<and> mission_id m = i \<and> budget_kept W m0 m ts u"
    and "\<And>m. stored s i = Some m \<Longrightarrow> mission_id m = i \<Longrightarrow> budget_kept W m0 m ts u \<Longrightarrow> keeps_guardrails i m s'"
  shows "\<exists>m. stored s' i = Some m \<and> mission_id m = i \<and> budget_kept W m0 m ts u"
proof -
  obtain m where m: "stored s i = Some m" "mission_id m = i" "budget_kept W m0 m ts u" using assms(1) by blast
  from assms(2) [OF m] obtain m' where m': "stored s' i = Some m'" "same_guardrails m m'" by (auto simp: keeps_guardrails_def)
  have "mission_id m' = i" using m'(2) m(2) by (simp add: same_guardrails_def)
  with m'(1) budget_kept_same [OF m(3) m'(2)] show ?thesis by blast
qed

lemma history_budget:
  assumes "fire_history W L i m0 s ts u" and "\<And>tz. mono (local_day W tz)"
  shows "\<exists>m. stored s i = Some m \<and> mission_id m = i \<and> budget_kept W m0 m ts u"
  using assms(1)
proof induction
  case (unfired s u)
  then show ?case by (simp add: budget_kept_def)
next
  case (elsewhere s ts u s')
  then show ?case by simp
next
  case (refused s ts u E user payload r s')
  then obtain m where m: "stored s i = Some m" "mission_id m = i" "budget_kept W m0 m ts u" by blast
  from refused_fire_stored [OF refused(2,3) m(1,2)] budget_kept_refused [OF m(3) mono_mission_day [OF assms(2)] refused(4)] m(2)
  show ?case by auto
next
  case (fired s ts u E user payload tid s')
  then obtain m where m: "stored s i = Some m" "mission_id m = i" "budget_kept W m0 m ts u" by blast
  have ok: "load_fault E = None" "may_go_on W L E user s m" "spawned E = Inr tid"
    using fired(2) fire_mission_spawns [of W L E i user payload s tid] m(1) by auto
  have "s' = fire_commit W E i (refreshed W (check_now E) m) payload tid (checked W L E m s)"
    using fired(2) fire_mission_state [OF ok(1) m(1) ok(2,3), of payload] by simp
  then have "stored s' i = Some (fired_mission W E (refreshed W (check_now E) m) payload tid)"
    using fired(3) m(2) by (simp add: commit_stored)
  then show ?case using budget_kept_fire [OF m(3) mono_mission_day [OF assms(2)] ok(2) fired(4-6)] m(2) by simp
next
  case (paused s ts u lf sf now user)
  show ?case by (rule kept_step [OF paused.IH]) (rule manager_keeps_guardrails)
next
  case (resumed s ts u lf sf now user)
  show ?case by (rule kept_step [OF resumed.IH]) (rule manager_keeps_guardrails)
next
  case (completed s ts u sf now)
  show ?case by (rule kept_step [OF completed.IH]) (rule manager_keeps_guardrails)
next
  case (updated s ts u up lf sf now user)
  show ?case
  proof (rule kept_step [OF updated.IH], rule update_keeps_guardrails)
    fix m
    assume "budget_kept W m0 m ts u"
    then have "cadence m = cadence m0" "max_threads_per_day m = max_threads_per_day m0" "cooldown_secs m = cooldown_secs m0"
      by (simp_all add: budget_kept_def)
    with updated(2-4) show "given (new_cadence up) (cadence m) = cadence m"
      "given (new_max_threads_per_day up) (max_threads_per_day m) = max_threads_per_day m"
      "given (new_cooldown_secs up) (cooldown_secs m) = cooldown_secs m" by simp_all
  qed
next
  case (backfilled s ts u m1 lfs sfs now)
  show ?case by (rule kept_step [OF backfilled.IH]) (rule manager_keeps_guardrails(4), assumption, assumption, rule backfilled(2))
next
  case (outcome s ts u m1 tid lf sf now out fired_at)
  show ?case by (rule kept_step [OF outcome.IH]) (rule manager_keeps_guardrails(5), use outcome(2,3) in simp_all)
qed

section \<open>The rate of a user\<close>

inductive rate_history :: "fire_rate_limit \<Rightarrow> string \<Rightarrow> 'j missions \<Rightarrow> utc list \<Rightarrow> utc \<Rightarrow> bool" for L user where
  idle: "user_fire_log s user = None \<Longrightarrow> rate_history L user s [] u"
| elsewhere: "rate_history L user s ts u \<Longrightarrow> user_fire_log s' user = user_fire_log s user \<Longrightarrow> rate_history L user s' ts u"
| checked: "rate_history L user s ts u \<Longrightarrow> u \<le> n \<Longrightarrow> rate_history L user (snd (check_user_rate L n user s)) ts n"
| recorded: "rate_history L user s ts u \<Longrightarrow> check_user_rate L n user s = (True, s1) \<Longrightarrow>
    user_fire_log s2 user = user_fire_log s1 user \<Longrightarrow> u \<le> n \<Longrightarrow> n \<le> r \<Longrightarrow>
    rate_history L user (record_user_rate r user s2) (ts @ [r]) r"

abbreviation fires_within :: "fire_rate_limit \<Rightarrow> int \<Rightarrow> utc list \<Rightarrow> nat" where
  "fires_within L x ts \<equiv> length (filter (\<lambda>t. x \<le> t \<and> t \<le> x + int (fire_window L)) ts)"

text \<open>The log is the end of the history, and what was dropped from it lies before the window.\<close>

definition rate_ok :: "fire_rate_limit \<Rightarrow> string \<Rightarrow> 'j missions \<Rightarrow> utc list \<Rightarrow> utc \<Rightarrow> bool" where
  "rate_ok L user s ts u \<longleftrightarrow>
     (\<exists>old. ts = old @ given (user_fire_log s user) [] \<and> (\<forall>t \<in> set old. t < u - int (fire_window L))) \<and>
     sorted ts \<and> (\<forall>t \<in> set ts. t \<le> u) \<and> length (given (user_fire_log s user) []) \<le> unat (max_fires L) \<and>
     (\<forall>x. fires_within L x ts \<le> unat (max_fires L))"

lemma pruned_log:
  assumes "rate_ok L user s ts u" and "u \<le> n" and "log' = dropWhile (\<lambda>t. t < n - int (fire_window L)) (given (user_fire_log s user) [])"
  shows "\<exists>old. ts = old @ log' \<and> (\<forall>t \<in> set old. t < n - int (fire_window L))" and "length log' \<le> unat (max_fires L)"
proof -
  let ?log = "given (user_fire_log s user) []" and ?P = "\<lambda>t. t < n - int (fire_window L)"
  obtain old where old: "ts = old @ ?log" "\<forall>t \<in> set old. t < u - int (fire_window L)"
    using assms(1) by (auto simp: rate_ok_def)
  have "ts = (old @ takeWhile ?P ?log) @ log'" by (simp add: old(1) assms(3))
  moreover have "\<forall>t \<in> set (old @ takeWhile ?P ?log). ?P t"
    using old(2) assms(2) by (auto dest: set_takeWhileD)
  ultimately show "\<exists>old. ts = old @ log' \<and> (\<forall>t \<in> set old. t < n - int (fire_window L))" by blast
  have "length log' \<le> length ?log" unfolding assms(3) by (rule length_dropWhile_le)
  then show "length log' \<le> unat (max_fires L)" using assms(1) by (simp add: rate_ok_def)
qed

lemma rate_history_ok: "rate_history L user s ts u \<Longrightarrow> rate_ok L user s ts u"
proof (induction rule: rate_history.induct)
  case (idle s u)
  then show ?case by (simp add: rate_ok_def given_def)
next
  case (elsewhere s ts u s')
  then show ?case by (simp add: rate_ok_def)
next
  case (checked s ts u n)
  have log: "given (user_fire_log (snd (check_user_rate L n user s)) user) [] =
      dropWhile (\<lambda>t. t < n - int (fire_window L)) (given (user_fire_log s user) [])"
    by (simp add: check_user_rate_def Let_def given_def)
  have "sorted ts" "\<forall>t \<in> set ts. t \<le> n" "\<forall>x. fires_within L x ts \<le> unat (max_fires L)"
    using checked.IH checked(2) by (auto simp: rate_ok_def intro: order_trans)
  then show ?case
    unfolding rate_ok_def using pruned_log [OF checked.IH checked(2) log] by blast
next
  case (recorded s ts u n s1 s2 r)
  let ?log = "dropWhile (\<lambda>t. t < n - int (fire_window L)) (given (user_fire_log s user) [])"
  have s1: "given (user_fire_log s1 user) [] = ?log" "(of_nat (length ?log) :: 32 word) < max_fires L"
    using recorded(2) by (auto simp: check_user_rate_def Let_def given_def)
  obtain old where old: "ts = old @ ?log" "\<forall>t \<in> set old. t < n - int (fire_window L)" and short: "length ?log \<le> unat (max_fires L)"
    using pruned_log [OF recorded.IH recorded(4) refl] by blast
  have "length ?log < 2 ^ 32" using short unsigned_less [where 'a = nat, of "max_fires L"] by simp
  then have room: "length ?log < unat (max_fires L)"
    using s1(2) by (simp add: word_less_nat_alt unat_of_nat take_bit_nat_eq_self)
  have log: "given (user_fire_log (record_user_rate r user s2) user) [] = ?log @ [r]"
    using recorded(3) s1(1) by (simp add: record_user_rate_def given_def)
  have upto: "\<forall>t \<in> set ts. t \<le> r" "sorted ts" using recorded.IH recorded(4,5) by (fastforce simp: rate_ok_def)+
  have "fires_within L x (ts @ [r]) \<le> unat (max_fires L)" for x
  proof (cases "x \<le> r \<and> r \<le> x + int (fire_window L)")
    case True
    then have "filter (\<lambda>t. x \<le> t \<and> t \<le> x + int (fire_window L)) old = []"
      using old(2) recorded(5) by (auto simp: filter_empty_conv)
    then have "fires_within L x ts \<le> length ?log" by (simp add: old(1))
    then show ?thesis using True room by simp
  next
    case False
    then show ?thesis using recorded.IH by (auto simp: rate_ok_def)
  qed
  moreover have "\<exists>old. ts @ [r] = old @ ?log @ [r] \<and> (\<forall>t \<in> set old. t < r - int (fire_window L))"
    using old recorded(5) by fastforce
  ultimately show ?case
    using upto room by (simp add: rate_ok_def log sorted_append)
qed

section \<open>Samples\<close>

text \<open>A new mission that no events drive goes on when its owner has not fired anything.\<close>

lemma new_mission_fresh:
  "refreshed W t (mission_new i now obj p user n g c) = mission_new i now obj p user n g c"
  by (simp add: refreshed_def threads_today_is_stale_def mission_new_def)

lemma new_mission_goes_on:
  assumes "\<not> is_shared_owner user" and "budget_allows E" and "user_fire_log s user = None" and "0 < max_fires L"
    and "\<not> reactive c"
  shows "may_go_on W L E user s (mission_new i now obj p user n g c)"
  using assms
  by (simp add: may_go_on_def new_mission_fresh may_fire_def mission_owned_by_def mission_owner_def from_user_id_def
      mission_terminal_def in_cooldown_def check_user_rate_def given_def)

lemma checked_new: "checked W L E (mission_new i now obj p user n g c) s = snd (check_user_rate L (rate_now E) user s)"
  by (simp add: checked_def threads_today_is_stale_def mission_new_def)

text \<open>An environment in which nothing fails and the clock stands still.\<close>

definition calm :: "utc \<Rightarrow> uuid \<Rightarrow> fire_env" where
  "calm t tid = \<lparr>load_fault = None, check_now = t, reset_fault = None, thread_states = \<lambda>_. None, rate_now = t,
     budget_allows = True, spawned = Inr tid, fire_instant = t, commit_now = t, final_fault = None, record_now = t\<rparr>"

lemma calm_fields [simp]:
  "load_fault (calm t tid) = None" "check_now (calm t tid) = t" "budget_allows (calm t tid)" "rate_now (calm t tid) = t"
  "spawned (calm t tid) = Inr tid" "fire_instant (calm t tid) = t" "final_fault (calm t tid) = None"
  by (simp_all add: calm_def)

abbreviation anns_mission :: "unit mission" where
  "anns_mission \<equiv> mission_new 1 0 () 2 ''ann'' ''n'' ''g'' Manual"

lemma ann_is_no_shared_owner: "\<not> is_shared_owner ''ann''"
  by (simp add: is_shared_owner_def shared_owner_id_def legacy_shared_owner_id_def)

lemmas anns_fire = new_mission_goes_on [OF ann_is_no_shared_owner, of "calm t tid" s L Manual W 1 0 "()" 2 "''n''" "''g''" for t tid s L W]

section \<open>Properties\<close>

text \<open>
  C34. Firing a mission spawns a thread exactly when the mission exists, the caller owns it or it is
  shared, it has not failed (nor completed, unless events drive it), today's count is below the
  daily limit, the cooldown has passed, fewer of its threads run than allowed, the owner's rate
  leaves room, the budget allows it, and the spawn succeeds. Its being paused does not matter.
\<close>

theorem fire_spawns_iff:
  "(fst (fire_mission W L E i user payload s) = Inr (Some tid)) =
    (load_fault E = None \<and> spawned E = Inr tid \<and>
     (case stored s i of
        None \<Rightarrow> False
      | Some m \<Rightarrow>
          (mission_owner m = Shared \<or> mission_owner m = User user) \<and>
          (status m = MissionActive \<or> status m = MissionPaused \<or> status m = MissionCompleted \<and> reactive (cadence m)) \<and>
          (if max_threads_per_day m = 0 then True
           else (if threads_today_is_stale W m (check_now E) then 0 else threads_today m) < max_threads_per_day m) \<and>
          \<not> in_cooldown m (check_now E) \<and>
          (if max_concurrent m = 0 then True
           else count_running_threads (thread_states E) m < unat (max_concurrent m)) \<and>
          fst (check_user_rate L (rate_now E) (mission_user m) s) \<and> budget_allows E))"
proof -
  have owner: "may_fire m user = (mission_owner m = Shared \<or> mission_owner m = User user)" for m :: "'a mission"
    by (cases "mission_owner m") (auto simp: may_fire_def mission_owned_by_def)
  have alive: "(mission_terminal m \<longrightarrow> status m = MissionCompleted \<and> is_event_driven m) =
     (status m = MissionActive \<or> status m = MissionPaused \<or> status m = MissionCompleted \<and> reactive (cadence m))"
    for m :: "'a mission"
    by (cases "status m") (auto simp: mission_terminal_def is_event_driven_def)
  have limit: "(0 < n \<longrightarrow> X) = (if n = 0 then True else X)" for n :: "32 word" and X
    by (simp add: word_gt_0)
  have today: "threads_today (refreshed W t m) = (if threads_today_is_stale W m t then 0 else threads_today m)"
    for t and m :: "'a mission" by (simp add: refreshed_def)
  show ?thesis
    unfolding fire_mission_spawns may_go_on_def owner alive limit today by (cases "stored s i") (simp_all, blast)
qed

text \<open>
  A pause that comes between the two halves of a fire is lost: the mission is stored as active
  again although it left the list of active missions, so the ticker and events pass it by, and
  it cannot be resumed, because it is not paused.
\<close>

theorem pause_lost_by_fire:
  assumes "fire_begin W L E i user s = (Inr (Some m), s1)" and "status m = MissionActive" and "mission_id m = i"
    and "pause_mission None None now i owner s1 = (Inr (), s2)" and "final_fault E = None"
  shows "\<exists>m'. stored (fire_commit W E i m payload tid s2) i = Some m' \<and> status m' = MissionActive \<and>
    i \<notin> set (active_list (fire_commit W E i m payload tid s2)) \<and>
    (case resume_mission W None None later i owner (fire_commit W E i m payload tid s2) of
       (Inl e, s3) \<Rightarrow> s3 = fire_commit W E i m payload tid s2 \<and> e \<in> {NotResumable i MissionActive, MissionAccessDenied owner i}
     | (Inr _, _) \<Rightarrow> False)"
proof -
  let ?s = "fire_commit W E i m payload tid s2"
  have st: "stored ?s i = Some (fired_mission W E m payload tid)"
    using assms(3,5) by (simp add: commit_stored)
  have "i \<notin> set (active_list s2)"
    using assms(4) by (auto simp: pause_mission_def load_mission_def update_mission_status_def split: option.splits if_splits)
  then show ?thesis
    using assms(2) by (intro exI [of _ "fired_mission W E m payload tid"])
      (simp add: st resume_mission_def load_mission_def)
qed

theorem pause_lost_by_fire_witness:
  "(let W = \<lparr>local_day = \<lambda>_ t. t, cron = \<lambda>_ _ _. Inr None\<rparr>;
        s = missions_new\<lparr>stored := [1 \<mapsto> anns_mission], active_list := [1]\<rparr>;
        s2 = snd (pause_mission None None 6 1 ''ann'' (snd (fire_begin W default_fire_rate_limit (calm 5 9) 1 ''ann'' s)))
    in \<exists>m'. stored (fire_commit W (calm 5 9) 1 anns_mission None 9 s2) 1 = Some m' \<and> status m' = MissionActive)"
proof -
  let ?W = "\<lparr>local_day = \<lambda>_ t. t, cron = \<lambda>_ _ _. Inr None\<rparr>"
  let ?s = "missions_new\<lparr>stored := [1 \<mapsto> anns_mission], active_list := [1]\<rparr>"
  let ?s1 = "checked ?W default_fire_rate_limit (calm 5 9) anns_mission ?s"
  have go: "may_go_on ?W default_fire_rate_limit (calm 5 9) ''ann'' ?s anns_mission"
    by (rule anns_fire) (simp_all add: missions_new_def default_fire_rate_limit_def)
  have 1: "fire_begin ?W default_fire_rate_limit (calm 5 9) 1 ''ann'' ?s = (Inr (Some anns_mission), ?s1)"
    using fire_begin_goes_on [OF _ _ go, of 1] by (simp add: new_mission_fresh)
  have "may_manage anns_mission ''ann''"
    using ann_is_no_shared_owner by (simp add: may_manage_def mission_owner_def mission_owned_by_def from_user_id_def mission_new_def)
  moreover have "stored ?s1 1 = Some anns_mission" by (simp add: checked_new)
  ultimately have 2: "pause_mission None None 6 1 ''ann'' ?s1 = (Inr (), snd (pause_mission None None 6 1 ''ann'' ?s1))"
    by (simp add: pause_mission_def load_mission_def update_mission_status_def)
  have "status anns_mission = MissionActive" "mission_id anns_mission = 1" by (simp_all add: mission_new_def)
  from pause_lost_by_fire [OF 1 this 2, of None 9 7] show ?thesis
    unfolding Let_def 1 by auto
qed

text \<open>
  C22. One after the other, with a clock that does not go back and saves that succeed, the fires of
  a mission keep its guardrails: no calendar day, in the time zone of its schedule, sees more
  fires than its daily limit, and between two fires its cooldown passes. In between it may be paused,
  resumed, completed, updated but for its cadence and limits, rescheduled at a restart, and given the
  outcomes of its threads.
\<close>

theorem fires_within_guardrails:
  assumes "fire_history W L i m0 s ts u" and "\<And>tz. mono (local_day W tz)"
  shows "(if max_threads_per_day m0 = 0 then True
      else length (filter (\<lambda>t. mission_day W m0 t = d) ts) \<le> unat (max_threads_per_day m0)) \<and>
    successively (\<lambda>a b. a + int (unat (cooldown_secs m0)) * 1000000000 \<le> b) ts"
  using history_budget [OF assms] by (auto simp: budget_kept_def word_gt_0)

theorem fires_within_guardrails_witness:
  "\<exists>s m. fire_history \<lparr>local_day = \<lambda>_ t. t, cron = \<lambda>_ _ _. Inr None\<rparr> default_fire_rate_limit 1 anns_mission s [5] 5 \<and>
     stored s 1 = Some m \<and> status m = MissionFailed \<and>
     length (filter (\<lambda>t. mission_day \<lparr>local_day = \<lambda>_ t. t, cron = \<lambda>_ _ _. Inr None\<rparr> anns_mission t = 0) [5]) \<le> 10"
proof -
  let ?W = "\<lparr>local_day = \<lambda>_ t. t, cron = \<lambda>_ _ _. Inr None\<rparr>"
  let ?s = "missions_new\<lparr>stored := [1 \<mapsto> anns_mission], active_list := [1]\<rparr>"
  have go: "may_go_on ?W default_fire_rate_limit (calm 5 9) ''ann'' ?s anns_mission"
    by (rule anns_fire) (simp_all add: missions_new_def default_fire_rate_limit_def)
  obtain s' where run: "fire_mission ?W default_fire_rate_limit (calm 5 9) 1 ''ann'' None ?s = (Inr (Some 9), s')"
    and s': "s' = fire_commit ?W (calm 5 9) 1 (refreshed ?W 5 anns_mission) None 9 (checked ?W default_fire_rate_limit (calm 5 9) anns_mission ?s)"
    using fire_mission_state [OF _ _ go, of 1 9 None] by simp
  have "fire_history ?W default_fire_rate_limit 1 anns_mission ?s [] 5"
    by (rule fire_history.unfired) (simp_all add: mission_new_def)
  from fire_history.fired [OF this run] have fired: "fire_history ?W default_fire_rate_limit 1 anns_mission s' [5] 5"
    by (simp add: mission_new_def)
  then obtain f where stored: "stored s' 1 = Some f" and f: "mission_id f = 1" "thread_history f = [9]"
    using s' by (simp add: commit_stored mission_new_def)
  let ?s2 = "snd (snd (process_mission_outcome ?W None None 6 1 9 (OutcomeFailed ''e'') None s'))"
  from fire_history.outcome [OF fired stored] f have history: "fire_history ?W default_fire_rate_limit 1 anns_mission ?s2 [5] 5" by simp
  moreover have "\<exists>m. stored ?s2 1 = Some m \<and> status m = MissionFailed"
    using stored f by (simp add: process_mission_outcome_def load_mission_def save_mission_def reconcile_def apply_outcome_def Let_def)
  moreover have "max_threads_per_day anns_mission = 10" by (simp add: mission_new_def)
  ultimately show ?thesis using fires_within_guardrails [OF history, of 0] by (auto simp: mono_def)
qed

text \<open>
  Two fires that overlap can both pass the guardrails and the second save replaces the first:
  two threads run, but the mission counts one and remembers only the second.
\<close>

theorem overlapping_fires_lose_one:
  assumes "fire_begin W L E i user s = (Inr (Some m), s1)" and "fire_begin W L E' i user' s1 = (Inr (Some m'), s2)"
    and "spawned E = Inr t" and "spawned E' = Inr t'" and "mission_id m' = i"
    and "final_fault E' = None" and "t \<notin> set (thread_history m')" and "t \<noteq> t'"
  shows "\<exists>m2. stored (fire_commit W E' i m' payload' t' (fire_commit W E i m payload t s2)) i = Some m2 \<and>
    t \<notin> set (thread_history m2) \<and> t' \<in> set (thread_history m2) \<and> threads_today m2 = threads_today m' + 1"
  using assms by (intro exI [of _ "fired_mission W E' m' payload' t'"]) (simp add: commit_stored)

theorem overlapping_fires_lose_one_witness:
  "(let W = \<lparr>local_day = \<lambda>_ t. t, cron = \<lambda>_ _ _. Inr None\<rparr>;
        s = missions_new\<lparr>stored := [1 \<mapsto> anns_mission], active_list := [1]\<rparr>;
        s2 = snd (fire_begin W default_fire_rate_limit (calm 5 8) 1 ''ann'' (snd (fire_begin W default_fire_rate_limit (calm 5 7) 1 ''ann'' s)))
    in \<exists>m2. stored (fire_commit W (calm 5 8) 1 anns_mission None 8 (fire_commit W (calm 5 7) 1 anns_mission None 7 s2)) 1 = Some m2 \<and>
      7 \<notin> set (thread_history m2) \<and> threads_today m2 = 1)"
proof -
  let ?W = "\<lparr>local_day = \<lambda>_ t. t, cron = \<lambda>_ _ _. Inr None\<rparr>" and ?L = default_fire_rate_limit
  let ?s = "missions_new\<lparr>stored := [1 \<mapsto> anns_mission], active_list := [1]\<rparr>"
  let ?s1 = "checked ?W ?L (calm 5 7) anns_mission ?s"
  have "may_go_on ?W ?L (calm 5 7) ''ann'' ?s anns_mission"
    by (rule anns_fire) (simp_all add: missions_new_def default_fire_rate_limit_def)
  then have 1: "fire_begin ?W ?L (calm 5 7) 1 ''ann'' ?s = (Inr (Some anns_mission), ?s1)"
    using fire_begin_goes_on [of "calm 5 7" ?s 1] by (simp add: new_mission_fresh)
  have go: "may_go_on ?W ?L (calm 5 8) ''ann'' ?s1 anns_mission"
    using \<open>may_go_on ?W ?L (calm 5 7) ''ann'' ?s anns_mission\<close>
    by (simp add: may_go_on_def checked_new count_running_threads_def)
      (simp add: mission_new_def check_user_rate_def given_def missions_new_def default_fire_rate_limit_def)
  have stored: "stored ?s1 1 = Some anns_mission" by (simp add: checked_new)
  have 2: "fire_begin ?W ?L (calm 5 8) 1 ''ann'' ?s1 = (Inr (Some anns_mission), checked ?W ?L (calm 5 8) anns_mission ?s1)"
    using fire_begin_goes_on [OF _ stored go] by (simp only: new_mission_fresh calm_fields)
  have "thread_history anns_mission = []" "threads_today anns_mission = 0" "mission_id anns_mission = 1"
    by (simp_all add: mission_new_def)
  then show ?thesis
    using overlapping_fires_lose_one [OF 1 2, of 7 8 None None] unfolding Let_def 1 2 snd_conv by auto
qed

text \<open>
  A cron mission whose expression cannot be parsed escapes its guardrails: a fire leaves no
  time of the last fire, so the count of the day is forgotten at every check and no cooldown
  ever holds, whatever its limits are.
\<close>

theorem corrupt_cron_escapes_guardrails:
  assumes "load_fault E = None" and "stored s i = Some m" and "may_go_on W L E user s m" and "spawned E = Inr tid"
    and "mission_id m = i" and "final_fault E = None"
    and "cadence m = Cron e tz" and "is_ok (next_cron_fire (cron W) (commit_now E) e tz) = False" and "last_fire_at m = None"
  shows "\<exists>s' m'. fire_mission W L E i user payload s = (Inr (Some tid), s') \<and> stored s' i = Some m' \<and>
    last_fire_at m' = None \<and> thread_history m' = thread_history m @ [tid] \<and>
    threads_today (refreshed W later m') = 0 \<and> \<not> in_cooldown m' later"
proof -
  let ?f = "fired_mission W E (refreshed W (check_now E) m) payload tid"
  have "last_fire_at ?f = None"
    using assms(7-9) by (auto simp: fired_mission_def record_thread_def Let_def is_ok_def split: sum.splits)
  then have free: "threads_today (refreshed W later ?f) = 0" "\<not> in_cooldown ?f later" "last_fire_at ?f = None"
    by (simp_all add: in_cooldown_def refreshed_def threads_today_is_stale_def)
  have "stored (fire_commit W E i (refreshed W (check_now E) m) payload tid (checked W L E m s)) i = Some ?f"
    using assms(5,6) by (simp add: commit_stored)
  then show ?thesis
    using fire_mission_state [OF assms(1-4), of payload] free
    by (intro exI [of _ "fire_commit W E i (refreshed W (check_now E) m) payload tid (checked W L E m s)"] exI [of _ ?f])
      simp
qed

theorem corrupt_cron_escapes_guardrails_witness:
  "\<exists>s' m'. fire_mission \<lparr>local_day = \<lambda>_ t. t, cron = \<lambda>_ _ _. Inr None\<rparr> default_fire_rate_limit (calm 5 9) 1 ''ann'' None
      (missions_new\<lparr>stored := [1 \<mapsto> mission_new 1 0 () 2 ''ann'' ''n'' ''g'' (Cron ''hourly'' None)]\<rparr>) = (Inr (Some 9), s') \<and>
    stored s' 1 = Some m' \<and> last_fire_at m' = None"
proof -
  let ?W = "\<lparr>local_day = \<lambda>_ t. t, cron = \<lambda>_ _ _. Inr None\<rparr>"
  let ?m = "mission_new 1 0 () 2 ''ann'' ''n'' ''g'' (Cron ''hourly'' None)"
  let ?s = "missions_new\<lparr>stored := [1 \<mapsto> ?m]\<rparr>"
  have go: "may_go_on ?W default_fire_rate_limit (calm 5 9) ''ann'' ?s ?m"
    by (rule new_mission_goes_on [OF ann_is_no_shared_owner]) (simp_all add: missions_new_def default_fire_rate_limit_def)
  have "split_whitespace ''hourly'' = [''hourly'']" by (rule split_whitespace_word(2)) (simp_all add: is_space_def)
  moreover have "trim ''hourly'' = ''hourly''" by (rule trim_no_space) (simp add: is_space_def)
  ultimately have bad: "is_ok (next_cron_fire (cron ?W) (commit_now (calm 5 9)) ''hourly'' None) = False"
    by (simp add: next_cron_fire_def normalize_cron_expression_def)
  have m: "mission_id ?m = 1" "cadence ?m = Cron ''hourly'' None" "last_fire_at ?m = None" by (simp_all add: mission_new_def)
  have s: "stored ?s 1 = Some ?m" by simp
  show ?thesis
    using corrupt_cron_escapes_guardrails [OF _ s go _ m(1) _ m(2) bad m(3), of 9 None 0, OF calm_fields(1,5,7)] by blast
qed

text \<open>
  The processing of an outcome makes up for a fire whose save failed: history, count and time
  of the last fire become what the save would have stored. However often it runs, a thread is
  counted once, and the mission's status changes only to failed, when the thread failed or ran out
  of iterations, or to completed, when its text says so.
\<close>

theorem outcome_makes_up_for_lost_save:
  assumes "tid \<notin> set (thread_history m)" and "threads_today m \<noteq> - 1" and "\<not> threads_today_is_stale W m (check_now E)"
    and "\<forall>e tz. cadence m = Cron e tz \<longrightarrow> is_ok (next_cron_fire (cron W) (commit_now E) e tz)"
  shows "(let lost = fired_mission W E (refreshed W (check_now E) m) payload tid;
        m' = apply_outcome out (reconcile W now tid (Some (fire_instant E)) m)
    in thread_history m' = thread_history lost \<and> threads_today m' = threads_today lost \<and> last_fire_at m' = last_fire_at lost \<and>
      reconcile W now' tid at' m' = m' \<and>
      status m' = (case out of OutcomeFailed _ \<Rightarrow> MissionFailed | OutcomeMaxIterations \<Rightarrow> MissionFailed
        | OutcomeCompleted (Some txt) \<Rightarrow> if goal_achieved txt then MissionCompleted else status m | _ \<Rightarrow> status m))"
proof -
  let ?r = "reconcile W now tid (Some (fire_instant E)) m"
  have r: "thread_history ?r = thread_history m @ [tid]" "threads_today ?r = threads_today m + 1"
    "last_fire_at ?r = Some (fire_instant E)" "status ?r = status m"
    using assms(1,2) by (auto simp: reconcile_def record_thread_def given_def Let_def
        split: mission_cadence.split option.split sum.split)
  have o: "thread_history (apply_outcome out n) = thread_history n" "threads_today (apply_outcome out n) = threads_today n"
    "last_fire_at (apply_outcome out n) = last_fire_at n" for n :: "'a mission"
    by (simp_all add: apply_outcome_def split: thread_outcome.split option.split)
  have l: "last_fire_at (fired_mission W E (refreshed W (check_now E) m) payload tid) = Some (fire_instant E)"
    using assms(4) by (auto simp: fired_mission_def record_thread_def Let_def is_ok_iff split: mission_cadence.split)
  have again: "reconcile W now' tid at' (apply_outcome out ?r) = apply_outcome out ?r"
    using r(1) o(1) [of ?r] by (simp add: reconcile_def)
  have st: "status (apply_outcome out ?r) = (case out of OutcomeFailed _ \<Rightarrow> MissionFailed | OutcomeMaxIterations \<Rightarrow> MissionFailed
        | OutcomeCompleted (Some txt) \<Rightarrow> if goal_achieved txt then MissionCompleted else status m | _ \<Rightarrow> status m)"
    using r(4) by (simp add: apply_outcome_def split: thread_outcome.split option.split)
  have "refreshed W (check_now E) m = m" using assms(3) by (simp add: refreshed_def)
  then show ?thesis
    unfolding Let_def st again o r l by simp
qed

theorem outcome_makes_up_for_lost_save_witness:
  "thread_history (apply_outcome (OutcomeFailed ''boom'')
     (reconcile \<lparr>local_day = \<lambda>_ t. t, cron = \<lambda>_ _ _. Inr None\<rparr> 8 9 (Some 5) anns_mission)) = [9]"
  using outcome_makes_up_for_lost_save [of 9 anns_mission "\<lparr>local_day = \<lambda>_ t. t, cron = \<lambda>_ _ _. Inr None\<rparr>" "calm 5 9" None "OutcomeFailed ''boom''" 8]
  by (simp add: Let_def) (simp add: mission_new_def threads_today_is_stale_def)

text \<open>
  One after the other, with a clock that does not go back, no stretch of time of the length of
  the window sees more fires of a user's missions than the limit, wherever it begins.
\<close>

theorem user_rate_bound:
  assumes "rate_history L user s ts u"
  shows "length (filter (\<lambda>t. x \<le> t \<and> t \<le> x + int (fire_window L)) ts) \<le> unat (max_fires L)"
  using rate_history_ok [OF assms] by (simp add: rate_ok_def)

theorem user_rate_bound_witness:
  "\<exists>s. rate_history \<lparr>max_fires = 1, fire_window = 10\<rparr> ''ann'' (s :: unit missions) [5] 5 \<and>
    length (filter (\<lambda>t. 0 \<le> t \<and> t \<le> 10) [5 :: int]) \<le> 1"
proof -
  let ?L = "\<lparr>max_fires = 1, fire_window = 10\<rparr>" and ?s = "missions_new :: unit missions"
  have "rate_history ?L ''ann'' ?s [] 5" by (rule rate_history.idle) (simp add: missions_new_def)
  from rate_history.recorded [OF this, where n = 5 and r = 5 and ?s1.0 = "snd (check_user_rate ?L 5 ''ann'' ?s)"
      and ?s2.0 = "snd (check_user_rate ?L 5 ''ann'' ?s)"]
  have h: "rate_history ?L ''ann'' (record_user_rate 5 ''ann'' (snd (check_user_rate ?L 5 ''ann'' ?s))) [5] 5"
    by (simp add: check_user_rate_def missions_new_def given_def Let_def)
  with user_rate_bound [OF h, of 0] show ?thesis by auto
qed

text \<open>
  After a restart the list of active missions holds exactly the project's missions that are
  stored as active: a completed mission that events still woke before is woken no more.
\<close>

theorem restart_forgets_completed:
  assumes "iterates ks (stored s)" and "\<And>k m. stored s k = Some m \<Longrightarrow> mission_id m = k"
    and "bootstrap_project W None lf sf now ks project s = (Inr n, s')"
  shows "set (active_list s') = {i. \<exists>m. stored s i = Some m \<and> mission_project m = project \<and> status m = MissionActive} \<and>
    n = length (active_list s') \<and> distinct (active_list s')"
proof -
  let ?P = "\<lambda>m. mission_project m = project \<and> status m = MissionActive"
  let ?live = "filter ?P (map_values ks (stored s))"
  have s': "active_list s' = map mission_id ?live" "n = length ?live"
    using assms(3) by (auto simp: bootstrap_project_def Let_def)
  have "set (active_list s') = {i. \<exists>m. stored s i = Some m \<and> ?P m}"
    using assms(2) by (fastforce simp: s'(1) in_map_values_ran [OF assms(1)])
  moreover have "distinct (map mission_id (map_values ks (stored s)))"
    using iteratesD(1) [OF assms(1)]
  proof (induction ks)
    case (Cons k ks)
    then show ?case using assms(2) by (fastforce simp: in_map_values split: option.splits)
  qed simp
  ultimately show ?thesis using s' by (simp add: distinct_map_filter)
qed

theorem restart_forgets_completed_witness:
  "active_list (snd (bootstrap_project \<lparr>local_day = \<lambda>_ t. t, cron = \<lambda>_ _ _. Inr None\<rparr> None (\<lambda>_. None) (\<lambda>_. None) 9 [1] 2
     (missions_new\<lparr>stored := [1 \<mapsto> anns_mission\<lparr>status := MissionCompleted, cadence := Webhook ''hook'' None\<rparr>], active_list := [1]\<rparr>))) = []"
proof -
  let ?W = "\<lparr>local_day = \<lambda>_ t. t, cron = \<lambda>_ _ _. Inr None\<rparr>"
  let ?m = "anns_mission\<lparr>status := MissionCompleted, cadence := Webhook ''hook'' None\<rparr>"
  let ?s = "missions_new\<lparr>stored := [1 \<mapsto> ?m], active_list := [1]\<rparr>"
  obtain n s' where run: "bootstrap_project ?W None (\<lambda>_. None) (\<lambda>_. None) 9 [1] 2 ?s = (Inr n, s')"
    by (simp add: bootstrap_project_def Let_def)
  have "iterates [1] (stored ?s)" "\<And>k m. stored ?s k = Some m \<Longrightarrow> mission_id m = k"
    by (auto simp: iterates_def split: if_splits)
  from restart_forgets_completed [OF this run] have "active_list s' = []" by (simp split: if_splits)
  then show ?thesis unfolding run by simp
qed

end
