(* ===== verification/WorkspaceMounts.thy ===== *)
theory WorkspaceMounts
  imports Prelude "HOL-Library.Sublist"
begin

text \<open>
  The mount tables of projects, \<open>crates/ironclaw_engine/src/workspace\<close>: the table of one project
  (\<open>registry.rs\<close>), the cache of tables, and how the file system backend turns a path of the agent
  into a path of the host (\<open>filesystem.rs\<close>). The lemmas show that a path goes to the mount with
  the longest prefix, that a table is built once, and that no resolved path leaves the root.
\<close>

section \<open>Errors\<close>

datatype mount_error =
  MountNotFound string
| InvalidPath string string
| MountPermissionDenied string
| MountIo string string
| ToolError string
| BackendError string
| Unsupported string

text \<open>\<open>MountError::io\<close>, by the kind of the operating system's error.\<close>

datatype io_kind = IoNotFound | IoPermissionDenied | IoOther

fun mount_io :: "string \<Rightarrow> io_kind \<Rightarrow> string \<Rightarrow> mount_error" where
  "mount_io p IoNotFound reason = MountNotFound p"
| "mount_io p IoPermissionDenied reason = MountPermissionDenied p"
| "mount_io p IoOther reason = MountIo p reason"

section \<open>The table of a project\<close>

text \<open>Prefixes with their backends, the longest first.\<close>

type_synonym 'b project_mounts = "(string \<times> 'b) list"

definition normalize_prefix :: "string \<Rightarrow> string" where
  "normalize_prefix p =
     (let q = (if starts_with p ''/'' then p else CHR ''/'' # p)
      in if ends_with q ''/'' then q else q @ ''/'')"

definition mounts_add :: "string \<Rightarrow> 'b \<Rightarrow> 'b project_mounts \<Rightarrow> 'b project_mounts" where
  "mounts_add pre backend ms =
     (let p = normalize_prefix pre
      in sort_key (\<lambda>e. - int (length (fst e))) (filter (\<lambda>e. fst e \<noteq> p) ms @ [(p, backend)]))"

definition normalize_path :: "string \<Rightarrow> string" where
  "normalize_path path = (if starts_with path ''/'' then path else CHR ''/'' # path)"

definition strip_prefix :: "string \<Rightarrow> string \<Rightarrow> string option" where
  "strip_prefix s p = (if starts_with s p then Some (drop (length p) s) else None)"

text \<open>One round of the loop of \<open>resolve\<close>: the relative path, if the prefix matches.\<close>

definition match_mount :: "string \<Rightarrow> string \<Rightarrow> string option" where
  "match_mount pre path =
     (case strip_prefix path pre of
        Some rest \<Rightarrow> Some rest
      | None \<Rightarrow> if ends_with pre ''/'' \<and> path = take (length pre - 1) pre then Some [] else None)"

fun resolve_in :: "'b project_mounts \<Rightarrow> string \<Rightarrow> ('b \<times> string) option" where
  "resolve_in [] path = None"
| "resolve_in ((pre, backend) # ms) path =
     (case match_mount pre path of Some rest \<Rightarrow> Some (backend, rest) | None \<Rightarrow> resolve_in ms path)"

definition mounts_resolve :: "'b project_mounts \<Rightarrow> string \<Rightarrow> ('b \<times> string) option" where
  "mounts_resolve ms path = resolve_in ms (normalize_path path)"

section \<open>The cache of tables\<close>

text \<open>\<open>factory\<close> builds the table of a project in a world of its own.\<close>

definition workspace_resolve ::
  "(uuid \<Rightarrow> 'w \<Rightarrow> (mount_error, 'b project_mounts) result \<times> 'w) \<Rightarrow> uuid \<Rightarrow> string
    \<Rightarrow> (uuid \<rightharpoonup> 'b project_mounts) \<times> 'w
    \<Rightarrow> (mount_error, ('b \<times> string) option) result \<times> (uuid \<rightharpoonup> 'b project_mounts) \<times> 'w" where
  "workspace_resolve factory project path = (\<lambda>(cache, w).
     case cache project of
       Some mounts \<Rightarrow> (Inr (mounts_resolve mounts path), cache, w)
     | None \<Rightarrow>
         (case factory project w of
            (Inl e, w1) \<Rightarrow> (Inl e, cache, w1)
          | (Inr mounts, w1) \<Rightarrow> (Inr (mounts_resolve mounts path), cache(project \<mapsto> mounts), w1)))"

definition invalidate :: "uuid \<Rightarrow> (uuid \<rightharpoonup> 'b project_mounts) \<Rightarrow> (uuid \<rightharpoonup> 'b project_mounts)" where
  "invalidate project cache = cache(project := None)"

section \<open>Paths\<close>

text \<open>
  The components of a Unix path: a leading slash is the root, empty parts and a dot after the
  first part are dropped.
\<close>

datatype component = RootDir | CurDir | ParentDir | Normal string

fun part_components :: "bool \<Rightarrow> string list \<Rightarrow> component list" where
  "part_components first [] = []"
| "part_components first (p # ps) =
     (if p = '''' then part_components False ps
      else if p = ''.'' then (if first then CurDir # part_components False ps else part_components False ps)
      else if p = ''..'' then ParentDir # part_components False ps
      else Normal p # part_components False ps)"

definition is_absolute :: "string \<Rightarrow> bool" where
  "is_absolute p \<longleftrightarrow> starts_with p ''/''"

definition components :: "string \<Rightarrow> component list" where
  "components p =
     (if is_absolute p then RootDir # part_components False (split_on (CHR ''/'') p)
      else part_components True (split_on (CHR ''/'') p))"

section \<open>The file system backend\<close>

text \<open>
  A path of the host is the list of its names below the root directory. \<open>canonicalize\<close> follows
  the symbolic links of a path that exists.
\<close>

type_synonym host_path = "string list"

definition names_of :: "component list \<Rightarrow> host_path" where
  "names_of cs = concat (map (\<lambda>c. case c of Normal n \<Rightarrow> [n] | _ \<Rightarrow> []) cs)"

fun plain :: "component \<Rightarrow> bool" where
  "plain (Normal _) = True"
| "plain CurDir = True"
| "plain _ = False"

definition safe_join :: "host_path \<Rightarrow> string \<Rightarrow> (mount_error, host_path) result" where
  "safe_join base rel =
     (if is_absolute rel
      then Inl (InvalidPath rel ''absolute paths are not allowed; pass a path relative to the mount'')
      else case find (\<lambda>c. \<not> plain c) (components rel) of
        Some ParentDir \<Rightarrow> Inl (InvalidPath rel ''`..` components are not allowed'')
      | Some _ \<Rightarrow> Inl (InvalidPath rel ''root or prefix components are not allowed'')
      | None \<Rightarrow> Inr (base @ names_of (components rel)))"

text \<open>The loop that cuts a path down to what exists; the names cut off come last to first.\<close>

function existing_prefix :: "(host_path \<Rightarrow> bool) \<Rightarrow> host_path \<Rightarrow> host_path \<Rightarrow> host_path \<times> host_path" where
  "existing_prefix exists p tail =
     (if exists p \<or> p = [] then (p, tail) else existing_prefix exists (butlast p) (tail @ [last p]))"
  by pat_completeness auto
termination
  by (relation "measure (\<lambda>(_, p, _). length p)") auto

declare existing_prefix.simps [simp del]

definition canonicalize_under_root ::
  "(host_path \<Rightarrow> host_path option) \<Rightarrow> (host_path \<Rightarrow> bool) \<Rightarrow> (host_path \<Rightarrow> string) \<Rightarrow> host_path \<Rightarrow> host_path
    \<Rightarrow> (mount_error, host_path) result" where
  "canonicalize_under_root canonicalize exists display base joined =
     (case canonicalize base of
        None \<Rightarrow> Inr joined
      | Some canonical_root \<Rightarrow>
          (case existing_prefix exists joined [] of
             (p, tail) \<Rightarrow>
               let canonical = (case canonicalize p of Some q \<Rightarrow> q | None \<Rightarrow> p)
               in if \<not> prefix canonical_root canonical
                  then Inl (InvalidPath (display joined) ''resolved path escapes the mount root via symlink'')
                  else
                    let result = canonical @ rev tail
                    in case (if exists result then canonicalize result else None) of
                         Some final \<Rightarrow>
                           if \<not> prefix canonical_root final
                           then Inl (InvalidPath (display joined)
                             ''resolved path escapes the mount root via symlink (post-assembly check)'')
                           else Inr final
                       | None \<Rightarrow> Inr result))"

definition backend_resolve ::
  "(host_path \<Rightarrow> host_path option) \<Rightarrow> (host_path \<Rightarrow> bool) \<Rightarrow> (host_path \<Rightarrow> string) \<Rightarrow> host_path \<Rightarrow> string
    \<Rightarrow> (mount_error, host_path) result" where
  "backend_resolve canonicalize exists display base rel =
     (case safe_join base rel of
        Inl e \<Rightarrow> Inl e
      | Inr joined \<Rightarrow> canonicalize_under_root canonicalize exists display base joined)"

section \<open>Tables\<close>

text \<open>What a table promises: a map from prefixes to backends.\<close>

definition mounts_ok :: "'b project_mounts \<Rightarrow> bool" where
  "mounts_ok ms \<longleftrightarrow> distinct (map fst ms) \<and> sorted (map (\<lambda>e. - int (length (fst e))) ms)"

lemma map_of_filter_other: "map_of (filter (\<lambda>e. fst e \<noteq> p) ms) k = (if k = p then None else map_of ms k)"
  by (induction ms) auto

lemma distinct_fst_sort: "distinct (map fst (sort_key f xs)) = distinct (map fst xs)"
  by (simp add: distinct_map)

lemma mounts_add_ok:
  assumes "mounts_ok ms"
  shows "mounts_ok (mounts_add p b ms)"
    and "map_of (mounts_add p b ms) = (map_of ms)(normalize_prefix p \<mapsto> b)"
proof -
  let ?q = "normalize_prefix p"
  let ?xs = "filter (\<lambda>e. fst e \<noteq> ?q) ms @ [(?q, b)]"
  have d: "distinct (map fst ?xs)"
    using assms by (auto simp: mounts_ok_def distinct_map_filter)
  then have dm: "distinct (map fst (mounts_add p b ms))" by (simp add: mounts_add_def Let_def distinct_fst_sort)
  show "mounts_ok (mounts_add p b ms)"
    using dm by (simp add: mounts_ok_def) (simp add: mounts_add_def Let_def)
  have "map_of (mounts_add p b ms) = map_of ?xs"
    using map_of_inject_set [OF dm d] by (simp add: mounts_add_def Let_def)
  also have "\<dots> = (map_of ms)(?q \<mapsto> b)"
    by (rule ext) (simp add: map_add_def map_of_filter_other split: option.split)
  finally show "map_of (mounts_add p b ms) = (map_of ms)(?q \<mapsto> b)" .
qed

interpretation mount_table: refinement
  "\<lambda>ms (p, b). mounts_add p b ms" "\<lambda>m (p, b). m(normalize_prefix p \<mapsto> b)" map_of mounts_ok "\<lambda>_. True"
  by unfold_locales (auto simp: mounts_add_ok)

lemma resolve_in_first:
  "resolve_in ms path =
   (case find (\<lambda>(p, _). match_mount p path \<noteq> None) ms of
      Some (p, b) \<Rightarrow> Some (b, the (match_mount p path))
    | None \<Rightarrow> None)"
  by (induction ms) (auto split: option.split)

lemma sorted_find_least:
  assumes "sorted (map f xs)" and "find P xs = Some x"
  shows "x \<in> set xs \<and> P x \<and> (\<forall>y \<in> set xs. P y \<longrightarrow> f x \<le> f y)"
  using assms by (induction xs) (auto split: if_splits)

section \<open>Staying below the root\<close>

lemma existing_prefix_joins:
  "existing_prefix exists p tail = (q, t) \<Longrightarrow> q @ rev t = p @ rev tail"
proof (induction exists p tail rule: existing_prefix.induct)
  case (1 exists p tail)
  show ?case
  proof (cases "exists p \<or> p = []")
    case True
    then show ?thesis using "1.prems" by (simp add: existing_prefix.simps [of exists p])
  next
    case False
    then have "existing_prefix exists (butlast p) (tail @ [last p]) = (q, t)"
      using "1.prems" by (simp add: existing_prefix.simps [of exists p])
    from "1.IH" [OF False this] False show ?thesis by (simp flip: append_assoc)
  qed
qed

lemma part_components_relative: "c \<in> set (part_components first ps) \<Longrightarrow> c \<noteq> RootDir"
  by (induction first ps rule: part_components.induct) (auto split: if_splits)

lemma safe_join_ok:
  "safe_join base rel = Inr p \<longleftrightarrow>
   \<not> is_absolute rel \<and> ParentDir \<notin> set (components rel) \<and> p = base @ names_of (components rel)"
proof (cases "is_absolute rel")
  case False
  have "RootDir \<notin> set (components rel)"
    using False part_components_relative by (auto simp: components_def)
  then have plain: "find (\<lambda>c. \<not> plain c) (components rel) = None \<longleftrightarrow> ParentDir \<notin> set (components rel)"
    unfolding find_None_iff by (metis component.exhaust plain.simps)
  show ?thesis
  proof (cases "find (\<lambda>c. \<not> plain c) (components rel)")
    case None
    with plain False show ?thesis by (auto simp: safe_join_def)
  next
    case (Some c)
    then have "ParentDir \<in> set (components rel)" using plain by simp
    with Some False show ?thesis by (auto simp: safe_join_def split: component.split)
  qed
qed (simp add: safe_join_def)

lemma canonical_below:
  assumes "canonicalize_under_root canonicalize exists display base joined = Inr p"
    and "canonicalize base = Some canonical_root"
  shows "prefix canonical_root p"
proof -
  obtain q t where "existing_prefix exists joined [] = (q, t)" by fastforce
  with assms show ?thesis
    by (auto simp: canonicalize_under_root_def Let_def split: if_splits option.splits intro: prefix_prefix)
qed

section \<open>Properties\<close>

text \<open>
  C35. A table stands for the map of its prefixes to their backends, the last one registered for each,
  and a path goes to the backend of the longest prefix that covers it, with the rest of the path
  after the prefix; it goes nowhere when no prefix covers it.
\<close>

theorem longest_prefix_wins:
  "(let ms = foldl (\<lambda>ms (p, b). mounts_add p b ms) [] regs;
        m = foldl (\<lambda>m (p, b). m(normalize_prefix p \<mapsto> b)) Map.empty regs;
        q = normalize_path path
    in map_of ms = m \<and>
       (case mounts_resolve ms path of
          None \<Rightarrow> list_all (\<lambda>(p, _). match_mount p q = None) ms
        | Some (b, rest) \<Rightarrow>
            list_ex (\<lambda>(p, b'). m p = Some b \<and> b' = b \<and> match_mount p q = Some rest \<and>
              list_all (\<lambda>(p', _). match_mount p' q = None \<or> length p' \<le> length p) ms) ms))"
proof -
  let ?ms = "foldl (\<lambda>ms (p, b). mounts_add p b ms) [] regs"
  let ?m = "foldl (\<lambda>m (p, b). m(normalize_prefix p \<mapsto> b)) Map.empty regs"
  let ?q = "normalize_path path"
  have start: "mounts_ok []" by (simp add: mounts_ok_def)
  have ok: "mounts_ok ?ms"
    using mount_table.concrete.run_inv [OF start, of regs] by (simp add: list_all_iff)
  have map: "map_of ?ms = ?m"
    using mount_table.run_refines [OF start, of regs] by (simp add: list_all_iff)
  show ?thesis
  proof (cases "find (\<lambda>(p, _). match_mount p ?q \<noteq> None) ?ms")
    case None
    then have "list_all (\<lambda>(p, _). match_mount p ?q = None) ?ms"
      by (auto simp: find_None_iff list_all_iff)
    with None map show ?thesis by (simp add: mounts_resolve_def resolve_in_first)
  next
    case (Some e)
    obtain p b where e: "e = (p, b)" by (cases e)
    have first: "(p, b) \<in> set ?ms \<and> match_mount p ?q \<noteq> None \<and>
        (\<forall>e' \<in> set ?ms. match_mount (fst e') ?q \<noteq> None \<longrightarrow> length (fst e') \<le> length p)"
      using sorted_find_least [of "\<lambda>e. - int (length (fst e))" ?ms "\<lambda>(p, _). match_mount p ?q \<noteq> None" "(p, b)"] ok Some
      unfolding e by (auto simp: mounts_ok_def)
    have "?m p = Some b"
      using first ok unfolding map [symmetric] by (simp add: mounts_ok_def)
    then have "list_ex (\<lambda>(p', b'). ?m p' = Some b \<and> b' = b \<and> match_mount p' ?q = Some (the (match_mount p ?q)) \<and>
        list_all (\<lambda>(p'', _). match_mount p'' ?q = None \<or> length p'' \<le> length p') ?ms) ?ms"
      using first unfolding list_ex_iff list_all_iff by (intro bexI [of _ "(p, b)"]) auto
    with map show ?thesis
      unfolding Let_def mounts_resolve_def resolve_in_first Some e by simp
  qed
qed

text \<open>
  C24. A path the file system backend resolves never leaves the root of its mount: a relative path
  without parent components goes through, any other is refused, and when the root exists the
  result lies, as a path, below its canonical form. A link that leads nowhere is kept in the tail.
\<close>

theorem mount_contains_paths:
  assumes "backend_resolve canonicalize exists display base rel = Inr p"
  shows "\<not> is_absolute rel \<and> ParentDir \<notin> set (components rel) \<and>
    (case canonicalize base of
       Some canonical_root \<Rightarrow> prefix canonical_root p
     | None \<Rightarrow> p = base @ names_of (components rel))"
proof -
  obtain joined where joined: "safe_join base rel = Inr joined"
    "canonicalize_under_root canonicalize exists display base joined = Inr p"
    using assms by (auto simp: backend_resolve_def split: sum.splits)
  then show ?thesis
    using canonical_below [OF joined(2)] safe_join_ok [of base rel joined]
    by (cases "canonicalize base") (simp_all add: canonicalize_under_root_def)
qed

theorem mount_contains_paths_witness:
  "backend_resolve (\<lambda>p. if p = [''p'', ''link''] then Some [''etc''] else Some p) (\<lambda>_. True) (\<lambda>_. ''shown'') [''p''] ''a/./b'' = Inr [''p'', ''a'', ''b''] \<and>
   prefix [''p''] [''p'', ''a'', ''b''] \<and>
   backend_resolve (\<lambda>p. if p = [''p'', ''link''] then Some [''etc''] else Some p) (\<lambda>_. True) (\<lambda>_. ''shown'') [''p''] ''link'' \<noteq> Inr [''etc'']"
proof -
  let ?c = "\<lambda>p. if p = [''p'', ''link''] then Some [''etc''] else Some p"
  have run: "backend_resolve ?c (\<lambda>_. True) (\<lambda>_. ''shown'') [''p''] ''a/./b'' = Inr [''p'', ''a'', ''b'']"
    by (simp add: backend_resolve_def safe_join_def is_absolute_def starts_with_def components_def names_of_def
        canonicalize_under_root_def existing_prefix.simps Let_def)
  have "backend_resolve ?c (\<lambda>_. True) (\<lambda>_. ''shown'') [''p''] ''link'' \<noteq> Inr [''etc'']"
    using mount_contains_paths [of ?c "\<lambda>_. True" "\<lambda>_. ''shown''" "[''p'']" "''link''" "[''etc'']"] by auto
  with run mount_contains_paths [OF run] show ?thesis by simp
qed

text \<open>
  The table of a project is built at most once until it is invalidated, and a build that
  fails is tried again: after any number of resolutions the table in the cache is the one the first
  successful build gave.
\<close>

theorem table_built_once:
  assumes "cache project = Some mounts"
  shows "workspace_resolve factory project path (cache, w) = (Inr (mounts_resolve mounts path), cache, w) \<and>
    (case workspace_resolve factory other path' (cache, w) of
       (_, cache', _) \<Rightarrow> cache' project = Some mounts) \<and>
    (case workspace_resolve factory project path (invalidate project cache, w) of
       (Inl e, cache', w') \<Rightarrow> factory project w = (Inl e, w') \<and> cache' project = None
     | (Inr r, cache', w') \<Rightarrow>
         list_ex (\<lambda>m. factory project w = (Inr m, w') \<and> r = mounts_resolve m path \<and> cache' = cache(project \<mapsto> m))
           (case fst (factory project w) of Inr m \<Rightarrow> [m] | Inl _ \<Rightarrow> []))"
  using assms
  by (auto simp: workspace_resolve_def invalidate_def split: option.split sum.split prod.split)

theorem table_built_once_witness:
  "workspace_resolve (\<lambda>_ w. (Inl (BackendError ''down''), w + 1)) 1 ''/project/a'' ([1 \<mapsto> [(''/project/'', True)]], 0 :: nat) =
     (Inr (Some (True, ''a'')), [1 \<mapsto> [(''/project/'', True)]], 0)"
  using table_built_once [of "[1 \<mapsto> [(''/project/'', True)]]" 1 "[(''/project/'', True)]" "\<lambda>_ w. (Inl (BackendError ''down''), w + 1)" "''/project/a''" "0 :: nat" 2]
  by (simp add: mounts_resolve_def normalize_path_def starts_with_def match_mount_def strip_prefix_def)

end
