(* ===== verification/Allowlist.thy ===== *)
theory Allowlist
  imports Prelude
begin

text \<open>
  The network allowlist of sandboxed tools, \<open>src/tools/wasm/allowlist.rs\<close>, with the endpoint
  patterns of \<open>src/tools/wasm/capabilities.rs\<close>. The URL parser and the percent decoder are
  libraries and so arguments. The lemmas show what a pattern matches, that the path that is
  compared has no segment left that could climb, and when a request is allowed or why not.
\<close>

section \<open>Patterns\<close>

record endpoint_pattern =
  host :: string
  path_prefix :: "string option"
  methods :: "string list"

definition endpoint_host :: "string \<Rightarrow> endpoint_pattern" where
  "endpoint_host h = \<lparr>host = h, path_prefix = None, methods = []\<rparr>"

definition with_path_prefix :: "string \<Rightarrow> endpoint_pattern \<Rightarrow> endpoint_pattern" where
  "with_path_prefix p e = e\<lparr>path_prefix := Some p\<rparr>"

definition with_methods :: "string list \<Rightarrow> endpoint_pattern \<Rightarrow> endpoint_pattern" where
  "with_methods ms e = e\<lparr>methods := ms\<rparr>"

definition host_matches :: "endpoint_pattern \<Rightarrow> string \<Rightarrow> bool" where
  "host_matches e h \<longleftrightarrow>
     h = host e \<or>
     (starts_with (host e) ''*.'' \<and>
      (let suffix = drop 2 (host e)
       in ends_with h suffix \<and> length h > length suffix \<and>
          (let front = take (length h - length suffix) h in ends_with front ''.'' \<or> front = [])))"

definition ascii_upper :: "string \<Rightarrow> string" where
  "ascii_upper s = map (\<lambda>c. if 97 \<le> (of_char c :: nat) \<and> (of_char c :: nat) \<le> 122
     then char_of ((of_char c :: nat) - 32) else c) s"

definition method_matches :: "endpoint_pattern \<Rightarrow> string \<Rightarrow> bool" where
  "method_matches e m \<longleftrightarrow> methods e = [] \<or> list_ex (\<lambda>x. ascii_upper x = ascii_upper m) (methods e)"

definition endpoint_matches :: "endpoint_pattern \<Rightarrow> string \<Rightarrow> string \<Rightarrow> string \<Rightarrow> bool" where
  "endpoint_matches e h p m \<longleftrightarrow>
     host_matches e h \<and> (case path_prefix e of Some pre \<Rightarrow> starts_with p pre | None \<Rightarrow> True) \<and> method_matches e m"

section \<open>Paths\<close>

definition is_hex_digit :: "char \<Rightarrow> bool" where
  "is_hex_digit c \<longleftrightarrow> (let n = (of_char c :: nat) in 48 \<le> n \<and> n \<le> 57 \<or> 65 \<le> n \<and> n \<le> 70 \<or> 97 \<le> n \<and> n \<le> 102)"

fun has_valid_percent_encoding :: "string \<Rightarrow> bool" where
  "has_valid_percent_encoding [] = True"
| "has_valid_percent_encoding (c # s) =
     (if c = CHR ''%''
      then (case s of
          a # b # s' \<Rightarrow> is_hex_digit a \<and> is_hex_digit b \<and> has_valid_percent_encoding s'
        | _ \<Rightarrow> False)
      else has_valid_percent_encoding s)"

text \<open>The loop over the segments; \<open>pop\<close> of an empty list does nothing.\<close>

fun normalize_segments :: "(string \<Rightarrow> string option) \<Rightarrow> string list \<Rightarrow> string list \<Rightarrow> (string, string list) result" where
  "normalize_segments decode acc [] = Inr acc"
| "normalize_segments decode acc (raw # raws) =
     (if \<not> has_valid_percent_encoding raw then Inl (''Invalid percent-encoding in path segment: '' @ raw)
      else case decode raw of
        None \<Rightarrow> Inl (''Invalid percent-encoding in path segment: '' @ raw)
      | Some seg \<Rightarrow>
          if CHR ''/'' \<in> set seg \<or> CHR 0x5C \<in> set seg then Inl ''Path segment contains encoded path separator''
          else if seg = '''' \<or> seg = ''.'' then normalize_segments decode acc raws
          else if seg = ''..'' then normalize_segments decode (butlast acc) raws
          else normalize_segments decode (acc @ [seg]) raws)"

definition normalize_url_path :: "(string \<Rightarrow> string option) \<Rightarrow> string \<Rightarrow> (string, string) result" where
  "normalize_url_path decode path =
     (case normalize_segments decode [] (split_on (CHR ''/'') path) of
        Inl e \<Rightarrow> Inl e
      | Inr segments \<Rightarrow>
          let result = CHR ''/'' # join_with (CHR ''/'') segments
          in Inr (if length path > 1 \<and> ends_with path ''/'' \<and> \<not> ends_with result ''/'' then result @ ''/'' else result))"

section \<open>Requests\<close>

text \<open>What the URL library gives for a URL.\<close>

record parsed_by_library =
  url_scheme :: string
  url_username :: string
  url_password :: "string option"
  url_host :: "string option"
  url_path :: string

record parsed_url =
  parsed_scheme :: string
  parsed_host :: string
  parsed_path :: string

definition unbracketed :: "string \<Rightarrow> string" where
  "unbracketed h = (if starts_with h ''['' \<and> ends_with (drop 1 h) '']'' then butlast (drop 1 h) else h)"

definition parse_url ::
  "(string \<Rightarrow> (string, parsed_by_library) result) \<Rightarrow> (string \<Rightarrow> string option) \<Rightarrow> string \<Rightarrow> (string, parsed_url) result" where
  "parse_url url_parse decode url =
     (case url_parse url of
        Inl e \<Rightarrow> Inl (''URL parse failed: '' @ e)
      | Inr u \<Rightarrow>
          let scheme = ascii_lower (url_scheme u)
          in if scheme \<noteq> ''http'' \<and> scheme \<noteq> ''https'' then Inl (''Unsupported scheme: '' @ scheme)
             else if url_username u \<noteq> '''' \<or> url_password u \<noteq> None then Inl ''URL contains userinfo (@) which is not allowed''
             else case url_host u of
                 None \<Rightarrow> Inl ''Empty host''
               | Some h \<Rightarrow>
                   (case normalize_url_path decode (url_path u) of
                      Inl e \<Rightarrow> Inl e
                    | Inr p \<Rightarrow> Inr \<lparr>parsed_scheme = scheme, parsed_host = ascii_lower (unbracketed h), parsed_path = p\<rparr>))"

datatype deny_reason =
  InvalidUrl string
| HostNotAllowed string
| PathNotAllowed string string
| MethodNotAllowed string string
| EmptyAllowlist
| InsecureScheme string

datatype allowlist_result = Allowed | Denied deny_reason

record allowlist_validator =
  patterns :: "endpoint_pattern list"
  require_https :: bool

definition validator_new :: "endpoint_pattern list \<Rightarrow> allowlist_validator" where
  "validator_new ps = \<lparr>patterns = ps, require_https = True\<rparr>"

definition allow_http :: "allowlist_validator \<Rightarrow> allowlist_validator" where
  "allow_http v = v\<lparr>require_https := False\<rparr>"

definition allowlist_validate ::
  "(string \<Rightarrow> (string, parsed_by_library) result) \<Rightarrow> (string \<Rightarrow> string option) \<Rightarrow> allowlist_validator \<Rightarrow> string \<Rightarrow> string
    \<Rightarrow> allowlist_result" where
  "allowlist_validate url_parse decode v url method =
     (if patterns v = [] then Denied EmptyAllowlist
      else case parse_url url_parse decode url of
        Inl e \<Rightarrow> Denied (InvalidUrl e)
      | Inr u \<Rightarrow>
          if require_https v \<and> parsed_scheme u \<noteq> ''https'' then Denied (InsecureScheme (parsed_scheme u))
          else if list_ex (\<lambda>p. endpoint_matches p (parsed_host u) (parsed_path u) method) (patterns v) then Allowed
          else
            let host_ok = filter (\<lambda>p. host_matches p (parsed_host u)) (patterns v);
                path_ok = filter (\<lambda>p. path_prefix p = None \<or>
                  starts_with (parsed_path u) (case path_prefix p of Some pre \<Rightarrow> pre | None \<Rightarrow> '''')) host_ok
            in if host_ok = [] then Denied (HostNotAllowed (parsed_host u))
               else if path_ok = [] then Denied (PathNotAllowed (parsed_host u) (parsed_path u))
               else Denied (MethodNotAllowed method (parsed_host u)))"

definition host_allowed :: "allowlist_validator \<Rightarrow> string \<Rightarrow> bool" where
  "host_allowed v h \<longleftrightarrow> list_ex (\<lambda>p. host_matches p h) (patterns v)"

section \<open>What a host pattern matches\<close>

lemma host_matches_iff:
  "host_matches e h \<longleftrightarrow> h = host e \<or> (\<exists>sub suffix. host e = ''*.'' @ suffix \<and> h = sub @ ''.'' @ suffix)"
proof -
  have wildcard: "(ends_with h suffix \<and> length h > length suffix \<and>
      (let front = take (length h - length suffix) h in ends_with front ''.'' \<or> front = [])) \<longleftrightarrow>
    (\<exists>sub. h = sub @ ''.'' @ suffix)" for suffix
  proof
    assume l: "ends_with h suffix \<and> length h > length suffix \<and>
      (let front = take (length h - length suffix) h in ends_with front ''.'' \<or> front = [])"
    then obtain r where r: "h = r @ suffix" by (auto simp: ends_with_iff)
    with l have "ends_with r ''.''" by (auto simp: Let_def)
    then show "\<exists>sub. h = sub @ ''.'' @ suffix" using r by (auto simp: ends_with_iff)
  next
    assume "\<exists>sub. h = sub @ ''.'' @ suffix"
    then show "ends_with h suffix \<and> length h > length suffix \<and>
      (let front = take (length h - length suffix) h in ends_with front ''.'' \<or> front = [])"
      by (auto simp: ends_with_def Let_def)
  qed
  have drop: "host e = ''*.'' @ suffix \<Longrightarrow> drop 2 (host e) = suffix" for suffix by simp
  show ?thesis
  proof (cases "starts_with (host e) ''*.''")
    case True
    then obtain suffix where s: "host e = ''*.'' @ suffix" by (auto simp: starts_with_iff)
    show ?thesis
      unfolding host_matches_def Let_def [of "drop 2 (host e)"] drop [OF s] wildcard using True s by auto
  next
    case False
    then show ?thesis by (auto simp: host_matches_def starts_with_iff)
  qed
qed

section \<open>What is left of a path\<close>

definition plain_segment :: "string \<Rightarrow> bool" where
  "plain_segment s \<longleftrightarrow> s \<noteq> '''' \<and> s \<noteq> ''.'' \<and> s \<noteq> ''..'' \<and> CHR ''/'' \<notin> set s \<and> CHR 0x5C \<notin> set s"

lemma normalize_segments_plain:
  "list_all plain_segment acc \<Longrightarrow> normalize_segments decode acc raws = Inr segs \<Longrightarrow> list_all plain_segment segs"
proof (induction decode acc raws rule: normalize_segments.induct)
  case (2 decode acc raw raws)
  have "list_all plain_segment (butlast acc)" using "2.prems"(1) by (auto simp: list_all_iff dest: in_set_butlastD)
  moreover have "plain_segment seg" if "seg \<noteq> ''''" "seg \<noteq> ''.''" "seg \<noteq> ''..''" "CHR ''/'' \<notin> set seg" "CHR 0x5C \<notin> set seg" for seg
    using that by (simp add: plain_segment_def)
  ultimately show ?case
    using 2 by (auto split: if_splits option.splits)
qed simp

text \<open>The segments of a normalised path: the empty one before the root, plain ones, perhaps an empty one at the end.\<close>

lemma normalized_segments:
  assumes "normalize_url_path decode path = Inr q"
  obtains segs where "list_all plain_segment segs"
    "split_on (CHR ''/'') q = [] # (if segs = [] then [[]] else segs) \<or> split_on (CHR ''/'') q = [] # segs @ [[]]"
proof -
  obtain segs where segs: "normalize_segments decode [] (split_on (CHR ''/'') path) = Inr segs"
    using assms by (auto simp: normalize_url_path_def split: sum.splits)
  have q: "q = CHR ''/'' # join_with (CHR ''/'') segs \<or> segs \<noteq> [] \<and> q = CHR ''/'' # join_with (CHR ''/'') segs @ ''/''"
    using assms by (cases segs) (auto simp: normalize_url_path_def segs Let_def ends_with_def split: if_splits)
  have plain: "list_all plain_segment segs" by (rule normalize_segments_plain [OF _ segs]) simp
  then have free: "list_all (\<lambda>w. CHR ''/'' \<notin> set w) segs" by (auto simp: list_all_iff plain_segment_def)
  from q have "split_on (CHR ''/'') q = [] # (if segs = [] then [[]] else segs) \<or> split_on (CHR ''/'') q = [] # segs @ [[]]"
  proof
    assume "q = CHR ''/'' # join_with (CHR ''/'') segs"
    then show ?thesis using free by (simp add: split_join)
  next
    assume "segs \<noteq> [] \<and> q = CHR ''/'' # join_with (CHR ''/'') segs @ ''/''"
    then have "q = CHR ''/'' # join_with (CHR ''/'') (segs @ [[]])" by (simp add: join_snoc)
    then show ?thesis using free split_join [of "segs @ [[]]" "CHR ''/''"] by simp
  qed
  with plain show ?thesis by (rule that)
qed

section \<open>Properties\<close>

text \<open>
  A request is allowed exactly when its URL parses, carries no user information and is https
  where that is required, and some pattern has its host, the host or a subdomain below the
  wildcard, a prefix of its normalised path, if it names one, and its method, if it lists any.
\<close>

theorem request_allowed_iff:
  "(allowlist_validate url_parse decode v url method = Allowed) =
    (case parse_url url_parse decode url of
       Inl _ \<Rightarrow> False
     | Inr u \<Rightarrow>
         (if require_https v then parsed_scheme u = ''https'' else True) \<and>
         list_ex (\<lambda>p.
             (parsed_host u = host p \<or>
               (\<exists>sub suffix. host p = ''*.'' @ suffix \<and> parsed_host u = sub @ ''.'' @ suffix)) \<and>
             (case path_prefix p of Some pre \<Rightarrow> (\<exists>rest. parsed_path u = pre @ rest) | None \<Rightarrow> True) \<and>
             (methods p = [] \<or> ascii_upper method \<in> set (map ascii_upper (methods p)))) (patterns v))"
proof -
  have m: "method_matches p method = (methods p = [] \<or> ascii_upper method \<in> set (map ascii_upper (methods p)))" for p
    by (auto simp: method_matches_def list_ex_iff) (metis imageI)
  show ?thesis
    unfolding allowlist_validate_def endpoint_matches_def m host_matches_iff
    by (cases "parse_url url_parse decode url") (auto simp: starts_with_iff Let_def list_ex_iff split: option.splits)
qed

text \<open>
  The path that prefixes are compared with starts at the root and has only plain segments, no
  dot, no parent, no separator that was encoded: below a prefix that ends in a slash nothing
  climbs out of it again.
\<close>

theorem normalized_path_cannot_climb:
  assumes "normalize_url_path decode path = Inr q" and "starts_with q (pre @ ''/'')" 
  shows "(\<exists>segs. list_all plain_segment segs \<and>
      split_on (CHR ''/'') q \<in> {[] # segs, [] # segs @ [[]]}) \<and>
    list_all (\<lambda>s. s = [] \<or> plain_segment s) (split_on (CHR ''/'') (drop (length pre + 1) q))"
proof -
  obtain segs where segs: "list_all plain_segment segs"
    "split_on (CHR ''/'') q = [] # (if segs = [] then [[]] else segs) \<or> split_on (CHR ''/'') q = [] # segs @ [[]]"
    using assms(1) by (rule normalized_segments)
  then have whole: "list_all (\<lambda>s. s = [] \<or> plain_segment s) (split_on (CHR ''/'') q)"
    by (auto simp: list_all_iff split: if_splits)
  obtain rest where rest: "q = pre @ CHR ''/'' # rest" using assms(2) by (auto simp: starts_with_iff)
  have "split_on (CHR ''/'') q = split_on (CHR ''/'') pre @ split_on (CHR ''/'') rest"
    unfolding rest by (rule split_on_app)
  then have "list_all (\<lambda>s. s = [] \<or> plain_segment s) (split_on (CHR ''/'') rest)" using whole by simp
  moreover have "drop (length pre + 1) q = rest" by (simp add: rest)
  moreover have "\<exists>segs. list_all plain_segment segs \<and> split_on (CHR ''/'') q \<in> {[] # segs, [] # segs @ [[]]}"
    using segs by (intro exI [of _ segs]) (auto split: if_splits)
  ultimately show ?thesis by simp
qed

theorem normalized_path_cannot_climb_witness:
  "normalize_url_path Some ''/v1/./a/../b/'' = Inr ''/v1/b/'' \<and>
   list_all (\<lambda>s. s = [] \<or> plain_segment s) (split_on (CHR ''/'') ''b/'')"
proof -
  have run: "normalize_url_path Some ''/v1/./a/../b/'' = Inr ''/v1/b/''"
    by (simp add: normalize_url_path_def ends_with_def)
  with normalized_path_cannot_climb [OF run, of "''/v1''"] show ?thesis by (simp add: starts_with_def)
qed

text \<open>
  A request that is refused after parsing is told the first thing no pattern offers: the host,
  a path below a pattern of the host, or the method.
\<close>

theorem refusal_names_the_reason:
  assumes "parse_url url_parse decode url = Inr u" and "allowlist_validate url_parse decode v url method = Denied r"
    and "patterns v \<noteq> []" and "parsed_scheme u = ''https''"
  shows "(case r of
      HostNotAllowed h \<Rightarrow> h = parsed_host u \<and> \<not> host_allowed v h
    | PathNotAllowed h p \<Rightarrow> h = parsed_host u \<and> p = parsed_path u \<and> host_allowed v h \<and>
        \<not> list_ex (\<lambda>e. endpoint_matches (e\<lparr>methods := []\<rparr>) h p method) (patterns v)
    | MethodNotAllowed m h \<Rightarrow> h = parsed_host u \<and> m = method \<and>
        list_ex (\<lambda>e. endpoint_matches (e\<lparr>methods := []\<rparr>) h (parsed_path u) method) (patterns v)
    | _ \<Rightarrow> False)"
proof -
  have host [simp]: "host_matches (e\<lparr>methods := []\<rparr>) = host_matches e" for e
    by (rule ext) (simp add: host_matches_def)
  have free: "endpoint_matches (e\<lparr>methods := []\<rparr>) h p method =
      (host_matches e h \<and> (path_prefix e = None \<or> starts_with p (case path_prefix e of Some pre \<Rightarrow> pre | None \<Rightarrow> '''')))" for e h p
    by (auto simp: endpoint_matches_def method_matches_def split: option.split)
  show ?thesis
    unfolding free using assms
    by (auto simp: allowlist_validate_def host_allowed_def Let_def filter_empty_conv list_ex_iff split: if_splits)
qed

theorem refusal_names_the_reason_witness:
  "(let parse = \<lambda>_. Inr \<lparr>url_scheme = ''https'', url_username = '''', url_password = None, url_host = Some ''evil.com'', url_path = ''/''\<rparr>
    in allowlist_validate parse Some (validator_new [endpoint_host ''good.com'']) ''https://evil.com/'' ''GET'' =
         Denied (HostNotAllowed ''evil.com'') \<and>
       \<not> host_allowed (validator_new [endpoint_host ''good.com'']) ''evil.com'')"
proof -
  let ?parse = "\<lambda>_ :: string. Inr \<lparr>url_scheme = ''https'', url_username = '''', url_password = None, url_host = Some ''evil.com'', url_path = ''/''\<rparr>"
  let ?v = "validator_new [endpoint_host ''good.com'']"
  have u: "parse_url ?parse Some ''https://evil.com/'' = Inr \<lparr>parsed_scheme = ''https'', parsed_host = ''evil.com'', parsed_path = ''/''\<rparr>"
    by (simp add: parse_url_def ascii_lower_def unbracketed_def starts_with_def normalize_url_path_def ends_with_def)
  have r: "allowlist_validate ?parse Some ?v ''https://evil.com/'' ''GET'' = Denied (HostNotAllowed ''evil.com'')"
    by (simp add: allowlist_validate_def u validator_new_def endpoint_host_def endpoint_matches_def host_matches_def starts_with_def)
  from refusal_names_the_reason [OF u r] r show ?thesis by (simp add: validator_new_def)
qed

end
