(* ===== verification/Tokens.thy ===== *)
theory Tokens
  imports Prelude "HOL-Library.Word"
begin

text \<open>
  The bearer tokens of sandboxed jobs, \<open>src/orchestrator/auth.rs\<close>: generating and storing them,
  the credential grants kept beside them, and the middleware every request of a worker goes
  through. The lemmas show what a token opens, over any history of the store.
\<close>

section \<open>Tokens\<close>

text \<open>\<open>generate_token\<close> writes random bytes with \<open>{b:02x}\<close>; the bytes are an argument.\<close>

definition hex_digit :: "nat \<Rightarrow> char" where
  "hex_digit n = char_of (if n < 10 then 48 + n else 87 + n)"

definition hex_byte :: "8 word \<Rightarrow> string" where
  "hex_byte b = [hex_digit (unat b div 16), hex_digit (unat b mod 16)]"

definition generate_token :: "8 word list \<Rightarrow> string" where
  "generate_token bytes = foldl (\<lambda>s b. s @ hex_byte b) [] bytes"

record credential_grant =
  secret_name :: string
  env_var :: string

record token_store =
  job_tokens :: "uuid \<rightharpoonup> string"
  job_grants :: "uuid \<rightharpoonup> credential_grant list"

definition tokens_new :: token_store where
  "tokens_new = \<lparr>job_tokens = Map.empty, job_grants = Map.empty\<rparr>"

definition create_token :: "8 word list \<Rightarrow> uuid \<Rightarrow> token_store \<Rightarrow> string \<times> token_store" where
  "create_token bytes job s =
     (let token = generate_token bytes in (token, s\<lparr>job_tokens := (job_tokens s)(job \<mapsto> token)\<rparr>))"

text \<open>The comparison takes the same time for every token of a length; its result is equality.\<close>

definition validate_token :: "uuid \<Rightarrow> string \<Rightarrow> token_store \<Rightarrow> bool" where
  "validate_token job token s = (case job_tokens s job of Some stored \<Rightarrow> stored = token | None \<Rightarrow> False)"

definition revoke_token :: "uuid \<Rightarrow> token_store \<Rightarrow> token_store" where
  "revoke_token job s = s\<lparr>job_tokens := (job_tokens s)(job := None), job_grants := (job_grants s)(job := None)\<rparr>"

definition active_count :: "token_store \<Rightarrow> nat" where
  "active_count s = card (dom (job_tokens s))"

definition store_grants :: "uuid \<Rightarrow> credential_grant list \<Rightarrow> token_store \<Rightarrow> token_store" where
  "store_grants job grants s =
     (if grants \<noteq> [] then s\<lparr>job_grants := (job_grants s)(job \<mapsto> grants)\<rparr> else s)"

definition get_grants :: "uuid \<Rightarrow> token_store \<Rightarrow> credential_grant list option" where
  "get_grants job s = job_grants s job"

section \<open>The middleware\<close>

datatype auth_status = BadRequest | Unauthorized

text \<open>\<open>parse_uuid\<close> is the parser of the UUID library.\<close>

definition extract_job_id_from_path :: "(string \<Rightarrow> uuid option) \<Rightarrow> string \<Rightarrow> uuid option" where
  "extract_job_id_from_path parse_uuid path =
     (let parts = split_on (CHR ''/'') (dropWhile (\<lambda>c. c = CHR ''/'') path)
      in if length parts \<ge> 2 \<and> parts ! 0 = ''worker'' then parse_uuid (parts ! 1) else None)"

text \<open>
  \<open>header\<close> is the authorization header, if there is one, with its text, if it is text. \<open>Inr ()\<close>
  means that the request goes on to its handler.
\<close>

definition worker_auth_middleware ::
  "(string \<Rightarrow> uuid option) \<Rightarrow> token_store \<Rightarrow> string \<Rightarrow> string option option \<Rightarrow> (auth_status, unit) result" where
  "worker_auth_middleware parse_uuid s path header =
     (case extract_job_id_from_path parse_uuid path of
        None \<Rightarrow> Inl BadRequest
      | Some job \<Rightarrow>
          (case header of
             Some (Some v) \<Rightarrow>
               if \<not> starts_with v ''Bearer '' then Inl Unauthorized
               else if \<not> validate_token job (drop 7 v) s then Inl Unauthorized
               else Inr ()
           | _ \<Rightarrow> Inl Unauthorized))"

section \<open>What tokens look like\<close>

lemma of_char_hex_digit:
  assumes "n < 16"
  shows "(of_char (hex_digit n) :: nat) = (if n < 10 then 48 + n else 87 + n)"
proof -
  have "(if n < 10 then 48 + n else 87 + n) mod 256 = (if n < 10 then 48 + n else 87 + n)" using assms by auto
  then show ?thesis unfolding hex_digit_def of_char_of .
qed

lemma hex_digit_inj:
  assumes "n < 16" and "m < 16"
  shows "hex_digit n = hex_digit m \<longleftrightarrow> n = m"
proof
  assume "hex_digit n = hex_digit m"
  then have "(of_char (hex_digit n) :: nat) = of_char (hex_digit m)" by (rule arg_cong)
  then have "(if n < 10 then 48 + n else 87 + n) = (if m < 10 then 48 + m else 87 + m)"
    unfolding of_char_hex_digit [OF assms(1)] of_char_hex_digit [OF assms(2)] .
  with assms show "n = m" by (simp split: if_splits)
qed simp

lemma hex_byte_inj [simp]: "hex_byte b = hex_byte c \<longleftrightarrow> b = c"
proof
  have small: "unat x div 16 < 16" for x :: "8 word" using unsigned_less [where 'a = nat, of x] by simp
  assume "hex_byte b = hex_byte c"
  then have "unat b div 16 = unat c div 16" "unat b mod 16 = unat c mod 16"
    by (simp_all add: hex_byte_def hex_digit_inj small)
  then have "unat b = unat c" by (metis div_mult_mod_eq)
  then show "b = c" by (rule word_unat_eq_iff [THEN iffD2])
qed simp

lemma generate_token_concat: "generate_token bytes = concat (map hex_byte bytes)"
proof -
  have "foldl (\<lambda>s b. s @ hex_byte b) acc bytes = acc @ concat (map hex_byte bytes)" for acc
    by (induction bytes arbitrary: acc) simp_all
  then show ?thesis by (simp add: generate_token_def)
qed

lemma length_hex_byte [simp]: "length (hex_byte b) = 2"
  by (simp add: hex_byte_def)

section \<open>Histories of the store\<close>

datatype token_event =
  TokenCreated uuid string
| GrantsStored uuid "credential_grant list"
| TokenRevoked uuid

text \<open>\<open>create_token\<close> is the event of its result.\<close>

fun token_step :: "token_store \<Rightarrow> token_event \<Rightarrow> token_store" where
  "token_step s (TokenCreated job token) = s\<lparr>job_tokens := (job_tokens s)(job \<mapsto> token)\<rparr>"
| "token_step s (GrantsStored job grants) = store_grants job grants s"
| "token_step s (TokenRevoked job) = revoke_token job s"

lemma create_token_step: "snd (create_token bytes job s) = token_step s (TokenCreated job (generate_token bytes))"
  by (simp add: create_token_def Let_def)

text \<open>The tokens a history issued, and the token of a job that it issued last and did not revoke since.\<close>

fun issued_tokens :: "token_event list \<Rightarrow> string list" where
  "issued_tokens [] = []"
| "issued_tokens (TokenCreated job token # es) = token # issued_tokens es"
| "issued_tokens (_ # es) = issued_tokens es"

fun touches :: "uuid \<Rightarrow> token_event \<Rightarrow> bool" where
  "touches job (TokenCreated k _) = (k = job)"
| "touches job (GrantsStored _ _) = False"
| "touches job (TokenRevoked k) = (k = job)"

lemma job_tokens_step:
  "job_tokens (token_step s e) job =
    (case e of TokenCreated k t \<Rightarrow> if k = job then Some t else job_tokens s job
     | TokenRevoked k \<Rightarrow> if k = job then None else job_tokens s job
     | _ \<Rightarrow> job_tokens s job)"
  by (cases e) (simp_all add: store_grants_def revoke_token_def)

lemma token_came_from:
  assumes "job_tokens (foldl token_step tokens_new es) job = Some t"
  shows "\<exists>es1 es2. es = es1 @ TokenCreated job t # es2 \<and> \<not> list_ex (touches job) es2"
  using assms
proof (induction es rule: rev_induct)
  case Nil
  then show ?case by (simp add: tokens_new_def)
next
  case (snoc e es)
  show ?case
  proof (cases "touches job e")
    case True
    with snoc.prems have "e = TokenCreated job t"
      by (cases e) (simp_all add: job_tokens_step revoke_token_def split: if_splits)
    then show ?thesis by (intro exI [of _ es] exI [of _ "[]"]) simp
  next
    case False
    with snoc.prems have "job_tokens (foldl token_step tokens_new es) job = Some t"
      by (cases e) (auto simp: store_grants_def revoke_token_def split: if_splits)
    with snoc.IH obtain es1 es2 where "es = es1 @ TokenCreated job t # es2" "\<not> list_ex (touches job) es2" by blast
    with False show ?thesis by (intro exI [of _ es1] exI [of _ "es2 @ [e]"]) simp
  qed
qed

lemma issued_append [simp]: "issued_tokens (es @ fs) = issued_tokens es @ issued_tokens fs"
  by (induction es rule: issued_tokens.induct) simp_all

lemma in_issued: "t \<in> set (issued_tokens es) \<longleftrightarrow> (\<exists>job. TokenCreated job t \<in> set es)"
  by (induction es rule: issued_tokens.induct) auto

text \<open>When no token is issued twice, a token has one owner.\<close>

lemma token_owner_unique:
  assumes "distinct (issued_tokens es)" and "TokenCreated j t \<in> set es" and "TokenCreated k t \<in> set es"
  shows "j = k"
  using assms by (induction es rule: issued_tokens.induct) (auto simp: in_issued)

lemma middleware_ok:
  "is_ok (worker_auth_middleware parse_uuid s path header) \<longleftrightarrow>
    (\<exists>job t. extract_job_id_from_path parse_uuid path = Some job \<and> header = Some (Some (''Bearer '' @ t)) \<and>
      job_tokens s job = Some t)"
proof
  assume "is_ok (worker_auth_middleware parse_uuid s path header)"
  then obtain job v where facts: "extract_job_id_from_path parse_uuid path = Some job" "header = Some (Some v)"
      "starts_with v ''Bearer ''" "validate_token job (drop 7 v) s"
    by (auto simp: worker_auth_middleware_def split: option.splits if_splits)
  then have "v = ''Bearer '' @ drop 7 v" by (auto simp: starts_with_iff)
  with facts show "\<exists>job t. extract_job_id_from_path parse_uuid path = Some job \<and> header = Some (Some (''Bearer '' @ t)) \<and>
      job_tokens s job = Some t"
    by (auto simp: validate_token_def split: option.splits)
qed (auto simp: worker_auth_middleware_def validate_token_def starts_with_def)

section \<open>Properties\<close>

text \<open>
  Over any history in which no token is issued twice, a request passes the middleware exactly
  when its path names a job, its header carries a token issued for that job, and the job's token
  was neither replaced nor revoked since. So a token never opens the paths of two jobs, and a
  revoked token opens none.
\<close>

theorem token_opens_its_job:
  assumes "distinct (issued_tokens es)"
    and "is_ok (worker_auth_middleware parse_uuid (foldl token_step tokens_new es) path (Some (Some (''Bearer '' @ t))))"
  shows "\<exists>job es1 es2. extract_job_id_from_path parse_uuid path = Some job \<and>
    es = es1 @ TokenCreated job t # es2 \<and> list_all (\<lambda>e. \<not> touches job e) es2 \<and>
    (is_ok (worker_auth_middleware parse_uuid (foldl token_step tokens_new es) path' (Some (Some (''Bearer '' @ t)))) =
      (extract_job_id_from_path parse_uuid path' = Some job))"
proof -
  let ?s = "foldl token_step tokens_new es"
  obtain job where job: "extract_job_id_from_path parse_uuid path = Some job" "job_tokens ?s job = Some t"
    using assms(2) by (auto simp: middleware_ok)
  then obtain es1 es2 where split: "es = es1 @ TokenCreated job t # es2" "\<not> list_ex (touches job) es2"
    using token_came_from by blast
  have owner: "k = job" if "job_tokens ?s k = Some t" for k
  proof (rule token_owner_unique [OF assms(1)])
    show "TokenCreated k t \<in> set es" using token_came_from [OF that] by auto
    show "TokenCreated job t \<in> set es" using split(1) by simp
  qed
  have "is_ok (worker_auth_middleware parse_uuid ?s path' (Some (Some (''Bearer '' @ t)))) \<longleftrightarrow>
      (\<exists>k. extract_job_id_from_path parse_uuid path' = Some k \<and> job_tokens ?s k = Some t)"
    unfolding middleware_ok by simp
  also have "\<dots> \<longleftrightarrow> extract_job_id_from_path parse_uuid path' = Some job" using job(2) owner by blast
  finally have "is_ok (worker_auth_middleware parse_uuid ?s path' (Some (Some (''Bearer '' @ t)))) \<longleftrightarrow>
      extract_job_id_from_path parse_uuid path' = Some job" .
  moreover have "list_all (\<lambda>e. \<not> touches job e) es2" using split(2) by (auto simp: list_all_iff list_ex_iff)
  ultimately show ?thesis
    using job(1) split(1) by blast
qed

theorem token_opens_its_job_witness:
  "\<exists>job es1 es2. extract_job_id_from_path (\<lambda>s. Some (length s)) ''/worker/ab/job'' = Some job \<and>
    [TokenCreated 2 ''x'', TokenCreated 3 ''y'', TokenRevoked 3] = es1 @ TokenCreated job ''x'' # es2 \<and>
    list_all (\<lambda>e. \<not> touches job e) es2 \<and>
    (is_ok (worker_auth_middleware (\<lambda>s. Some (length s))
        (foldl token_step tokens_new [TokenCreated 2 ''x'', TokenCreated 3 ''y'', TokenRevoked 3])
        ''/worker/abc/job'' (Some (Some (''Bearer '' @ ''x'')))) =
      (extract_job_id_from_path (\<lambda>s. Some (length s)) ''/worker/abc/job'' = Some job))"
  by (rule token_opens_its_job)
    (simp_all add: middleware_ok extract_job_id_from_path_def tokens_new_def revoke_token_def)

text \<open>
  A token is two characters for each random byte, and different bytes give different tokens:
  the 32 bytes of a token are all in its 64 characters.
\<close>

theorem token_keeps_all_bytes:
  "length (generate_token bytes) = 2 * length bytes \<and>
   (generate_token bytes = generate_token bytes') = (bytes = bytes')"
proof -
  have "concat (map hex_byte bs) = concat (map hex_byte cs) \<longleftrightarrow> bs = cs" for bs cs
  proof (induction bs arbitrary: cs)
    case Nil
    then show ?case by (cases cs) (auto dest: arg_cong [of _ _ length])
  next
    case (Cons b bs)
    have "hex_byte b \<noteq> []" by (simp add: hex_byte_def)
    with Cons show ?case by (cases cs) (simp_all add: append_eq_append_conv)
  qed
  moreover have "length (concat (map hex_byte bs)) = 2 * length bs" for bs
    by (induction bs) simp_all
  ultimately show ?thesis by (simp add: generate_token_concat)
qed

end
