(* ===== verification/ContainerJobs.thy ===== *)
theory ContainerJobs
  imports Tokens WorkspaceMounts ChatMessages JobState
begin

text \<open>
  Sandboxed jobs in containers, \<open>src/orchestrator/job_manager.rs\<close>, with what the workers inside
  ask for in \<open>src/orchestrator/api.rs\<close> and the reaper of \<open>src/orchestrator/reaper.rs\<close>. Docker is part
  of the state: the containers it has, with what they were created with, and its answers are
  arguments. Creating a job is two halves, around the calls of Docker, because other operations
  run in between.
\<close>

section \<open>Data\<close>

datatype job_mode = ModeWorker | ModeClaudeCode | ModeAcp

fun job_mode_as_str :: "job_mode \<Rightarrow> string" where
  "job_mode_as_str ModeWorker = ''worker''"
| "job_mode_as_str ModeClaudeCode = ''claude_code''"
| "job_mode_as_str ModeAcp = ''acp''"

record acp_agent =
  acp_command :: string
  acp_args :: "string list"
  acp_env :: "(string \<times> string) list"

record 'j job_creation_params =
  jp_grants :: "credential_grant list"
  jp_mcp_servers :: "utext list option"
  jp_max_iterations :: "32 word option"
  jp_acp_agent :: "acp_agent option"
  jp_master_mcp :: "'j json option"

record container_job_config =
  cfg_image :: string
  cfg_memory_limit_mb :: "64 word"
  cfg_cpu_shares :: "32 word"
  cfg_orchestrator_port :: nat
  cfg_api_key :: "string option"
  cfg_oauth_token :: "string option"
  cfg_claude_model :: string
  cfg_claude_max_turns :: nat
  cfg_claude_memory_limit_mb :: "64 word"
  cfg_claude_allowed_tools :: "string list"
  cfg_acp_memory_limit_mb :: "64 word"
  cfg_acp_timeout_secs :: nat
  cfg_mcp_per_job :: bool
  cfg_claude_enabled :: bool
  cfg_acp_enabled :: bool

text \<open>The allowed tools are those of another configuration section.\<close>

definition default_container_job_config :: "string list \<Rightarrow> container_job_config" where
  "default_container_job_config tools = \<lparr>cfg_image = ''ironclaw-worker:latest'', cfg_memory_limit_mb = 2048,
     cfg_cpu_shares = 1024, cfg_orchestrator_port = 50051, cfg_api_key = None, cfg_oauth_token = None,
     cfg_claude_model = ''sonnet'', cfg_claude_max_turns = 50, cfg_claude_memory_limit_mb = 4096,
     cfg_claude_allowed_tools = tools, cfg_acp_memory_limit_mb = 4096, cfg_acp_timeout_secs = 1800,
     cfg_mcp_per_job = False, cfg_claude_enabled = False, cfg_acp_enabled = False\<rparr>"

datatype container_state = Creating | ContainerRunning | ContainerStopped | ContainerFailed

record completion_result =
  cr_success :: bool
  cr_message :: "string option"

record container_handle =
  ch_job :: uuid
  ch_container_id :: string
  ch_state :: container_state
  ch_mode :: job_mode
  ch_created_at :: utc
  ch_project_dir :: "host_path option"
  ch_task :: string
  ch_last_status :: "string option"
  ch_iteration :: "32 word"
  ch_result :: "completion_result option"

text \<open>Why the creation of a container failed: the reasons of \<open>ContainerCreationFailed\<close>.\<close>

datatype creation_failure =
  DirNotCanonical host_path string
| BaseNotAbsolute
| BaseNotCreated string
| BaseNotCanonical string
| OutsideBase host_path host_path
| BadServerName utext
| NoServersField
| ServersNotArray string
| McpNotWritten string
| NotCreated string
| NotStarted string

datatype orchestrator_error =
  ContainerCreationFailed uuid creation_failure
| ContainerNotFound uuid
| InvalidContainerState uuid string
| DockerError string
| ModeDisabled string

text \<open>What a container is created with.\<close>

record container_spec =
  spec_name :: string
  spec_image :: string
  spec_cmd :: "string list"
  spec_env :: "string list"
  spec_binds :: "string list"
  spec_memory :: "64 word"
  spec_cpu_shares :: int
  spec_network_mode :: string
  spec_extra_hosts :: "string list"
  spec_cap_drop :: "string list"
  spec_cap_add :: "string list"
  spec_security_opt :: "string list"
  spec_tmpfs :: "(string \<times> string) list"
  spec_user :: string
  spec_working_dir :: string
  spec_labels :: "(string \<times> string) list"

text \<open>
  The library and the file system: how identifiers, paths, times and JSON are written, what a
  path is after following its links, and the directory of the projects.
\<close>

record container_world =
  show_uuid :: "uuid \<Rightarrow> string"
  show_path :: "host_path \<Rightarrow> string"
  show_time :: "utc \<Rightarrow> string"
  show_strings :: "string list \<Rightarrow> string option"
  show_pairs :: "(string \<times> string) list \<Rightarrow> string option"
  canonical_path :: "host_path \<Rightarrow> (string, host_path) result"
  base_absolute :: bool
  base_dir :: host_path
  base_fault :: "string option"

section \<open>The specification of a container\<close>

definition is_mode_enabled :: "container_job_config \<Rightarrow> job_mode \<Rightarrow> bool" where
  "is_mode_enabled cfg mode =
     (case mode of ModeWorker \<Rightarrow> True | ModeClaudeCode \<Rightarrow> cfg_claude_enabled cfg | ModeAcp \<Rightarrow> cfg_acp_enabled cfg)"

definition validate_bind_mount_path ::
  "container_world \<Rightarrow> host_path \<Rightarrow> uuid \<Rightarrow> (orchestrator_error, host_path) result" where
  "validate_bind_mount_path W dir job =
     (case canonical_path W dir of
        Inl e \<Rightarrow> Inl (ContainerCreationFailed job (DirNotCanonical dir e))
      | Inr canonical \<Rightarrow>
          if \<not> base_absolute W then Inl (ContainerCreationFailed job BaseNotAbsolute)
          else case base_fault W of
            Some e \<Rightarrow> Inl (ContainerCreationFailed job (BaseNotCreated e))
          | None \<Rightarrow>
              (case canonical_path W (base_dir W @ [''projects'']) of
                 Inl e \<Rightarrow> Inl (ContainerCreationFailed job (BaseNotCanonical e))
               | Inr canonical_base \<Rightarrow>
                   if \<not> prefix canonical_base canonical
                   then Inl (ContainerCreationFailed job (OutsideBase canonical canonical_base))
                   else Inr canonical))"

definition extend_acp_env :: "container_world \<Rightarrow> container_job_config \<Rightarrow> acp_agent option \<Rightarrow> string list" where
  "extend_acp_env W cfg agent =
     (''ACP_TIMEOUT_SECS='' @ string_of_nat (cfg_acp_timeout_secs cfg)) #
     (case agent of
        None \<Rightarrow> []
      | Some a \<Rightarrow>
          (''ACP_AGENT_COMMAND='' @ acp_command a) #
          (case (if acp_args a \<noteq> [] then show_strings W (acp_args a) else None) of
             Some j \<Rightarrow> [''ACP_AGENT_ARGS='' @ j] | None \<Rightarrow> []) @
          (case (if acp_env a \<noteq> [] then show_pairs W (acp_env a) else None) of
             Some j \<Rightarrow> [''ACP_AGENT_ENV='' @ j] | None \<Rightarrow> []))"

definition max_worker_iterations :: "32 word" where
  "max_worker_iterations = 500"

definition clamp_iterations :: "32 word \<Rightarrow> 32 word" where
  "clamp_iterations n = (if n < 1 then 1 else if n > max_worker_iterations then max_worker_iterations else n)"

definition orchestrator_url :: "container_job_config \<Rightarrow> string" where
  "orchestrator_url cfg = ''http://host.docker.internal:'' @ string_of_nat (cfg_orchestrator_port cfg)"

definition claude_env :: "container_job_config \<Rightarrow> string list" where
  "claude_env cfg =
     (case cfg_api_key cfg of
        Some k \<Rightarrow> [''ANTHROPIC_API_KEY='' @ k]
      | None \<Rightarrow> (case cfg_oauth_token cfg of Some t \<Rightarrow> [''CLAUDE_CODE_OAUTH_TOKEN='' @ t] | None \<Rightarrow> [])) @
     (if cfg_claude_allowed_tools cfg \<noteq> []
      then [''CLAUDE_CODE_ALLOWED_TOOLS='' @ join_with (CHR '','') (cfg_claude_allowed_tools cfg)] else [])"

definition container_env ::
  "container_world \<Rightarrow> container_job_config \<Rightarrow> uuid \<Rightarrow> string \<Rightarrow> job_mode \<Rightarrow> host_path option \<Rightarrow> 'j job_creation_params
    \<Rightarrow> string list" where
  "container_env W cfg job token mode project params =
     [''IRONCLAW_WORKER_TOKEN='' @ token, ''IRONCLAW_JOB_ID='' @ show_uuid W job,
      ''IRONCLAW_ORCHESTRATOR_URL='' @ orchestrator_url cfg] @
     (case project of Some _ \<Rightarrow> [''IRONCLAW_WORKSPACE=/workspace''] | None \<Rightarrow> []) @
     (case jp_max_iterations params of
        Some n \<Rightarrow> if mode = ModeWorker then [''IRONCLAW_MAX_ITERATIONS='' @ string_of_nat (unat (clamp_iterations n))] else []
      | None \<Rightarrow> []) @
     (if mode = ModeClaudeCode then claude_env cfg else []) @
     (if mode = ModeAcp then extend_acp_env W cfg (jp_acp_agent params) else [])"

definition container_binds :: "container_world \<Rightarrow> host_path option \<Rightarrow> host_path option \<Rightarrow> string list" where
  "container_binds W project mcp =
     (case project of Some p \<Rightarrow> [show_path W p @ '':/workspace:rw''] | None \<Rightarrow> []) @
     (case mcp of Some p \<Rightarrow> [show_path W p @ '':/home/sandbox/.ironclaw/mcp-servers.json:ro''] | None \<Rightarrow> [])"

definition container_cmd :: "container_world \<Rightarrow> container_job_config \<Rightarrow> uuid \<Rightarrow> job_mode \<Rightarrow> string list" where
  "container_cmd W cfg job mode =
     (let common = [''--job-id'', show_uuid W job, ''--orchestrator-url'', orchestrator_url cfg]
      in case mode of
        ModeWorker \<Rightarrow> ''worker'' # common
      | ModeClaudeCode \<Rightarrow> ''claude-bridge'' # common @
          [''--max-turns'', string_of_nat (cfg_claude_max_turns cfg), ''--model'', cfg_claude_model cfg]
      | ModeAcp \<Rightarrow> ''acp-bridge'' # common)"

text \<open>The product of megabytes and bytes wraps at 64 bits, as it does in a release build.\<close>

definition container_spec_of ::
  "container_world \<Rightarrow> container_job_config \<Rightarrow> utc \<Rightarrow> uuid \<Rightarrow> string \<Rightarrow> job_mode \<Rightarrow> host_path option \<Rightarrow> host_path option
    \<Rightarrow> 'j job_creation_params \<Rightarrow> container_spec" where
  "container_spec_of W cfg now job token mode project mcp params = \<lparr>
     spec_name = (case mode of ModeWorker \<Rightarrow> ''ironclaw-worker-'' | ModeClaudeCode \<Rightarrow> ''ironclaw-claude-''
       | ModeAcp \<Rightarrow> ''ironclaw-acp-'') @ show_uuid W job,
     spec_image = cfg_image cfg, spec_cmd = container_cmd W cfg job mode,
     spec_env = container_env W cfg job token mode project params,
     spec_binds = container_binds W project mcp,
     spec_memory = (case mode of ModeClaudeCode \<Rightarrow> cfg_claude_memory_limit_mb cfg | ModeAcp \<Rightarrow> cfg_acp_memory_limit_mb cfg
       | ModeWorker \<Rightarrow> cfg_memory_limit_mb cfg) * 1024 * 1024,
     spec_cpu_shares = uint (cfg_cpu_shares cfg), spec_network_mode = ''bridge'',
     spec_extra_hosts = [''host.docker.internal:host-gateway''], spec_cap_drop = [''ALL''], spec_cap_add = [''CHOWN''],
     spec_security_opt = [''no-new-privileges:true''], spec_tmpfs = [(''/tmp'', ''size=512M'')],
     spec_user = ''1000:1000'', spec_working_dir = ''/workspace'',
     spec_labels = [(''ironclaw.job_id'', show_uuid W job), (''ironclaw.created_at'', show_time W now)]\<rparr>"

section \<open>The servers a container gets\<close>

definition bad_server_name :: "utext \<Rightarrow> bool" where
  "bad_server_name n \<longleftrightarrow> byte_len n > 128 \<or> 47 \<in> set n \<or> 92 \<in> set n \<or> 0 \<in> set n"

definition server_enabled :: "'j json \<Rightarrow> bool" where
  "server_enabled v = (case json_get v ''enabled'' of Some (JBool b) \<Rightarrow> b | _ \<Rightarrow> True)"

definition server_named :: "utext list \<Rightarrow> 'j json \<Rightarrow> bool" where
  "server_named names v =
     (case json_get v ''name'' of
        Some (JString n) \<Rightarrow> list_ex (\<lambda>r. ascii_lower_text r = ascii_lower_text n) names
      | _ \<Rightarrow> False)"

fun type_name_of :: "'j json \<Rightarrow> string" where
  "type_name_of JNull = ''null''"
| "type_name_of (JBool _) = ''bool''"
| "type_name_of (JNum _) = ''number''"
| "type_name_of (JString _) = ''string''"
| "type_name_of (JArray _) = ''array''"
| "type_name_of (JObject _) = ''object''"

text \<open>
  \<open>generate_worker_mcp_config\<close> up to the file it writes: \<open>None\<close> means that nothing is mounted.
  \<open>one\<close> is the number 1.
\<close>

definition worker_mcp_config ::
  "'j \<Rightarrow> 'j json option \<Rightarrow> utext list option \<Rightarrow> uuid \<Rightarrow> (orchestrator_error, 'j json option) result" where
  "worker_mcp_config one master names job =
     (case master of
        None \<Rightarrow> Inr None
      | Some m \<Rightarrow>
          if names = Some [] then Inr None
          else case (case names of Some ns \<Rightarrow> find bad_server_name ns | None \<Rightarrow> None) of
            Some n \<Rightarrow> Inl (ContainerCreationFailed job (BadServerName n))
          | None \<Rightarrow>
              (case json_get m ''servers'' of
                 None \<Rightarrow> Inl (ContainerCreationFailed job NoServersField)
               | Some (JArray ss) \<Rightarrow>
                   (let kept = filter (\<lambda>v. (case names of None \<Rightarrow> True | Some ns \<Rightarrow> server_named ns v) \<and> server_enabled v) ss
                    in if kept = [] then Inr None
                       else Inr (Some (JObject [(utext_of ''servers'', JArray kept),
                         (utext_of ''schema_version'',
                          case json_get m ''schema_version'' of Some v \<Rightarrow> v | None \<Rightarrow> JNum one)])))
               | Some v \<Rightarrow> Inl (ContainerCreationFailed job (ServersNotArray (type_name_of v)))))"

section \<open>The manager\<close>

text \<open>Docker's containers come with what they were created with and whether they run.\<close>

record 'j container_jobs =
  handles :: "uuid \<rightharpoonup> container_handle"
  job_store :: token_store
  docker_connected :: bool
  docker_containers :: "string \<rightharpoonup> container_spec \<times> bool"
  mcp_files :: "uuid \<rightharpoonup> 'j json"

definition container_jobs_new :: "token_store \<Rightarrow> (string \<rightharpoonup> container_spec \<times> bool) \<Rightarrow> 'j container_jobs" where
  "container_jobs_new tokens docker = \<lparr>handles = Map.empty, job_store = tokens, docker_connected = False,
     docker_containers = docker, mcp_files = Map.empty\<rparr>"

text \<open>What Docker and the file system answer to one operation.\<close>

record docker_env =
  connect_fault :: "string option"
  write_fault :: "string option"
  mcp_path :: host_path
  created_id :: "(string, string) result"
  start_fault :: "string option"
  stops :: bool
  removes :: bool

definition docker_connect :: "docker_env \<Rightarrow> 'j container_jobs \<Rightarrow> (orchestrator_error, unit) result \<times> 'j container_jobs" where
  "docker_connect D s =
     (if docker_connected s then (Inr (), s)
      else case connect_fault D of
        Some e \<Rightarrow> (Inl (DockerError e), s)
      | None \<Rightarrow> (Inr (), s\<lparr>docker_connected := True\<rparr>))"

definition docker_stop_and_remove :: "docker_env \<Rightarrow> string \<Rightarrow> 'j container_jobs \<Rightarrow> 'j container_jobs" where
  "docker_stop_and_remove D cid s =
     s\<lparr>docker_containers := (docker_containers s)(cid :=
        if removes D then None
        else if stops D then map_option (\<lambda>(spec, _). (spec, False)) (docker_containers s cid)
        else docker_containers s cid)\<rparr>"

definition set_handle :: "uuid \<Rightarrow> (container_handle \<Rightarrow> container_handle) \<Rightarrow> 'j container_jobs \<Rightarrow> 'j container_jobs" where
  "set_handle job f s = s\<lparr>handles := (handles s)(job := map_option f (handles s job))\<rparr>"

definition write_mcp_config ::
  "docker_env \<Rightarrow> 'j \<Rightarrow> container_job_config \<Rightarrow> 'j job_creation_params \<Rightarrow> uuid \<Rightarrow> 'j container_jobs
    \<Rightarrow> (orchestrator_error, host_path option) result \<times> 'j container_jobs" where
  "write_mcp_config D one cfg params job s =
     (if \<not> cfg_mcp_per_job cfg then (Inr None, s)
      else case worker_mcp_config one (jp_master_mcp params) (jp_mcp_servers params) job of
        Inl e \<Rightarrow> (Inl e, s)
      | Inr None \<Rightarrow> (Inr None, s)
      | Inr (Some v) \<Rightarrow>
          (case write_fault D of
             Some e \<Rightarrow> (Inl (ContainerCreationFailed job (McpNotWritten e)), s)
           | None \<Rightarrow> (Inr (Some (mcp_path D)), s\<lparr>mcp_files := (mcp_files s)(job \<mapsto> v)\<rparr>)))"

text \<open>The last calls: Docker creates the container, then starts it; then the handle learns of it.\<close>

definition launch_container ::
  "docker_env \<Rightarrow> uuid \<Rightarrow> container_spec \<Rightarrow> 'j container_jobs \<Rightarrow> (orchestrator_error, string) result \<times> 'j container_jobs" where
  "launch_container D job spec s =
     (case created_id D of
        Inl e \<Rightarrow> (Inl (ContainerCreationFailed job (NotCreated e)), s)
      | Inr cid \<Rightarrow>
          (case start_fault D of
             Some e \<Rightarrow> (Inl (ContainerCreationFailed job (NotStarted e)),
               s\<lparr>docker_containers := (docker_containers s)(cid \<mapsto> (spec, False))\<rparr>)
           | None \<Rightarrow> (Inr cid, s\<lparr>docker_containers := (docker_containers s)(cid \<mapsto> (spec, True))\<rparr>)))"

definition record_running :: "uuid \<Rightarrow> string \<Rightarrow> 'j container_jobs \<Rightarrow> 'j container_jobs" where
  "record_running job cid = set_handle job (\<lambda>h. h\<lparr>ch_container_id := cid, ch_state := ContainerRunning\<rparr>)"

definition start_container ::
  "docker_env \<Rightarrow> uuid \<Rightarrow> container_spec \<Rightarrow> 'j container_jobs \<Rightarrow> (orchestrator_error, unit) result \<times> 'j container_jobs" where
  "start_container D job spec s =
     (case launch_container D job spec s of
        (Inl e, s1) \<Rightarrow> (Inl e, s1)
      | (Inr cid, s1) \<Rightarrow> (Inr (), record_running job cid s1))"

definition create_job_inner ::
  "container_world \<Rightarrow> container_job_config \<Rightarrow> docker_env \<Rightarrow> 'j \<Rightarrow> utc \<Rightarrow> uuid \<Rightarrow> string \<Rightarrow> host_path option \<Rightarrow> job_mode
    \<Rightarrow> 'j job_creation_params \<Rightarrow> 'j container_jobs \<Rightarrow> (orchestrator_error, unit) result \<times> 'j container_jobs" where
  "create_job_inner W cfg D one now job token dir mode params s =
     (case docker_connect D s of
        (Inl e, s1) \<Rightarrow> (Inl e, s1)
      | (Inr _, s1) \<Rightarrow>
          (case (case dir of
                   None \<Rightarrow> Inr None
                 | Some d \<Rightarrow> (case validate_bind_mount_path W d job of Inl e \<Rightarrow> Inl e | Inr c \<Rightarrow> Inr (Some c))) of
             Inl e \<Rightarrow> (Inl e, s1)
           | Inr project \<Rightarrow>
               (case write_mcp_config D one cfg params job s1 of
                  (Inl e, s2) \<Rightarrow> (Inl e, s2)
                | (Inr mcp, s2) \<Rightarrow>
                    start_container D job (container_spec_of W cfg now job token mode project mcp params) s2)))"

text \<open>\<open>create_job\<close>: before Docker is asked, and from there on.\<close>

definition create_begin ::
  "container_job_config \<Rightarrow> 8 word list \<Rightarrow> utc \<Rightarrow> uuid \<Rightarrow> string \<Rightarrow> host_path option \<Rightarrow> job_mode \<Rightarrow> 'j job_creation_params
    \<Rightarrow> 'j container_jobs \<Rightarrow> (orchestrator_error, string) result \<times> 'j container_jobs" where
  "create_begin cfg bytes now job task dir mode params s =
     (if \<not> is_mode_enabled cfg mode then (Inl (ModeDisabled (job_mode_as_str mode)), s)
      else case create_token bytes job (job_store s) of
        (token, st) \<Rightarrow>
          (Inr token, s\<lparr>job_store := store_grants job (jp_grants params) st,
             handles := (handles s)(job \<mapsto> \<lparr>ch_job = job, ch_container_id = '''', ch_state = Creating, ch_mode = mode,
               ch_created_at = now, ch_project_dir = dir, ch_task = task, ch_last_status = None, ch_iteration = 0,
               ch_result = None\<rparr>)\<rparr>))"

definition create_finish ::
  "container_world \<Rightarrow> container_job_config \<Rightarrow> docker_env \<Rightarrow> 'j \<Rightarrow> utc \<Rightarrow> uuid \<Rightarrow> string \<Rightarrow> host_path option \<Rightarrow> job_mode
    \<Rightarrow> 'j job_creation_params \<Rightarrow> 'j container_jobs \<Rightarrow> (orchestrator_error, string) result \<times> 'j container_jobs" where
  "create_finish W cfg D one now job token dir mode params s =
     (case create_job_inner W cfg D one now job token dir mode params s of
        (Inr _, s1) \<Rightarrow> (Inr token, s1)
      | (Inl e, s1) \<Rightarrow> (Inl e, s1\<lparr>job_store := revoke_token job (job_store s1), handles := (handles s1)(job := None)\<rparr>))"

definition create_container_job ::
  "container_world \<Rightarrow> container_job_config \<Rightarrow> docker_env \<Rightarrow> 'j \<Rightarrow> 8 word list \<Rightarrow> utc \<Rightarrow> utc \<Rightarrow> uuid \<Rightarrow> string \<Rightarrow> host_path option
    \<Rightarrow> job_mode \<Rightarrow> 'j job_creation_params \<Rightarrow> 'j container_jobs \<Rightarrow> (orchestrator_error, string) result \<times> 'j container_jobs" where
  "create_container_job W cfg D one bytes now now' job task dir mode params s =
     (case create_begin cfg bytes now job task dir mode params s of
        (Inl e, s1) \<Rightarrow> (Inl e, s1)
      | (Inr token, s1) \<Rightarrow> create_finish W cfg D one now' job token dir mode params s1)"

definition stop_container_job ::
  "docker_env \<Rightarrow> uuid \<Rightarrow> 'j container_jobs \<Rightarrow> (orchestrator_error, unit) result \<times> 'j container_jobs" where
  "stop_container_job D job s =
     (case handles s job of
        None \<Rightarrow> (Inl (ContainerNotFound job), s)
      | Some h \<Rightarrow>
          if ch_container_id h = '''' then (Inl (InvalidContainerState job ''creating (no container ID yet)''), s)
          else case docker_connect D s of
            (Inl e, s1) \<Rightarrow> (Inl e, s1)
          | (Inr _, s1) \<Rightarrow>
              (let s2 = set_handle job (\<lambda>h. h\<lparr>ch_state := ContainerStopped\<rparr>) (docker_stop_and_remove D (ch_container_id h) s1)
               in (Inr (), s2\<lparr>job_store := revoke_token job (job_store s2)\<rparr>)))"

definition complete_container_job ::
  "docker_env \<Rightarrow> uuid \<Rightarrow> completion_result \<Rightarrow> 'j container_jobs \<Rightarrow> (orchestrator_error, unit) result \<times> 'j container_jobs" where
  "complete_container_job D job r s =
     (let s1 = set_handle job (\<lambda>h. h\<lparr>ch_result := Some r, ch_state := ContainerStopped\<rparr>) s;
          s2 = (case handles s1 job of
              Some h \<Rightarrow>
                if ch_container_id h \<noteq> ''''
                then (case docker_connect D s1 of
                        (Inr _, s2) \<Rightarrow> docker_stop_and_remove D (ch_container_id h) s2
                      | (Inl _, s2) \<Rightarrow> s2)
                else s1
            | None \<Rightarrow> s1)
      in (Inr (), s2\<lparr>job_store := revoke_token job (job_store s2)\<rparr>))"

definition cleanup_container_job :: "bool \<Rightarrow> uuid \<Rightarrow> 'j container_jobs \<Rightarrow> 'j container_jobs" where
  "cleanup_container_job file_removed job s =
     s\<lparr>mcp_files := (if file_removed then (mcp_files s)(job := None) else mcp_files s),
       handles := (handles s)(job := None)\<rparr>"

definition update_worker_status :: "uuid \<Rightarrow> string option \<Rightarrow> 32 word \<Rightarrow> 'j container_jobs \<Rightarrow> 'j container_jobs" where
  "update_worker_status job message iteration =
     set_handle job (\<lambda>h. h\<lparr>ch_last_status := message, ch_iteration := iteration\<rparr>)"

definition get_handle :: "uuid \<Rightarrow> 'j container_jobs \<Rightarrow> container_handle option" where
  "get_handle job s = handles s job"

definition list_container_jobs :: "uuid list \<Rightarrow> 'j container_jobs \<Rightarrow> container_handle list" where
  "list_container_jobs ks s = map_values ks (handles s)"

section \<open>The reaper\<close>

text \<open>A container as Docker lists it: its identifier, the job of its label and its age.\<close>

definition container_entry ::
  "(string \<Rightarrow> uuid option) \<Rightarrow> (string \<Rightarrow> utc option) \<Rightarrow> string \<Rightarrow> string option \<times> (string \<rightharpoonup> string) \<times> utc option
    \<Rightarrow> (string \<times> uuid \<times> utc) option" where
  "container_entry parse_uuid parse_time label c =
     (case c of (i, labels, created) \<Rightarrow>
        case (i, Option.bind (labels label) parse_uuid,
              case Option.bind (labels ''ironclaw.created_at'') parse_time of Some t \<Rightarrow> Some t | None \<Rightarrow> created) of
          (Some cid, Some job, Some t) \<Rightarrow> Some (cid, job, t)
        | _ \<Rightarrow> None)"

definition list_ironclaw_containers ::
  "(string \<Rightarrow> uuid option) \<Rightarrow> (string \<Rightarrow> utc option) \<Rightarrow> string \<Rightarrow> (string option \<times> (string \<rightharpoonup> string) \<times> utc option) list
    \<Rightarrow> (string \<times> uuid \<times> utc) list" where
  "list_ironclaw_containers parse_uuid parse_time label cs =
     List.map_filter (container_entry parse_uuid parse_time label) cs"

definition reap_container :: "docker_env \<Rightarrow> string \<Rightarrow> uuid \<Rightarrow> 'j container_jobs \<Rightarrow> 'j container_jobs" where
  "reap_container D cid job s =
     (case stop_container_job D job s of
        (Inr _, s1) \<Rightarrow> s1
      | (Inl _, s1) \<Rightarrow> docker_stop_and_remove D cid s1)"

text \<open>\<open>states\<close> gives the state of a job in the context manager, if it knows the job.\<close>

definition reapable :: "utc \<Rightarrow> duration \<Rightarrow> (uuid \<Rightarrow> job_state option) \<Rightarrow> string \<times> uuid \<times> utc \<Rightarrow> bool" where
  "reapable now threshold states = (\<lambda>(cid, job, created).
     \<not> now - created < int threshold \<and> (case states job of Some st \<Rightarrow> \<not> job_active st | None \<Rightarrow> True))"

definition scan_and_reap ::
  "utc \<Rightarrow> duration \<Rightarrow> (uuid \<Rightarrow> job_state option) \<Rightarrow> (string \<Rightarrow> docker_env) \<Rightarrow> (string \<times> uuid \<times> utc) list
    \<Rightarrow> 'j container_jobs \<Rightarrow> 'j container_jobs" where
  "scan_and_reap now threshold states env cs s =
     foldl (\<lambda>s c. if reapable now threshold states c then reap_container (env (fst c)) (fst c) (fst (snd c)) s else s) s cs"

section \<open>What the operations leave alone\<close>

lemma set_handle_simps [simp]:
  "job_store (set_handle job f s) = job_store s" "docker_containers (set_handle job f s) = docker_containers s"
  "docker_connected (set_handle job f s) = docker_connected s" "mcp_files (set_handle job f s) = mcp_files s"
  "handles (set_handle job f s) = (handles s)(job := map_option f (handles s job))"
  by (simp_all add: set_handle_def)

lemma docker_connect_simps [simp]:
  "job_store (snd (docker_connect D s)) = job_store s" "docker_containers (snd (docker_connect D s)) = docker_containers s"
  "handles (snd (docker_connect D s)) = handles s" "mcp_files (snd (docker_connect D s)) = mcp_files s"
  by (simp_all add: docker_connect_def split: option.split)

lemma docker_stop_simps [simp]:
  "job_store (docker_stop_and_remove D cid s) = job_store s" "handles (docker_stop_and_remove D cid s) = handles s"
  "mcp_files (docker_stop_and_remove D cid s) = mcp_files s"
  by (simp_all add: docker_stop_and_remove_def)

lemma revoke_token_simps [simp]:
  "job_tokens (revoke_token job st) = (job_tokens st)(job := None)"
  "job_grants (revoke_token job st) = (job_grants st)(job := None)"
  by (simp_all add: revoke_token_def)

lemma store_grants_tokens [simp]: "job_tokens (store_grants job gs st) = job_tokens st"
  by (simp add: store_grants_def)

lemma write_mcp_simps [simp]:
  "handles (snd (write_mcp_config D one cfg params job s)) = handles s"
  "job_store (snd (write_mcp_config D one cfg params job s)) = job_store s"
  "docker_containers (snd (write_mcp_config D one cfg params job s)) = docker_containers s"
  by (simp_all add: write_mcp_config_def split: sum.split option.split)

text \<open>The four ways creating a container can end.\<close>

lemma create_job_inner_cases:
  obtains
    (failed) e s1 where "create_job_inner W cfg D one now job token dir mode params s = (Inl e, s1)"
      and "handles s1 = handles s" and "job_store s1 = job_store s" and "docker_containers s1 = docker_containers s"
  | (called) s1 project mcp where "create_job_inner W cfg D one now job token dir mode params s =
        start_container D job (container_spec_of W cfg now job token mode project mcp params) s1"
      and "handles s1 = handles s" and "job_store s1 = job_store s" and "docker_containers s1 = docker_containers s"
      and "case dir of None \<Rightarrow> project = None
        | Some d \<Rightarrow> (\<exists>c. project = Some c \<and> validate_bind_mount_path W d job = Inr c)"
      and "case mcp of None \<Rightarrow> True | Some p \<Rightarrow> cfg_mcp_per_job cfg \<and> p = mcp_path D"
proof -
  obtain r s1 where connect: "docker_connect D s = (r, s1)" by fastforce
  then have s1: "handles s1 = handles s" "job_store s1 = job_store s" "docker_containers s1 = docker_containers s"
    using docker_connect_simps [of D s] by simp_all
  let ?dir = "case dir of None \<Rightarrow> Inr None
    | Some d \<Rightarrow> (case validate_bind_mount_path W d job of Inl e \<Rightarrow> Inl e | Inr c \<Rightarrow> Inr (Some c))"
  obtain m s2 where writes: "write_mcp_config D one cfg params job s1 = (m, s2)" by fastforce
  then have s2: "handles s2 = handles s" "job_store s2 = job_store s" "docker_containers s2 = docker_containers s"
    using write_mcp_simps [of D one cfg params job s1] s1 by simp_all
  consider (no_docker) e where "r = Inl e"
    | (bad_dir) e where "is_ok r" "?dir = Inl e"
    | (bad_mcp) e where "is_ok r" "is_ok ?dir" "m = Inl e"
    | (fine) project mcp where "is_ok r" "?dir = Inr project" "m = Inr mcp"
    by (cases r; cases ?dir; cases m) auto
  then show thesis
  proof cases
    case no_docker
    then show ?thesis using connect s1 by (intro failed [of e s1]) (simp_all add: create_job_inner_def)
  next
    case bad_dir
    then show ?thesis using connect s1 by (intro failed [of e s1]) (auto simp: create_job_inner_def is_ok_iff)
  next
    case bad_mcp
    then show ?thesis using connect writes s2 by (intro failed [of e s2]) (auto simp: create_job_inner_def is_ok_iff)
  next
    case fine
    have "case dir of None \<Rightarrow> project = None | Some d \<Rightarrow> (\<exists>c. project = Some c \<and> validate_bind_mount_path W d job = Inr c)"
      using fine(2) by (auto split: option.splits sum.splits)
    moreover have "case mcp of None \<Rightarrow> True | Some p \<Rightarrow> cfg_mcp_per_job cfg \<and> p = mcp_path D"
      using writes fine(3) by (auto simp: write_mcp_config_def split: if_splits option.splits sum.splits)
    ultimately show ?thesis
      using connect writes s2 fine by (intro called [where ?s1.0 = s2 and project = project and mcp = mcp]) (auto simp: create_job_inner_def is_ok_iff)
  qed
qed

lemma record_running_simps [simp]:
  "job_store (record_running job cid s) = job_store s"
  "docker_containers (record_running job cid s) = docker_containers s"
  "handles (record_running job cid s) = (handles s)(job := map_option
     (\<lambda>h. h\<lparr>ch_container_id := cid, ch_state := ContainerRunning\<rparr>) (handles s job))"
  by (simp_all add: record_running_def)

lemma launch_simps [simp]:
  "job_store (snd (launch_container D job spec s)) = job_store s"
  "handles (snd (launch_container D job spec s)) = handles s"
  by (simp_all add: launch_container_def split: sum.split option.split)

lemma start_container_simps [simp]:
  "job_store (snd (start_container D job spec s)) = job_store s"
  "k \<noteq> job \<Longrightarrow> handles (snd (start_container D job spec s)) k = handles s k"
  by (simp_all add: start_container_def launch_container_def split: sum.split option.split)

lemma start_container_result:
  "start_container D job spec s =
    (case (created_id D, start_fault D) of
       (Inl e, _) \<Rightarrow> (Inl (ContainerCreationFailed job (NotCreated e)), s)
     | (Inr cid, Some e) \<Rightarrow> (Inl (ContainerCreationFailed job (NotStarted e)),
         s\<lparr>docker_containers := (docker_containers s)(cid \<mapsto> (spec, False))\<rparr>)
     | (Inr cid, None) \<Rightarrow> (Inr (), record_running job cid
         (s\<lparr>docker_containers := (docker_containers s)(cid \<mapsto> (spec, True))\<rparr>)))"
  by (simp add: start_container_def launch_container_def split: sum.split option.split)

lemma create_inner_store [simp]:
  "job_store (snd (create_job_inner W cfg D one now job token dir mode params s)) = job_store s"
  by (cases rule: create_job_inner_cases [of W cfg D one now job token dir mode params s]) simp_all

lemma create_inner_other [simp]:
  "k \<noteq> job \<Longrightarrow> handles (snd (create_job_inner W cfg D one now job token dir mode params s)) k = handles s k"
  by (cases rule: create_job_inner_cases [of W cfg D one now job token dir mode params s]) simp_all

text \<open>The first half registers the token, the grants and the handle.\<close>

lemma create_begin_ok:
  assumes "is_mode_enabled cfg mode"
  shows "create_begin cfg bytes now job task dir mode params s =
    (Inr (generate_token bytes), snd (create_begin cfg bytes now job task dir mode params s))"
    "job_tokens (job_store (snd (create_begin cfg bytes now job task dir mode params s))) =
      (job_tokens (job_store s))(job \<mapsto> generate_token bytes)"
    "docker_containers (snd (create_begin cfg bytes now job task dir mode params s)) = docker_containers s"
    "handles (snd (create_begin cfg bytes now job task dir mode params s)) = (handles s)(job \<mapsto>
      \<lparr>ch_job = job, ch_container_id = '''', ch_state = Creating, ch_mode = mode, ch_created_at = now,
       ch_project_dir = dir, ch_task = task, ch_last_status = None, ch_iteration = 0, ch_result = None\<rparr>)"
    "k \<noteq> job \<Longrightarrow> job_grants (job_store (snd (create_begin cfg bytes now job task dir mode params s))) k =
      job_grants (job_store s) k"
  using assms by (simp_all add: create_begin_def create_token_def Let_def store_grants_def)

lemma create_disabled:
  "\<not> is_mode_enabled cfg mode \<Longrightarrow> create_container_job W cfg D one bytes now now' job task dir mode params s =
    (Inl (ModeDisabled (job_mode_as_str mode)), s)"
  by (simp add: create_container_job_def create_begin_def)

lemma create_enabled:
  "is_mode_enabled cfg mode \<Longrightarrow> create_container_job W cfg D one bytes now now' job task dir mode params s =
    create_finish W cfg D one now' job (generate_token bytes) dir mode params
      (snd (create_begin cfg bytes now job task dir mode params s))"
  by (subst create_container_job_def, subst create_begin_ok(1)) simp_all

section \<open>Failed creations\<close>

lemma create_finish_failed:
  assumes "create_finish W cfg D one now job token dir mode params s = (Inl e, s')"
  shows "job_store s' = revoke_token job (job_store s)" and "handles s' = (handles s)(job := None)"
proof -
  obtain s1 where inner: "create_job_inner W cfg D one now job token dir mode params s = (Inl e, s1)"
      and s': "s' = s1\<lparr>job_store := revoke_token job (job_store s1), handles := (handles s1)(job := None)\<rparr>"
    using assms by (auto simp: create_finish_def split: prod.splits sum.splits)
  have "job_store s1 = job_store s" using create_inner_store inner by (metis snd_conv)
  with s' show "job_store s' = revoke_token job (job_store s)" by simp
  show "handles s' = (handles s)(job := None)"
  proof
    fix k
    show "handles s' k = ((handles s)(job := None)) k"
      using create_inner_other [of k job W cfg D one now token dir mode params s] inner s' by auto
  qed
qed

text \<open>What creating does to Docker, whether it succeeds or not.\<close>

lemma create_finish_docker:
  obtains (none) "docker_containers (snd (create_finish W cfg D one now job token dir mode params s)) = docker_containers s"
      and "\<not> (is_ok (created_id D) \<and> is_ok (fst (create_finish W cfg D one now job token dir mode params s)))"
  | (one) cid project mcp where "created_id D = Inr cid"
      and "docker_containers (snd (create_finish W cfg D one now job token dir mode params s)) = (docker_containers s)
        (cid \<mapsto> (container_spec_of W cfg now job token mode project mcp params, start_fault D = None))"
      and "case dir of None \<Rightarrow> project = None
        | Some d \<Rightarrow> (\<exists>c. project = Some c \<and> validate_bind_mount_path W d job = Inr c)"
      and "case mcp of None \<Rightarrow> True | Some p \<Rightarrow> cfg_mcp_per_job cfg \<and> p = mcp_path D"
      and "is_ok (fst (create_finish W cfg D one now job token dir mode params s)) = (start_fault D = None)"
proof (cases rule: create_job_inner_cases [of W cfg D one now job token dir mode params s])
  case failed
  then show ?thesis by (intro none) (simp_all add: create_finish_def)
next
  case (called s1 project mcp)
  consider (no) e where "created_id D = Inl e" | (faulty) cid e where "created_id D = Inr cid" "start_fault D = Some e"
    | (fine) cid where "created_id D = Inr cid" "start_fault D = None"
    by (cases "created_id D"; cases "start_fault D") auto
  then show ?thesis
  proof cases
    case no
    with called show ?thesis by (intro none) (simp_all add: create_finish_def start_container_result)
  next
    case (faulty cid e)
    with called show ?thesis
      by (intro one [of cid project mcp]) (simp_all add: create_finish_def start_container_result)
  next
    case (fine cid)
    with called show ?thesis
      by (intro one [of cid project mcp]) (simp_all add: create_finish_def start_container_result)
  qed
qed

lemma create_finish_ok:
  assumes "create_finish W cfg D one now job token dir mode params s = (Inr t, s')"
  obtains cid s1 project mcp where "t = token" and "created_id D = Inr cid" and "start_fault D = None"
    and "s' = record_running job cid s1" and "handles s1 = handles s" and "job_store s1 = job_store s"
    and "docker_containers s1 =
      (docker_containers s)(cid \<mapsto> (container_spec_of W cfg now job token mode project mcp params, True))"
    and "case dir of None \<Rightarrow> project = None
      | Some d \<Rightarrow> (\<exists>c. project = Some c \<and> validate_bind_mount_path W d job = Inr c)"
    and "case mcp of None \<Rightarrow> True | Some p \<Rightarrow> cfg_mcp_per_job cfg \<and> p = mcp_path D"
proof -
  have inner: "create_job_inner W cfg D one now job token dir mode params s = (Inr (), s')" and t: "t = token"
    using assms by (auto simp: create_finish_def split: prod.splits sum.splits)
  show thesis
  proof (cases rule: create_job_inner_cases [of W cfg D one now job token dir mode params s])
    case failed
    then show ?thesis using inner by simp
  next
    case (called s2 project mcp)
    then obtain cid where cid: "created_id D = Inr cid" "start_fault D = None" "s' = record_running job cid
        (s2\<lparr>docker_containers := (docker_containers s2)(cid \<mapsto> (container_spec_of W cfg now job token mode project mcp params, True))\<rparr>)"
      using inner by (auto simp: start_container_result split: sum.splits option.splits)
    show ?thesis using cid called t by (intro that [OF t cid]) simp_all
  qed
qed

section \<open>Any order of operations\<close>

inductive jobs_step ::
  "container_world \<Rightarrow> container_job_config \<Rightarrow> 'j \<Rightarrow> 'j container_jobs \<Rightarrow> 'j container_jobs \<Rightarrow> bool"
  for W cfg one where
  job_created: "jobs_step W cfg one s
    (snd (create_container_job W cfg D one bytes now now' job task dir mode params s))"
| job_stopped: "jobs_step W cfg one s (snd (stop_container_job D job s))"
| job_completed: "jobs_step W cfg one s (snd (complete_container_job D job r s))"
| job_cleaned: "jobs_step W cfg one s (cleanup_container_job b job s)"
| job_reported: "jobs_step W cfg one s (update_worker_status job message n s)"
| jobs_reaped: "jobs_step W cfg one s (scan_and_reap now threshold states env cs s)"

text \<open>A handle says running exactly while the job has a token, and stopped jobs have lost their grants.\<close>

definition tokens_follow_handles :: "'j container_jobs \<Rightarrow> bool" where
  "tokens_follow_handles s \<longleftrightarrow> (\<forall>job h. handles s job = Some h \<longrightarrow>
     (ch_state h = ContainerRunning \<and> job_tokens (job_store s) job \<noteq> None \<or>
      ch_state h = ContainerStopped \<and> job_tokens (job_store s) job = None \<and> job_grants (job_store s) job = None))"

lemma tokens_follow_handlesI:
  assumes "tokens_follow_handles s"
    and "\<And>k. k \<noteq> job \<Longrightarrow> handles s' k = handles s k \<and> job_tokens (job_store s') k = job_tokens (job_store s) k \<and>
      job_grants (job_store s') k = job_grants (job_store s) k"
    and "\<And>h. handles s' job = Some h \<Longrightarrow>
      ch_state h = ContainerRunning \<and> job_tokens (job_store s') job \<noteq> None \<or>
      ch_state h = ContainerStopped \<and> job_tokens (job_store s') job = None \<and> job_grants (job_store s') job = None"
  shows "tokens_follow_handles s'"
  unfolding tokens_follow_handles_def
proof (intro allI impI)
  fix k h
  assume "handles s' k = Some h"
  then show "ch_state h = ContainerRunning \<and> job_tokens (job_store s') k \<noteq> None \<or>
      ch_state h = ContainerStopped \<and> job_tokens (job_store s') k = None \<and> job_grants (job_store s') k = None"
    using assms(2) [of k] assms(3) [of h] assms(1)
    by (cases "k = job") (auto simp: tokens_follow_handles_def)
qed

lemma tokens_follow_handlesD:
  "tokens_follow_handles s \<Longrightarrow> handles s job = Some h \<Longrightarrow>
    ch_state h = ContainerRunning \<and> job_tokens (job_store s) job \<noteq> None \<or>
    ch_state h = ContainerStopped \<and> job_tokens (job_store s) job = None \<and> job_grants (job_store s) job = None"
  by (simp add: tokens_follow_handles_def)

lemma stop_container_job_cases:
  obtains (failed) e where "fst (stop_container_job D job s) = Inl e"
      and "handles (snd (stop_container_job D job s)) = handles s"
      and "job_store (snd (stop_container_job D job s)) = job_store s"
      and "docker_containers (snd (stop_container_job D job s)) = docker_containers s"
  | (stopped) h where "handles s job = Some h" and "ch_container_id h \<noteq> ''''"
      and "fst (stop_container_job D job s) = Inr ()"
      and "handles (snd (stop_container_job D job s)) = (handles s)(job \<mapsto> h\<lparr>ch_state := ContainerStopped\<rparr>)"
      and "job_store (snd (stop_container_job D job s)) = revoke_token job (job_store s)"
proof -
  obtain r s1 where c: "docker_connect D s = (r, s1)" by fastforce
  then have s1: "handles s1 = handles s" "job_store s1 = job_store s" "docker_containers s1 = docker_containers s"
    using docker_connect_simps [of D s] by simp_all
  consider (unknown) "handles s job = None" | (creating) h where "handles s job = Some h" "ch_container_id h = ''''"
    | (no_docker) h e where "handles s job = Some h" "ch_container_id h \<noteq> ''''" "r = Inl e"
    | (fine) h where "handles s job = Some h" "ch_container_id h \<noteq> ''''" "r = Inr ()"
    by (cases "handles s job"; cases r) auto
  then show thesis
  proof cases
    case fine
    then show ?thesis using c s1 by (intro stopped [of h]) (simp_all add: stop_container_job_def Let_def)
  qed (use c s1 in \<open>auto intro!: failed simp: stop_container_job_def\<close>)
qed

lemma create_begin_other:
  assumes "k \<noteq> job"
  shows "handles (snd (create_begin cfg bytes now job task dir mode params s)) k = handles s k"
    and "job_tokens (job_store (snd (create_begin cfg bytes now job task dir mode params s))) k = job_tokens (job_store s) k"
    and "job_grants (job_store (snd (create_begin cfg bytes now job task dir mode params s))) k = job_grants (job_store s) k"
  using assms by (simp_all add: create_begin_def create_token_def Let_def store_grants_def)

lemma create_keeps_tokens_follow:
  assumes "tokens_follow_handles s"
  shows "tokens_follow_handles (snd (create_container_job W cfg D one bytes now now' job task dir mode params s))"
proof (cases "is_mode_enabled cfg mode")
  case False
  then show ?thesis using assms by (simp add: create_disabled)
next
  case True
  let ?b = "snd (create_begin cfg bytes now job task dir mode params s)"
  obtain r s' where fin: "create_finish W cfg D one now' job (generate_token bytes) dir mode params ?b = (r, s')"
    by fastforce
  have "tokens_follow_handles s'"
  proof (cases r)
    case (Inl e)
    note f = create_finish_failed [OF fin [unfolded Inl]]
    show ?thesis
      by (rule tokens_follow_handlesI [OF assms, where job = job]) (simp_all add: f create_begin_other)
  next
    case (Inr t)
    from create_finish_ok [OF fin [unfolded Inr]] obtain cid s1
      where "s' = record_running job cid s1" "handles s1 = handles ?b" "job_store s1 = job_store ?b" by blast
    then show ?thesis
      by (intro tokens_follow_handlesI [OF assms, where job = job])
        (simp_all add: create_begin_other create_begin_ok(2,4) [OF True], hypsubst, simp)
  qed
  then show ?thesis by (simp add: create_enabled [OF True] fin)
qed

lemma stop_keeps_tokens_follow:
  assumes "tokens_follow_handles s"
  shows "tokens_follow_handles (snd (stop_container_job D job s))"
proof (cases rule: stop_container_job_cases [of D job s])
  case failed
  then show ?thesis using assms by (simp add: tokens_follow_handles_def)
next
  case stopped
  then show ?thesis by (intro tokens_follow_handlesI [OF assms, where job = job]) auto
qed

lemma complete_container_job_simps [simp]:
  "handles (snd (complete_container_job D job r s)) =
    (handles s)(job := map_option (\<lambda>h. h\<lparr>ch_result := Some r, ch_state := ContainerStopped\<rparr>) (handles s job))"
  "job_store (snd (complete_container_job D job r s)) = revoke_token job (job_store s)"
proof -
  obtain x s2 where c: "docker_connect D (set_handle job (\<lambda>h. h\<lparr>ch_result := Some r, ch_state := ContainerStopped\<rparr>) s) = (x, s2)"
    by fastforce
  show "handles (snd (complete_container_job D job r s)) =
    (handles s)(job := map_option (\<lambda>h. h\<lparr>ch_result := Some r, ch_state := ContainerStopped\<rparr>) (handles s job))"
    "job_store (snd (complete_container_job D job r s)) = revoke_token job (job_store s)"
    using docker_connect_simps [of D "set_handle job (\<lambda>h. h\<lparr>ch_result := Some r, ch_state := ContainerStopped\<rparr>) s"]
    by (simp_all add: complete_container_job_def Let_def c split: option.split sum.split)
qed

lemma complete_keeps_tokens_follow:
  "tokens_follow_handles s \<Longrightarrow> tokens_follow_handles (snd (complete_container_job D job r s))"
  by (rule tokens_follow_handlesI [where job = job]) auto

lemma cleanup_simps [simp]:
  "handles (cleanup_container_job b job s) = (handles s)(job := None)"
  "job_store (cleanup_container_job b job s) = job_store s"
  "docker_containers (cleanup_container_job b job s) = docker_containers s"
  by (simp_all add: cleanup_container_job_def)

lemma cleanup_keeps_tokens_follow:
  "tokens_follow_handles s \<Longrightarrow> tokens_follow_handles (cleanup_container_job b job s)"
  by (rule tokens_follow_handlesI [where job = job]) simp_all

lemma report_keeps_tokens_follow:
  assumes "tokens_follow_handles s"
  shows "tokens_follow_handles (update_worker_status job message n s)"
proof (rule tokens_follow_handlesI [OF assms, where job = job])
  fix h
  assume "handles (update_worker_status job message n s) job = Some h"
  then obtain h0 where "handles s job = Some h0" "ch_state h = ch_state h0"
    by (auto simp: update_worker_status_def)
  then show "ch_state h = ContainerRunning \<and> job_tokens (job_store (update_worker_status job message n s)) job \<noteq> None \<or>
      ch_state h = ContainerStopped \<and> job_tokens (job_store (update_worker_status job message n s)) job = None \<and>
      job_grants (job_store (update_worker_status job message n s)) job = None"
    using tokens_follow_handlesD [OF assms, of job h0] by (simp add: update_worker_status_def)
qed (simp add: update_worker_status_def)

lemma reap_container_store [simp]:
  "handles (reap_container D cid job s) = handles (snd (stop_container_job D job s))"
  "job_store (reap_container D cid job s) = job_store (snd (stop_container_job D job s))"
  by (simp_all add: reap_container_def split: prod.split sum.split)

lemma scan_invariant:
  assumes "\<And>cid job s. P s \<Longrightarrow> P (reap_container (env cid) cid job s)" and "P s"
  shows "P (scan_and_reap now threshold states env cs s)"
  using assms(2) unfolding scan_and_reap_def by (induction cs arbitrary: s) (simp_all add: assms(1))

lemma reap_keeps_tokens_follow:
  "tokens_follow_handles s \<Longrightarrow> tokens_follow_handles (scan_and_reap now threshold states env cs s)"
proof (rule scan_invariant)
  fix cid job and s :: "'a container_jobs"
  assume "tokens_follow_handles s"
  then show "tokens_follow_handles (reap_container (env cid) cid job s)"
    using stop_keeps_tokens_follow [of s "env cid" job] by (simp add: tokens_follow_handles_def)
qed

lemma step_keeps_tokens_follow:
  "jobs_step W cfg one s s' \<Longrightarrow> tokens_follow_handles s \<Longrightarrow> tokens_follow_handles s'"
  by (induction rule: jobs_step.induct)
    (simp_all add: create_keeps_tokens_follow stop_keeps_tokens_follow complete_keeps_tokens_follow
      cleanup_keeps_tokens_follow report_keeps_tokens_follow reap_keeps_tokens_follow)

lemma steps_keep_tokens_follow:
  "(jobs_step W cfg one)\<^sup>*\<^sup>* s s' \<Longrightarrow> tokens_follow_handles s \<Longrightarrow> tokens_follow_handles s'"
  by (induction rule: rtranclp_induct) (auto intro: step_keeps_tokens_follow)

lemma new_tokens_follow: "tokens_follow_handles (container_jobs_new tokens docker)"
  by (simp add: tokens_follow_handles_def container_jobs_new_def)

lemma validate_bind_mount_path_ok:
  "validate_bind_mount_path W d job = Inr p \<longleftrightarrow> canonical_path W d = Inr p \<and> base_absolute W \<and> base_fault W = None \<and>
    (\<exists>base. canonical_path W (base_dir W @ [''projects'']) = Inr base \<and> prefix base p)"
  by (auto simp: validate_bind_mount_path_def split: sum.split option.split)

lemma host_keys_only_for_claude:
  assumes "mode \<noteq> ModeClaudeCode"
  shows "list_all (\<lambda>e. \<not> starts_with e ''ANTHROPIC_API_KEY='' \<and> \<not> starts_with e ''CLAUDE_CODE_OAUTH_TOKEN='')
    (container_env W cfg job token mode project params)"
  using assms
  by (simp add: container_env_def extend_acp_env_def starts_with_def split: option.split)

section \<open>Properties\<close>

text \<open>
  C4. Whatever a container was created with is this: it was asked for by a job whose mode is
  enabled; its writable mount, if any, is the canonical directory of the project, which lies under
  the canonical directory of all projects; the only other mount is the file of the job's MCP
  servers, read only; all capabilities are dropped but one; and the environment has the job's own
  token, and the API key or OAuth token of the host only in the Claude Code mode.
\<close>

theorem container_confined:
  assumes "docker_containers (snd (create_container_job W cfg D one bytes now now' job task dir mode params s)) cid = Some (spec, up)"
    and "docker_containers s cid \<noteq> Some (spec, up)"
  shows "created_id D = Inr cid \<and> up = (start_fault D = None) \<and> is_mode_enabled cfg mode \<and>
    (\<exists>project mcp.
      spec_binds spec =
        (case project of Some p \<Rightarrow> [show_path W p @ '':/workspace:rw''] | None \<Rightarrow> []) @
        (case mcp of Some p \<Rightarrow> [show_path W p @ '':/home/sandbox/.ironclaw/mcp-servers.json:ro''] | None \<Rightarrow> []) \<and>
      (case dir of None \<Rightarrow> project = None
       | Some d \<Rightarrow> \<exists>p base. project = Some p \<and> canonical_path W d = Inr p \<and>
           canonical_path W (base_dir W @ [''projects'']) = Inr base \<and> prefix base p) \<and>
      mcp \<in> (if cfg_mcp_per_job cfg then {None, Some (mcp_path D)} else {None})) \<and>
    spec_cap_drop spec = [''ALL''] \<and> spec_cap_add spec = [''CHOWN''] \<and>
    spec_security_opt spec = [''no-new-privileges:true''] \<and> spec_user spec = ''1000:1000'' \<and>
    hd (spec_env spec) = ''IRONCLAW_WORKER_TOKEN='' @ generate_token bytes \<and>
    list_all (\<lambda>e. if starts_with e ''ANTHROPIC_API_KEY='' \<or> starts_with e ''CLAUDE_CODE_OAUTH_TOKEN=''
      then mode = ModeClaudeCode else True) (spec_env spec)"
proof -
  have enabled: "is_mode_enabled cfg mode" using assms by (cases "is_mode_enabled cfg mode") (simp_all add: create_disabled)
  let ?b = "snd (create_begin cfg bytes now job task dir mode params s)" and ?t = "generate_token bytes"
  have now: "docker_containers (snd (create_finish W cfg D one now' job ?t dir mode params ?b)) cid = Some (spec, up)"
    using assms(1) by (simp add: create_enabled [OF enabled])
  show ?thesis
  proof (cases rule: create_finish_docker [of W cfg D one now' job ?t dir mode params ?b])
    case none
    then show ?thesis using assms(2) now by (simp add: create_begin_ok(3) [OF enabled])
  next
    case (one c project mcp)
    have cid: "c = cid" "spec = container_spec_of W cfg now' job ?t mode project mcp params" "up = (start_fault D = None)"
      using assms(2) now one(2) by (auto simp: create_begin_ok(3) [OF enabled] split: if_splits)
    have keys: "list_all (\<lambda>e. if starts_with e ''ANTHROPIC_API_KEY='' \<or> starts_with e ''CLAUDE_CODE_OAUTH_TOKEN=''
        then mode = ModeClaudeCode else True) (container_env W cfg job ?t mode project params)"
      using host_keys_only_for_claude [of mode W cfg job ?t project params]
      by (cases "mode = ModeClaudeCode") (auto simp: list_all_iff)
    have mcp: "mcp \<in> (if cfg_mcp_per_job cfg then {None, Some (mcp_path D)} else {None})"
      using one(4) by (cases mcp) auto
    have project: "case dir of None \<Rightarrow> project = None
       | Some d \<Rightarrow> \<exists>p base. project = Some p \<and> canonical_path W d = Inr p \<and>
           canonical_path W (base_dir W @ [''projects'']) = Inr base \<and> prefix base p"
      using one(3) by (auto simp: validate_bind_mount_path_ok split: option.split)
    have spec: "spec_binds spec = container_binds W project mcp" "spec_env spec = container_env W cfg job ?t mode project params"
        "spec_cap_drop spec = [''ALL'']" "spec_cap_add spec = [''CHOWN'']" "spec_user spec = ''1000:1000''"
        "spec_security_opt spec = [''no-new-privileges:true'']"
      using cid(2) by (simp_all add: container_spec_of_def)
    have token: "hd (spec_env spec) = ''IRONCLAW_WORKER_TOKEN='' @ ?t"
      by (simp add: spec(2) container_env_def)
    show ?thesis
      using one(1) cid(1) cid(3) enabled token keys spec
      by (intro conjI exI [of _ project] exI [of _ mcp] mcp project) (simp_all only: container_binds_def)
  qed
qed

text \<open>A world in which a path is its own canonical form, a configuration, and a Docker that answers.\<close>

definition sample_world :: container_world where
  "sample_world = \<lparr>show_uuid = (\<lambda>_. ''u''), show_path = concat, show_time = (\<lambda>_. ''now''), show_strings = (\<lambda>_. None),
     show_pairs = (\<lambda>_. None), canonical_path = Inr, base_absolute = True, base_dir = [''ironclaw''], base_fault = None\<rparr>"

definition sample_docker :: "string option \<Rightarrow> docker_env" where
  "sample_docker fault = \<lparr>connect_fault = None, write_fault = None, mcp_path = [''tmp''], created_id = Inr ''c1'',
     start_fault = fault, stops = True, removes = True\<rparr>"

definition sample_params :: "unit job_creation_params" where
  "sample_params = \<lparr>jp_grants = [\<lparr>secret_name = ''s'', env_var = ''E''\<rparr>], jp_mcp_servers = None, jp_max_iterations = None,
     jp_acp_agent = None, jp_master_mcp = None\<rparr>"

definition sample_project :: "host_path option" where
  "sample_project = Some [''ironclaw'', ''projects'', ''p'']"

definition sample_creation ::
  "string option \<Rightarrow> unit container_jobs \<Rightarrow> (orchestrator_error, string) result \<times> unit container_jobs" where
  "sample_creation fault s = create_container_job sample_world (default_container_job_config []) (sample_docker fault) () [7] 0 0 5
     ''task'' sample_project ModeWorker sample_params s"

abbreviation sample_jobs :: "unit container_jobs" where
  "sample_jobs \<equiv> container_jobs_new tokens_new Map.empty"

lemmas sample_defs = sample_world_def sample_docker_def sample_params_def sample_project_def sample_creation_def
  default_container_job_config_def is_mode_enabled_def create_finish_def create_job_inner_def docker_connect_def
  container_jobs_new_def create_begin_def validate_bind_mount_path_def write_mcp_config_def start_container_def
  launch_container_def create_container_job_def create_token_def store_grants_def tokens_new_def Let_def

lemma sample_creation_docker:
  "docker_containers (snd (sample_creation fault sample_jobs)) = [''c1'' \<mapsto> (container_spec_of sample_world
     (default_container_job_config []) 0 5 (generate_token [7]) ModeWorker sample_project None sample_params, fault = None)]"
  by (cases fault) (simp_all add: sample_defs)

theorem container_confined_witness:
  "\<exists>spec. docker_containers (snd (sample_creation None sample_jobs)) ''c1'' = Some (spec, True) \<and>
    spec_cap_drop spec = [''ALL''] \<and> hd (spec_env spec) = ''IRONCLAW_WORKER_TOKEN='' @ generate_token [7]"
proof -
  let ?spec = "container_spec_of sample_world (default_container_job_config []) 0 5 (generate_token [7]) ModeWorker
    sample_project None sample_params"
  have "docker_containers (snd (sample_creation None sample_jobs)) ''c1'' = Some (?spec, True)"
    by (simp add: sample_creation_docker)
  moreover have "docker_containers sample_jobs ''c1'' \<noteq> Some (?spec, True)" by (simp add: container_jobs_new_def)
  ultimately show ?thesis
    using container_confined [of sample_world "default_container_job_config []" "sample_docker None" "()" "[7]" 0 0 5 "''task''"
        sample_project ModeWorker sample_params sample_jobs "''c1''" ?spec True]
    unfolding sample_creation_def by blast
qed

text \<open>
  A failed creation takes back what it gave: the job has no token, no grants and no handle,
  and no other job lost or gained any. But a container that Docker created and could not start is
  still there, with the revoked token in its environment, and no handle names it.
\<close>

theorem failed_creation_leaves_container:
  assumes "fst (create_container_job W cfg D one bytes now now' job task dir mode params s) = Inl e"
    and "is_mode_enabled cfg mode"
    and "snd (create_container_job W cfg D one bytes now now' job task dir mode params s) = s'"
  shows "handles s' = (handles s)(job := None) \<and>
    job_tokens (job_store s') = (job_tokens (job_store s))(job := None) \<and>
    job_grants (job_store s') = (job_grants (job_store s))(job := None) \<and>
    (docker_containers s' = docker_containers s \<or>
     (\<exists>cid project mcp. created_id D = Inr cid \<and> start_fault D \<noteq> None \<and> docker_containers s' = (docker_containers s)
       (cid \<mapsto> (container_spec_of W cfg now' job (generate_token bytes) mode project mcp params, False))))"
proof -
  let ?b = "snd (create_begin cfg bytes now job task dir mode params s)" and ?t = "generate_token bytes"
  have fin: "create_finish W cfg D one now' job ?t dir mode params ?b = (Inl e, s')"
    using assms by (simp add: create_enabled prod_eq_iff)
  have "(job_grants (job_store ?b))(job := None) = (job_grants (job_store s))(job := None)"
    by (rule ext) (simp add: create_begin_other)
  moreover have "docker_containers s' = docker_containers s \<or>
     (\<exists>cid project mcp. created_id D = Inr cid \<and> start_fault D \<noteq> None \<and> docker_containers s' = (docker_containers s)
       (cid \<mapsto> (container_spec_of W cfg now' job ?t mode project mcp params, False)))"
  proof (cases rule: create_finish_docker [of W cfg D one now' job ?t dir mode params ?b])
    case none
    then show ?thesis by (simp add: fin create_begin_ok(3) [OF assms(2)])
  next
    case (one cid project mcp)
    then have fault: "(start_fault D = None) = False" by (simp add: fin)
    then have "docker_containers s' = (docker_containers s)
        (cid \<mapsto> (container_spec_of W cfg now' job ?t mode project mcp params, False))"
      using one(2) unfolding fin create_begin_ok(3) [OF assms(2)] by (simp only: snd_conv)
    with one(1) fault show ?thesis by blast
  qed
  ultimately show ?thesis
    by (simp add: create_finish_failed [OF fin] create_begin_ok(2,4) [OF assms(2)])
qed

theorem failed_creation_leaves_container_witness:
  "handles (snd (sample_creation (Some ''no'') sample_jobs)) = (handles sample_jobs)(5 := None) \<and>
   docker_containers (snd (sample_creation (Some ''no'') sample_jobs)) ''c1'' \<noteq> None"
proof -
  have "fst (sample_creation (Some ''no'') sample_jobs) = Inl (ContainerCreationFailed 5 (NotStarted ''no''))"
      "is_mode_enabled (default_container_job_config []) ModeWorker"
    by (simp_all add: sample_defs)
  from failed_creation_leaves_container [OF this(1) [unfolded sample_creation_def] this(2) refl]
  show ?thesis by (simp add: sample_creation_def [symmetric] sample_creation_docker)
qed

text \<open>
  C12. However the operations follow one another, from a manager without jobs: a job's handle says
  running exactly while the job has a token, and once it says stopped, no request reaches the
  handlers with that job's path, whatever its header, and no grants are left to serve.
\<close>

theorem token_lives_while_running:
  assumes "(jobs_step W cfg one)\<^sup>*\<^sup>* (container_jobs_new tokens docker) s"
    and "handles s job = Some h"
  shows "case ch_state h of
      ContainerRunning \<Rightarrow> job_tokens (job_store s) job \<noteq> None
    | ContainerStopped \<Rightarrow> get_grants job (job_store s) = None \<and>
        (\<forall>parse path header. extract_job_id_from_path parse path = Some job \<longrightarrow>
           worker_auth_middleware parse (job_store s) path header = Inl Unauthorized)
    | _ \<Rightarrow> False"
proof -
  have "tokens_follow_handles s" using steps_keep_tokens_follow [OF assms(1) new_tokens_follow] .
  from tokens_follow_handlesD [OF this assms(2)] show ?thesis
    by (auto simp: get_grants_def worker_auth_middleware_def validate_token_def split: option.split container_state.split)
qed

theorem token_lives_while_running_witness:
  "case ContainerRunning of
      ContainerRunning \<Rightarrow> job_tokens (job_store (snd (sample_creation None sample_jobs))) 5 \<noteq> None
    | ContainerStopped \<Rightarrow> get_grants 5 (job_store (snd (sample_creation None sample_jobs))) = None
    | _ \<Rightarrow> False"
proof -
  have reached: "(jobs_step sample_world (default_container_job_config []) ())\<^sup>*\<^sup>* sample_jobs (snd (sample_creation None sample_jobs))"
    unfolding sample_creation_def by (rule r_into_rtranclp, rule job_created)
  obtain h where h: "handles (snd (sample_creation None sample_jobs)) 5 = Some h" "ch_state h = ContainerRunning"
    by (simp add: sample_defs)
  from token_lives_while_running [OF reached h(1)] show ?thesis by (simp add: h(2))
qed

text \<open>
  Docker starts the container before the handle learns of it. A worker that reports its
  completion in between is overwritten: the handle says running again, with the result of the
  finished job, the container still runs, and its token is gone, so that it can report nothing
  more.
\<close>

theorem completion_overwritten:
  assumes "launch_container D job spec s = (Inr cid, s1)"
    and "handles s job = Some h" and "ch_container_id h = ''''"
    and "s2 = record_running job cid (snd (complete_container_job D' job r s1))"
  shows "handles s2 job = Some (h\<lparr>ch_result := Some r, ch_container_id := cid, ch_state := ContainerRunning\<rparr>) \<and>
    docker_containers s2 cid = Some (spec, True) \<and> job_tokens (job_store s2) job = None"
proof -
  have s1: "handles s1 = handles s" "docker_containers s1 cid = Some (spec, True)"
    using assms(1) launch_simps(2) [of D job spec s] by (auto simp: launch_container_def split: sum.splits option.splits)
  have "docker_containers (snd (complete_container_job D' job r s1)) = docker_containers s1"
    using assms(2,3) s1 by (simp add: complete_container_job_def Let_def)
  then show ?thesis using assms s1 by simp
qed

theorem completion_overwritten_witness:
  "job_tokens (job_store (record_running 5 ''c1'' (snd (complete_container_job (sample_docker None) 5 \<lparr>cr_success = True, cr_message = None\<rparr>
     (snd (launch_container (sample_docker None) 5 (container_spec_of sample_world (default_container_job_config []) 0 5 ''t''
       ModeWorker None None sample_params)
       (snd (create_begin (default_container_job_config []) [7] 0 5 ''task'' None ModeWorker sample_params sample_jobs)))))))) 5 = None"
proof -
  let ?s = "snd (create_begin (default_container_job_config []) [7] 0 5 ''task'' None ModeWorker sample_params sample_jobs)"
  let ?spec = "container_spec_of sample_world (default_container_job_config []) 0 5 ''t'' ModeWorker None None sample_params"
  have "launch_container (sample_docker None) 5 ?spec ?s = (Inr ''c1'', snd (launch_container (sample_docker None) 5 ?spec ?s))"
    by (simp add: sample_docker_def launch_container_def)
  moreover obtain h where "handles ?s 5 = Some h" "ch_container_id h = ''''" by (simp add: sample_defs)
  ultimately show ?thesis by (metis completion_overwritten)
qed

end
