(* ===== verification/WorkerApi.thy ===== *)
theory WorkerApi
  imports ContainerJobs
begin

text \<open>
  What the workers in the containers ask of the host, \<open>src/orchestrator/api.rs\<close>: the handlers
  behind the middleware of \<open>Tokens\<close>, over the state of \<open>ContainerJobs\<close>, the prompts queued for
  bridges, and the cache of the jobs' owners. The proxied calls of the model are left out: they
  pass their request on. The results of a job's events are those of
  \<open>crates/ironclaw_common/src/event.rs\<close>.
\<close>

section \<open>Job events\<close>

datatype job_result_status = JobCompleted | JobFailed | JobCancelled | JobStuck

definition job_result_from_str :: "utext \<Rightarrow> job_result_status option" where
  "job_result_from_str s =
     (let t = trim_text s; same = (\<lambda>w. ascii_lower_text t = utext_of w)
      in if t = [] then None
         else if same ''completed'' then Some JobCompleted
         else if same ''failed'' then Some JobFailed
         else if same ''cancelled'' then Some JobCancelled
         else if same ''stuck'' then Some JobStuck
         else if same ''error'' then Some JobFailed
         else None)"

datatype 'j app_event =
  JobMessage uuid utext utext
| JobToolUse uuid utext "'j json"
| JobToolResult uuid utext utext
| JobStatus uuid utext
| JobResult uuid job_result_status "utext option" "'j json option"
| JobReasoning uuid utext "(utext \<times> utext) list"

definition text_field :: "'j json \<Rightarrow> string \<Rightarrow> string \<Rightarrow> utext" where
  "text_field v k other = (case json_get_str v k of Some t \<Rightarrow> t | None \<Rightarrow> utext_of other)"

text \<open>\<open>ToolDecisionDto::from_json_array\<close>.\<close>

definition decisions_from_json :: "'j json \<Rightarrow> (utext \<times> utext) list" where
  "decisions_from_json v =
     (case v of
        JArray ds \<Rightarrow> List.map_filter (\<lambda>d.
          case (json_get_str d ''tool_name'', json_get_str d ''rationale'') of
            (Some n, Some r) \<Rightarrow> Some (n, r) | _ \<Rightarrow> None) ds
      | _ \<Rightarrow> [])"

definition job_event_of :: "uuid \<Rightarrow> string \<Rightarrow> 'j json \<Rightarrow> 'j app_event" where
  "job_event_of job event_type d =
     (if event_type = ''message'' then JobMessage job (text_field d ''role'' ''assistant'') (text_field d ''content'' '''')
      else if event_type = ''tool_use'' then JobToolUse job (text_field d ''tool_name'' ''unknown'')
        (case json_get d ''input'' of Some v \<Rightarrow> v | None \<Rightarrow> JNull)
      else if event_type = ''tool_result'' then JobToolResult job (text_field d ''tool_name'' ''unknown'') (text_field d ''output'' '''')
      else if event_type = ''result'' then JobResult job
        (case job_result_from_str (text_field d ''status'' '''') of Some st \<Rightarrow> st | None \<Rightarrow> JobFailed)
        (json_get_str d ''session_id'') (json_get d ''fallback_deliverable'')
      else if event_type = ''reasoning'' then JobReasoning job (text_field d ''narrative'' '''')
        (decisions_from_json (case json_get d ''decisions'' of Some v \<Rightarrow> v | None \<Rightarrow> JNull))
      else JobStatus job (text_field d ''message'' ''''))"

section \<open>The state and the owners of jobs\<close>

text \<open>
  A prompt is its text and whether it is the last one. \<open>job_events\<close> are the events sent, with
  the user they are for, when there is a channel for them; \<open>saved_events\<close> are those handed to the
  database.
\<close>

record 'j orchestrator_state =
  api_jobs :: "'j container_jobs"
  prompt_queue :: "uuid \<rightharpoonup> (utext \<times> bool) list"
  owner_cache :: "uuid \<rightharpoonup> string"
  job_events :: "(uuid \<times> string \<times> 'j app_event) list option"
  saved_events :: "(uuid \<times> string \<times> 'j json) list"

text \<open>
  The database, if there is one, gives the user of a job or fails; the secrets store, if there is
  one, decrypts a user's secret or fails. \<open>cached_keys\<close> is the order in which the cache lists its
  keys.
\<close>

record api_env =
  job_users :: "(uuid \<Rightarrow> (string, string option) result) option"
  secrets :: "(string \<Rightarrow> string \<Rightarrow> string option) option"
  cached_keys :: "uuid list"

definition max_job_owner_cache_size :: nat where
  "max_job_owner_cache_size = 10000"

definition cache_job_owner :: "uuid list \<Rightarrow> uuid \<Rightarrow> string \<Rightarrow> (uuid \<rightharpoonup> string) \<Rightarrow> (uuid \<rightharpoonup> string)" where
  "cache_job_owner ks job user c =
     (let c1 = (if card (dom c) \<ge> max_job_owner_cache_size
                then foldl (\<lambda>c k. c(k := None)) c (take (max_job_owner_cache_size div 10) ks) else c)
      in c1(job \<mapsto> user))"

definition resolve_job_owner :: "api_env \<Rightarrow> uuid \<Rightarrow> 'j orchestrator_state \<Rightarrow> string option \<times> 'j orchestrator_state" where
  "resolve_job_owner E job s =
     (case owner_cache s job of
        Some user \<Rightarrow> (Some user, s)
      | None \<Rightarrow>
          (case (case job_users E of
                   Some db \<Rightarrow> (case db job of Inr (Some user) \<Rightarrow> if user = '''' then None else Some user | _ \<Rightarrow> None)
                 | None \<Rightarrow> None) of
             Some user \<Rightarrow> (Some user, s\<lparr>owner_cache := cache_job_owner (cached_keys E) job user (owner_cache s)\<rparr>)
           | None \<Rightarrow> (None, s)))"

section \<open>The handlers\<close>

datatype api_response =
  Status nat
| JobDescription utext string "host_path option"
| NextPrompt utext bool
| Credentials "(string \<times> string) list"
| Acknowledged

definition get_job_handler :: "(uuid \<Rightarrow> utext) \<Rightarrow> uuid \<Rightarrow> 'j orchestrator_state \<Rightarrow> api_response" where
  "get_job_handler title job s =
     (case get_handle job (api_jobs s) of
        None \<Rightarrow> Status 404
      | Some h \<Rightarrow> JobDescription (title job) (ch_task h) (ch_project_dir h))"

definition report_status :: "uuid \<Rightarrow> string option \<Rightarrow> 32 word \<Rightarrow> 'j orchestrator_state \<Rightarrow> api_response \<times> 'j orchestrator_state" where
  "report_status job message n s = (Status 200, s\<lparr>api_jobs := update_worker_status job message n (api_jobs s)\<rparr>)"

definition report_complete ::
  "docker_env \<Rightarrow> uuid \<Rightarrow> completion_result \<Rightarrow> 'j orchestrator_state \<Rightarrow> api_response \<times> 'j orchestrator_state" where
  "report_complete D job r s = (Acknowledged, s\<lparr>api_jobs := snd (complete_container_job D job r (api_jobs s))\<rparr>)"

definition job_event_handler ::
  "api_env \<Rightarrow> uuid \<Rightarrow> string \<Rightarrow> 'j json \<Rightarrow> 'j orchestrator_state \<Rightarrow> api_response \<times> 'j orchestrator_state" where
  "job_event_handler E job event_type d s =
     (let s1 = (case job_users E of Some _ \<Rightarrow> s\<lparr>saved_events := saved_events s @ [(job, event_type, d)]\<rparr> | None \<Rightarrow> s)
      in case job_events s1 of
        None \<Rightarrow> (Status 200, s1)
      | Some sent \<Rightarrow>
          (case resolve_job_owner E job s1 of
             (user, s2) \<Rightarrow> (Status 200, s2\<lparr>job_events := Some (sent @
               [(job, case user of Some u \<Rightarrow> u | None \<Rightarrow> '''', job_event_of job event_type d)])\<rparr>)))"

definition get_prompt_handler :: "uuid \<Rightarrow> 'j orchestrator_state \<Rightarrow> api_response \<times> 'j orchestrator_state" where
  "get_prompt_handler job s =
     (case prompt_queue s job of
        Some ((content, is_last) # rest) \<Rightarrow> (NextPrompt content is_last, s\<lparr>prompt_queue := (prompt_queue s)(job \<mapsto> rest)\<rparr>)
      | _ \<Rightarrow> (Status 204, s))"

fun decrypt_all :: "(string \<Rightarrow> string option) \<Rightarrow> credential_grant list \<Rightarrow> (string \<times> string) list option" where
  "decrypt_all secret [] = Some []"
| "decrypt_all secret (g # gs) =
     (case secret (secret_name g) of
        None \<Rightarrow> None
      | Some v \<Rightarrow> map_option ((#) (env_var g, v)) (decrypt_all secret gs))"

definition get_credentials_handler :: "api_env \<Rightarrow> uuid \<Rightarrow> 'j orchestrator_state \<Rightarrow> api_response \<times> 'j orchestrator_state" where
  "get_credentials_handler E job s =
     (case get_grants job (job_store (api_jobs s)) of
        None \<Rightarrow> (Status 204, s)
      | Some gs \<Rightarrow>
          if gs = [] then (Status 204, s)
          else case secrets E of
            None \<Rightarrow> (Status 503, s)
          | Some decrypt \<Rightarrow>
              (case resolve_job_owner E job s of
                 (None, s1) \<Rightarrow> (Status 403, s1)
               | (Some user, s1) \<Rightarrow>
                   if user = '''' then (Status 403, s1)
                   else (case decrypt_all (decrypt user) gs of
                           None \<Rightarrow> (Status 403, s1)
                         | Some cs \<Rightarrow> (Credentials cs, s1))))"

text \<open>
  The web gateway's side of the prompts, in \<open>src/channels/web/features/jobs/mod.rs\<close>: a prompt for
  a bridge goes to the end of its job's queue.
\<close>

definition queue_prompt :: "uuid \<Rightarrow> utext \<Rightarrow> bool \<Rightarrow> 'j orchestrator_state \<Rightarrow> 'j orchestrator_state" where
  "queue_prompt job content is_last s = s\<lparr>prompt_queue := (prompt_queue s)(job \<mapsto>
     (case prompt_queue s job of Some ps \<Rightarrow> ps | None \<Rightarrow> []) @ [(content, is_last)])\<rparr>"

section \<open>The router\<close>

datatype 'j worker_call =
  GetJob
| ReportStatus "string option" "32 word"
| ReportComplete completion_result
| PostEvent string "'j json"
| GetPrompt
| GetCredentials

text \<open>
  A request of a worker: the middleware, then the handler of the job in its path. \<open>path\<close> names a
  job and one of the routes; which route is \<open>call\<close>.
\<close>

fun api_handler ::
  "(uuid \<Rightarrow> utext) \<Rightarrow> docker_env \<Rightarrow> api_env \<Rightarrow> 'j worker_call \<Rightarrow> uuid \<Rightarrow> 'j orchestrator_state \<Rightarrow> api_response \<times> 'j orchestrator_state"
where
  "api_handler title D E GetJob job s = (get_job_handler title job s, s)"
| "api_handler title D E (ReportStatus message n) job s = report_status job message n s"
| "api_handler title D E (ReportComplete r) job s = report_complete D job r s"
| "api_handler title D E (PostEvent event_type d) job s = job_event_handler E job event_type d s"
| "api_handler title D E GetPrompt job s = get_prompt_handler job s"
| "api_handler title D E GetCredentials job s = get_credentials_handler E job s"

definition worker_request ::
  "(string \<Rightarrow> uuid option) \<Rightarrow> (uuid \<Rightarrow> utext) \<Rightarrow> docker_env \<Rightarrow> api_env \<Rightarrow> string \<Rightarrow> string option option \<Rightarrow> 'j worker_call
    \<Rightarrow> 'j orchestrator_state \<Rightarrow> api_response \<times> 'j orchestrator_state" where
  "worker_request parse_uuid title D E path header call s =
     (case worker_auth_middleware parse_uuid (job_store (api_jobs s)) path header of
        Inl BadRequest \<Rightarrow> (Status 400, s)
      | Inl Unauthorized \<Rightarrow> (Status 401, s)
      | Inr _ \<Rightarrow>
          (case extract_job_id_from_path parse_uuid path of
             Some job \<Rightarrow> api_handler title D E call job s
           | None \<Rightarrow> (Status 400, s)))"

section \<open>Owners\<close>

text \<open>The cache never grows past its bound, and what it says a database of fixed owners said.\<close>

lemma dom_remove_all: "dom (foldl (\<lambda>c k. c(k := None)) c ks) = dom c - set ks"
  by (induction ks arbitrary: c) auto

lemma owner_cache_bounded:
  assumes "set ks = dom c" and "distinct ks" and "card (dom c) \<le> max_job_owner_cache_size"
  shows "card (dom (cache_job_owner ks job user c)) \<le> max_job_owner_cache_size"
proof (cases "card (dom c) < max_job_owner_cache_size")
  case True
  moreover have "finite (dom c)" using assms(1) by (metis List.finite_set)
  ultimately show ?thesis by (simp add: cache_job_owner_def Let_def card_insert_if)
next
  case False
  let ?old = "take (max_job_owner_cache_size div 10) ks"
  have "length ks = max_job_owner_cache_size" using False assms by (metis distinct_card le_antisym not_less)
  then have "card (set ?old) = max_job_owner_cache_size div 10"
    using assms(2) by (simp add: distinct_card)
  moreover have "set ?old \<subseteq> dom c" using assms(1) by (metis set_take_subset)
  moreover have "finite (dom c)" using assms(1) by (metis List.finite_set)
  ultimately have "card (dom c - set ?old) \<le> max_job_owner_cache_size - max_job_owner_cache_size div 10"
    using assms(3) by (simp add: card_Diff_subset)
  then have "card (insert job (dom c - set ?old)) \<le> max_job_owner_cache_size"
    using \<open>finite (dom c)\<close> by (simp add: card_insert_if max_job_owner_cache_size_def)
  then show ?thesis
    using False by (simp add: cache_job_owner_def Let_def dom_remove_all)
qed

definition owners_from :: "(uuid \<Rightarrow> (string, string option) result) \<Rightarrow> 'j orchestrator_state \<Rightarrow> bool" where
  "owners_from db s \<longleftrightarrow> (\<forall>job user. owner_cache s job = Some user \<longrightarrow> db job = Inr (Some user) \<and> user \<noteq> '''')"

lemma removed_some: "foldl (\<lambda>c k. c(k := None)) c ks job = Some user \<Longrightarrow> c job = Some user"
  by (induction ks arbitrary: c) (fastforce split: if_splits)+

lemma resolve_job_owner_from:
  assumes "owners_from db s" and "job_users E = Some db" and "resolve_job_owner E job s = (user, s')"
  shows "owners_from db s' \<and> (case user of Some u \<Rightarrow> db job = Inr (Some u) \<and> u \<noteq> '''' | None \<Rightarrow> True)"
  using assms
proof (cases "owner_cache s job")
  case (Some u)
  then show ?thesis using assms by (auto simp: resolve_job_owner_def owners_from_def split: option.split)
next
  case None
  have "owners_from db (s\<lparr>owner_cache := cache_job_owner ks job u (owner_cache s)\<rparr>)"
    if "db job = Inr (Some u)" "u \<noteq> ''''" for ks u
    unfolding owners_from_def
  proof (intro allI impI)
    fix k v
    assume "owner_cache (s\<lparr>owner_cache := cache_job_owner ks job u (owner_cache s)\<rparr>) k = Some v"
    then have "k = job \<and> v = u \<or> owner_cache s k = Some v"
      by (auto simp: cache_job_owner_def Let_def split: if_splits dest: removed_some)
    then show "db k = Inr (Some v) \<and> v \<noteq> ''''" using assms(1) that by (auto simp: owners_from_def)
  qed
  then show ?thesis
    using assms None by (auto simp: resolve_job_owner_def split: option.splits sum.splits if_splits)
qed

lemma resolve_job_owner_rest [simp]:
  "api_jobs (snd (resolve_job_owner E job s)) = api_jobs s"
  "prompt_queue (snd (resolve_job_owner E job s)) = prompt_queue s"
  by (auto simp: resolve_job_owner_def split: option.split)

section \<open>Credentials\<close>

lemma decrypt_all_some:
  "decrypt_all secret gs = Some cs \<longleftrightarrow>
    list_all2 (\<lambda>g c. fst c = env_var g \<and> secret (secret_name g) = Some (snd c)) gs cs"
  by (induction gs arbitrary: cs) (auto simp: list_all2_Cons1 split: option.split)

lemma credentials_handler_ok:
  "fst (get_credentials_handler E job s) = Credentials cs \<longleftrightarrow>
    (\<exists>gs decrypt user. get_grants job (job_store (api_jobs s)) = Some gs \<and> gs \<noteq> [] \<and> secrets E = Some decrypt \<and>
      fst (resolve_job_owner E job s) = Some user \<and> user \<noteq> '''' \<and> decrypt_all (decrypt user) gs = Some cs)"
  by (auto simp: get_credentials_handler_def split: option.split prod.split)

lemma worker_request_cases:
  "worker_request parse title D E path header call s =
    (case extract_job_id_from_path parse path of
       None \<Rightarrow> (Status 400, s)
     | Some job \<Rightarrow>
         if \<exists>t. header = Some (Some (''Bearer '' @ t)) \<and> job_tokens (job_store (api_jobs s)) job = Some t
         then api_handler title D E call job s else (Status 401, s))"
proof (cases "extract_job_id_from_path parse path")
  case None
  then show ?thesis by (simp add: worker_request_def worker_auth_middleware_def)
next
  case (Some job)
  show ?thesis
  proof (cases "is_ok (worker_auth_middleware parse (job_store (api_jobs s)) path header)")
    case True
    then show ?thesis using Some middleware_ok [of parse "job_store (api_jobs s)" path header]
      by (auto simp: worker_request_def is_ok_iff)
  next
    case False
    then have "worker_auth_middleware parse (job_store (api_jobs s)) path header = Inl Unauthorized"
      using Some by (auto simp: worker_auth_middleware_def split: option.splits if_splits)
    then show ?thesis
      using False Some middleware_ok [of parse "job_store (api_jobs s)" path header] by (auto simp: worker_request_def)
  qed
qed

text \<open>One running job with a grant, and a database that knows its owner.\<close>

definition sample_api :: api_env where
  "sample_api = \<lparr>job_users = Some (\<lambda>_. Inr (Some ''ann'')), secrets = Some (\<lambda>u n. Some (u @ n)), cached_keys = []\<rparr>"

definition sample_state :: "unit orchestrator_state" where
  "sample_state = \<lparr>api_jobs = snd (sample_creation None sample_jobs), prompt_queue = Map.empty, owner_cache = Map.empty,
     job_events = None, saved_events = []\<rparr>"

lemma sample_state_token: "job_tokens (job_store (api_jobs sample_state)) 5 = Some (generate_token [7])"
  by (simp add: sample_state_def sample_defs)

section \<open>Properties\<close>

text \<open>
  C5. A request gets credentials exactly when its path names a job whose current token its header
  carries, that job has grants, a secrets store is there, and the job's owner is known; and then it
  gets one entry for each of this job's grants, in their order, each the owner's own secret. One
  secret that cannot be decrypted refuses them all.
\<close>

theorem credentials_exactly_granted:
  "(fst (worker_request parse title D E path header GetCredentials s) = Credentials cs) =
    (\<exists>job t gs decrypt user. extract_job_id_from_path parse path = Some job \<and>
      header = Some (Some (''Bearer '' @ t)) \<and> job_tokens (job_store (api_jobs s)) job = Some t \<and>
      job_grants (job_store (api_jobs s)) job = Some gs \<and> gs \<noteq> [] \<and> secrets E = Some decrypt \<and>
      fst (resolve_job_owner E job s) = Some user \<and> user \<noteq> '''' \<and>
      list_all2 (\<lambda>g c. fst c = env_var g \<and> decrypt user (secret_name g) = Some (snd c)) gs cs)"
proof (cases "extract_job_id_from_path parse path")
  case (Some job)
  show ?thesis
  proof (cases "\<exists>t. header = Some (Some (''Bearer '' @ t)) \<and> job_tokens (job_store (api_jobs s)) job = Some t")
    case True
    then show ?thesis
      using Some by (auto simp: worker_request_cases credentials_handler_ok decrypt_all_some get_grants_def)
  qed (use Some in \<open>auto simp: worker_request_cases\<close>)
qed (simp add: worker_request_cases)

text \<open>
  A worker's report that its job is complete is its last request: whatever it or anyone else
  asks for this job afterwards, with whatever header, is answered with 401 and changes nothing.
\<close>

theorem completes_once:
  assumes "worker_request parse title D E path header (ReportComplete r) s = (Acknowledged, s')"
    and "extract_job_id_from_path parse path' = extract_job_id_from_path parse path"
  shows "worker_request parse title D' E' path' header' call s' = (Status 401, s')"
proof -
  obtain job where job: "extract_job_id_from_path parse path = Some job" "s' = snd (report_complete D job r s)"
    using assms(1) by (auto simp: worker_request_cases split: option.splits if_splits)
  then have "job_tokens (job_store (api_jobs s')) job = None" by (simp add: report_complete_def)
  then show ?thesis using job(1) assms(2) by (simp add: worker_request_cases)
qed

theorem completes_once_witness:
  "worker_request (\<lambda>_. Some 5) (\<lambda>_. []) (sample_docker None) sample_api ''/worker/u/status''
     (Some (Some (''Bearer '' @ generate_token [7]))) (ReportStatus None 1)
     (snd (worker_request (\<lambda>_. Some 5) (\<lambda>_. []) (sample_docker None) sample_api ''/worker/u/complete''
        (Some (Some (''Bearer '' @ generate_token [7]))) (ReportComplete \<lparr>cr_success = True, cr_message = None\<rparr>) sample_state)) =
   (Status 401, snd (worker_request (\<lambda>_. Some 5) (\<lambda>_. []) (sample_docker None) sample_api ''/worker/u/complete''
        (Some (Some (''Bearer '' @ generate_token [7]))) (ReportComplete \<lparr>cr_success = True, cr_message = None\<rparr>) sample_state))"
proof (rule completes_once)
  show "worker_request (\<lambda>_. Some 5) (\<lambda>_. []) (sample_docker None) sample_api ''/worker/u/complete''
        (Some (Some (''Bearer '' @ generate_token [7]))) (ReportComplete \<lparr>cr_success = True, cr_message = None\<rparr>) sample_state =
      (Acknowledged, snd (worker_request (\<lambda>_. Some 5) (\<lambda>_. []) (sample_docker None) sample_api ''/worker/u/complete''
        (Some (Some (''Bearer '' @ generate_token [7]))) (ReportComplete \<lparr>cr_success = True, cr_message = None\<rparr>) sample_state))"
    by (simp add: worker_request_cases extract_job_id_from_path_def sample_state_token report_complete_def)
qed (simp add: extract_job_id_from_path_def)

text \<open>
  The result of a worker's event counts as completed only if it says so: an unknown, missing
  or empty status is a failure.
\<close>

theorem result_fails_closed:
  assumes "job_event_of job ''result'' d = JobResult k JobCompleted sid extra"
  shows "\<exists>t. json_get_str d ''status'' = Some t \<and> ascii_lower_text (trim_text t) = utext_of ''completed''"
proof -
  have "job_result_from_str (text_field d ''status'' '''') = Some JobCompleted"
    using assms by (auto simp: job_event_of_def split: option.splits)
  then have "ascii_lower_text (trim_text (text_field d ''status'' '''')) = utext_of ''completed''"
    by (auto simp: job_result_from_str_def Let_def split: if_splits)
  moreover from this have "json_get_str d ''status'' \<noteq> None"
  proof (rule contrapos_pn)
    assume "json_get_str d ''status'' = None"
    then have "trim_text (text_field d ''status'' '''') = []" by (simp add: text_field_def trim_text_def utext_of_def)
    then show "ascii_lower_text (trim_text (text_field d ''status'' '''')) \<noteq> utext_of ''completed''"
      by (simp add: ascii_lower_text_def utext_of_def)
  qed
  ultimately show ?thesis by (auto simp: text_field_def)
qed

theorem result_fails_closed_witness:
  "\<exists>t. json_get_str (JObject [(utext_of ''status'', JString (utext_of '' COMPLETED''))] :: unit json) ''status'' = Some t \<and>
    ascii_lower_text (trim_text t) = utext_of ''completed''"
proof (rule result_fails_closed)
  show "job_event_of 1 ''result'' (JObject [(utext_of ''status'', JString (utext_of '' COMPLETED''))] :: unit json) =
      JobResult 1 JobCompleted None None"
    by (simp add: job_event_of_def json_get_str_def job_result_from_str_def trim_text_def ascii_lower_text_def utext_of_def
      white_space_def text_field_def Let_def)
qed

end
