(* ===== verification/SessionManager.thy ===== *)
theory SessionManager
  imports Undo
begin

text \<open>
  Users, their sessions and their threads, \<open>src/agent/session_manager.rs\<close>: which thread a message
  of a channel belongs to, and which sessions are forgotten. Sessions are shared, so the state has
  a heap of them; a session that is forgotten stays in the heap for those who still hold it. Every
  operation is the sequence of the steps between two locks, because others run in between.
\<close>

section \<open>The state\<close>

record thread_key =
  key_user :: string
  key_channel :: string
  key_external :: "string option"

type_synonym session_ref = nat

record 'n session_manager =
  sessions :: "string \<rightharpoonup> session_ref"
  session_heap :: "'n session list"
  thread_map :: "thread_key \<rightharpoonup> uuid"
  undo_managers :: "uuid \<rightharpoonup> 'n chat_message undo_manager"

definition session_manager_new :: "'n session_manager" where
  "session_manager_new = \<lparr>sessions = Map.empty, session_heap = [], thread_map = Map.empty, undo_managers = Map.empty\<rparr>"

definition session_has :: "'n session_manager \<Rightarrow> session_ref \<Rightarrow> uuid \<Rightarrow> bool" where
  "session_has s r t \<longleftrightarrow> session_threads (session_heap s ! r) t \<noteq> None"

definition is_mapped :: "uuid \<Rightarrow> 'n session_manager \<Rightarrow> bool" where
  "is_mapped t s \<longleftrightarrow> t \<in> ran (thread_map s)"

section \<open>Resolving a thread\<close>

definition get_or_create_session :: "utc \<Rightarrow> uuid \<Rightarrow> string \<Rightarrow> 'n session_manager \<Rightarrow> session_ref \<times> 'n session_manager" where
  "get_or_create_session now fresh user s =
     (case sessions s user of
        Some r \<Rightarrow> (r, s)
      | None \<Rightarrow> (length (session_heap s),
          s\<lparr>sessions := (sessions s)(user \<mapsto> length (session_heap s)),
            session_heap := session_heap s @ [session_new now fresh user]\<rparr>))"

text \<open>
  The read of the map: the thread of this key, if its session has it (\<open>Inl\<close>), or else the
  external identifier to adopt, if there is one that is not mapped.
\<close>

definition resolve_lookup ::
  "uuid option \<Rightarrow> thread_key \<Rightarrow> session_ref \<Rightarrow> 'n session_manager \<Rightarrow> uuid + uuid option" where
  "resolve_lookup ext key r s =
     (let adoptable = (if key_external key \<noteq> None
                       then (case ext of Some u \<Rightarrow> if is_mapped u s then None else Some u | None \<Rightarrow> None) else None)
      in case thread_map s key of
        Some t \<Rightarrow> if session_has s r t then Inl t else Inr adoptable
      | None \<Rightarrow> Inr adoptable)"

definition ensure_undo_manager :: "uuid \<Rightarrow> 'n session_manager \<Rightarrow> 'n session_manager" where
  "ensure_undo_manager t s =
     s\<lparr>undo_managers := (case undo_managers s t of Some _ \<Rightarrow> undo_managers s
        | None \<Rightarrow> (undo_managers s)(t \<mapsto> undo_new))\<rparr>"

definition map_thread :: "thread_key \<Rightarrow> uuid \<Rightarrow> 'n session_manager \<Rightarrow> 'n session_manager" where
  "map_thread key t s = s\<lparr>thread_map := (thread_map s)(key \<mapsto> t)\<rparr>"

text \<open>Under the write lock: adopt the identifier unless somebody mapped it meanwhile.\<close>

definition resolve_adopt :: "uuid \<Rightarrow> thread_key \<Rightarrow> session_ref \<Rightarrow> 'n session_manager \<Rightarrow> uuid option \<times> 'n session_manager" where
  "resolve_adopt u key r s =
     (if session_has s r u \<and> \<not> is_mapped u s then (Some u, ensure_undo_manager u (map_thread key u s)) else (None, s))"

definition safe_ext_uuid :: "uuid option \<Rightarrow> 'n session_manager \<Rightarrow> uuid option" where
  "safe_ext_uuid ext s = (case ext of Some u \<Rightarrow> if is_mapped u s then None else Some u | None \<Rightarrow> None)"

definition resolve_create ::
  "utc \<Rightarrow> uuid \<Rightarrow> uuid option \<Rightarrow> thread_key \<Rightarrow> session_ref \<Rightarrow> 'n session_manager \<Rightarrow> uuid \<times> 'n session_manager" where
  "resolve_create now fresh safe key r s =
     (case (case safe of
              Some u \<Rightarrow> create_thread_with_id now u (Some (key_channel key)) (session_heap s ! r)
            | None \<Rightarrow> create_thread now fresh (Some (key_channel key)) (session_heap s ! r)) of
        (t, sess) \<Rightarrow> (t, s\<lparr>session_heap := (session_heap s)[r := sess]\<rparr>))"

definition resolve_store :: "thread_key \<Rightarrow> uuid \<Rightarrow> 'n session_manager \<Rightarrow> 'n session_manager" where
  "resolve_store key t s = (let s1 = map_thread key t s in s1\<lparr>undo_managers := (undo_managers s1)(t \<mapsto> undo_new)\<rparr>)"

definition resolve_new ::
  "utc \<Rightarrow> uuid \<Rightarrow> uuid option \<Rightarrow> thread_key \<Rightarrow> session_ref \<Rightarrow> 'n session_manager \<Rightarrow> uuid \<times> 'n session_manager" where
  "resolve_new now fresh ext key r s =
     (case resolve_create now fresh (safe_ext_uuid ext s) key r s of (t, s1) \<Rightarrow> (t, resolve_store key t s1))"

definition resolve_thread_with_parsed_uuid ::
  "(string \<Rightarrow> uuid option) \<Rightarrow> utc \<Rightarrow> uuid \<Rightarrow> uuid \<Rightarrow> thread_key \<Rightarrow> uuid option \<Rightarrow> 'n session_manager
    \<Rightarrow> (session_ref \<times> uuid) \<times> 'n session_manager" where
  "resolve_thread_with_parsed_uuid parse_uuid now fresh_session fresh key parsed s =
     (case get_or_create_session now fresh_session (key_user key) s of
        (r, s1) \<Rightarrow>
          (let ext = (case parsed of Some u \<Rightarrow> Some u | None \<Rightarrow> Option.bind (key_external key) parse_uuid)
           in case resolve_lookup ext key r s1 of
             Inl t \<Rightarrow> ((r, t), s1)
           | Inr None \<Rightarrow> (case resolve_new now fresh ext key r s1 of (t, s2) \<Rightarrow> ((r, t), s2))
           | Inr (Some u) \<Rightarrow>
               (case resolve_adopt u key r s1 of
                  (Some t, s2) \<Rightarrow> ((r, t), s2)
                | (None, s2) \<Rightarrow> (case resolve_new now fresh ext key r s2 of (t, s3) \<Rightarrow> ((r, t), s3)))))"

definition resolve_thread ::
  "(string \<Rightarrow> uuid option) \<Rightarrow> utc \<Rightarrow> uuid \<Rightarrow> uuid \<Rightarrow> thread_key \<Rightarrow> 'n session_manager \<Rightarrow> (session_ref \<times> uuid) \<times> 'n session_manager"
where
  "resolve_thread parse_uuid now fresh_session fresh key s =
     resolve_thread_with_parsed_uuid parse_uuid now fresh_session fresh key None s"

text \<open>\<open>show_uuid\<close> writes a UUID as text.\<close>

definition register_thread ::
  "(uuid \<Rightarrow> string) \<Rightarrow> string \<Rightarrow> string \<Rightarrow> uuid \<Rightarrow> session_ref \<Rightarrow> 'n session_manager \<Rightarrow> 'n session_manager" where
  "register_thread show_uuid user channel t r s =
     (let s1 = ensure_undo_manager t
            (map_thread \<lparr>key_user = user, key_channel = channel, key_external = Some (show_uuid t)\<rparr> t s)
      in s1\<lparr>sessions := (case sessions s1 user of Some _ \<Rightarrow> sessions s1 | None \<Rightarrow> (sessions s1)(user \<mapsto> r))\<rparr>)"

definition get_undo_manager :: "uuid \<Rightarrow> 'n session_manager \<Rightarrow> 'n chat_message undo_manager \<times> 'n session_manager" where
  "get_undo_manager t s =
     (case undo_managers s t of
        Some m \<Rightarrow> (m, s)
      | None \<Rightarrow> (undo_new, s\<lparr>undo_managers := (undo_managers s)(t \<mapsto> undo_new)\<rparr>))"

section \<open>Forgetting idle sessions\<close>

text \<open>
  \<open>held\<close> are the sessions whose lock somebody else has at that moment, \<open>users\<close> the order in which
  the map of sessions lists its keys. First the idle users are collected, then their threads, then
  they are removed.
\<close>

definition stale_users :: "utc \<Rightarrow> duration \<Rightarrow> session_ref set \<Rightarrow> string list \<Rightarrow> 'n session_manager \<Rightarrow> string list" where
  "stale_users now max_idle held users s =
     filter (\<lambda>u. case sessions s u of
        Some r \<Rightarrow> r \<notin> held \<and> last_active_at (session_heap s ! r) < now - int max_idle
      | None \<Rightarrow> False) users"

definition stale_threads :: "session_ref set \<Rightarrow> string list \<Rightarrow> 'n session_manager \<Rightarrow> uuid set" where
  "stale_threads held stale s =
     \<Union> ((\<lambda>u. case sessions s u of
        Some r \<Rightarrow> if r \<in> held then {} else dom (session_threads (session_heap s ! r))
      | None \<Rightarrow> {}) ` set stale)"

definition remove_users :: "string list \<Rightarrow> uuid set \<Rightarrow> 'n session_manager \<Rightarrow> nat \<times> 'n session_manager" where
  "remove_users stale threads s =
     (length (remdups (filter (\<lambda>u. sessions s u \<noteq> None) stale)),
      s\<lparr>sessions := (\<lambda>u. if u \<in> set stale then None else sessions s u),
        thread_map := (\<lambda>k. if key_user k \<in> set stale then None else thread_map s k),
        undo_managers := (\<lambda>t. if t \<in> threads then None else undo_managers s t)\<rparr>)"

definition prune_stale_sessions ::
  "utc \<Rightarrow> duration \<Rightarrow> session_ref set \<Rightarrow> session_ref set \<Rightarrow> string list \<Rightarrow> 'n session_manager \<Rightarrow> nat \<times> 'n session_manager" where
  "prune_stale_sessions now max_idle held held' users s =
     (let stale = stale_users now max_idle held users s
      in if stale = [] then (0, s) else remove_users stale (stale_threads held' stale s) s)"

section \<open>What holds between the operations\<close>

text \<open>A key that names a thread by its own identifier, as registering a thread does.\<close>

definition names_thread :: "(uuid \<Rightarrow> string) \<Rightarrow> thread_key \<Rightarrow> uuid \<Rightarrow> bool" where
  "names_thread show_uuid k t \<longleftrightarrow> key_external k = Some (show_uuid t)"

text \<open>
  The session of a user exists and is that user's, and of two keys with one thread one names it.
\<close>

definition sessions_ok :: "(uuid \<Rightarrow> string) \<Rightarrow> 'n session_manager \<Rightarrow> bool" where
  "sessions_ok show_uuid s \<longleftrightarrow>
     (\<forall>u r. sessions s u = Some r \<longrightarrow> r < length (session_heap s) \<and> session_user (session_heap s ! r) = u) \<and>
     (\<forall>k k' t. thread_map s k = Some t \<longrightarrow> thread_map s k' = Some t \<longrightarrow>
        k = k' \<or> names_thread show_uuid k t \<or> names_thread show_uuid k' t)"

lemma sessions_okI:
  assumes "\<And>u r. sessions s u = Some r \<Longrightarrow> r < length (session_heap s) \<and> session_user (session_heap s ! r) = u"
    and "\<And>k k' t. thread_map s k = Some t \<Longrightarrow> thread_map s k' = Some t \<Longrightarrow>
      k = k' \<or> names_thread show_uuid k t \<or> names_thread show_uuid k' t"
  shows "sessions_ok show_uuid s"
  using assms by (auto simp: sessions_ok_def)

lemma sessions_okD:
  assumes "sessions_ok show_uuid s"
  shows "sessions s u = Some r \<Longrightarrow> r < length (session_heap s)"
    and "sessions s u = Some r \<Longrightarrow> session_user (session_heap s ! r) = u"
    and "thread_map s k = Some t \<Longrightarrow> thread_map s k' = Some t \<Longrightarrow> k = k' \<or> names_thread show_uuid k t \<or> names_thread show_uuid k' t"
  using assms by (auto simp: sessions_ok_def)

lemma new_sessions_ok: "sessions_ok show_uuid session_manager_new"
  by (simp add: sessions_ok_def session_manager_new_def)

lemma get_or_create_session_post:
  assumes "sessions_ok show_uuid s" and "get_or_create_session now fresh user s = (r, s')"
  shows "sessions s' user = Some r" and "r < length (session_heap s')" and "sessions_ok show_uuid s'"
    and "thread_map s' = thread_map s"
proof -
  show "sessions s' user = Some r" "r < length (session_heap s')" "thread_map s' = thread_map s"
    using assms by (auto simp: get_or_create_session_def sessions_okD(1) split: option.splits)
  have "\<lbrakk>sessions s' u = Some q\<rbrakk> \<Longrightarrow> q < length (session_heap s') \<and> session_user (session_heap s' ! q) = u" for u q
    using assms(2) sessions_okD(1,2) [OF assms(1), of u q]
    by (auto simp: get_or_create_session_def session_new_def nth_append split: option.splits if_splits)
  then show "sessions_ok show_uuid s'"
    using assms(1) \<open>thread_map s' = thread_map s\<close> by (simp add: sessions_ok_def)
qed

text \<open>Mapping a key to a thread that no other key has, or that it names.\<close>

lemma map_thread_ok:
  assumes "sessions_ok show_uuid s" and "names_thread show_uuid key t \<or> (\<forall>k. thread_map s k = Some t \<longrightarrow> k = key)"
  shows "sessions_ok show_uuid (map_thread key t s)"
proof (rule sessions_okI)
  fix k k' t'
  assume "thread_map (map_thread key t s) k = Some t'" and "thread_map (map_thread key t s) k' = Some t'"
  then show "k = k' \<or> names_thread show_uuid k t' \<or> names_thread show_uuid k' t'"
    using assms(2) sessions_okD(3) [OF assms(1), of k t' k'] by (auto simp: map_thread_def split: if_splits)
qed (simp add: map_thread_def sessions_okD(1,2) [OF assms(1)])

lemma sessions_ok_undo [simp]: "sessions_ok show_uuid (s\<lparr>undo_managers := m\<rparr>) = sessions_ok show_uuid s"
  by (simp add: sessions_ok_def)

text \<open>A session may change in every way but its user.\<close>

lemma session_worked_ok:
  assumes "sessions_ok show_uuid s" and "session_user sess = session_user (session_heap s ! r)"
  shows "sessions_ok show_uuid (s\<lparr>session_heap := (session_heap s)[r := sess]\<rparr>)"
proof (rule sessions_okI)
  fix u q
  assume "sessions (s\<lparr>session_heap := (session_heap s)[r := sess]\<rparr>) u = Some q"
  then show "q < length (session_heap (s\<lparr>session_heap := (session_heap s)[r := sess]\<rparr>)) \<and>
      session_user (session_heap (s\<lparr>session_heap := (session_heap s)[r := sess]\<rparr>) ! q) = u"
    using sessions_okD(1,2) [OF assms(1), of u q] assms(2) by (cases "q = r") auto
qed (use sessions_okD(3) [OF assms(1)] in simp)

lemma created_threads:
  "dom (session_threads (snd (create_thread now i channel sess))) = insert i (dom (session_threads sess))"
  "dom (session_threads (snd (create_thread_with_id now i channel sess))) = insert i (dom (session_threads sess))"
  "session_user (snd (create_thread now i channel sess)) = session_user sess"
  "session_user (snd (create_thread_with_id now i channel sess)) = session_user sess"
  by (auto simp: create_thread_def create_thread_with_id_def insert_thread_def split: option.split)

lemma resolve_create_post:
  assumes "sessions_ok show_uuid s" and "r < length (session_heap s)" and "resolve_create now fresh safe key r s = (t, s')"
  shows "sessions_ok show_uuid s'" and "session_has s' r t" and "sessions s' = sessions s" and "thread_map s' = thread_map s"
    and "t = (case safe of Some u \<Rightarrow> u | None \<Rightarrow> fresh)"
proof -
  let ?made = "case safe of Some u \<Rightarrow> create_thread_with_id now u (Some (key_channel key)) (session_heap s ! r)
            | None \<Rightarrow> create_thread now fresh (Some (key_channel key)) (session_heap s ! r)"
  have s': "s' = s\<lparr>session_heap := (session_heap s)[r := snd ?made]\<rparr>" and t: "t = fst ?made"
    using assms(3) by (auto simp: resolve_create_def split: prod.splits)
  show "t = (case safe of Some u \<Rightarrow> u | None \<Rightarrow> fresh)"
    unfolding t by (simp add: create_thread_def create_thread_with_id_def split: option.split)
  then have "dom (session_threads (snd ?made)) = insert t (dom (session_threads (session_heap s ! r)))"
      "session_user (snd ?made) = session_user (session_heap s ! r)"
    by (cases safe; simp add: created_threads)+
  then show "sessions_ok show_uuid s'" "session_has s' r t"
    using session_worked_ok [OF assms(1), of "snd ?made" r] assms(2) by (auto simp: s' session_has_def)
  show "sessions s' = sessions s" "thread_map s' = thread_map s" by (simp_all add: s')
qed

lemma resolve_new_post:
  assumes "sessions_ok show_uuid s" and "sessions s (key_user key) = Some r" and "\<not> is_mapped fresh s"
    and "resolve_new now fresh ext key r s = (t, s')"
  shows "sessions_ok show_uuid s'" and "session_has s' r t" and "sessions s' = sessions s"
    and "thread_map s' = (thread_map s)(key \<mapsto> t)"
proof -
  obtain s1 where made: "resolve_create now fresh (safe_ext_uuid ext s) key r s = (t, s1)" and s': "s' = resolve_store key t s1"
    using assms(4) by (auto simp: resolve_new_def split: prod.splits)
  note post = resolve_create_post [OF assms(1) sessions_okD(1) [OF assms(1,2)] made]
  have "\<not> is_mapped t s"
    using post(5) assms(3) by (auto simp: safe_ext_uuid_def split: option.splits if_splits)
  then have "thread_map s1 k \<noteq> Some t" for k using post(4) by (auto simp: is_mapped_def ran_def)
  then have "sessions_ok show_uuid (map_thread key t s1)"
    using post by (intro map_thread_ok) simp_all
  then show "sessions_ok show_uuid s'" by (simp add: s' resolve_store_def Let_def)
  show "session_has s' r t" "sessions s' = sessions s" "thread_map s' = (thread_map s)(key \<mapsto> t)"
    using post by (simp_all add: s' resolve_store_def map_thread_def session_has_def Let_def)
qed

text \<open>After resolving, the key has the thread that was given, and its user's session has it.\<close>

lemma resolve_post:
  assumes "sessions_ok show_uuid s" and "\<not> is_mapped fresh s"
    and "resolve_thread_with_parsed_uuid parse now fresh_session fresh key parsed s = ((r, t), s')"
  shows "sessions_ok show_uuid s' \<and> sessions s' (key_user key) = Some r \<and> thread_map s' = (thread_map s)(key \<mapsto> t) \<and> session_has s' r t"
proof -
  obtain q s1 where got: "get_or_create_session now fresh_session (key_user key) s = (q, s1)" by fastforce
  note post = get_or_create_session_post [OF assms(1) got]
  have fresh: "\<not> is_mapped fresh s1" using assms(2) post(4) by (simp add: is_mapped_def)
  define ext where "ext = (case parsed of Some u \<Rightarrow> Some u | None \<Rightarrow> Option.bind (key_external key) parse)"
  have new: "sessions_ok show_uuid s2 \<and> sessions s2 (key_user key) = Some q \<and> thread_map s2 = (thread_map s)(key \<mapsto> t') \<and> session_has s2 q t'"
    if "resolve_new now fresh ext key q s1 = (t', s2)" for t' s2
    using resolve_new_post [OF post(3,1) fresh that] post(1,4) by simp
  have run: "((r, t), s') = (case resolve_lookup ext key q s1 of
             Inl t \<Rightarrow> ((q, t), s1)
           | Inr None \<Rightarrow> (case resolve_new now fresh ext key q s1 of (t, s2) \<Rightarrow> ((q, t), s2))
           | Inr (Some u) \<Rightarrow>
               (case resolve_adopt u key q s1 of
                  (Some t, s2) \<Rightarrow> ((q, t), s2)
                | (None, s2) \<Rightarrow> (case resolve_new now fresh ext key q s2 of (t, s3) \<Rightarrow> ((q, t), s3))))"
    using assms(3) unfolding resolve_thread_with_parsed_uuid_def got prod.case Let_def ext_def by (rule sym)
  consider (found) t' where "resolve_lookup ext key q s1 = Inl t'" | (none) "resolve_lookup ext key q s1 = Inr None"
    | (adopt) u where "resolve_lookup ext key q s1 = Inr (Some u)" "session_has s1 q u" "\<not> is_mapped u s1"
    | (lost) u where "resolve_lookup ext key q s1 = Inr (Some u)" "\<not> (session_has s1 q u \<and> \<not> is_mapped u s1)"
    by (metis (no_types) option.exhaust sum.exhaust)
  then show ?thesis
  proof cases
    case found
    then have "thread_map s key = Some t'" "session_has s1 q t'"
      using post(4) by (auto simp: resolve_lookup_def Let_def split: option.splits if_splits)
    then show ?thesis using found run post by (simp add: fun_upd_idem)
  next
    case none
    then show ?thesis using run new by (auto split: prod.splits)
  next
    case adopt
    then have "sessions_ok show_uuid (map_thread key u s1)"
      using post by (intro map_thread_ok) (auto simp: is_mapped_def ran_def)
    moreover have "r = q" "t = u" "s' = ensure_undo_manager u (map_thread key u s1)"
      using adopt run by (simp_all add: resolve_adopt_def)
    ultimately show ?thesis
      using post(1,4) adopt(2) by (simp add: ensure_undo_manager_def) (simp add: map_thread_def session_has_def)
  next
    case lost
    then have "resolve_adopt u key q s1 = (None, s1)" by (auto simp: resolve_adopt_def)
    then show ?thesis using lost(1) run new by (auto split: prod.splits)
  qed
qed

lemma resolve_found:
  assumes "sessions s (key_user key) = Some r" and "thread_map s key = Some t" and "session_has s r t"
  shows "resolve_thread_with_parsed_uuid parse now fresh_session fresh key parsed s = ((r, t), s)"
  using assms by (simp add: resolve_thread_with_parsed_uuid_def get_or_create_session_def resolve_lookup_def Let_def)

lemma register_thread_ok:
  assumes "sessions_ok show_uuid s" and "r < length (session_heap s)" and "session_user (session_heap s ! r) = user"
  shows "sessions_ok show_uuid (register_thread show_uuid user channel t r s)"
proof -
  let ?k = "\<lparr>key_user = user, key_channel = channel, key_external = Some (show_uuid t)\<rparr>"
  have "sessions_ok show_uuid (map_thread ?k t s)"
    using assms(1) by (rule map_thread_ok) (simp add: names_thread_def)
  then show ?thesis
    using assms(2,3) by (auto simp: register_thread_def ensure_undo_manager_def Let_def map_thread_def sessions_ok_def split: option.split)
qed

lemma prune_ok:
  assumes "sessions_ok show_uuid s"
  shows "sessions_ok show_uuid (snd (prune_stale_sessions now max_idle held held' users s))"
proof -
  have "sessions_ok show_uuid (snd (remove_users stale threads s))" for stale threads
    using assms by (auto simp: sessions_ok_def remove_users_def)
  then show ?thesis using assms by (simp add: prune_stale_sessions_def Let_def)
qed

text \<open>
  Operations one after another. A fresh identifier is not that of a mapped thread; a thread is
  registered with a session of its user, the user's present one or not, whichever keys have the
  thread; the others change the sessions as they like, but not whose they are.
\<close>

inductive manager_step :: "(string \<Rightarrow> uuid option) \<Rightarrow> (uuid \<Rightarrow> string) \<Rightarrow> 'n session_manager \<Rightarrow> 'n session_manager \<Rightarrow> bool"
  for parse show_uuid where
  step_session: "manager_step parse show_uuid s (snd (get_or_create_session now fresh_session user s))"
| step_resolved: "\<not> is_mapped fresh s \<Longrightarrow> manager_step parse show_uuid s
     (snd (resolve_thread_with_parsed_uuid parse now fresh_session fresh key parsed s))"
| step_registered: "r < length (session_heap s) \<Longrightarrow> session_user (session_heap s ! r) = user \<Longrightarrow>
     manager_step parse show_uuid s (register_thread show_uuid user channel t r s)"
| step_undo: "manager_step parse show_uuid s (snd (get_undo_manager t s))"
| step_pruned: "manager_step parse show_uuid s (snd (prune_stale_sessions now max_idle held held' users s))"
| step_worked: "session_user sess = session_user (session_heap s ! r) \<Longrightarrow>
     manager_step parse show_uuid s (s\<lparr>session_heap := (session_heap s)[r := sess]\<rparr>)"

lemma manager_step_ok: "manager_step parse show_uuid s s' \<Longrightarrow> sessions_ok show_uuid s \<Longrightarrow> sessions_ok show_uuid s'"
proof (induction rule: manager_step.induct)
  case (step_session s now fresh_session user)
  then show ?case using get_or_create_session_post(3) by (metis prod.collapse)
next
  case (step_resolved fresh s now fresh_session key parsed)
  obtain r t s' where "resolve_thread_with_parsed_uuid parse now fresh_session fresh key parsed s = ((r, t), s')"
    by (metis surj_pair)
  from resolve_post [OF step_resolved(2,1) this] this show ?case by simp
next
  case (step_undo s t)
  then show ?case by (simp add: get_undo_manager_def split: option.split)
qed (simp_all add: prune_ok session_worked_ok register_thread_ok)

lemma manager_steps_ok: "(manager_step parse show_uuid)\<^sup>*\<^sup>* s s' \<Longrightarrow> sessions_ok show_uuid s \<Longrightarrow> sessions_ok show_uuid s'"
  by (induction rule: rtranclp_induct) (auto intro: manager_step_ok)

section \<open>Properties\<close>

text \<open>
  C13. However operations follow one another, each finished before the next, resolving a key gives it
  a thread of the session of the key's own user, and changes no other key's. Another key has that
  thread only where one of the two keys names it by its identifier, as registering a thread does.
  A key whose thread its session has gets it, and nothing changes; so asking again, whatever
  identifier comes with it, gives the same thread.
\<close>

theorem keys_keep_their_threads:
  assumes "(manager_step parse show_uuid)\<^sup>*\<^sup>* session_manager_new s" and "\<not> is_mapped fresh s"
    and "resolve_thread_with_parsed_uuid parse now fresh_session fresh key parsed s = ((r, t), s')"
  shows "sessions s' (key_user key) = Some r \<and> session_user (session_heap s' ! r) = key_user key \<and> session_has s' r t \<and>
    thread_map s' = (thread_map s)(key \<mapsto> t) \<and>
    (\<forall>k. thread_map s' k = Some t \<longrightarrow> k = key \<or> names_thread show_uuid k t \<or> names_thread show_uuid key t) \<and>
    (\<forall>r0 t0. sessions s (key_user key) = Some r0 \<and> thread_map s key = Some t0 \<and> session_has s r0 t0 \<longrightarrow> r = r0 \<and> t = t0 \<and> s' = s) \<and>
    resolve_thread_with_parsed_uuid parse now' fresh_session' fresh' key parsed' s' = ((r, t), s')"
proof -
  have "sessions_ok show_uuid s" using manager_steps_ok [OF assms(1) new_sessions_ok] .
  from resolve_post [OF this assms(2,3)]
  have post: "sessions_ok show_uuid s'" "sessions s' (key_user key) = Some r" "thread_map s' = (thread_map s)(key \<mapsto> t)" "session_has s' r t"
    by blast+
  have key: "thread_map s' key = Some t" by (simp add: post(3))
  have "\<forall>r0 t0. sessions s (key_user key) = Some r0 \<and> thread_map s key = Some t0 \<and> session_has s r0 t0 \<longrightarrow> r = r0 \<and> t = t0 \<and> s' = s"
    using resolve_found [of s key] assms(3) by auto
  moreover have "\<forall>k. thread_map s' k = Some t \<longrightarrow> k = key \<or> names_thread show_uuid k t \<or> names_thread show_uuid key t"
    using sessions_okD(3) [OF post(1) _ key] by blast
  ultimately show ?thesis
    using post(2-4) sessions_okD(2) [OF post(1,2)] resolve_found [OF post(2) key post(4)] by blast
qed

definition sample_key :: "string \<Rightarrow> thread_key" where
  "sample_key channel = \<lparr>key_user = ''ann'', key_channel = channel, key_external = None\<rparr>"

text \<open>A thread of one channel, registered on another: two keys have it, and each keeps it.\<close>

definition sample_shared :: "unit session_manager" where
  "sample_shared = register_thread (\<lambda>_. ''x'') ''ann'' ''web'' 2 0
     (snd (resolve_thread_with_parsed_uuid (\<lambda>_. None) 0 1 2 (sample_key ''cli'') None session_manager_new))"

lemmas sample_shared_defs = sample_shared_def resolve_thread_with_parsed_uuid_def get_or_create_session_def session_manager_new_def
  resolve_lookup_def sample_key_def resolve_new_def resolve_create_def safe_ext_uuid_def create_thread_def resolve_store_def
  map_thread_def session_has_def insert_thread_def session_new_def register_thread_def ensure_undo_manager_def is_mapped_def

theorem keys_keep_their_threads_witness:
  "resolve_thread_with_parsed_uuid (\<lambda>_. None) 9 8 9 (sample_key ''cli'') None sample_shared = ((0, 2), sample_shared) \<and>
   thread_map sample_shared \<lparr>key_user = ''ann'', key_channel = ''web'', key_external = Some ''x''\<rparr> = Some 2"
proof -
  have "manager_step (\<lambda>_. None) (\<lambda>_. ''x'') session_manager_new
      (snd (resolve_thread_with_parsed_uuid (\<lambda>_. None) 0 1 2 (sample_key ''cli'') None (session_manager_new :: unit session_manager)))"
    by (rule step_resolved) (simp add: is_mapped_def session_manager_new_def)
  moreover have "manager_step (\<lambda>_. None) (\<lambda>_. ''x'')
      (snd (resolve_thread_with_parsed_uuid (\<lambda>_. None) 0 1 2 (sample_key ''cli'') None (session_manager_new :: unit session_manager))) sample_shared"
    unfolding sample_shared_def by (rule step_registered) (simp_all add: sample_shared_defs Let_def)
  ultimately have steps: "(manager_step (\<lambda>_. None) (\<lambda>_. ''x''))\<^sup>*\<^sup>* session_manager_new sample_shared"
    by (meson rtranclp.rtrancl_into_rtrancl rtranclp.rtrancl_refl)
  have "\<not> is_mapped 9 sample_shared" by (auto simp: sample_shared_defs Let_def ran_def split: if_splits)
  moreover obtain r t s' where run: "resolve_thread_with_parsed_uuid (\<lambda>_. None) 7 8 9 (sample_key ''cli'') None sample_shared = ((r, t), s')"
    by (metis surj_pair)
  ultimately have kept: "\<forall>r0 t0. sessions sample_shared (key_user (sample_key ''cli'')) = Some r0 \<and> thread_map sample_shared (sample_key ''cli'') = Some t0 \<and>
      session_has sample_shared r0 t0 \<longrightarrow> r = r0 \<and> t = t0 \<and> s' = sample_shared"
    and again: "resolve_thread_with_parsed_uuid (\<lambda>_. None) 9 8 9 (sample_key ''cli'') None s' = ((r, t), s')"
    using keys_keep_their_threads [OF steps, of 9 7 8 "sample_key ''cli''" None r t s' 9 8 9 None] by blast+
  have "sessions sample_shared (key_user (sample_key ''cli'')) = Some 0 \<and> thread_map sample_shared (sample_key ''cli'') = Some 2 \<and> session_has sample_shared 0 2"
    by (simp add: sample_shared_defs Let_def)
  with kept have "r = 0" "t = 2" "s' = sample_shared" by blast+
  with again show ?thesis by (simp add: sample_shared_defs Let_def)
qed

text \<open>
  Between the check that an identifier is unmapped and the mapping of it, another resolving can
  make the same check: two channels that name one identifier at the same time both get its thread,
  so that two keys have one thread, and the second replaces the undo history of the first.
\<close>

theorem identifiers_alias_in_a_race:
  assumes "\<not> is_mapped u s" and "k1 \<noteq> k2"
    and "resolve_create now f1 (safe_ext_uuid (Some u) s) k1 r s = (t1, s1)"
    and "resolve_create now f2 (safe_ext_uuid (Some u) s) k2 r s1 = (t2, s2)"
    and "s3 = (resolve_store k1 t1 s2)\<lparr>undo_managers := (undo_managers (resolve_store k1 t1 s2))(t1 \<mapsto> m)\<rparr>"
    and "s4 = resolve_store k2 t2 s3"
  shows "t1 = u \<and> t2 = u \<and> thread_map s4 k1 = Some u \<and> thread_map s4 k2 = Some u \<and> undo_managers s4 u = Some undo_new"
proof -
  have "safe_ext_uuid (Some u) s = Some u" using assms(1) by (simp add: safe_ext_uuid_def)
  moreover from this have "t1 = u" "t2 = u"
    using assms(3,4) by (auto simp: resolve_create_def create_thread_with_id_def split: prod.splits if_splits)
  ultimately show ?thesis
    using assms(2) by (simp add: assms(5,6) resolve_store_def map_thread_def Let_def)
qed

abbreviation sample_manager :: "unit session_manager" where
  "sample_manager \<equiv> snd (get_or_create_session 0 1 ''ann'' session_manager_new)"

theorem identifiers_alias_in_a_race_witness:
  "thread_map (resolve_store (sample_key ''web'') 7 (resolve_store (sample_key ''cli'') 7
     (snd (resolve_create 0 3 (safe_ext_uuid (Some 7) sample_manager) (sample_key ''web'') 0
       (snd (resolve_create 0 2 (safe_ext_uuid (Some 7) sample_manager) (sample_key ''cli'') 0 sample_manager))))))
     (sample_key ''cli'') = Some 7"
proof -
  let ?safe = "safe_ext_uuid (Some 7) sample_manager"
  let ?s1 = "snd (resolve_create 0 2 ?safe (sample_key ''cli'') 0 sample_manager)"
  let ?s2 = "snd (resolve_create 0 3 ?safe (sample_key ''web'') 0 ?s1)"
  have "resolve_create 0 2 ?safe (sample_key ''cli'') 0 sample_manager = (7, ?s1)"
      "resolve_create 0 3 ?safe (sample_key ''web'') 0 ?s1 = (7, ?s2)"
      "\<not> is_mapped 7 sample_manager" "sample_key ''cli'' \<noteq> sample_key ''web''"
    by (simp_all add: resolve_create_def safe_ext_uuid_def is_mapped_def get_or_create_session_def session_manager_new_def
        create_thread_with_id_def sample_key_def split: prod.split)
  from identifiers_alias_in_a_race [OF this(3,4,1,2) refl refl] show ?thesis
    by (simp add: resolve_store_def map_thread_def Let_def sample_key_def)
qed

text \<open>
  A message to a thread that exists leaves its session as it was, the time of its last activity
  included. So a user who keeps writing in one thread is idle to the pruning all the same: once
  the thread is older than the limit, pruning right after a message forgets the session, the
  thread of the key and its undo history, and the next message starts a new session.
\<close>

theorem active_user_is_forgotten:
  assumes "sessions s (key_user key) = Some r" and "thread_map s key = Some t" and "session_has s r t"
    and "last_active_at (session_heap s ! r) < now - int max_idle" and "key_user key \<in> set users"
    and "s1 = snd (resolve_thread parse now fresh_session fresh key s)"
    and "s2 = snd (prune_stale_sessions now max_idle {} {} users s1)"
  shows "s1 = s \<and> sessions s2 (key_user key) = None \<and> thread_map s2 key = None \<and> undo_managers s2 t = None \<and>
    fst (get_or_create_session now' fresh' (key_user key) s2) = length (session_heap s)"
proof -
  have s1: "s1 = s" using resolve_found [OF assms(1,2,3)] by (simp add: assms(6) resolve_thread_def)
  let ?stale = "stale_users now max_idle {} users s"
  have stale: "key_user key \<in> set ?stale" using assms(1,4,5) by (simp add: stale_users_def)
  then have "?stale \<noteq> []" by (metis empty_iff empty_set)
  then have s2: "s2 = snd (remove_users ?stale (stale_threads {} ?stale s) s)"
    by (simp add: assms(7) s1 prune_stale_sessions_def Let_def)
  have "t \<in> stale_threads {} ?stale s"
    using stale assms(1,3) by (auto simp: stale_threads_def session_has_def intro!: bexI [of _ "key_user key"])
  then show ?thesis
    using stale s1 by (simp add: s2 remove_users_def get_or_create_session_def)
qed

theorem active_user_is_forgotten_witness:
  "sessions (snd (prune_stale_sessions 100 50 {} {} [''ann''] (snd (resolve_thread (\<lambda>_. None) 100 8 9 (sample_key ''cli'')
     (snd (resolve_thread_with_parsed_uuid (\<lambda>_. None) 0 1 2 (sample_key ''cli'') None
       (session_manager_new :: unit session_manager))))))) ''ann'' = None"
proof -
  let ?s = "snd (resolve_thread_with_parsed_uuid (\<lambda>_. None) 0 1 2 (sample_key ''cli'') None
       (session_manager_new :: unit session_manager))"
  have "sessions ?s (key_user (sample_key ''cli'')) = Some 0" "thread_map ?s (sample_key ''cli'') = Some 2" "session_has ?s 0 2"
      "last_active_at (session_heap ?s ! 0) < 100 - int 50" "key_user (sample_key ''cli'') \<in> set [''ann'']"
    by (simp_all add: resolve_thread_with_parsed_uuid_def get_or_create_session_def session_manager_new_def resolve_lookup_def
        sample_key_def Let_def resolve_new_def resolve_create_def safe_ext_uuid_def create_thread_def resolve_store_def
        map_thread_def session_has_def insert_thread_def session_new_def)
  from active_user_is_forgotten [OF this refl refl, where parse = "\<lambda>_. None" and fresh_session = 8 and fresh = 9]
  have "sessions (snd (prune_stale_sessions 100 50 {} {} [''ann''] (snd (resolve_thread (\<lambda>_. None) 100 8 9 (sample_key ''cli'') ?s))))
      (key_user (sample_key ''cli'')) = None" by blast
  moreover have "key_user (sample_key ''cli'') = ''ann''" by (simp add: sample_key_def)
  ultimately show ?thesis by metis
qed

end
