(* ===== verification/Redaction.thy ===== *)
theory Redaction
  imports ChatMessages
begin

text \<open>
  Hiding secrets in the arguments of tools, \<open>src/tools/redaction.rs\<close>: which keys of an object are
  sensitive, and what is left of a JSON value. The lemmas say what redaction does at every place of
  a value.
\<close>

section \<open>Sensitive keys\<close>

definition ascii_upper_char :: "nat \<Rightarrow> bool" where "ascii_upper_char c \<longleftrightarrow> 65 \<le> c \<and> c \<le> 90"

definition ascii_lower_char :: "nat \<Rightarrow> bool" where "ascii_lower_char c \<longleftrightarrow> 97 \<le> c \<and> c \<le> 122"

definition ascii_digit_char :: "nat \<Rightarrow> bool" where "ascii_digit_char c \<longleftrightarrow> 48 \<le> c \<and> c \<le> 57"

definition ascii_alpha_char :: "nat \<Rightarrow> bool" where
  "ascii_alpha_char c \<longleftrightarrow> ascii_upper_char c \<or> ascii_lower_char c"

definition word_list :: "string list \<Rightarrow> utext list" where
  "word_list ws = map utext_of ws"

definition redacted :: utext where
  "redacted = utext_of ''[REDACTED]''"

definition sensitive_exact :: "utext list" where
  "sensitive_exact = word_list [''authorization'', ''proxy-authorization'', ''cookie'', ''set-cookie'', ''x-api-key'',
     ''api-key'', ''api_key'', ''access_token'', ''refresh_token'', ''session_token'', ''id_token'', ''token'',
     ''password'', ''passwd'', ''secret'', ''client_secret'', ''private_key'', ''apikey'', ''apisecret'']"

definition sensitive_parts :: "utext list" where
  "sensitive_parts = word_list [''password'', ''passwd'', ''secret'', ''credential'', ''authorization'', ''cookie'',
     ''apikey'', ''apisecret'']"

definition token_parts :: "utext list" where "token_parts = word_list [''token'', ''jwt'']"

definition key_parts :: "utext list" where "key_parts = word_list [''key'']"

definition context_parts :: "utext list" where
  "context_parts = word_list [''auth'', ''oauth'', ''authorization'', ''api'', ''access'', ''refresh'', ''session'',
     ''bearer'', ''private'', ''client'', ''id'', ''app'', ''user'', ''application'', ''account'']"

text \<open>Where \<open>split_camel_case_key_parts\<close> cuts between two characters, seeing the one after them.\<close>

definition camel_boundary :: "nat \<Rightarrow> nat \<Rightarrow> nat option \<Rightarrow> bool" where
  "camel_boundary prev cur following \<longleftrightarrow>
     (ascii_lower_char prev \<and> ascii_upper_char cur) \<or> (ascii_alpha_char prev \<and> ascii_digit_char cur) \<or>
     (ascii_digit_char prev \<and> ascii_alpha_char cur) \<or>
     (ascii_upper_char prev \<and> ascii_upper_char cur \<and> (case following of Some n \<Rightarrow> ascii_lower_char n | None \<Rightarrow> False))"

fun split_camel_case_key_parts :: "utext \<Rightarrow> utext list" where
  "split_camel_case_key_parts [] = []"
| "split_camel_case_key_parts [c] = [[c]]"
| "split_camel_case_key_parts (c # d # cs) =
     (let parts = split_camel_case_key_parts (d # cs)
      in if camel_boundary c d (case cs of [] \<Rightarrow> None | n # _ \<Rightarrow> Some n) then [c] # parts
         else case parts of [] \<Rightarrow> [[c]] | w # ws \<Rightarrow> (c # w) # ws)"

definition tokenize_key_parts :: "utext \<Rightarrow> utext list" where
  "tokenize_key_parts key = map ascii_lower_text (concat (map split_camel_case_key_parts
     (filter (\<lambda>w. w \<noteq> []) (split_by (\<lambda>c. \<not> (ascii_alpha_char c \<or> ascii_digit_char c)) key))))"

definition has_exact :: "utext list \<Rightarrow> utext list \<Rightarrow> bool" where
  "has_exact parts candidates = list_ex (\<lambda>p. list_ex (\<lambda>c. p = c) candidates) parts"

definition strip_prefix_text :: "utext \<Rightarrow> utext \<Rightarrow> utext option" where
  "strip_prefix_text p t = (if take (length p) t = p then Some (drop (length p) t) else None)"

definition strip_suffix_text :: "utext \<Rightarrow> utext \<Rightarrow> utext option" where
  "strip_suffix_text p t =
     (if length p \<le> length t \<and> drop (length t - length p) t = p then Some (take (length t - length p) t) else None)"

definition has_candidate_or_numbered_variant :: "utext list \<Rightarrow> utext list \<Rightarrow> bool" where
  "has_candidate_or_numbered_variant parts candidates =
     list_ex (\<lambda>p. list_ex (\<lambda>c. p = c \<or>
       (case strip_prefix_text c p of None \<Rightarrow> False | Some suffix \<Rightarrow> suffix \<noteq> [] \<and> list_all ascii_digit_char suffix))
       candidates) parts"

definition has_contextual_suffix :: "utext list \<Rightarrow> utext list \<Rightarrow> bool" where
  "has_contextual_suffix parts candidates =
     list_ex (\<lambda>p. list_ex (\<lambda>c.
       (case strip_suffix_text c p of None \<Rightarrow> False | Some before \<Rightarrow> before \<noteq> [] \<and> before \<in> set context_parts))
       candidates) parts"

definition is_sensitive_key :: "utext \<Rightarrow> bool" where
  "is_sensitive_key key =
     (if ascii_lower_text key \<in> set sensitive_exact then True
      else let parts = tokenize_key_parts key
           in if parts = [] then False
              else if has_candidate_or_numbered_variant parts sensitive_parts then True
              else let has_token = has_candidate_or_numbered_variant parts token_parts;
                       has_key = has_candidate_or_numbered_variant parts key_parts
                   in if has_token \<and> has_key then True
                      else if has_contextual_suffix parts token_parts \<or> has_contextual_suffix parts key_parts then True
                      else has_exact parts context_parts \<and> (has_token \<or> has_key))"

section \<open>Redaction\<close>

fun redact_sensitive_json :: "'n json \<Rightarrow> 'n json" where
  "redact_sensitive_json (JObject kvs) =
     JObject (map (\<lambda>(k, v). (k, if is_sensitive_key k then JString redacted else redact_sensitive_json v)) kvs)"
| "redact_sensitive_json (JArray vs) = JArray (map redact_sensitive_json vs)"
| "redact_sensitive_json v = v"

text \<open>The places of a value: a path of keys and positions, and what is there.\<close>

datatype place = AtKey utext | AtIndex nat

fun json_at :: "'n json \<Rightarrow> place list \<Rightarrow> 'n json option" where
  "json_at v [] = Some v"
| "json_at (JObject kvs) (AtKey k # p) = Option.bind (map_of kvs k) (\<lambda>v. json_at v p)"
| "json_at (JArray vs) (AtIndex i # p) = (if i < length vs then json_at (vs ! i) p else None)"
| "json_at _ _ = None"

fun sensitive_place :: "place \<Rightarrow> bool" where
  "sensitive_place (AtKey k) = is_sensitive_key k"
| "sensitive_place (AtIndex _) = False"

section \<open>The parts of a key\<close>

lemmas ascii_char_defs = ascii_upper_char_def ascii_lower_char_def ascii_digit_char_def ascii_alpha_char_def

lemma camel_parts_head: "\<exists>w ws. split_camel_case_key_parts (c # cs) = (c # w) # ws"
proof (induction cs arbitrary: c)
  case (Cons d cs)
  then obtain w ws where "split_camel_case_key_parts (d # cs) = (d # w) # ws" by blast
  then show ?case by (simp add: Let_def)
qed simp

text \<open>No part has both letters and digits.\<close>

lemma camel_parts_pure:
  assumes "list_all (\<lambda>c. ascii_alpha_char c \<or> ascii_digit_char c) seg"
  shows "list_all (\<lambda>w. list_all ascii_digit_char w \<or> list_all ascii_alpha_char w) (split_camel_case_key_parts seg)"
  using assms
proof (induction seg rule: split_camel_case_key_parts.induct)
  case (3 c d cs)
  obtain w ws where parts: "split_camel_case_key_parts (d # cs) = (d # w) # ws" using camel_parts_head by blast
  have IH: "list_all (\<lambda>w. list_all ascii_digit_char w \<or> list_all ascii_alpha_char w) ((d # w) # ws)"
    using 3 parts by simp
  show ?case
  proof (cases "camel_boundary c d (case cs of [] \<Rightarrow> None | n # _ \<Rightarrow> Some n)")
    case True
    then show ?thesis using 3(2) IH parts by (auto simp: Let_def)
  next
    case False
    have "\<not> (ascii_alpha_char x \<and> ascii_digit_char x)" for x
      unfolding ascii_char_defs by linarith
    moreover have "ascii_alpha_char c = ascii_alpha_char d" "ascii_digit_char c = ascii_digit_char d"
      using False 3(2) by (auto simp: camel_boundary_def ascii_char_defs)
    ultimately show ?thesis using False IH parts by (auto simp: Let_def)
  qed
qed auto

lemma split_by_no_sep: "list_all (list_all (\<lambda>c. \<not> P c)) (split_by P t)"
  by (induction t) (auto split: list.split)

lemma lower_text_pure:
  "list_all ascii_digit_char w \<or> list_all ascii_alpha_char w \<Longrightarrow>
    list_all ascii_digit_char (ascii_lower_text w) \<or> list_all ascii_lower_char (ascii_lower_text w)"
  by (auto simp: ascii_lower_text_def list_all_iff ascii_char_defs)

lemma key_parts_pure:
  "list_all (\<lambda>w. list_all ascii_digit_char w \<or> list_all ascii_lower_char w) (tokenize_key_parts key)"
proof -
  let ?sep = "\<lambda>c. \<not> (ascii_alpha_char c \<or> ascii_digit_char c)"
  have "list_all ascii_digit_char p \<or> list_all ascii_alpha_char p"
    if "seg \<in> set (split_by ?sep key)" "p \<in> set (split_camel_case_key_parts seg)" for seg p
  proof -
    have "list_all (\<lambda>c. ascii_alpha_char c \<or> ascii_digit_char c) seg"
      using split_by_no_sep [of ?sep key] that(1) by (auto simp: list_all_iff)
    from camel_parts_pure [OF this] that(2) show ?thesis by (auto simp: list_all_iff)
  qed
  then show ?thesis by (auto simp: tokenize_key_parts_def list_all_iff [of _ "concat _"] list.pred_map intro!: lower_text_pure)
qed

lemma numbered_variant_is_exact:
  assumes "list_all (\<lambda>w. list_all ascii_digit_char w \<or> list_all ascii_lower_char w) parts"
    and "list_all (\<lambda>c. c \<noteq> [] \<and> list_all ascii_lower_char c) candidates"
  shows "has_candidate_or_numbered_variant parts candidates = list_ex (\<lambda>p. p \<in> set candidates) parts"
proof -
  have "\<not> (suffix \<noteq> [] \<and> list_all ascii_digit_char suffix)"
    if "p \<in> set parts" "c \<in> set candidates" "strip_prefix_text c p = Some suffix" for p c suffix
  proof
    assume suffix: "suffix \<noteq> [] \<and> list_all ascii_digit_char suffix"
    have p: "p = c @ suffix" using that(3) by (auto simp: strip_prefix_text_def split: if_splits) (metis append_take_drop_id)
    have "c \<noteq> []" "list_all ascii_lower_char c" using assms(2) that(2) by (auto simp: list_all_iff)
    moreover have "list_all ascii_digit_char p \<or> list_all ascii_lower_char p" using assms(1) that(1) by (auto simp: list_all_iff)
    ultimately show False using suffix p by (cases c; cases suffix) (auto simp: ascii_char_defs)
  qed
  then have "(c = p \<or> (case strip_prefix_text c p of None \<Rightarrow> False | Some suffix \<Rightarrow> suffix \<noteq> [] \<and> list_all ascii_digit_char suffix)) = (c = p)"
    if "p \<in> set parts" "c \<in> set candidates" for p c using that by (auto split: option.split)
  then show ?thesis unfolding has_candidate_or_numbered_variant_def list_ex_iff by (metis (no_types, lifting))
qed

lemma lower_candidates:
  "list_all (\<lambda>c. c \<noteq> [] \<and> list_all ascii_lower_char c) sensitive_parts"
  "list_all (\<lambda>c. c \<noteq> [] \<and> list_all ascii_lower_char c) token_parts"
  "list_all (\<lambda>c. c \<noteq> [] \<and> list_all ascii_lower_char c) key_parts"
  by (simp_all add: sensitive_parts_def token_parts_def key_parts_def word_list_def utext_of_def ascii_lower_char_def)

lemma part_variant_iff:
  assumes "list_all (\<lambda>c. c \<noteq> [] \<and> list_all ascii_lower_char c) cs"
  shows "has_candidate_or_numbered_variant (tokenize_key_parts key) cs = (set (tokenize_key_parts key) \<inter> set cs \<noteq> {})"
  using numbered_variant_is_exact [OF key_parts_pure assms, of key] by (auto simp: list_ex_iff)

lemmas part_variants = lower_candidates [THEN part_variant_iff]

lemma has_exact_iff: "has_exact parts cs = (set parts \<inter> set cs \<noteq> {})"
  by (auto simp: has_exact_def list_ex_iff)

lemma strip_suffix_iff: "strip_suffix_text c p = Some q \<longleftrightarrow> p = q @ c"
proof
  assume "strip_suffix_text c p = Some q"
  then show "p = q @ c" by (auto simp: strip_suffix_text_def split: if_splits) (metis append_take_drop_id)
qed (simp add: strip_suffix_text_def)

lemma contextual_suffix_iff:
  "has_contextual_suffix parts cs = (\<exists>ctx \<in> set context_parts. \<exists>c \<in> set cs. ctx @ c \<in> set parts)"
proof -
  have nonempty: "[] \<notin> set context_parts" by (simp add: context_parts_def word_list_def utext_of_def)
  have suffix: "(case strip_suffix_text c p of None \<Rightarrow> False | Some before \<Rightarrow> before \<noteq> [] \<and> before \<in> set context_parts) =
      (\<exists>ctx \<in> set context_parts. p = ctx @ c)" for c p
  proof (cases "strip_suffix_text c p")
    case None
    then have "p \<noteq> ctx @ c" for ctx using strip_suffix_iff [of c p ctx] by simp
    then show ?thesis using None by simp
  next
    case (Some q)
    then have "p = q @ c" using strip_suffix_iff by blast
    then show ?thesis using Some nonempty by auto
  qed
  have "has_contextual_suffix parts cs = (\<exists>p \<in> set parts. \<exists>c \<in> set cs. \<exists>ctx \<in> set context_parts. p = ctx @ c)"
    unfolding has_contextual_suffix_def list_ex_iff suffix ..
  then show ?thesis by blast
qed

section \<open>Properties\<close>

text \<open>
  A key is sensitive exactly when, in lower case, it is one of the exact keys, or one of its
  parts is a sensitive part, or it has both a token and a key part, or a part is a context followed
  by a token or key word, or it has a context part beside a token or key part. The numbered
  variants the code also looks for never occur: a part is never letters followed by digits.
\<close>

theorem sensitive_key_iff:
  "is_sensitive_key key =
    (let parts = set (tokenize_key_parts key);
         has = (\<lambda>cs. parts \<inter> set cs \<noteq> {});
         glued = (\<lambda>cs. \<exists>ctx \<in> set context_parts. \<exists>c \<in> set cs. ctx @ c \<in> parts)
     in ascii_lower_text key \<in> set sensitive_exact \<or> has sensitive_parts \<or> (has token_parts \<and> has key_parts) \<or>
        glued token_parts \<or> glued key_parts \<or> (has context_parts \<and> (has token_parts \<or> has key_parts)))"
proof (cases "tokenize_key_parts key = []")
  case True
  then show ?thesis unfolding is_sensitive_key_def Let_def by simp
next
  case False
  then show ?thesis
    unfolding is_sensitive_key_def Let_def part_variants has_exact_iff contextual_suffix_iff by argo
qed

text \<open>What a value is apart from the values inside it: the keys of an object, the length of an array, or a scalar.\<close>

datatype 'n json_node = NodeKeys "utext list" | NodeItems nat | NodeScalar "'n json"

fun node_of :: "'n json \<Rightarrow> 'n json_node" where
  "node_of (JObject kvs) = NodeKeys (map fst kvs)"
| "node_of (JArray vs) = NodeItems (length vs)"
| "node_of v = NodeScalar v"

lemma node_of_redacted: "node_of (redact_sensitive_json v) = node_of v"
  by (cases v) (auto simp: comp_def case_prod_beta)

text \<open>Redaction commutes with going to a place whose path has no sensitive key.\<close>

lemma redacted_value_at:
  "json_at (redact_sensitive_json v) p =
    (case dropWhile (\<lambda>s. \<not> sensitive_place s) p of
       [] \<Rightarrow> map_option redact_sensitive_json (json_at v p)
     | [_] \<Rightarrow> map_option (\<lambda>_. JString redacted) (json_at v p)
     | _ # _ # _ \<Rightarrow> None)"
proof (induction p arbitrary: v)
  case (Cons s p)
  define rest where "rest = dropWhile (\<lambda>s. \<not> sensitive_place s) p"
  have IH: "json_at (redact_sensitive_json w) p = (case rest of [] \<Rightarrow> map_option redact_sensitive_json (json_at w p)
     | [_] \<Rightarrow> map_option (\<lambda>_. JString redacted) (json_at w p) | _ # _ # _ \<Rightarrow> None)" for w :: "'a json"
    unfolding rest_def by (rule Cons.IH)
  have drops: "dropWhile (\<lambda>s. \<not> sensitive_place s) (s # p) = (if sensitive_place s then s # p else rest)"
    by (simp add: rest_def)
  consider (key) k kvs where "s = AtKey k" "v = JObject kvs" | (index) i vs where "s = AtIndex i" "v = JArray vs"
    | (none) "json_at v (s # p) = None" "json_at (redact_sensitive_json v) (s # p) = None"
    by (cases s; cases v) auto
  then show ?case
  proof cases
    case key
    have "map_of (map (\<lambda>(k, v). (k, if is_sensitive_key k then JString redacted else redact_sensitive_json v)) kvs) k =
        map_option (\<lambda>v. if is_sensitive_key k then JString redacted else redact_sensitive_json v) (map_of kvs k)"
      by (induction kvs) auto
    then have step: "json_at (redact_sensitive_json v) (s # p) = Option.bind (map_of kvs k)
        (\<lambda>w. json_at (if is_sensitive_key k then JString redacted else redact_sensitive_json w) p)"
      using key by (cases "map_of kvs k") simp_all
    show ?thesis
    proof (cases "is_sensitive_key k")
      case True
      then show ?thesis unfolding drops using step key by (cases p; cases "map_of kvs k") simp_all
    next
      case False
      then show ?thesis unfolding drops using step key IH by (cases "map_of kvs k") (simp_all split: list.split)
    qed
  next
    case index
    then show ?thesis unfolding drops using IH by (cases "i < length vs") (simp_all split: list.split)
  next
    case none
    then show ?thesis unfolding drops by (auto split: list.split)
  qed
qed simp

text \<open>
  C29. What redaction leaves at a place, compared with the original value alone: nothing below a
  sensitive key, the marker at the first sensitive key on the way, and at every other place the same
  scalar, an array of the same length or an object with the same keys in the same order.
\<close>

theorem redaction_at_every_place:
  "map_option node_of (json_at (redact_sensitive_json v) p) =
    (case dropWhile (\<lambda>s. \<not> sensitive_place s) p of
       [] \<Rightarrow> map_option node_of (json_at v p)
     | [_] \<Rightarrow> map_option (\<lambda>_. NodeScalar (JString redacted)) (json_at v p)
     | _ # _ # _ \<Rightarrow> None)"
  unfolding redacted_value_at
  by (simp add: option.map_comp comp_def node_of_redacted del: dropWhile_eq_Nil_conv split: list.split)

text \<open>
  The plural of a sensitive key is not sensitive: a value under \<open>credentials\<close>, \<open>passwords\<close> or
  \<open>accessTokens\<close> is left as it is, where the singular hides it.
\<close>

theorem plurals_are_not_hidden:
  "list_all (\<lambda>k. is_sensitive_key (utext_of k)) [''credential'', ''password'', ''client_secret'', ''accessToken'', ''apiKey''] \<and>
   list_all (\<lambda>k. \<not> is_sensitive_key (utext_of k)) [''credentials'', ''passwords'', ''client_secrets'', ''accessTokens'', ''apiKeys'']"
  by code_simp

end
