(* ===== verification/Chunker.thy ===== *)
theory Chunker
  imports Prelude
begin

text \<open>
  Splitting documents for the search index, \<open>src/workspace/chunker.rs\<close>. The number of words two
  neighbours share is computed in floating point; its value is a field of the configuration here.
  The lemmas show when the chunks give the document back, and when words are lost.
\<close>

section \<open>The chunker\<close>

record chunk_config =
  chunk_size :: nat
  overlap_size :: nat
  min_chunk_size :: nat

text \<open>15 percent of 800 words.\<close>

definition default_chunk_config :: chunk_config where
  "default_chunk_config = \<lparr>chunk_size = 800, overlap_size = 120, min_chunk_size = 50\<rparr>"

definition step_size :: "chunk_config \<Rightarrow> nat" where
  "step_size cfg = chunk_size cfg - overlap_size cfg"

abbreviation join_words :: "utext list \<Rightarrow> utext" where
  "join_words \<equiv> join_with 32"

text \<open>The loop of \<open>chunk_document\<close>; a step of 0 words may never end.\<close>

partial_function (option) chunk_loop :: "chunk_config \<Rightarrow> utext list \<Rightarrow> nat \<Rightarrow> utext list \<Rightarrow> utext list option" where
  "chunk_loop cfg ws start chunks =
     (if start < length ws then
        (let stop = min (start + chunk_size cfg) (length ws);
             chunk_words = take (stop - start) (drop start ws)
         in if length chunk_words < min_chunk_size cfg \<and> chunks \<noteq> []
            then Some (butlast chunks @ [last chunks @ 32 # join_words chunk_words])
            else (let chunks' = chunks @ [join_words chunk_words];
                      start' = start + step_size cfg
                  in if start' + min_chunk_size cfg \<ge> length ws \<and> stop = length ws then Some chunks'
                     else chunk_loop cfg ws start' chunks'))
      else Some chunks)"

definition chunk_document :: "utext \<Rightarrow> chunk_config \<Rightarrow> utext list option" where
  "chunk_document content cfg =
     (if content = [] then Some []
      else let ws = text_words content
           in if ws = [] then Some []
              else if length ws \<le> chunk_size cfg then Some [content]
              else chunk_loop cfg ws 0 [])"

section \<open>Giving the document back\<close>

text \<open>The words of which a chunk's predecessor had none yet.\<close>

fun without_overlap :: "nat \<Rightarrow> utext list list \<Rightarrow> utext list" where
  "without_overlap k [] = []"
| "without_overlap k (w # ws) = w @ concat (map (drop k) ws)"

lemma without_overlap_snoc: "cs \<noteq> [] \<Longrightarrow> without_overlap k (cs @ [d]) = without_overlap k cs @ drop k d"
  by (cases cs) simp_all

lemma chunk_slice: "take (min (start + n) (length ws) - start) (drop start ws) = take n (drop start ws)"
  by (cases "start + n \<le> length ws") (simp_all add: min_def)

lemma next_slice:
  assumes "k \<le> n"
  shows "take (start + k) ws @ drop k (take n (drop start ws)) = take (start + n) ws"
proof -
  have "drop k (take n (drop start ws)) = take (n - k) (drop (start + k) ws)"
    by (simp add: drop_take add.commute)
  then show ?thesis using assms by (simp add: take_add [symmetric])
qed

text \<open>A turn of the loop that neither merges nor ends.\<close>

lemma chunk_loop_turn:
  assumes "start < length ws" and "chunks = [] \<or> min_chunk_size cfg \<le> length (take (chunk_size cfg) (drop start ws))"
  shows "chunk_loop cfg ws start chunks =
    (let chunks' = chunks @ [join_words (take (chunk_size cfg) (drop start ws))]; start' = start + step_size cfg
     in if start' + min_chunk_size cfg \<ge> length ws \<and> length ws \<le> start + chunk_size cfg then Some chunks'
        else chunk_loop cfg ws start' chunks')"
proof -
  have merge: "\<not> (length (take (chunk_size cfg) (drop start ws)) < min_chunk_size cfg \<and> chunks \<noteq> [])"
    using assms(2) by (meson not_less)
  have ends: "(min (start + chunk_size cfg) (length ws) = length ws) = (length ws \<le> start + chunk_size cfg)"
    by (rule min.absorb_iff2 [symmetric])
  show ?thesis
    by (subst chunk_loop.simps) (simp only: Let_def chunk_slice assms(1) merge ends if_True if_False)
qed

lemma chunk_loop_rebuilds:
  assumes "min_chunk_size cfg \<le> overlap_size cfg" and "overlap_size cfg < chunk_size cfg"
    and "start < length ws"
    and "cs = [] \<and> start = 0 \<or>
      cs \<noteq> [] \<and> without_overlap (overlap_size cfg) cs = take (start + overlap_size cfg) ws \<and>
      start + min_chunk_size cfg < length ws"
  shows "\<exists>ds. chunk_loop cfg ws start (map join_words cs) = Some (map join_words (cs @ ds)) \<and>
    without_overlap (overlap_size cfg) (cs @ ds) = ws \<and>
    list_all (\<lambda>d. length d \<le> chunk_size cfg \<and> (\<exists>i. d = take (chunk_size cfg) (drop i ws))) ds"
  using assms(3,4)
proof (induction "length ws - start" arbitrary: start cs rule: less_induct)
  case less
  let ?d = "take (chunk_size cfg) (drop start ws)" and ?next = "start + step_size cfg"
  have covered: "without_overlap (overlap_size cfg) (cs @ [?d]) = take (?next + overlap_size cfg) ws"
    using less.prems(2) assms(2) next_slice [of "overlap_size cfg" "chunk_size cfg" start ws]
    by (auto simp: without_overlap_snoc step_size_def)
  have turn: "chunk_loop cfg ws start (map join_words cs) =
      (if ?next + min_chunk_size cfg \<ge> length ws \<and> length ws \<le> start + chunk_size cfg then Some (map join_words (cs @ [?d]))
       else chunk_loop cfg ws ?next (map join_words (cs @ [?d])))"
    using less.prems assms(1,2) by (subst chunk_loop_turn) (auto simp: Let_def)
  show ?case
  proof (cases "?next + min_chunk_size cfg \<ge> length ws \<and> length ws \<le> start + chunk_size cfg")
    case True
    then have "take (?next + overlap_size cfg) ws = ws" using assms(2) by (simp add: step_size_def)
    then show ?thesis using True turn covered by (intro exI [of _ "[?d]"]) auto
  next
    case False
    then have later: "?next + min_chunk_size cfg < length ws" using assms(1,2) by (auto simp: step_size_def)
    have "\<exists>ds. chunk_loop cfg ws ?next (map join_words (cs @ [?d])) = Some (map join_words ((cs @ [?d]) @ ds)) \<and>
        without_overlap (overlap_size cfg) ((cs @ [?d]) @ ds) = ws \<and>
        list_all (\<lambda>d. length d \<le> chunk_size cfg \<and> (\<exists>i. d = take (chunk_size cfg) (drop i ws))) ds"
      using later assms(2) covered less.prems(1) by (intro less.hyps) (auto simp: step_size_def)
    then obtain ds where "chunk_loop cfg ws ?next (map join_words (cs @ [?d])) = Some (map join_words ((cs @ [?d]) @ ds))"
        "without_overlap (overlap_size cfg) ((cs @ [?d]) @ ds) = ws"
        "list_all (\<lambda>d. length d \<le> chunk_size cfg \<and> (\<exists>i. d = take (chunk_size cfg) (drop i ws))) ds" by blast
    then show ?thesis using turn False by (intro exI [of _ "?d # ds"]) auto
  qed
qed

lemma chunk_document_long:
  assumes "chunk_size cfg < length (text_words content)"
  shows "chunk_document content cfg = chunk_loop cfg (text_words content) 0 []"
proof -
  have "content \<noteq> []" using assms by (auto simp: text_words_def)
  moreover have "text_words content \<noteq> []" using assms by (metis list.size(3) not_less_zero)
  ultimately show ?thesis using assms by (simp add: chunk_document_def Let_def)
qed

section \<open>Properties\<close>

text \<open>
  C36. When a chunk is shorter than allowed only if it is within the overlap, as in the default
  configuration, chunking a long document ends, every chunk is a run of at most \<open>chunk_size\<close> of the
  document's words, and the chunks without what each shares with the one before are the words of
  the document, each once and in order.
\<close>

theorem chunks_rebuild_document:
  assumes "min_chunk_size cfg \<le> overlap_size cfg" and "overlap_size cfg < chunk_size cfg"
    and "chunk_size cfg < length (text_words content)"
  shows "\<exists>ds. chunk_document content cfg = Some (map join_words ds) \<and>
    without_overlap (overlap_size cfg) ds = text_words content \<and>
    list_all (\<lambda>d. length d \<le> chunk_size cfg \<and> (\<exists>i. d = take (chunk_size cfg) (drop i (text_words content)))) ds"
proof -
  have "0 < length (text_words content)" using assms(3) by linarith
  from chunk_loop_rebuilds [OF assms(1,2) this, of "[]"] show ?thesis
    by (simp add: chunk_document_long [OF assms(3)])
qed

text \<open>Seven words of one letter each.\<close>

definition sample_document :: utext where
  "sample_document = utext_of ''a b c d e f g''"

lemma sample_words: "text_words sample_document = map (\<lambda>n. [n]) [97, 98, 99, 100, 101, 102, 103]"
  by (simp add: sample_document_def text_words_def utext_of_def white_space_def)

theorem chunks_rebuild_document_witness:
  "\<exists>ds. chunk_document sample_document \<lparr>chunk_size = 4, overlap_size = 2, min_chunk_size = 1\<rparr> = Some (map join_words ds) \<and>
    without_overlap 2 ds = text_words sample_document"
  using chunks_rebuild_document [of "\<lparr>chunk_size = 4, overlap_size = 2, min_chunk_size = 1\<rparr>" sample_document]
  by (auto simp: sample_words)

text \<open>
  A document that ends where its second chunk ends gets a third chunk all the same, when the
  overlap is longer than the shortest chunk: its words are the last ones of the second chunk. So
  the loop does create the duplicate at the end that its last test is meant to avoid.
\<close>

theorem trailing_chunk_repeats:
  assumes "min_chunk_size cfg < overlap_size cfg" and "2 * overlap_size cfg \<le> chunk_size cfg"
    and "length (text_words content) = chunk_size cfg + step_size cfg"
  shows "\<exists>second third. chunk_document content cfg =
      Some [join_words (take (chunk_size cfg) (text_words content)), join_words second, join_words third] \<and>
    second = drop (step_size cfg) (text_words content) \<and>
    third = drop (step_size cfg) second \<and> length third = overlap_size cfg"
proof -
  let ?ws = "text_words content" and ?n = "chunk_size cfg" and ?k = "step_size cfg"
  have sizes: "0 < ?k" "?k < ?n" "?n + ?k \<le> 3 * ?k" "?k + overlap_size cfg = ?n" "min_chunk_size cfg < ?n"
    using assms(1,2) by (simp_all add: step_size_def)
  have first: "chunk_loop cfg ?ws 0 [] = chunk_loop cfg ?ws ?k [join_words (take ?n ?ws)]"
    using assms(3) sizes by (subst chunk_loop_turn) (simp_all add: Let_def)
  have second: "chunk_loop cfg ?ws ?k [join_words (take ?n ?ws)] =
      chunk_loop cfg ?ws (2 * ?k) [join_words (take ?n ?ws), join_words (drop ?k ?ws)]"
    using assms sizes by (subst chunk_loop_turn) (simp_all add: Let_def mult_2)
  have third: "chunk_loop cfg ?ws (2 * ?k) [join_words (take ?n ?ws), join_words (drop ?k ?ws)] =
      Some [join_words (take ?n ?ws), join_words (drop ?k ?ws), join_words (drop (2 * ?k) ?ws)]"
    using assms sizes by (subst chunk_loop_turn) (simp_all add: Let_def)
  have "?n < length ?ws" using assms(3) sizes by simp
  from chunk_document_long [OF this] first second third show ?thesis
    using assms(3) sizes by (intro exI [of _ "drop ?k ?ws"] exI [of _ "drop (2 * ?k) ?ws"]) (simp add: mult_2)
qed

theorem trailing_chunk_repeats_witness:
  "chunk_document sample_document \<lparr>chunk_size = 4, overlap_size = 1, min_chunk_size = 0\<rparr> =
    Some [utext_of ''a b c d'', utext_of ''d e f g'', utext_of ''g'']"
  using trailing_chunk_repeats [of "\<lparr>chunk_size = 4, overlap_size = 1, min_chunk_size = 0\<rparr>" sample_document]
  by (auto simp: sample_words step_size_def utext_of_def)

text \<open>
  A configuration whose chunks are smaller than its smallest chunk gives one chunk, the first
  two joined, and the rest of the document is lost. \<open>with_chunk_size\<close> makes such a configuration
  of every size below the default minimum.
\<close>

theorem small_chunks_lose_the_rest:
  assumes "chunk_size cfg < min_chunk_size cfg" and "overlap_size cfg < chunk_size cfg"
    and "chunk_size cfg < length (text_words content)"
  shows "chunk_document content cfg =
    Some [join_words (take (chunk_size cfg) (text_words content)) @
      32 # join_words (take (chunk_size cfg) (drop (step_size cfg) (text_words content)))]"
proof -
  let ?ws = "text_words content"
  have step: "0 < step_size cfg" "step_size cfg \<le> chunk_size cfg" using assms(2) by (simp_all add: step_size_def)
  have "chunk_document content cfg = chunk_loop cfg ?ws (step_size cfg) [join_words (take (chunk_size cfg) ?ws)]"
    unfolding chunk_document_long [OF assms(3)] using assms(3) step by (subst chunk_loop_turn) (auto simp: Let_def)
  also have "\<dots> = Some [join_words (take (chunk_size cfg) ?ws) @ 32 # join_words (take (chunk_size cfg) (drop (step_size cfg) ?ws))]"
  proof -
    have "length (take (chunk_size cfg) (drop (step_size cfg) ?ws)) < min_chunk_size cfg" using assms(1) by simp
    then show ?thesis
      using assms(3) step by (subst chunk_loop.simps) (simp del: length_take add: Let_def chunk_slice)
  qed
  finally show ?thesis .
qed

theorem small_chunks_lose_the_rest_witness:
  "chunk_document sample_document \<lparr>chunk_size = 2, overlap_size = 0, min_chunk_size = 50\<rparr> = Some [utext_of ''a b c d'']"
  using small_chunks_lose_the_rest [of "\<lparr>chunk_size = 2, overlap_size = 0, min_chunk_size = 50\<rparr>" sample_document]
  by (simp add: sample_words step_size_def utext_of_def)

end
