(* ===== verification/Credentials.thy ===== *)
theory Credentials
  imports Prelude "HOL-Library.Word" "HOL-Library.Char_ord" "HOL-Library.List_Lexorder" "HOL-Library.Product_Lexorder"
begin

unbundle bit_operations_syntax

text \<open>
  Which stored secret goes into which request: the mappings of \<open>src/secrets/types.rs\<close> with their
  host and path patterns, and the registry and the injector of
  \<open>src/tools/wasm/credential_injector.rs\<close>. Hosts, paths and names are the bytes of their text;
  \<open>to_lowercase\<close> is that of ASCII. The lemmas show what a path pattern lets through, which of
  several credentials wins, and that the encoding of a password is what decoders expect.
\<close>

section \<open>Mappings\<close>

datatype credential_location =
  AuthorizationBearer
| AuthorizationBasic string
| HeaderLocation string "string option"
| QueryParam string
| UrlPath string

record credential_mapping =
  cm_secret_name :: string
  cm_location :: credential_location
  cm_host_patterns :: "string list"
  cm_path_patterns :: "string list"
  cm_optional :: bool

definition bearer_mapping :: "string \<Rightarrow> string \<Rightarrow> credential_mapping" where
  "bearer_mapping secret host = \<lparr>cm_secret_name = secret, cm_location = AuthorizationBearer, cm_host_patterns = [host],
     cm_path_patterns = [], cm_optional = False\<rparr>"

definition header_mapping :: "string \<Rightarrow> string \<Rightarrow> string \<Rightarrow> credential_mapping" where
  "header_mapping secret header host = \<lparr>cm_secret_name = secret, cm_location = HeaderLocation header None,
     cm_host_patterns = [host], cm_path_patterns = [], cm_optional = False\<rparr>"

definition byte_of :: "char \<Rightarrow> nat" where
  "byte_of c = of_char c"

definition hex_nibble :: "char \<Rightarrow> nat option" where
  "hex_nibble c =
     (let b = byte_of c
      in if 48 \<le> b \<and> b \<le> 57 then Some (b - 48)
         else if 97 \<le> b \<and> b \<le> 102 then Some (b - 97 + 10)
         else if 65 \<le> b \<and> b \<le> 70 then Some (b - 65 + 10)
         else None)"

fun percent_decode_bytes :: "string \<Rightarrow> string" where
  "percent_decode_bytes (c # h # l # cs) =
     (case (if c = CHR ''%'' then hex_nibble h else None, hex_nibble l) of
        (Some hi, Some lo) \<Rightarrow> char_of (16 * hi + lo) # percent_decode_bytes cs
      | _ \<Rightarrow> c # percent_decode_bytes (h # l # cs))"
| "percent_decode_bytes cs = cs"

definition is_traversal_segment :: "string \<Rightarrow> bool" where
  "is_traversal_segment segment \<longleftrightarrow>
     (let decoded = percent_decode_bytes segment in decoded \<in> {''.'', ''..''} \<or> CHR ''/'' \<in> set decoded)"

definition path_has_dot_segment :: "string \<Rightarrow> bool" where
  "path_has_dot_segment path = list_ex is_traversal_segment (split_on (CHR ''/'') path)"

definition strip_slash :: "string \<Rightarrow> string" where
  "strip_slash s = (if s \<noteq> [] \<and> last s = CHR ''/'' then butlast s else s)"

definition path_matches_prefix :: "string \<Rightarrow> string \<Rightarrow> bool" where
  "path_matches_prefix path0 prefix0 =
     (if path_has_dot_segment path0 then False
      else let path = strip_slash path0; pre = strip_slash prefix0
           in if path = pre then True
              else if length path > length pre \<and> starts_with path pre
              then path ! length pre \<in> {CHR ''/'', CHR ''?''}
              else False)"

definition match_specificity :: "string list \<Rightarrow> string \<Rightarrow> nat" where
  "match_specificity patterns path = fold max (map length (filter (path_matches_prefix path) patterns)) 0"

definition host_matches_pattern :: "string \<Rightarrow> string \<Rightarrow> bool" where
  "host_matches_pattern host0 pattern0 =
     (let host = ascii_lower host0; pattern = ascii_lower pattern0
      in if pattern = host then True
         else if CHR '':'' \<in> set pattern \<and> takeWhile (\<lambda>c. c \<noteq> CHR '':'') pattern = host then True
         else if starts_with pattern ''*.'' \<and> ends_with host (drop 2 pattern) \<and> length host > length (drop 2 pattern)
         then (let front = take (length host - length (drop 2 pattern)) host
               in ends_with front ''.'' \<or> front = [])
         else False)"

definition matches_host :: "credential_mapping \<Rightarrow> string \<Rightarrow> bool" where
  "matches_host m host = list_ex (host_matches_pattern host) (cm_host_patterns m)"

definition mapping_matches :: "credential_mapping \<Rightarrow> string \<Rightarrow> string \<Rightarrow> bool" where
  "mapping_matches m host path =
     (if \<not> matches_host m host then False
      else if cm_path_patterns m = [] then True
      else list_ex (path_matches_prefix path) (cm_path_patterns m))"

text \<open>The order of precedence: by specificity, then by name.\<close>

definition precedence :: "string \<Rightarrow> credential_mapping \<Rightarrow> nat \<times> string" where
  "precedence path m = (match_specificity (cm_path_patterns m) path, cm_secret_name m)"

section \<open>The shared registry\<close>

text \<open>The configurations of OAuth refreshing are only kept and given back.\<close>

record 'o credential_registry =
  reg_mappings :: "credential_mapping list"
  oauth_refresh :: "string \<rightharpoonup> 'o"

definition credential_registry_new :: "'o credential_registry" where
  "credential_registry_new = \<lparr>reg_mappings = [], oauth_refresh = Map.empty\<rparr>"

definition add_mappings :: "credential_mapping list \<Rightarrow> 'o credential_registry \<Rightarrow> 'o credential_registry" where
  "add_mappings ms r = r\<lparr>reg_mappings := reg_mappings r @ ms\<rparr>"

definition add_oauth_refresh_configs :: "(string \<times> 'o) list \<Rightarrow> 'o credential_registry \<Rightarrow> 'o credential_registry" where
  "add_oauth_refresh_configs cs r = r\<lparr>oauth_refresh := foldl (\<lambda>m (k, v). m(k \<mapsto> v)) (oauth_refresh r) cs\<rparr>"

definition remove_mappings_for_secrets :: "string list \<Rightarrow> 'o credential_registry \<Rightarrow> 'o credential_registry" where
  "remove_mappings_for_secrets names r =
     r\<lparr>reg_mappings := filter (\<lambda>m. cm_secret_name m \<notin> set names) (reg_mappings r),
       oauth_refresh := (\<lambda>k. if k \<in> set names then None else oauth_refresh r k)\<rparr>"

definition has_secret :: "string \<Rightarrow> 'o credential_registry \<Rightarrow> bool" where
  "has_secret name r = list_ex (\<lambda>m. cm_secret_name m = name) (reg_mappings r)"

definition has_credentials_for_host :: "string \<Rightarrow> 'o credential_registry \<Rightarrow> bool" where
  "has_credentials_for_host host r = list_ex (\<lambda>m. matches_host m host) (reg_mappings r)"

definition find_for_url :: "string \<Rightarrow> string \<Rightarrow> 'o credential_registry \<Rightarrow> credential_mapping list" where
  "find_for_url host path r = sort_key (precedence path) (filter (\<lambda>m. mapping_matches m host path) (reg_mappings r))"

definition oauth_refresh_for_secret :: "string \<Rightarrow> 'o credential_registry \<Rightarrow> 'o option" where
  "oauth_refresh_for_secret name r = oauth_refresh r name"

section \<open>Injection\<close>

datatype secret_error = SecretMissing string | SecretIsExpired | OtherSecretError string

datatype injection_error = SecretNotFound string | SecretAccessDenied string | SecretExpired string | DecryptionFailed string

record injected_credentials =
  inj_headers :: "string \<rightharpoonup> string"
  inj_query_params :: "string \<rightharpoonup> string"

definition no_credentials :: injected_credentials where
  "no_credentials = \<lparr>inj_headers = Map.empty, inj_query_params = Map.empty\<rparr>"

definition base64_alphabet :: string where
  "base64_alphabet = ''ABCDEFGHIJKLMNOPQRSTUVWXYZabcdefghijklmnopqrstuvwxyz0123456789+/''"

definition base64_char :: "8 word \<Rightarrow> char" where
  "base64_char w = base64_alphabet ! unat w"

fun base64_encode :: "8 word list \<Rightarrow> string" where
  "base64_encode [] = []"
| "base64_encode [a] = [base64_char (drop_bit 2 a), base64_char (push_bit 4 (a AND 3)), CHR ''='', CHR ''='']"
| "base64_encode [a, b] = [base64_char (drop_bit 2 a), base64_char (push_bit 4 (a AND 3) OR drop_bit 4 b),
     base64_char (push_bit 2 (b AND 15)), CHR ''='']"
| "base64_encode (a # b # c # bs) = base64_char (drop_bit 2 a) # base64_char (push_bit 4 (a AND 3) OR drop_bit 4 b) #
     base64_char (push_bit 2 (b AND 15) OR drop_bit 6 c) # base64_char (c AND 63) # base64_encode bs"

definition bytes_of :: "string \<Rightarrow> 8 word list" where
  "bytes_of s = map (\<lambda>c. word_of_nat (byte_of c)) s"

definition inject_credential :: "injected_credentials \<Rightarrow> credential_location \<Rightarrow> string \<Rightarrow> injected_credentials" where
  "inject_credential r location secret =
     (case location of
        AuthorizationBearer \<Rightarrow> r\<lparr>inj_headers := (inj_headers r)(''Authorization'' \<mapsto> ''Bearer '' @ secret)\<rparr>
      | AuthorizationBasic user \<Rightarrow> r\<lparr>inj_headers := (inj_headers r)
          (''Authorization'' \<mapsto> ''Basic '' @ base64_encode (bytes_of (user @ '':'' @ secret)))\<rparr>
      | HeaderLocation nm pre \<Rightarrow> r\<lparr>inj_headers := (inj_headers r)
          (nm \<mapsto> (case pre of Some p \<Rightarrow> p @ secret | None \<Rightarrow> secret))\<rparr>
      | QueryParam nm \<Rightarrow> r\<lparr>inj_query_params := (inj_query_params r)(nm \<mapsto> secret)\<rparr>
      | UrlPath _ \<Rightarrow> r)"

text \<open>The injector: its mappings by key, and the names of the secrets a tool may use.\<close>

record credential_injector =
  injector_mappings :: "string \<rightharpoonup> credential_mapping"
  allowed_secrets :: "string list"

definition injector_new :: "(string \<rightharpoonup> credential_mapping) \<Rightarrow> string list \<Rightarrow> credential_injector" where
  "injector_new ms allowed = \<lparr>injector_mappings = ms, allowed_secrets = allowed\<rparr>"

definition is_secret_allowed :: "credential_injector \<Rightarrow> string \<Rightarrow> bool" where
  "is_secret_allowed I nm =
     list_ex (\<lambda>pattern. let p = ascii_lower pattern; n = ascii_lower nm
       in p = n \<or> (ends_with p ''*'' \<and> starts_with n (butlast p))) (allowed_secrets I)"

definition find_credentials_for_url :: "string list \<Rightarrow> credential_injector \<Rightarrow> string \<Rightarrow> string \<Rightarrow> credential_mapping list" where
  "find_credentials_for_url ks I host path =
     sort_key (precedence path) (filter (\<lambda>m. mapping_matches m host path) (map_values ks (injector_mappings I)))"

text \<open>\<open>store\<close> gives a decrypted secret by its name, for the user of the request.\<close>

fun inject_all ::
  "credential_injector \<Rightarrow> (string \<Rightarrow> (secret_error, string) result) \<Rightarrow> credential_mapping list \<Rightarrow> injected_credentials
    \<Rightarrow> (injection_error, injected_credentials) result" where
  "inject_all I store [] r = Inr r"
| "inject_all I store (m # ms) r =
     (if \<not> is_secret_allowed I (cm_secret_name m) then Inl (SecretAccessDenied (cm_secret_name m))
      else case store (cm_secret_name m) of
        Inl (SecretMissing n) \<Rightarrow> Inl (SecretNotFound n)
      | Inl SecretIsExpired \<Rightarrow> Inl (SecretExpired (cm_secret_name m))
      | Inl (OtherSecretError e) \<Rightarrow> Inl (DecryptionFailed e)
      | Inr secret \<Rightarrow> inject_all I store ms (inject_credential r (cm_location m) secret))"

definition inject_for_url ::
  "string list \<Rightarrow> credential_injector \<Rightarrow> (string \<Rightarrow> string \<Rightarrow> (secret_error, string) result) \<Rightarrow> string \<Rightarrow> string \<Rightarrow> string
    \<Rightarrow> (injection_error, injected_credentials) result" where
  "inject_for_url ks I store user host path =
     inject_all I (store user) (find_credentials_for_url ks I host path) no_credentials"

section \<open>Paths\<close>

lemma slash_is_no_nibble [simp]: "hex_nibble (CHR ''/'') = None"
  by (simp add: hex_nibble_def byte_of_def Let_def)

lemma slash_is_no_percent [simp]: "CHR ''/'' \<noteq> CHR ''%''"
  by simp

text \<open>No escape reaches across a slash, so decoding a path decodes its segments.\<close>

lemma decode_slash: "percent_decode_bytes (w @ CHR ''/'' # r) = percent_decode_bytes w @ CHR ''/'' # percent_decode_bytes r"
proof (induction w rule: percent_decode_bytes.induct)
  case (1 c h l cs)
  then show ?case by (simp split: option.split)
next
  case "2_1"
  show ?case by (cases r rule: percent_decode_bytes.cases) (simp_all split: option.split)
next
  case "2_2"
  show ?case by (cases r rule: percent_decode_bytes.cases) (simp_all split: option.split)
next
  case "2_3"
  show ?case by (cases r rule: percent_decode_bytes.cases) (simp_all split: option.split)
qed

lemma decode_segments:
  assumes "list_all (\<lambda>w. CHR ''/'' \<notin> set (percent_decode_bytes w)) ws" and "ws \<noteq> []"
  shows "split_on (CHR ''/'') (percent_decode_bytes (join_with (CHR ''/'') ws)) = map percent_decode_bytes ws"
  using assms
proof (induction ws rule: induct_list012)
  case (2 w)
  then show ?case by (simp add: split_on_word)
next
  case (3 w v ws)
  then show ?case by (simp add: decode_slash split_on_append split_on_word)
qed simp

lemma path_matches_prefixD:
  assumes "path_matches_prefix path pre"
  shows "\<not> path_has_dot_segment path" and "\<exists>rest. path = strip_slash pre @ rest \<and> (rest = [] \<or> hd rest \<in> {CHR ''/'', CHR ''?''})"
proof -
  show "\<not> path_has_dot_segment path" using assms by (auto simp: path_matches_prefix_def split: if_splits)
  define p q where "p = strip_slash path" and "q = strip_slash pre"
  have path: "\<exists>rear. path = p @ rear \<and> rear \<in> {[], ''/''}"
    by (cases "path = []") (auto simp: p_def strip_slash_def intro: exI [of _ "''/''"] append_butlast_last_id [symmetric])
  have "p = q \<or> (length p > length q \<and> starts_with p q \<and> p ! length q \<in> {CHR ''/'', CHR ''?''})"
    using assms by (auto simp: path_matches_prefix_def p_def q_def Let_def split: if_splits)
  then show "\<exists>rest. path = strip_slash pre @ rest \<and> (rest = [] \<or> hd rest \<in> {CHR ''/'', CHR ''?''})"
  proof
    assume "p = q"
    with path show ?thesis unfolding q_def by auto
  next
    assume longer: "length p > length q \<and> starts_with p q \<and> p ! length q \<in> {CHR ''/'', CHR ''?''}"
    then have p: "p = q @ drop (length q) p" by (auto simp: starts_with_iff)
    have "hd (drop (length q) p) = p ! length q" using longer by (simp add: hd_drop_conv_nth)
    moreover have "drop (length q) p \<noteq> []" using longer by simp
    ultimately obtain c r where r: "drop (length q) p = c # r" "c \<in> {CHR ''/'', CHR ''?''}"
      using longer by (metis list.exhaust_sel)
    from path p r show ?thesis unfolding q_def by (metis append.assoc append_Cons list.sel(1))
  qed
qed

lemma no_dot_segments:
  assumes "\<not> path_has_dot_segment path"
  shows "split_on (CHR ''/'') (percent_decode_bytes path) = map percent_decode_bytes (split_on (CHR ''/'') path)"
    and "list_all (\<lambda>seg. seg \<notin> {''.'', ''..''}) (split_on (CHR ''/'') (percent_decode_bytes path))"
proof -
  have safe: "list_all (\<lambda>w. CHR ''/'' \<notin> set (percent_decode_bytes w) \<and> percent_decode_bytes w \<notin> {''.'', ''..''})
      (split_on (CHR ''/'') path)"
    using assms by (auto simp: path_has_dot_segment_def list_ex_iff list_all_iff is_traversal_segment_def Let_def)
  then have "list_all (\<lambda>w. CHR ''/'' \<notin> set (percent_decode_bytes w)) (split_on (CHR ''/'') path)"
    by (simp add: list_all_iff)
  from decode_segments [OF this split_on_ne]
  show split: "split_on (CHR ''/'') (percent_decode_bytes path) = map percent_decode_bytes (split_on (CHR ''/'') path)"
    by (simp add: join_split)
  show "list_all (\<lambda>seg. seg \<notin> {''.'', ''..''}) (split_on (CHR ''/'') (percent_decode_bytes path))"
    using safe unfolding split by (simp add: list_all_iff)
qed

lemma host_matches_pattern_iff:
  "host_matches_pattern host pattern \<longleftrightarrow>
    (let h = ascii_lower host; p = ascii_lower pattern
     in h = p \<or> (\<exists>port. p = h @ CHR '':'' # port \<and> CHR '':'' \<notin> set h) \<or>
        (\<exists>sub suffix. p = ''*.'' @ suffix \<and> h = sub @ ''.'' @ suffix))"
proof -
  define h p where "h = ascii_lower host" and "p = ascii_lower pattern"
  have port: "(CHR '':'' \<in> set p \<and> takeWhile (\<lambda>c. c \<noteq> CHR '':'') p = h) \<longleftrightarrow> (\<exists>port. p = h @ CHR '':'' # port \<and> CHR '':'' \<notin> set h)"
  proof
    assume "CHR '':'' \<in> set p \<and> takeWhile (\<lambda>c. c \<noteq> CHR '':'') p = h"
    moreover from this obtain u v where uv: "p = u @ CHR '':'' # v" "CHR '':'' \<notin> set u" by (meson split_list_first)
    moreover have "takeWhile (\<lambda>c. c \<noteq> CHR '':'') p = u"
      unfolding uv(1) using uv(2) by (subst takeWhile_append2) auto
    ultimately have "h = u" by simp
    with uv show "\<exists>port. p = h @ CHR '':'' # port \<and> CHR '':'' \<notin> set h" by simp
  next
    assume "\<exists>port. p = h @ CHR '':'' # port \<and> CHR '':'' \<notin> set h"
    then show "CHR '':'' \<in> set p \<and> takeWhile (\<lambda>c. c \<noteq> CHR '':'') p = h" by (auto simp: takeWhile_append)
  qed
  have wild: "(starts_with p ''*.'' \<and> ends_with h (drop 2 p) \<and> length h > length (drop 2 p) \<and>
      (ends_with (take (length h - length (drop 2 p)) h) ''.'' \<or> take (length h - length (drop 2 p)) h = [])) \<longleftrightarrow>
      (\<exists>sub suffix. p = ''*.'' @ suffix \<and> h = sub @ ''.'' @ suffix)" (is "?l \<longleftrightarrow> ?r")
  proof
    assume l: ?l
    then obtain suffix where p: "p = ''*.'' @ suffix" unfolding starts_with_iff by blast
    then have suffix: "drop 2 p = suffix" by simp
    with l obtain front where h: "h = front @ suffix" unfolding ends_with_iff by blast
    from l have "ends_with front ''.''" unfolding suffix unfolding h by auto
    then obtain sub where "front = sub @ ''.''" unfolding ends_with_iff by blast
    with h p show ?r by simp
  next
    assume ?r
    then obtain sub suffix where p: "p = ''*.'' @ suffix" and h: "h = sub @ ''.'' @ suffix" by blast
    have "take (length h - length suffix) h = sub @ ''.''" by (simp add: h)
    moreover have "ends_with h suffix" "ends_with (sub @ ''.'') ''.''"
      unfolding ends_with_iff h by (rule exI [of _ "sub @ ''.''"], simp) (rule exI [of _ sub], simp)
    moreover have "drop 2 p = suffix" "starts_with p ''*.''" by (simp_all add: p starts_with_def)
    ultimately show ?l by (simp add: h)
  qed
  show ?thesis
    unfolding host_matches_pattern_def Let_def h_def [symmetric] p_def [symmetric] using port wild by argo
qed

section \<open>Base 64\<close>

text \<open>The inverse of the encoding, by the positions of the alphabet.\<close>

definition base64_value :: "char \<Rightarrow> 8 word" where
  "base64_value c = word_of_nat (length (takeWhile (\<lambda>d. d \<noteq> c) base64_alphabet))"

fun base64_decode :: "string \<Rightarrow> 8 word list" where
  "base64_decode (p # q # r # s # cs) =
     (let a = base64_value p; b = base64_value q; c = base64_value r; d = base64_value s;
          one = push_bit 2 a OR drop_bit 4 b; two = push_bit 4 b OR drop_bit 2 c; three = push_bit 6 c OR d
      in if r = CHR ''='' then [one]
         else if s = CHR ''='' then [one, two]
         else one # two # three # base64_decode cs)"
| "base64_decode _ = []"

lemma base64_positions: "list_all (\<lambda>i. length (takeWhile (\<lambda>d. d \<noteq> base64_alphabet ! i) base64_alphabet) = i \<and>
    base64_alphabet ! i \<noteq> CHR ''='') [0..<64]"
  by code_simp

lemma base64_value_char:
  assumes "unat w < 64"
  shows "base64_value (base64_char w) = w" and "base64_char w \<noteq> CHR ''=''"
  using base64_positions assms by (auto simp: base64_value_def base64_char_def list_all_iff)

lemma six_bits: "take_bit 6 (w :: 8 word) = w \<Longrightarrow> unat w < 64"
proof -
  assume "take_bit 6 w = w"
  then have "unat w = take_bit 6 (unat w)" by (metis unsigned_take_bit_eq)
  moreover have "take_bit 6 (unat w) < 2 ^ 6" by (rule take_bit_nat_less_exp)
  ultimately show "unat w < 64" by simp
qed

lemma word8_eqI:
  fixes v w :: "8 word"
  assumes "bit v 0 = bit w 0" "bit v 1 = bit w 1" "bit v 2 = bit w 2" "bit v 3 = bit w 3"
    "bit v 4 = bit w 4" "bit v 5 = bit w 5" "bit v 6 = bit w 6" "bit v 7 = bit w 7"
  shows "v = w"
proof (rule bit_word_eqI)
  fix n
  assume "n < LENGTH(8)"
  then have "n \<in> {0, 1, 2, 3, 4, 5, 6, 7}" by auto
  with assms show "bit v n = bit w n" by blast
qed

lemma no_high_bits: "8 \<le> n \<Longrightarrow> \<not> bit (w :: 8 word) n"
  using bit_imp_le_length [of w n] by auto

lemma base64_groups:
  fixes a b c :: "8 word"
  shows "unat (drop_bit 2 a) < 64" "unat (push_bit 4 (a AND 3)) < 64" "unat (push_bit 4 (a AND 3) OR drop_bit 4 b) < 64"
    "unat (push_bit 2 (b AND 15)) < 64" "unat (push_bit 2 (b AND 15) OR drop_bit 6 c) < 64" "unat (c AND 63) < 64"
  by (rule six_bits, rule word8_eqI, simp_all add: bit_simps no_high_bits)+

lemma base64_bytes:
  fixes a b c :: "8 word"
  shows "push_bit 2 (drop_bit 2 a) OR drop_bit 4 (push_bit 4 (a AND 3) OR drop_bit 4 b) = a"
    and "push_bit 2 (drop_bit 2 a) OR drop_bit 4 (push_bit 4 (a AND 3)) = a"
    and "push_bit 4 (push_bit 4 (a AND 3) OR drop_bit 4 b) OR drop_bit 2 (push_bit 2 (b AND 15) OR drop_bit 6 c) = b"
    and "push_bit 4 (push_bit 4 (a AND 3) OR drop_bit 4 b) OR drop_bit 2 (push_bit 2 (b AND 15)) = b"
    and "push_bit 6 (push_bit 2 (b AND 15) OR drop_bit 6 c) OR (c AND 63) = c"
  by (rule word8_eqI, simp_all add: bit_simps no_high_bits)+


text \<open>Decoding gives the bytes back, so different passwords have different encodings.\<close>

lemma base64_roundtrip: "base64_decode (base64_encode bs) = bs"
  by (induction bs rule: base64_encode.induct)
    (simp_all only: base64_encode.simps base64_decode.simps Let_def base64_value_char base64_groups base64_bytes
      if_True if_False simp_thms)

section \<open>What is injected\<close>

text \<open>The header a credential writes.\<close>

fun header_of :: "credential_location \<Rightarrow> string \<Rightarrow> (string \<times> string) option" where
  "header_of AuthorizationBearer secret = Some (''Authorization'', ''Bearer '' @ secret)"
| "header_of (AuthorizationBasic user) secret = Some (''Authorization'', ''Basic '' @ base64_encode (bytes_of (user @ '':'' @ secret)))"
| "header_of (HeaderLocation nm pre) secret = Some (nm, case pre of Some p \<Rightarrow> p @ secret | None \<Rightarrow> secret)"
| "header_of _ secret = None"

lemma inject_header:
  "inj_headers (inject_credential r loc secret) =
    (case header_of loc secret of Some (h, v) \<Rightarrow> (inj_headers r)(h \<mapsto> v) | None \<Rightarrow> inj_headers r)"
  by (cases loc) (simp_all add: inject_credential_def)

lemma inject_all_ok:
  "inject_all I store ms r = Inr r' \<Longrightarrow> list_all (\<lambda>m. is_secret_allowed I (cm_secret_name m) \<and> is_ok (store (cm_secret_name m))) ms"
  by (induction ms arbitrary: r) (auto split: if_splits sum.splits secret_error.splits)

text \<open>Of the credentials that write one header the last one stays.\<close>

lemma inject_all_header:
  assumes "inject_all I store ms r = Inr r'" and "inj_headers r' h = Some v"
  shows "inj_headers r h = Some v \<and> list_all (\<lambda>m. \<forall>secret w. header_of (cm_location m) secret \<noteq> Some (h, w)) ms \<or>
    (\<exists>ms1 m ms2 secret. ms = ms1 @ m # ms2 \<and> store (cm_secret_name m) = Inr secret \<and> header_of (cm_location m) secret = Some (h, v) \<and>
      list_all (\<lambda>m. \<forall>secret w. header_of (cm_location m) secret \<noteq> Some (h, w)) ms2)"
  using assms(1)
proof (induction ms arbitrary: r)
  case Nil
  then show ?case using assms(2) by simp
next
  case (Cons m ms)
  then obtain secret where secret: "store (cm_secret_name m) = Inr secret"
    using inject_all_ok [OF Cons.prems] by (auto simp: is_ok_iff)
  with Cons.prems have rest: "inject_all I store ms (inject_credential r (cm_location m) secret) = Inr r'"
    by (auto split: if_splits)
  have other: "header_of (cm_location m) s' \<noteq> Some (h, w)" if "\<forall>w. header_of (cm_location m) secret \<noteq> Some (h, w)" for s' w
    using that by (cases "cm_location m") auto
  from Cons.IH [OF rest] show ?case
  proof (elim disjE exE conjE)
    assume kept: "inj_headers (inject_credential r (cm_location m) secret) h = Some v"
      and free: "list_all (\<lambda>m. \<forall>secret w. header_of (cm_location m) secret \<noteq> Some (h, w)) ms"
    show ?thesis
    proof (cases "header_of (cm_location m) secret = Some (h, v)")
      case True
      then show ?thesis using secret free
        by (intro disjI2 exI [of _ "[]"] exI [of _ m] exI [of _ ms] exI [of _ secret]) simp
    next
      case False
      then have "\<forall>w. header_of (cm_location m) secret \<noteq> Some (h, w)" and "inj_headers r h = Some v"
        using kept by (auto simp: inject_header split: option.splits if_splits)
      then show ?thesis using free other by auto
    qed
  next
    fix ms1 m' ms2 s'
    assume "ms = ms1 @ m' # ms2" "store (cm_secret_name m') = Inr s'" "header_of (cm_location m') s' = Some (h, v)"
      "list_all (\<lambda>m. \<forall>secret w. header_of (cm_location m) secret \<noteq> Some (h, w)) ms2"
    then show ?thesis by (intro disjI2 exI [of _ "m # ms1"] exI [of _ m'] exI [of _ ms2] exI [of _ s']) simp
  qed
qed

definition written_header :: "credential_location \<Rightarrow> string option" where
  "written_header loc = map_option fst (header_of loc [])"

lemma written_header_iff: "(\<forall>secret w. header_of loc secret \<noteq> Some (h, w)) \<longleftrightarrow> written_header loc \<noteq> Some h"
  by (cases loc) (auto simp: written_header_def)

lemma in_find_credentials:
  assumes "iterates ks (injector_mappings I)"
  shows "m \<in> set (find_credentials_for_url ks I host path) \<longleftrightarrow> m \<in> ran (injector_mappings I) \<and> mapping_matches m host path"
  using in_map_values_ran [OF assms] by (auto simp: find_credentials_for_url_def ran_def)

lemma sorted_key_append: "sorted (map f (xs @ x # ys)) \<Longrightarrow> y \<in> set xs \<Longrightarrow> f y \<le> f x"
  by (auto simp: sorted_append)

section \<open>Properties\<close>

text \<open>
  C20. A credential with path patterns goes only into requests below one of them: the path is the
  pattern, or continues it at a slash or question mark, and it stays there however a server reads
  it, since decoding yields neither a dot segment nor a new segment.
\<close>

theorem scoped_credential_stays_inside:
  assumes "mapping_matches m host path" and "cm_path_patterns m \<noteq> []"
  shows "(\<exists>pattern \<in> set (cm_path_patterns m). \<exists>rest. path = strip_slash pattern @ rest \<and> (rest = [] \<or> hd rest \<in> {CHR ''/'', CHR ''?''})) \<and>
    split_on (CHR ''/'') (percent_decode_bytes path) = map percent_decode_bytes (split_on (CHR ''/'') path) \<and>
    list_all (\<lambda>seg. seg \<notin> {''.'', ''..''}) (split_on (CHR ''/'') (percent_decode_bytes path))"
proof -
  obtain pattern where pattern: "pattern \<in> set (cm_path_patterns m)" "path_matches_prefix path pattern"
    using assms by (auto simp: mapping_matches_def list_ex_iff split: if_splits)
  from path_matches_prefixD(2) [OF pattern(2)] pattern(1) no_dot_segments [OF path_matches_prefixD(1) [OF pattern(2)]]
  show ?thesis by blast
qed

definition scoped_example :: credential_mapping where
  "scoped_example = \<lparr>cm_secret_name = ''read'', cm_location = AuthorizationBearer, cm_host_patterns = [''*.example.com''],
     cm_path_patterns = [''/v1/items/''], cm_optional = False\<rparr>"

theorem scoped_credential_stays_inside_witness:
  "(\<exists>pattern \<in> set (cm_path_patterns scoped_example). \<exists>rest. ''/v1/items/a%2eb'' = strip_slash pattern @ rest \<and>
      (rest = [] \<or> hd rest \<in> {CHR ''/'', CHR ''?''})) \<and>
    split_on (CHR ''/'') (percent_decode_bytes ''/v1/items/a%2eb'') =
      map percent_decode_bytes (split_on (CHR ''/'') ''/v1/items/a%2eb'') \<and>
    list_all (\<lambda>seg. seg \<notin> {''.'', ''..''}) (split_on (CHR ''/'') (percent_decode_bytes ''/v1/items/a%2eb''))"
proof (rule scoped_credential_stays_inside)
  show "mapping_matches scoped_example ''api.Example.com'' ''/v1/items/a%2eb''" by code_simp
  show "cm_path_patterns scoped_example \<noteq> []" by (simp add: scoped_example_def)
qed

text \<open>
  The injector, which in this program only tests call, fails unless every matching credential is
  allowed to the tool and available, optional or not. Each header it writes is written by a matching
  credential, and by one that no other matching credential writing this header precedes, by
  specificity and then by name. What requests get is the subject of the theory \<open>HostCredentials\<close>.
\<close>

theorem most_specific_credential_wins:
  assumes ks: "iterates ks (injector_mappings I)" and ok: "inject_for_url ks I store user host path = Inr r"
  shows "(\<forall>m \<in> ran (injector_mappings I). mapping_matches m host path \<longrightarrow>
      is_secret_allowed I (cm_secret_name m) \<and> is_ok (store user (cm_secret_name m))) \<and>
    (\<forall>h v. inj_headers r h = Some v \<longrightarrow>
      (\<exists>m \<in> ran (injector_mappings I). \<exists>secret. mapping_matches m host path \<and> store user (cm_secret_name m) = Inr secret \<and>
        header_of (cm_location m) secret = Some (h, v) \<and>
        (\<forall>m' \<in> ran (injector_mappings I). mapping_matches m' host path \<and> written_header (cm_location m') = Some h \<longrightarrow>
          precedence path m' \<le> precedence path m)))"
proof (intro conjI allI impI)
  note all = ok [unfolded inject_for_url_def] and member = in_find_credentials [OF ks]
  show "\<forall>m \<in> ran (injector_mappings I). mapping_matches m host path \<longrightarrow>
      is_secret_allowed I (cm_secret_name m) \<and> is_ok (store user (cm_secret_name m))"
    using inject_all_ok [OF all] member by (auto simp: list_all_iff)
  fix h v
  assume "inj_headers r h = Some v"
  from inject_all_header [OF all this] obtain ms1 m ms2 secret where
    ms: "find_credentials_for_url ks I host path = ms1 @ m # ms2" and
    m: "store user (cm_secret_name m) = Inr secret" "header_of (cm_location m) secret = Some (h, v)" and
    free: "list_all (\<lambda>m. written_header (cm_location m) \<noteq> Some h) ms2"
    by (auto simp: no_credentials_def written_header_iff)
  have "precedence path m' \<le> precedence path m"
    if "m' \<in> ran (injector_mappings I)" "mapping_matches m' host path" "written_header (cm_location m') = Some h" for m'
  proof -
    from that member have "m' \<in> set (ms1 @ m # ms2)" unfolding ms [symmetric] by blast
    moreover have "m' \<notin> set ms2" using that(3) free by (auto simp: list_all_iff)
    moreover have "sorted (map (precedence path) (ms1 @ m # ms2))"
      unfolding ms [symmetric] find_credentials_for_url_def by (rule sorted_sort_key)
    ultimately show ?thesis using sorted_key_append [of "precedence path" ms1 m ms2 m'] by auto
  qed
  moreover have "m \<in> ran (injector_mappings I)" "mapping_matches m host path"
    using member [of m host path] unfolding ms by simp_all
  ultimately show "\<exists>m \<in> ran (injector_mappings I). \<exists>secret. mapping_matches m host path \<and>
      store user (cm_secret_name m) = Inr secret \<and> header_of (cm_location m) secret = Some (h, v) \<and>
      (\<forall>m' \<in> ran (injector_mappings I). mapping_matches m' host path \<and> written_header (cm_location m') = Some h \<longrightarrow>
        precedence path m' \<le> precedence path m)"
    using m by blast
qed

definition injector_example :: credential_injector where
  "injector_example = injector_new
     [''all'' \<mapsto> (bearer_mapping ''general'' ''api.example.com''),
      ''some'' \<mapsto> (scoped_example\<lparr>cm_host_patterns := [''api.example.com'']\<rparr>)] [''general'', ''re*'']"

definition store_example :: "string \<Rightarrow> string \<Rightarrow> (secret_error, string) result" where
  "store_example user nm = (if nm = ''read'' then Inr ''r1'' else if nm = ''general'' then Inr ''g1'' else Inl (SecretMissing nm))"

theorem most_specific_credential_wins_witness:
  "\<exists>m \<in> ran (injector_mappings injector_example). \<exists>secret. mapping_matches m ''api.example.com'' ''/v1/items/3'' \<and>
      store_example ''u'' (cm_secret_name m) = Inr secret \<and> header_of (cm_location m) secret = Some (''Authorization'', ''Bearer r1'')"
proof -
  obtain r where r: "inject_for_url [''all'', ''some''] injector_example store_example ''u'' ''api.example.com'' ''/v1/items/3'' = Inr r"
    "inj_headers r ''Authorization'' = Some ''Bearer r1''"
  proof -
    have "case inject_for_url [''all'', ''some''] injector_example store_example ''u'' ''api.example.com'' ''/v1/items/3'' of
        Inr r \<Rightarrow> inj_headers r ''Authorization'' = Some ''Bearer r1'' | Inl _ \<Rightarrow> False" by code_simp
    then show ?thesis by (auto split: sum.splits intro: that)
  qed
  have "iterates [''all'', ''some''] (injector_mappings injector_example)"
    by (auto simp: iterates_def injector_example_def injector_new_def)
  from most_specific_credential_wins [OF this r(1)] r(2) show ?thesis by blast
qed

end
