(* ===== verification/HostCredentials.thy ===== *)
theory HostCredentials
  imports Allowlist Credentials
begin

text \<open>
  The credentials of a tool that runs in the WASM sandbox, \<open>src/tools/wasm/wrapper.rs\<close>: which secrets
  are read before it runs (with \<open>resolve_secret_for_runtime\<close> of \<open>src/auth/mod.rs\<close>), when it is refused,
  and what is put into each request it makes, up to the answer it gets. The registry of the crate's
  libraries (the URL parser, the two percent codings, JSON, the client) and the leak detector are
  arguments, as are the refreshing of OAuth tokens and the resolution of the target's addresses. The
  interceptor, which records exchanges, is left out except for the redaction of what it is given.
\<close>

section \<open>Reading a secret\<close>

text \<open>
  \<open>sa_refresh\<close> refreshes an OAuth token that is about to expire and says whether it tried,
  \<open>sa_read\<close> reads and decrypts, \<open>sa_default\<close> says whether a user may fall back to the default scope.
\<close>

record 'w secret_access =
  sa_refresh :: "string \<Rightarrow> string \<Rightarrow> 'w \<Rightarrow> bool \<times> 'w"
  sa_read :: "string \<Rightarrow> string \<Rightarrow> 'w \<Rightarrow> (secret_error, string) result \<times> 'w"
  sa_default :: "string \<Rightarrow> bool"

datatype credential_error = CredentialMissing | RefreshFailed | SecretFailure string

definition requires_authentication :: "credential_error \<Rightarrow> bool" where
  "requires_authentication e \<longleftrightarrow> e \<in> {CredentialMissing, RefreshFailed}"

datatype default_fallback = FallbackDenied | FallbackAdminOnly

definition load_secret_for_scope :: "'w secret_access \<Rightarrow> string \<Rightarrow> string \<Rightarrow> 'w \<Rightarrow> (credential_error, string) result \<times> 'w" where
  "load_secret_for_scope A user nm w =
     (case sa_refresh A user nm w of (attempted, w1) \<Rightarrow>
      case sa_read A user nm w1 of (r, w2) \<Rightarrow>
        ((case r of
            Inr secret \<Rightarrow> Inr secret
          | Inl (OtherSecretError e) \<Rightarrow> Inl (SecretFailure e)
          | Inl _ \<Rightarrow> Inl (if attempted then RefreshFailed else CredentialMissing)), w2))"

definition resolve_secret_for_runtime ::
  "'w secret_access \<Rightarrow> string \<Rightarrow> string \<Rightarrow> default_fallback \<Rightarrow> 'w \<Rightarrow> (credential_error, string) result \<times> 'w" where
  "resolve_secret_for_runtime A user nm fallback w =
     (case load_secret_for_scope A user nm w of
        (Inr secret, w1) \<Rightarrow> (Inr secret, w1)
      | (Inl e, w1) \<Rightarrow>
          if requires_authentication e \<and> fallback = FallbackAdminOnly \<and> sa_default A user
          then load_secret_for_scope A ''default'' nm w1 else (Inl e, w1))"

section \<open>Before a tool runs\<close>

record resolved_credential =
  rc_name :: string
  rc_hosts :: "string list"
  rc_paths :: "string list"
  rc_headers :: "string \<rightharpoonup> string"
  rc_query :: "string \<rightharpoonup> string"
  rc_secret :: string

definition is_url_path :: "credential_location \<Rightarrow> bool" where
  "is_url_path loc = (case loc of UrlPath _ \<Rightarrow> True | _ \<Rightarrow> False)"

definition resolved_of :: "credential_mapping \<Rightarrow> string \<Rightarrow> resolved_credential" where
  "resolved_of m secret =
     (let injected = inject_credential no_credentials (cm_location m) secret
      in \<lparr>rc_name = cm_secret_name m, rc_hosts = cm_host_patterns m, rc_paths = cm_path_patterns m,
          rc_headers = inj_headers injected, rc_query = inj_query_params injected, rc_secret = secret\<rparr>)"

text \<open>The loop over the mappings: what is resolved, and the required secrets that are not.\<close>

fun resolve_mappings ::
  "'w secret_access \<Rightarrow> string \<Rightarrow> credential_mapping list \<Rightarrow> 'w \<Rightarrow> (resolved_credential list \<times> string list) \<times> 'w" where
  "resolve_mappings A user [] w = (([], []), w)"
| "resolve_mappings A user (m # ms) w =
     (if is_url_path (cm_location m) then resolve_mappings A user ms w
      else case resolve_secret_for_runtime A user (cm_secret_name m) FallbackDenied w of
        (Inl e, w1) \<Rightarrow>
          (case resolve_mappings A user ms w1 of ((rcs, missing), w2) \<Rightarrow>
             ((rcs, if cm_optional m then missing else cm_secret_name m # missing), w2))
      | (Inr secret, w1) \<Rightarrow>
          (case resolve_mappings A user ms w1 of ((rcs, missing), w2) \<Rightarrow>
             ((if rc_headers (resolved_of m secret) = Map.empty \<and> rc_query (resolved_of m secret) = Map.empty then rcs
               else resolved_of m secret # rcs, missing), w2)))"

text \<open>\<open>creds\<close> are the credentials of the HTTP capability, if the tool has one; \<open>ks\<close> their order.\<close>

definition resolve_host_credentials ::
  "'w secret_access option \<Rightarrow> string \<Rightarrow> string list \<Rightarrow> (string \<rightharpoonup> credential_mapping) option \<Rightarrow> 'w
     \<Rightarrow> (resolved_credential list \<times> string list) \<times> 'w" where
  "resolve_host_credentials store user ks creds w =
     (case store of
        None \<Rightarrow> (([], case creds of Some ms \<Rightarrow> map cm_secret_name (filter (\<lambda>m. \<not> cm_optional m) (map_values ks ms)) | None \<Rightarrow> []), w)
      | Some A \<Rightarrow> (case creds of None \<Rightarrow> (([], []), w) | Some ms \<Rightarrow> resolve_mappings A user (map_values ks ms) w))"

fun comma_list :: "string list \<Rightarrow> string" where
  "comma_list [] = []"
| "comma_list [x] = x"
| "comma_list (x # y # xs) = x @ '', '' @ comma_list (y # xs)"

definition in_quotes :: "string \<Rightarrow> string" where
  "in_quotes s = CHR 0x27 # s @ [CHR 0x27]"

text \<open>The start of \<open>execute\<close>: a tool without a required credential is refused.\<close>

definition admit_execution :: "string \<Rightarrow> string \<Rightarrow> resolved_credential list \<times> string list \<Rightarrow> (string, resolved_credential list) result" where
  "admit_execution tool user resolution =
     (case resolution of (rcs, missing) \<Rightarrow>
        if missing \<noteq> [] then Inl (''WASM tool '' @ in_quotes tool @ '' requires credentials that are not configured for user '' @
          in_quotes user @ '': '' @ comma_list missing @
          ''. Configure the missing credentials with `ironclaw secrets set` and re-run the tool.'')
        else Inr rcs)"

section \<open>What goes into a request\<close>

text \<open>\<open>replace\<close> of a text that is not empty.\<close>

function replace_all :: "string \<Rightarrow> string \<Rightarrow> string \<Rightarrow> string" where
  "replace_all old new [] = []"
| "replace_all old new (c # cs) =
     (if old \<noteq> [] \<and> starts_with (c # cs) old then new @ replace_all old new (drop (length old) (c # cs))
      else c # replace_all old new cs)"
  by pat_completeness auto
termination by (relation "measure (\<lambda>(old, new, s). length s)") (auto simp: drop_Cons')

type_synonym url_parse = "string \<Rightarrow> (string, parsed_by_library) result"

definition extract_host_from_url :: "url_parse \<Rightarrow> string \<Rightarrow> string option" where
  "extract_host_from_url parse url =
     (case parse url of
        Inl _ \<Rightarrow> None
      | Inr u \<Rightarrow> if url_scheme u \<in> {''http'', ''https''} then map_option (\<lambda>h. ascii_lower (unbracketed h)) (url_host u) else None)"

definition extract_url_path_for_matching :: "url_parse \<Rightarrow> string \<Rightarrow> string" where
  "extract_url_path_for_matching parse url = (case parse url of Inl _ \<Rightarrow> [] | Inr u \<Rightarrow> url_path u)"

definition credential_applies :: "string \<Rightarrow> string \<Rightarrow> resolved_credential \<Rightarrow> bool" where
  "credential_applies site path c \<longleftrightarrow>
     list_ex (host_matches_pattern site) (rc_hosts c) \<and> (rc_paths c = [] \<or> list_ex (path_matches_prefix path) (rc_paths c))"

definition credential_rank :: "string \<Rightarrow> resolved_credential \<Rightarrow> nat \<times> string" where
  "credential_rank path c = (match_specificity (rc_paths c) path, rc_name c)"

text \<open>Parameters go before the fragment; \<open>encode\<close> is the percent coding of one.\<close>

definition append_query :: "(string \<Rightarrow> string) \<Rightarrow> (string \<times> string) list \<Rightarrow> string \<Rightarrow> string" where
  "append_query encode ps url =
     (if ps = [] then url
      else (let base = takeWhile (\<lambda>c. c \<noteq> CHR ''#'') url; fragment = dropWhile (\<lambda>c. c \<noteq> CHR ''#'') url
            in base @ (if CHR ''?'' \<in> set base then ''&'' else ''?'') @
               join_with (CHR ''&'') (map (\<lambda>(n, v). encode n @ ''='' @ encode v) ps) @ fragment))"

text \<open>\<open>entries\<close> lists a map.\<close>

definition add_resolved ::
  "(string \<Rightarrow> string) \<Rightarrow> ((string \<rightharpoonup> string) \<Rightarrow> (string \<times> string) list) \<Rightarrow> (string \<rightharpoonup> string) \<times> string \<Rightarrow> resolved_credential
     \<Rightarrow> (string \<rightharpoonup> string) \<times> string" where
  "add_resolved encode entries = (\<lambda>(headers, url) c. (headers ++ rc_headers c, append_query encode (entries (rc_query c)) url))"

definition inject_host_credentials ::
  "url_parse \<Rightarrow> (string \<Rightarrow> string) \<Rightarrow> ((string \<rightharpoonup> string) \<Rightarrow> (string \<times> string) list) \<Rightarrow> resolved_credential list \<Rightarrow> string
     \<Rightarrow> (string \<rightharpoonup> string) \<times> string \<Rightarrow> (string \<rightharpoonup> string) \<times> string" where
  "inject_host_credentials parse encode entries rcs site = (\<lambda>(headers, url).
     (let path = extract_url_path_for_matching parse url
      in foldl (add_resolved encode entries) (headers, url) (sort_key (credential_rank path) (filter (credential_applies site path) rcs))))"

definition inject_placeholders :: "(string \<times> string) list \<Rightarrow> string \<Rightarrow> string" where
  "inject_placeholders placeholders s = fold (\<lambda>(n, v). replace_all (''{'' @ n @ ''}'') v) placeholders s"

definition redact_credentials :: "(string \<times> string) list \<Rightarrow> resolved_credential list \<Rightarrow> string \<Rightarrow> string" where
  "redact_credentials placeholders rcs s =
     fold (\<lambda>c. if rc_secret c = [] then id else replace_all (rc_secret c) ''[REDACTED:host_credential]'') rcs
       (fold (\<lambda>(n, v). if v = [] then id else replace_all v (''[REDACTED:'' @ n @ '']'')) placeholders s)"

section \<open>A request of a tool\<close>

record wasm_request =
  wr_method :: string
  wr_url :: string
  wr_headers :: "string \<rightharpoonup> string"
  wr_body :: "string option"
  wr_zero_length :: bool
  wr_timeout :: nat

record wasm_response =
  ws_status :: nat
  ws_headers :: "string \<rightharpoonup> string"
  ws_content_length :: "nat option"
  ws_body :: string

text \<open>
  The arguments: the URL parser, the two codings, the headers of a JSON text, the text of a denial, what
  the leak detector says against a text, whether bytes are text, the validated target of a URL, the
  client, and the listing of a map.
\<close>

record 'a wasm_libs =
  wl_parse :: url_parse
  wl_decode :: "string \<Rightarrow> string option"
  wl_encode :: "string \<Rightarrow> string"
  wl_json_headers :: "string \<Rightarrow> string \<rightharpoonup> string"
  wl_denial :: "deny_reason \<Rightarrow> string"
  wl_leaks :: "string \<Rightarrow> string option"
  wl_is_text :: "string \<Rightarrow> bool"
  wl_lossy :: "string \<Rightarrow> string"
  wl_target :: "string \<Rightarrow> (string, 'a) result"
  wl_client :: "'a \<Rightarrow> wasm_request \<Rightarrow> (string, wasm_response) result"
  wl_entries :: "(string \<rightharpoonup> string) \<Rightarrow> (string \<times> string) list"

text \<open>What an instance of a tool holds: its HTTP capability, the placeholders and the credentials.\<close>

record wasm_host =
  wh_allowlist :: "endpoint_pattern list option"
  wh_max_response :: nat
  wh_placeholders :: "(string \<times> string) list"
  wh_credentials :: "resolved_credential list"

definition check_http_allowed :: "'a wasm_libs \<Rightarrow> wasm_host \<Rightarrow> string \<Rightarrow> string \<Rightarrow> string option" where
  "check_http_allowed L H url method =
     (case wh_allowlist H of
        None \<Rightarrow> Some ''HTTP capability not granted''
      | Some ps \<Rightarrow> (case allowlist_validate (wl_parse L) (wl_decode L) (validator_new ps) url method of
          Allowed \<Rightarrow> None
        | Denied why \<Rightarrow> Some (''HTTP request not allowed: Denied('' @ wl_denial L why @ '')'')))"

text \<open>\<open>n\<close> counts the requests of this execution.\<close>

definition record_http_request :: "wasm_host \<Rightarrow> nat \<Rightarrow> string option \<times> nat" where
  "record_http_request H n =
     (if wh_allowlist H = None then (Some ''HTTP capability not granted'', n)
      else (if Suc n > 50 then Some ''Too many HTTP requests in single execution (max 50)'' else None, Suc n))"

definition scan_request :: "'a wasm_libs \<Rightarrow> string \<Rightarrow> (string \<rightharpoonup> string) \<Rightarrow> string option \<Rightarrow> string option" where
  "scan_request L url headers body =
     (case wl_leaks L url of
        Some e \<Rightarrow> Some (''Potential secret leak in URL blocked: '' @ e)
      | None \<Rightarrow>
          (case List.map_filter (\<lambda>(k, v). map_option (\<lambda>e. ''Potential secret leak in header '' @ in_quotes k @ '' blocked: '' @ e) (wl_leaks L v))
              (wl_entries L headers) of
             e # _ \<Rightarrow> Some e
           | [] \<Rightarrow> (case body of
               None \<Rightarrow> None
             | Some b \<Rightarrow> map_option (\<lambda>e. ''Potential secret leak in body blocked: '' @ e) (wl_leaks L (wl_lossy L b)))))"

definition needs_content_length_zero :: "string \<Rightarrow> string list \<Rightarrow> bool" where
  "needs_content_length_zero method names \<longleftrightarrow>
     ascii_lower method \<in> {''post'', ''put'', ''patch'', ''delete''} \<and> \<not> list_ex (\<lambda>k. ascii_lower k = ''content-length'') names"

definition supported_method :: "string \<Rightarrow> bool" where
  "supported_method method \<longleftrightarrow> ascii_upper method \<in> {''GET'', ''POST'', ''PUT'', ''DELETE'', ''PATCH'', ''HEAD''}"

text \<open>Up to the client: the request and its target, or why there is none.\<close>

definition prepare_request ::
  "'a wasm_libs \<Rightarrow> wasm_host \<Rightarrow> string \<Rightarrow> string \<Rightarrow> string \<Rightarrow> string option \<Rightarrow> nat option \<Rightarrow> nat
     \<Rightarrow> (string, wasm_request \<times> 'a) result \<times> nat" where
  "prepare_request L H method url0 headers_json body timeout n =
     (let url1 = inject_placeholders (wh_placeholders H) url0
      in case check_http_allowed L H url1 method of
           Some e \<Rightarrow> (Inl (''HTTP not allowed: '' @ e), n)
         | None \<Rightarrow>
      (case record_http_request H n of
         (Some e, n1) \<Rightarrow> (Inl (''Rate limit exceeded: '' @ e), n1)
       | (None, n1) \<Rightarrow>
      (let raw = wl_json_headers L headers_json
       in case scan_request L url1 raw body of
            Some e \<Rightarrow> (Inl e, n1)
          | None \<Rightarrow>
      (let headers1 = map_option (inject_placeholders (wh_placeholders H)) \<circ> raw;
           (headers, url) = (case extract_host_from_url (wl_parse L) url1 of
              Some site \<Rightarrow> inject_host_credentials (wl_parse L) (wl_encode L) (wl_entries L) (wh_credentials H) site (headers1, url1)
            | None \<Rightarrow> (headers1, url1))
       in case wl_target L url of
            Inl e \<Rightarrow> (Inl e, n1)
          | Inr target \<Rightarrow>
              (Inr (\<lparr>wr_method = ascii_upper method, wr_url = url, wr_headers = headers, wr_body = body,
                 wr_zero_length = (body = None \<and> needs_content_length_zero method (map fst (wl_entries L headers))),
                 wr_timeout = min (case timeout of Some t \<Rightarrow> t | None \<Rightarrow> 30000) 300000\<rparr>, target), n1)))))"

definition check_response :: "'a wasm_libs \<Rightarrow> nat \<Rightarrow> wasm_response \<Rightarrow> string option" where
  "check_response L limit r =
     (case ws_content_length r of
        Some cl \<Rightarrow> if cl > limit then Some ''Response body too large'' else None
      | None \<Rightarrow> None)"

text \<open>
  \<open>http_request\<close>. What the client says against the request is shown with the secrets taken out; the
  numbers in the texts about the size of a body are left out.
\<close>

definition http_request ::
  "'a wasm_libs \<Rightarrow> wasm_host \<Rightarrow> string \<Rightarrow> string \<Rightarrow> string \<Rightarrow> string option \<Rightarrow> nat option \<Rightarrow> nat
     \<Rightarrow> (string, wasm_response) result \<times> nat" where
  "http_request L H method url headers_json body timeout n =
     (case prepare_request L H method url headers_json body timeout n of
        (Inl e, n1) \<Rightarrow> (Inl e, n1)
      | (Inr (req, target), n1) \<Rightarrow>
          (let answer =
             (if \<not> supported_method method then Inl (''Unsupported HTTP method: '' @ method)
              else case wl_client L target req of
                Inl e \<Rightarrow> Inl e
              | Inr r \<Rightarrow> (case check_response L (wh_max_response H) r of
                  Some e \<Rightarrow> Inl e
                | None \<Rightarrow>
                    if length (ws_body r) > wh_max_response H then Inl ''Response body too large''
                    else case (if wl_is_text L (ws_body r) then wl_leaks L (ws_body r) else None) of
                      Some e \<Rightarrow> Inl (''Potential secret leak in response: '' @ e)
                    | None \<Rightarrow> Inr r))
           in (case answer of Inl e \<Rightarrow> Inl (redact_credentials (wh_placeholders H) (wh_credentials H) e) | Inr r \<Rightarrow> Inr r, n1)))"

section \<open>What is resolved\<close>










section \<open>Which header is sent\<close>






section \<open>Properties\<close>








definition example_access :: "unit secret_access" where
  "example_access = \<lparr>sa_refresh = (\<lambda>_ _ w. (False, w)),
     sa_read = (\<lambda>user nm w. (if nm = ''read'' then Inr ''r1'' else if nm = ''general'' then Inr ''g1'' else Inl (SecretMissing nm), w)),
     sa_default = (\<lambda>_. False)\<rparr>"








text \<open>
  A credential for a path of the address is never read, not missed when it is required, and not in
  any request: the placeholders that are said to stand for it are never set.
\<close>

theorem path_credentials_are_dropped:
  assumes "is_url_path (cm_location m)" and "creds = [k \<mapsto> m]"
  shows "admit_execution tool user (fst (resolve_host_credentials (Some A) user [k] (Some creds) w)) = Inr [] \<and>
    snd (resolve_host_credentials (Some A) user [k] (Some creds) w) = w"
  using assms by (simp add: admit_execution_def resolve_host_credentials_def)

theorem path_credentials_are_dropped_witness:
  "admit_execution ''bot'' ''ann'' (fst (resolve_host_credentials (Some example_access) ''ann'' [''t'']
     (Some [''t'' \<mapsto> \<lparr>cm_secret_name = ''token'', cm_location = UrlPath ''{TOKEN}'', cm_host_patterns = [''api.example.com''],
       cm_path_patterns = [], cm_optional = False\<rparr>]) ())) = Inr []"
  by (rule path_credentials_are_dropped [THEN conjunct1]) (simp_all add: is_url_path_def)

text \<open>
  The redaction takes out the secret as it is stored, and so misses the header of a basic credential,
  from which the secret can be decoded.
\<close>

definition basic_example :: credential_mapping where
  "basic_example = (bearer_mapping ''pw'' ''api.example.com'')\<lparr>cm_location := AuthorizationBasic ''ann''\<rparr>"

theorem redaction_misses_basic_credentials:
  "rc_headers (resolved_of basic_example ''s3cret'') ''Authorization'' = Some ''Basic YW5uOnMzY3JldA=='' \<and>
    redact_credentials [] [resolved_of basic_example ''s3cret''] ''Basic YW5uOnMzY3JldA=='' = ''Basic YW5uOnMzY3JldA=='' \<and>
    base64_decode ''YW5uOnMzY3JldA=='' = bytes_of ''ann:s3cret''"
proof (intro conjI)
  show "rc_headers (resolved_of basic_example ''s3cret'') ''Authorization'' = Some ''Basic YW5uOnMzY3JldA==''" by code_simp
  show "redact_credentials [] [resolved_of basic_example ''s3cret''] ''Basic YW5uOnMzY3JldA=='' = ''Basic YW5uOnMzY3JldA==''" by code_simp
  show "base64_decode ''YW5uOnMzY3JldA=='' = bytes_of ''ann:s3cret''" by code_simp
qed

end
