(* ===== verification/SandboxProxy.thy ===== *)
theory SandboxProxy
  imports Credentials
begin

text \<open>
  The network proxy of the command sandbox: the domain allowlist
  (\<open>src/sandbox/proxy/allowlist.rs\<close>), the policy that decides each request (\<open>policy.rs\<close>), the
  handlers of the proxy (\<open>http.rs\<close>) and its builder (\<open>mod.rs\<close>), with the defaults of
  \<open>src/sandbox/config.rs\<close>. The URL parser, the resolver of secrets and the HTTP client are
  arguments. The lemmas show where a request may go and which credential it takes along.
\<close>

section \<open>Domains\<close>

record domain_pattern =
  pattern_text :: string
  is_wildcard :: bool
  base_domain :: string

definition domain_pattern_new :: "string \<Rightarrow> domain_pattern" where
  "domain_pattern_new p =
     (let wild = starts_with p ''*.''
      in \<lparr>pattern_text = p, is_wildcard = wild, base_domain = ascii_lower (if wild then drop 2 p else p)\<rparr>)"

definition domain_matches :: "domain_pattern \<Rightarrow> string \<Rightarrow> bool" where
  "domain_matches p host =
     (let h = ascii_lower host
      in if is_wildcard p then h = base_domain p \<or> ends_with h (''.'' @ base_domain p) else h = base_domain p)"

datatype domain_validation = DomainAllowed | DomainDenied string

fun join_texts :: "string \<Rightarrow> string list \<Rightarrow> string" where
  "join_texts sep [] = []"
| "join_texts sep [s] = s"
| "join_texts sep (s # ss) = s @ sep @ join_texts sep ss"

type_synonym domain_allowlist = "domain_pattern list"

definition domain_allowlist_new :: "string list \<Rightarrow> domain_allowlist" where
  "domain_allowlist_new domains = map domain_pattern_new domains"

definition domain_allowlist_add :: "string \<Rightarrow> domain_allowlist \<Rightarrow> domain_allowlist" where
  "domain_allowlist_add p ps = ps @ [domain_pattern_new p]"

definition domain_is_allowed :: "domain_allowlist \<Rightarrow> string \<Rightarrow> domain_validation" where
  "domain_is_allowed ps host =
     (if ps = [] then DomainDenied ''empty allowlist''
      else if list_ex (\<lambda>p. domain_matches p host) ps then DomainAllowed
      else DomainDenied (''host '' @ [CHR 0x27] @ host @ [CHR 0x27] @ '' not in allowlist: ['' @
             join_texts '', '' (map pattern_text ps) @ '']''))"

text \<open>A parsed URL: its scheme, its host when it has one, and its path.\<close>

type_synonym url_parser = "string \<Rightarrow> (string \<times> string option \<times> string) option"

definition bare_host :: "string \<Rightarrow> string" where
  "bare_host h =
     ascii_lower (if starts_with h ''['' \<and> ends_with (tl h) '']'' then butlast (tl h) else h)"

definition extract_host :: "url_parser \<Rightarrow> string \<Rightarrow> string option" where
  "extract_host parse url =
     (case parse url of None \<Rightarrow> None
      | Some (scheme, host, path) \<Rightarrow> if scheme \<notin> {''http'', ''https''} then None else map_option bare_host host)"

section \<open>Policies\<close>

datatype sandbox_policy = ReadOnly | WorkspaceWrite | FullAccess

definition allows_writes :: "sandbox_policy \<Rightarrow> bool" where
  "allows_writes p \<longleftrightarrow> p \<in> {WorkspaceWrite, FullAccess}"

definition has_full_network :: "sandbox_policy \<Rightarrow> bool" where
  "has_full_network p \<longleftrightarrow> p = FullAccess"

definition is_sandboxed :: "sandbox_policy \<Rightarrow> bool" where
  "is_sandboxed p \<longleftrightarrow> p \<noteq> FullAccess"

definition sandbox_policy_from_str :: "string \<Rightarrow> (string, sandbox_policy) result" where
  "sandbox_policy_from_str s =
     (let l = ascii_lower s
      in if l \<in> {''readonly'', ''read_only'', ''ro''} then Inr ReadOnly
         else if l \<in> {''workspacewrite'', ''workspace_write'', ''rw''} then Inr WorkspaceWrite
         else if l \<in> {''fullaccess'', ''full_access'', ''full'', ''none''} then Inr FullAccess
         else Inl (''invalid sandbox policy '' @ [CHR 0x27] @ s @ [CHR 0x27] @ '', expected '' @
           [CHR 0x27] @ ''readonly'' @ [CHR 0x27] @ '', '' @ [CHR 0x27] @ ''workspace_write'' @ [CHR 0x27] @ '', or '' @
           [CHR 0x27] @ ''full_access'' @ [CHR 0x27]))"

record network_request =
  net_method :: string
  net_url :: string
  net_host :: string
  net_path :: string

definition ascii_upper :: "string \<Rightarrow> string" where
  "ascii_upper s = map (\<lambda>c. let n = byte_of c in if 97 \<le> n \<and> n \<le> 122 then char_of (n - 32) else c) s"

definition from_url :: "url_parser \<Rightarrow> string \<Rightarrow> string \<Rightarrow> network_request option" where
  "from_url parse method url =
     (case parse url of None \<Rightarrow> None
      | Some (scheme, host, path) \<Rightarrow>
          if scheme \<notin> {''http'', ''https''} then None
          else case host of None \<Rightarrow> None
            | Some h \<Rightarrow> Some \<lparr>net_method = ascii_upper method, net_url = url, net_host = bare_host h, net_path = path\<rparr>)"

datatype network_decision = Allow | AllowWithCredentials string credential_location | Deny string

definition decision_is_allowed :: "network_decision \<Rightarrow> bool" where
  "decision_is_allowed d = (case d of Deny _ \<Rightarrow> False | _ \<Rightarrow> True)"

text \<open>\<open>max_by\<close> keeps the later of equal elements.\<close>

fun max_by_key :: "('a \<Rightarrow> 'k::linorder) \<Rightarrow> 'a list \<Rightarrow> 'a option" where
  "max_by_key f [] = None"
| "max_by_key f (x # xs) = Some (foldl (\<lambda>a b. if f a > f b then a else b) x xs)"

definition find_credential :: "credential_mapping list \<Rightarrow> string \<Rightarrow> string \<Rightarrow> credential_mapping option" where
  "find_credential ms host path = max_by_key (precedence path) (filter (\<lambda>m. mapping_matches m host path) ms)"

datatype decider =
  DefaultPolicyDecider domain_allowlist "credential_mapping list"
| AllowAllDecider
| DenyAllDecider string

fun decide :: "decider \<Rightarrow> network_request \<Rightarrow> network_decision" where
  "decide (DefaultPolicyDecider allowlist ms) req =
     (case domain_is_allowed allowlist (net_host req) of
        DomainDenied reason \<Rightarrow> Deny reason
      | DomainAllowed \<Rightarrow>
          (case find_credential ms (net_host req) (net_path req) of
             Some m \<Rightarrow> AllowWithCredentials (cm_secret_name m) (cm_location m)
           | None \<Rightarrow> Allow))"
| "decide AllowAllDecider req = Allow"
| "decide (DenyAllDecider reason) req = Deny reason"

section \<open>The proxy\<close>

text \<open>
  A request as the proxy receives it. A header value is \<open>None\<close> where \<open>to_str\<close> fails, the authority
  is its host and its text, and the body is \<open>None\<close> where collecting it fails.
\<close>

record proxy_request =
  rq_method :: string
  rq_uri :: string
  rq_authority :: "(string \<times> string) option"
  rq_headers :: "(string \<times> string option) list"
  rq_body :: "string option"

record forwarded_request =
  fw_method :: string
  fw_uri :: string
  fw_headers :: "(string \<times> string) list"
  fw_query :: "(string \<times> string) list"
  fw_body :: "string option"

datatype proxy_action =
  Refuse nat string
| Tunnel string
| Forward forwarded_request

definition hop_by_hop_headers :: "string list" where
  "hop_by_hop_headers = [''connection'', ''keep-alive'', ''proxy-authenticate'', ''proxy-authorization'', ''te'', ''trailers'',
     ''transfer-encoding'', ''upgrade'']"

definition is_hop_by_hop_header :: "string \<Rightarrow> bool" where
  "is_hop_by_hop_header nm \<longleftrightarrow> ascii_lower nm \<in> set hop_by_hop_headers"

definition copied_headers :: "(string \<times> string option) list \<Rightarrow> (string \<times> string) list" where
  "copied_headers hs = List.map_filter (\<lambda>(nm, v). if is_hop_by_hop_header nm then None else map_option (Pair nm) v) hs"

text \<open>The request builder appends headers; it does not replace one of the same name.\<close>

fun add_credential :: "credential_location \<Rightarrow> string \<Rightarrow> forwarded_request \<Rightarrow> forwarded_request" where
  "add_credential AuthorizationBearer credential f = f\<lparr>fw_headers := fw_headers f @ [(''Authorization'', ''Bearer '' @ credential)]\<rparr>"
| "add_credential (HeaderLocation nm pre) credential f =
     f\<lparr>fw_headers := fw_headers f @ [(nm, case pre of Some p \<Rightarrow> p @ credential | None \<Rightarrow> credential)]\<rparr>"
| "add_credential (QueryParam nm) credential f = f\<lparr>fw_query := fw_query f @ [(nm, credential)]\<rparr>"
| "add_credential (AuthorizationBasic user) credential f = f"
| "add_credential (UrlPath placeholder) credential f = f"

definition forward_request :: "(string \<Rightarrow> string option) \<Rightarrow> network_decision \<Rightarrow> proxy_request \<Rightarrow> proxy_action" where
  "forward_request resolve d rq =
     (let f = \<lparr>fw_method = rq_method rq, fw_uri = rq_uri rq, fw_headers = copied_headers (rq_headers rq), fw_query = [], fw_body = None\<rparr>;
          f = (case d of
                 AllowWithCredentials secret location \<Rightarrow>
                   (case resolve secret of Some credential \<Rightarrow> add_credential location credential f | None \<Rightarrow> f)
               | _ \<Rightarrow> f)
      in case rq_body rq of
           None \<Rightarrow> Refuse 500 ''Failed to read body''
         | Some body \<Rightarrow> Forward (if body \<noteq> [] then f\<lparr>fw_body := Some body\<rparr> else f))"

definition handle_connect :: "decider \<Rightarrow> proxy_request \<Rightarrow> proxy_action" where
  "handle_connect D rq =
     (case rq_authority rq of
        None \<Rightarrow> Refuse 400 ''Missing host''
      | Some (host, target) \<Rightarrow>
          (case decide D \<lparr>net_method = ''CONNECT'', net_url = ''https://'' @ host, net_host = host, net_path = ''/''\<rparr> of
             Deny reason \<Rightarrow> Refuse 403 reason
           | _ \<Rightarrow> Tunnel target))"

definition handle_proxy_request :: "url_parser \<Rightarrow> (string \<Rightarrow> string option) \<Rightarrow> decider \<Rightarrow> proxy_request \<Rightarrow> proxy_action" where
  "handle_proxy_request parse resolve D rq =
     (if rq_method rq = ''CONNECT'' then handle_connect D rq
      else case from_url parse (rq_method rq) (rq_uri rq) of
        None \<Rightarrow> Refuse 400 ''Invalid URL''
      | Some req \<Rightarrow>
          (case decide D req of
             Deny reason \<Rightarrow> Refuse 403 reason
           | d \<Rightarrow> forward_request resolve d rq))"

text \<open>What comes back: the client's answer, or why there is none.\<close>

record proxy_response =
  rs_status :: nat
  rs_headers :: "(string \<times> string) list"
  rs_body :: string

datatype client_error = SendFailed string | BodyUnreadable

definition error_response :: "nat \<Rightarrow> string \<Rightarrow> proxy_response" where
  "error_response code reason = \<lparr>rs_status = code, rs_headers = [(''Content-Type'', ''text/plain'')], rs_body = reason\<rparr>"

definition relay :: "(client_error, proxy_response) result \<Rightarrow> proxy_response" where
  "relay answer =
     (case answer of
        Inr r \<Rightarrow> r\<lparr>rs_headers := filter (\<lambda>(nm, v). \<not> is_hop_by_hop_header nm) (rs_headers r)\<rparr>
      | Inl BodyUnreadable \<Rightarrow> error_response 502 ''Failed to read response''
      | Inl (SendFailed e) \<Rightarrow> error_response 502 (''Request failed: '' @ e))"

definition respond :: "(forwarded_request \<Rightarrow> (client_error, proxy_response) result) \<Rightarrow> proxy_action \<Rightarrow> proxy_response" where
  "respond client a =
     (case a of
        Refuse code reason \<Rightarrow> error_response code reason
      | Tunnel _ \<Rightarrow> \<lparr>rs_status = 200, rs_headers = [], rs_body = []\<rparr>
      | Forward f \<Rightarrow> relay (client f))"

text \<open>
  The client is an argument: the requests it sends for the one it is given, in their order, and what
  it answers in the end. It is built with the default policy for redirects, so after the first request
  it may follow redirects to any address; nothing looks at those.
\<close>

type_synonym http_client = "forwarded_request \<Rightarrow> forwarded_request list \<times> (client_error, proxy_response) result"

record proxy_exchange =
  px_tunnel :: "string option"
  px_sent :: "forwarded_request list"
  px_response :: proxy_response

definition handle_exchange :: "url_parser \<Rightarrow> (string \<Rightarrow> string option) \<Rightarrow> http_client \<Rightarrow> decider \<Rightarrow> proxy_request \<Rightarrow> proxy_exchange" where
  "handle_exchange parse resolve client D rq =
     (let a = handle_proxy_request parse resolve D rq
      in \<lparr>px_tunnel = (case a of Tunnel target \<Rightarrow> Some target | _ \<Rightarrow> None),
          px_sent = (case a of Forward f \<Rightarrow> fst (client f) | _ \<Rightarrow> []),
          px_response = respond (snd \<circ> client) a\<rparr>)"

section \<open>Building it\<close>

definition default_allowlist :: "string list" where
  "default_allowlist = [''crates.io'', ''static.crates.io'', ''index.crates.io'', ''registry.npmjs.org'', ''proxy.golang.org'',
     ''pypi.org'', ''files.pythonhosted.org'', ''docs.rs'', ''doc.rust-lang.org'', ''nodejs.org'', ''go.dev'', ''docs.python.org'',
     ''github.com'', ''raw.githubusercontent.com'', ''api.github.com'', ''codeload.github.com'', ''api.openai.com'',
     ''api.anthropic.com'', ''api.near.ai'']"

definition default_credential_mappings :: "credential_mapping list" where
  "default_credential_mappings = [bearer_mapping ''OPENAI_API_KEY'' ''api.openai.com'',
     header_mapping ''ANTHROPIC_API_KEY'' ''x-api-key'' ''api.anthropic.com'', bearer_mapping ''NEARAI_API_KEY'' ''api.near.ai'']"

record proxy_builder =
  pb_allowlist :: "string list"
  pb_mappings :: "credential_mapping list"
  pb_policy :: sandbox_policy

definition proxy_builder_new :: proxy_builder where
  "proxy_builder_new = \<lparr>pb_allowlist = default_allowlist, pb_mappings = default_credential_mappings, pb_policy = ReadOnly\<rparr>"

definition proxy_from_config :: "string list \<Rightarrow> sandbox_policy \<Rightarrow> proxy_builder" where
  "proxy_from_config allowlist policy = \<lparr>pb_allowlist = allowlist, pb_mappings = default_credential_mappings, pb_policy = policy\<rparr>"

definition allow_domain :: "string \<Rightarrow> proxy_builder \<Rightarrow> proxy_builder" where
  "allow_domain d b = b\<lparr>pb_allowlist := pb_allowlist b @ [d]\<rparr>"

definition build_decider :: "proxy_builder \<Rightarrow> decider" where
  "build_decider b =
     (if has_full_network (pb_policy b) then AllowAllDecider
      else DefaultPolicyDecider (domain_allowlist_new (pb_allowlist b)) (pb_mappings b))"

section \<open>Lemmas\<close>

lemma last_insort_key:
  "sorted (map f xs) \<Longrightarrow> last (insort_key f x xs) = (if xs = [] \<or> f x > f (last xs) then x else last xs)"
proof (induction xs)
  case (Cons y xs)
  show ?case
  proof (cases "f x \<le> f y")
    case True
    have "f y \<le> f (last (y # xs))" using Cons.prems by (cases xs rule: rev_cases) auto
    with True show ?thesis by auto
  next
    case False
    then show ?thesis using Cons by (cases "xs = []") auto
  qed
qed simp

lemma max_by_key_last: "max_by_key f xs = (if xs = [] then None else Some (last (sort_key f xs)))"
proof (induction xs rule: induct_list012)
  case (3 x y zs)
  define g where "g = (\<lambda>a b. if f a > f b then a else b)"
  have assoc: "foldl g (g x y) zs = g x (foldl g y zs)" for x y zs
    by (induction zs arbitrary: x y) (auto simp: g_def)
  have "foldl g y zs = last (sort_key f (y # zs))" using 3 by (simp add: g_def)
  then have "max_by_key f (x # y # zs) = Some (g x (last (sort_key f (y # zs))))"
    using assoc [of x y zs] by (simp add: g_def)
  moreover have "last (sort_key f (x # y # zs)) = g x (last (sort_key f (y # zs)))"
    using last_insort_key [of f "sort_key f (y # zs)" x] sorted_sort_key [of f "y # zs"] by (auto simp: g_def)
  ultimately show ?case by simp
qed simp_all

lemma sorted_key_last: "sorted (map f xs) \<Longrightarrow> x \<in> set xs \<Longrightarrow> f x \<le> f (last xs)"
  by (induction xs rule: rev_induct) (auto simp: sorted_append)

lemma max_by_key_greatest:
  assumes "max_by_key f xs = Some m"
  shows "m \<in> set xs" and "x \<in> set xs \<Longrightarrow> f x \<le> f m"
proof -
  have m: "xs \<noteq> []" "m = last (sort_key f xs)" using assms by (simp_all add: max_by_key_last split: if_splits)
  then show "m \<in> set xs" using last_in_set [of "sort_key f xs"] by (metis set_empty set_sort)
  show "f x \<le> f m" if "x \<in> set xs" using sorted_key_last [of f "sort_key f xs" x] that m(2) by simp
qed

text \<open>The domains a pattern stands for.\<close>

definition domain_allows :: "string \<Rightarrow> string \<Rightarrow> bool" where
  "domain_allows d host \<longleftrightarrow>
     (if starts_with d ''*.''
      then ascii_lower host = ascii_lower (drop 2 d) \<or> (\<exists>sub. ascii_lower host = sub @ ''.'' @ ascii_lower (drop 2 d))
      else ascii_lower host = ascii_lower d)"

lemma domain_matches_iff: "domain_matches (domain_pattern_new d) host \<longleftrightarrow> domain_allows d host"
  by (auto simp: domain_matches_def domain_pattern_new_def domain_allows_def Let_def ends_with_iff)

lemma domain_is_allowed_iff:
  "domain_is_allowed (domain_allowlist_new ds) host = DomainAllowed \<longleftrightarrow> (\<exists>d \<in> set ds. domain_allows d host)"
  by (auto simp: domain_is_allowed_def domain_allowlist_new_def domain_matches_iff list_ex_iff)

lemma decide_sandboxed:
  assumes "is_sandboxed (pb_policy b)"
  shows "decide (build_decider b) req =
    (case domain_is_allowed (domain_allowlist_new (pb_allowlist b)) (net_host req) of
       DomainDenied reason \<Rightarrow> Deny reason
     | DomainAllowed \<Rightarrow> (case find_credential (pb_mappings b) (net_host req) (net_path req) of
         Some m \<Rightarrow> AllowWithCredentials (cm_secret_name m) (cm_location m) | None \<Rightarrow> Allow))"
  using assms by (simp add: build_decider_def is_sandboxed_def has_full_network_def)

lemma add_credential_body: "(add_credential loc credential f)\<lparr>fw_body := b\<rparr> = add_credential loc credential (f\<lparr>fw_body := b\<rparr>)"
  by (cases loc) simp_all

text \<open>The request as it came, without the headers that concern the connection only.\<close>

definition plain_request :: "proxy_request \<Rightarrow> string \<Rightarrow> forwarded_request" where
  "plain_request rq body = \<lparr>fw_method = rq_method rq, fw_uri = rq_uri rq, fw_headers = copied_headers (rq_headers rq), fw_query = [],
     fw_body = (if body \<noteq> [] then Some body else None)\<rparr>"

lemma forward_request_eq:
  "forward_request resolve d rq =
    (case rq_body rq of None \<Rightarrow> Refuse 500 ''Failed to read body''
     | Some body \<Rightarrow> Forward
         (case d of AllowWithCredentials secret location \<Rightarrow>
            (case resolve secret of Some credential \<Rightarrow> add_credential location credential (plain_request rq body) | None \<Rightarrow> plain_request rq body)
          | _ \<Rightarrow> plain_request rq body))"
  by (auto simp: forward_request_def plain_request_def Let_def add_credential_body split: option.split network_decision.split)

section \<open>Properties\<close>

lemma proxy_action_allowed:
  assumes "is_sandboxed (pb_policy b)"
  shows "case handle_proxy_request parse resolve (build_decider b) rq of
      Refuse code reason \<Rightarrow> code \<in> {400, 403, 500}
    | Tunnel target \<Rightarrow> rq_method rq = ''CONNECT'' \<and>
        (\<exists>host. rq_authority rq = Some (host, target) \<and> (\<exists>d \<in> set (pb_allowlist b). domain_allows d host))
    | Forward f \<Rightarrow> (\<exists>scheme host url_path body. parse (rq_uri rq) = Some (scheme, Some host, url_path) \<and> rq_body rq = Some body \<and>
        scheme \<in> {''http'', ''https''} \<and> (\<exists>d \<in> set (pb_allowlist b). domain_allows d (bare_host host)) \<and>
        (f = plain_request rq body \<or>
         (\<exists>m \<in> set (pb_mappings b). \<exists>secret. mapping_matches m (bare_host host) url_path \<and> resolve (cm_secret_name m) = Some secret \<and>
            (\<forall>m' \<in> set (pb_mappings b). mapping_matches m' (bare_host host) url_path \<longrightarrow> precedence url_path m' \<le> precedence url_path m) \<and>
            f = add_credential (cm_location m) secret (plain_request rq body))))"
proof (cases "rq_method rq = ''CONNECT''")
  case True
  then show ?thesis
    by (auto simp: handle_proxy_request_def handle_connect_def decide_sandboxed [OF assms] domain_is_allowed_iff
        split: option.split network_decision.split domain_validation.splits option.splits)
next
  case False
  show ?thesis
  proof (cases "from_url parse (rq_method rq) (rq_uri rq)")
    case None
    then show ?thesis using False by (simp add: handle_proxy_request_def)
  next
    case (Some req)
    then obtain scheme host where url: "parse (rq_uri rq) = Some (scheme, Some host, net_path req)" "scheme \<in> {''http'', ''https''}"
      "net_host req = bare_host host"
      by (auto simp: from_url_def split: option.splits if_splits)
    have handled: "handle_proxy_request parse resolve (build_decider b) rq =
        (case decide (build_decider b) req of Deny reason \<Rightarrow> Refuse 403 reason | d \<Rightarrow> forward_request resolve d rq)"
      using False Some by (simp add: handle_proxy_request_def)
    show ?thesis
    proof (cases "domain_is_allowed (domain_allowlist_new (pb_allowlist b)) (net_host req)")
      case (DomainDenied reason)
      then show ?thesis by (simp add: handled decide_sandboxed [OF assms])
    next
      case DomainAllowed
      then have allowed: "\<exists>d \<in> set (pb_allowlist b). domain_allows d (bare_host host)"
        using domain_is_allowed_iff url(3) by simp
      show ?thesis
      proof (cases "find_credential (pb_mappings b) (net_host req) (net_path req)")
        case None
        then show ?thesis using DomainAllowed url allowed
          by (auto simp: handled decide_sandboxed [OF assms] forward_request_eq split: option.split)
      next
        case (Some m)
        note best = max_by_key_greatest [OF Some [unfolded find_credential_def url(3)]]
        have "m \<in> set (pb_mappings b)" "mapping_matches m (bare_host host) (net_path req)" using best(1) by simp_all
        moreover have "\<forall>m' \<in> set (pb_mappings b). mapping_matches m' (bare_host host) (net_path req) \<longrightarrow>
            precedence (net_path req) m' \<le> precedence (net_path req) m"
          using best(2) by simp
        ultimately show ?thesis using DomainAllowed Some url allowed
          by (auto simp: handled decide_sandboxed [OF assms] forward_request_eq split: option.split)
      qed
    qed
  qed
qed

text \<open>
  C8. With a sandboxed policy the proxy itself lets nothing through but to allowed domains. It opens a
  tunnel only to an authority whose host the allowlist names. To its HTTP client it hands at most one
  request: the one that came, less the headers of its connection, to an HTTP URL on an allowed host,
  with at most one credential added, the secret of a mapping made for this host and path, and of these
  the one that comes last by specificity and name. All that is sent is that request and the redirects
  the client follows from it, and these are not checked; without redirects everything goes to allowed
  domains. That a client starts with the request it is given is what its documentation says.
\<close>

theorem proxy_forwards_only_allowed:
  assumes sandboxed: "is_sandboxed (pb_policy b)" and starts: "\<And>f. \<exists>redirects. fst (client f) = f # redirects"
  shows "let x = handle_exchange parse resolve client (build_decider b) rq
    in
        (\<forall>target. px_tunnel x = Some target \<longrightarrow> px_sent x = [] \<and> rq_method rq = ''CONNECT'' \<and>
          (\<exists>host. rq_authority rq = Some (host, target) \<and> (\<exists>d \<in> set (pb_allowlist b). domain_allows d host))) \<and>
        (\<forall>f redirects. px_sent x = f # redirects \<longrightarrow> fst (client f) = f # redirects \<and> px_response x = relay (snd (client f)) \<and>
          (\<exists>scheme host url_path body. parse (rq_uri rq) = Some (scheme, Some host, url_path) \<and> rq_body rq = Some body \<and>
            scheme \<in> {''http'', ''https''} \<and> (\<exists>d \<in> set (pb_allowlist b). domain_allows d (bare_host host)) \<and>
            (f = plain_request rq body \<or>
             (\<exists>m \<in> set (pb_mappings b). \<exists>secret. mapping_matches m (bare_host host) url_path \<and> resolve (cm_secret_name m) = Some secret \<and>
                (\<forall>m' \<in> set (pb_mappings b). mapping_matches m' (bare_host host) url_path \<longrightarrow> precedence url_path m' \<le> precedence url_path m) \<and>
                f = add_credential (cm_location m) secret (plain_request rq body))))) \<and>
        (px_tunnel x = None \<and> px_sent x = [] \<longrightarrow> rs_status (px_response x) \<in> {400, 403, 500})"
proof (cases "handle_proxy_request parse resolve (build_decider b) rq")
  case (Refuse code reason)
  then show ?thesis using proxy_action_allowed [OF sandboxed, where parse = parse and resolve = resolve and rq = rq]
    by (simp add: handle_exchange_def Let_def respond_def error_response_def)
next
  case (Tunnel target)
  then show ?thesis using proxy_action_allowed [OF sandboxed, where parse = parse and resolve = resolve and rq = rq] by (simp add: handle_exchange_def Let_def)
next
  case (Forward f)
  obtain redirects where sent: "fst (client f) = f # redirects" using starts by blast
  then show ?thesis using Forward proxy_action_allowed [OF sandboxed, where parse = parse and resolve = resolve and rq = rq]
    by (simp add: handle_exchange_def respond_def Let_def sent)
qed

definition proxy_example :: proxy_builder where
  "proxy_example = proxy_from_config [''*.example.com'', ''api.openai.com''] WorkspaceWrite"

definition parse_example :: url_parser where
  "parse_example url = Some (''https'', Some ''api.openai.com'', ''/v1/chat'')"

definition request_example :: proxy_request where
  "request_example = \<lparr>rq_method = ''POST'', rq_uri = ''https://api.openai.com/v1/chat'', rq_authority = None,
     rq_headers = [(''Connection'', Some ''close''), (''Accept'', Some ''*/*'')], rq_body = Some ''{}''\<rparr>"

text \<open>A client that follows the redirect of every answer, to an address of the server's choice.\<close>

definition follows_to :: "string \<Rightarrow> http_client" where
  "follows_to location f = ([f, f\<lparr>fw_uri := location\<rparr>], Inr \<lparr>rs_status = 200, rs_headers = [], rs_body = location\<rparr>)"

theorem proxy_forwards_only_allowed_witness:
  "\<exists>f redirects. px_sent (handle_exchange parse_example (\<lambda>_. Some ''k'') (follows_to ''https://evil.example/'') (build_decider proxy_example)
      request_example) = f # redirects \<and>
    (f = plain_request request_example ''{}'' \<or>
     (\<exists>m \<in> set (pb_mappings proxy_example). \<exists>secret. mapping_matches m ''api.openai.com'' ''/v1/chat'' \<and>
        f = add_credential (cm_location m) secret (plain_request request_example ''{}'')))"
proof -
  have sandboxed: "is_sandboxed (pb_policy proxy_example)" by code_simp
  have host: "bare_host ''api.openai.com'' = ''api.openai.com''" by code_simp
  have body: "rq_body request_example = Some ''{}''" by (simp add: request_example_def)
  define x where "x = handle_exchange parse_example (\<lambda>_. Some ''k'') (follows_to ''https://evil.example/'') (build_decider proxy_example) request_example"
  have "px_sent x \<noteq> []" unfolding x_def by code_simp
  then obtain f redirects where sent: "px_sent x = f # redirects" by (cases "px_sent x") auto
  have starts: "\<exists>redirects. fst (follows_to ''https://evil.example/'' f) = f # redirects" for f by (simp add: follows_to_def)
  note proxy_forwards_only_allowed [OF sandboxed starts, where parse = parse_example and resolve = "\<lambda>_. Some ''k''" and rq = request_example, folded x_def]
  then show ?thesis unfolding x_def [symmetric] using sent
    by (fastforce simp: Let_def host parse_example_def body)
qed

text \<open>
  A redirect leaves the allowlist: the request goes on to a host no pattern allows, and its answer
  comes back into the sandbox.
\<close>

theorem redirects_leave_the_allowlist:
  "\<not> (\<exists>d \<in> set (pb_allowlist proxy_example). domain_allows d ''evil.example'') \<and>
   (case handle_exchange parse_example (\<lambda>_. Some ''k'') (follows_to ''https://evil.example/'') (build_decider proxy_example) request_example of
      x \<Rightarrow> map fw_uri (px_sent x) = [''https://api.openai.com/v1/chat'', ''https://evil.example/''] \<and>
        rs_body (px_response x) = ''https://evil.example/'')"
proof
  have "domain_is_allowed (domain_allowlist_new (pb_allowlist proxy_example)) ''evil.example'' \<noteq> DomainAllowed" by code_simp
  then show "\<not> (\<exists>d \<in> set (pb_allowlist proxy_example). domain_allows d ''evil.example'')" by (simp add: domain_is_allowed_iff)
qed code_simp

text \<open>
  The proxy and the registry agree on which credential a request gets: the one the proxy adds
  is the last of those the registry lists for the same mappings, so the one that stays when they
  are applied in order.
\<close>

theorem proxy_agrees_with_registry:
  "find_credential ms host url_path =
    (let found = find_for_url host url_path \<lparr>reg_mappings = ms, oauth_refresh = configs\<rparr>
     in if found = [] then None else Some (last found))"
  by (simp add: find_credential_def find_for_url_def max_by_key_last Let_def flip: set_empty)

end
