(* ===== verification/SandboxRuns.thy ===== *)
theory SandboxRuns
  imports SandboxProxy
begin

text \<open>
  Running commands in the sandbox: the container runner (\<open>src/sandbox/container.rs\<close>) and the
  manager that starts the proxy, connects to Docker and retries (\<open>src/sandbox/manager.rs\<close>). Docker,
  the host and the clock answer through arguments; what the calls do to them is a state of its own.
  Texts are the bytes of their UTF-8 form. The lemmas show which commands can reach the host, how
  every container is confined, what a call leaves behind and what of the output it keeps.
\<close>

section \<open>Configuration and errors\<close>

record sandbox_config =
  sc_enabled :: bool
  sc_policy :: sandbox_policy
  sc_allow_full_access :: bool
  sc_timeout :: duration
  sc_memory_limit_mb :: "64 word"
  sc_cpu_shares :: "32 word"
  sc_network_allowlist :: "string list"
  sc_image :: string
  sc_auto_pull_image :: bool
  sc_proxy_port :: "16 word"

definition default_sandbox_config :: sandbox_config where
  "default_sandbox_config = \<lparr>sc_enabled = True, sc_policy = ReadOnly, sc_allow_full_access = False, sc_timeout = secs 120,
     sc_memory_limit_mb = 2048, sc_cpu_shares = 1024, sc_network_allowlist = default_allowlist, sc_image = ''ironclaw-worker:latest'',
     sc_auto_pull_image = True, sc_proxy_port = 0\<rparr>"

record resource_limits =
  memory_bytes :: "64 word"
  cpu_shares :: "32 word"
  run_timeout :: duration
  max_output_bytes :: nat

datatype sandbox_error =
  DockerNotAvailable string
| ContainerCreationFailed string
| ContainerStartFailed string
| ExecutionFailed string
| SandboxTimeout duration
| ResourceLimitExceeded string string
| ProxyError string
| NetworkBlocked string
| CredentialInjectionFailed string string
| DockerError string
| SandboxIo string
| SandboxConfigError string

definition is_transient_sandbox_error :: "sandbox_error \<Rightarrow> bool" where
  "is_transient_sandbox_error e =
     (case e of DockerNotAvailable _ \<Rightarrow> True | ContainerCreationFailed _ \<Rightarrow> True | ContainerStartFailed _ \<Rightarrow> True | _ \<Rightarrow> False)"

section \<open>Output\<close>

record container_output =
  co_exit_code :: int
  co_stdout :: string
  co_stderr :: string
  co_duration :: duration
  co_truncated :: bool

definition floor_char_boundary :: "string \<Rightarrow> nat \<Rightarrow> nat" where
  "floor_char_boundary s pos = (if pos \<ge> length s then length s else char_boundary s pos)"

definition append_with_limit :: "string \<Rightarrow> string \<Rightarrow> nat \<Rightarrow> bool \<times> string" where
  "append_with_limit buffer t limit =
     (if t = [] then (False, buffer)
      else if length buffer \<ge> limit then (True, buffer)
      else let remaining = limit - length buffer
           in if length t \<le> remaining then (False, buffer @ t)
              else (True, buffer @ take (floor_char_boundary t remaining) t))"

text \<open>What the log stream yields; the message of an output event is its decoded text.\<close>

datatype log_event = LogStdOut string | LogStdErr string | LogOther | LogError

fun collect_from :: "nat \<Rightarrow> log_event list \<Rightarrow> string \<times> string \<times> bool \<Rightarrow> string \<times> string \<times> bool" where
  "collect_from half [] acc = acc"
| "collect_from half (LogStdOut t # es) (out, err, truncated) =
     (let (cut, out') = append_with_limit out t half in collect_from half es (out', err, truncated \<or> cut))"
| "collect_from half (LogStdErr t # es) (out, err, truncated) =
     (let (cut, err') = append_with_limit err t half in collect_from half es (out, err', truncated \<or> cut))"
| "collect_from half (LogOther # es) acc = collect_from half es acc"
| "collect_from half (LogError # es) acc = collect_from half es acc"

definition collect_logs :: "nat \<Rightarrow> log_event list \<Rightarrow> string \<times> string \<times> bool" where
  "collect_logs max_output es = collect_from (max_output div 2) es ([], [], False)"

section \<open>Containers\<close>

record container_settings =
  cs_image :: string
  cs_cmd :: "string list"
  cs_working_dir :: string
  cs_env :: "string list"
  cs_user :: string
  cs_binds :: "string list"
  cs_memory :: int
  cs_cpu_shares :: int
  cs_auto_remove :: bool
  cs_network_mode :: string
  cs_cap_drop :: "string list"
  cs_cap_add :: "string list"
  cs_security_opt :: "string list"
  cs_readonly_rootfs :: bool
  cs_tmpfs :: "(string \<times> string) list"

definition proxy_host :: "bool \<Rightarrow> string" where
  "proxy_host linux = (if linux then ''172.17.0.1'' else ''host.docker.internal'')"

definition proxy_env :: "bool \<Rightarrow> 16 word \<Rightarrow> string list" where
  "proxy_env linux port =
     map (\<lambda>v. v @ ''=http://'' @ proxy_host linux @ '':'' @ string_of_nat (unat port))
       [''http_proxy'', ''https_proxy'', ''HTTP_PROXY'', ''HTTPS_PROXY'']"

definition sandbox_binds :: "sandbox_policy \<Rightarrow> string \<Rightarrow> string list" where
  "sandbox_binds p dir =
     (case p of ReadOnly \<Rightarrow> [dir @ '':/workspace:ro'']
      | WorkspaceWrite \<Rightarrow> [dir @ '':/workspace:rw'']
      | FullAccess \<Rightarrow> [dir @ '':/workspace:rw'', ''/tmp:/tmp:rw''])"

text \<open>The runner: its image and the port of its proxy. The environment is listed in the order the map yields.\<close>

record container_runner =
  cr_image :: string
  cr_proxy_port :: "16 word"

definition settings_of ::
  "bool \<Rightarrow> container_runner \<Rightarrow> string \<Rightarrow> string \<Rightarrow> sandbox_policy \<Rightarrow> resource_limits \<Rightarrow> (string \<times> string) list \<Rightarrow> container_settings" where
  "settings_of linux runner command dir p limits env =
     \<lparr>cs_image = cr_image runner, cs_cmd = [''sh'', ''-c'', command], cs_working_dir = ''/workspace'',
      cs_env = map (\<lambda>(k, v). k @ ''='' @ v) env @
        (if cr_proxy_port runner > 0 \<and> is_sandboxed p then proxy_env linux (cr_proxy_port runner) else []),
      cs_user = ''1000:1000'', cs_binds = sandbox_binds p dir, cs_memory = sint (memory_bytes limits),
      cs_cpu_shares = uint (cpu_shares limits), cs_auto_remove = True, cs_network_mode = ''bridge'',
      cs_cap_drop = [''ALL''], cs_cap_add = [''CHOWN''], cs_security_opt = [''no-new-privileges:true''],
      cs_readonly_rootfs = (p \<noteq> FullAccess),
      cs_tmpfs = [(''/tmp'', ''size=512M''), (''/home/sandbox/.cargo/registry'', ''size=1G'')]\<rparr>"

text \<open>
  What the world keeps of the calls: the containers that exist, all containers ever made, and the
  commands run on the host itself.
\<close>

record sandbox_world =
  containers :: "uuid \<rightharpoonup> container_settings"
  made :: "(uuid \<times> container_settings) list"
  host_commands :: "string list"

datatype wait_answer = WaitStatus int | WaitFailed string | WaitEnded | WaitTimedOut

record attempt_answers =
  aa_create :: "(string, uuid) result"
  aa_start :: "(string, unit) result"
  aa_wait :: wait_answer
  aa_logs :: "log_event list"
  aa_removed :: bool
  aa_elapsed :: duration

definition create_container :: "(string, uuid) result \<Rightarrow> container_settings \<Rightarrow> sandbox_world \<Rightarrow> (sandbox_error, uuid) result \<times> sandbox_world" where
  "create_container answer settings w =
     (case answer of
        Inl e \<Rightarrow> (Inl (ContainerCreationFailed e), w)
      | Inr i \<Rightarrow> (Inr i, w\<lparr>containers := (containers w)(i \<mapsto> settings), made := made w @ [(i, settings)]\<rparr>))"

definition wait_for_container :: "wait_answer \<Rightarrow> log_event list \<Rightarrow> duration \<Rightarrow> nat \<Rightarrow> duration \<Rightarrow> (sandbox_error, container_output) result" where
  "wait_for_container answer logs limit max_output elapsed =
     (case answer of
        WaitTimedOut \<Rightarrow> Inl (SandboxTimeout limit)
      | WaitFailed e \<Rightarrow> Inl (ExecutionFailed (''wait failed: '' @ e))
      | WaitEnded \<Rightarrow> Inl (ExecutionFailed ''container wait stream ended unexpectedly'')
      | WaitStatus code \<Rightarrow>
          (let (out, err, truncated) = collect_logs max_output logs
           in Inr \<lparr>co_exit_code = code, co_stdout = out, co_stderr = err, co_duration = elapsed, co_truncated = truncated\<rparr>))"

definition runner_execute ::
  "bool \<Rightarrow> attempt_answers \<Rightarrow> container_runner \<Rightarrow> string \<Rightarrow> string \<Rightarrow> sandbox_policy \<Rightarrow> resource_limits \<Rightarrow> (string \<times> string) list
    \<Rightarrow> sandbox_world \<Rightarrow> (sandbox_error, container_output) result \<times> sandbox_world" where
  "runner_execute linux a runner command dir p limits env w =
     (case create_container (aa_create a) (settings_of linux runner command dir p limits env) w of
        (Inl e, w1) \<Rightarrow> (Inl e, w1)
      | (Inr i, w1) \<Rightarrow>
          (case aa_start a of
             Inl e \<Rightarrow> (Inl (ContainerStartFailed e), w1)
           | Inr _ \<Rightarrow>
               (let w2 = (if aa_removed a then w1\<lparr>containers := (containers w1)(i := None)\<rparr> else w1)
                in (wait_for_container (aa_wait a) (aa_logs a) (run_timeout limits) (max_output_bytes limits) (aa_elapsed a), w2))))"

text \<open>A command in a container that runs already.\<close>

record exec_answers =
  ea_create :: "(string, unit) result"
  ea_start :: "(string, log_event list option) result"
  ea_inspect :: "(string, int option) result"
  ea_timed_out :: bool
  ea_elapsed :: duration

definition run_exec :: "exec_answers \<Rightarrow> nat \<Rightarrow> (sandbox_error, container_output) result" where
  "run_exec a max_output =
     (case ea_start a of
        Inl e \<Rightarrow> Inl (ExecutionFailed (''exec start failed: '' @ e))
      | Inr attached \<Rightarrow>
          (let (out, err, truncated) = (case attached of Some es \<Rightarrow> collect_logs max_output es | None \<Rightarrow> ([], [], False))
           in case ea_inspect a of
                Inl e \<Rightarrow> Inl (ExecutionFailed (''exec inspect failed: '' @ e))
              | Inr code \<Rightarrow> Inr \<lparr>co_exit_code = (case code of Some c \<Rightarrow> c | None \<Rightarrow> -1), co_stdout = out, co_stderr = err,
                  co_duration = 0, co_truncated = truncated\<rparr>))"

definition exec_in_container :: "exec_answers \<Rightarrow> resource_limits \<Rightarrow> (sandbox_error, container_output) result" where
  "exec_in_container a limits =
     (case ea_create a of
        Inl e \<Rightarrow> Inl (ExecutionFailed (''exec create failed: '' @ e))
      | Inr _ \<Rightarrow>
          if ea_timed_out a then Inl (SandboxTimeout (run_timeout limits))
          else (case run_exec a (max_output_bytes limits) of
             Inr out \<Rightarrow> Inr (out\<lparr>co_duration := ea_elapsed a\<rparr>)
           | Inl e \<Rightarrow> Inl e))"

section \<open>Connecting to Docker\<close>

definition path_join :: "string \<Rightarrow> string \<Rightarrow> string" where
  "path_join base rest = (if base = [] \<or> last base = CHR ''/'' then base @ rest else base @ ''/'' @ rest)"

definition push_unique :: "string list \<Rightarrow> string \<Rightarrow> string list" where
  "push_unique ps p = (if p \<in> set ps then ps else ps @ [p])"

definition unix_socket_candidates_from_env :: "string option \<Rightarrow> string option \<Rightarrow> string option \<Rightarrow> string list" where
  "unix_socket_candidates_from_env home xdg uid =
     foldl push_unique []
       ((case home of Some h \<Rightarrow> [path_join h ''.docker/run/docker.sock'', path_join h ''.colima/default/docker.sock'',
            path_join h ''.rd/docker.sock''] | None \<Rightarrow> []) @
        (case xdg of Some d \<Rightarrow> [path_join d ''docker.sock''] | None \<Rightarrow> []) @
        (case uid of Some u \<Rightarrow> if u \<noteq> [] then [''/run/user/'' @ u @ ''/docker.sock''] else [] | None \<Rightarrow> []))"

text \<open>The first daemon that answers a ping: that of the defaults, or one behind a known socket.\<close>

definition connect_docker :: "bool \<Rightarrow> (string \<Rightarrow> bool) \<Rightarrow> string list \<Rightarrow> (sandbox_error, string option) result" where
  "connect_docker default_answers socket_answers candidates =
     (if default_answers then Inr None
      else case find socket_answers candidates of
        Some s \<Rightarrow> Inr (Some s)
      | None \<Rightarrow> Inl (DockerNotAvailable
          (''Could not connect to Docker daemon. Tried: $DOCKER_HOST, /var/run/docker.sock, '' @
           ''~/.docker/run/docker.sock, ~/.colima/default/docker.sock, ~/.rd/docker.sock, '' @
           ''$XDG_RUNTIME_DIR/docker.sock, /run/user/$UID/docker.sock'')))"

section \<open>The manager\<close>

text \<open>The proxy is kept as the policy it decides by and the port it listens on.\<close>

record sandbox_manager =
  sm_config :: sandbox_config
  sm_proxy :: "(decider \<times> 16 word) option"
  sm_docker :: bool
  sm_initialized :: bool

definition sandbox_manager_new :: "sandbox_config \<Rightarrow> sandbox_manager" where
  "sandbox_manager_new c = \<lparr>sm_config = c, sm_proxy = None, sm_docker = False, sm_initialized = False\<rparr>"

record init_answers =
  ia_connect :: "(sandbox_error, unit) result"
  ia_ping :: "(string, unit) result"
  ia_image_exists :: bool
  ia_pull :: "(string, unit) result list"
  ia_bind :: "(string, unit) result"
  ia_local_addr :: "(string, 16 word) result"

definition is_available :: "init_answers \<Rightarrow> sandbox_manager \<Rightarrow> bool" where
  "is_available a m \<longleftrightarrow> (if \<not> sc_enabled (sm_config m) then False else is_ok (ia_connect a) \<and> is_ok (ia_ping a))"

fun pull_image :: "(string, unit) result list \<Rightarrow> (sandbox_error, unit) result" where
  "pull_image [] = Inr ()"
| "pull_image (Inr _ # rs) = pull_image rs"
| "pull_image (Inl e # rs) = Inl (ContainerCreationFailed (''image pull failed: '' @ e))"

definition proxy_start :: "init_answers \<Rightarrow> (sandbox_error, 16 word) result" where
  "proxy_start a =
     (case ia_bind a of
        Inl e \<Rightarrow> Inl (ProxyError (''failed to bind: '' @ e))
      | Inr _ \<Rightarrow> (case ia_local_addr a of
          Inl e \<Rightarrow> Inl (ProxyError (''failed to get local addr: '' @ e))
        | Inr port \<Rightarrow> Inr port))"

definition ensure_image :: "init_answers \<Rightarrow> sandbox_config \<Rightarrow> (sandbox_error, unit) result" where
  "ensure_image a c =
     (if ia_image_exists a then Inr ()
      else if sc_auto_pull_image c then pull_image (ia_pull a)
      else Inl (ContainerCreationFailed (''image '' @ sc_image c @ '' not found and auto_pull is disabled'')))"

definition sandbox_initialize :: "init_answers \<Rightarrow> sandbox_manager \<Rightarrow> (sandbox_error, unit) result \<times> sandbox_manager" where
  "sandbox_initialize a m =
     (let c = sm_config m
      in if sm_initialized m then (Inr (), m)
         else if \<not> sc_enabled c then (Inl (SandboxConfigError ''sandbox is disabled''), m)
         else case ia_connect a of Inl e \<Rightarrow> (Inl e, m)
         | Inr _ \<Rightarrow> (case ia_ping a of Inl e \<Rightarrow> (Inl (DockerNotAvailable e), m)
         | Inr _ \<Rightarrow> (case ensure_image a c of Inl e \<Rightarrow> (Inl e, m)
         | Inr _ \<Rightarrow>
             (let m = m\<lparr>sm_docker := True\<rparr>
              in if is_sandboxed (sc_policy c)
                 then (case proxy_start a of Inl e \<Rightarrow> (Inl e, m)
                   | Inr port \<Rightarrow> (Inr (), m\<lparr>sm_proxy := Some (build_decider (proxy_from_config (sc_network_allowlist c) (sc_policy c)), port),
                       sm_initialized := True\<rparr>))
                 else (Inr (), m\<lparr>sm_initialized := True\<rparr>)))))"

definition sandbox_shutdown :: "sandbox_manager \<Rightarrow> sandbox_manager" where
  "sandbox_shutdown m = m\<lparr>sm_proxy := None, sm_initialized := False\<rparr>"

record exec_output =
  eo_exit_code :: int
  eo_stdout :: string
  eo_stderr :: string
  eo_output :: string
  eo_duration :: duration
  eo_truncated :: bool

definition combined_output :: "string \<Rightarrow> string \<Rightarrow> string" where
  "combined_output out err =
     (if err = [] then out else if out = [] then err
      else out @ [CHR 0x0A, CHR 0x0A] @ ''--- stderr ---'' @ [CHR 0x0A] @ err)"

definition exec_output_of :: "container_output \<Rightarrow> exec_output" where
  "exec_output_of c = \<lparr>eo_exit_code = co_exit_code c, eo_stdout = co_stdout c, eo_stderr = co_stderr c,
     eo_output = combined_output (co_stdout c) (co_stderr c), eo_duration = co_duration c, eo_truncated = co_truncated c\<rparr>"

definition limits_of :: "sandbox_config \<Rightarrow> resource_limits" where
  "limits_of c = \<lparr>memory_bytes = sc_memory_limit_mb c * 1024 * 1024, cpu_shares = sc_cpu_shares c, run_timeout = sc_timeout c,
     max_output_bytes = 64 * 1024\<rparr>"

definition try_execute_in_container ::
  "bool \<Rightarrow> attempt_answers \<Rightarrow> sandbox_manager \<Rightarrow> string \<Rightarrow> string \<Rightarrow> sandbox_policy \<Rightarrow> (string \<times> string) list \<Rightarrow> sandbox_world
    \<Rightarrow> (sandbox_error, exec_output) result \<times> sandbox_world" where
  "try_execute_in_container linux a m command dir p env w =
     (let port = (case sm_proxy m of Some (d, port) \<Rightarrow> port | None \<Rightarrow> 0)
      in if \<not> sm_docker m then (Inl (DockerNotAvailable ''Docker connection not initialized''), w)
         else case runner_execute linux a \<lparr>cr_image = sc_image (sm_config m), cr_proxy_port = port\<rparr> command dir p
                     (limits_of (sm_config m)) env w of
           (Inl e, w') \<Rightarrow> (Inl e, w')
         | (Inr out, w') \<Rightarrow> (Inr (exec_output_of out), w'))"

text \<open>The loop over the attempts; \<open>run\<close> is one attempt.\<close>

fun run_attempts ::
  "(nat \<Rightarrow> 'w \<Rightarrow> (sandbox_error, 'o) result \<times> 'w) \<Rightarrow> nat list \<Rightarrow> sandbox_error option \<Rightarrow> 'w \<Rightarrow> (sandbox_error, 'o) result \<times> 'w" where
  "run_attempts run [] last_err w =
     (Inl (case last_err of Some e \<Rightarrow> e | None \<Rightarrow> ExecutionFailed ''all retry attempts exhausted''), w)"
| "run_attempts run (n # ns) last_err w =
     (case run n w of
        (Inr out, w') \<Rightarrow> (Inr out, w')
      | (Inl e, w') \<Rightarrow> if is_transient_sandbox_error e then run_attempts run ns (Some e) w' else (Inl e, w'))"

definition max_sandbox_retries :: nat where
  "max_sandbox_retries = 2"

text \<open>What the host answers to a command run on it.\<close>

datatype direct_answer = DirectExit "int option" string string duration | DirectFailed string | DirectTimedOut

definition cut_stream :: "string \<Rightarrow> bool \<times> string" where
  "cut_stream s =
     (let half = 64 * 1024 div 2 in if length s > half then (True, take (floor_char_boundary s half) s) else (False, s))"

definition execute_direct :: "direct_answer \<Rightarrow> sandbox_manager \<Rightarrow> string \<Rightarrow> sandbox_world \<Rightarrow> (sandbox_error, exec_output) result \<times> sandbox_world" where
  "execute_direct answer m command w =
     (let w = w\<lparr>host_commands := host_commands w @ [command]\<rparr>
      in case answer of
           DirectTimedOut \<Rightarrow> (Inl (SandboxTimeout (sc_timeout (sm_config m))), w)
         | DirectFailed e \<Rightarrow> (Inl (ExecutionFailed e), w)
         | DirectExit code out err elapsed \<Rightarrow>
             (let (cut1, out) = cut_stream out; (cut2, err) = cut_stream err
              in (Inr \<lparr>eo_exit_code = (case code of Some c \<Rightarrow> c | None \<Rightarrow> -1), eo_stdout = out, eo_stderr = err,
                    eo_output = combined_output out err, eo_duration = elapsed, eo_truncated = cut1 \<or> cut2\<rparr>, w)))"

text \<open>One call and all that answers it.\<close>

record run_answers =
  ra_init :: init_answers
  ra_attempt :: "nat \<Rightarrow> attempt_answers"
  ra_direct :: direct_answer

definition execute_with_policy ::
  "bool \<Rightarrow> run_answers \<Rightarrow> string \<Rightarrow> string \<Rightarrow> sandbox_policy \<Rightarrow> (string \<times> string) list \<Rightarrow> sandbox_manager \<times> sandbox_world
    \<Rightarrow> (sandbox_error, exec_output) result \<times> (sandbox_manager \<times> sandbox_world)" where
  "execute_with_policy linux a command dir p env s =
     (case s of (m, w) \<Rightarrow>
        if p = FullAccess
        then if \<not> sc_allow_full_access (sm_config m)
             then (Inl (SandboxConfigError ''FullAccess policy requires SANDBOX_ALLOW_FULL_ACCESS=true''), (m, w))
             else (case execute_direct (ra_direct a) m command w of (r, w') \<Rightarrow> (r, (m, w')))
        else (case (if \<not> sm_initialized m then sandbox_initialize (ra_init a) m else (Inr (), m)) of
                (Inl e, m') \<Rightarrow> (Inl e, (m', w))
              | (Inr _, m') \<Rightarrow>
                  (case run_attempts (\<lambda>n. try_execute_in_container linux (ra_attempt a n) m' command dir p env)
                          [0..<Suc max_sandbox_retries] None w of
                     (r, w') \<Rightarrow> (r, (m', w')))))"

definition sandbox_execute ::
  "bool \<Rightarrow> run_answers \<Rightarrow> string \<Rightarrow> string \<Rightarrow> (string \<times> string) list \<Rightarrow> sandbox_manager \<times> sandbox_world
    \<Rightarrow> (sandbox_error, exec_output) result \<times> (sandbox_manager \<times> sandbox_world)" where
  "sandbox_execute linux a command dir env s = execute_with_policy linux a command dir (sc_policy (sm_config (fst s))) env s"

definition sandbox_build ::
  "bool \<Rightarrow> run_answers \<Rightarrow> string \<Rightarrow> string \<Rightarrow> (string \<times> string) list \<Rightarrow> sandbox_manager \<times> sandbox_world
    \<Rightarrow> (sandbox_error, exec_output) result \<times> (sandbox_manager \<times> sandbox_world)" where
  "sandbox_build linux a command dir env s = execute_with_policy linux a command dir WorkspaceWrite env s"

text \<open>The operations, in any order.\<close>

datatype sandbox_op =
  RunWithPolicy run_answers string string sandbox_policy "(string \<times> string) list"
| RunDefault run_answers string string "(string \<times> string) list"
| RunBuild run_answers string string "(string \<times> string) list"
| Initialize init_answers
| Shutdown

fun sandbox_step :: "bool \<Rightarrow> sandbox_manager \<times> sandbox_world \<Rightarrow> sandbox_op \<Rightarrow> sandbox_manager \<times> sandbox_world" where
  "sandbox_step linux s (RunWithPolicy a command dir p env) = snd (execute_with_policy linux a command dir p env s)"
| "sandbox_step linux s (RunDefault a command dir env) = snd (sandbox_execute linux a command dir env s)"
| "sandbox_step linux s (RunBuild a command dir env) = snd (sandbox_build linux a command dir env s)"
| "sandbox_step linux (m, w) (Initialize a) = (snd (sandbox_initialize a m), w)"
| "sandbox_step linux (m, w) Shutdown = (sandbox_shutdown m, w)"
section \<open>Lemmas\<close>

subsection \<open>Output\<close>

lemma floor_le: "floor_char_boundary s pos \<le> pos"
  using char_boundary_le [of s pos] by (simp add: floor_char_boundary_def)

lemma append_with_limit_le: "append_with_limit b t limit = (k, b') \<Longrightarrow> length b \<le> limit \<Longrightarrow> length b' \<le> limit"
  using floor_le [of t "limit - length b"] by (auto simp: append_with_limit_def Let_def split: if_splits)

text \<open>A buffer and the text it was collected from: it holds all of it, or less when a piece was cut.\<close>

definition holds :: "string \<Rightarrow> string \<Rightarrow> bool \<Rightarrow> bool" where
  "holds buffer full k \<longleftrightarrow> (if k then length buffer < length full else buffer = full)"

lemma append_with_limit_holds:
  assumes "append_with_limit b t limit = (k', b')" and "holds b full k"
  shows "holds b' (full @ t) (k \<or> k')"
  using assms floor_le [of t "limit - length b"]
  by (auto simp: append_with_limit_def holds_def Let_def split: if_splits)

definition stdout_of :: "log_event list \<Rightarrow> string" where
  "stdout_of es = concat (List.map_filter (\<lambda>e. case e of LogStdOut t \<Rightarrow> Some t | _ \<Rightarrow> None) es)"

definition stderr_of :: "log_event list \<Rightarrow> string" where
  "stderr_of es = concat (List.map_filter (\<lambda>e. case e of LogStdErr t \<Rightarrow> Some t | _ \<Rightarrow> None) es)"

lemma streams_simps [simp]:
  "stdout_of [] = []" "stdout_of (LogStdOut t # es) = t @ stdout_of es" "stdout_of (LogStdErr t # es) = stdout_of es"
  "stdout_of (LogOther # es) = stdout_of es" "stdout_of (LogError # es) = stdout_of es"
  "stderr_of [] = []" "stderr_of (LogStdErr t # es) = t @ stderr_of es" "stderr_of (LogStdOut t # es) = stderr_of es"
  "stderr_of (LogOther # es) = stderr_of es" "stderr_of (LogError # es) = stderr_of es"
  by (simp_all add: stdout_of_def stderr_of_def List.map_filter_simps)

lemma collect_from_bounds:
  "collect_from half es (out, err, c) = (out', err', c') \<Longrightarrow> length out \<le> half \<Longrightarrow> length err \<le> half \<Longrightarrow>
    length out' \<le> half \<and> length err' \<le> half"
proof (induction half es "(out, err, c)" arbitrary: out err c rule: collect_from.induct)
  case (2 half t es out err c)
  then show ?case using append_with_limit_le [of out t half] by (auto split: prod.splits)
next
  case (3 half t es out err c)
  then show ?case using append_with_limit_le [of err t half] by (auto split: prod.splits)
qed simp_all

lemma collect_from_holds:
  "collect_from half es (out, err, c1 \<or> c2) = (out', err', c') \<Longrightarrow> holds out o0 c1 \<Longrightarrow> holds err e0 c2 \<Longrightarrow>
    \<exists>d1 d2. c' = (d1 \<or> d2) \<and> holds out' (o0 @ stdout_of es) d1 \<and> holds err' (e0 @ stderr_of es) d2"
proof (induction es arbitrary: out err c1 c2 o0 e0)
  case Nil
  then show ?case by auto
next
  case (Cons e es)
  show ?case
  proof (cases e)
    case (LogStdOut t)
    obtain k b where b: "append_with_limit out t half = (k, b)" by fastforce
    from append_with_limit_holds [OF b Cons.prems(2)] Cons.IH [of b err "c1 \<or> k" c2 "o0 @ t" e0] Cons.prems show ?thesis
      by (simp add: LogStdOut b disj_ac)
  next
    case (LogStdErr t)
    obtain k b where b: "append_with_limit err t half = (k, b)" by fastforce
    from append_with_limit_holds [OF b Cons.prems(3)] Cons.IH [of out b c1 "c2 \<or> k" o0 "e0 @ t"] Cons.prems show ?thesis
      by (simp add: LogStdErr b disj_ac)
  qed (use Cons in simp_all)
qed

lemma cut_output_is_spliced:
  "fst (collect_logs 8 [LogStdOut ''abc'', LogStdOut [CHR 0xE2, CHR 0x82, CHR 0xAC], LogStdOut ''d'']) = ''abcd''"
  by code_simp

subsection \<open>The manager\<close>

text \<open>What a call asks for, and the ports a listener may have got by then.\<close>

fun op_call :: "sandbox_config \<Rightarrow> sandbox_op \<Rightarrow> (string \<times> string \<times> sandbox_policy \<times> (string \<times> string) list) option" where
  "op_call c (RunWithPolicy a command dir p env) = Some (command, dir, p, env)"
| "op_call c (RunDefault a command dir env) = Some (command, dir, sc_policy c, env)"
| "op_call c (RunBuild a command dir env) = Some (command, dir, WorkspaceWrite, env)"
| "op_call c _ = None"

fun op_port :: "sandbox_op \<Rightarrow> 16 word option" where
  "op_port (RunWithPolicy a command dir p env) = (case ia_local_addr (ra_init a) of Inr port \<Rightarrow> Some port | Inl _ \<Rightarrow> None)"
| "op_port (RunDefault a command dir env) = (case ia_local_addr (ra_init a) of Inr port \<Rightarrow> Some port | Inl _ \<Rightarrow> None)"
| "op_port (RunBuild a command dir env) = (case ia_local_addr (ra_init a) of Inr port \<Rightarrow> Some port | Inl _ \<Rightarrow> None)"
| "op_port (Initialize a) = (case ia_local_addr a of Inr port \<Rightarrow> Some port | Inl _ \<Rightarrow> None)"
| "op_port Shutdown = None"

definition host_calls :: "sandbox_config \<Rightarrow> sandbox_op list \<Rightarrow> string list" where
  "host_calls c ops =
     List.map_filter (\<lambda>op. case op_call c op of Some (command, dir, FullAccess, env) \<Rightarrow> Some command | _ \<Rightarrow> None) ops"

text \<open>A container made for one of the calls, with the proxy of the configuration in its environment.\<close>

definition made_for :: "bool \<Rightarrow> sandbox_config \<Rightarrow> sandbox_op list \<Rightarrow> container_settings \<Rightarrow> bool" where
  "made_for linux c ops st \<longleftrightarrow> (\<exists>command dir p env port.
     Some (command, dir, p, env) \<in> op_call c ` set ops \<and> p \<noteq> FullAccess \<and>
     (if is_sandboxed (sc_policy c) then Some port \<in> op_port ` set ops else port = 0) \<and>
     st = settings_of linux \<lparr>cr_image = sc_image c, cr_proxy_port = port\<rparr> command dir p (limits_of c) env)"

definition manager_ok :: "sandbox_config \<Rightarrow> sandbox_op list \<Rightarrow> sandbox_manager \<Rightarrow> bool" where
  "manager_ok c ops m \<longleftrightarrow> sm_config m = c \<and>
     (case sm_proxy m of
        None \<Rightarrow> sm_initialized m \<longrightarrow> \<not> is_sandboxed (sc_policy c)
      | Some (d, port) \<Rightarrow> is_sandboxed (sc_policy c) \<and> Some port \<in> op_port ` set ops \<and>
          d = build_decider (proxy_from_config (sc_network_allowlist c) (sc_policy c)))"

lemma manager_ok_mono: "manager_ok c ops m \<Longrightarrow> manager_ok c (ops @ [op]) m"
  by (auto simp: manager_ok_def split: option.splits)

lemma made_for_mono: "made_for linux c ops st \<Longrightarrow> made_for linux c (ops @ [op]) st"
  by (fastforce simp: made_for_def)

lemma proxy_startD: "proxy_start a = Inr port \<Longrightarrow> ia_local_addr a = Inr port"
  by (auto simp: proxy_start_def split: sum.splits)

lemma initialize_ok:
  assumes "manager_ok c ops m" and "sandbox_initialize a m = (r, m')"
    and port: "\<And>port. ia_local_addr a = Inr port \<Longrightarrow> op_port op = Some port"
  shows "manager_ok c (ops @ [op]) m'" and "is_ok r \<Longrightarrow> sm_initialized m'"
  using assms(1,2) proxy_startD [of a] port
  by (auto simp: manager_ok_def sandbox_initialize_def Let_def image_iff is_ok_iff split: if_splits sum.splits option.splits)

lemma runner_execute_made:
  assumes "runner_execute linux a runner command dir p limits env w = (r, w')"
  shows "host_commands w' = host_commands w"
    and "(i, st) \<in> set (made w') \<Longrightarrow> (i, st) \<in> set (made w) \<or> st = settings_of linux runner command dir p limits env"
  using assms by (auto simp: runner_execute_def create_container_def Let_def split: sum.splits prod.splits if_splits)

lemma run_attempts_inv:
  assumes "\<And>n w r w'. run n w = (r, w') \<Longrightarrow> I w \<Longrightarrow> I w'" and "I w" and "run_attempts run ns e w = (r, w')"
  shows "I w'"
  using assms(2,3)
proof (induction ns arbitrary: e w)
  case (Cons n ns)
  obtain r1 w1 where one: "run n w = (r1, w1)" by fastforce
  with assms(1) Cons.prems(1) have "I w1" by blast
  with one Cons show ?case by (auto split: sum.splits if_splits)
qed simp

definition world_ok :: "bool \<Rightarrow> sandbox_config \<Rightarrow> sandbox_op list \<Rightarrow> sandbox_world \<Rightarrow> bool" where
  "world_ok linux c ops w \<longleftrightarrow> host_commands w = (if sc_allow_full_access c then host_calls c ops else []) \<and>
     list_all (\<lambda>(i, st). made_for linux c ops st) (made w)"

lemma host_calls_snoc:
  "host_calls c (ops @ [op]) = host_calls c ops @ (case op_call c op of Some (command, dir, FullAccess, env) \<Rightarrow> [command] | _ \<Rightarrow> [])"
  by (auto simp: host_calls_def List.map_filter_def split: option.split prod.split sandbox_policy.split)

lemma world_ok_idle:
  assumes "world_ok linux c ops w" and "\<And>command dir env. op_call c op \<noteq> Some (command, dir, FullAccess, env)"
  shows "world_ok linux c (ops @ [op]) w"
proof -
  have "host_calls c (ops @ [op]) = host_calls c ops"
    using assms(2) by (auto simp: host_calls_snoc split: option.split prod.split sandbox_policy.split)
  then show ?thesis using assms(1) made_for_mono by (fastforce simp: world_ok_def list_all_iff)
qed

lemma try_execute_runs:
  assumes "sm_docker m" and "try_execute_in_container linux a m command dir p env w = (r, w')"
  shows "\<exists>q. runner_execute linux a \<lparr>cr_image = sc_image (sm_config m),
    cr_proxy_port = (case sm_proxy m of Some (d, port) \<Rightarrow> port | None \<Rightarrow> 0)\<rparr> command dir p (limits_of (sm_config m)) env w = (q, w')"
proof -
  obtain q w1 where "runner_execute linux a \<lparr>cr_image = sc_image (sm_config m),
      cr_proxy_port = (case sm_proxy m of Some (d, port) \<Rightarrow> port | None \<Rightarrow> 0)\<rparr> command dir p (limits_of (sm_config m)) env w = (q, w1)"
    by fastforce
  with assms show ?thesis by (auto simp: try_execute_in_container_def Let_def split: sum.splits)
qed

lemma try_execute_ok:
  assumes m: "manager_ok c ops m" "sm_initialized m"
    and call: "op_call c op = Some (command, dir, p, env)" "op \<in> set ops" "p \<noteq> FullAccess"
    and w: "list_all (\<lambda>(i, st). made_for linux c ops st) (made w)"
    and run: "try_execute_in_container linux a m command dir p env w = (r, w')"
  shows "host_commands w' = host_commands w \<and> list_all (\<lambda>(i, st). made_for linux c ops st) (made w')"
proof -
  define port where "port = (case sm_proxy m of Some (d, port) \<Rightarrow> port | None \<Rightarrow> 0)"
  have port: "if is_sandboxed (sc_policy c) then Some port \<in> op_port ` set ops else port = 0"
    using m by (auto simp: manager_ok_def port_def split: option.splits)
  have c: "sm_config m = c" using m(1) by (simp add: manager_ok_def)
  have new: "made_for linux c ops (settings_of linux \<lparr>cr_image = sc_image c, cr_proxy_port = port\<rparr> command dir p (limits_of c) env)"
    using call port unfolding made_for_def by (metis image_eqI)
  show ?thesis
  proof (cases "sm_docker m")
    case False
    then show ?thesis using run w by (simp add: try_execute_in_container_def Let_def)
  next
    case True
    from try_execute_runs [OF True run] obtain q where one: "runner_execute linux a
        \<lparr>cr_image = sc_image c, cr_proxy_port = port\<rparr> command dir p (limits_of c) env w = (q, w')"
      by (auto simp: c port_def)
    with runner_execute_made [OF one] w new show ?thesis by (fastforce simp: list_all_iff)
  qed
qed

lemma execute_with_policy_ok:
  assumes m: "manager_ok c ops m" and w: "world_ok linux c ops w"
    and call: "op_call c op = Some (command, dir, p, env)" and port: "\<And>port. ia_local_addr (ra_init a) = Inr port \<Longrightarrow> op_port op = Some port"
    and run: "snd (execute_with_policy linux a command dir p env (m, w)) = (m', w')"
  shows "manager_ok c (ops @ [op]) m' \<and> world_ok linux c (ops @ [op]) w'"
proof (cases "p = FullAccess")
  case True
  have c: "sm_config m = c" using m by (simp add: manager_ok_def)
  have made: "list_all (\<lambda>(i, st). made_for linux c (ops @ [op]) st) (made w)"
    using w made_for_mono by (fastforce simp: world_ok_def list_all_iff)
  show ?thesis
    using run True manager_ok_mono [OF m, of op] w made call
    by (auto simp: execute_with_policy_def c execute_direct_def world_ok_def host_calls_snoc Let_def
        split: if_splits direct_answer.splits prod.splits)
next
  case False
  have idle: "world_ok linux c (ops @ [op]) w" using world_ok_idle [OF w] call False by auto
  obtain r1 m1 where init: "(if \<not> sm_initialized m then sandbox_initialize (ra_init a) m else (Inr (), m)) = (r1, m1)"
    by fastforce
  have m1: "manager_ok c (ops @ [op]) m1" "is_ok r1 \<Longrightarrow> sm_initialized m1"
    using init initialize_ok [OF m, of "ra_init a" r1 m1 op] port manager_ok_mono [OF m] by (auto split: if_splits)
  show ?thesis
  proof (cases r1)
    case (Inl e)
    then show ?thesis using run False init m1 idle by (simp add: execute_with_policy_def split: if_splits)
  next
    case (Inr u)
    define run1 where "run1 = (\<lambda>n. try_execute_in_container linux (ra_attempt a n) m1 command dir p env)"
    define I where "I = (\<lambda>v :: sandbox_world. host_commands v = host_commands w \<and> list_all (\<lambda>(i, st). made_for linux c (ops @ [op]) st) (made v))"
    obtain r2 w2 where all: "run_attempts run1 [0..<Suc max_sandbox_retries] None w = (r2, w2)" by fastforce
    have keeps: "I v'" if "run1 n v = (r, v')" "I v" for n v r v'
      using try_execute_ok [OF m1(1) m1(2) call, of linux v "ra_attempt a n" r v'] that Inr False
      unfolding run1_def I_def by simp
    have "I w" using idle by (simp add: I_def world_ok_def)
    from run_attempts_inv [of run1 I, OF keeps this all] have "I w2" .
    moreover have "m' = m1" "w' = w2"
      using run False init Inr all by (simp_all add: execute_with_policy_def run1_def del: upt_Suc split: if_splits)
    ultimately show ?thesis using m1(1) idle by (simp add: I_def world_ok_def)
  qed
qed

lemma sandbox_step_ok:
  assumes "manager_ok c ops (fst s)" and "world_ok linux c ops (snd s)"
  shows "manager_ok c (ops @ [op]) (fst (sandbox_step linux s op)) \<and> world_ok linux c (ops @ [op]) (snd (sandbox_step linux s op))"
proof -
  obtain m w where s: "s = (m, w)" by fastforce
  have c: "sm_config m = c" using assms(1) by (simp add: s manager_ok_def)
  note ok = assms [unfolded s fst_conv snd_conv]
  show ?thesis
  proof (cases op)
    case (RunWithPolicy a command dir p env)
    then show ?thesis using execute_with_policy_ok [OF ok, of op command dir p env a, OF _ _ prod.collapse [symmetric]] by (simp add: s)
  next
    case (RunDefault a command dir env)
    then show ?thesis using execute_with_policy_ok [OF ok, of op command dir "sc_policy c" env a, OF _ _ prod.collapse [symmetric]]
      by (simp add: s sandbox_execute_def c)
  next
    case (RunBuild a command dir env)
    then show ?thesis using execute_with_policy_ok [OF ok, of op command dir WorkspaceWrite env a, OF _ _ prod.collapse [symmetric]]
      by (simp add: s sandbox_build_def)
  next
    case (Initialize a)
    then show ?thesis using initialize_ok(1) [OF ok(1), of a _ _ op] world_ok_idle [OF ok(2), of op] by (simp add: s prod_eq_iff)
  next
    case Shutdown
    then show ?thesis using manager_ok_mono [OF ok(1), of op] world_ok_idle [OF ok(2), of op]
      by (auto simp: s manager_ok_def sandbox_shutdown_def split: option.splits)
  qed
qed

definition empty_world :: sandbox_world where
  "empty_world = \<lparr>containers = Map.empty, made = [], host_commands = []\<rparr>"

lemma sandbox_run_ok:
  "manager_ok c ops (fst (foldl (sandbox_step linux) (sandbox_manager_new c, empty_world) ops)) \<and>
   world_ok linux c ops (snd (foldl (sandbox_step linux) (sandbox_manager_new c, empty_world) ops))"
proof (induction ops rule: rev_induct)
  case Nil
  show ?case
    by (simp add: manager_ok_def sandbox_manager_new_def world_ok_def empty_world_def host_calls_def List.map_filter_def)
next
  case (snoc op ops)
  then show ?case using sandbox_step_ok [of c ops _ linux op] by simp
qed

subsection \<open>What stays behind\<close>

lemma runner_execute_containers:
  assumes "runner_execute linux a runner command dir p limits env w = (r, w')" and "aa_removed a"
  shows "i \<in> dom (containers w') \<longrightarrow> i \<in> dom (containers w) \<or> (aa_create a = Inr i \<and> \<not> is_ok (aa_start a))"
  using assms by (auto simp: runner_execute_def create_container_def Let_def is_ok_def split: sum.splits prod.splits if_splits)

lemma attempts_leave:
  assumes "sm_docker m" and "\<And>n. aa_removed (att n)"
  shows "run_attempts (\<lambda>n. try_execute_in_container linux (att n) m command dir p env) ns e w = (r, w') \<Longrightarrow>
    dom (containers w') \<subseteq> dom (containers w) \<union> {i. \<exists>n \<in> set ns. aa_create (att n) = Inr i \<and> \<not> is_ok (aa_start (att n))}"
proof (induction ns arbitrary: e w)
  case (Cons n ns)
  obtain q v where one: "try_execute_in_container linux (att n) m command dir p env w = (q, v)" by fastforce
  with try_execute_runs [OF assms(1) one] runner_execute_containers [OF _ assms(2)]
  have "dom (containers v) \<subseteq> dom (containers w) \<union> {i. aa_create (att n) = Inr i \<and> \<not> is_ok (aa_start (att n))}" by blast
  moreover have "v = w' \<or> (\<exists>e'. run_attempts (\<lambda>n. try_execute_in_container linux (att n) m command dir p env) ns (Some e') v = (r, w'))"
    using Cons.prems one by (auto split: sum.splits if_splits)
  ultimately show ?case using Cons.IH by fastforce
qed simp

lemma failing_attempt:
  assumes "sm_docker m" and "is_ok (aa_create a)" and "\<not> is_ok (aa_start a)"
  shows "\<exists>i e v. aa_create a = Inr i \<and> try_execute_in_container linux a m command dir p env w = (Inl (ContainerStartFailed e), v) \<and>
    dom (containers v) = insert i (dom (containers w))"
  using assms by (auto simp: is_ok_def try_execute_in_container_def runner_execute_def create_container_def Let_def split: sum.splits)

lemma attempts_all_fail:
  assumes "sm_docker m"
  shows "\<forall>n \<in> set ns. is_ok (aa_create (att n)) \<and> \<not> is_ok (aa_start (att n)) \<Longrightarrow>
    run_attempts (\<lambda>n. try_execute_in_container linux (att n) m command dir p env) ns e w = (r, w') \<Longrightarrow>
    ns \<noteq> [] \<or> (\<exists>x. e = Some (ContainerStartFailed x)) \<Longrightarrow>
    dom (containers w') = dom (containers w) \<union> {i. \<exists>n \<in> set ns. aa_create (att n) = Inr i} \<and> (\<exists>x. r = Inl (ContainerStartFailed x))"
proof (induction ns arbitrary: e w)
  case Nil
  then show ?case by auto
next
  case (Cons n ns)
  obtain i x v where one: "aa_create (att n) = Inr i" "dom (containers v) = insert i (dom (containers w))"
    "try_execute_in_container linux (att n) m command dir p env w = (Inl (ContainerStartFailed x), v)"
    using failing_attempt [OF assms, of "att n" linux command dir p env w] Cons.prems(1) by auto
  with Cons.prems(2) have "run_attempts (\<lambda>n. try_execute_in_container linux (att n) m command dir p env) ns (Some (ContainerStartFailed x)) v = (r, w')"
    by (simp add: is_transient_sandbox_error_def)
  from Cons.IH [OF _ this] Cons.prems(1) one show ?case by auto
qed

section \<open>Properties\<close>

text \<open>What a container of a call is to be, written out; \<open>port\<close> is that of the proxy.\<close>

definition confined_container ::
  "bool \<Rightarrow> sandbox_config \<Rightarrow> string \<Rightarrow> string \<Rightarrow> sandbox_policy \<Rightarrow> (string \<times> string) list \<Rightarrow> 16 word \<Rightarrow> container_settings" where
  "confined_container linux c command dir p env port =
     \<lparr>cs_image = sc_image c, cs_cmd = [''sh'', ''-c'', command], cs_working_dir = ''/workspace'',
      cs_env = map (\<lambda>(k, v). k @ ''='' @ v) env @
        (if is_sandboxed (sc_policy c)
         then map (\<lambda>v. v @ ''=http://'' @ (if linux then ''172.17.0.1'' else ''host.docker.internal'') @ '':'' @ string_of_nat (unat port))
           [''http_proxy'', ''https_proxy'', ''HTTP_PROXY'', ''HTTPS_PROXY'']
         else []),
      cs_user = ''1000:1000'', cs_binds = [dir @ (if allows_writes p then '':/workspace:rw'' else '':/workspace:ro'')],
      cs_memory = sint (sc_memory_limit_mb c * 1024 * 1024), cs_cpu_shares = uint (sc_cpu_shares c), cs_auto_remove = True,
      cs_network_mode = ''bridge'', cs_cap_drop = [''ALL''], cs_cap_add = [''CHOWN''],
      cs_security_opt = [''no-new-privileges:true''], cs_readonly_rootfs = True,
      cs_tmpfs = [(''/tmp'', ''size=512M''), (''/home/sandbox/.cargo/registry'', ''size=1G'')]\<rparr>"

lemma confined_settings:
  assumes "p \<noteq> FullAccess" and "if is_sandboxed (sc_policy c) then port > 0 else port = 0"
  shows "settings_of linux \<lparr>cr_image = sc_image c, cr_proxy_port = port\<rparr> command dir p (limits_of c) env =
    confined_container linux c command dir p env port"
  using assms by (cases p)
    (simp_all add: settings_of_def confined_container_def limits_of_def sandbox_binds_def allows_writes_def proxy_env_def proxy_host_def
      is_sandboxed_def has_full_network_def split: if_splits)

text \<open>
  C7. However the operations of a manager follow one another, a command reaches the host only by a
  call with full access and the second permission, once for each such call and in their order. Every
  container was made for a call without full access and with exactly the settings written out here:
  the directory of the call is its only mount, writable only when the policy of the call allows
  writes, its root file system is read-only, it runs as an ordinary user with all capabilities but
  one dropped and no way to new privileges, within the limits of the configuration. The proxy goes by
  the policy of the configuration, not by that of the call: when that is sandboxed, every container is
  told of the proxy at a port it listens on, and the proxy decides by the configured allowlist;
  otherwise no container is told of one and its network is open. That a listener never has port 0 is
  what the operating system promises.
\<close>

theorem sandbox_confines_commands:
  assumes ports: "\<forall>op \<in> set ops. op_port op \<noteq> Some 0"
  shows "case foldl (sandbox_step linux) (sandbox_manager_new c, empty_world) ops of (m, w) \<Rightarrow>
     host_commands w = (if sc_allow_full_access c then host_calls c ops else []) \<and>
     list_all (\<lambda>(i, st). \<exists>command dir p env port.
       Some (command, dir, p, env) \<in> op_call c ` set ops \<and> p \<noteq> FullAccess \<and>
       (if is_sandboxed (sc_policy c) then port > 0 \<and> Some port \<in> op_port ` set ops else port = 0) \<and>
       st = confined_container linux c command dir p env port) (made w) \<and>
     (case sm_proxy m of None \<Rightarrow> True
      | Some (d, port) \<Rightarrow> d = DefaultPolicyDecider (domain_allowlist_new (sc_network_allowlist c)) default_credential_mappings)"
proof -
  obtain m w where mw: "foldl (sandbox_step linux) (sandbox_manager_new c, empty_world) ops = (m, w)" by fastforce
  then have m: "manager_ok c ops m" and w: "world_ok linux c ops w"
    using sandbox_run_ok [of c ops linux] by simp_all
  have open_port: "port > 0" if "Some port \<in> op_port ` set ops" for port :: "16 word"
    using that ports by (metis image_iff word_gt_0)
  have "list_all (\<lambda>(i, st). made_for linux c ops st) (made w)" using w by (simp add: world_ok_def)
  moreover have "\<exists>command dir p env port. Some (command, dir, p, env) \<in> op_call c ` set ops \<and> p \<noteq> FullAccess \<and>
       (if is_sandboxed (sc_policy c) then port > 0 \<and> Some port \<in> op_port ` set ops else port = 0) \<and>
       st = confined_container linux c command dir p env port" if made: "made_for linux c ops st" for st
  proof -
    obtain command dir p env port where call: "Some (command, dir, p, env) \<in> op_call c ` set ops" "p \<noteq> FullAccess"
      and port: "if is_sandboxed (sc_policy c) then Some port \<in> op_port ` set ops else port = 0"
      and st: "st = settings_of linux \<lparr>cr_image = sc_image c, cr_proxy_port = port\<rparr> command dir p (limits_of c) env"
      using made unfolding made_for_def by (elim exE conjE) (rule that)
    from port open_port have port': "if is_sandboxed (sc_policy c) then port > 0 \<and> Some port \<in> op_port ` set ops else port = 0" by simp
    then have "st = confined_container linux c command dir p env port"
      using confined_settings [OF call(2), of c port] by (simp add: st split: if_splits)
    with call port' show ?thesis by blast
  qed
  ultimately have "list_all (\<lambda>(i, st). \<exists>command dir p env port.
       Some (command, dir, p, env) \<in> op_call c ` set ops \<and> p \<noteq> FullAccess \<and>
       (if is_sandboxed (sc_policy c) then port > 0 \<and> Some port \<in> op_port ` set ops else port = 0) \<and>
       st = confined_container linux c command dir p env port) (made w)"
    by (elim list.pred_mono_strong) (simp only: case_prod_beta)
  moreover have "case sm_proxy m of None \<Rightarrow> True
      | Some (d, port) \<Rightarrow> d = DefaultPolicyDecider (domain_allowlist_new (sc_network_allowlist c)) default_credential_mappings"
    using m by (auto simp: manager_ok_def build_decider_def proxy_from_config_def is_sandboxed_def has_full_network_def split: option.splits)
  ultimately show ?thesis using w by (simp add: mw world_ok_def)
qed

text \<open>
  Each stream that is kept of a container's output is at most half the limit long, and the
  output is reported as cut exactly when a stream differs from what the container wrote.
\<close>

theorem output_within_limit:
  "case collect_logs max_output es of (out, err, truncated) \<Rightarrow>
     length out \<le> max_output div 2 \<and> length err \<le> max_output div 2 \<and>
     (truncated \<longleftrightarrow> out \<noteq> stdout_of es \<or> err \<noteq> stderr_of es)"
proof -
  obtain out err truncated where got: "collect_logs max_output es = (out, err, truncated)" by (cases "collect_logs max_output es") auto
  note all = got [unfolded collect_logs_def]
  obtain d1 d2 where d: "truncated = (d1 \<or> d2)" "holds out (stdout_of es) d1" "holds err (stderr_of es) d2"
    using collect_from_holds [of "max_output div 2" es "[]" "[]" False False out err truncated "[]" "[]"] all by (auto simp: holds_def)
  from collect_from_bounds [OF all] have "length out \<le> max_output div 2 \<and> length err \<le> max_output div 2" by simp
  moreover have "truncated \<longleftrightarrow> out \<noteq> stdout_of es \<or> err \<noteq> stderr_of es"
    using d by (cases d1; cases d2) (auto simp: holds_def)
  ultimately show ?thesis by (simp add: got)
qed

text \<open>
  When Docker removes what it is asked to remove, a call leaves no container behind but those it
  created and could not start; these it does leave behind, one for each of its three attempts when
  every start fails.
\<close>

theorem failed_start_leaves_containers:
  assumes ready: "sm_initialized m" "sm_docker m" "p \<noteq> FullAccess" and removed: "\<And>n. aa_removed (ra_attempt a n)"
    and run: "execute_with_policy linux a command dir p env (m, w) = (r, (m', w'))"
  shows "dom (containers w') \<subseteq> dom (containers w) \<union> {i. \<exists>n \<le> 2. aa_create (ra_attempt a n) = Inr i \<and> \<not> is_ok (aa_start (ra_attempt a n))} \<and>
    ((\<forall>n \<le> 2. is_ok (aa_create (ra_attempt a n)) \<and> \<not> is_ok (aa_start (ra_attempt a n))) \<longrightarrow>
       dom (containers w') = dom (containers w) \<union> {i. \<exists>n \<le> 2. aa_create (ra_attempt a n) = Inr i} \<and>
       (\<exists>e. r = Inl (ContainerStartFailed e)))"
proof -
  define run1 where "run1 = (\<lambda>n. try_execute_in_container linux (ra_attempt a n) m command dir p env)"
  have all: "run_attempts run1 [0, 1, 2] None w = (r, w')"
    using run ready by (auto simp: execute_with_policy_def run1_def max_sandbox_retries_def numeral_2_eq_2 split: prod.splits)
  have three: "(\<exists>n \<in> set [0, 1, 2]. P n) \<longleftrightarrow> (\<exists>n \<le> 2. P n)" "(\<forall>n \<in> set [0, 1, 2]. P n) \<longleftrightarrow> (\<forall>n \<le> 2. P n)" for P :: "nat \<Rightarrow> bool"
    by (auto simp: le_Suc_eq numeral_2_eq_2)
  show ?thesis
    using attempts_leave [where att = "ra_attempt a", OF ready(2) removed all [unfolded run1_def]]
      attempts_all_fail [where att = "ra_attempt a", OF ready(2) _ all [unfolded run1_def]]
    unfolding three by blast
qed

definition failing_answers :: run_answers where
  "failing_answers = \<lparr>ra_init = \<lparr>ia_connect = Inr (), ia_ping = Inr (), ia_image_exists = True, ia_pull = [], ia_bind = Inr (),
     ia_local_addr = Inr 8080\<rparr>,
     ra_attempt = (\<lambda>n. \<lparr>aa_create = Inr n, aa_start = Inl ''no such device'', aa_wait = WaitEnded, aa_logs = [], aa_removed = True,
       aa_elapsed = 0\<rparr>),
     ra_direct = DirectTimedOut\<rparr>"

theorem sandbox_confines_commands_witness:
  "host_commands (snd (foldl (sandbox_step True) (sandbox_manager_new default_sandbox_config, empty_world)
     [RunDefault failing_answers ''ls'' ''/src'' [], RunWithPolicy failing_answers ''rm'' ''/'' FullAccess []])) = []"
  using sandbox_confines_commands [of "[RunDefault failing_answers ''ls'' ''/src'' [], RunWithPolicy failing_answers ''rm'' ''/'' FullAccess []]"
      default_sandbox_config True]
  by (simp add: failing_answers_def default_sandbox_config_def split: prod.splits)

theorem failed_start_leaves_containers_witness:
  "\<exists>r m' w'. execute_with_policy True failing_answers ''ls'' ''/src'' ReadOnly []
      ((sandbox_manager_new default_sandbox_config)\<lparr>sm_docker := True, sm_initialized := True\<rparr>, empty_world) = (r, (m', w')) \<and>
    dom (containers w') = {i. i \<le> 2}"
proof -
  define m where "m = (sandbox_manager_new default_sandbox_config)\<lparr>sm_docker := True, sm_initialized := True\<rparr>"
  obtain r m' w' where run: "execute_with_policy True failing_answers ''ls'' ''/src'' ReadOnly [] (m, empty_world) = (r, (m', w'))"
    by (metis surj_pair)
  have "dom (containers w') = dom (containers empty_world) \<union> {i. \<exists>n \<le> 2. aa_create (ra_attempt failing_answers n) = Inr i}"
    using failed_start_leaves_containers [OF _ _ _ _ run] by (simp add: m_def failing_answers_def)
  then have "dom (containers w') = {i. i \<le> 2}" by (simp add: empty_world_def failing_answers_def)
  with run show ?thesis unfolding m_def by blast
qed

end
