(* ===== verification/Pairing.thy ===== *)
theory Pairing
  imports Prelude "HOL-Library.AList"
begin

text \<open>
  Who a sender on a channel is: user identities and roles (\<open>src/ownership/mod.rs\<close>), the cache of
  resolved senders (\<open>cache.rs\<close>), the pairing store over it (\<open>src/pairing/store.rs\<close>), the statements
  it runs (\<open>src/db/libsql/pairing.rs\<close>, \<open>users.rs\<close>), and the handlers of the administration that
  change users (\<open>src/channels/web/handlers/users.rs\<close>). A table is an association list by its unique
  key; a statement that fails leaves the data base as it was. The lemmas show which code pairs which
  sender, when the cache agrees with the data base, and that an administrator remains.
\<close>

section \<open>Identities\<close>

datatype user_role = OwnerRole | AdminRole | RegularRole

definition from_db_role :: "string \<Rightarrow> user_role" where
  "from_db_role r =
     (let l = ascii_lower (trim r)
      in if l = ''owner'' then OwnerRole else if l = ''admin'' then AdminRole else RegularRole)"

definition as_db_role :: "user_role \<Rightarrow> string" where
  "as_db_role r = (case r of OwnerRole \<Rightarrow> ''owner'' | AdminRole \<Rightarrow> ''admin'' | RegularRole \<Rightarrow> ''regular'')"

definition role_is_admin :: "user_role \<Rightarrow> bool" where
  "role_is_admin r \<longleftrightarrow> r \<in> {AdminRole, OwnerRole}"

record user_id =
  uid :: string
  uid_role :: user_role

datatype user_id_error = EmptyId | WhitespaceOnly

definition user_id_new :: "string \<Rightarrow> user_role \<Rightarrow> (user_id_error, user_id) result" where
  "user_id_new i r =
     (if i = [] then Inl EmptyId else if trim i = [] then Inl WhitespaceOnly else Inr \<lparr>uid = i, uid_role = r\<rparr>)"

text \<open>Equality of identities looks at the identifier only.\<close>

definition same_user :: "user_id \<Rightarrow> user_id \<Rightarrow> bool" where
  "same_user a b \<longleftrightarrow> uid a = uid b"

section \<open>The data base\<close>

type_synonym sender = "string \<times> string"

record user_row =
  ur_role :: string
  ur_status :: string

record pairing_request =
  pr_id :: uuid
  pr_channel :: string
  pr_external_id :: string
  pr_code :: string
  pr_owner :: "string option"
  pr_meta :: "string option"
  pr_created_at :: utc
  pr_expires_at :: utc
  pr_approved_at :: "utc option"

record pairing_db =
  users :: "(string \<times> user_row) list"
  identities :: "(sender \<times> string) list"
  requests :: "pairing_request list"

datatype db_error = DbNotFound string string | DbQuery string

definition normalize_channel_name :: "string \<Rightarrow> string" where
  "normalize_channel_name c = ascii_lower c"

definition is_active :: "pairing_db \<Rightarrow> string \<Rightarrow> bool" where
  "is_active db u = (case map_of (users db) u of Some r \<Rightarrow> ur_status r = ''active'' | None \<Rightarrow> False)"

definition resolve_channel_identity :: "pairing_db \<Rightarrow> string \<Rightarrow> string \<Rightarrow> user_id option" where
  "resolve_channel_identity db channel ext =
     (case map_of (identities db) (normalize_channel_name channel, ext) of
        None \<Rightarrow> None
      | Some owner \<Rightarrow>
          (case map_of (users db) owner of
             None \<Rightarrow> None
           | Some row \<Rightarrow> if ur_status row = ''active'' then Some \<lparr>uid = owner, uid_role = from_db_role (ur_role row)\<rparr> else None))"

text \<open>The external identifiers of a channel, in their order; \<open>le\<close> is that of the data base.\<close>

fun insert_by :: "('a \<Rightarrow> 'a \<Rightarrow> bool) \<Rightarrow> 'a \<Rightarrow> 'a list \<Rightarrow> 'a list" where
  "insert_by le x [] = [x]"
| "insert_by le x (y # ys) = (if le x y then x # y # ys else y # insert_by le x ys)"

definition db_read_allow_from :: "(string \<Rightarrow> string \<Rightarrow> bool) \<Rightarrow> pairing_db \<Rightarrow> string \<Rightarrow> string list" where
  "db_read_allow_from le db channel =
     foldr (insert_by le)
       (map (snd \<circ> fst) (filter (\<lambda>((c, e), o'). c = normalize_channel_name channel \<and> is_active db o') (identities db))) []"

definition external_id_of_owner :: "(string \<Rightarrow> string \<Rightarrow> bool) \<Rightarrow> pairing_db \<Rightarrow> string \<Rightarrow> string \<Rightarrow> string option" where
  "external_id_of_owner le db channel owner =
     (case foldr (insert_by le)
        (map (snd \<circ> fst) (filter (\<lambda>((c, e), o'). c = normalize_channel_name channel \<and> o' = owner \<and>
           (map_of (users db) o' = None \<or> is_active db o')) (identities db))) [] of
        [] \<Rightarrow> None | e # _ \<Rightarrow> Some e)"

definition request_pending :: "utc \<Rightarrow> pairing_request \<Rightarrow> bool" where
  "request_pending now r \<longleftrightarrow> pr_approved_at r = None \<and> pr_expires_at r > now"

definition retire_requests :: "utc \<Rightarrow> string \<Rightarrow> string \<Rightarrow> pairing_db \<Rightarrow> pairing_db" where
  "retire_requests now channel ext db =
     db\<lparr>requests := map (\<lambda>r. if pr_channel r = channel \<and> pr_external_id r = ext \<and> request_pending now r
       then r\<lparr>pr_expires_at := now\<rparr> else r) (requests db)\<rparr>"

text \<open>The random identifiers and codes are an argument: one pair for each attempt.\<close>

fun insert_request :: "(uuid \<times> string) list \<Rightarrow> (uuid \<Rightarrow> string \<Rightarrow> pairing_request) \<Rightarrow> pairing_db \<Rightarrow> (pairing_request \<times> pairing_db) option" where
  "insert_request [] new db = None"
| "insert_request ((i, code) # rest) new db =
     (if list_ex (\<lambda>r. pr_id r = i \<or> pr_code r = code) (requests db) then insert_request rest new db
      else Some (new i code, db\<lparr>requests := requests db @ [new i code]\<rparr>))"

definition upsert_pairing_request ::
  "string option \<Rightarrow> utc \<Rightarrow> (uuid \<times> string) list \<Rightarrow> string \<Rightarrow> string \<Rightarrow> string option \<Rightarrow> pairing_db
    \<Rightarrow> (db_error, pairing_request) result \<times> pairing_db" where
  "upsert_pairing_request fault now codes channel0 ext meta db =
     (case fault of Some e \<Rightarrow> (Inl (DbQuery e), db)
      | None \<Rightarrow>
          (let channel = normalize_channel_name channel0;
               new = (\<lambda>i code. \<lparr>pr_id = i, pr_channel = channel, pr_external_id = ext, pr_code = code, pr_owner = None, pr_meta = meta,
                 pr_created_at = now, pr_expires_at = now + 15 * 60 * 1000, pr_approved_at = None\<rparr>)
           in case insert_request (take 3 codes) new (retire_requests now channel ext db) of
                None \<Rightarrow> (Inl (DbQuery ''UNIQUE constraint failed''), db)
              | Some (r, db') \<Rightarrow> (Inr r, db')))"

definition ascii_upper :: "string \<Rightarrow> string" where
  "ascii_upper s = map (\<lambda>c. if 97 \<le> (of_char c :: nat) \<and> (of_char c :: nat) \<le> 122 then char_of ((of_char c :: nat) - 32) else c) s"

record approval =
  ap_request_id :: uuid
  ap_channel :: string
  ap_external_id :: string
  ap_owner :: string
  ap_previous_owner :: "string option"

text \<open>The owner of a request and of an identity refers to a user: a write with another owner fails.\<close>

definition foreign_key_error :: db_error where
  "foreign_key_error = DbQuery ''FOREIGN KEY constraint failed''"

definition approve_pairing ::
  "string option \<Rightarrow> utc \<Rightarrow> string \<Rightarrow> string \<Rightarrow> string \<Rightarrow> pairing_db \<Rightarrow> (db_error, approval) result \<times> pairing_db" where
  "approve_pairing fault now channel0 code owner db =
     (case fault of Some e \<Rightarrow> (Inl (DbQuery e), db)
      | None \<Rightarrow>
          (case find (\<lambda>r. ascii_upper (pr_code r) = ascii_upper code \<and> pr_channel r = normalize_channel_name channel0 \<and> request_pending now r)
                  (requests db) of
             None \<Rightarrow> (Inl (DbNotFound ''pairing_request'' code), db)
           | Some r \<Rightarrow>
               (let k = (pr_channel r, pr_external_id r)
                in if map_of (users db) owner = None then (Inl foreign_key_error, db)
                   else (Inr \<lparr>ap_request_id = pr_id r, ap_channel = pr_channel r, ap_external_id = pr_external_id r, ap_owner = owner,
                      ap_previous_owner = map_of (identities db) k\<rparr>,
                    db\<lparr>requests := map (\<lambda>q. if pr_id q = pr_id r then q\<lparr>pr_owner := Some owner, pr_approved_at := Some now\<rparr> else q) (requests db),
                       identities := AList.update k owner (identities db)\<rparr>))))"

definition revert_pairing_approval :: "string option \<Rightarrow> approval \<Rightarrow> pairing_db \<Rightarrow> (db_error, unit) result \<times> pairing_db" where
  "revert_pairing_approval fault a db =
     (case fault of Some e \<Rightarrow> (Inl (DbQuery e), db)
      | None \<Rightarrow>
          (let hit = (\<lambda>r. pr_id r = ap_request_id a \<and> pr_owner r = Some (ap_owner a) \<and> pr_approved_at r \<noteq> None);
               k = (ap_channel a, ap_external_id a)
           in if \<not> list_ex hit (requests db) then (Inl (DbNotFound ''pairing_approval'' ''''), db)
              else if (case ap_previous_owner a of Some p \<Rightarrow> map_of (users db) p = None | None \<Rightarrow> False) then (Inl foreign_key_error, db)
              else (Inr (), db\<lparr>
                requests := map (\<lambda>r. if hit r then r\<lparr>pr_owner := None, pr_approved_at := None\<rparr> else r) (requests db),
                identities := (case ap_previous_owner a of
                    Some p \<Rightarrow> AList.update k p (identities db)
                  | None \<Rightarrow> filter (\<lambda>(q, o'). \<not> (q = k \<and> o' = ap_owner a)) (identities db))\<rparr>)))"

definition list_pending_pairings :: "utc \<Rightarrow> pairing_db \<Rightarrow> string \<Rightarrow> pairing_request list" where
  "list_pending_pairings now db channel =
     sort_key pr_created_at (filter (\<lambda>r. pr_channel r = normalize_channel_name channel \<and> request_pending now r) (requests db))"

definition remove_channel_identity :: "string option \<Rightarrow> string \<Rightarrow> string \<Rightarrow> pairing_db \<Rightarrow> (db_error, unit) result \<times> pairing_db" where
  "remove_channel_identity fault channel ext db =
     (case fault of Some e \<Rightarrow> (Inl (DbQuery e), db)
      | None \<Rightarrow> (Inr (), db\<lparr>identities := AList.delete (normalize_channel_name channel, ext) (identities db)\<rparr>))"

definition update_user_status :: "string \<Rightarrow> string \<Rightarrow> pairing_db \<Rightarrow> pairing_db" where
  "update_user_status u status db = db\<lparr>users := AList.map_entry u (\<lambda>r. r\<lparr>ur_status := status\<rparr>) (users db)\<rparr>"

definition update_user_role :: "string \<Rightarrow> string \<Rightarrow> pairing_db \<Rightarrow> pairing_db" where
  "update_user_role u role db = db\<lparr>users := AList.map_entry u (\<lambda>r. r\<lparr>ur_role := role\<rparr>) (users db)\<rparr>"

text \<open>Deleting a user cascades to the rows that refer to it.\<close>

definition delete_user :: "string \<Rightarrow> pairing_db \<Rightarrow> bool \<times> pairing_db" where
  "delete_user u db =
     (map_of (users db) u \<noteq> None,
      db\<lparr>users := AList.delete u (users db),
         identities := filter (\<lambda>(k, o'). o' \<noteq> u) (identities db),
         requests := filter (\<lambda>r. pr_owner r \<noteq> Some u) (requests db)\<rparr>)"

section \<open>The store and its cache\<close>

type_synonym ownership_cache = "sender \<rightharpoonup> user_id"

definition cache_evict :: "string \<Rightarrow> string \<Rightarrow> ownership_cache \<Rightarrow> ownership_cache" where
  "cache_evict channel ext c = c((channel, ext) := None)"

definition cache_evict_user :: "string \<Rightarrow> ownership_cache \<Rightarrow> ownership_cache" where
  "cache_evict_user owner c = map_retain (\<lambda>i. uid i \<noteq> owner) c"

record pairing_store =
  ps_db :: "pairing_db option"
  ps_cache :: ownership_cache

definition pairing_store_new :: "pairing_db \<Rightarrow> pairing_store" where
  "pairing_store_new db = \<lparr>ps_db = Some db, ps_cache = Map.empty\<rparr>"

definition pairing_store_noop :: pairing_store where
  "pairing_store_noop = \<lparr>ps_db = None, ps_cache = Map.empty\<rparr>"

text \<open>Resolving: the look into the cache, the query, and the insertion of its result.\<close>

definition resolve_cached :: "string \<Rightarrow> string \<Rightarrow> pairing_store \<Rightarrow> user_id option" where
  "resolve_cached channel ext s = ps_cache s (normalize_channel_name channel, ext)"

definition resolve_query :: "string option \<Rightarrow> string \<Rightarrow> string \<Rightarrow> pairing_store \<Rightarrow> (db_error, user_id option) result" where
  "resolve_query fault channel ext s =
     (case ps_db s of None \<Rightarrow> Inr None
      | Some db \<Rightarrow> (case fault of Some e \<Rightarrow> Inl (DbQuery e)
          | None \<Rightarrow> Inr (resolve_channel_identity db (normalize_channel_name channel) ext)))"

definition resolve_fill :: "string \<Rightarrow> string \<Rightarrow> user_id option \<Rightarrow> pairing_store \<Rightarrow> pairing_store" where
  "resolve_fill channel ext found s =
     (case found of Some i \<Rightarrow> s\<lparr>ps_cache := (ps_cache s)((normalize_channel_name channel, ext) \<mapsto> i)\<rparr> | None \<Rightarrow> s)"

definition resolve_identity :: "string option \<Rightarrow> string \<Rightarrow> string \<Rightarrow> pairing_store \<Rightarrow> (db_error, user_id option) result \<times> pairing_store" where
  "resolve_identity fault channel ext s =
     (case resolve_cached channel ext s of
        Some i \<Rightarrow> (Inr (Some i), s)
      | None \<Rightarrow> (case resolve_query fault channel ext s of
          Inl e \<Rightarrow> (Inl e, s)
        | Inr found \<Rightarrow> (Inr found, resolve_fill channel ext found s)))"

definition normalize_submission :: "string \<Rightarrow> string option" where
  "normalize_submission s = (let t = trim s in if t = [] then None else Some (ascii_upper t))"

definition store_upsert_request ::
  "string option \<Rightarrow> utc \<Rightarrow> (uuid \<times> string) list \<Rightarrow> string \<Rightarrow> string \<Rightarrow> string option \<Rightarrow> pairing_store
    \<Rightarrow> (db_error, pairing_request) result \<times> pairing_store" where
  "store_upsert_request fault now codes channel ext meta s =
     (case ps_db s of
        None \<Rightarrow> (Inr \<lparr>pr_id = fst (hd codes), pr_channel = normalize_channel_name channel, pr_external_id = ext, pr_code = snd (hd codes),
          pr_owner = None, pr_meta = None, pr_created_at = now, pr_expires_at = now + 15 * 60 * 1000, pr_approved_at = None\<rparr>, s)
      | Some db \<Rightarrow> (case upsert_pairing_request fault now codes (normalize_channel_name channel) ext meta db of
          (r, db') \<Rightarrow> (r, s\<lparr>ps_db := Some db'\<rparr>)))"

definition store_approve ::
  "string option \<Rightarrow> utc \<Rightarrow> string \<Rightarrow> string \<Rightarrow> string \<Rightarrow> pairing_store \<Rightarrow> (db_error, approval) result \<times> pairing_store" where
  "store_approve fault now channel code owner s =
     (case ps_db s of
        None \<Rightarrow> (Inl (DbNotFound ''pairing_request'' ''noop (no database configured)''), s)
      | Some db \<Rightarrow>
          (let normalized = (case normalize_submission code of Some c \<Rightarrow> c | None \<Rightarrow> trim code)
           in case approve_pairing fault now (normalize_channel_name channel) normalized owner db of
                (r, db') \<Rightarrow> (r, s\<lparr>ps_db := Some db'\<rparr>)))"

definition store_revert :: "string option \<Rightarrow> approval \<Rightarrow> pairing_store \<Rightarrow> (db_error, unit) result \<times> pairing_store" where
  "store_revert fault a s =
     (case ps_db s of None \<Rightarrow> (Inr (), s)
      | Some db \<Rightarrow> (case revert_pairing_approval fault a db of
          (Inl e, db') \<Rightarrow> (Inl e, s\<lparr>ps_db := Some db'\<rparr>)
        | (Inr _, db') \<Rightarrow> (Inr (), s\<lparr>ps_db := Some db', ps_cache := cache_evict (ap_channel a) (ap_external_id a) (ps_cache s)\<rparr>)))"

definition store_remove :: "string option \<Rightarrow> string \<Rightarrow> string \<Rightarrow> pairing_store \<Rightarrow> (db_error, unit) result \<times> pairing_store" where
  "store_remove fault channel0 ext s =
     (let channel = normalize_channel_name channel0
      in case ps_db s of
           None \<Rightarrow> (Inr (), s\<lparr>ps_cache := cache_evict channel ext (ps_cache s)\<rparr>)
         | Some db \<Rightarrow> (case remove_channel_identity fault channel ext db of
             (Inl e, db') \<Rightarrow> (Inl e, s\<lparr>ps_db := Some db'\<rparr>)
           | (Inr _, db') \<Rightarrow> (Inr (), s\<lparr>ps_db := Some db', ps_cache := cache_evict channel ext (ps_cache s)\<rparr>)))"

definition store_evict_user :: "string \<Rightarrow> pairing_store \<Rightarrow> pairing_store" where
  "store_evict_user owner s = s\<lparr>ps_cache := cache_evict_user owner (ps_cache s)\<rparr>"

section \<open>Administration of users\<close>

definition row_is_admin :: "user_row \<Rightarrow> bool" where
  "row_is_admin r \<longleftrightarrow> ascii_lower (ur_role r) = ''admin''"

definition is_last_admin :: "pairing_db \<Rightarrow> string \<Rightarrow> bool" where
  "is_last_admin db u \<longleftrightarrow>
     map fst (filter (\<lambda>(i, r). ur_status r = ''active'' \<and> row_is_admin r) (users db)) = [u]"

datatype admin_answer = AdminDone | AdminStatus nat string

text \<open>Each handler: the checks it makes, then the change with its evictions. \<open>s\<close> has the data base \<open>db\<close>.\<close>

definition with_db :: "(pairing_db \<Rightarrow> pairing_db) \<Rightarrow> pairing_store \<Rightarrow> pairing_store" where
  "with_db f s = s\<lparr>ps_db := map_option f (ps_db s)\<rparr>"

definition suspend_check :: "string \<Rightarrow> pairing_db \<Rightarrow> admin_answer" where
  "suspend_check u db =
     (if map_of (users db) u = None then AdminStatus 404 ''User not found''
      else if is_last_admin db u then AdminStatus 409 ''Cannot suspend the last admin''
      else AdminDone)"

definition suspend_act :: "string \<Rightarrow> pairing_store \<Rightarrow> pairing_store" where
  "suspend_act u s = store_evict_user u (with_db (update_user_status u ''suspended'') s)"

definition activate_act :: "string \<Rightarrow> pairing_store \<Rightarrow> pairing_store" where
  "activate_act u s = with_db (update_user_status u ''active'') s"

definition delete_check :: "string \<Rightarrow> pairing_db \<Rightarrow> admin_answer" where
  "delete_check u db = (if is_last_admin db u then AdminStatus 409 ''Cannot delete the last admin'' else AdminDone)"

definition delete_act :: "string \<Rightarrow> pairing_store \<Rightarrow> pairing_store" where
  "delete_act u s =
     (case ps_db s of None \<Rightarrow> s
      | Some db \<Rightarrow> if fst (delete_user u db) then store_evict_user u (with_db (snd \<circ> delete_user u) s) else s)"

definition role_check :: "string \<Rightarrow> string \<Rightarrow> pairing_db \<Rightarrow> admin_answer" where
  "role_check u role db =
     (case map_of (users db) u of
        None \<Rightarrow> AdminStatus 404 ''User not found''
      | Some row \<Rightarrow>
          if role \<noteq> ''admin'' \<and> role \<noteq> ''member'' then AdminStatus 400 ''role must be admin or member''
          else if role \<noteq> ur_role row \<and> row_is_admin row \<and> role = ''member'' \<and> is_last_admin db u
          then AdminStatus 409 ''Cannot demote the last admin''
          else AdminDone)"

definition role_act :: "string \<Rightarrow> string \<Rightarrow> pairing_store \<Rightarrow> pairing_store" where
  "role_act u role s = with_db (update_user_role u role) s"

text \<open>A handler with nothing in between.\<close>

definition checked :: "(pairing_db \<Rightarrow> admin_answer) \<Rightarrow> (pairing_store \<Rightarrow> pairing_store) \<Rightarrow> pairing_store \<Rightarrow> pairing_store" where
  "checked check act s = (case ps_db s of None \<Rightarrow> s | Some db \<Rightarrow> if check db = AdminDone then act s else s)"

definition activate_check :: "string \<Rightarrow> pairing_db \<Rightarrow> admin_answer" where
  "activate_check u db = (if map_of (users db) u = None then AdminStatus 404 ''User not found'' else AdminDone)"

datatype pairing_op =
  Resolve "string option" string string
| Request "string option" utc "(uuid \<times> string) list" string string "string option"
| Approve "string option" utc string string string
| Revert "string option" approval
| Remove "string option" string string
| Suspend string
| Activate string
| Delete string
| ChangeRole string string

fun pairing_step :: "pairing_store \<Rightarrow> pairing_op \<Rightarrow> pairing_store" where
  "pairing_step s (Resolve fault channel ext) = snd (resolve_identity fault channel ext s)"
| "pairing_step s (Request fault now codes channel ext meta) = snd (store_upsert_request fault now codes channel ext meta s)"
| "pairing_step s (Approve fault now channel code owner) = snd (store_approve fault now channel code owner s)"
| "pairing_step s (Revert fault a) = snd (store_revert fault a s)"
| "pairing_step s (Remove fault channel ext) = snd (store_remove fault channel ext s)"
| "pairing_step s (Suspend u) = checked (suspend_check u) (suspend_act u) s"
| "pairing_step s (Activate u) = checked (activate_check u) (activate_act u) s"
| "pairing_step s (Delete u) = checked (delete_check u) (delete_act u) s"
| "pairing_step s (ChangeRole u role) = checked (role_check u role) (role_act u role) s"

section \<open>Coherence of the cache\<close>

lemma ascii_lower_idem [simp]: "ascii_lower (ascii_lower s) = ascii_lower s"
  by (auto simp: ascii_lower_def)

lemma normalize_idem [simp]: "normalize_channel_name (normalize_channel_name c) = normalize_channel_name c"
  by (simp add: normalize_channel_name_def)

text \<open>What the data base says of a sender, by the key of its row.\<close>

definition resolve_key :: "pairing_db \<Rightarrow> sender \<Rightarrow> user_id option" where
  "resolve_key db k =
     (case map_of (identities db) k of None \<Rightarrow> None
      | Some owner \<Rightarrow> (case map_of (users db) owner of None \<Rightarrow> None
          | Some row \<Rightarrow> if ur_status row = ''active'' then Some \<lparr>uid = owner, uid_role = from_db_role (ur_role row)\<rparr> else None))"

lemma resolve_channel_identity_key: "resolve_channel_identity db channel ext = resolve_key db (normalize_channel_name channel, ext)"
  by (simp add: resolve_channel_identity_def resolve_key_def)

lemma resolve_key_Some: "resolve_key db k = Some i \<longleftrightarrow>
  map_of (identities db) k = Some (uid i) \<and>
  (\<exists>row. map_of (users db) (uid i) = Some row \<and> ur_status row = ''active'' \<and> uid_role i = from_db_role (ur_role row))"
  by (cases i) (auto simp: resolve_key_def split: option.splits if_splits)

definition coherent :: "pairing_store \<Rightarrow> bool" where
  "coherent s \<longleftrightarrow> (\<forall>k i. ps_cache s k = Some i \<longrightarrow> (\<exists>db. ps_db s = Some db \<and> resolve_key db k = Some i))"

lemma coherentD: "coherent s \<Longrightarrow> ps_cache s k = Some i \<Longrightarrow> \<exists>db. ps_db s = Some db \<and> resolve_key db k = Some i"
  by (cases k) (simp add: coherent_def)

text \<open>
  What the cache relies on: no approval takes a cached sender away from its owner, and no role
  changes of a user it holds.
\<close>

fun no_takeover :: "pairing_store \<Rightarrow> pairing_op \<Rightarrow> bool" where
  "no_takeover s (Approve fault now channel code owner) =
     (case fst (store_approve fault now channel code owner s) of
        Inr a \<Rightarrow> (case ps_cache s (ap_channel a, ap_external_id a) of Some i \<Rightarrow> uid i = owner | None \<Rightarrow> True)
      | Inl _ \<Rightarrow> True)"
| "no_takeover s (ChangeRole u role) = (\<forall>k i. ps_cache s k = Some i \<and> uid i = u \<longrightarrow> uid_role i = from_db_role role)"
| "no_takeover s _ = True"

lemma coherent_resolve: "coherent s \<Longrightarrow> coherent (snd (resolve_identity fault channel ext s))"
  by (auto simp: coherent_def resolve_identity_def resolve_query_def resolve_fill_def resolve_channel_identity_key split: option.splits)

lemma insert_request_tables: "insert_request cs new db = Some (r, db') \<Longrightarrow> identities db' = identities db \<and> users db' = users db"
  by (induction cs new db rule: insert_request.induct) (auto split: if_splits)

lemma upsert_tables: "upsert_pairing_request fault now codes channel ext meta db = (r, db') \<Longrightarrow>
    identities db' = identities db \<and> users db' = users db"
  by (auto simp: upsert_pairing_request_def Let_def retire_requests_def dest: insert_request_tables split: option.splits)

lemma resolve_key_tables: "identities db' = identities db \<Longrightarrow> users db' = users db \<Longrightarrow> resolve_key db' = resolve_key db"
  by (rule ext) (simp add: resolve_key_def cong: option.case_cong)

lemma coherent_request: "coherent s \<Longrightarrow> coherent (snd (store_upsert_request fault now codes channel ext meta s))"
  using resolve_key_tables [OF upsert_tables [THEN conjunct1] upsert_tables [THEN conjunct2]]
  by (auto simp: coherent_def store_upsert_request_def split: option.splits prod.splits)

lemma approve_pairing_tables:
  assumes "approve_pairing fault now channel code owner db = (Inr a, db')"
  shows "users db' = users db" and "identities db' = AList.update (ap_channel a, ap_external_id a) owner (identities db)"
    and "ap_owner a = owner" and "ap_previous_owner a = map_of (identities db) (ap_channel a, ap_external_id a)"
  using assms by (auto simp: approve_pairing_def Let_def split: option.splits if_splits)

lemma approve_pairing_fails: "approve_pairing fault now channel code owner db = (Inl e, db') \<Longrightarrow> db' = db"
  by (auto simp: approve_pairing_def Let_def split: option.splits if_splits)

lemma coherent_approve:
  assumes s: "coherent s" and no: "no_takeover s (Approve fault now channel code owner)"
  shows "coherent (snd (store_approve fault now channel code owner s))"
proof (cases "ps_db s")
  case None
  then show ?thesis using s by (simp add: store_approve_def)
next
  case (Some db)
  obtain r db' where app: "approve_pairing fault now (normalize_channel_name channel)
      (case normalize_submission code of Some c \<Rightarrow> c | None \<Rightarrow> trim code) owner db = (r, db')" by fastforce
  have store: "store_approve fault now channel code owner s = (r, s\<lparr>ps_db := Some db'\<rparr>)"
    using app by (simp add: store_approve_def Some Let_def)
  show ?thesis
  proof (cases r)
    case (Inl e)
    then have "db' = db" using approve_pairing_fails app by blast
    then show ?thesis using s Some by (simp add: store coherent_def)
  next
    case (Inr a)
    note tables = approve_pairing_tables [OF app [unfolded Inr]]
    have "resolve_key db' k = Some i" if "ps_cache s k = Some i" for k i
    proof -
      have "resolve_key db k = Some i" using coherentD [OF s that] Some by simp
      moreover have "k = (ap_channel a, ap_external_id a) \<longrightarrow> uid i = owner" using no that by (auto simp: store Inr)
      ultimately show ?thesis unfolding resolve_key_Some tables(1) tables(2) by (auto simp: update_conv')
    qed
    then show ?thesis by (simp add: store coherent_def)
  qed
qed

lemma map_of_filter_at: "q \<noteq> k \<Longrightarrow> map_of (filter (\<lambda>(x, y). x = k \<longrightarrow> P y) xs) q = map_of xs q"
  by (induction xs) auto

lemma map_of_filter_kept: "map_of xs k = Some y \<Longrightarrow> P y \<Longrightarrow> map_of (filter (\<lambda>(x, y). P y) xs) k = Some y"
  by (induction xs) (auto split: if_splits)

lemma revert_tables:
  assumes "revert_pairing_approval fault a db = (Inr u, db')"
  shows "users db' = users db" and "q \<noteq> (ap_channel a, ap_external_id a) \<Longrightarrow> map_of (identities db') q = map_of (identities db) q"
  using assms by (auto simp: revert_pairing_approval_def Let_def update_conv' map_of_filter_at split: option.splits if_splits)

lemma coherent_revert: "coherent s \<Longrightarrow> coherent (snd (store_revert fault a s))"
proof -
  assume s: "coherent s"
  show ?thesis
  proof (cases "ps_db s")
    case None
    then show ?thesis using s by (simp add: store_revert_def)
  next
    case (Some db)
    obtain r db' where rev: "revert_pairing_approval fault a db = (r, db')" by fastforce
    show ?thesis
    proof (cases r)
      case (Inl e)
      then have "db' = db" using rev by (auto simp: revert_pairing_approval_def Let_def split: option.splits if_splits)
      then show ?thesis using s Some rev Inl by (simp add: store_revert_def coherent_def)
    next
      case (Inr u)
      note tables = revert_tables [OF rev [unfolded Inr]]
      have "resolve_key db' k = Some i" if "cache_evict (ap_channel a) (ap_external_id a) (ps_cache s) k = Some i" for k i
        using that coherentD [OF s, of k i] Some tables by (auto simp: cache_evict_def resolve_key_Some split: if_splits)
      then show ?thesis using Some rev Inr by (simp add: store_revert_def coherent_def)
    qed
  qed
qed

lemma coherent_remove: "coherent s \<Longrightarrow> coherent (snd (store_remove fault channel ext s))"
  by (auto simp: coherent_def store_remove_def remove_channel_identity_def cache_evict_def Let_def resolve_key_Some delete_conv'
      split: option.splits)

lemma map_of_map_entry: "map_of (AList.map_entry u f xs) v = (if v = u then map_option f (map_of xs u) else map_of xs v)"
  by (induction xs) auto

lemma coherent_suspend: "coherent s \<Longrightarrow> coherent (suspend_act u s)"
  by (fastforce simp: coherent_def suspend_act_def store_evict_user_def with_db_def cache_evict_user_def map_retain_apply
      resolve_key_Some update_user_status_def map_of_map_entry split: option.splits)

lemma coherent_activate: "coherent s \<Longrightarrow> coherent (activate_act u s)"
  by (fastforce simp: coherent_def activate_act_def with_db_def resolve_key_Some update_user_status_def map_of_map_entry
      split: option.splits)

lemma coherent_delete: "coherent s \<Longrightarrow> coherent (delete_act u s)"
  by (auto simp: coherent_def delete_act_def store_evict_user_def with_db_def cache_evict_user_def map_retain_apply
      resolve_key_Some delete_user_def delete_conv' intro!: map_of_filter_kept split: option.splits)

lemma coherent_role: "coherent s \<Longrightarrow> no_takeover s (ChangeRole u role) \<Longrightarrow> coherent (role_act u role s)"
  by (fastforce simp: coherent_def role_act_def with_db_def resolve_key_Some update_user_role_def map_of_map_entry
      split: option.splits)

text \<open>
  The change an operation makes, whenever its handler made its checks: they are separate queries,
  and the change may follow them at any distance.
\<close>

fun pairing_act :: "pairing_store \<Rightarrow> pairing_op \<Rightarrow> pairing_store" where
  "pairing_act s (Suspend u) = suspend_act u s"
| "pairing_act s (Activate u) = activate_act u s"
| "pairing_act s (Delete u) = delete_act u s"
| "pairing_act s (ChangeRole u role) = role_act u role s"
| "pairing_act s op = pairing_step s op"

lemma pairing_step_act: "pairing_step s op = pairing_act s op \<or> pairing_step s op = s"
  by (cases op) (auto simp: checked_def split: option.splits)

lemma coherent_act: "coherent s \<Longrightarrow> no_takeover s op \<Longrightarrow> coherent (pairing_act s op)"
  by (cases op) (simp_all add: coherent_resolve coherent_request coherent_approve coherent_revert coherent_remove coherent_suspend
      coherent_activate coherent_delete coherent_role del: no_takeover.simps(1) no_takeover.simps(2))

section \<open>Operations that overlap\<close>

text \<open>
  Between the write of an operation and its evictions, and between the query of a lookup and the
  insertion of its answer, other operations run. \<open>db_part\<close> is what an operation does before its
  evictions.
\<close>

datatype eviction = EvictSender string string | EvictUser string

fun evict :: "eviction \<Rightarrow> pairing_store \<Rightarrow> pairing_store" where
  "evict (EvictSender channel ext) s = s\<lparr>ps_cache := cache_evict channel ext (ps_cache s)\<rparr>"
| "evict (EvictUser u) s = store_evict_user u s"

fun evictions :: "pairing_op \<Rightarrow> pairing_store \<Rightarrow> eviction list" where
  "evictions (Revert fault a) s =
     (if ps_db s \<noteq> None \<and> is_ok (fst (store_revert fault a s)) then [EvictSender (ap_channel a) (ap_external_id a)] else [])"
| "evictions (Remove fault channel ext) s =
     (if is_ok (fst (store_remove fault channel ext s)) then [EvictSender (normalize_channel_name channel) ext] else [])"
| "evictions (Suspend u) s = [EvictUser u]"
| "evictions (Delete u) s = (case ps_db s of None \<Rightarrow> [] | Some db \<Rightarrow> if fst (delete_user u db) then [EvictUser u] else [])"
| "evictions op s = []"

definition db_part :: "pairing_op \<Rightarrow> pairing_store \<Rightarrow> pairing_store" where
  "db_part op s = (pairing_act s op)\<lparr>ps_cache := ps_cache s\<rparr>"

fun is_lookup :: "pairing_op \<Rightarrow> bool" where
  "is_lookup (Resolve fault channel ext) = True"
| "is_lookup op = False"

lemma act_parts: "\<not> is_lookup op \<Longrightarrow> pairing_act s op = fold evict (evictions op s) (db_part op s)"
  by (cases op) (auto simp: db_part_def store_upsert_request_def store_approve_def store_revert_def store_remove_def Let_def
      suspend_act_def activate_act_def delete_act_def role_act_def store_evict_user_def with_db_def is_ok_def
      split: option.splits sum.splits prod.splits)

record pairing_system =
  sy_store :: pairing_store
  sy_lookups :: "(string \<times> string \<times> user_id option) list"
  sy_evictions :: "eviction list"

text \<open>
  The runs of the store: queries, insertions of what they found, writes and evictions, in any order.
  The side conditions are what the cache relies on: no write takes a cached sender away from its
  owner or changes the role of a cached user, and none changes the answer an unfinished lookup has.
\<close>

definition answers :: "pairing_store \<Rightarrow> string \<times> string \<times> user_id option \<Rightarrow> bool" where
  "answers s l = (case l of (channel, ext, found) \<Rightarrow> resolve_query None channel ext s = Inr found)"

inductive pairing_runs :: "pairing_db \<Rightarrow> pairing_system \<Rightarrow> bool" for db0 where
  run_start: "pairing_runs db0 \<lparr>sy_store = pairing_store_new db0, sy_lookups = [], sy_evictions = []\<rparr>"
| run_query: "pairing_runs db0 y \<Longrightarrow> resolve_query fault channel ext (sy_store y) = Inr found \<Longrightarrow>
    pairing_runs db0 (y\<lparr>sy_lookups := (channel, ext, found) # sy_lookups y\<rparr>)"
| run_fill: "pairing_runs db0 y \<Longrightarrow> (channel, ext, found) \<in> set (sy_lookups y) \<Longrightarrow>
    pairing_runs db0 (y\<lparr>sy_store := resolve_fill channel ext found (sy_store y), sy_lookups := remove1 (channel, ext, found) (sy_lookups y)\<rparr>)"
| run_write: "pairing_runs db0 y \<Longrightarrow> \<not> is_lookup op \<Longrightarrow> no_takeover (sy_store y) op \<Longrightarrow>
    list_all (\<lambda>l. answers (sy_store y) l \<longrightarrow> answers (db_part op (sy_store y)) l) (sy_lookups y) \<Longrightarrow>
    pairing_runs db0 (y\<lparr>sy_store := db_part op (sy_store y), sy_evictions := sy_evictions y @ evictions op (sy_store y)\<rparr>)"
| run_evict: "pairing_runs db0 y \<Longrightarrow> e \<in> set (sy_evictions y) \<Longrightarrow>
    pairing_runs db0 (y\<lparr>sy_store := evict e (sy_store y), sy_evictions := remove1 e (sy_evictions y)\<rparr>)"

fun evicts :: "eviction \<Rightarrow> sender \<Rightarrow> user_id \<Rightarrow> bool" where
  "evicts (EvictSender channel ext) k i \<longleftrightarrow> k = (channel, ext)"
| "evicts (EvictUser u) k i \<longleftrightarrow> uid i = u"

lemma evict_apply [simp]:
  "ps_db (evict e s) = ps_db s"
  "ps_cache (evict e s) k = Some i \<longleftrightarrow> ps_cache s k = Some i \<and> \<not> evicts e k i"
  by (cases e; auto simp: cache_evict_def store_evict_user_def cache_evict_user_def map_retain_apply split: option.splits)+

lemma fold_evict:
  "ps_db (fold evict es s) = ps_db s"
  "ps_cache (fold evict es s) k = Some i \<longleftrightarrow> ps_cache s k = Some i \<and> (\<forall>e\<in>set es. \<not> evicts e k i)"
  by (induction es arbitrary: s) auto

lemma cache_is_ignored:
  "\<not> is_lookup op \<Longrightarrow> evictions op (s\<lparr>ps_cache := c\<rparr>) = evictions op s"
  "\<not> is_lookup op \<Longrightarrow> ps_db (db_part op (s\<lparr>ps_cache := c\<rparr>)) = ps_db (db_part op s)"
  by (cases op; auto simp: db_part_def store_upsert_request_def store_approve_def store_revert_def store_remove_def Let_def
      suspend_act_def activate_act_def delete_act_def role_act_def store_evict_user_def with_db_def is_ok_def
      split: option.splits sum.splits prod.splits)+

lemma no_takeover_less:
  "no_takeover s op \<Longrightarrow> (\<And>k i. c k = Some i \<Longrightarrow> ps_cache s k = Some i) \<Longrightarrow> no_takeover (s\<lparr>ps_cache := c\<rparr>) op"
proof (cases op)
  case (Approve fault now channel code owner)
  assume "no_takeover s op" and c: "\<And>k i. c k = Some i \<Longrightarrow> ps_cache s k = Some i"
  moreover have "fst (store_approve fault now channel code owner (s\<lparr>ps_cache := c\<rparr>)) = fst (store_approve fault now channel code owner s)"
    by (simp add: store_approve_def Let_def split: option.split prod.split)
  ultimately show ?thesis using Approve by (auto split: sum.splits option.splits dest!: c)
next
  case (ChangeRole u role)
  assume "no_takeover s op" and "\<And>k i. c k = Some i \<Longrightarrow> ps_cache s k = Some i"
  then show ?thesis by (simp add: ChangeRole) blast
qed auto

text \<open>An entry that says what the data base says.\<close>

definition current :: "pairing_store \<Rightarrow> sender \<Rightarrow> user_id \<Rightarrow> bool" where
  "current s k i \<longleftrightarrow> (\<exists>db. ps_db s = Some db \<and> resolve_key db k = Some i)"

lemma current_evict [simp]: "current (evict e s) k i = current s k i"
  by (simp add: current_def)

lemma write_keeps:
  assumes op: "\<not> is_lookup op" "no_takeover s op" and k: "ps_cache s k = Some i" "current s k i"
  shows "current (db_part op s) k i \<or> (\<exists>e\<in>set (evictions op s). evicts e k i)"
proof -
  define c where "c = (\<lambda>q. case ps_cache s q of Some j \<Rightarrow> if current s q j then Some j else None | None \<Rightarrow> None)"
  have c: "c q = Some j \<longleftrightarrow> ps_cache s q = Some j \<and> current s q j" for q j by (auto simp: c_def split: option.splits if_splits)
  have "coherent (s\<lparr>ps_cache := c\<rparr>)" by (simp add: coherent_def c current_def)
  moreover have "no_takeover (s\<lparr>ps_cache := c\<rparr>) op" using op(2) by (rule no_takeover_less) (simp add: c)
  ultimately have "coherent (pairing_act (s\<lparr>ps_cache := c\<rparr>) op)" by (rule coherent_act)
  then have "coherent (fold evict (evictions op s) (db_part op (s\<lparr>ps_cache := c\<rparr>)))" using op(1) by (simp add: act_parts cache_is_ignored)
  moreover have "ps_cache (db_part op (s\<lparr>ps_cache := c\<rparr>)) k = Some i" using k by (simp add: db_part_def c)
  ultimately have "(\<forall>e\<in>set (evictions op s). \<not> evicts e k i) \<longrightarrow> current (db_part op (s\<lparr>ps_cache := c\<rparr>)) k i"
    by (cases k) (auto simp: coherent_def fold_evict current_def)
  then show ?thesis by (auto simp: current_def cache_is_ignored(2) [OF op(1)])
qed

definition settled :: "pairing_system \<Rightarrow> bool" where
  "settled y \<longleftrightarrow> (\<forall>k i. ps_cache (sy_store y) k = Some i \<longrightarrow> current (sy_store y) k i \<or> (\<exists>e\<in>set (sy_evictions y). evicts e k i)) \<and>
     (\<forall>l\<in>set (sy_lookups y). answers (sy_store y) l) \<and> ps_db (sy_store y) \<noteq> None"

lemma answers_db: "ps_db s = ps_db s' \<Longrightarrow> answers s l = answers s' l"
  by (cases l) (simp add: answers_def resolve_query_def)

lemma db_part_db: "ps_db s \<noteq> None \<Longrightarrow> ps_db (db_part op s) \<noteq> None"
  by (cases op) (auto simp: db_part_def store_upsert_request_def store_approve_def store_revert_def store_remove_def Let_def
      resolve_identity_def resolve_fill_def suspend_act_def activate_act_def delete_act_def role_act_def store_evict_user_def with_db_def
      split: option.splits sum.splits prod.splits)

lemma runs_settled: "pairing_runs db0 y \<Longrightarrow> settled y"
proof (induction rule: pairing_runs.induct)
  case run_start
  show ?case by (simp add: settled_def pairing_store_new_def)
next
  case (run_query y fault channel ext found)
  then show ?case by (auto simp: settled_def answers_def resolve_query_def split: option.splits)
next
  case (run_fill y channel ext found)
  have db: "ps_db (resolve_fill channel ext found (sy_store y)) = ps_db (sy_store y)" by (simp add: resolve_fill_def split: option.split)
  have "answers (sy_store y) (channel, ext, found)" using run_fill by (auto simp: settled_def)
  then have "current (sy_store y) (normalize_channel_name channel, ext) i" if "found = Some i" for i
    using that run_fill(3) by (auto simp: answers_def resolve_query_def current_def settled_def resolve_channel_identity_key split: option.splits)
  moreover have "current (resolve_fill channel ext found (sy_store y)) k i = current (sy_store y) k i" for k i
    by (simp add: current_def db)
  moreover have "l \<in> set (sy_lookups y)" if "l \<in> set (remove1 (channel, ext, found) (sy_lookups y))" for l
    using that set_remove1_subset by fastforce
  moreover have "ps_cache (resolve_fill channel ext found (sy_store y)) k = Some i \<Longrightarrow>
      ps_cache (sy_store y) k = Some i \<or> k = (normalize_channel_name channel, ext) \<and> found = Some i" for k i
    by (auto simp: resolve_fill_def split: option.splits if_splits)
  ultimately show ?case using run_fill(3) unfolding settled_def by (simp add: answers_db [OF db] db) blast
next
  case (run_write y op)
  then show ?case
    using write_keeps [OF run_write(2,3)] db_part_db [of "sy_store y" op]
    by (auto simp: settled_def list_all_iff) (force simp: db_part_def)
next
  case (run_evict y e)
  have "f \<in> set (remove1 e (sy_evictions y))" if "f \<in> set (sy_evictions y)" "f \<noteq> e" for f using that by simp
  moreover have "answers (evict e (sy_store y)) l = answers (sy_store y) l" for l by (rule answers_db) simp
  ultimately show ?case using run_evict(3) unfolding settled_def by (simp del: in_set_remove1) blast
qed

section \<open>Pairing codes\<close>

lemma AList_update_new: "k \<notin> fst ` set xs \<Longrightarrow> AList.update k v xs = xs @ [(k, v)]"
  by (induction xs) auto

text \<open>The request a code stands for.\<close>

definition request_for :: "utc \<Rightarrow> string \<Rightarrow> string \<Rightarrow> pairing_db \<Rightarrow> pairing_request \<Rightarrow> bool" where
  "request_for now channel code db r \<longleftrightarrow> r \<in> set (requests db) \<and> request_pending now r \<and>
     pr_channel r = normalize_channel_name channel \<and> ascii_upper (pr_code r) = ascii_upper (trim code)"

lemma ascii_upper_idem [simp]: "ascii_upper (ascii_upper s) = ascii_upper s"
  by (auto simp: ascii_upper_def)

lemma normalized_code: "ascii_upper (case normalize_submission code of Some c \<Rightarrow> c | None \<Rightarrow> trim code) = ascii_upper (trim code)"
  by (simp add: normalize_submission_def Let_def)

lemma store_approveD:
  assumes "ps_db s = Some db" and "store_approve fault now channel code owner s = (Inr a, s')"
  shows "\<exists>r. request_for now channel code db r \<and> ap_request_id a = pr_id r \<and> ap_channel a = pr_channel r \<and>
    ap_external_id a = pr_external_id r \<and> ap_owner a = owner \<and> ap_previous_owner a = map_of (identities db) (pr_channel r, pr_external_id r) \<and>
    s' = s\<lparr>ps_db := Some (db\<lparr>
      requests := map (\<lambda>q. if pr_id q = pr_id r then q\<lparr>pr_owner := Some owner, pr_approved_at := Some now\<rparr> else q) (requests db),
      identities := AList.update (pr_channel r, pr_external_id r) owner (identities db)\<rparr>)\<rparr>"
  using assms
  by (auto simp: store_approve_def approve_pairing_def Let_def normalized_code request_for_def
      split: option.splits prod.splits if_split_asm dest!: find_SomeD)

section \<open>Administrators\<close>

definition active_admins :: "pairing_db \<Rightarrow> string list" where
  "active_admins db = map fst (filter (\<lambda>(i, r). ur_status r = ''active'' \<and> row_is_admin r) (users db))"

lemma is_last_admin_iff: "is_last_admin db u \<longleftrightarrow> active_admins db = [u]"
  by (simp add: is_last_admin_def active_admins_def)

lemma in_active_admins: "distinct (map fst (users db)) \<Longrightarrow>
    i \<in> set (active_admins db) \<longleftrightarrow> (\<exists>r. map_of (users db) i = Some r \<and> ur_status r = ''active'' \<and> row_is_admin r)"
  by (force simp: active_admins_def)

text \<open>Somebody can administer: the table has one row per user and an active administrator.\<close>

definition administered :: "pairing_store \<Rightarrow> bool" where
  "administered s \<longleftrightarrow> (\<exists>db. ps_db s = Some db \<and> distinct (map fst (users db)) \<and> active_admins db \<noteq> [])"

lemma another_admin:
  assumes "distinct (map fst (users db))" and "active_admins db \<noteq> []" and "\<not> is_last_admin db u"
  shows "\<exists>v. v \<noteq> u \<and> v \<in> set (active_admins db)"
proof -
  have "distinct (active_admins db)" unfolding active_admins_def using assms(1) by (rule distinct_map_filter)
  with assms(2,3) show ?thesis
    by (cases "active_admins db" rule: remdups_adj.cases) (simp, simp add: is_last_admin_iff, metis distinct_length_2_or_more list.set_intros)
qed

lemma administeredI: "distinct (map fst (users db)) \<Longrightarrow> v \<in> set (active_admins db) \<Longrightarrow> ps_db s = Some db \<Longrightarrow> administered s"
  by (auto simp: administered_def)

lemma map_fst_map_entry [simp]: "map fst (AList.map_entry u f xs) = map fst xs"
  by (induction xs) auto

lemma administered_entry:
  assumes s: "ps_db s = Some db" "distinct (map fst (users db))"
    and v: "v \<in> set (active_admins db)" "v = u \<longrightarrow> (\<forall>r. ur_status r = ''active'' \<and> row_is_admin r \<longrightarrow> ur_status (f r) = ''active'' \<and> row_is_admin (f r))"
  shows "v \<in> set (active_admins (db\<lparr>users := AList.map_entry u f (users db)\<rparr>))"
proof -
  have "distinct (map fst (users (db\<lparr>users := AList.map_entry u f (users db)\<rparr>)))" using s(2) by simp
  from in_active_admins [OF this, of v] in_active_admins [OF s(2), of v] v show ?thesis
    by (auto simp: map_of_map_entry)
qed

lemma administered_same: "administered s \<Longrightarrow> ps_db s = Some db \<Longrightarrow> users db' = users db \<Longrightarrow> ps_db s' = Some db' \<Longrightarrow> administered s'"
  by (simp add: administered_def active_admins_def)

lemma administeredE:
  assumes "administered s"
  obtains db where "ps_db s = Some db" and "distinct (map fst (users db))" and "active_admins db \<noteq> []"
  using assms by (auto simp: administered_def)

lemma administered_checked:
  assumes "administered s"
    and "\<And>db. ps_db s = Some db \<Longrightarrow> distinct (map fst (users db)) \<Longrightarrow> active_admins db \<noteq> [] \<Longrightarrow> check db = AdminDone \<Longrightarrow> administered (act s)"
  shows "administered (checked check act s)"
  using assms by (auto simp: checked_def administered_def)

lemma administered_store:
  assumes "administered s"
  shows "administered (snd (store_upsert_request fault now codes channel ext meta s))"
    and "administered (snd (store_approve fault now channel code owner s))"
    and "administered (snd (store_revert fault a s))"
    and "administered (snd (store_remove fault channel ext s))"
    and "administered (snd (resolve_identity fault channel ext s))"
proof -
  obtain db where db: "ps_db s = Some db" using assms by (rule administeredE)
  have put: "administered (s\<lparr>ps_db := Some db'\<rparr>)" "administered (s\<lparr>ps_db := Some db', ps_cache := c\<rparr>)" if "users db' = users db" for db' c
    using administered_same [OF assms db that] by simp_all
  obtain r db' where up: "upsert_pairing_request fault now codes (normalize_channel_name channel) ext meta db = (r, db')" by fastforce
  show "administered (snd (store_upsert_request fault now codes channel ext meta s))"
    using up upsert_tables [OF up] put by (simp add: store_upsert_request_def db)
  show "administered (snd (store_approve fault now channel code owner s))"
    by (auto simp: store_approve_def approve_pairing_def db Let_def put split: option.splits)
  show "administered (snd (store_revert fault a s))"
    by (auto simp: store_revert_def revert_pairing_approval_def db Let_def put split: option.splits)
  show "administered (snd (store_remove fault channel ext s))"
    by (auto simp: store_remove_def remove_channel_identity_def db Let_def put split: option.splits)
  show "administered (snd (resolve_identity fault channel ext s))"
    using assms by (auto simp: resolve_identity_def resolve_fill_def administered_def split: option.splits sum.splits)
qed

lemma administered_suspend: "administered s \<Longrightarrow> administered (checked (suspend_check u) (suspend_act u) s)"
proof (erule administered_checked)
  fix db
  assume db: "ps_db s = Some db" "distinct (map fst (users db))" "active_admins db \<noteq> []" and "suspend_check u db = AdminDone"
  then have "\<not> is_last_admin db u" by (auto simp: suspend_check_def split: if_splits)
  then obtain v where v: "v \<noteq> u" "v \<in> set (active_admins db)" using another_admin [OF db(2,3)] by blast
  then have "v \<in> set (active_admins (update_user_status u ''suspended'' db))"
    unfolding update_user_status_def by (intro administered_entry [OF db(1,2)]) auto
  then show "administered (suspend_act u s)" using db
    by (auto simp: suspend_act_def store_evict_user_def with_db_def update_user_status_def intro: administeredI [rotated])
qed

lemma administered_activate: "administered s \<Longrightarrow> administered (checked (activate_check u) (activate_act u) s)"
proof (erule administered_checked)
  fix db
  assume db: "ps_db s = Some db" "distinct (map fst (users db))" "active_admins db \<noteq> []"
  then obtain v where "v \<in> set (active_admins db)" by (cases "active_admins db") auto
  then have "v \<in> set (active_admins (update_user_status u ''active'' db))"
    unfolding update_user_status_def by (intro administered_entry [OF db(1,2)]) (auto simp: row_is_admin_def)
  then show "administered (activate_act u s)" using db
    by (auto simp: activate_act_def with_db_def update_user_status_def intro: administeredI [rotated])
qed

lemma administered_delete: "administered s \<Longrightarrow> administered (checked (delete_check u) (delete_act u) s)"
proof (rule administered_checked, assumption)
  fix db
  assume s: "administered s" and db: "ps_db s = Some db" "distinct (map fst (users db))" "active_admins db \<noteq> []"
    and "delete_check u db = AdminDone"
  then have "\<not> is_last_admin db u" by (auto simp: delete_check_def split: if_splits)
  then obtain v where v: "v \<noteq> u" "v \<in> set (active_admins db)" using another_admin [OF db(2,3)] by blast
  have left: "distinct (map fst (users (snd (delete_user u db))))" using distinct_delete [OF db(2)] by (simp add: delete_user_def)
  from v in_active_admins [OF db(2), of v] have "v \<in> set (active_admins (snd (delete_user u db)))"
    unfolding in_active_admins [OF left] by (auto simp: delete_user_def delete_conv')
  from administeredI [OF left this] s show "administered (delete_act u s)"
    by (simp add: delete_act_def store_evict_user_def with_db_def db(1))
qed

lemma administered_role: "administered s \<Longrightarrow> administered (checked (role_check u role) (role_act u role) s)"
proof (erule administered_checked)
  fix db
  assume db: "ps_db s = Some db" "distinct (map fst (users db))" "active_admins db \<noteq> []" and "role_check u role db = AdminDone"
  then obtain row where row: "map_of (users db) u = Some row"
    "role \<noteq> ''admin'' \<and> role \<noteq> ur_role row \<and> row_is_admin row \<longrightarrow> \<not> is_last_admin db u"
    by (auto simp: role_check_def split: option.splits if_splits)
  have "\<exists>v. v \<in> set (active_admins db) \<and> (v = u \<longrightarrow> role = ''admin'' \<or> role = ur_role row)"
  proof (cases "is_last_admin db u")
    case True
    then have u: "u \<in> set (active_admins db)" by (simp add: is_last_admin_iff)
    then have "row_is_admin row" using in_active_admins [OF db(2), of u] row(1) by simp
    with row True u show ?thesis by blast
  qed (use another_admin [OF db(2,3)] in blast)
  then obtain v where v: "v \<in> set (active_admins db)" "v = u \<longrightarrow> role = ''admin'' \<or> role = ur_role row" by blast
  have left: "distinct (map fst (users (update_user_role u role db)))" using db(2) by (simp add: update_user_role_def)
  have "v \<in> set (active_admins (update_user_role u role db))"
    unfolding in_active_admins [OF left] using in_active_admins [OF db(2), of v] v row(1)
    by (cases "v = u") (auto simp: update_user_role_def map_of_map_entry row_is_admin_def ascii_lower_def)
  from administeredI [OF left this] show "administered (role_act u role s)" by (simp add: role_act_def with_db_def db(1))
qed

interpretation administration: machine pairing_step administered
proof unfold_locales
  fix s op
  assume "administered s"
  then show "administered (pairing_step s op)"
    by (cases op) (simp_all add: administered_store administered_suspend administered_activate administered_delete administered_role)
qed

section \<open>Properties\<close>

text \<open>
  C10. However the operations of the store overlap: as long as no approval takes a cached sender away
  from its owner, no cached user changes role, and no write changes the answer of a lookup that is
  between its query and its insertion, resolving a sender gives what the data base says, except for a
  cached answer that an operation, its write done, is about to evict.
\<close>

theorem cache_agrees_with_database:
  assumes runs: "pairing_runs db0 y" and db: "ps_db (sy_store y) = Some db"
    and clear: "\<And>e i. e \<in> set (sy_evictions y) \<Longrightarrow> resolve_cached channel ext (sy_store y) = Some i \<Longrightarrow>
      \<not> evicts e (normalize_channel_name channel, ext) i"
  shows "fst (resolve_identity None channel ext (sy_store y)) = Inr (resolve_channel_identity db channel ext)"
proof -
  have "settled y" using runs by (rule runs_settled)
  have "resolve_channel_identity db channel ext = Some i" if i: "resolve_cached channel ext (sy_store y) = Some i" for i
  proof -
    from \<open>settled y\<close> i clear [OF _ i] have "current (sy_store y) (normalize_channel_name channel, ext) i"
      unfolding settled_def resolve_cached_def by blast
    then show ?thesis by (simp add: current_def db resolve_channel_identity_key)
  qed
  then show ?thesis
    by (auto simp: resolve_identity_def resolve_query_def resolve_fill_def resolve_channel_identity_key db split: option.split)
qed

definition sample_pairing_db :: pairing_db where
  "sample_pairing_db = \<lparr>users = [(''ann'', \<lparr>ur_role = ''admin'', ur_status = ''active''\<rparr>), (''bob'', \<lparr>ur_role = ''admin'', ur_status = ''active''\<rparr>)],
     identities = [((''telegram'', ''7''), ''ann'')], requests = []\<rparr>"

definition sample_run :: pairing_system where
  "sample_run =
     (let s0 = pairing_store_new sample_pairing_db;
          found = (case resolve_query None ''telegram'' ''7'' s0 of Inr f \<Rightarrow> f | Inl _ \<Rightarrow> None);
          s1 = resolve_fill ''telegram'' ''7'' found s0
      in \<lparr>sy_store = db_part (Suspend ''bob'') s1, sy_lookups = [], sy_evictions = [EvictUser ''bob'']\<rparr>)"

lemma sample_runs: "pairing_runs sample_pairing_db sample_run"
proof -
  define s0 where "s0 = pairing_store_new sample_pairing_db"
  obtain found where found: "resolve_query None ''telegram'' ''7'' s0 = Inr found"
    by (simp add: s0_def pairing_store_new_def resolve_query_def)
  define s1 where "s1 = resolve_fill ''telegram'' ''7'' found s0"
  have "pairing_runs sample_pairing_db \<lparr>sy_store = s0, sy_lookups = [(''telegram'', ''7'', found)], sy_evictions = []\<rparr>"
    using run_query [OF run_start [of sample_pairing_db], of None "''telegram''" "''7''" found] found by (simp add: s0_def)
  from run_fill [OF this, of "''telegram''" "''7''" found]
  have "pairing_runs sample_pairing_db \<lparr>sy_store = s1, sy_lookups = [], sy_evictions = []\<rparr>" by (simp add: s1_def)
  from run_write [OF this, of "Suspend ''bob''"]
  have "pairing_runs sample_pairing_db \<lparr>sy_store = db_part (Suspend ''bob'') s1, sy_lookups = [], sy_evictions = [EvictUser ''bob'']\<rparr>" by simp
  then show ?thesis using found by (simp add: sample_run_def s0_def s1_def Let_def)
qed

theorem cache_agrees_with_database_witness:
  "\<exists>db. ps_db (sy_store sample_run) = Some db \<and> sy_evictions sample_run = [EvictUser ''bob''] \<and>
    resolve_cached ''Telegram'' ''7'' (sy_store sample_run) = Some \<lparr>uid = ''ann'', uid_role = AdminRole\<rparr> \<and>
    fst (resolve_identity None ''Telegram'' ''7'' (sy_store sample_run)) = Inr (resolve_channel_identity db ''Telegram'' ''7'')"
proof -
  have evs: "sy_evictions sample_run = [EvictUser ''bob'']" by (simp add: sample_run_def Let_def)
  have cached: "resolve_cached ''Telegram'' ''7'' (sy_store sample_run) = Some \<lparr>uid = ''ann'', uid_role = AdminRole\<rparr>" by code_simp
  obtain db where db: "ps_db (sy_store sample_run) = Some db"
    using runs_settled [OF sample_runs] by (auto simp: settled_def)
  have "fst (resolve_identity None ''Telegram'' ''7'' (sy_store sample_run)) = Inr (resolve_channel_identity db ''Telegram'' ''7'')"
    by (rule cache_agrees_with_database [OF sample_runs db]) (auto simp: evs cached)
  with evs cached db show ?thesis by blast
qed

text \<open>
  The cache outlives what it was filled from. A sender whose code another owner redeems is still
  resolved to the first owner; one that is unlinked while a lookup is between its query and its
  insertion is resolved as before; and a user whose role is taken away keeps it in the cache.
\<close>

theorem cache_outlives_database:
  assumes cached: "resolve_cached channel ext s = Some i" and fresh: "resolve_cached channel2 ext2 t = None"
    and query: "resolve_query None channel2 ext2 t = Inr (Some j)"
  shows "fst (resolve_identity fault channel ext (snd (store_approve fault' now channel' code owner s))) = Inr (Some i) \<and>
    fst (resolve_identity fault channel ext (pairing_step s (ChangeRole u role))) = Inr (Some i) \<and>
    (case store_remove None channel2 ext2 t of (r, t') \<Rightarrow> r = Inr () \<and> resolve_query None channel2 ext2 t' = Inr None \<and>
      fst (resolve_identity fault channel2 ext2 (resolve_fill channel2 ext2 (Some j) t')) = Inr (Some j))"
proof (intro conjI)
  show "fst (resolve_identity fault channel ext (snd (store_approve fault' now channel' code owner s))) = Inr (Some i)"
    using cached by (simp add: resolve_identity_def resolve_cached_def store_approve_def Let_def split: option.split prod.split)
  show "fst (resolve_identity fault channel ext (pairing_step s (ChangeRole u role))) = Inr (Some i)"
    using cached by (simp add: resolve_identity_def resolve_cached_def checked_def role_act_def with_db_def split: option.split)
  show "case store_remove None channel2 ext2 t of (r, t') \<Rightarrow> r = Inr () \<and> resolve_query None channel2 ext2 t' = Inr None \<and>
      fst (resolve_identity fault channel2 ext2 (resolve_fill channel2 ext2 (Some j) t')) = Inr (Some j)"
    using query by (auto simp: store_remove_def remove_channel_identity_def resolve_query_def resolve_identity_def resolve_cached_def
        resolve_fill_def resolve_channel_identity_key resolve_key_def delete_conv' Let_def split: option.splits)
qed

theorem cache_outlives_database_witness:
  "resolve_query None ''telegram'' ''7'' (pairing_store_new sample_pairing_db) = Inr (Some \<lparr>uid = ''ann'', uid_role = AdminRole\<rparr>) \<and>
   (case store_remove None ''telegram'' ''7'' (pairing_store_new sample_pairing_db) of (r, t') \<Rightarrow>
      fst (resolve_identity None ''telegram'' ''7'' (resolve_fill ''telegram'' ''7'' (Some \<lparr>uid = ''ann'', uid_role = AdminRole\<rparr>) t')) =
        Inr (Some \<lparr>uid = ''ann'', uid_role = AdminRole\<rparr>))"
proof -
  define t where "t = pairing_store_new sample_pairing_db"
  have query: "resolve_query None ''telegram'' ''7'' t = Inr (Some \<lparr>uid = ''ann'', uid_role = AdminRole\<rparr>)" unfolding t_def by code_simp
  have cached: "resolve_cached ''telegram'' ''7'' (snd (resolve_identity None ''telegram'' ''7'' t)) = Some \<lparr>uid = ''ann'', uid_role = AdminRole\<rparr>"
    unfolding t_def by code_simp
  have fresh: "resolve_cached ''telegram'' ''7'' t = None" unfolding t_def by code_simp
  from cache_outlives_database [OF cached fresh query, of None] query show ?thesis unfolding t_def by (auto split: prod.splits)
qed

text \<open>
  C9. A code pairs exactly the sender it was made for: approving succeeds only for a pending request
  of this channel with this code, up to case and surrounding white space. It changes the owner of
  that request's sender and of nobody else, and as long as no two requests share a code it cannot be
  redeemed again.
\<close>

theorem code_pairs_only_its_sender:
  assumes db: "ps_db s = Some db" and ok: "store_approve None now channel code owner s = (Inr a, s')"
    and codes: "distinct (map (ascii_upper \<circ> pr_code) (requests db))"
  shows "\<exists>r db'. request_for now channel code db r \<and> ps_db s' = Some db' \<and>
    map_of (identities db') = (map_of (identities db))((pr_channel r, pr_external_id r) \<mapsto> owner) \<and> users db' = users db \<and>
    (\<forall>later owner2. \<not> is_ok (fst (store_approve None later channel code owner2 s')))"
proof -
  obtain r where r: "request_for now channel code db r" and s': "s' = s\<lparr>ps_db := Some (db\<lparr>
      requests := map (\<lambda>q. if pr_id q = pr_id r then q\<lparr>pr_owner := Some owner, pr_approved_at := Some now\<rparr> else q) (requests db),
      identities := AList.update (pr_channel r, pr_external_id r) owner (identities db)\<rparr>)\<rparr>"
    using store_approveD [OF db ok] by blast
  define db' where "db' = db\<lparr>
      requests := map (\<lambda>q. if pr_id q = pr_id r then q\<lparr>pr_owner := Some owner, pr_approved_at := Some now\<rparr> else q) (requests db),
      identities := AList.update (pr_channel r, pr_external_id r) owner (identities db)\<rparr>"
  have db': "ps_db s' = Some db'" by (simp add: s' db'_def)
  have "\<not> request_for later channel code db' q" for later q
  proof
    assume "request_for later channel code db' q"
    then obtain q0 where q0: "q0 \<in> set (requests db)" "ascii_upper (pr_code q0) = ascii_upper (trim code)"
      "q = (if pr_id q0 = pr_id r then q0\<lparr>pr_owner := Some owner, pr_approved_at := Some now\<rparr> else q0)"
      and open_q: "pr_approved_at q = None"
      by (auto simp: request_for_def request_pending_def db'_def split: if_splits)
    have "r \<in> set (requests db)" "ascii_upper (pr_code r) = ascii_upper (trim code)" using r by (auto simp: request_for_def)
    with q0(1,2) codes have "q0 = r" by (auto simp: distinct_map inj_on_def)
    with q0(3) open_q show False by simp
  qed
  then have "\<not> is_ok (fst (store_approve None later channel code owner2 s'))" for later owner2
    using store_approveD [OF db', of None later channel code owner2]
    by (cases "store_approve None later channel code owner2 s'") (auto simp: is_ok_iff)
  then show ?thesis using r db' by (intro exI [of _ r] exI [of _ db']) (simp add: db'_def update_conv')
qed

definition sample_store :: pairing_store where
  "sample_store = pairing_store_new (sample_pairing_db\<lparr>requests := [\<lparr>pr_id = 1, pr_channel = ''signal'', pr_external_id = ''+1'',
     pr_code = ''ABCD2345'', pr_owner = None, pr_meta = None, pr_created_at = 0, pr_expires_at = 900000, pr_approved_at = None\<rparr>]\<rparr>)"

theorem code_pairs_only_its_sender_witness:
  "\<exists>a s'. store_approve None 5 ''Signal'' '' abcd2345'' ''bob'' sample_store = (Inr a, s') \<and>
    \<not> is_ok (fst (store_approve None 6 ''Signal'' '' abcd2345'' ''ann'' s'))"
proof -
  have "is_ok (fst (store_approve None 5 ''Signal'' '' abcd2345'' ''bob'' sample_store))" by code_simp
  then obtain a s' where ok: "store_approve None 5 ''Signal'' '' abcd2345'' ''bob'' sample_store = (Inr a, s')"
    by (cases "store_approve None 5 ''Signal'' '' abcd2345'' ''bob'' sample_store") (auto simp: is_ok_iff)
  have db: "ps_db sample_store = Some (the (ps_db sample_store))" by (simp add: sample_store_def pairing_store_new_def)
  from code_pairs_only_its_sender [OF db ok] ok show ?thesis
    by (auto simp: sample_store_def pairing_store_new_def)
qed

text \<open>
  C11. One after the other, the handlers of the administration never leave the deployment without an
  active administrator.
\<close>

theorem an_admin_remains:
  assumes "distinct (map fst (users db))" and "active_admins db \<noteq> []"
  shows "\<exists>db'. ps_db (foldl pairing_step (pairing_store_new db) ops) = Some db' \<and> active_admins db' \<noteq> []"
proof -
  have "administered (pairing_store_new db)" using assms by (simp add: administered_def pairing_store_new_def)
  then have "administered (foldl pairing_step (pairing_store_new db) ops)" by (rule administration.run_inv)
  then show ?thesis by (auto simp: administered_def)
qed

theorem an_admin_remains_witness:
  "\<exists>db'. ps_db (foldl pairing_step (pairing_store_new sample_pairing_db) [Suspend ''ann'', Delete ''bob'', ChangeRole ''bob'' ''member'']) = Some db' \<and>
    active_admins db' \<noteq> []"
  by (rule an_admin_remains) (simp_all add: sample_pairing_db_def active_admins_def row_is_admin_def ascii_lower_def)

text \<open>With their checks before either change, two handlers can suspend the last two administrators.\<close>

lemma last_admins_race:
  "suspend_check ''ann'' sample_pairing_db = AdminDone \<and> suspend_check ''bob'' sample_pairing_db = AdminDone \<and>
    map_option active_admins (ps_db (suspend_act ''bob'' (suspend_act ''ann'' (pairing_store_new sample_pairing_db)))) = Some []"
  by code_simp

text \<open>
  Reverting an approval undoes it: every sender has the owner it had, the requests are those
  there were, the redeemed one pending again, and the sender is not cached.
\<close>

theorem revert_undoes_approval:
  assumes db: "ps_db s = Some db" and ok: "store_approve None now channel code owner s = (Inr a, s')"
    and ids: "distinct (map pr_id (requests db))"
    and fresh: "list_all (\<lambda>r. pr_approved_at r = None \<longrightarrow> pr_owner r = None) (requests db)"
    and owners: "\<And>k p. map_of (identities db) k = Some p \<Longrightarrow> map_of (users db) p \<noteq> None"
  shows "\<exists>db'. store_revert None a s' = (Inr (), s'\<lparr>ps_db := Some db', ps_cache := cache_evict (ap_channel a) (ap_external_id a) (ps_cache s)\<rparr>) \<and>
    map_of (identities db') = map_of (identities db) \<and> requests db' = requests db \<and> users db' = users db"
proof -
  obtain r where r: "request_for now channel code db r" and a: "ap_request_id a = pr_id r" "ap_channel a = pr_channel r"
      "ap_external_id a = pr_external_id r" "ap_owner a = owner" "ap_previous_owner a = map_of (identities db) (pr_channel r, pr_external_id r)"
    and s': "s' = s\<lparr>ps_db := Some (db\<lparr>
      requests := map (\<lambda>q. if pr_id q = pr_id r then q\<lparr>pr_owner := Some owner, pr_approved_at := Some now\<rparr> else q) (requests db),
      identities := AList.update (pr_channel r, pr_external_id r) owner (identities db)\<rparr>)\<rparr>"
    using store_approveD [OF db ok] by blast
  have in_r: "r \<in> set (requests db)" "pr_approved_at r = None" using r by (auto simp: request_for_def request_pending_def)
  have same: "q = r" if "q \<in> set (requests db)" "pr_id q = pr_id r" for q
    using that in_r(1) ids by (auto simp: distinct_map inj_on_def)
  have r_same: "r\<lparr>pr_owner := None, pr_approved_at := None\<rparr> = r"
    using fresh in_r by (cases r) (auto simp: list_all_iff)
  define k where "k = (pr_channel r, pr_external_id r)"
  have undone: "map_of (case map_of (identities db) k of Some p \<Rightarrow> AList.update k p (AList.update k owner (identities db))
      | None \<Rightarrow> filter (\<lambda>(q, o'). q = k \<longrightarrow> o' \<noteq> owner) (AList.update k owner (identities db))) = map_of (identities db)"
  proof (cases "map_of (identities db) k")
    case None
    then have "k \<notin> fst ` set (identities db)" by (simp add: map_of_eq_None_iff)
    moreover from this have "filter (\<lambda>(q, o'). q = k \<longrightarrow> o' \<noteq> owner) (identities db) = identities db"
      by (force simp: filter_id_conv)
    ultimately show ?thesis using None by (simp add: AList_update_new)
  next
    case (Some p)
    then show ?thesis by (simp add: update_conv' fun_upd_idem)
  qed
  have reqs: "map (\<lambda>q. if pr_id q = pr_id r \<and> pr_owner q = Some owner \<and> pr_approved_at q \<noteq> None then q\<lparr>pr_owner := None, pr_approved_at := None\<rparr> else q)
      (map (\<lambda>q. if pr_id q = pr_id r then q\<lparr>pr_owner := Some owner, pr_approved_at := Some now\<rparr> else q) (requests db)) = requests db"
    by (auto intro!: map_idI) (metis same r_same)
  have hit: "list_ex (\<lambda>q. pr_id q = pr_id r \<and> pr_owner q = Some owner \<and> pr_approved_at q \<noteq> None)
      (map (\<lambda>q. if pr_id q = pr_id r then q\<lparr>pr_owner := Some owner, pr_approved_at := Some now\<rparr> else q) (requests db))"
    unfolding list_ex_iff set_map using in_r(1) by (intro bexI [OF _ imageI [of r]]) simp_all
  define db' where "db' = db\<lparr>identities := (case map_of (identities db) k of
      Some p \<Rightarrow> AList.update k p (AList.update k owner (identities db))
    | None \<Rightarrow> filter (\<lambda>(q, o'). q = k \<longrightarrow> o' \<noteq> owner) (AList.update k owner (identities db)))\<rparr>"
  have "\<not> (case map_of (identities db) (pr_channel r, pr_external_id r) of None \<Rightarrow> False | Some p \<Rightarrow> map_of (users db) p = None)"
    using owners by (auto split: option.splits)
  then have "store_revert None a s' = (Inr (), s'\<lparr>ps_db := Some db', ps_cache := cache_evict (ap_channel a) (ap_external_id a) (ps_cache s)\<rparr>)"
    using hit reqs by (simp add: store_revert_def revert_pairing_approval_def s' a Let_def db'_def k_def del: map_map cong: option.case_cong)
  moreover have "map_of (identities db') = map_of (identities db)" using undone by (simp add: db'_def)
  ultimately show ?thesis by (intro exI [of _ db']) (simp add: db'_def)
qed

theorem revert_undoes_approval_witness:
  "\<exists>a s' db'. store_approve None 5 ''Signal'' '' abcd2345'' ''bob'' sample_store = (Inr a, s') \<and>
    store_revert None a s' = (Inr (), s'\<lparr>ps_db := Some db', ps_cache := cache_evict (ap_channel a) (ap_external_id a) (ps_cache sample_store)\<rparr>) \<and>
    map_of (identities db') = map_of (identities sample_pairing_db)"
proof -
  have "is_ok (fst (store_approve None 5 ''Signal'' '' abcd2345'' ''bob'' sample_store))" by code_simp
  then obtain a s' where ok: "store_approve None 5 ''Signal'' '' abcd2345'' ''bob'' sample_store = (Inr a, s')"
    by (cases "store_approve None 5 ''Signal'' '' abcd2345'' ''bob'' sample_store") (auto simp: is_ok_iff)
  have db: "ps_db sample_store = Some (the (ps_db sample_store))" by (simp add: sample_store_def pairing_store_new_def)
  have "map_of (users (the (ps_db sample_store))) p \<noteq> None" if "map_of (identities (the (ps_db sample_store))) k = Some p" for k p
    using that by (auto simp: sample_store_def pairing_store_new_def sample_pairing_db_def split: if_splits)
  have "distinct (map pr_id (requests (the (ps_db sample_store))))"
    and "list_all (\<lambda>r. pr_approved_at r = None \<longrightarrow> pr_owner r = None) (requests (the (ps_db sample_store)))"
    by (simp_all add: sample_store_def pairing_store_new_def)
  from revert_undoes_approval [OF db ok this] \<open>\<And>k p. map_of (identities (the (ps_db sample_store))) k = Some p \<Longrightarrow> map_of (users (the (ps_db sample_store))) p \<noteq> None\<close>
  obtain db' where "store_revert None a s' = (Inr (), s'\<lparr>ps_db := Some db', ps_cache := cache_evict (ap_channel a) (ap_external_id a) (ps_cache sample_store)\<rparr>)"
    "map_of (identities db') = map_of (identities (the (ps_db sample_store)))" by blast
  with ok show ?thesis
    by (auto simp: sample_store_def pairing_store_new_def sample_pairing_db_def)
qed

end
