(* ===== verification/Hooks.thy ===== *)
theory Hooks
  imports ChatMessages Redaction "HOL-Library.AList"
begin

text \<open>
  Lifecycle hooks: \<open>src/hooks/hook.rs\<close>, the registry of \<open>src/hooks/registry.rs\<close>, and what its callers
  make of the answer of a run: the chat dispatcher, the worker of a job, the hook gate and the adapter
  of the engine for calls of tools, the agent loop for messages. A hook is a function of the event and
  of a world it may change; that it ran into its timeout is one of its answers.
\<close>

section \<open>Events and hooks\<close>

datatype hook_point = BeforeInbound | BeforeToolCall | BeforeOutbound | OnSessionStart | OnSessionEnd | TransformResponse

fun hook_point_str :: "hook_point \<Rightarrow> string" where
  "hook_point_str BeforeInbound = ''beforeInbound''"
| "hook_point_str BeforeToolCall = ''beforeToolCall''"
| "hook_point_str BeforeOutbound = ''beforeOutbound''"
| "hook_point_str OnSessionStart = ''onSessionStart''"
| "hook_point_str OnSessionEnd = ''onSessionEnd''"
| "hook_point_str TransformResponse = ''transformResponse''"

text \<open>The fields of each event are in the order of the source.\<close>

datatype 'n hook_event =
  InboundEvent string string utext "string option"
| ToolCallEvent utext "'n json" string utext
| OutboundEvent string string utext "string option"
| SessionStartEvent string utext
| SessionEndEvent string utext "uuid list"
| ResponseTransformEvent string utext utext

fun event_point :: "'n hook_event \<Rightarrow> hook_point" where
  "event_point (InboundEvent _ _ _ _) = BeforeInbound"
| "event_point (ToolCallEvent _ _ _ _) = BeforeToolCall"
| "event_point (OutboundEvent _ _ _ _) = BeforeOutbound"
| "event_point (SessionStartEvent _ _) = OnSessionStart"
| "event_point (SessionEndEvent _ _ _) = OnSessionEnd"
| "event_point (ResponseTransformEvent _ _ _) = TransformResponse"

text \<open>The library functions a run uses: \<open>serde_json\<close> and the printing of a duration.\<close>

record 'n hook_lib =
  json_parse :: "utext \<Rightarrow> 'n json option"
  json_print :: "'n json \<Rightarrow> utext"
  show_duration :: "duration \<Rightarrow> utext"

fun apply_modification :: "'n hook_lib \<Rightarrow> utext \<Rightarrow> 'n hook_event \<Rightarrow> 'n hook_event" where
  "apply_modification lib v (InboundEvent u c _ t) = InboundEvent u c v t"
| "apply_modification lib v (OutboundEvent u c _ t) = OutboundEvent u c v t"
| "apply_modification lib v (ToolCallEvent n p u x) =
     (case json_parse lib v of Some q \<Rightarrow> ToolCallEvent n q u x | None \<Rightarrow> ToolCallEvent n p u x)"
| "apply_modification lib v (ResponseTransformEvent u t _) = ResponseTransformEvent u t v"
| "apply_modification lib v (SessionStartEvent u s) = SessionStartEvent u s"
| "apply_modification lib v (SessionEndEvent u s ts) = SessionEndEvent u s ts"

fun extract_content :: "'n hook_lib \<Rightarrow> 'n hook_event \<Rightarrow> utext" where
  "extract_content lib (InboundEvent _ _ c _) = c"
| "extract_content lib (OutboundEvent _ _ c _) = c"
| "extract_content lib (ToolCallEvent _ p _ _) = json_print lib p"
| "extract_content lib (ResponseTransformEvent _ _ r) = r"
| "extract_content lib (SessionStartEvent _ s) = s"
| "extract_content lib (SessionEndEvent _ s _) = s"

datatype hook_outcome = HookContinue "utext option" | HookReject utext

datatype hook_failure_mode = FailOpen | FailClosed

datatype hook_error = HookExecutionFailed utext | HookTimeout duration | HookRejected utext

fun hook_error_text :: "'n hook_lib \<Rightarrow> hook_error \<Rightarrow> utext" where
  "hook_error_text lib (HookExecutionFailed r) = utext_of ''Hook execution failed: '' @ r"
| "hook_error_text lib (HookTimeout d) = utext_of ''Hook timed out after '' @ show_duration lib d"
| "hook_error_text lib (HookRejected r) = utext_of ''Hook rejected: '' @ r"

text \<open>A text between single quotes.\<close>

definition quoted :: "utext \<Rightarrow> utext" where
  "quoted t = 39 # t @ [39]"

datatype hook_run = Ran "(hook_error, hook_outcome) result" | Elapsed

record ('n, 'w) hook =
  hk_name :: string
  hk_points :: "hook_point list"
  hk_mode :: hook_failure_mode
  hk_timeout :: duration
  hk_execute :: "'n hook_event \<Rightarrow> 'w \<Rightarrow> hook_run \<times> 'w"

section \<open>The registry\<close>

record ('n, 'w) hook_entry =
  he_hook :: "('n, 'w) hook"
  he_priority :: nat

abbreviation he_name :: "('n, 'w) hook_entry \<Rightarrow> string" where
  "he_name e \<equiv> hk_name (he_hook e)"

text \<open>\<open>iter_mut().find(..)\<close>: the first entry of the name is replaced.\<close>

fun replace_entry :: "('n, 'w) hook_entry \<Rightarrow> ('n, 'w) hook_entry list \<Rightarrow> ('n, 'w) hook_entry list option" where
  "replace_entry x [] = None"
| "replace_entry x (e # es) = (if he_name e = he_name x then Some (x # es) else map_option (Cons e) (replace_entry x es))"

definition register_with_priority :: "('n, 'w) hook \<Rightarrow> nat \<Rightarrow> ('n, 'w) hook_entry list \<Rightarrow> ('n, 'w) hook_entry list" where
  "register_with_priority h p es =
     (let x = \<lparr>he_hook = h, he_priority = p\<rparr>
      in sort_key he_priority (case replace_entry x es of Some es' \<Rightarrow> es' | None \<Rightarrow> es @ [x]))"

definition register_hook :: "('n, 'w) hook \<Rightarrow> ('n, 'w) hook_entry list \<Rightarrow> ('n, 'w) hook_entry list" where
  "register_hook h es = register_with_priority h 100 es"

definition unregister_hook :: "string \<Rightarrow> ('n, 'w) hook_entry list \<Rightarrow> bool \<times> ('n, 'w) hook_entry list" where
  "unregister_hook n es = (let es' = filter (\<lambda>e. he_name e \<noteq> n) es in (length es' < length es, es'))"

definition hook_names :: "('n, 'w) hook_entry list \<Rightarrow> string list" where
  "hook_names es = map he_name es"

text \<open>The loop of \<open>run\<close> over the hooks it copied, and what it makes of the last event.\<close>

fun run_hooks :: "'n hook_lib \<Rightarrow> ('n, 'w) hook list \<Rightarrow> 'n hook_event \<Rightarrow> 'w \<Rightarrow> (hook_error, 'n hook_event) result \<times> 'w" where
  "run_hooks lib [] e w = (Inr e, w)"
| "run_hooks lib (h # hs) e w =
     (case hk_execute h e w of
        (Ran (Inr (HookReject reason)), w') \<Rightarrow> (Inl (HookRejected reason), w')
      | (Ran (Inr (HookContinue (Some v))), w') \<Rightarrow> run_hooks lib hs (apply_modification lib v e) w'
      | (Ran (Inr (HookContinue None)), w') \<Rightarrow> run_hooks lib hs e w'
      | (Ran (Inl err), w') \<Rightarrow>
          (case hk_mode h of
             FailOpen \<Rightarrow> run_hooks lib hs e w'
           | FailClosed \<Rightarrow> (Inl (HookExecutionFailed (utext_of ''Hook '' @ quoted (utext_of (hk_name h)) @ utext_of '' failed: '' @ hook_error_text lib err)), w'))
      | (Elapsed, w') \<Rightarrow>
          (case hk_mode h of
             FailOpen \<Rightarrow> run_hooks lib hs e w'
           | FailClosed \<Rightarrow> (Inl (HookTimeout (hk_timeout h)), w')))"

definition matching_hooks :: "('n, 'w) hook_entry list \<Rightarrow> 'n hook_event \<Rightarrow> ('n, 'w) hook list" where
  "matching_hooks es e = map he_hook (filter (\<lambda>x. event_point e \<in> set (hk_points (he_hook x))) es)"

definition registry_run ::
  "'n hook_lib \<Rightarrow> ('n, 'w) hook_entry list \<Rightarrow> 'n hook_event \<Rightarrow> 'w \<Rightarrow> (hook_error, hook_outcome) result \<times> 'w" where
  "registry_run lib es e w =
     (let hs = matching_hooks es e
      in if hs = [] then (Inr (HookContinue None), w)
         else case run_hooks lib hs e w of
                (Inl err, w') \<Rightarrow> (Inl err, w')
              | (Inr e', w') \<Rightarrow>
                  (let modified = extract_content lib e'
                   in (Inr (HookContinue (if modified \<noteq> extract_content lib e then Some modified else None)), w')))"

section \<open>The callers\<close>

text \<open>\<open>redact_params\<close> of \<open>src/tools/tool.rs\<close>: what hooks see of the arguments of a tool.\<close>

definition redact_params :: "'n json \<Rightarrow> utext list \<Rightarrow> 'n json" where
  "redact_params params sensitive =
     (case params of
        JObject kvs \<Rightarrow> JObject (foldl (\<lambda>kvs k. if map_of kvs k = None then kvs else AList.update k (JString redacted) kvs) kvs sensitive)
      | v \<Rightarrow> v)"

text \<open>A tool call as a caller sees it: \<open>RunTool\<close> with the arguments it goes on with, or refused.\<close>

datatype 'n call_decision = RunTool "'n json" | RefuseTool utext

text \<open>The chat dispatcher puts the sensitive arguments back into what the hooks return.\<close>

definition restore_params :: "utext list \<Rightarrow> 'n json \<Rightarrow> 'n json \<Rightarrow> 'n json" where
  "restore_params sensitive original parsed =
     (case parsed of
        JObject kvs \<Rightarrow> JObject (foldl (\<lambda>kvs k. case original of
            JObject orig \<Rightarrow> (case map_of orig k of Some v \<Rightarrow> AList.update k v kvs | None \<Rightarrow> kvs)
          | _ \<Rightarrow> kvs) kvs sensitive)
      | v \<Rightarrow> v)"

definition tool_event :: "utext \<Rightarrow> 'n json \<Rightarrow> utext list \<Rightarrow> string \<Rightarrow> utext \<Rightarrow> 'n hook_event" where
  "tool_event tool params sensitive user ctx = ToolCallEvent tool (redact_params params sensitive) user ctx"

definition chat_tool_hooks ::
  "'n hook_lib \<Rightarrow> ('n, 'w) hook_entry list \<Rightarrow> utext \<Rightarrow> 'n json \<Rightarrow> utext list \<Rightarrow> string \<Rightarrow> 'w \<Rightarrow> 'n call_decision \<times> 'w" where
  "chat_tool_hooks lib es tool args sensitive user w =
     (case registry_run lib es (tool_event tool args sensitive user (utext_of ''chat'')) w of
        (Inl (HookRejected reason), w') \<Rightarrow> (RefuseTool (utext_of ''Tool call rejected by hook: '' @ reason), w')
      | (Inl err, w') \<Rightarrow> (RefuseTool (utext_of ''Tool call blocked by hook policy: '' @ hook_error_text lib err), w')
      | (Inr (HookContinue (Some new)), w') \<Rightarrow>
          (case json_parse lib new of
             Some parsed \<Rightarrow> (RunTool (restore_params sensitive args parsed), w')
           | None \<Rightarrow> (RunTool args, w'))
      | (Inr _, w') \<Rightarrow> (RunTool args, w'))"

text \<open>The worker of a job; \<open>prepare\<close> is the coercion of arguments to the schema of the tool.\<close>

definition job_tool_hooks ::
  "'n hook_lib \<Rightarrow> ('n json \<Rightarrow> 'n json) \<Rightarrow> ('n, 'w) hook_entry list \<Rightarrow> utext \<Rightarrow> 'n json \<Rightarrow> utext list \<Rightarrow> string \<Rightarrow> utext \<Rightarrow> 'w
     \<Rightarrow> 'n call_decision \<times> 'w" where
  "job_tool_hooks lib prepare es tool params sensitive user job w =
     (let normalized = prepare params
      in case registry_run lib es (tool_event tool normalized sensitive user (utext_of ''job:'' @ job)) w of
           (Inl (HookRejected reason), w') \<Rightarrow> (RefuseTool (utext_of ''Blocked by hook: '' @ reason), w')
         | (Inl err, w') \<Rightarrow> (RefuseTool (utext_of ''Blocked by hook failure mode: '' @ hook_error_text lib err), w')
         | (Inr (HookContinue (Some new)), w') \<Rightarrow>
             (case json_parse lib new of
                Some parsed \<Rightarrow> (RunTool (prepare parsed), w')
              | None \<Rightarrow> (RunTool normalized, w'))
         | (Inr _, w') \<Rightarrow> (RunTool normalized, w'))"

text \<open>The hook gate allows the call (\<open>None\<close>) or denies it with a reason.\<close>

definition hook_gate_evaluate ::
  "'n hook_lib \<Rightarrow> ('n, 'w) hook_entry list \<Rightarrow> utext \<Rightarrow> 'n json \<Rightarrow> utext list \<Rightarrow> string \<Rightarrow> utext \<Rightarrow> 'w \<Rightarrow> utext option \<times> 'w" where
  "hook_gate_evaluate lib es tool params sensitive user thread w =
     (let deny = (\<lambda>reason. Some (utext_of ''Tool '' @ quoted tool @ utext_of '' blocked by hook: '' @ reason))
      in case registry_run lib es (tool_event tool params sensitive user (utext_of ''gate:'' @ thread)) w of
           (Inr (HookReject reason), w') \<Rightarrow> (deny reason, w')
         | (Inl (HookRejected reason), w') \<Rightarrow> (deny reason, w')
         | (Inl _, w') \<Rightarrow> (None, w')
         | (Inr (HookContinue _), w') \<Rightarrow> (None, w'))"

text \<open>The effect adapter of the engine goes on with the arguments it was given.\<close>

definition engine_tool_hooks ::
  "'n hook_lib \<Rightarrow> ('n, 'w) hook_entry list \<Rightarrow> utext \<Rightarrow> utext \<Rightarrow> 'n json \<Rightarrow> utext list \<Rightarrow> string \<Rightarrow> utext \<Rightarrow> 'w \<Rightarrow> 'n call_decision \<times> 'w" where
  "engine_tool_hooks lib es action tool params sensitive user thread w =
     (let refuse = (\<lambda>reason. RefuseTool (utext_of ''Tool '' @ quoted action @ utext_of '' blocked by hook: '' @ reason))
      in case registry_run lib es (tool_event tool params sensitive user (utext_of ''engine_v2:'' @ thread)) w of
           (Inr (HookReject reason), w') \<Rightarrow> (refuse reason, w')
         | (Inl (HookRejected reason), w') \<Rightarrow> (refuse reason, w')
         | (Inl _, w') \<Rightarrow> (RunTool params, w')
         | (Inr (HookContinue _), w') \<Rightarrow> (RunTool params, w'))"

text \<open>Messages: an incoming one goes on with a text or is answered with a refusal.\<close>

datatype message_decision = PassMessage utext | AnswerInstead utext

definition inbound_hooks ::
  "'n hook_lib \<Rightarrow> ('n, 'w) hook_entry list \<Rightarrow> string \<Rightarrow> string \<Rightarrow> utext \<Rightarrow> string option \<Rightarrow> 'w \<Rightarrow> message_decision \<times> 'w" where
  "inbound_hooks lib es user channel content thread w =
     (case registry_run lib es (InboundEvent user channel content thread) w of
        (Inl (HookRejected reason), w') \<Rightarrow> (AnswerInstead (utext_of ''[Message rejected: '' @ reason @ utext_of '']''), w')
      | (Inl err, w') \<Rightarrow> (AnswerInstead (utext_of ''[Message blocked by hook policy: '' @ hook_error_text lib err @ utext_of '']''), w')
      | (Inr (HookContinue (Some new)), w') \<Rightarrow> (PassMessage new, w')
      | (Inr _, w') \<Rightarrow> (PassMessage content, w'))"

text \<open>An outgoing response is sent, possibly changed, or not at all.\<close>

definition outbound_hooks ::
  "'n hook_lib \<Rightarrow> ('n, 'w) hook_entry list \<Rightarrow> string \<Rightarrow> string \<Rightarrow> utext \<Rightarrow> string option \<Rightarrow> 'w \<Rightarrow> utext option \<times> 'w" where
  "outbound_hooks lib es user channel response thread w =
     (case registry_run lib es (OutboundEvent user channel response thread) w of
        (Inl err, w') \<Rightarrow> (None, w')
      | (Inr (HookContinue (Some new)), w') \<Rightarrow> (Some new, w')
      | (Inr _, w') \<Rightarrow> (Some response, w'))"

definition response_hooks ::
  "'n hook_lib \<Rightarrow> ('n, 'w) hook_entry list \<Rightarrow> string \<Rightarrow> utext \<Rightarrow> utext \<Rightarrow> 'w \<Rightarrow> utext \<times> 'w" where
  "response_hooks lib es user thread response w =
     (case registry_run lib es (ResponseTransformEvent user thread response) w of
        (Inl (HookRejected reason), w') \<Rightarrow> (utext_of ''[Response filtered: '' @ reason @ utext_of '']'', w')
      | (Inl err, w') \<Rightarrow> (utext_of ''[Response blocked by hook policy: '' @ hook_error_text lib err @ utext_of '']'', w')
      | (Inr (HookContinue (Some new)), w') \<Rightarrow> (new, w')
      | (Inr _, w') \<Rightarrow> (response, w'))"

section \<open>The registry refines a map of hooks by name\<close>

datatype ('n, 'w) registry_op = Register "('n, 'w) hook" nat | Unregister string

fun registry_step :: "('n, 'w) hook_entry list \<Rightarrow> ('n, 'w) registry_op \<Rightarrow> ('n, 'w) hook_entry list" where
  "registry_step es (Register h p) = register_with_priority h p es"
| "registry_step es (Unregister n) = snd (unregister_hook n es)"

definition registry_ok :: "('n, 'w) hook_entry list \<Rightarrow> bool" where
  "registry_ok es \<longleftrightarrow> sorted (map he_priority es) \<and> distinct (map he_name es)"

type_synonym ('n, 'w) hook_map = "string \<rightharpoonup> ('n, 'w) hook \<times> nat"

definition hooks_by_name :: "('n, 'w) hook_entry list \<Rightarrow> ('n, 'w) hook_map" where
  "hooks_by_name es = map_of (map (\<lambda>e. (he_name e, he_hook e, he_priority e)) es)"

fun hook_map_step :: "('n, 'w) hook_map \<Rightarrow> ('n, 'w) registry_op \<Rightarrow> ('n, 'w) hook_map" where
  "hook_map_step m (Register h p) = m(hk_name h \<mapsto> (h, p))"
| "hook_map_step m (Unregister n) = m(n := None)"

lemma replace_entry_None: "replace_entry x es = None \<longleftrightarrow> he_name x \<notin> he_name ` set es"
  by (induction es) auto

lemma replace_entry_names: "replace_entry x es = Some es' \<Longrightarrow> map he_name es' = map he_name es"
  by (induction es arbitrary: es') (auto split: if_splits)

lemma replace_entry_map: "replace_entry x es = Some es' \<Longrightarrow>
    hooks_by_name es' = (hooks_by_name es)(he_name x \<mapsto> (he_hook x, he_priority x))"
  by (induction es arbitrary: es') (auto simp: hooks_by_name_def fun_upd_twist split: if_splits)

lemma hooks_by_name_sort: "distinct (map he_name es) \<Longrightarrow> hooks_by_name (sort_key f es) = hooks_by_name es"
  unfolding hooks_by_name_def
  by (subst map_of_inject_set) (simp_all add: comp_def distinct_map)

lemma hooks_by_name_snoc: "he_name x \<notin> he_name ` set es \<Longrightarrow>
    hooks_by_name (es @ [x]) = (hooks_by_name es)(he_name x \<mapsto> (he_hook x, he_priority x))"
  by (induction es) (auto simp: hooks_by_name_def fun_upd_twist)

lemma hooks_by_name_filter: "hooks_by_name (filter (\<lambda>e. he_name e \<noteq> n) es) = (hooks_by_name es)(n := None)"
  by (induction es) (auto simp: hooks_by_name_def fun_upd_twist)

lemma entry_triple: "(n, h, p) = (he_name e, he_hook e, he_priority e) \<longleftrightarrow> e = \<lparr>he_hook = h, he_priority = p\<rparr> \<and> hk_name h = n"
  by (cases e) auto

lemma hooks_by_name_Some: "distinct (map he_name es) \<Longrightarrow>
    hooks_by_name es n = Some (h, p) \<longleftrightarrow> \<lparr>he_hook = h, he_priority = p\<rparr> \<in> set es \<and> hk_name h = n"
proof (unfold hooks_by_name_def, subst map_of_eq_Some_iff)
  show "(n, h, p) \<in> set (map (\<lambda>e. (he_name e, he_hook e, he_priority e)) es) \<longleftrightarrow>
      \<lparr>he_hook = h, he_priority = p\<rparr> \<in> set es \<and> hk_name h = n"
    unfolding set_map image_iff entry_triple by auto
qed (simp add: comp_def)

lemma register_keeps: "registry_ok es \<Longrightarrow> registry_ok (register_with_priority h p es)"
proof (cases "replace_entry \<lparr>he_hook = h, he_priority = p\<rparr> es")
  case None
  then have "hk_name h \<notin> he_name ` set es" by (simp add: replace_entry_None)
  moreover assume "registry_ok es"
  ultimately show ?thesis using None
    by (auto simp: registry_ok_def register_with_priority_def distinct_map inj_on_def image_iff)
next
  case (Some es')
  assume "registry_ok es"
  then have "distinct (map he_name es')" using Some by (simp add: replace_entry_names registry_ok_def)
  with Some show ?thesis by (simp add: registry_ok_def register_with_priority_def distinct_map)
qed

lemma unregister_keeps: "registry_ok es \<Longrightarrow> registry_ok (snd (unregister_hook n es))"
  by (simp add: registry_ok_def unregister_hook_def Let_def sorted_filter distinct_map_filter)

lemma registry_step_keeps: "registry_ok es \<Longrightarrow> registry_ok (registry_step es op)"
  by (cases op) (simp_all add: register_keeps unregister_keeps)

lemma register_refines:
  assumes "registry_ok es"
  shows "hooks_by_name (register_with_priority h p es) = (hooks_by_name es)(hk_name h \<mapsto> (h, p))"
proof (cases "replace_entry \<lparr>he_hook = h, he_priority = p\<rparr> es")
  case None
  then have new: "hk_name h \<notin> he_name ` set es" by (simp add: replace_entry_None)
  then have "distinct (map he_name (es @ [\<lparr>he_hook = h, he_priority = p\<rparr>]))" using assms by (simp add: registry_ok_def)
  then show ?thesis using None new hooks_by_name_snoc [of "\<lparr>he_hook = h, he_priority = p\<rparr>" es]
    by (simp add: register_with_priority_def hooks_by_name_sort)
next
  case (Some es')
  then have "distinct (map he_name es')" using assms by (simp add: replace_entry_names registry_ok_def)
  with Some show ?thesis
    by (simp add: register_with_priority_def hooks_by_name_sort replace_entry_map)
qed

interpretation hook_table: refinement registry_step hook_map_step hooks_by_name registry_ok "\<lambda>_. True"
proof
  fix es :: "('n, 'w) hook_entry list" and op
  assume "registry_ok es"
  then show "registry_ok (registry_step es op)" by (rule registry_step_keeps)
next
  fix es :: "('n, 'w) hook_entry list" and op
  assume "registry_ok es"
  then show "hooks_by_name (registry_step es op) = hook_map_step (hooks_by_name es) op"
    by (cases op) (simp_all add: register_refines unregister_hook_def Let_def hooks_by_name_filter)
qed

lemma registry_run_ok: "registry_ok (foldl registry_step [] ops)"
  by (rule hook_table.concrete.run_inv) (simp_all add: registry_ok_def list_all_iff)

section \<open>Runs\<close>

lemma apply_modification_point [simp]: "event_point (apply_modification lib v e) = event_point e"
  by (cases e) (auto split: option.splits)

lemma run_hooks_append: "run_hooks lib (hs @ gs) e w =
    (case run_hooks lib hs e w of (Inl err, w') \<Rightarrow> (Inl err, w') | (Inr e', w') \<Rightarrow> run_hooks lib gs e' w')"
  by (induction lib hs e w rule: run_hooks.induct)
     (auto split: prod.splits hook_run.splits sum.splits hook_outcome.splits option.splits hook_failure_mode.splits)

lemma run_hooks_point: "fst (run_hooks lib hs e w) = Inr e' \<Longrightarrow> event_point e' = event_point e"
  by (induction lib hs e w rule: run_hooks.induct)
     (auto split: prod.splits hook_run.splits sum.splits hook_outcome.splits option.splits hook_failure_mode.splits)

text \<open>
  A hook vetoes the events of a point when on each of them it rejects, or fails or times out in the
  mode that fails closed.
\<close>

definition stops :: "hook_failure_mode \<Rightarrow> hook_run \<Rightarrow> bool" where
  "stops mode r = (case r of Ran (Inr (HookReject _)) \<Rightarrow> True | Ran (Inr (HookContinue _)) \<Rightarrow> False | _ \<Rightarrow> mode = FailClosed)"

definition vetoes :: "('n, 'w) hook \<Rightarrow> hook_point \<Rightarrow> bool" where
  "vetoes h p \<longleftrightarrow> p \<in> set (hk_points h) \<and> (\<forall>e w. event_point e = p \<longrightarrow> stops (hk_mode h) (fst (hk_execute h e w)))"

lemma run_hooks_stop: "stops (hk_mode h) (fst (hk_execute h e w)) \<Longrightarrow> \<exists>err w'. run_hooks lib (h # hs) e w = (Inl err, w')"
  by (auto simp: stops_def split: prod.splits hook_run.splits sum.splits hook_outcome.splits option.splits hook_failure_mode.splits)

lemma veto_stops_run:
  assumes "vetoes h (event_point e)" and "h \<in> set hs"
  shows "\<exists>err w'. run_hooks lib hs e w = (Inl err, w')"
proof -
  obtain pre rest where hs: "hs = pre @ h # rest" using assms(2) by (auto simp: in_set_conv_decomp)
  show ?thesis
  proof (cases "run_hooks lib pre e w")
    case (Pair r w')
    show ?thesis
    proof (cases r)
      case (Inl err)
      with Pair show ?thesis by (simp add: hs run_hooks_append)
    next
      case (Inr e')
      then have "event_point e' = event_point e" using Pair run_hooks_point [of lib pre e w e'] by simp
      then have "stops (hk_mode h) (fst (hk_execute h e' w'))" using assms(1) by (simp add: vetoes_def)
      from run_hooks_stop [OF this, of lib rest] Pair Inr show ?thesis by (simp add: hs run_hooks_append)
    qed
  qed
qed

lemma veto_stops_registry:
  assumes "registry_ok es" and "hooks_by_name es (hk_name h) = Some (h, p)" and "vetoes h (event_point e)"
  shows "\<exists>err w'. registry_run lib es e w = (Inl err, w')"
proof -
  have "\<lparr>he_hook = h, he_priority = p\<rparr> \<in> set es"
    using assms(1,2) by (simp add: hooks_by_name_Some registry_ok_def)
  then have "h \<in> set (matching_hooks es e)"
    using assms(3) by (force simp: matching_hooks_def vetoes_def image_iff)
  from veto_stops_run [OF assms(3) this, of lib w] this show ?thesis
    by (auto simp: registry_run_def Let_def)
qed

lemma tool_event_point [simp]: "event_point (tool_event tool params sensitive user ctx) = BeforeToolCall"
  by (simp add: tool_event_def)

lemma named_veto_stops:
  assumes named: "foldl hook_map_step Map.empty ops (hk_name h) = Some (h, p)" and es: "es = foldl registry_step [] ops"
    and veto: "vetoes h (event_point e)"
  shows "\<exists>err w'. registry_run lib es e w = (Inl err, w')"
proof -
  have ok: "registry_ok es" unfolding es by (rule registry_run_ok)
  have "hooks_by_name es = foldl hook_map_step (hooks_by_name []) ops"
    unfolding es by (rule hook_table.run_refines) (simp_all add: registry_ok_def list_all_iff)
  then have "hooks_by_name es (hk_name h) = Some (h, p)" using named by (simp add: hooks_by_name_def)
  from veto_stops_registry [OF ok this veto] show ?thesis .
qed

text \<open>The checks before a call of the chat and of a job refuse what a hook vetoes.\<close>

lemma tool_checks_refuse:
  assumes named: "foldl hook_map_step Map.empty ops (hk_name h) = Some (h, p)" and es: "es = foldl registry_step [] ops"
    and veto: "vetoes h BeforeToolCall"
  shows "\<exists>r w'. chat_tool_hooks lib es tool args sensitive user w = (RefuseTool r, w')"
    and "\<exists>r w'. job_tool_hooks lib prepare es tool args sensitive user job w = (RefuseTool r, w')"
proof -
  note stopped = named_veto_stops [OF named es]
  show "\<exists>r w'. chat_tool_hooks lib es tool args sensitive user w = (RefuseTool r, w')"
    using stopped [of "tool_event tool args sensitive user (utext_of ''chat'')" lib w] veto
    by (auto simp: chat_tool_hooks_def split: hook_error.splits)
  show "\<exists>r w'. job_tool_hooks lib prepare es tool args sensitive user job w = (RefuseTool r, w')"
    using stopped [of "tool_event tool (prepare args) sensitive user (utext_of ''job:'' @ job)" lib w] veto
    by (auto simp: job_tool_hooks_def split: hook_error.splits)
qed

text \<open>
  Whatever was registered and unregistered before and after it, when a hook that is registered last
  under its name vetoes a point, the checks at that point refuse: the check of a tool call in a chat
  batch and in the worker of a job, that of an inbound message and that of an answer, whatever the
  other hooks do.
\<close>

theorem veto_holds:
  assumes named: "foldl hook_map_step Map.empty ops (hk_name h) = Some (h, p)" and es: "es = foldl registry_step [] ops"
  shows "(vetoes h BeforeToolCall \<longrightarrow>
      (\<exists>r w'. chat_tool_hooks lib es tool args sensitive user w = (RefuseTool r, w')) \<and>
      (\<exists>r w'. job_tool_hooks lib prepare es tool args sensitive user job w = (RefuseTool r, w'))) \<and>
    (vetoes h BeforeInbound \<longrightarrow> (\<exists>r w'. inbound_hooks lib es user channel msg thread w = (AnswerInstead r, w'))) \<and>
    (vetoes h BeforeOutbound \<longrightarrow> (\<exists>w'. outbound_hooks lib es user channel msg thread w = (None, w')))"
proof (intro conjI impI)
  note stopped = named_veto_stops [OF named es] and refused = tool_checks_refuse [OF named es]
  show "\<exists>r w'. chat_tool_hooks lib es tool args sensitive user w = (RefuseTool r, w')" if "vetoes h BeforeToolCall"
    using that by (rule refused)
  show "\<exists>r w'. job_tool_hooks lib prepare es tool args sensitive user job w = (RefuseTool r, w')" if "vetoes h BeforeToolCall"
    using that by (rule refused)
  show "\<exists>r w'. inbound_hooks lib es user channel msg thread w = (AnswerInstead r, w')" if "vetoes h BeforeInbound"
    using stopped [of "InboundEvent user channel msg thread" lib w] that
    by (auto simp: inbound_hooks_def split: hook_error.splits)
  show "\<exists>w'. outbound_hooks lib es user channel msg thread w = (None, w')" if "vetoes h BeforeOutbound"
    using stopped [of "OutboundEvent user channel msg thread" lib w] that
    by (auto simp: outbound_hooks_def split: hook_error.splits)
qed

definition sample_lib :: "nat hook_lib" where
  "sample_lib = \<lparr>json_parse = (\<lambda>t. if t = utext_of ''{}'' then Some (JObject []) else None), json_print = (\<lambda>_. utext_of ''{}''),
     show_duration = (\<lambda>_. utext_of ''5s'')\<rparr>"

definition strict_hook :: "(nat, nat) hook" where
  "strict_hook = \<lparr>hk_name = ''strict'', hk_points = [BeforeToolCall, BeforeInbound], hk_mode = FailClosed, hk_timeout = secs 5,
     hk_execute = (\<lambda>e w. (Elapsed, Suc w))\<rparr>"

definition shouting_hook :: "(nat, nat) hook" where
  "shouting_hook = \<lparr>hk_name = ''shout'', hk_points = [BeforeInbound], hk_mode = FailOpen, hk_timeout = secs 5,
     hk_execute = (\<lambda>e w. (Ran (Inr (HookContinue (Some (extract_content sample_lib e @ utext_of ''!'')))), Suc w))\<rparr>"

abbreviation sample_ops :: "(nat, nat) registry_op list" where
  "sample_ops \<equiv> [Register strict_hook 300, Register shouting_hook 100, Unregister ''absent'']"

lemma strict_vetoes: "vetoes strict_hook BeforeToolCall" "vetoes strict_hook BeforeInbound"
  by (simp_all add: vetoes_def strict_hook_def stops_def)

theorem veto_holds_witness:
  "(\<exists>r w'. chat_tool_hooks sample_lib (foldl registry_step [] sample_ops) (utext_of ''shell'') (JObject []) [] ''ann'' 0 = (RefuseTool r, w')) \<and>
   (\<exists>r w'. inbound_hooks sample_lib (foldl registry_step [] sample_ops) ''ann'' ''cli'' (utext_of ''hi'') None 0 = (AnswerInstead r, w'))"
proof -
  have "foldl hook_map_step Map.empty sample_ops (hk_name strict_hook) = Some (strict_hook, 300)"
    by (simp add: strict_hook_def shouting_hook_def)
  from veto_holds [OF this refl] strict_vetoes show ?thesis by blast
qed

section \<open>What the engine makes of a hook that fails closed\<close>

lemma engine_keeps_arguments:
  "case fst (engine_tool_hooks lib es action tool args sensitive user thread w) of RunTool q \<Rightarrow> q = args | RefuseTool _ \<Rightarrow> True"
proof (cases "registry_run lib es (tool_event tool args sensitive user (utext_of ''engine_v2:'' @ thread)) w")
  case (Pair r w')
  then show ?thesis by (auto simp: engine_tool_hooks_def split: hook_error.splits sum.splits hook_outcome.splits)
qed

text \<open>
  C38. The adapter and the gate of the engine let a call pass that the chat and the worker of a job
  refuse: when the first hook at the calls of tools fails closed by an error or its timeout, chat and
  job refuse the call and the engine runs it. And whatever hooks return, the engine runs a call with
  the arguments it had.
\<close>

theorem engine_ignores_failed_hooks:
  assumes es: "filter (\<lambda>x. BeforeToolCall \<in> set (hk_points (he_hook x))) es = x # xs"
    and closed: "hk_mode (he_hook x) = FailClosed"
    and fails: "\<And>e w. hk_execute (he_hook x) e w = (Elapsed, f w) \<or> hk_execute (he_hook x) e w = (Ran (Inl err), f w)"
  shows "(\<exists>r w'. chat_tool_hooks lib es tool args sensitive user w = (RefuseTool r, w')) \<and>
    (\<exists>r w'. job_tool_hooks lib prepare es tool args sensitive user job w = (RefuseTool r, w')) \<and>
    engine_tool_hooks lib es action tool args sensitive user thread w = (RunTool args, f w) \<and>
    hook_gate_evaluate lib es tool args sensitive user thread w = (None, f w) \<and>
    (\<forall>es2 w2. case fst (engine_tool_hooks lib es2 action tool args sensitive user thread w2) of RunTool q \<Rightarrow> q = args | RefuseTool _ \<Rightarrow> True)"
proof -
  have run: "registry_run lib es (tool_event tool args' sensitive user ctx) w = (Inl (HookTimeout (hk_timeout (he_hook x))), f w) \<or>
      (\<exists>why. registry_run lib es (tool_event tool args' sensitive user ctx) w = (Inl (HookExecutionFailed why), f w))" for args' ctx
    using fails [of "tool_event tool args' sensitive user ctx" w] closed
    by (auto simp: registry_run_def matching_hooks_def es)
  have chat: "\<exists>r w'. chat_tool_hooks lib es tool args sensitive user w = (RefuseTool r, w')"
    using run [of args "utext_of ''chat''"] by (auto simp: chat_tool_hooks_def)
  have job: "\<exists>r w'. job_tool_hooks lib prepare es tool args sensitive user job w = (RefuseTool r, w')"
    using run [of "prepare args" "utext_of ''job:'' @ job"] by (auto simp: job_tool_hooks_def)
  have engine: "engine_tool_hooks lib es action tool args sensitive user thread w = (RunTool args, f w)"
    using run [of args "utext_of ''engine_v2:'' @ thread"] by (auto simp: engine_tool_hooks_def)
  have gate: "hook_gate_evaluate lib es tool args sensitive user thread w = (None, f w)"
    using run [of args "utext_of ''gate:'' @ thread"] by (auto simp: hook_gate_evaluate_def)
  show ?thesis by (intro conjI allI chat job engine gate engine_keeps_arguments)
qed

theorem engine_ignores_failed_hooks_witness:
  "(\<exists>r w'. chat_tool_hooks sample_lib (register_hook strict_hook []) (utext_of ''shell'') (JObject []) [] ''ann'' 0 = (RefuseTool r, w')) \<and>
   engine_tool_hooks sample_lib (register_hook strict_hook []) (utext_of ''shell'') (utext_of ''shell'') (JObject []) [] ''ann'' [] 0 = (RunTool (JObject []), 1)"
proof -
  have es: "filter (\<lambda>x. BeforeToolCall \<in> set (hk_points (he_hook x))) (register_hook strict_hook []) = [\<lparr>he_hook = strict_hook, he_priority = 100\<rparr>]"
    by (simp add: register_hook_def register_with_priority_def strict_hook_def)
  have "hk_mode (he_hook \<lparr>he_hook = strict_hook, he_priority = 100\<rparr>) = FailClosed"
    and "\<And>e w. hk_execute (he_hook \<lparr>he_hook = strict_hook, he_priority = 100\<rparr>) e w = (Elapsed, Suc w) \<or>
      hk_execute (he_hook \<lparr>he_hook = strict_hook, he_priority = 100\<rparr>) e w = (Ran (Inl undefined), Suc w)"
    by (simp_all add: strict_hook_def)
  note all = engine_ignores_failed_hooks [OF es this, of sample_lib "utext_of ''shell''" "JObject []" "[]" "''ann''" 0 id "[]" "utext_of ''shell''" "[]"]
  show ?thesis unfolding One_nat_def using all by (intro conjI) (elim conjE, assumption)+
qed

section \<open>What hooks see of secrets\<close>

lemma map_of_redact: "map_of (foldl (\<lambda>kvs k. if map_of kvs k = None then kvs else AList.update k (JString redacted) kvs) kvs ss) q =
    (if q \<in> set ss \<and> map_of kvs q \<noteq> None then Some (JString redacted) else map_of kvs q)"
  by (induction ss arbitrary: kvs) (auto simp: update_conv')

lemma redact_step_keys: "map_of kvs k \<noteq> None \<Longrightarrow> map fst (AList.update k v kvs) = map fst kvs"
  by (induction kvs) (auto split: if_splits)

lemma redact_keys: "map fst (foldl (\<lambda>kvs k. if map_of kvs k = None then kvs else AList.update k (JString redacted) kvs) kvs ss) = map fst kvs"
  by (induction ss arbitrary: kvs) (simp_all add: redact_step_keys)

lemma same_entries:
  assumes "map fst xs = map fst ys" and "distinct (map fst xs)" and "\<And>k. map_of xs k = map_of ys k"
  shows "xs = ys"
proof (rule nth_equalityI)
  show len: "length xs = length ys" using assms(1) by (metis length_map)
  fix i
  assume i: "i < length xs"
  then have "map fst xs ! i = map fst ys ! i" using assms(1) by simp
  then have key: "fst (xs ! i) = fst (ys ! i)" using i len by simp
  have "map_of xs (fst (xs ! i)) = Some (snd (xs ! i))"
    using assms(2) i by (simp add: map_of_eq_Some_iff)
  moreover have "map_of ys (fst (ys ! i)) = Some (snd (ys ! i))"
    using assms(1,2) i len by (simp add: map_of_eq_Some_iff)
  ultimately show "xs ! i = ys ! i" using key assms(3) by (simp add: prod_eq_iff)
qed

lemma redact_same:
  assumes "map fst kvs = map fst kvs2" and "distinct (map fst kvs)" and "\<And>k. k \<notin> set ss \<Longrightarrow> map_of kvs k = map_of kvs2 k"
  shows "redact_params (JObject kvs) ss = redact_params (JObject kvs2) ss"
proof -
  have dom: "map_of kvs k = None \<longleftrightarrow> map_of kvs2 k = None" for k
    using assms(1) by (metis list.set_map map_of_eq_None_iff)
  let ?f = "\<lambda>kvs. foldl (\<lambda>kvs k. if map_of kvs k = None then kvs else AList.update k (JString redacted) kvs) kvs ss"
  have "?f kvs = ?f kvs2"
  proof (rule same_entries)
    fix k
    show "map_of (?f kvs) k = map_of (?f kvs2) k" using dom [of k] assms(3) [of k] by (simp only: map_of_redact) metis
  qed (simp_all only: redact_keys assms(1) assms(2) [unfolded assms(1)])
  then show ?thesis by (simp add: redact_params_def)
qed

fun obj_get :: "'n json \<Rightarrow> utext \<Rightarrow> 'n json option" where
  "obj_get (JObject kvs) k = map_of kvs k"
| "obj_get _ _ = None"

definition is_object :: "'n json \<Rightarrow> bool" where
  "is_object v = (case v of JObject _ \<Rightarrow> True | _ \<Rightarrow> False)"

lemma map_of_restore: "map_of (foldl (\<lambda>kvs k. case map_of orig k of Some v \<Rightarrow> AList.update k v kvs | None \<Rightarrow> kvs) kvs ss) q =
    (if q \<in> set ss \<and> map_of orig q \<noteq> None then map_of orig q else map_of kvs q)"
  by (induction ss arbitrary: kvs) (auto simp: update_conv' split: option.splits)

lemma restore_get: "is_object q \<Longrightarrow> obj_get (restore_params ss (JObject orig) q) k =
    (if k \<in> set ss \<and> map_of orig k \<noteq> None then map_of orig k else obj_get q k)"
  by (cases q) (auto simp: is_object_def restore_params_def map_of_restore)

lemma restore_other: "k \<notin> set ss \<Longrightarrow> obj_get (restore_params ss (JObject orig) q) k = obj_get q k"
  by (cases q) (simp_all add: restore_params_def map_of_restore)

text \<open>What a call of the chat makes of two arguments that differ in sensitive keys only.\<close>

definition same_but_secrets :: "utext list \<Rightarrow> (utext \<times> 'n json) list \<Rightarrow> 'n call_decision \<Rightarrow> 'n call_decision \<Rightarrow> bool" where
  "same_but_secrets ss kvs d d2 \<longleftrightarrow>
     (case (d, d2) of
        (RefuseTool r, RefuseTool r2) \<Rightarrow> r = r2
      | (RunTool p, RunTool p2) \<Rightarrow> (\<forall>k. k \<notin> set ss \<longrightarrow> obj_get p k = obj_get p2 k) \<and>
          (\<forall>k. k \<in> set ss \<longrightarrow> is_object p \<longrightarrow> map_of kvs k \<noteq> None \<longrightarrow> obj_get p k = map_of kvs k)
      | _ \<Rightarrow> False)"

text \<open>
  C27. Hooks learn nothing about the sensitive arguments of a tool but which of them are present: with
  arguments that differ in the values of sensitive keys only, hooks behave alike for the chat, the
  engine and its gate, and the decision of the chat differs only in these values, which it takes from
  the original arguments whatever the hooks return for them.
\<close>

theorem secrets_stay_out_of_hooks:
  assumes keys: "map fst kvs = map fst kvs2" "distinct (map fst kvs)"
    and outside: "\<And>k. k \<notin> set ss \<Longrightarrow> map_of kvs k = map_of kvs2 k"
  shows "snd (chat_tool_hooks lib es tool (JObject kvs) ss user w) = snd (chat_tool_hooks lib es tool (JObject kvs2) ss user w) \<and>
    same_but_secrets ss kvs (fst (chat_tool_hooks lib es tool (JObject kvs) ss user w)) (fst (chat_tool_hooks lib es tool (JObject kvs2) ss user w)) \<and>
    snd (engine_tool_hooks lib es action tool (JObject kvs) ss user thread w) = snd (engine_tool_hooks lib es action tool (JObject kvs2) ss user thread w) \<and>
    hook_gate_evaluate lib es tool (JObject kvs) ss user thread w = hook_gate_evaluate lib es tool (JObject kvs2) ss user thread w"
proof -
  have ev: "tool_event tool (JObject kvs) ss user ctx = tool_event tool (JObject kvs2) ss user ctx" for ctx
    by (simp add: tool_event_def redact_same [OF keys outside])
  have gate: "hook_gate_evaluate lib es tool (JObject kvs) ss user thread w = hook_gate_evaluate lib es tool (JObject kvs2) ss user thread w"
    by (simp add: hook_gate_evaluate_def ev)
  have engine: "snd (engine_tool_hooks lib es action tool (JObject kvs) ss user thread w) = snd (engine_tool_hooks lib es action tool (JObject kvs2) ss user thread w)"
    by (cases "registry_run lib es (tool_event tool (JObject kvs2) ss user (utext_of ''engine_v2:'' @ thread)) w")
       (simp add: engine_tool_hooks_def ev Let_def split: sum.split hook_outcome.split hook_error.split)
  obtain r w' where run: "registry_run lib es (tool_event tool (JObject kvs2) ss user (utext_of ''chat'')) w = (r, w')"
    by fastforce
  have chat: "snd (chat_tool_hooks lib es tool (JObject kvs) ss user w) = snd (chat_tool_hooks lib es tool (JObject kvs2) ss user w) \<and>
    same_but_secrets ss kvs (fst (chat_tool_hooks lib es tool (JObject kvs) ss user w)) (fst (chat_tool_hooks lib es tool (JObject kvs2) ss user w))"
    using outside
    by (simp add: chat_tool_hooks_def ev run same_but_secrets_def restore_other split: sum.split hook_outcome.split hook_error.split option.split)
       (auto simp: restore_get restore_params_def map_of_restore is_object_def split: json.splits)
  show ?thesis using chat engine gate by blast
qed

theorem secrets_stay_out_of_hooks_witness:
  "hook_gate_evaluate sample_lib (foldl registry_step [] sample_ops) (utext_of ''shell'') (JObject [(utext_of ''token'', JNum 1)]) [utext_of ''token''] ''ann'' [] 0 =
   hook_gate_evaluate sample_lib (foldl registry_step [] sample_ops) (utext_of ''shell'') (JObject [(utext_of ''token'', JNum 2)]) [utext_of ''token''] ''ann'' [] 0"
  using secrets_stay_out_of_hooks [of "[(utext_of ''token'', JNum 1)]" "[(utext_of ''token'', JNum 2)]" "[utext_of ''token'']"
      sample_lib "foldl registry_step [] sample_ops" "utext_of ''shell''" "''ann''" 0 "utext_of ''shell''" "[]"]
  by simp

text \<open>
  The worker of a job does not put the sensitive arguments back: when a hook changes a call and
  leaves a sensitive argument as it saw it, the chat runs the tool with the secret and the job with
  the marker in its place.
\<close>

theorem job_loses_secrets:
  assumes args: "prepare (JObject kvs) = JObject kvs" "map_of kvs k = Some v" "k \<in> set ss"
    and answer: "\<And>ctx. registry_run lib es (tool_event tool (JObject kvs) ss user ctx) w = (Inr (HookContinue (Some new)), w')"
    and parsed: "json_parse lib new = Some (JObject ks)" "map_of ks k = Some (JString redacted)"
  shows "(\<exists>p. chat_tool_hooks lib es tool (JObject kvs) ss user w = (RunTool p, w') \<and> obj_get p k = Some v) \<and>
    job_tool_hooks lib prepare es tool (JObject kvs) ss user job w = (RunTool (prepare (JObject ks)), w') \<and>
    obj_get (JObject ks) k = Some (JString redacted)"
  using assms by (simp add: chat_tool_hooks_def job_tool_hooks_def answer restore_get is_object_def)

definition tagging_hook :: "(nat, nat) hook" where
  "tagging_hook = \<lparr>hk_name = ''tag'', hk_points = [BeforeToolCall], hk_mode = FailOpen, hk_timeout = secs 5,
     hk_execute = (\<lambda>e w. (Ran (Inr (HookContinue (Some [1]))), w))\<rparr>"

definition tag_lib :: "nat hook_lib" where
  "tag_lib = \<lparr>json_parse = (\<lambda>t. if t = [1] then Some (JObject [(utext_of ''token'', JString redacted), (utext_of ''tag'', JNull)]) else None),
     json_print = (\<lambda>v. case v of JObject [_, _] \<Rightarrow> [1] | _ \<Rightarrow> [0]), show_duration = (\<lambda>_. [])\<rparr>"

theorem job_loses_secrets_witness:
  "fst (job_tool_hooks tag_lib id (register_hook tagging_hook []) (utext_of ''http'') (JObject [(utext_of ''token'', JNum 7)]) [utext_of ''token''] ''ann'' [] 0) =
    RunTool (JObject [(utext_of ''token'', JString redacted), (utext_of ''tag'', JNull)])"
proof -
  have run: "registry_run tag_lib (register_hook tagging_hook []) (tool_event (utext_of ''http'') (JObject [(utext_of ''token'', JNum 7)]) [utext_of ''token''] ''ann'' ctx) 0 =
      (Inr (HookContinue (Some [1])), 0)" for ctx
    by (simp add: registry_run_def register_hook_def register_with_priority_def matching_hooks_def tagging_hook_def tag_lib_def tool_event_def redact_params_def)
  have parsed: "json_parse tag_lib [1] = Some (JObject [(utext_of ''token'', JString redacted), (utext_of ''tag'', JNull)])"
    by (simp add: tag_lib_def)
  show ?thesis
    using job_loses_secrets [OF _ _ _ run parsed, where prepare = id and k = "utext_of ''token''" and job = "[]"] by simp
qed

section \<open>Messages that were queued\<close>

text \<open>
  The drain loop of \<open>handle_message\<close>: while a turn ends in a response and messages are queued, the
  response is sent and the queued messages are the next turn. \<open>batches\<close> is what the queue holds each
  time it is drained; \<open>turn\<close> processes a text. The responses sent are those on the left.
\<close>

datatype turn_result = TurnResponse utext | TurnOther utext

fun drain_loop :: "(utext \<Rightarrow> 'w \<Rightarrow> turn_result \<times> 'w) \<Rightarrow> utext list \<Rightarrow> turn_result \<Rightarrow> 'w \<Rightarrow> utext list \<times> turn_result \<times> 'w" where
  "drain_loop turn [] r w = ([], r, w)"
| "drain_loop turn (b # bs) (TurnOther t) w = ([], TurnOther t, w)"
| "drain_loop turn (b # bs) (TurnResponse out) w =
     (case turn b w of (r, w') \<Rightarrow> (case drain_loop turn bs r w' of (sent, r', w'') \<Rightarrow> (out # sent, r', w'')))"

text \<open>All that a user input makes the agent send: the responses of the loop, and the last one through the hooks.\<close>

definition answer_user_input ::
  "'n hook_lib \<Rightarrow> ('n, 'w) hook_entry list \<Rightarrow> (utext \<Rightarrow> 'w \<Rightarrow> turn_result \<times> 'w) \<Rightarrow> utext list \<Rightarrow> string \<Rightarrow> string \<Rightarrow> utext \<Rightarrow> 'w \<Rightarrow> utext list \<times> 'w" where
  "answer_user_input lib es turn batches user channel input w =
     (case turn input w of (r, w1) \<Rightarrow>
       (case drain_loop turn batches r w1 of (sent, last_result, w2) \<Rightarrow>
         (let response = (case last_result of TurnResponse t \<Rightarrow> t | TurnOther t \<Rightarrow> t)
          in case outbound_hooks lib es user channel response None w2 of
               (None, w3) \<Rightarrow> (sent, w3)
             | (Some t, w3) \<Rightarrow> (sent @ [t], w3))))"

text \<open>
  A hook that vetoes outgoing responses stops the last response only: with one message queued the
  response to the first one is sent as it is.
\<close>

theorem queued_responses_skip_hooks:
  assumes es: "es = foldl registry_step [] ops" and named: "hooks_by_name es (hk_name h) = Some (h, p)" and veto: "vetoes h BeforeOutbound"
    and first: "turn input w = (TurnResponse out, w1)" and second: "turn b w1 = (r, w2)"
  shows "fst (answer_user_input lib es turn [b] user channel input w) = [out]"
proof -
  have "\<exists>err w'. registry_run lib es (OutboundEvent user channel response None) w2 = (Inl err, w')" for response
    by (rule veto_stops_registry [OF _ named]) (simp_all add: veto es registry_run_ok)
  then have "\<exists>w'. outbound_hooks lib es user channel response None w2 = (None, w')" for response
    unfolding outbound_hooks_def by (metis (mono_tags, lifting) old.prod.case old.sum.simps(5))
  then obtain w' where "outbound_hooks lib es user channel (case r of TurnResponse t \<Rightarrow> t | TurnOther t \<Rightarrow> t) None w2 = (None, w')" by blast
  then show ?thesis by (simp add: answer_user_input_def first second)
qed

definition silent_hook :: "(nat, nat) hook" where
  "silent_hook = \<lparr>hk_name = ''silent'', hk_points = [BeforeOutbound], hk_mode = FailClosed, hk_timeout = secs 5,
     hk_execute = (\<lambda>e w. (Ran (Inr (HookReject (utext_of ''no''))), w))\<rparr>"

theorem queued_responses_skip_hooks_witness:
  "fst (answer_user_input sample_lib (foldl registry_step [] [Register silent_hook 1]) (\<lambda>t w. (TurnResponse t, w)) [utext_of ''second''] ''ann'' ''cli'' (utext_of ''first'') 0)
    = [utext_of ''first'']"
proof -
  have "hooks_by_name (foldl registry_step [] [Register silent_hook 1]) (hk_name silent_hook) = Some (silent_hook, 1)"
    by (simp add: register_with_priority_def hooks_by_name_def silent_hook_def)
  moreover have "vetoes silent_hook BeforeOutbound" by (simp add: vetoes_def silent_hook_def stops_def)
  ultimately show ?thesis by (rule queued_responses_skip_hooks [OF refl]) (rule refl)+
qed

end
