(* ===== verification/HookBundles.thy ===== *)
theory HookBundles
  imports Hooks "HOL-Library.Word" "HOL-Library.List_Lexorder" "HOL-Library.Char_ord"
begin

text \<open>
  Bundled hooks: \<open>src/hooks/bundled.rs\<close> and their loading in \<open>src/hooks/bootstrap.rs\<close>. Rules that reject or
  rewrite what an event carries, and webhooks that report events to a server outside. The regular
  expressions, URL and address parsing, the checks of header values and the answers of DNS are library
  functions or services and arguments. A delivery of a webhook is a task of its own: it is started by
  the run of the hook and ends in a step of its own.
\<close>

unbundle bit_operations_syntax

section \<open>Addresses\<close>

text \<open>\<open>Ipv4Addr\<close> by its octets and \<open>Ipv6Addr\<close> by its segments, with the predicates of the standard library.\<close>

datatype ipv4 = V4 "8 word" "8 word" "8 word" "8 word"

datatype ipv6 = V6 "16 word" "16 word" "16 word" "16 word" "16 word" "16 word" "16 word" "16 word"

datatype ip_addr = IpV4 ipv4 | IpV6 ipv6

fun v4_private :: "ipv4 \<Rightarrow> bool" where
  "v4_private (V4 a b c d) \<longleftrightarrow> a = 10 \<or> (a = 172 \<and> 16 \<le> b \<and> b \<le> 31) \<or> (a = 192 \<and> b = 168)"

fun v4_documentation :: "ipv4 \<Rightarrow> bool" where
  "v4_documentation (V4 a b c d) \<longleftrightarrow>
     (a = 192 \<and> b = 0 \<and> c = 2) \<or> (a = 198 \<and> b = 51 \<and> c = 100) \<or> (a = 203 \<and> b = 0 \<and> c = 113)"

fun is_forbidden_ipv4 :: "ipv4 \<Rightarrow> bool" where
  "is_forbidden_ipv4 (V4 a b c d) \<longleftrightarrow>
     (if v4_private (V4 a b c d) \<or> a = 127 \<or> (a = 169 \<and> b = 254) \<or> (a = 255 \<and> b = 255 \<and> c = 255 \<and> d = 255) \<or>
         v4_documentation (V4 a b c d) \<or> (a = 0 \<and> b = 0 \<and> c = 0 \<and> d = 0) \<or> (224 \<le> a \<and> a \<le> 239)
      then True
      else if a = 100 \<and> 64 \<le> b \<and> b \<le> 127 then True
      else a = 198 \<and> (b = 18 \<or> b = 19))"

fun ipv6_mapped_ipv4 :: "ipv6 \<Rightarrow> ipv4 option" where
  "ipv6_mapped_ipv4 (V6 s0 s1 s2 s3 s4 s5 s6 s7) =
     (if s0 = 0 \<and> s1 = 0 \<and> s2 = 0 \<and> s3 = 0 \<and> s4 = 0 \<and> s5 = 0xffff
      then Some (V4 (ucast (drop_bit 8 s6)) (ucast s6) (ucast (drop_bit 8 s7)) (ucast s7))
      else None)"

fun is_forbidden_ip :: "ip_addr \<Rightarrow> bool" where
  "is_forbidden_ip (IpV4 v4) = is_forbidden_ipv4 v4"
| "is_forbidden_ip (IpV6 v6) =
     (case ipv6_mapped_ipv4 v6 of
        Some mapped \<Rightarrow> is_forbidden_ipv4 mapped
      | None \<Rightarrow> (case v6 of V6 s0 s1 s2 s3 s4 s5 s6 s7 \<Rightarrow>
          (s0 = 0 \<and> s1 = 0 \<and> s2 = 0 \<and> s3 = 0 \<and> s4 = 0 \<and> s5 = 0 \<and> s6 = 0 \<and> (s7 = 0 \<or> s7 = 1)) \<or>
          s0 AND 0xfe00 = 0xfc00 \<or> s0 AND 0xffc0 = 0xfe80 \<or> s0 AND 0xff00 = 0xff00 \<or>
          (s0 = 0x2001 \<and> s1 = 0x0db8)))"

section \<open>Configurations and library functions\<close>

record regex_replacement_config =
  rc_pattern :: utext
  rc_replacement :: utext

record hook_rule_config =
  rl_name :: string
  rl_points :: "hook_point list"
  rl_priority :: "nat option"
  rl_failure_mode :: "hook_failure_mode option"
  rl_timeout_ms :: "nat option"
  rl_when_regex :: "utext option"
  rl_reject_reason :: "utext option"
  rl_replacements :: "regex_replacement_config list"
  rl_prepend :: "utext option"
  rl_append :: "utext option"

record outbound_webhook_config =
  wc_name :: string
  wc_points :: "hook_point list"
  wc_url :: string
  wc_headers :: "(string \<times> string) list"
  wc_timeout_ms :: "nat option"
  wc_priority :: "nat option"
  wc_max_in_flight :: "nat option"

record hook_bundle_config =
  bc_rules :: "hook_rule_config list"
  bc_webhooks :: "outbound_webhook_config list"

datatype bundle_error =
  InvalidFormat string
| MissingHookPoints string
| InvalidRegex string utext string
| InvalidTimeout string nat
| InvalidWebhookUrl string string
| InvalidWebhookScheme string string
| ForbiddenWebhookHost string string
| InvalidWebhookHeader string string string
| ForbiddenWebhookHeader string string
| InvalidWebhookMaxInFlight string

record 'r regex_lib =
  regex_new :: "utext \<Rightarrow> (string, 'r) result"
  regex_is_match :: "'r \<Rightarrow> utext \<Rightarrow> bool"
  regex_replace_all :: "'r \<Rightarrow> utext \<Rightarrow> utext \<Rightarrow> utext"

text \<open>What the code asks of a parsed URL; \<open>wu_text\<close> is its serialization.\<close>

record webhook_url =
  wu_scheme :: string
  wu_username :: string
  wu_password :: "string option"
  wu_host :: "string option"
  wu_port :: "nat option"
  wu_text :: string

record web_lib =
  url_parse :: "string \<Rightarrow> webhook_url option"
  ip_parse :: "string \<Rightarrow> ip_addr option"
  header_name :: "string \<Rightarrow> (string, string) result"
  header_value :: "string \<Rightarrow> (string, string) result"

definition max_hook_timeout_ms :: nat where
  "max_hook_timeout_ms = 30000"

definition timeout_from_ms :: "nat option \<Rightarrow> string \<Rightarrow> (bundle_error, duration) result" where
  "timeout_from_ms ms hook =
     (case ms of
        Some n \<Rightarrow> if n = 0 \<or> n > max_hook_timeout_ms then Inl (InvalidTimeout hook max_hook_timeout_ms) else Inr (n * 1000000)
      | None \<Rightarrow> Inr (secs 5))"

section \<open>Rules\<close>

record 'r rule_hook =
  rh_name :: string
  rh_points :: "hook_point list"
  rh_mode :: hook_failure_mode
  rh_timeout :: duration
  rh_when :: "'r option"
  rh_reject :: "utext option"
  rh_replacements :: "('r \<times> utext) list"
  rh_prepend :: "utext option"
  rh_append :: "utext option"

fun compile_replacements :: "'r regex_lib \<Rightarrow> string \<Rightarrow> regex_replacement_config list \<Rightarrow> (bundle_error, ('r \<times> utext) list) result" where
  "compile_replacements rx hook [] = Inr []"
| "compile_replacements rx hook (c # cs) =
     (case regex_new rx (rc_pattern c) of
        Inl why \<Rightarrow> Inl (InvalidRegex hook (rc_pattern c) why)
      | Inr r \<Rightarrow> (case compile_replacements rx hook cs of Inl e \<Rightarrow> Inl e | Inr rs \<Rightarrow> Inr ((r, rc_replacement c) # rs)))"

definition scoped_name :: "string \<Rightarrow> string \<Rightarrow> string" where
  "scoped_name source name = source @ ''::'' @ name"

definition rule_from_config :: "'r regex_lib \<Rightarrow> string \<Rightarrow> hook_rule_config \<Rightarrow> (bundle_error, 'r rule_hook \<times> nat) result" where
  "rule_from_config rx source c =
     (let name = scoped_name source (rl_name c) in
      if rl_points c = [] then Inl (MissingHookPoints name)
      else case timeout_from_ms (rl_timeout_ms c) name of
        Inl e \<Rightarrow> Inl e
      | Inr timeout \<Rightarrow>
          (case (case rl_when_regex c of
                   None \<Rightarrow> Inr None
                 | Some p \<Rightarrow> (case regex_new rx p of Inl why \<Rightarrow> Inl (InvalidRegex name p why) | Inr r \<Rightarrow> Inr (Some r))) of
             Inl e \<Rightarrow> Inl e
           | Inr guard \<Rightarrow>
               (case compile_replacements rx name (rl_replacements c) of
                  Inl e \<Rightarrow> Inl e
                | Inr rs \<Rightarrow> Inr (\<lparr>rh_name = name, rh_points = rl_points c,
                    rh_mode = (case rl_failure_mode c of Some m \<Rightarrow> m | None \<Rightarrow> FailOpen), rh_timeout = timeout, rh_when = guard,
                    rh_reject = rl_reject_reason c, rh_replacements = rs, rh_prepend = rl_prepend c, rh_append = rl_append c\<rparr>,
                    case rl_priority c of Some p \<Rightarrow> p | None \<Rightarrow> 100))))"

definition rule_execute :: "'n hook_lib \<Rightarrow> 'r regex_lib \<Rightarrow> 'r rule_hook \<Rightarrow> 'n hook_event \<Rightarrow> (hook_error, hook_outcome) result" where
  "rule_execute lib rx r e =
     (let txt = extract_content lib e in
      if (case rh_when r of Some g \<Rightarrow> \<not> regex_is_match rx g txt | None \<Rightarrow> False) then Inr (HookContinue None)
      else case rh_reject r of
        Some reason \<Rightarrow> Inr (HookReject reason)
      | None \<Rightarrow>
          (let replaced = foldl (\<lambda>t (g, by_text). regex_replace_all rx g t by_text) txt (rh_replacements r);
               prefixed = (case rh_prepend r of Some p \<Rightarrow> p @ replaced | None \<Rightarrow> replaced);
               modified = (case rh_append r of Some s \<Rightarrow> prefixed @ s | None \<Rightarrow> prefixed)
           in Inr (HookContinue (if modified \<noteq> txt then Some modified else None))))"

definition hook_of_rule :: "'n hook_lib \<Rightarrow> 'r regex_lib \<Rightarrow> 'r rule_hook \<Rightarrow> ('n, 'w) hook" where
  "hook_of_rule lib rx r = \<lparr>hk_name = rh_name r, hk_points = rh_points r, hk_mode = rh_mode r, hk_timeout = rh_timeout r,
     hk_execute = (\<lambda>e w. (Ran (rule_execute lib rx r e), w))\<rparr>"

definition all_hook_points :: "hook_point list" where
  "all_hook_points = [BeforeInbound, BeforeToolCall, BeforeOutbound, OnSessionStart, OnSessionEnd, TransformResponse]"

definition audit_log_hook :: "('n, 'w) hook" where
  "audit_log_hook = \<lparr>hk_name = ''builtin.audit_log'', hk_points = all_hook_points, hk_mode = FailOpen, hk_timeout = secs 5,
     hk_execute = (\<lambda>e w. (Ran (Inr (HookContinue None)), w))\<rparr>"

section \<open>Webhooks\<close>

datatype webhook_event_summary =
  InboundSummary string bool nat
| ToolCallSummary utext utext nat
| OutboundSummary string bool nat
| SessionStartSummary
| SessionEndSummary
| ResponseTransformSummary nat

fun summarize_webhook_event :: "'n hook_event \<Rightarrow> webhook_event_summary" where
  "summarize_webhook_event (InboundEvent _ channel content thread) = InboundSummary channel (thread \<noteq> None) (byte_len content)"
| "summarize_webhook_event (ToolCallEvent tool params _ ctx) =
     ToolCallSummary tool ctx (case params of JObject kvs \<Rightarrow> length kvs | JNull \<Rightarrow> 0 | _ \<Rightarrow> 1)"
| "summarize_webhook_event (OutboundEvent _ channel content thread) = OutboundSummary channel (thread \<noteq> None) (byte_len content)"
| "summarize_webhook_event (SessionStartEvent _ _) = SessionStartSummary"
| "summarize_webhook_event (SessionEndEvent _ _ _) = SessionEndSummary"
| "summarize_webhook_event (ResponseTransformEvent _ _ response) = ResponseTransformSummary (byte_len response)"

record webhook_payload =
  wp_hook :: string
  wp_point :: string
  wp_timestamp :: string
  wp_event :: webhook_event_summary
  wp_metadata_present :: bool

text \<open>A webhook hook; its semaphore is shared with the deliveries it started and lives in the world.\<close>

record webhook_hook =
  wk_name :: string
  wk_points :: "hook_point list"
  wk_url :: string
  wk_headers :: "(string \<times> string) list"
  wk_timeout :: duration
  wk_semaphore :: nat

record delivery =
  dl_semaphore :: nat
  dl_url :: string
  dl_headers :: "(string \<times> string) list"
  dl_payload :: webhook_payload

record webhook_post =
  po_url :: string
  po_headers :: "(string \<times> string) list"
  po_addresses :: "ip_addr list"
  po_payload :: webhook_payload

text \<open>
  The world of the hooks: the clock, the permits left of each semaphore, the deliveries under way and
  the posts sent. \<open>ww_limits\<close> keeps the permits each semaphore was made with, for the statements only.
\<close>

record webhook_world =
  ww_now :: string
  ww_permits :: "nat list"
  ww_limits :: "nat list"
  ww_deliveries :: "delivery list"
  ww_posts :: "webhook_post list"

definition normalize_host :: "string \<Rightarrow> string" where
  "normalize_host h = rev (dropWhile (\<lambda>c. c = CHR '']'') (rev (dropWhile (\<lambda>c. c = CHR ''['') h)))"

definition is_forbidden_webhook_host :: "string \<Rightarrow> bool" where
  "is_forbidden_webhook_host host =
     (let lower = ascii_lower host in
      lower = ''localhost'' \<or> ends_with lower ''.localhost'' \<or> lower = ''host.docker.internal'' \<or>
      lower = ''metadata.google.internal'' \<or> lower = ''metadata.aws.internal'')"

definition is_forbidden_header :: "string \<Rightarrow> bool" where
  "is_forbidden_header name =
     (let lower = ascii_lower name in
      lower = ''host'' \<or> lower = ''authorization'' \<or> lower = ''cookie'' \<or> lower = ''proxy-authorization'' \<or>
      lower = ''forwarded'' \<or> lower = ''x-real-ip'' \<or> lower = ''transfer-encoding'' \<or> lower = ''connection'' \<or>
      starts_with lower ''x-forwarded-'')"

definition validate_webhook_url :: "web_lib \<Rightarrow> string \<Rightarrow> string \<Rightarrow> (bundle_error, webhook_url) result" where
  "validate_webhook_url web hook url =
     (case url_parse web url of
        None \<Rightarrow> Inl (InvalidWebhookUrl hook url)
      | Some u \<Rightarrow>
          if wu_scheme u \<noteq> ''https'' then Inl (InvalidWebhookScheme hook (wu_scheme u))
          else if wu_username u \<noteq> [] \<or> wu_password u \<noteq> None then Inl (InvalidWebhookUrl hook url)
          else case wu_host u of
            None \<Rightarrow> Inr u
          | Some host \<Rightarrow>
              (let h = normalize_host host in
               case ip_parse web h of
                 Some ip \<Rightarrow> if is_forbidden_ip ip then Inl (ForbiddenWebhookHost hook h) else Inr u
               | None \<Rightarrow> if is_forbidden_webhook_host h then Inl (ForbiddenWebhookHost hook h) else Inr u))"

text \<open>The headers are checked in the order of iteration of the map; an insertion replaces.\<close>

fun validate_headers_from ::
  "web_lib \<Rightarrow> string \<Rightarrow> (string \<times> string) list \<Rightarrow> (string \<times> string) list \<Rightarrow> (bundle_error, (string \<times> string) list) result" where
  "validate_headers_from web hook [] done_headers = Inr done_headers"
| "validate_headers_from web hook ((name, val) # rest) done_headers =
     (case header_name web name of
        Inl why \<Rightarrow> Inl (InvalidWebhookHeader hook name why)
      | Inr n \<Rightarrow>
          if is_forbidden_header n then Inl (ForbiddenWebhookHeader hook name)
          else case header_value web val of
            Inl why \<Rightarrow> Inl (InvalidWebhookHeader hook name why)
          | Inr v \<Rightarrow> validate_headers_from web hook rest (AList.update n v done_headers))"

definition validate_webhook_headers :: "web_lib \<Rightarrow> string \<Rightarrow> (string \<times> string) list \<Rightarrow> (bundle_error, (string \<times> string) list) result" where
  "validate_webhook_headers web hook hs = validate_headers_from web hook hs []"

text \<open>\<open>client\<close> is the error of building the HTTP client, if any; \<open>sem\<close> names the new semaphore.\<close>

definition webhook_from_config ::
  "web_lib \<Rightarrow> string option \<Rightarrow> nat \<Rightarrow> string \<Rightarrow> outbound_webhook_config \<Rightarrow> (bundle_error, webhook_hook \<times> nat \<times> nat) result" where
  "webhook_from_config web client sem source c =
     (let name = scoped_name source (wc_name c) in
      if wc_points c = [] then Inl (MissingHookPoints name)
      else case validate_webhook_url web name (wc_url c) of
        Inl e \<Rightarrow> Inl e
      | Inr url \<Rightarrow>
          (case validate_webhook_headers web name (wc_headers c) of
             Inl e \<Rightarrow> Inl e
           | Inr headers \<Rightarrow>
               (case timeout_from_ms (case wc_timeout_ms c of Some ms \<Rightarrow> Some ms | None \<Rightarrow> Some 2000) name of
                  Inl e \<Rightarrow> Inl e
                | Inr timeout \<Rightarrow>
                    (let max_in_flight = (case wc_max_in_flight c of Some n \<Rightarrow> n | None \<Rightarrow> 32) in
                     if max_in_flight = 0 then Inl (InvalidWebhookMaxInFlight name)
                     else case client of
                       Some why \<Rightarrow> Inl (InvalidFormat why)
                     | None \<Rightarrow> Inr (\<lparr>wk_name = name, wk_points = wc_points c, wk_url = wu_text url, wk_headers = headers,
                         wk_timeout = timeout, wk_semaphore = sem\<rparr>,
                         max_in_flight, case wc_priority c of Some p \<Rightarrow> p | None \<Rightarrow> 300)))))"

text \<open>The context of a run has no metadata. Without a permit the delivery is dropped.\<close>

definition webhook_execute :: "webhook_hook \<Rightarrow> 'n hook_event \<Rightarrow> webhook_world \<Rightarrow> hook_run \<times> webhook_world" where
  "webhook_execute h e w =
     (let payload = \<lparr>wp_hook = wk_name h, wp_point = hook_point_str (event_point e), wp_timestamp = ww_now w,
            wp_event = summarize_webhook_event e, wp_metadata_present = False\<rparr>;
          s = wk_semaphore h
      in if ww_permits w ! s = 0 then (Ran (Inr (HookContinue None)), w)
         else (Ran (Inr (HookContinue None)),
           w\<lparr>ww_permits := (ww_permits w)[s := ww_permits w ! s - 1],
             ww_deliveries := ww_deliveries w @ [\<lparr>dl_semaphore = s, dl_url = wk_url h, dl_headers = wk_headers h, dl_payload = payload\<rparr>]\<rparr>))"

definition hook_of_webhook :: "webhook_hook \<Rightarrow> ('n, webhook_world) hook" where
  "hook_of_webhook h = \<lparr>hk_name = wk_name h, hk_points = wk_points h, hk_mode = FailOpen, hk_timeout = wk_timeout h,
     hk_execute = webhook_execute h\<rparr>"

text \<open>
  \<open>dispatch_client_for_target\<close>: the addresses the client may connect to. \<open>dns\<close> is the answer of the
  look-up, \<open>built\<close> the error of building the client.
\<close>

definition dispatch_client_for_target :: "web_lib \<Rightarrow> (string, ip_addr list) result \<Rightarrow> string option \<Rightarrow> string \<Rightarrow> (string, ip_addr list) result" where
  "dispatch_client_for_target web dns built url =
     (case url_parse web url of
        None \<Rightarrow> Inl ''Invalid URL''
      | Some u \<Rightarrow>
          (case wu_host u of
             None \<Rightarrow> Inl ''Webhook URL has no host''
           | Some host \<Rightarrow>
               (case ip_parse web (normalize_host host) of
                  Some ip \<Rightarrow> if is_forbidden_ip ip then Inl ''Webhook target resolves to blocked IP'' else Inr [ip]
                | None \<Rightarrow>
                    if wu_port u = None then Inl ''Webhook URL has no valid port''
                    else (case dns of
                       Inl why \<Rightarrow> Inl (''DNS resolution failed: '' @ why)
                     | Inr addrs \<Rightarrow>
                         if addrs = [] then Inl ''DNS resolution returned no addresses''
                         else if list_ex is_forbidden_ip addrs then Inl ''Webhook target resolves to blocked IP''
                         else (case built of Some why \<Rightarrow> Inl (''Failed to build resolved webhook client: '' @ why) | None \<Rightarrow> Inr addrs)))))"

text \<open>The task of the delivery with number \<open>i\<close>: it posts or gives up, and returns its permit.\<close>

definition deliver :: "web_lib \<Rightarrow> (string, ip_addr list) result \<Rightarrow> string option \<Rightarrow> nat \<Rightarrow> webhook_world \<Rightarrow> webhook_world" where
  "deliver web dns built i w =
     (if i < length (ww_deliveries w) then
        (let d = ww_deliveries w ! i; s = dl_semaphore d;
             w' = w\<lparr>ww_permits := (ww_permits w)[s := ww_permits w ! s + 1], ww_deliveries := take i (ww_deliveries w) @ drop (Suc i) (ww_deliveries w)\<rparr>
         in case dispatch_client_for_target web dns built (dl_url d) of
              Inl _ \<Rightarrow> w'
            | Inr addrs \<Rightarrow> w'\<lparr>ww_posts := ww_posts w @ [\<lparr>po_url = dl_url d, po_headers = dl_headers d, po_addresses = addrs, po_payload = dl_payload d\<rparr>]\<rparr>)
      else w)"

section \<open>Registration of bundles\<close>

record registration_summary =
  rs_hooks :: nat
  rs_webhooks :: nat
  rs_errors :: nat

definition empty_summary :: registration_summary where
  "empty_summary = \<lparr>rs_hooks = 0, rs_webhooks = 0, rs_errors = 0\<rparr>"

definition total_registered :: "registration_summary \<Rightarrow> nat" where
  "total_registered s = rs_hooks s + rs_webhooks s"

definition merge_summary :: "registration_summary \<Rightarrow> registration_summary \<Rightarrow> registration_summary" where
  "merge_summary a b = \<lparr>rs_hooks = rs_hooks a + rs_hooks b, rs_webhooks = rs_webhooks a + rs_webhooks b, rs_errors = rs_errors a + rs_errors b\<rparr>"

record ('n, 'r) bundle_libs =
  bl_hook :: "'n hook_lib"
  bl_regex :: "'r regex_lib"
  bl_web :: web_lib

definition register_bundled_hooks :: "('n, 'w) hook_entry list \<Rightarrow> registration_summary \<times> ('n, 'w) hook_entry list" where
  "register_bundled_hooks es = (\<lparr>rs_hooks = 1, rs_webhooks = 0, rs_errors = 0\<rparr>, register_with_priority audit_log_hook 25 es)"

definition register_rule ::
  "('n, 'r) bundle_libs \<Rightarrow> string \<Rightarrow> registration_summary \<times> ('n, 'w) hook_entry list \<Rightarrow> hook_rule_config
     \<Rightarrow> registration_summary \<times> ('n, 'w) hook_entry list" where
  "register_rule L source = (\<lambda>(s, es) c.
     case rule_from_config (bl_regex L) source c of
       Inr (r, p) \<Rightarrow> (s\<lparr>rs_hooks := rs_hooks s + 1\<rparr>, register_with_priority (hook_of_rule (bl_hook L) (bl_regex L) r) p es)
     | Inl _ \<Rightarrow> (s\<lparr>rs_errors := rs_errors s + 1\<rparr>, es))"

text \<open>\<open>client\<close> is the answer of building the client of a webhook.\<close>

type_synonym 'n host_hooks = "('n, webhook_world) hook_entry list \<times> webhook_world"

definition register_webhook ::
  "('n, 'r) bundle_libs \<Rightarrow> (outbound_webhook_config \<Rightarrow> string option) \<Rightarrow> string \<Rightarrow> registration_summary \<times> 'n host_hooks
     \<Rightarrow> outbound_webhook_config \<Rightarrow> registration_summary \<times> 'n host_hooks" where
  "register_webhook L client source = (\<lambda>(s, es, w) c.
     case webhook_from_config (bl_web L) (client c) (length (ww_permits w)) source c of
       Inr (h, n, p) \<Rightarrow> (s\<lparr>rs_webhooks := rs_webhooks s + 1\<rparr>, register_with_priority (hook_of_webhook h) p es,
         w\<lparr>ww_permits := ww_permits w @ [n], ww_limits := ww_limits w @ [n]\<rparr>)
     | Inl _ \<Rightarrow> (s\<lparr>rs_errors := rs_errors s + 1\<rparr>, es, w))"

definition register_bundle ::
  "('n, 'r) bundle_libs \<Rightarrow> (outbound_webhook_config \<Rightarrow> string option) \<Rightarrow> string \<Rightarrow> hook_bundle_config \<Rightarrow> 'n host_hooks
     \<Rightarrow> registration_summary \<times> 'n host_hooks" where
  "register_bundle L client source b = (\<lambda>(es, w).
     (case foldl (register_rule L source) (empty_summary, es) (bc_rules b) of
        (s, es') \<Rightarrow> foldl (register_webhook L client source) (s, es', w) (bc_webhooks b)))"

section \<open>Loading at start-up\<close>

text \<open>The deserialization of a bundle or of a list of rules by \<open>serde\<close>, and the files it reads.\<close>

record 'n bundle_env =
  be_rules :: "'n json \<Rightarrow> (string, hook_rule_config list) result"
  be_bundle :: "'n json \<Rightarrow> (string, hook_bundle_config) result"
  be_read :: "string \<Rightarrow> (string, utext) result"
  be_client :: "outbound_webhook_config \<Rightarrow> string option"

definition bundle_from_value :: "'n bundle_env \<Rightarrow> 'n json \<Rightarrow> (bundle_error, hook_bundle_config) result" where
  "bundle_from_value env v =
     (case v of
        JArray _ \<Rightarrow> (case be_rules env v of Inl why \<Rightarrow> Inl (InvalidFormat why) | Inr rs \<Rightarrow> Inr \<lparr>bc_rules = rs, bc_webhooks = []\<rparr>)
      | _ \<Rightarrow> (case be_bundle env v of Inl why \<Rightarrow> Inl (InvalidFormat why) | Inr b \<Rightarrow> Inr b))"

definition extract_hooks_section :: "'n json \<Rightarrow> 'n json option" where
  "extract_hooks_section v =
     (case json_get v ''hooks'' of
        Some h \<Rightarrow> Some h
      | None \<Rightarrow> Option.bind (json_get v ''capabilities'') (\<lambda>c. json_get c ''hooks''))"

definition failed_summary :: registration_summary where
  "failed_summary = \<lparr>rs_hooks = 0, rs_webhooks = 0, rs_errors = 1\<rparr>"

definition load_plugin_bundle :: "('n, 'r) bundle_libs \<Rightarrow> 'n bundle_env \<Rightarrow> string \<Rightarrow> (string, hook_bundle_config option) result" where
  "load_plugin_bundle L env path =
     (case be_read env path of
        Inl why \<Rightarrow> Inl (''read failed: '' @ why)
      | Inr bytes \<Rightarrow> (case json_parse (bl_hook L) bytes of
          None \<Rightarrow> Inl ''invalid JSON''
        | Some v \<Rightarrow> (case extract_hooks_section v of
            None \<Rightarrow> Inr None
          | Some h \<Rightarrow> (case bundle_from_value env h of Inl _ \<Rightarrow> Inl ''invalid bundle'' | Inr b \<Rightarrow> Inr (Some b)))))"

definition register_plugin_bundle ::
  "('n, 'r) bundle_libs \<Rightarrow> 'n bundle_env \<Rightarrow> string \<Rightarrow> string \<Rightarrow> 'n host_hooks \<Rightarrow> registration_summary \<times> 'n host_hooks" where
  "register_plugin_bundle L env source path H =
     (case load_plugin_bundle L env path of
        Inr (Some b) \<Rightarrow> register_bundle L (be_client env) source b H
      | Inr None \<Rightarrow> (empty_summary, H)
      | Inl _ \<Rightarrow> (failed_summary, H))"

definition insert_unique :: "(string \<times> string) list \<times> string list \<Rightarrow> string \<times> string \<Rightarrow> (string \<times> string) list \<times> string list" where
  "insert_unique = (\<lambda>(files, seen) (source, path).
     if path \<in> set seen then (files, seen) else (files @ [(source, path)], path # seen))"

text \<open>The discovered tools and channels, each with the path of its capabilities file if it has one.\<close>

type_synonym discovered = "(string \<times> string option) list"

definition capability_files :: "string \<Rightarrow> (string \<Rightarrow> bool) \<Rightarrow> (string, discovered) result \<Rightarrow> (string \<times> string) list" where
  "capability_files kind wanted found =
     (case found of
        Inl _ \<Rightarrow> []
      | Inr xs \<Rightarrow> List.map_filter (\<lambda>(name, path). case path of
          Some p \<Rightarrow> if wanted name then Some (kind @ name, p) else None | None \<Rightarrow> None) xs)"

definition collect_plugin_capability_files ::
  "(string, discovered) result option \<Rightarrow> (string, discovered) result \<Rightarrow> (string, discovered) result option
     \<Rightarrow> string list \<Rightarrow> string list \<Rightarrow> string list \<Rightarrow> (string \<times> string) list" where
  "collect_plugin_capability_files tools dev_tools channels active_tools active_channels dev_loaded =
     sort_key fst (fst (foldl insert_unique ([], [])
       ((case tools of None \<Rightarrow> [] | Some r \<Rightarrow> capability_files ''plugin.tool:'' (\<lambda>n. n \<in> set active_tools \<and> n \<notin> set dev_loaded) r) @
        capability_files ''plugin.dev_tool:'' (\<lambda>n. n \<in> set active_tools \<and> n \<in> set dev_loaded) dev_tools @
        (case channels of None \<Rightarrow> [] | Some r \<Rightarrow> capability_files ''plugin.channel:'' (\<lambda>n. n \<in> set active_channels) r))))"

definition merge_step ::
  "('n host_hooks \<Rightarrow> registration_summary \<times> 'n host_hooks) \<Rightarrow> registration_summary \<times> 'n host_hooks \<Rightarrow> registration_summary \<times> 'n host_hooks" where
  "merge_step f = (\<lambda>(s, H). case f H of (s', H') \<Rightarrow> (merge_summary s s', H'))"

definition register_plugin_bundles ::
  "('n, 'r) bundle_libs \<Rightarrow> 'n bundle_env \<Rightarrow> (string \<times> string) list \<Rightarrow> 'n host_hooks \<Rightarrow> registration_summary \<times> 'n host_hooks" where
  "register_plugin_bundles L env files H =
     foldl (\<lambda>acc (source, path). merge_step (register_plugin_bundle L env source path) acc) (empty_summary, H) files"

definition is_workspace_hook_file :: "string \<Rightarrow> bool" where
  "is_workspace_hook_file p \<longleftrightarrow> p = ''hooks/hooks.json'' \<or> (starts_with p ''hooks/'' \<and> ends_with p ''.hook.json'')"

definition parse_workspace_bundle :: "'n bundle_env \<Rightarrow> 'n json \<Rightarrow> (bundle_error, hook_bundle_config) result" where
  "parse_workspace_bundle env v = (case json_get v ''hooks'' of Some nested \<Rightarrow> bundle_from_value env nested | None \<Rightarrow> bundle_from_value env v)"

text \<open>\<open>paths\<close> is what the workspace lists, \<open>be_read\<close> what it reads.\<close>

definition register_workspace_file ::
  "('n, 'r) bundle_libs \<Rightarrow> 'n bundle_env \<Rightarrow> string \<Rightarrow> 'n host_hooks \<Rightarrow> registration_summary \<times> 'n host_hooks" where
  "register_workspace_file L env path H =
     (case be_read env path of
        Inl _ \<Rightarrow> (failed_summary, H)
      | Inr txt \<Rightarrow> (case json_parse (bl_hook L) txt of
          None \<Rightarrow> (failed_summary, H)
        | Some v \<Rightarrow> (case parse_workspace_bundle env v of
            Inl _ \<Rightarrow> (failed_summary, H)
          | Inr b \<Rightarrow> register_bundle L (be_client env) (''workspace:'' @ path) b H)))"

definition register_workspace_bundles ::
  "('n, 'r) bundle_libs \<Rightarrow> 'n bundle_env \<Rightarrow> (string, string list) result \<Rightarrow> 'n host_hooks \<Rightarrow> registration_summary \<times> 'n host_hooks" where
  "register_workspace_bundles L env paths H =
     (case paths of
        Inl _ \<Rightarrow> (failed_summary, H)
      | Inr ps \<Rightarrow> foldl (\<lambda>acc path. merge_step (register_workspace_file L env path) acc) (empty_summary, H) (sort (filter is_workspace_hook_file ps)))"

record bootstrap_summary =
  bs_bundled :: nat
  bs_plugin :: nat
  bs_workspace :: nat
  bs_webhooks :: nat
  bs_errors :: nat

definition total_hooks :: "bootstrap_summary \<Rightarrow> nat" where
  "total_hooks s = bs_bundled s + bs_plugin s + bs_workspace s + bs_webhooks s"

definition bootstrap_hooks ::
  "('n, 'r) bundle_libs \<Rightarrow> 'n bundle_env \<Rightarrow> (string \<times> string) list \<Rightarrow> 'n bundle_env \<Rightarrow> (string, string list) result option
     \<Rightarrow> 'n host_hooks \<Rightarrow> bootstrap_summary \<times> 'n host_hooks" where
  "bootstrap_hooks L files_env files workspace_env workspace = (\<lambda>(es, w).
     (let (b, es1) = register_bundled_hooks es;
          (p, H2) = register_plugin_bundles L files_env files (es1, w);
          (k, H3) = (case workspace of None \<Rightarrow> (empty_summary, H2) | Some paths \<Rightarrow> register_workspace_bundles L workspace_env paths H2)
      in (\<lparr>bs_bundled = rs_hooks b, bs_plugin = rs_hooks p, bs_workspace = rs_hooks k,
            bs_webhooks = rs_webhooks b + rs_webhooks p + rs_webhooks k, bs_errors = rs_errors b + rs_errors p + rs_errors k\<rparr>, H3)))"

section \<open>The addresses webhooks may not reach\<close>

text \<open>
  The addresses as numbers of 128 bits, an IPv4 address as the IPv6 address that maps it, and the
  blocks no webhook may reach: a block is a number and the length of its prefix.
\<close>

definition v4_number :: "nat \<Rightarrow> nat \<Rightarrow> nat \<Rightarrow> nat \<Rightarrow> nat" where
  "v4_number a b c d = ((a * 256 + b) * 256 + c) * 256 + d"

definition mapped_number :: "nat \<Rightarrow> nat" where
  "mapped_number n = 0xffff * 2 ^ 32 + n"

fun ip_number :: "ip_addr \<Rightarrow> nat" where
  "ip_number (IpV4 (V4 a b c d)) = mapped_number (v4_number (unat a) (unat b) (unat c) (unat d))"
| "ip_number (IpV6 (V6 s0 s1 s2 s3 s4 s5 s6 s7)) =
     foldl (\<lambda>n s. n * 65536 + unat s) 0 [s0, s1, s2, s3, s4, s5, s6, s7]"

definition in_block :: "nat \<Rightarrow> nat \<times> nat \<Rightarrow> bool" where
  "in_block n b \<longleftrightarrow> n div 2 ^ (128 - snd b) = fst b div 2 ^ (128 - snd b)"

definition v4_blocks :: "(nat \<times> nat) list" where
  "v4_blocks = [(v4_number 10 0 0 0, 8), (v4_number 172 16 0 0, 12), (v4_number 192 168 0 0, 16), (v4_number 127 0 0 0, 8),
     (v4_number 169 254 0 0, 16), (v4_number 255 255 255 255, 32), (v4_number 192 0 2 0, 24), (v4_number 198 51 100 0, 24),
     (v4_number 203 0 113 0, 24), (v4_number 0 0 0 0, 32), (v4_number 224 0 0 0, 4), (v4_number 100 64 0 0, 10), (v4_number 198 18 0 0, 15)]"

definition v6_blocks :: "(nat \<times> nat) list" where
  "v6_blocks = [(0, 128), (1, 128), (0xfc00 * 2 ^ 112, 7), (0xfe80 * 2 ^ 112, 10), (0xff00 * 2 ^ 112, 8), (0x20010db8 * 2 ^ 96, 32)]"

definition internal_address :: "ip_addr \<Rightarrow> bool" where
  "internal_address ip \<longleftrightarrow>
     list_ex (in_block (ip_number ip)) (map (\<lambda>(n, len). (mapped_number n, 96 + len)) v4_blocks @ v6_blocks)"

lemma in_mapped_block:
  assumes "len \<le> 32"
  shows "in_block (mapped_number n) (mapped_number m, 96 + len) \<longleftrightarrow> n div 2 ^ (32 - len) = m div 2 ^ (32 - len)"
proof -
  have "mapped_number k = k + (0xffff * 2 ^ len) * 2 ^ (32 - len)" for k
    using assms by (simp add: mapped_number_def power_add [symmetric] mult.assoc)
  then have "mapped_number k div 2 ^ (32 - len) = k div 2 ^ (32 - len) + 0xffff * 2 ^ len" for k
    by (metis div_mult_self1 add.commute power_not_zero zero_neq_numeral)
  then show ?thesis by (simp add: in_block_def)
qed

lemma octet_less: "unat (a :: 8 word) < 256"
  using unsigned_less [of a] by simp

lemma segment_less: "unat (s :: 16 word) < 65536"
  using unsigned_less [of s] by simp

lemma v4_block_parts:
  assumes "a < 256" and "b < 256" and "c < 256" and "d < 256"
  shows "v4_number a b c d div 2 ^ 24 = a" and "v4_number a b c d div 2 ^ 20 = a * 16 + b div 16"
    and "v4_number a b c d div 2 ^ 16 = a * 256 + b" and "v4_number a b c d div 2 ^ 28 = a div 16"
    and "v4_number a b c d div 2 ^ 22 = a * 4 + b div 64" and "v4_number a b c d div 2 ^ 17 = a * 128 + b div 2"
    and "v4_number a b c d div 2 ^ 8 = (a * 256 + b) * 256 + c"
  using assms unfolding v4_number_def by simp_all

lemma horner_eq: "q < m \<Longrightarrow> y < m \<Longrightarrow> a * m + q = x * m + y \<longleftrightarrow> a = x \<and> q = (y :: nat)"
  by (metis add.commute div_mult_self3 div_less add_0 mod_less mod_mult_self1 gr_zeroI not_less_zero)

lemma v4_number_less: "a < 256 \<Longrightarrow> b < 256 \<Longrightarrow> c < 256 \<Longrightarrow> d < 256 \<Longrightarrow> v4_number a b c d < 2 ^ 32"
  by (simp add: v4_number_def)

lemma v4_eq_number:
  assumes "a < 256" and "b < 256" and "c < 256" and "d < 256"
  shows "v4_number a b c d = v4_number 255 255 255 255 \<longleftrightarrow> a = 255 \<and> b = 255 \<and> c = 255 \<and> d = 255"
  unfolding v4_number_def using assms by (simp only: horner_eq) auto

lemma word_le_unat: "(numeral k :: 8 word) \<le> b \<longleftrightarrow> unat (numeral k :: 8 word) \<le> unat b" "b \<le> (numeral k :: 8 word) \<longleftrightarrow> unat b \<le> unat (numeral k :: 8 word)"
  by (simp_all add: word_le_nat_alt)

lemma word_eq_unat: "(b :: 8 word) = numeral k \<longleftrightarrow> unat b = unat (numeral k :: 8 word)" "(b :: 8 word) = 0 \<longleftrightarrow> unat b = 0"
  by (simp_all add: word_unat_eq_iff)

lemma octet_numerals: "unat (10 :: 8 word) = 10" "unat (172 :: 8 word) = 172" "unat (16 :: 8 word) = 16" "unat (31 :: 8 word) = 31" "unat (192 :: 8 word) = 192" "unat (168 :: 8 word) = 168" "unat (127 :: 8 word) = 127" "unat (169 :: 8 word) = 169" "unat (254 :: 8 word) = 254" "unat (255 :: 8 word) = 255" "unat (2 :: 8 word) = 2" "unat (198 :: 8 word) = 198" "unat (51 :: 8 word) = 51" "unat (100 :: 8 word) = 100" "unat (203 :: 8 word) = 203" "unat (113 :: 8 word) = 113" "unat (224 :: 8 word) = 224" "unat (239 :: 8 word) = 239" "unat (64 :: 8 word) = 64" "unat (18 :: 8 word) = 18" "unat (19 :: 8 word) = 19"
  by simp_all

lemma if_disj: "(if P then True else Q) \<longleftrightarrow> P \<or> Q"
  by simp

lemma v4_forbidden_number:
  defines "n \<equiv> \<lambda>a b c d. v4_number (unat a) (unat b) (unat c) (unat d)"
  shows "is_forbidden_ipv4 (V4 a b c d) \<longleftrightarrow> list_ex (\<lambda>(m, len). n a b c d div 2 ^ (32 - len) = m div 2 ^ (32 - len)) v4_blocks"
proof -
  define A B C D where abcd: "A = unat a" "B = unat b" "C = unat c" "D = unat d"
  have less: "A < 256" "B < 256" "C < 256" "D < 256" by (simp_all add: abcd octet_less)
  note parts = v4_block_parts [OF less]
  have forbidden: "is_forbidden_ipv4 (V4 a b c d) \<longleftrightarrow>
      (A = 10 \<or> (A = 172 \<and> 16 \<le> B \<and> B \<le> 31) \<or> (A = 192 \<and> B = 168)) \<or> A = 127 \<or> (A = 169 \<and> B = 254) \<or>
      (A = 255 \<and> B = 255 \<and> C = 255 \<and> D = 255) \<or>
      ((A = 192 \<and> B = 0 \<and> C = 2) \<or> (A = 198 \<and> B = 51 \<and> C = 100) \<or> (A = 203 \<and> B = 0 \<and> C = 113)) \<or>
      (A = 0 \<and> B = 0 \<and> C = 0 \<and> D = 0) \<or> (224 \<le> A \<and> A \<le> 239) \<or>
      (A = 100 \<and> 64 \<le> B \<and> B \<le> 127) \<or> (A = 198 \<and> (B = 18 \<or> B = 19))"
    unfolding is_forbidden_ipv4.simps v4_private.simps v4_documentation.simps word_le_unat word_eq_unat abcd
    by (simp only: octet_numerals if_disj disj_assoc)
  have e1: "A * 16 + B div 16 = 2753 \<longleftrightarrow> A = 172 \<and> 16 \<le> B \<and> B \<le> 31"
    using horner_eq [of "B div 16" 16 1 A 172] less by simp linarith
  have e2: "A div 16 = 14 \<longleftrightarrow> 224 \<le> A \<and> A \<le> 239" by linarith
  have e3: "A * 4 + B div 64 = 401 \<longleftrightarrow> A = 100 \<and> 64 \<le> B \<and> B \<le> 127"
    using horner_eq [of "B div 64" 4 1 A 100] less by simp linarith
  have e4: "A * 128 + B div 2 = 25353 \<longleftrightarrow> A = 198 \<and> (B = 18 \<or> B = 19)"
    using horner_eq [of "B div 2" 128 9 A 198] less by simp linarith
  have e5: "A * 256 + B = 49320 \<longleftrightarrow> A = 192 \<and> B = 168" using horner_eq [of B 256 168 A 192] less by simp
  have e6: "A * 256 + B = 43518 \<longleftrightarrow> A = 169 \<and> B = 254" using horner_eq [of B 256 254 A 169] less by simp
  have e7: "(A * 256 + B) * 256 + C = 12582914 \<longleftrightarrow> A = 192 \<and> B = 0 \<and> C = 2"
    using horner_eq [of C 256 2 "A * 256 + B" "192 * 256"] horner_eq [of B 256 0 A 192] less by simp
  have e8: "(A * 256 + B) * 256 + C = 12989284 \<longleftrightarrow> A = 198 \<and> B = 51 \<and> C = 100"
    using horner_eq [of C 256 100 "A * 256 + B" "198 * 256 + 51"] horner_eq [of B 256 51 A 198] less by simp
  have e9: "(A * 256 + B) * 256 + C = 13303921 \<longleftrightarrow> A = 203 \<and> B = 0 \<and> C = 113"
    using horner_eq [of C 256 113 "A * 256 + B" "203 * 256"] horner_eq [of B 256 0 A 203] less by simp
  have e10: "v4_number A B C D = v4_number 0 0 0 0 \<longleftrightarrow> A = 0 \<and> B = 0 \<and> C = 0 \<and> D = 0"
    by (auto simp: v4_number_def)
  have e11: "v4_number A B C D = v4_number 255 255 255 255 \<longleftrightarrow> A = 255 \<and> B = 255 \<and> C = 255 \<and> D = 255"
    by (rule v4_eq_number [OF less])
  have bases: "v4_number 10 0 0 0 div 2 ^ 24 = 10" "v4_number 172 16 0 0 div 2 ^ 20 = 2753" "v4_number 192 168 0 0 div 2 ^ 16 = 49320"
    "v4_number 127 0 0 0 div 2 ^ 24 = 127" "v4_number 169 254 0 0 div 2 ^ 16 = 43518" "v4_number 192 0 2 0 div 2 ^ 8 = 12582914"
    "v4_number 198 51 100 0 div 2 ^ 8 = 12989284" "v4_number 203 0 113 0 div 2 ^ 8 = 13303921" "v4_number 224 0 0 0 div 2 ^ 28 = 14"
    "v4_number 100 64 0 0 div 2 ^ 22 = 401" "v4_number 198 18 0 0 div 2 ^ 17 = 25353"
    by (simp_all add: v4_number_def)
  have widths: "32 - 8 = (24 :: nat)" "32 - 12 = (20 :: nat)" "32 - 16 = (16 :: nat)" "32 - 32 = (0 :: nat)" "32 - 24 = (8 :: nat)"
    "32 - 4 = (28 :: nat)" "32 - 10 = (22 :: nat)" "32 - 15 = (17 :: nat)"
    by simp_all
  show ?thesis
    by (simp only: n_def abcd [symmetric] v4_blocks_def list_ex_Nil_iff list_ex_Cons_iff prod.case widths power_0 div_by_1 parts bases forbidden
      e1 e2 e3 e4 e5 e6 e7 e8 e9 e10 e11 disj_assoc simp_thms)
qed

lemma segment_mask:
  fixes s :: "16 word"
  shows "unat (s AND 0xfe00) = unat s div 512 * 512" and "unat (s AND 0xffc0) = unat s div 64 * 64"
    and "unat (s AND 0xff00) = unat s div 256 * 256"
proof -
  have up: "s AND push_bit n (mask (16 - n)) = push_bit n (drop_bit n s)" for n
    by (rule bit_word_eqI) (auto simp: bit_simps)
  have val: "unat (push_bit n (drop_bit n s)) = unat s div 2 ^ n * 2 ^ n" if "n \<le> 16" for n
  proof -
    have "unat s div 2 ^ n * 2 ^ n \<le> unat s" by simp
    also have "unat s < 2 ^ 16" using segment_less [of s] by simp
    finally have "unat s div 2 ^ n * 2 ^ n < 2 ^ 16" .
    then show ?thesis
      unfolding unsigned_push_bit_eq unsigned_drop_bit_eq by (simp add: push_bit_eq_mult drop_bit_eq_div take_bit_nat_eq_self segment_less)
  qed
  show "unat (s AND 0xfe00) = unat s div 512 * 512" using up [of 9] val [of 9] by (simp add: mask_eq_exp_minus_1)
  show "unat (s AND 0xffc0) = unat s div 64 * 64" using up [of 6] val [of 6] by (simp add: mask_eq_exp_minus_1)
  show "unat (s AND 0xff00) = unat s div 256 * 256" using up [of 8] val [of 8] by (simp add: mask_eq_exp_minus_1)
qed

lemma segment_octets: "unat (ucast (drop_bit 8 s) :: 8 word) * 256 + unat (ucast s :: 8 word) = unat (s :: 16 word)"
proof -
  have "unat s div 256 < 256" using segment_less [of s] by linarith
  then have "unat (ucast (drop_bit 8 s) :: 8 word) = unat s div 256"
    by (simp add: unsigned_ucast_eq unsigned_drop_bit_eq drop_bit_eq_div unat_div take_bit_nat_eq_self)
  moreover have "unat (ucast s :: 8 word) = unat s mod 256"
    by (simp add: unsigned_ucast_eq take_bit_eq_mod)
  ultimately show ?thesis by simp
qed

text \<open>The number of an IPv6 address by its upper 96 and its lower 32 bits.\<close>

definition v6_top :: "ipv6 \<Rightarrow> nat" where
  "v6_top v = (case v of V6 s0 s1 s2 s3 s4 s5 s6 s7 \<Rightarrow>
     ((((unat s0 * 65536 + unat s1) * 65536 + unat s2) * 65536 + unat s3) * 65536 + unat s4) * 65536 + unat s5)"

lemma ip_number_v6: "ip_number (IpV6 (V6 s0 s1 s2 s3 s4 s5 s6 s7)) = v6_top (V6 s0 s1 s2 s3 s4 s5 s6 s7) * 2 ^ 32 + (unat s6 * 65536 + unat s7)"
  by (simp add: v6_top_def)

lemma low_less: "unat (s6 :: 16 word) * 65536 + unat (s7 :: 16 word) < 2 ^ 32"
  using segment_less [of s6] segment_less [of s7] by simp

lemma horner_zero: "a * m + q = (y :: nat) \<longleftrightarrow> a = 0 \<and> q = y" if "q < m" "y < m"
  using horner_eq [of q m y a 0] that by simp

lemma segment_eq: "(s :: 16 word) = 0 \<longleftrightarrow> unat s = 0" "(s :: 16 word) = 1 \<longleftrightarrow> unat s = 1" "(s :: 16 word) = numeral k \<longleftrightarrow> unat s = unat (numeral k :: 16 word)"
  by (simp_all add: word_unat_eq_iff)

lemma horner6_value:
  assumes "y < B" and "x1 < B" "x2 < B" "x3 < B" "x4 < B" "x5 < B"
  shows "((((x0 * B + x1) * B + x2) * B + x3) * B + x4) * B + x5 = y \<longleftrightarrow> x0 = 0 \<and> x1 = 0 \<and> x2 = 0 \<and> x3 = 0 \<and> x4 = 0 \<and> x5 = (y :: nat)"
proof -
  have "0 < B" using assms by linarith
  then show ?thesis using assms by (simp add: horner_zero)
qed

lemma div_base: "q < B \<Longrightarrow> (a * B + q) div B = (a :: nat)"
  by simp

lemma v6_top_value: "y < 65536 \<Longrightarrow> v6_top (V6 s0 s1 s2 s3 s4 s5 s6 s7) = y \<longleftrightarrow>
    s0 = 0 \<and> s1 = 0 \<and> s2 = 0 \<and> s3 = 0 \<and> s4 = 0 \<and> unat s5 = y"
  unfolding v6_top_def ipv6.case segment_eq by (rule horner6_value) (simp_all add: segment_less)

lemma v6_number_value:
  assumes "y < 65536"
  shows "ip_number (IpV6 (V6 s0 s1 s2 s3 s4 s5 s6 s7)) = y \<longleftrightarrow>
    s0 = 0 \<and> s1 = 0 \<and> s2 = 0 \<and> s3 = 0 \<and> s4 = 0 \<and> s5 = 0 \<and> s6 = 0 \<and> unat s7 = y"
proof -
  have "ip_number (IpV6 (V6 s0 s1 s2 s3 s4 s5 s6 s7)) = y \<longleftrightarrow> v6_top (V6 s0 s1 s2 s3 s4 s5 s6 s7) = 0 \<and> unat s6 * 65536 + unat s7 = y"
    unfolding ip_number_v6 by (rule horner_zero) (use low_less [of s6 s7] assms in simp_all)
  also have "unat s6 * 65536 + unat s7 = y \<longleftrightarrow> unat s6 = 0 \<and> unat s7 = y"
    by (rule horner_zero) (use assms in \<open>simp_all add: segment_less\<close>)
  finally show ?thesis by (simp add: v6_top_value segment_eq)
qed

lemma v6_top_div: "v6_top (V6 s0 s1 s2 s3 s4 s5 s6 s7) div 65536 ^ 4 = unat s0 * 65536 + unat s1"
  "v6_top (V6 s0 s1 s2 s3 s4 s5 s6 s7) div 65536 ^ 5 = unat s0"
proof -
  have four: "n div 65536 ^ 4 = n div 65536 div 65536 div 65536 div 65536" for n :: nat
    by (simp only: div_mult2_eq [symmetric] power4_eq_xxxx mult.assoc)
  show pair: "v6_top (V6 s0 s1 s2 s3 s4 s5 s6 s7) div 65536 ^ 4 = unat s0 * 65536 + unat s1"
    unfolding v6_top_def ipv6.case four by (simp only: div_base segment_less)
  have "v6_top (V6 s0 s1 s2 s3 s4 s5 s6 s7) div 65536 ^ 5 = v6_top (V6 s0 s1 s2 s3 s4 s5 s6 s7) div 65536 ^ 4 div 65536"
    by (simp only: div_mult2_eq [symmetric]) simp
  then show "v6_top (V6 s0 s1 s2 s3 s4 s5 s6 s7) div 65536 ^ 5 = unat s0"
    by (simp only: pair div_base segment_less)
qed

lemma v6_number_div:
  "ip_number (IpV6 (V6 s0 s1 s2 s3 s4 s5 s6 s7)) div 2 ^ 32 = v6_top (V6 s0 s1 s2 s3 s4 s5 s6 s7)"
  unfolding ip_number_v6 by (rule div_base) (rule low_less)

lemma v6_number_div_more:
  assumes "m + 32 = k"
  shows "ip_number (IpV6 v) div 2 ^ k = ip_number (IpV6 v) div 2 ^ 32 div 2 ^ m"
  unfolding assms [symmetric] by (simp only: div_mult2_eq [symmetric] power_add mult.commute)

lemma octets_join: "p * 256 + q = (u :: nat) \<Longrightarrow> r * 256 + t = v \<Longrightarrow> ((p * 256 + q) * 256 + r) * 256 + t = u * 65536 + v"
  by simp

lemma v4_blocks_bounds: "list_all (\<lambda>(m, len). m < 2 ^ 32 \<and> len \<le> 32) v4_blocks"
  by (simp add: v4_blocks_def v4_number_def)

lemma in_v4_blocks:
  "list_ex (in_block (mapped_number n)) (map (\<lambda>(n, len). (mapped_number n, 96 + len)) v4_blocks) \<longleftrightarrow>
    list_ex (\<lambda>(m, len). n div 2 ^ (32 - len) = m div 2 ^ (32 - len)) v4_blocks"
proof -
  have "in_block (mapped_number n) (case b of (m, len) \<Rightarrow> (mapped_number m, 96 + len)) \<longleftrightarrow>
      (case b of (m, len) \<Rightarrow> n div 2 ^ (32 - len) = m div 2 ^ (32 - len))" if "b \<in> set v4_blocks" for b
    using v4_blocks_bounds that by (cases b) (auto simp: list_all_iff in_mapped_block simp del: power_numeral)
  then show ?thesis by (simp add: list_ex_iff)
qed

lemma outside_v4_blocks:
  assumes "n div 2 ^ 32 \<noteq> 0xffff"
  shows "\<not> list_ex (in_block n) (map (\<lambda>(n, len). (mapped_number n, 96 + len)) v4_blocks)"
proof -
  have "\<not> in_block n (mapped_number m, 96 + len)" if "m < 2 ^ 32" "len \<le> 32" for m len
  proof
    assume "in_block n (mapped_number m, 96 + len)"
    then have "n div 2 ^ (32 - len) div 2 ^ len = mapped_number m div 2 ^ (32 - len) div 2 ^ len"
      by (simp add: in_block_def)
    then have "n div 2 ^ 32 = mapped_number m div 2 ^ 32"
      using that(2) by (simp only: div_mult2_eq [symmetric] power_add [symmetric] le_add_diff_inverse2)
    moreover have "mapped_number m div 2 ^ 32 = 0xffff" unfolding mapped_number_def by (rule div_base) (rule that(1))
    ultimately show False using assms by simp
  qed
  with v4_blocks_bounds show ?thesis by (force simp: list_ex_iff list_all_iff)
qed

lemma in_v6_blocks:
  "list_ex (in_block (ip_number (IpV6 (V6 s0 s1 s2 s3 s4 s5 s6 s7)))) v6_blocks \<longleftrightarrow>
    (s0 = 0 \<and> s1 = 0 \<and> s2 = 0 \<and> s3 = 0 \<and> s4 = 0 \<and> s5 = 0 \<and> s6 = 0 \<and> (s7 = 0 \<or> s7 = 1)) \<or>
    s0 AND 0xfe00 = 0xfc00 \<or> s0 AND 0xffc0 = 0xfe80 \<or> s0 AND 0xff00 = 0xff00 \<or> (s0 = 0x2001 \<and> s1 = 0x0db8)"
proof -
  define n where "n = ip_number (IpV6 (V6 s0 s1 s2 s3 s4 s5 s6 s7))"
  have top: "n div 2 ^ 112 = unat s0" "n div 2 ^ 96 = unat s0 * 65536 + unat s1"
    using v6_top_div [of s0 s1 s2 s3 s4 s5 s6 s7]
      v6_number_div_more [of 80 112 "V6 s0 s1 s2 s3 s4 s5 s6 s7"] v6_number_div_more [of 64 96 "V6 s0 s1 s2 s3 s4 s5 s6 s7"]
    unfolding n_def v6_number_div by simp_all
  have more: "n div 2 ^ 121 = unat s0 div 512" "n div 2 ^ 118 = unat s0 div 64" "n div 2 ^ 120 = unat s0 div 256"
  proof -
    have "n div 2 ^ (112 + k) = unat s0 div 2 ^ k" for k by (simp only: power_add div_mult2_eq top)
    from this [of 9] this [of 6] this [of 8] show "n div 2 ^ 121 = unat s0 div 512" "n div 2 ^ 118 = unat s0 div 64" "n div 2 ^ 120 = unat s0 div 256"
      by simp_all
  qed
  have ends: "n = 0 \<longleftrightarrow> s0 = 0 \<and> s1 = 0 \<and> s2 = 0 \<and> s3 = 0 \<and> s4 = 0 \<and> s5 = 0 \<and> s6 = 0 \<and> s7 = 0"
    "n = 1 \<longleftrightarrow> s0 = 0 \<and> s1 = 0 \<and> s2 = 0 \<and> s3 = 0 \<and> s4 = 0 \<and> s5 = 0 \<and> s6 = 0 \<and> s7 = 1"
    unfolding n_def by (simp_all add: v6_number_value segment_eq del: ip_number.simps)
  have masks: "s0 AND 0xfe00 = 0xfc00 \<longleftrightarrow> unat s0 div 512 = 126" "s0 AND 0xffc0 = 0xfe80 \<longleftrightarrow> unat s0 div 64 = 1018"
    "s0 AND 0xff00 = 0xff00 \<longleftrightarrow> unat s0 div 256 = 255"
    by (simp_all add: word_unat_eq_iff segment_mask)
  have doc: "unat s0 * 65536 + unat s1 = 0x2001 * 65536 + 0x0db8 \<longleftrightarrow> s0 = 0x2001 \<and> s1 = 0x0db8"
    using horner_eq [of "unat s1" 65536 "0x0db8" "unat s0" "0x2001"] segment_less [of s1] by (simp add: segment_eq)
  have widths: "128 - 128 = (0 :: nat)" "128 - 7 = (121 :: nat)" "128 - 10 = (118 :: nat)" "128 - 8 = (120 :: nat)" "128 - 32 = (96 :: nat)"
    by simp_all
  have bases: "0xfc00 * 2 ^ 112 div 2 ^ 121 = (126 :: nat)" "0xfe80 * 2 ^ 112 div 2 ^ 118 = (1018 :: nat)"
    "0xff00 * 2 ^ 112 div 2 ^ 120 = (255 :: nat)" "0x20010db8 * 2 ^ 96 div 2 ^ 96 = (0x2001 * 65536 + 0x0db8 :: nat)"
    by simp_all
  show ?thesis
    unfolding n_def [symmetric]
    by (simp only: v6_blocks_def list_ex_Nil_iff list_ex_Cons_iff in_block_def fst_conv snd_conv widths power_0 div_by_1 bases top more masks doc ends
      conj_disj_distribL disj_assoc simp_thms)
qed

text \<open>
  C28. The test for forbidden addresses is membership in a fixed list of blocks: the private, local,
  link-local, carrier, benchmark, documentation, multicast and unspecified addresses of IPv4, written as
  such or mapped into IPv6, and the loopback, unspecified, unique local, link-local, multicast and
  documentation addresses of IPv6.
\<close>

theorem forbidden_ip_blocks: "is_forbidden_ip ip = internal_address ip"
proof (cases ip)
  case (IpV4 v)
  obtain a b c d where v: "v = V4 a b c d" by (cases v)
  define k where "k = v4_number (unat a) (unat b) (unat c) (unat d)"
  have less: "k < 2 ^ 32" unfolding k_def by (rule v4_number_less) (simp_all add: octet_less)
  define s6 s7 :: "16 word" where "s6 = of_nat (k div 65536)" and "s7 = of_nat (k mod 65536)"
  have "unat s6 = k div 65536" "unat s7 = k mod 65536"
    unfolding s6_def s7_def using less by (simp_all add: unsigned_of_nat take_bit_nat_eq_self)
  then have same: "mapped_number k = ip_number (IpV6 (V6 0 0 0 0 0 0xffff s6 s7))"
    unfolding ip_number_v6 v6_top_def mapped_number_def by simp
  have "\<not> list_ex (in_block (mapped_number k)) v6_blocks"
    unfolding same in_v6_blocks by simp
  then show ?thesis
    by (simp add: IpV4 v internal_address_def in_v4_blocks v4_forbidden_number k_def del: is_forbidden_ipv4.simps)
next
  case (IpV6 v)
  obtain s0 s1 s2 s3 s4 s5 s6 s7 where v: "v = V6 s0 s1 s2 s3 s4 s5 s6 s7" by (cases v)
  define n where "n = ip_number (IpV6 v)"
  have top: "n div 2 ^ 32 = 0xffff \<longleftrightarrow> s0 = 0 \<and> s1 = 0 \<and> s2 = 0 \<and> s3 = 0 \<and> s4 = 0 \<and> s5 = 0xffff"
    unfolding n_def v v6_number_div by (simp add: v6_top_value segment_eq)
  show ?thesis
  proof (cases "n div 2 ^ 32 = 0xffff")
    case True
    then have zero: "s0 = 0" "s1 = 0" "s2 = 0" "s3 = 0" "s4 = 0" "s5 = 0xffff" using top by simp_all
    let ?k = "v4_number (unat (ucast (drop_bit 8 s6) :: 8 word)) (unat (ucast s6 :: 8 word)) (unat (ucast (drop_bit 8 s7) :: 8 word)) (unat (ucast s7 :: 8 word))"
    have "?k = unat s6 * 65536 + unat s7"
      unfolding v4_number_def by (rule octets_join [OF segment_octets segment_octets])
    then have "n = mapped_number ?k"
      unfolding n_def v ip_number_v6 v6_top_def mapped_number_def ipv6.case by (simp add: zero)
    moreover have "\<not> list_ex (in_block n) v6_blocks" unfolding n_def v in_v6_blocks by (simp add: zero)
    moreover have "ipv6_mapped_ipv4 v = Some (V4 (ucast (drop_bit 8 s6)) (ucast s6) (ucast (drop_bit 8 s7)) (ucast s7))"
      by (simp add: v zero)
    ultimately show ?thesis
      unfolding internal_address_def IpV6 n_def [symmetric] is_forbidden_ip.simps list_ex_append
      by (simp only: option.case in_v4_blocks v4_forbidden_number simp_thms)
  next
    case False
    then have "ipv6_mapped_ipv4 v = None" using top by (auto simp: v)
    then show ?thesis
      unfolding internal_address_def IpV6 n_def [symmetric] is_forbidden_ip.simps list_ex_append
      using outside_v4_blocks [OF False] in_v6_blocks [of s0 s1 s2 s3 s4 s5 s6 s7] by (simp add: v n_def del: ip_number.simps)
  qed
qed

text \<open>Not every way to write an internal IPv4 address is caught: the NAT64 prefix carries one.\<close>

lemma nat64_not_forbidden: "\<not> is_forbidden_ip (IpV6 (V6 0x64 0xff9b 0 0 0 0 0x7f00 1))"
  by simp

section \<open>What a host with bundles does\<close>

datatype 'n host_op =
  LoadBundle "outbound_webhook_config \<Rightarrow> string option" string hook_bundle_config
| LoadBuiltin
| Unload string
| RunEvent "'n hook_event"
| Deliver "(string, ip_addr list) result" "string option" nat
| SetClock string

fun host_step :: "('n, 'r) bundle_libs \<Rightarrow> 'n host_hooks \<Rightarrow> 'n host_op \<Rightarrow> 'n host_hooks" where
  "host_step L (es, w) (LoadBundle client source b) = snd (register_bundle L client source b (es, w))"
| "host_step L (es, w) LoadBuiltin = (snd (register_bundled_hooks es), w)"
| "host_step L (es, w) (Unload n) = (snd (unregister_hook n es), w)"
| "host_step L (es, w) (RunEvent e) = (es, snd (registry_run (bl_hook L) es e w))"
| "host_step L (es, w) (Deliver dns built i) = (es, deliver (bl_web L) dns built i w)"
| "host_step L (es, w) (SetClock now) = (es, w\<lparr>ww_now := now\<rparr>)"

text \<open>A target and the headers that passed the checks of a registration.\<close>

definition public_target :: "web_lib \<Rightarrow> string \<Rightarrow> bool" where
  "public_target web url \<longleftrightarrow>
     (case url_parse web url of
        None \<Rightarrow> False
      | Some u \<Rightarrow> wu_scheme u = ''https'' \<and> wu_username u = [] \<and> wu_password u = None)"

definition plain_headers :: "(string \<times> string) list \<Rightarrow> bool" where
  "plain_headers hs \<longleftrightarrow> list_all (\<lambda>(n, v). \<not> is_forbidden_header n) hs"

definition safe_post :: "web_lib \<Rightarrow> webhook_post \<Rightarrow> bool" where
  "safe_post web p \<longleftrightarrow> public_target web (po_url p) \<and> plain_headers (po_headers p) \<and>
     po_addresses p \<noteq> [] \<and> list_all (\<lambda>a. \<not> internal_address a) (po_addresses p)"

definition in_flight :: "nat \<Rightarrow> webhook_world \<Rightarrow> nat" where
  "in_flight s w = length (filter (\<lambda>d. dl_semaphore d = s) (ww_deliveries w))"

definition webhooks_ok :: "web_lib \<Rightarrow> webhook_world \<Rightarrow> bool" where
  "webhooks_ok web w \<longleftrightarrow>
     length (ww_permits w) = length (ww_limits w) \<and>
     list_all (\<lambda>s. ww_permits w ! s + in_flight s w = ww_limits w ! s) [0..<length (ww_limits w)] \<and>
     list_all (\<lambda>d. dl_semaphore d < length (ww_limits w) \<and> public_target web (dl_url d) \<and> plain_headers (dl_headers d)) (ww_deliveries w) \<and>
     list_all (safe_post web) (ww_posts w)"

text \<open>A hook that keeps this once \<open>n\<close> semaphores exist.\<close>

definition harmless :: "web_lib \<Rightarrow> nat \<Rightarrow> ('n, webhook_world) hook \<Rightarrow> bool" where
  "harmless web n h \<longleftrightarrow> (\<forall>e w. webhooks_ok web w \<and> n \<le> length (ww_limits w) \<longrightarrow>
     webhooks_ok web (snd (hk_execute h e w)) \<and> ww_limits (snd (hk_execute h e w)) = ww_limits w)"

lemma harmlessD:
  assumes "harmless web n h" and "webhooks_ok web w" and "n \<le> length (ww_limits w)"
  shows "webhooks_ok web (snd (hk_execute h e w))" and "ww_limits (snd (hk_execute h e w)) = ww_limits w"
  using assms by (auto simp: harmless_def)

lemma harmless_mono: "harmless web n h \<Longrightarrow> n \<le> m \<Longrightarrow> harmless web m h"
  by (auto simp: harmless_def)

lemma harmless_audit: "harmless web n audit_log_hook"
  by (simp add: harmless_def audit_log_hook_def)

lemma harmless_rule: "harmless web n (hook_of_rule lib rx r)"
  by (simp add: harmless_def hook_of_rule_def)

lemma in_flight_snoc: "in_flight s (w\<lparr>ww_permits := p, ww_deliveries := ww_deliveries w @ [d]\<rparr>) =
    in_flight s w + (if dl_semaphore d = s then 1 else 0)"
  by (simp add: in_flight_def)

lemma harmless_webhook:
  assumes "public_target web (wk_url h)" and "plain_headers (wk_headers h)" and "wk_semaphore h < n"
  shows "harmless web n (hook_of_webhook h)"
  unfolding harmless_def
proof (intro allI impI)
  fix e :: "'n hook_event" and w
  assume w: "webhooks_ok web w \<and> n \<le> length (ww_limits w)"
  then have "wk_semaphore h < length (ww_permits w)" using assms(3) by (simp add: webhooks_ok_def)
  then have "ww_permits w ! wk_semaphore h + in_flight (wk_semaphore h) w = ww_limits w ! wk_semaphore h"
    using w by (auto simp: webhooks_ok_def list_all_iff)
  then have "0 < ww_permits w ! wk_semaphore h \<Longrightarrow> Suc (ww_limits w ! wk_semaphore h - Suc 0) = ww_limits w ! wk_semaphore h"
    by linarith
  with \<open>wk_semaphore h < length (ww_permits w)\<close> w assms show "webhooks_ok web (snd (hk_execute (hook_of_webhook h) e w)) \<and> ww_limits (snd (hk_execute (hook_of_webhook h) e w)) = ww_limits w"
    by (auto simp: hook_of_webhook_def webhook_execute_def webhooks_ok_def Let_def in_flight_snoc nth_list_update list_all_iff)
qed

lemma run_hooks_harmless:
  assumes "list_all (harmless web (length (ww_limits w))) hs" and "webhooks_ok web w"
  shows "webhooks_ok web (snd (run_hooks lib hs e w)) \<and> ww_limits (snd (run_hooks lib hs e w)) = ww_limits w"
  using assms
proof (induction hs arbitrary: e w)
  case (Cons h hs)
  obtain r w' where x: "hk_execute h e w = (r, w')" by fastforce
  have w': "webhooks_ok web w'" "ww_limits w' = ww_limits w"
    using harmlessD [of web "length (ww_limits w)" h w e] Cons.prems x by simp_all
  then have "webhooks_ok web (snd (run_hooks lib hs e' w')) \<and> ww_limits (snd (run_hooks lib hs e' w')) = ww_limits w" for e'
    using Cons.IH [of w' e'] Cons.prems by simp
  with w' show ?case
    by (auto simp: x split: hook_run.split sum.split hook_outcome.split option.split hook_failure_mode.split)
qed simp

lemma registry_run_harmless:
  assumes "list_all (\<lambda>x. harmless web (length (ww_limits w)) (he_hook x)) es" and "webhooks_ok web w"
  shows "webhooks_ok web (snd (registry_run lib es e w)) \<and> ww_limits (snd (registry_run lib es e w)) = ww_limits w"
proof -
  have "list_all (harmless web (length (ww_limits w))) (matching_hooks es e)"
    using assms(1) by (auto simp: matching_hooks_def list_all_iff)
  from run_hooks_harmless [OF this assms(2), of lib e] assms(2) show ?thesis
    by (auto simp: registry_run_def Let_def split: prod.splits sum.splits)
qed

lemma validated_url: "validate_webhook_url web hook url = Inr u \<Longrightarrow>
    url_parse web url = Some u \<and> wu_scheme u = ''https'' \<and> wu_username u = [] \<and> wu_password u = None"
  by (auto simp: validate_webhook_url_def Let_def split: option.splits if_splits)

lemma plain_update: "plain_headers hs \<Longrightarrow> \<not> is_forbidden_header n \<Longrightarrow> plain_headers (AList.update n v hs)"
  by (induction hs) (auto simp: plain_headers_def)

lemma validated_headers: "validate_headers_from web hook hs acc = Inr out \<Longrightarrow> plain_headers acc \<Longrightarrow> plain_headers out"
  by (induction web hook hs acc rule: validate_headers_from.induct) (auto simp: plain_update split: sum.splits if_splits)

lemma configured_webhook:
  assumes "webhook_from_config web client sem source c = Inr (h, n, p)"
    and law: "\<And>t u. url_parse web t = Some u \<Longrightarrow> url_parse web (wu_text u) = Some u"
  shows "public_target web (wk_url h) \<and> plain_headers (wk_headers h) \<and> wk_semaphore h = sem \<and> 0 < n"
proof -
  let ?name = "scoped_name source (wc_name c)"
  obtain u hs where u: "validate_webhook_url web ?name (wc_url c) = Inr u"
    and hs: "validate_webhook_headers web ?name (wc_headers c) = Inr hs"
    and h: "wk_url h = wu_text u" "wk_headers h = hs" "wk_semaphore h = sem" "0 < n"
    using assms(1) by (auto simp: webhook_from_config_def Let_def split: option.splits if_splits sum.splits)
  have "plain_headers hs" using validated_headers [of web ?name "wc_headers c" "[]" hs] hs
    by (simp add: validate_webhook_headers_def plain_headers_def)
  with validated_url [OF u] law [of "wc_url c" u] h show ?thesis by (simp add: public_target_def)
qed

definition host_ok :: "web_lib \<Rightarrow> 'n host_hooks \<Rightarrow> bool" where
  "host_ok web H \<longleftrightarrow> webhooks_ok web (snd H) \<and> list_all (\<lambda>x. harmless web (length (ww_limits (snd H))) (he_hook x)) (fst H)"

lemma set_register: "set (register_with_priority h p es) \<subseteq> insert \<lparr>he_hook = h, he_priority = p\<rparr> (set es)"
proof -
  have "replace_entry x es = Some es' \<Longrightarrow> set es' \<subseteq> insert x (set es)" for x and es' :: "('a, 'b) hook_entry list"
    by (induction es arbitrary: es') (auto split: if_splits)
  then show ?thesis by (auto simp: register_with_priority_def Let_def split: option.splits)
qed

lemma host_ok_register: "host_ok web (es, w) \<Longrightarrow> harmless web (length (ww_limits w)) h \<Longrightarrow> host_ok web (register_with_priority h p es, w)"
  using set_register [of h p es] by (fastforce simp: host_ok_def list_all_iff)

lemma host_ok_rules: "host_ok web (es, w) \<Longrightarrow> host_ok web (snd (foldl (register_rule L source) (s, es) cs), w)"
  by (induction cs arbitrary: s es)
     (auto simp: register_rule_def host_ok_register harmless_rule split: sum.split prod.split)

lemma webhooks_ok_new: "webhooks_ok web w \<Longrightarrow>
    webhooks_ok web (w\<lparr>ww_permits := ww_permits w @ [n], ww_limits := ww_limits w @ [n]\<rparr>)"
proof -
  assume w: "webhooks_ok web w"
  then have "in_flight (length (ww_limits w)) w = 0"
    by (auto simp: webhooks_ok_def in_flight_def list_all_iff filter_empty_conv)
  with w show ?thesis by (auto simp: webhooks_ok_def list_all_iff nth_append in_flight_def less_SucI)
qed

lemma host_ok_webhooks:
  assumes law: "\<And>t u. url_parse (bl_web L) t = Some u \<Longrightarrow> url_parse (bl_web L) (wu_text u) = Some u"
  shows "host_ok (bl_web L) H \<Longrightarrow> host_ok (bl_web L) (snd (foldl (register_webhook L client source) (s, H) cs))"
proof (induction cs arbitrary: s H)
  case (Cons c cs)
  obtain es w where H: "H = (es, w)" by fastforce
  have ok: "webhooks_ok (bl_web L) w" using Cons.prems by (simp add: H host_ok_def)
  show ?case
  proof (cases "webhook_from_config (bl_web L) (client c) (length (ww_permits w)) source c")
    case (Inl e)
    then show ?thesis using Cons by (simp add: H register_webhook_def)
  next
    case (Inr r)
    obtain h n p where r: "r = (h, n, p)" by (cases r)
    let ?w = "w\<lparr>ww_permits := ww_permits w @ [n], ww_limits := ww_limits w @ [n]\<rparr>"
    have "harmless (bl_web L) (length (ww_limits ?w)) (hook_of_webhook h)"
      using configured_webhook [OF Inr [unfolded r] law] ok by (intro harmless_webhook) (auto simp: webhooks_ok_def)
    moreover have "host_ok (bl_web L) (es, ?w)"
      using Cons.prems webhooks_ok_new [OF ok] by (auto simp: H host_ok_def list_all_iff intro: harmless_mono)
    ultimately have "host_ok (bl_web L) (register_with_priority (hook_of_webhook h) p es, ?w)" by (intro host_ok_register)
    from Cons.IH [OF this] Inr r show ?thesis by (simp add: H register_webhook_def)
  qed
qed simp

lemma dispatched_addresses:
  assumes "dispatch_client_for_target web dns built url = Inr addrs"
  shows "addrs \<noteq> [] \<and> list_all (\<lambda>a. \<not> internal_address a) addrs"
  using assms
  by (auto simp: dispatch_client_for_target_def forbidden_ip_blocks list_all_iff list_ex_iff split: option.splits if_splits sum.splits)

lemma in_flight_drop:
  assumes "i < length ds"
  shows "length (filter P ds) = length (filter P (take i ds @ drop (Suc i) ds)) + (if P (ds ! i) then 1 else 0)"
proof -
  have "ds = take i ds @ ds ! i # drop (Suc i) ds" using assms by (rule id_take_nth_drop)
  then have "length (filter P ds) = length (filter P (take i ds @ ds ! i # drop (Suc i) ds))" by simp
  then show ?thesis by simp
qed

lemma webhooks_ok_deliver:
  assumes "webhooks_ok web w"
  shows "webhooks_ok web (deliver web dns built i w) \<and> ww_limits (deliver web dns built i w) = ww_limits w"
proof (cases "i < length (ww_deliveries w)")
  case True
  define d where "d = ww_deliveries w ! i"
  define w' where "w' = w\<lparr>ww_permits := (ww_permits w)[dl_semaphore d := ww_permits w ! dl_semaphore d + 1],
    ww_deliveries := take i (ww_deliveries w) @ drop (Suc i) (ww_deliveries w)\<rparr>"
  have d: "dl_semaphore d < length (ww_limits w)" "public_target web (dl_url d)" "plain_headers (dl_headers d)"
    using assms True by (auto simp: webhooks_ok_def list_all_iff d_def)
  have "ww_permits w' ! s + in_flight s w' = ww_limits w ! s" if "s < length (ww_limits w)" for s
  proof -
    have eq: "ww_permits w ! s + length (filter (\<lambda>d. dl_semaphore d = s) (ww_deliveries w)) = ww_limits w ! s"
      and len: "length (ww_permits w) = length (ww_limits w)"
      using assms that by (auto simp: webhooks_ok_def list_all_iff in_flight_def)
    show ?thesis
      using eq in_flight_drop [OF True, of "\<lambda>d. dl_semaphore d = s"] that
      unfolding w'_def in_flight_def d_def [symmetric] by (cases "s = dl_semaphore d") (simp_all add: len)
  qed
  then have w': "webhooks_ok web w'"
    using assms by (auto simp: webhooks_ok_def list_all_iff w'_def dest: in_set_takeD in_set_dropD)
  have "deliver web dns built i w = (case dispatch_client_for_target web dns built (dl_url d) of
      Inl _ \<Rightarrow> w'
    | Inr addrs \<Rightarrow> w'\<lparr>ww_posts := ww_posts w @ [\<lparr>po_url = dl_url d, po_headers = dl_headers d, po_addresses = addrs, po_payload = dl_payload d\<rparr>]\<rparr>)"
    by (cases "dispatch_client_for_target web dns built (dl_url d)") (simp_all add: deliver_def True Let_def w'_def d_def [symmetric])
  moreover have "safe_post web \<lparr>po_url = dl_url d, po_headers = dl_headers d, po_addresses = addrs, po_payload = dl_payload d\<rparr>"
    if "dispatch_client_for_target web dns built (dl_url d) = Inr addrs" for addrs
    using dispatched_addresses [OF that] d by (simp add: safe_post_def)
  ultimately show ?thesis using w'
    by (auto simp: webhooks_ok_def w'_def in_flight_def split: sum.split)
qed (simp add: deliver_def assms)

lemma host_step_ok:
  assumes law: "\<And>t u. url_parse (bl_web L) t = Some u \<Longrightarrow> url_parse (bl_web L) (wu_text u) = Some u"
    and H: "host_ok (bl_web L) H"
  shows "host_ok (bl_web L) (host_step L H op)"
proof -
  obtain es w where eH: "H = (es, w)" by fastforce
  note ok = H [unfolded eH]
  show ?thesis unfolding eH
  proof (cases op)
    case (LoadBundle client source b)
    obtain s es' where rules: "foldl (register_rule L source) (empty_summary, es) (bc_rules b) = (s, es')" by fastforce
    then have "host_ok (bl_web L) (es', w)" using host_ok_rules [OF ok, of L source empty_summary "bc_rules b"] by simp
    then show "host_ok (bl_web L) (host_step L (es, w) op)"
      using host_ok_webhooks [OF law] by (simp add: LoadBundle register_bundle_def rules)
  next
    case LoadBuiltin
    then show "host_ok (bl_web L) (host_step L (es, w) op)"
      using host_ok_register [OF ok harmless_audit] by (simp add: register_bundled_hooks_def)
  next
    case (Unload n)
    then show "host_ok (bl_web L) (host_step L (es, w) op)"
      using ok by (auto simp: host_ok_def unregister_hook_def Let_def list_all_iff)
  next
    case (RunEvent e)
    then show "host_ok (bl_web L) (host_step L (es, w) op)"
      using ok registry_run_harmless [of "bl_web L" w es "bl_hook L" e] by (simp add: host_ok_def)
  next
    case (Deliver dns built i)
    then show "host_ok (bl_web L) (host_step L (es, w) op)"
      using ok webhooks_ok_deliver [of "bl_web L" w dns built i] by (simp add: host_ok_def)
  next
    case (SetClock now)
    then show "host_ok (bl_web L) (host_step L (es, w) op)"
      using ok by (simp add: SetClock host_ok_def webhooks_ok_def in_flight_def)
  qed
qed

definition empty_world :: webhook_world where
  "empty_world = \<lparr>ww_now = ''2026-01-01T00:00:00+00:00'', ww_permits = [], ww_limits = [], ww_deliveries = [], ww_posts = []\<rparr>"

text \<open>
  C18. However bundles are loaded and unloaded, events happen and deliveries proceed, a webhook only ever
  posts by https to a URL without credentials, with no header a bundle may not set, over a connection
  to addresses none of which is internal, whatever DNS answers; and no webhook has more deliveries
  under way than its limit. The library is assumed to parse a serialized URL back to itself.
\<close>

theorem webhooks_stay_outside:
  assumes law: "\<And>t u. url_parse (bl_web L) t = Some u \<Longrightarrow> url_parse (bl_web L) (wu_text u) = Some u"
    and run: "foldl (host_step L) ([], empty_world) ops = (es, w)"
  shows "list_all (safe_post (bl_web L)) (ww_posts w) \<and> list_all (\<lambda>s. in_flight s w \<le> ww_limits w ! s) [0..<length (ww_limits w)]"
proof -
  have "machine (host_step L) (host_ok (bl_web L))"
    by unfold_locales (rule host_step_ok [OF law])
  then have "host_ok (bl_web L) H \<Longrightarrow> host_ok (bl_web L) (foldl (host_step L) H ops)" for H
    by (rule machine.run_inv)
  moreover have "host_ok (bl_web L) ([], empty_world)"
    by (simp add: host_ok_def webhooks_ok_def empty_world_def)
  ultimately have "host_ok (bl_web L) (es, w)" unfolding run [symmetric] by blast
  then show ?thesis by (fastforce simp: host_ok_def webhooks_ok_def list_all_iff)
qed

definition sample_url :: webhook_url where
  "sample_url = \<lparr>wu_scheme = ''https'', wu_username = [], wu_password = None, wu_host = Some ''hooks.example'', wu_port = Some 443,
     wu_text = ''https://hooks.example/x''\<rparr>"

definition sample_web :: web_lib where
  "sample_web = \<lparr>url_parse = (\<lambda>t. if t = ''https://hooks.example/x'' then Some sample_url else None), ip_parse = (\<lambda>_. None),
     header_name = (\<lambda>n. Inr (ascii_lower n)), header_value = Inr\<rparr>"

definition sample_libs :: "(nat, nat) bundle_libs" where
  "sample_libs = \<lparr>bl_hook = sample_lib, bl_regex = \<lparr>regex_new = (\<lambda>_. Inr 0), regex_is_match = (\<lambda>_ _. True), regex_replace_all = (\<lambda>_ t _. t)\<rparr>,
     bl_web = sample_web\<rparr>"

definition sample_webhook_config :: outbound_webhook_config where
  "sample_webhook_config = \<lparr>wc_name = ''audit'', wc_points = [BeforeInbound], wc_url = ''https://hooks.example/x'',
     wc_headers = [(''X-Team'', ''core'')], wc_timeout_ms = None, wc_priority = None, wc_max_in_flight = Some 1\<rparr>"

definition sample_webhook :: webhook_hook where
  "sample_webhook = \<lparr>wk_name = ''w::audit'', wk_points = [BeforeInbound], wk_url = ''https://hooks.example/x'', wk_headers = [(''x-team'', ''core'')],
     wk_timeout = 2000000000, wk_semaphore = 0\<rparr>"

lemma sample_configured: "webhook_from_config sample_web None 0 ''w'' sample_webhook_config = Inr (sample_webhook, 1, 300)"
proof -
  have "validate_webhook_url sample_web name ''https://hooks.example/x'' = Inr sample_url" for name
    by (simp add: validate_webhook_url_def sample_web_def sample_url_def normalize_host_def is_forbidden_webhook_host_def
        ascii_lower_def ends_with_def Let_def)
  moreover have "ascii_lower ''X-Team'' = ''x-team''" "ascii_lower ''x-team'' = ''x-team''" by code_simp+
  then have "validate_webhook_headers sample_web name [(''X-Team'', ''core'')] = Inr [(''x-team'', ''core'')]" for name
    by (simp add: validate_webhook_headers_def sample_web_def is_forbidden_header_def starts_with_def)
  ultimately show ?thesis
    by (simp add: webhook_from_config_def sample_webhook_config_def sample_webhook_def scoped_name_def timeout_from_ms_def
        max_hook_timeout_ms_def sample_url_def)
qed

abbreviation said :: "string \<Rightarrow> nat hook_event" where
  "said t \<equiv> InboundEvent ''ann'' ''cli'' (utext_of t) None"

text \<open>The second event finds no permit, and the answer of DNS for the third names an internal address.\<close>

definition sample_host_ops :: "nat host_op list" where
  "sample_host_ops = [LoadBundle (\<lambda>_. None) ''w'' \<lparr>bc_rules = [], bc_webhooks = [sample_webhook_config]\<rparr>, RunEvent (said ''hi''), RunEvent (said ''dropped''),
     Deliver (Inr [IpV4 (V4 93 184 216 34)]) None 0, RunEvent (said ''rebound''), Deliver (Inr [IpV4 (V4 93 184 216 34), IpV4 (V4 10 0 0 1)]) None 0]"

lemma sample_loaded: "host_step sample_libs ([], empty_world) (LoadBundle (\<lambda>_. None) ''w'' \<lparr>bc_rules = [], bc_webhooks = [sample_webhook_config]\<rparr>) =
    ([\<lparr>he_hook = hook_of_webhook sample_webhook, he_priority = 300\<rparr>], empty_world\<lparr>ww_permits := [1], ww_limits := [1]\<rparr>)"
  using sample_configured
  by (simp add: register_bundle_def register_webhook_def sample_libs_def empty_world_def register_with_priority_def)

lemma sample_run_event: "snd (registry_run sample_lib [\<lparr>he_hook = hook_of_webhook sample_webhook, he_priority = 300\<rparr>] (said t) w) = snd (webhook_execute sample_webhook (said t) w)"
  by (simp add: registry_run_def matching_hooks_def hook_of_webhook_def sample_webhook_def webhook_execute_def Let_def)

lemma sample_dispatch: "dispatch_client_for_target sample_web (Inr addrs) None ''https://hooks.example/x'' =
    (if addrs = [] then Inl ''DNS resolution returned no addresses'' else if list_ex is_forbidden_ip addrs then Inl ''Webhook target resolves to blocked IP'' else Inr addrs)"
  by (simp add: dispatch_client_for_target_def sample_web_def sample_url_def)

theorem webhooks_stay_outside_witness:
  "\<exists>es w. foldl (host_step sample_libs) ([], empty_world) sample_host_ops = (es, w) \<and>
    map po_addresses (ww_posts w) = [[IpV4 (V4 93 184 216 34)]] \<and> ww_deliveries w = [] \<and> list_all (safe_post sample_web) (ww_posts w)"
proof -
  obtain es w where run: "foldl (host_step sample_libs) ([], empty_world) sample_host_ops = (es, w)" by fastforce
  have hook: "bl_hook sample_libs = sample_lib" "bl_web sample_libs = sample_web" by (simp_all add: sample_libs_def)
  have "map po_addresses (ww_posts w) = [[IpV4 (V4 93 184 216 34)]] \<and> ww_deliveries w = []"
    using run unfolding sample_host_ops_def foldl.simps sample_loaded
    unfolding host_step.simps hook sample_run_event
    by (auto simp: webhook_execute_def sample_webhook_def empty_world_def deliver_def sample_dispatch Let_def)
  moreover have "url_parse (bl_web sample_libs) t = Some u \<Longrightarrow> url_parse (bl_web sample_libs) (wu_text u) = Some u" for t u
    by (auto simp: sample_libs_def sample_web_def sample_url_def split: if_splits)
  from webhooks_stay_outside [OF this run] have "list_all (safe_post sample_web) (ww_posts w)" by (simp add: sample_libs_def)
  ultimately show ?thesis using run by simp
qed

section \<open>Rules never fail\<close>

lemma rule_always_answers: "\<exists>o'. hk_execute (hook_of_rule lib rx r) e w = (Ran (Inr o'), w)"
  by (auto simp: hook_of_rule_def rule_execute_def Let_def split: option.split)

text \<open>The mode and the timeout of a rule have no influence on any run.\<close>

lemma rule_mode_irrelevant:
  "run_hooks lib2 (hook_of_rule lib rx (r\<lparr>rh_mode := m, rh_timeout := t\<rparr>) # hs) e w = run_hooks lib2 (hook_of_rule lib rx r # hs) e w"
  by (auto simp: hook_of_rule_def rule_execute_def Let_def split: option.split)

text \<open>
  A rule that is to rewrite the arguments of a tool and breaks their JSON is dropped without a
  word: in either failure mode, with any timeout and priority, the call runs with the arguments the
  rule was to change.
\<close>

theorem broken_rewrite_is_dropped:
  fixes lib :: "'n hook_lib" and w :: 'w
  assumes rewrite: "rule_execute lib rx r (tool_event tool args ss user (utext_of ''chat'')) = Inr (HookContinue (Some v))"
    and broken: "json_parse lib v = None" and point: "BeforeToolCall \<in> set (rh_points r)"
  shows "chat_tool_hooks lib (register_with_priority (hook_of_rule lib rx (r\<lparr>rh_mode := m, rh_timeout := t\<rparr>)) p []) tool args ss user w = (RunTool args, w)"
proof -
  let ?h = "hook_of_rule lib rx (r\<lparr>rh_mode := m, rh_timeout := t\<rparr>) :: ('n, 'w) hook"
  have "matching_hooks (register_with_priority ?h p []) (tool_event tool args ss user (utext_of ''chat'')) = [?h]"
    using point by (simp add: matching_hooks_def register_with_priority_def hook_of_rule_def)
  moreover have "run_hooks lib [?h] (tool_event tool args ss user (utext_of ''chat'')) w = (Inr (tool_event tool args ss user (utext_of ''chat'')), w)"
    unfolding rule_mode_irrelevant using rewrite broken by (simp add: hook_of_rule_def tool_event_def)
  ultimately show ?thesis
    by (simp add: chat_tool_hooks_def registry_run_def Let_def del: run_hooks.simps)
qed

definition appending_rule :: "nat rule_hook" where
  "appending_rule = \<lparr>rh_name = ''workspace:hooks/hooks.json::mask'', rh_points = [BeforeToolCall], rh_mode = FailOpen, rh_timeout = secs 5, rh_when = None,
     rh_reject = None, rh_replacements = [], rh_prepend = None, rh_append = Some (utext_of ''!'')\<rparr>"

theorem broken_rewrite_is_dropped_witness:
  "chat_tool_hooks sample_lib (register_with_priority (hook_of_rule sample_lib (bl_regex sample_libs) (appending_rule\<lparr>rh_mode := FailClosed, rh_timeout := 1\<rparr>)) 10 [])
     (utext_of ''shell'') (JObject []) [] ''ann'' (0 :: nat) = (RunTool (JObject []), 0)"
proof -
  have "rule_execute sample_lib (bl_regex sample_libs) appending_rule (tool_event (utext_of ''shell'') (JObject []) [] ''ann'' (utext_of ''chat'')) =
      Inr (HookContinue (Some (utext_of ''{}!'')))"
    by (simp add: rule_execute_def appending_rule_def tool_event_def redact_params_def sample_lib_def utext_of_def)
  then show ?thesis
    by (rule broken_rewrite_is_dropped) (simp_all add: sample_lib_def utext_of_def appending_rule_def)
qed

text \<open>What a bundle reports: each of its rules and webhooks is counted once, as registered or as an error.\<close>

lemma register_rule_count: "foldl (register_rule L source) (s, es) cs = (s', es') \<Longrightarrow>
    rs_hooks s' + rs_errors s' = rs_hooks s + rs_errors s + length cs \<and> rs_webhooks s' = rs_webhooks s"
  by (induction cs arbitrary: s es) (auto simp: register_rule_def split: sum.splits prod.splits)

lemma register_webhook_count: "foldl (register_webhook L client source) (s, es, w) cs = (s', H') \<Longrightarrow>
    rs_webhooks s' + rs_errors s' = rs_webhooks s + rs_errors s + length cs \<and> rs_hooks s' = rs_hooks s"
  by (induction cs arbitrary: s es w) (auto simp: register_webhook_def split: sum.splits prod.splits)

lemma bundle_counts:
  assumes "register_bundle L client source b H = (s, H')"
  shows "total_registered s + rs_errors s = length (bc_rules b) + length (bc_webhooks b)"
proof -
  obtain es w where H: "H = (es, w)" by fastforce
  obtain s1 es1 where rules: "foldl (register_rule L source) (empty_summary, es) (bc_rules b) = (s1, es1)" by fastforce
  have "foldl (register_webhook L client source) (s1, es1, w) (bc_webhooks b) = (s, H')"
    using assms by (simp add: register_bundle_def H rules)
  from register_webhook_count [OF this] register_rule_count [OF rules] show ?thesis
    by (simp add: total_registered_def empty_summary_def)
qed

end
