(* ===== verification/ToolPermissions.thy ===== *)
theory ToolPermissions
  imports Hooks RateLimiter "HOL-Library.List_Lexorder"
begin

text \<open>
  Tools and who may use them: the trait of \<open>src/tools/tool.rs\<close> as a record, the registry of
  \<open>src/tools/registry.rs\<close>, the permissions of \<open>src/tools/permissions.rs\<close>, the scope of autonomous
  work of \<open>src/tools/autonomy.rs\<close> and the lookup of permissions of \<open>src/bridge/tool_permissions.rs\<close>.
  What a tool does is a function of its arguments and of a world it may change.
\<close>

section \<open>Tools\<close>

datatype approval_requirement = NeverAsk | UnlessAutoApproved | AlwaysAsk

fun is_required :: "approval_requirement \<Rightarrow> bool" where
  "is_required NeverAsk = False"
| "is_required _ = True"

text \<open>The only constructor of \<open>ApprovalContext\<close>; the set is \<open>allowed_tools\<close>.\<close>

datatype approval_context = AutonomousContext "utext set"

definition autonomous_context :: approval_context where
  "autonomous_context = AutonomousContext {}"

definition autonomous_with_tools :: "utext list \<Rightarrow> approval_context" where
  "autonomous_with_tools tools = AutonomousContext (set tools)"

fun is_blocked :: "approval_context \<Rightarrow> utext \<Rightarrow> approval_requirement \<Rightarrow> bool" where
  "is_blocked (AutonomousContext allowed) tool NeverAsk = False"
| "is_blocked (AutonomousContext allowed) tool UnlessAutoApproved = False"
| "is_blocked (AutonomousContext allowed) tool AlwaysAsk = (tool \<notin> allowed)"

definition is_blocked_or_default :: "approval_context option \<Rightarrow> utext \<Rightarrow> approval_requirement \<Rightarrow> bool" where
  "is_blocked_or_default context tool requirement =
     (case context of Some ctx \<Rightarrow> is_blocked ctx tool requirement | None \<Rightarrow> is_required requirement)"

datatype engine_version = V1 | V2
datatype engine_compatibility = BothEngines | V1Only | V2Only

fun is_visible_in :: "engine_compatibility \<Rightarrow> engine_version \<Rightarrow> bool" where
  "is_visible_in BothEngines version = True"
| "is_visible_in V1Only version = (version = V1)"
| "is_visible_in V2Only version = (version = V2)"

datatype tool_domain = OrchestratorDomain | ContainerDomain

record 'n tool_definition =
  td_name :: utext
  td_description :: utext
  td_parameters :: "'n json"

text \<open>
  A tool: the methods of the trait that callers look at. \<open>ht_prepare\<close> is \<open>prepare_tool_params\<close>, the
  coercion of arguments to the schema of the tool. A run ends with a result, with an error of the
  tool, or by its timeout.
\<close>

datatype 'n tool_run = ToolDone "'n json" | ToolErr utext | ToolElapsed

record ('n, 'w) host_tool =
  ht_name :: utext
  ht_description :: utext
  ht_schema :: "'n tool_definition"
  ht_requires_approval :: "'n json \<Rightarrow> approval_requirement"
  ht_sensitive :: "utext list"
  ht_rate_limit :: "tool_rate_limit_config option"
  ht_timeout :: duration
  ht_compat :: engine_compatibility
  ht_domain :: tool_domain
  ht_provider :: "utext option"
  ht_prepare :: "'n json \<Rightarrow> 'n json"
  ht_execute :: "'n json \<Rightarrow> 'w \<Rightarrow> 'n tool_run \<times> 'w"

section \<open>The registry\<close>

record ('n, 'w) tool_registry =
  tr_tools :: "utext \<rightharpoonup> ('n, 'w) host_tool"
  tr_builtin :: "utext set"
  tr_version :: engine_version

definition registry_new :: "('n, 'w) tool_registry" where
  "registry_new = \<lparr>tr_tools = Map.empty, tr_builtin = {}, tr_version = V1\<rparr>"

definition protected_tool_names :: "utext list" where
  "protected_tool_names = map utext_of
     [''echo'', ''time'', ''json'', ''http'', ''shell'', ''restart'', ''message'',
      ''read_file'', ''write_file'', ''list_dir'', ''apply_patch'', ''glob'', ''grep'', ''file_undo'',
      ''memory_search'', ''memory_write'', ''memory_read'', ''memory_tree'',
      ''create_job'', ''list_jobs'', ''job_status'', ''job_events'', ''job_prompt'', ''cancel_job'',
      ''build_software'', ''tool_search'', ''tool_install'', ''tool_auth'', ''tool_activate'', ''tool_list'',
      ''tool_remove'', ''tool_upgrade'', ''tool_info'', ''extension_info'',
      ''routine_create'', ''routine_list'', ''routine_update'', ''routine_delete'', ''routine_fire'',
      ''routine_history'', ''event_emit'',
      ''skill_list'', ''skill_search'', ''skill_install'', ''skill_remove'',
      ''secret_list'', ''secret_delete'',
      ''image_generate'', ''image_edit'', ''image_analyze'',
      ''plan_update'', ''tool_permission_set'', ''web_fetch'']"

definition is_protected_tool_name :: "utext \<Rightarrow> bool" where
  "is_protected_tool_name n \<longleftrightarrow> n \<in> set protected_tool_names"

text \<open>A name with a dot (46) is rejected.\<close>

definition tool_register :: "('n, 'w) host_tool \<Rightarrow> ('n, 'w) tool_registry \<Rightarrow> ('n, 'w) tool_registry" where
  "tool_register tool r =
     (let name = ht_name tool
      in if 46 \<in> set name then r
         else if is_protected_tool_name name \<and> name \<in> tr_builtin r then r
         else r\<lparr>tr_tools := (tr_tools r)(name \<mapsto> tool)\<rparr>)"

text \<open>At start-up; the two flags say whether \<open>try_write\<close> gets the locks of the two tables.\<close>

definition tool_register_sync ::
  "bool \<Rightarrow> bool \<Rightarrow> ('n, 'w) host_tool \<Rightarrow> ('n, 'w) tool_registry \<Rightarrow> ('n, 'w) tool_registry" where
  "tool_register_sync tools_free names_free tool r =
     (let name = ht_name tool
      in if 46 \<in> set name then r
         else if tools_free
         then (let r1 = r\<lparr>tr_tools := (tr_tools r)(name \<mapsto> tool)\<rparr>
               in if names_free then r1\<lparr>tr_builtin := insert name (tr_builtin r1)\<rparr> else r1)
         else r)"

text \<open>Hyphens (45) and underscores (95) are aliases.\<close>

definition underscore_alias :: "utext \<Rightarrow> utext" where
  "underscore_alias = map (\<lambda>c. if c = 45 then 95 else c)"

definition hyphen_alias :: "utext \<Rightarrow> utext" where
  "hyphen_alias = map (\<lambda>c. if c = 95 then 45 else c)"

definition resolve_key :: "(utext \<rightharpoonup> 'a) \<Rightarrow> utext \<Rightarrow> utext option" where
  "resolve_key tools name =
     (if tools name \<noteq> None then Some name
      else if underscore_alias name \<noteq> name \<and> tools (underscore_alias name) \<noteq> None then Some (underscore_alias name)
      else if hyphen_alias name \<noteq> name \<and> tools (hyphen_alias name) \<noteq> None then Some (hyphen_alias name)
      else None)"

definition tool_unregister :: "utext \<Rightarrow> ('n, 'w) tool_registry \<Rightarrow> ('n, 'w) host_tool option \<times> ('n, 'w) tool_registry" where
  "tool_unregister name r =
     (case resolve_key (tr_tools r) name of
        None \<Rightarrow> (None, r)
      | Some key \<Rightarrow> (tr_tools r key, r\<lparr>tr_tools := (tr_tools r)(key := None)\<rparr>))"

definition get_resolved :: "('n, 'w) tool_registry \<Rightarrow> utext \<Rightarrow> (utext \<times> ('n, 'w) host_tool) option" where
  "get_resolved r name =
     Option.bind (resolve_key (tr_tools r) name) (\<lambda>key. map_option (Pair key) (tr_tools r key))"

definition tool_get :: "('n, 'w) tool_registry \<Rightarrow> utext \<Rightarrow> ('n, 'w) host_tool option" where
  "tool_get r name = Option.bind (resolve_key (tr_tools r) name) (tr_tools r)"

definition resolve_name :: "('n, 'w) tool_registry \<Rightarrow> utext \<Rightarrow> utext option" where
  "resolve_name r name = resolve_key (tr_tools r) name"

definition provider_extension_for_tool :: "('n, 'w) tool_registry \<Rightarrow> utext \<Rightarrow> utext option" where
  "provider_extension_for_tool r name = Option.bind (tool_get r name) ht_provider"

definition tool_has :: "('n, 'w) tool_registry \<Rightarrow> utext \<Rightarrow> bool" where
  "tool_has r name \<longleftrightarrow> tool_get r name \<noteq> None"

definition retain_only :: "utext list \<Rightarrow> ('n, 'w) tool_registry \<Rightarrow> ('n, 'w) tool_registry" where
  "retain_only names r =
     (if names = [] then r
      else r\<lparr>tr_tools := (\<lambda>k. if k \<in> set names then tr_tools r k else None)\<rparr>)"

text \<open>What iterates over the table takes the order \<open>ks\<close> of its keys; definitions are sorted by name.\<close>

definition visible_tools :: "utext list \<Rightarrow> engine_version \<Rightarrow> ('n, 'w) tool_registry \<Rightarrow> ('n, 'w) host_tool list" where
  "visible_tools ks version r = filter (\<lambda>t. is_visible_in (ht_compat t) version) (map_values ks (tr_tools r))"

definition tool_names_list :: "utext list \<Rightarrow> ('n, 'w) tool_registry \<Rightarrow> utext list" where
  "tool_names_list ks r = map ht_name (visible_tools ks (tr_version r) r)"

definition tool_definitions_for_engine :: "utext list \<Rightarrow> engine_version \<Rightarrow> ('n, 'w) tool_registry \<Rightarrow> 'n tool_definition list" where
  "tool_definitions_for_engine ks version r = sort_key td_name (map ht_schema (visible_tools ks version r))"

definition tool_definitions :: "utext list \<Rightarrow> ('n, 'w) tool_registry \<Rightarrow> 'n tool_definition list" where
  "tool_definitions ks r = tool_definitions_for_engine ks (tr_version r) r"

definition tool_definitions_for :: "utext list \<Rightarrow> ('n, 'w) tool_registry \<Rightarrow> 'n tool_definition list" where
  "tool_definitions_for names r = List.map_filter (\<lambda>n. map_option ht_schema (tool_get r n)) names"

definition tool_definitions_for_domain :: "utext list \<Rightarrow> tool_domain \<Rightarrow> ('n, 'w) tool_registry \<Rightarrow> 'n tool_definition list" where
  "tool_definitions_for_domain ks d r =
     map ht_schema (filter (\<lambda>t. ht_domain t = d) (visible_tools ks (tr_version r) r))"

definition tool_definitions_excluding :: "utext list \<Rightarrow> utext list \<Rightarrow> ('n, 'w) tool_registry \<Rightarrow> 'n tool_definition list" where
  "tool_definitions_excluding ks deny r =
     sort_key td_name (map ht_schema
       (filter (\<lambda>t. ht_name t \<notin> set deny \<and> ht_requires_approval t (JObject []) = NeverAsk)
          (visible_tools ks (tr_version r) r)))"

section \<open>Permissions\<close>

datatype permission_state = AlwaysAllow | AskEachTime | PermissionDisabled

definition always_allow_tools :: "utext list" where
  "always_allow_tools = map utext_of
     [''echo'', ''time'', ''json'', ''memory_search'', ''memory_read'', ''memory_write'', ''memory_tree'',
      ''tool_list'', ''tool_info'', ''tool_search'', ''skill_list'', ''skill_search'', ''list_jobs'', ''job_status'',
      ''job_events'', ''image_analyze'', ''message'']"

definition ask_each_time_tools :: "utext list" where
  "ask_each_time_tools = map utext_of
     [''shell'', ''read_file'', ''write_file'', ''list_dir'', ''apply_patch'', ''http'', ''create_job'', ''event_emit'',
      ''routine_create'', ''routine_update'', ''cancel_job'', ''job_prompt'', ''routine_delete'', ''routine_fire'',
      ''tool_install'', ''tool_auth'', ''tool_activate'', ''tool_remove'', ''tool_upgrade'', ''skill_install'',
      ''skill_remove'', ''secret_list'', ''secret_delete'', ''image_generate'', ''image_edit'', ''restart'',
      ''build_software'', ''tool_permission_set'']"

text \<open>Later insertions win, but the two lists have no name in common.\<close>

definition tool_risk_defaults :: "utext \<rightharpoonup> permission_state" where
  "tool_risk_defaults n =
     (if n \<in> set ask_each_time_tools then Some AskEachTime
      else if n \<in> set always_allow_tools then Some AlwaysAllow else None)"

definition effective_permission :: "utext \<Rightarrow> (utext \<rightharpoonup> permission_state) \<Rightarrow> permission_state" where
  "effective_permission tool overrides =
     (case overrides tool of
        Some p \<Rightarrow> p
      | None \<Rightarrow> (case tool_risk_defaults tool of Some p \<Rightarrow> p | None \<Rightarrow> AskEachTime))"

subsection \<open>The policy of the administrator\<close>

record admin_tool_policy =
  ap_disabled :: "utext set"
  ap_user_disabled :: "utext \<rightharpoonup> utext list"

definition is_tool_disabled :: "admin_tool_policy \<Rightarrow> utext \<Rightarrow> utext \<Rightarrow> bool" where
  "is_tool_disabled p tool user \<longleftrightarrow>
     (if tool \<in> ap_disabled p then True
      else case ap_user_disabled p user of Some tools \<Rightarrow> tool \<in> set tools | None \<Rightarrow> False)"

definition policy_is_empty :: "admin_tool_policy \<Rightarrow> bool" where
  "policy_is_empty p \<longleftrightarrow> ap_disabled p = {} \<and> ap_user_disabled p = Map.empty"

datatype policy_state = PolicyMissing | PolicyLoaded admin_tool_policy | PolicyFailClosed

definition is_valid_admin_tool_name :: "utext \<Rightarrow> bool" where
  "is_valid_admin_tool_name n \<longleftrightarrow>
     n \<noteq> [] \<and> byte_len n \<le> 128 \<and>
     list_all (\<lambda>c. (97 \<le> c \<and> c \<le> 122) \<or> (48 \<le> c \<and> c \<le> 57) \<or> c = 95 \<or> c = 45) n"

definition is_valid_admin_policy_user_key :: "utext \<Rightarrow> bool" where
  "is_valid_admin_policy_user_key u \<longleftrightarrow>
     u \<noteq> [] \<and> byte_len u \<le> 256 \<and>
     list_all (\<lambda>c. (97 \<le> c \<and> c \<le> 122) \<or> (65 \<le> c \<and> c \<le> 90) \<or> (48 \<le> c \<and> c \<le> 57) \<or> c = 95 \<or> c = 45) u"

datatype policy_error =
  TooManyDisabled nat
| TooManyUsers nat
| InvalidToolName utext
| InvalidUserKey utext
| TooManyForUser utext nat
| InvalidUserToolName utext utext
| PolicyUnserializable utext
| PolicyTooLarge

fun validate_names :: "utext list \<Rightarrow> (utext \<Rightarrow> policy_error) \<Rightarrow> (policy_error, unit) result" where
  "validate_names [] err = Inr ()"
| "validate_names (n # ns) err = (if is_valid_admin_tool_name n then validate_names ns err else Inl (err n))"

fun validate_user_entries :: "(utext \<times> utext list) list \<Rightarrow> (policy_error, unit) result" where
  "validate_user_entries [] = Inr ()"
| "validate_user_entries ((user, tools) # es) =
     (if \<not> is_valid_admin_policy_user_key user then Inl (InvalidUserKey user)
      else if length tools > 1000 then Inl (TooManyForUser user (length tools))
      else case validate_names tools (InvalidUserToolName user) of
             Inl e \<Rightarrow> Inl e
           | Inr _ \<Rightarrow> validate_user_entries es)"

text \<open>
  \<open>ds\<close> and \<open>us\<close> are the orders of iteration over the disabled tools and the users; \<open>to_vec\<close> gives the
  length of the serialized policy or the error of the serializer.
\<close>

definition validate_admin_tool_policy ::
  "(admin_tool_policy \<Rightarrow> (utext, nat) result) \<Rightarrow> utext list \<Rightarrow> utext list \<Rightarrow> admin_tool_policy \<Rightarrow> (policy_error, unit) result" where
  "validate_admin_tool_policy to_vec ds us p =
     (if card (ap_disabled p) > 1000 then Inl (TooManyDisabled (card (ap_disabled p)))
      else if card (dom (ap_user_disabled p)) > 1000 then Inl (TooManyUsers (card (dom (ap_user_disabled p))))
      else case validate_names ds InvalidToolName of
        Inl e \<Rightarrow> Inl e
      | Inr _ \<Rightarrow> (case validate_user_entries (map_entries us (ap_user_disabled p)) of
          Inl e \<Rightarrow> Inl e
        | Inr _ \<Rightarrow> (case to_vec p of
            Inl e \<Rightarrow> Inl (PolicyUnserializable e)
          | Inr n \<Rightarrow> if n > 32 * 1024 then Inl PolicyTooLarge else Inr ())))"

text \<open>
  The cache of one loop is filled once. The data base may be absent, and answers with an error, with
  no value or with one that need not parse.
\<close>

definition load_admin_tool_policy ::
  "('v \<Rightarrow> (utext, admin_tool_policy) result) \<Rightarrow> (utext, 'v option) result option \<Rightarrow> policy_state" where
  "load_admin_tool_policy parse db =
     (case db of
        None \<Rightarrow> PolicyMissing
      | Some (Inr (Some v)) \<Rightarrow> (case parse v of Inr p \<Rightarrow> PolicyLoaded p | Inl _ \<Rightarrow> PolicyFailClosed)
      | Some (Inr None) \<Rightarrow> PolicyMissing
      | Some (Inl _) \<Rightarrow> PolicyFailClosed)"

definition load_cached_admin_tool_policy ::
  "('v \<Rightarrow> (utext, admin_tool_policy) result) \<Rightarrow> (utext, 'v option) result option \<Rightarrow> policy_state option
     \<Rightarrow> policy_state \<times> policy_state option" where
  "load_cached_admin_tool_policy parse db cache =
     (case cache of
        Some s \<Rightarrow> (s, cache)
      | None \<Rightarrow> (let s = load_admin_tool_policy parse db in (s, Some s)))"

definition filter_admin_disabled_tools ::
  "'n tool_definition list \<Rightarrow> bool \<Rightarrow> bool \<Rightarrow> utext \<Rightarrow> policy_state \<Rightarrow> 'n tool_definition list" where
  "filter_admin_disabled_tools defs multi_tenant is_admin user state =
     (if \<not> multi_tenant \<or> is_admin then defs
      else case state of
        PolicyMissing \<Rightarrow> defs
      | PolicyFailClosed \<Rightarrow> []
      | PolicyLoaded p \<Rightarrow>
          if policy_is_empty p then defs
          else (let user_disabled = (case ap_user_disabled p user of Some ts \<Rightarrow> set ts | None \<Rightarrow> {})
                in filter (\<lambda>d. td_name d \<notin> ap_disabled p \<and> td_name d \<notin> user_disabled) defs))"

subsection \<open>The lookup of the bridge\<close>

record permission_resolution =
  pr_effective :: permission_state
  pr_explicit :: "permission_state option"
  pr_configured :: "permission_state option"

definition canonical_tool_name :: "utext \<Rightarrow> utext" where
  "canonical_tool_name = underscore_alias"

definition explicit_permission_with_names ::
  "(utext \<rightharpoonup> permission_state) \<Rightarrow> utext \<Rightarrow> utext \<Rightarrow> utext \<Rightarrow> permission_state option" where
  "explicit_permission_with_names overrides tool canonical hyphenated =
     (case overrides tool of
        Some p \<Rightarrow> Some p
      | None \<Rightarrow> (case overrides canonical of Some p \<Rightarrow> Some p | None \<Rightarrow> overrides hyphenated))"

definition resolve_permission :: "(utext \<rightharpoonup> permission_state) \<Rightarrow> utext \<Rightarrow> permission_resolution" where
  "resolve_permission overrides tool =
     (let canonical = canonical_tool_name tool;
          hyphenated = hyphen_alias canonical;
          explicit = explicit_permission_with_names overrides tool canonical hyphenated;
          configured = (case explicit of Some p \<Rightarrow> Some p | None \<Rightarrow> tool_risk_defaults canonical)
      in \<lparr>pr_effective = (case configured of Some p \<Rightarrow> p | None \<Rightarrow> AskEachTime),
          pr_explicit = explicit, pr_configured = configured\<rparr>)"

text \<open>The snapshot is empty without a data base and when it cannot be read.\<close>

definition load_permission_snapshot :: "(utext, utext \<rightharpoonup> permission_state) result option \<Rightarrow> (utext \<rightharpoonup> permission_state)" where
  "load_permission_snapshot db = (case db of Some (Inr overrides) \<Rightarrow> overrides | _ \<Rightarrow> Map.empty)"

section \<open>Autonomous work\<close>

definition autonomous_tool_denylist :: "utext list" where
  "autonomous_tool_denylist = map utext_of
     [''routine_create'', ''routine_update'', ''routine_delete'', ''routine_fire'', ''event_emit'', ''create_job'',
      ''job_prompt'', ''restart'', ''tool_install'', ''tool_auth'', ''tool_activate'', ''tool_remove'', ''tool_upgrade'',
      ''skill_install'', ''skill_remove'', ''secret_list'', ''secret_delete'']"

definition is_autonomous_tool_denylisted :: "utext \<Rightarrow> bool" where
  "is_autonomous_tool_denylisted n \<longleftrightarrow> n \<in> set autonomous_tool_denylist"

definition autonomous_unavailable_message :: "utext \<Rightarrow> utext \<Rightarrow> utext" where
  "autonomous_unavailable_message tool owner =
     (if is_autonomous_tool_denylisted tool
      then utext_of ''Tool '' @ quoted tool @ utext_of '' is not available in autonomous jobs or routines''
      else utext_of ''Tool '' @ quoted tool @ utext_of '' is not currently available for owner '' @ quoted owner)"

text \<open>The extension manager, when there is one, has an owner and the names of its active tools.\<close>

definition autonomous_allowed_tool_names ::
  "('n, 'w) tool_registry \<Rightarrow> (utext \<times> utext set) option \<Rightarrow> utext \<Rightarrow> utext set" where
  "autonomous_allowed_tool_names r extensions owner =
     (let allowed = {n \<in> tr_builtin r. \<not> is_autonomous_tool_denylisted n}
      in case extensions of
           Some (ext_owner, active) \<Rightarrow>
             if ext_owner = owner then allowed \<union> {n \<in> active. \<not> is_autonomous_tool_denylisted n} else allowed
         | None \<Rightarrow> allowed)"

section \<open>Running a tool\<close>

text \<open>\<open>execute_tool_with_safety\<close> of \<open>src/tools/execute.rs\<close>; the validator and the printer are arguments.\<close>

datatype tool_error =
  ToolNotFound utext
| ToolInvalidParameters utext utext
| ToolTimedOut utext duration
| ToolExecutionFailed utext utext
| ToolRateLimited utext duration
| ToolAutonomousUnavailable utext utext

record 'n tool_lib =
  tv_validate :: "'n json \<Rightarrow> utext option"
  tv_print :: "'n json \<Rightarrow> (utext, utext) result"

definition run_tool :: "'n tool_lib \<Rightarrow> utext \<Rightarrow> ('n, 'w) host_tool \<Rightarrow> 'n json \<Rightarrow> 'w \<Rightarrow> (tool_error, utext) result \<times> 'w" where
  "run_tool L name tool params w =
     (case tv_validate L params of
        Some details \<Rightarrow> (Inl (ToolInvalidParameters name (utext_of ''Invalid tool parameters: '' @ details)), w)
      | None \<Rightarrow>
          (case ht_execute tool params w of
             (ToolElapsed, w') \<Rightarrow> (Inl (ToolTimedOut name (ht_timeout tool)), w')
           | (ToolErr e, w') \<Rightarrow> (Inl (ToolExecutionFailed name e), w')
           | (ToolDone v, w') \<Rightarrow>
               ((case tv_print L v of
                   Inl e \<Rightarrow> Inl (ToolExecutionFailed name (utext_of ''Failed to serialize result: '' @ e))
                 | Inr s \<Rightarrow> Inr s), w')))"

definition execute_tool_with_safety ::
  "'n tool_lib \<Rightarrow> ('n, 'w) tool_registry \<Rightarrow> utext \<Rightarrow> 'n json \<Rightarrow> 'w \<Rightarrow> (tool_error, utext) result \<times> 'w" where
  "execute_tool_with_safety L r name params w =
     (if name = [] then (Inl (ToolNotFound name), w)
      else case tool_get r name of
        None \<Rightarrow> (Inl (ToolNotFound name), w)
      | Some tool \<Rightarrow> run_tool L name tool (ht_prepare tool params) w)"

end
