(* ===== verification/ChatApprovals.thy ===== *)
theory ChatApprovals
  imports ToolPermissions Session
begin

text \<open>
  The tool calls of a chat: which tools the model is offered, the checks before a batch of calls runs,
  what becomes of the results, and the approval of a call that waits for the user, in
  \<open>src/agent/dispatcher.rs\<close> and \<open>src/agent/thread_ops.rs\<close>. Status messages to the channel, the costs
  and the rows written to the data base have no counterpart.
\<close>

section \<open>The environment\<close>

text \<open>
  Besides the hooks and the registry: whether every tool is approved by configuration, the user and the
  channel of the message and whether it is a direct message, the safety layer (sanitizing and wrapping
  what a tool says), the text of an error, the two texts for a generated image, the validation of
  extension names and the clean-up of URLs, and the stash of outputs that later tools can read.
\<close>

record ('n, 'w) chat_env =
  ce_lib :: "'n hook_lib"
  ce_hooks :: "('n, 'w) hook_entry list"
  ce_registry :: "('n, 'w) tool_registry"
  ce_tool_lib :: "'n tool_lib"
  ce_auto_approve :: bool
  ce_user :: string
  ce_channel :: string
  ce_direct :: bool
  ce_timezone :: string
  ce_safety :: "utext \<Rightarrow> utext \<Rightarrow> utext"
  ce_narrative :: "utext \<Rightarrow> utext"
  ce_rationale :: "utext \<Rightarrow> utext"
  ce_show_error :: "tool_error \<Rightarrow> utext"
  ce_image :: "utext \<Rightarrow> (utext \<times> utext) option"
  ce_extension :: "utext \<Rightarrow> string option"
  ce_clean_url :: "utext option \<Rightarrow> utext option"
  ce_stash :: "string \<Rightarrow> utext \<Rightarrow> 'w \<Rightarrow> 'w"

section \<open>What the model is offered\<close>

text \<open>
  Before each call of the model. \<open>attenuate\<close> is the restriction by active skills, \<open>perms\<close> the answer of
  the settings: absent, an error or the permissions. After an error the offer stays what it was.
\<close>

definition offer_tools ::
  "utext list \<Rightarrow> ('n tool_definition list \<Rightarrow> 'n tool_definition list) \<Rightarrow> bool \<Rightarrow> bool \<Rightarrow> utext \<Rightarrow> policy_state \<Rightarrow>
   (utext, utext \<rightharpoonup> permission_state) result option \<Rightarrow> ('n, 'w) tool_registry \<Rightarrow>
   'n tool_definition list \<times> 'n session \<Rightarrow> 'n tool_definition list \<times> 'n session" where
  "offer_tools ks attenuate multi_tenant is_admin user policy perms r = (\<lambda>(offered, s).
     (let defs = filter_admin_disabled_tools (attenuate (tool_definitions ks r)) multi_tenant is_admin user policy
      in case perms of
           Some (Inl _) \<Rightarrow> (offered, s)
         | _ \<Rightarrow>
           (let overrides = (case perms of Some (Inr m) \<Rightarrow> m | _ \<Rightarrow> Map.empty);
                state = (\<lambda>d. effective_permission (td_name d) overrides);
                approve = map td_name (filter (\<lambda>d. state d = AlwaysAllow) defs)
            in (filter (\<lambda>d. state d \<noteq> PermissionDisabled) defs,
                foldl (\<lambda>s n. auto_approve_tool n s) (s\<lparr>auto_approved_tools := {}\<rparr>) approve))))"

section \<open>The checks before a batch runs\<close>

datatype 'n preflight = PfRejected "'n tool_call" utext | PfRunnable "'n tool_call"

text \<open>The call that waits, its tool, whether it may be approved for ever, and the calls after it.\<close>

type_synonym ('n, 'w) approval_needed = "'n tool_call \<times> ('n, 'w) host_tool \<times> bool \<times> 'n tool_call list"

definition needs_approval :: "'n session \<Rightarrow> utext \<Rightarrow> approval_requirement \<Rightarrow> bool" where
  "needs_approval s tool requirement =
     (case requirement of
        NeverAsk \<Rightarrow> False
      | UnlessAutoApproved \<Rightarrow> \<not> is_tool_auto_approved tool s
      | AlwaysAsk \<Rightarrow> True)"

definition shared_relay :: "('n, 'w) chat_env \<Rightarrow> bool" where
  "shared_relay E \<longleftrightarrow> ends_with (ce_channel E) ''-relay'' \<and> \<not> ce_direct E"

definition relay_refusal :: "utext \<Rightarrow> utext" where
  "relay_refusal tool = utext_of ''Tool '' @ quoted tool @ utext_of '' requires approval and cannot run in shared channels. ''
     @ utext_of ''Ask the user to message me directly (DM) to use this tool.''"

definition add_preflight :: "'n preflight \<Rightarrow> ('n preflight list \<times> 'x) \<times> 'w \<Rightarrow> ('n preflight list \<times> 'x) \<times> 'w" where
  "add_preflight p = (\<lambda>((ps, need), w). ((p # ps, need), w))"

fun chat_preflight ::
  "('n, 'w) chat_env \<Rightarrow> 'n session \<Rightarrow> 'n tool_call list \<Rightarrow> 'w
     \<Rightarrow> ('n preflight list \<times> ('n, 'w) approval_needed option) \<times> 'w" where
  "chat_preflight E s [] w = (([], None), w)"
| "chat_preflight E s (call # calls) w =
     (let tool = tool_get (ce_registry E) (tc_name call);
          sensitive = (case tool of Some t \<Rightarrow> ht_sensitive t | None \<Rightarrow> [])
      in case chat_tool_hooks (ce_lib E) (ce_hooks E) (tc_name call) (tc_arguments call) sensitive (ce_user E) w of
           (RefuseTool why, w1) \<Rightarrow> add_preflight (PfRejected call why) (chat_preflight E s calls w1)
         | (RunTool args, w1) \<Rightarrow>
             (let tc = call\<lparr>tc_arguments := args\<rparr>
              in case (if ce_auto_approve E then None else tool) of
                   None \<Rightarrow> add_preflight (PfRunnable tc) (chat_preflight E s calls w1)
                 | Some t \<Rightarrow>
                     (let requirement = ht_requires_approval t args
                      in if needs_approval s (tc_name tc) requirement
                         then if shared_relay E
                              then add_preflight (PfRejected tc (relay_refusal (tc_name tc))) (chat_preflight E s calls w1)
                              else (([], Some (tc, t, requirement \<noteq> AlwaysAsk, calls)), w1)
                         else add_preflight (PfRunnable tc) (chat_preflight E s calls w1))))"

text \<open>After an approval the calls behind it are checked again, without hooks.\<close>

fun deferred_preflight ::
  "('n, 'w) chat_env \<Rightarrow> 'n session \<Rightarrow> 'n tool_call list \<Rightarrow> 'n tool_call list \<times> ('n, 'w) approval_needed option" where
  "deferred_preflight E s [] = ([], None)"
| "deferred_preflight E s (tc # calls) =
     (let go_on = (case deferred_preflight E s calls of (rs, need) \<Rightarrow> (tc # rs, need))
      in case tool_get (ce_registry E) (tc_name tc) of
           None \<Rightarrow> go_on
         | Some t \<Rightarrow>
             (let (needs, allow_always) =
                (if ce_auto_approve E then (False, True)
                 else (let requirement = ht_requires_approval t (tc_arguments tc)
                       in (needs_approval s (tc_name tc) requirement, requirement \<noteq> AlwaysAsk)))
              in if needs then ([], Some (tc, t, allow_always, calls)) else go_on))"

section \<open>Running a batch\<close>

definition execute_chat_tool :: "('n, 'w) chat_env \<Rightarrow> 'n tool_call \<Rightarrow> 'w \<Rightarrow> (tool_error, utext) result \<times> 'w" where
  "execute_chat_tool E tc w = execute_tool_with_safety (ce_tool_lib E) (ce_registry E) (tc_name tc) (tc_arguments tc) w"

text \<open>
  Two or more calls run in parallel: \<open>order\<close> lists the places of the calls in the order they take
  effect; other numbers in it mean nothing. A place that is not in the list is a task that failed to
  finish.
\<close>

fun run_in_order :: "('c \<Rightarrow> 'w \<Rightarrow> 'r \<times> 'w) \<Rightarrow> 'c list \<Rightarrow> nat list \<Rightarrow> 'w \<Rightarrow> (nat \<rightharpoonup> 'r) \<times> 'w" where
  "run_in_order f cs [] w = (Map.empty, w)"
| "run_in_order f cs (i # is) w =
     (case f (cs ! i) w of (r, w1) \<Rightarrow>
      case run_in_order f cs is w1 of (m, w2) \<Rightarrow> (m(i \<mapsto> r), w2))"

definition run_batch ::
  "('n, 'w) chat_env \<Rightarrow> nat list \<Rightarrow> 'n tool_call list \<Rightarrow> 'w \<Rightarrow> (tool_error, utext) result list \<times> 'w" where
  "run_batch E order calls w =
     (case calls of
        [] \<Rightarrow> ([], w)
      | [c] \<Rightarrow> (case execute_chat_tool E c w of (r, w1) \<Rightarrow> ([r], w1))
      | _ \<Rightarrow>
          (case run_in_order (execute_chat_tool E) calls (filter (\<lambda>i. i < length calls) order) w of (m, w1) \<Rightarrow>
             (map (\<lambda>i. case m i of
                 Some r \<Rightarrow> r
               | None \<Rightarrow> Inl (ToolExecutionFailed (tc_name (calls ! i)) (utext_of ''Task failed during execution'')))
               [0..<length calls], w1)))"

section \<open>Auth prompts\<close>

definition auth_instructions_or_default :: "utext option \<Rightarrow> utext" where
  "auth_instructions_or_default instructions =
     (case instructions of Some t \<Rightarrow> t | None \<Rightarrow> utext_of ''Please provide your API token/key.'')"

text \<open>
  \<open>parse_auth_result\<close> and \<open>extract_auth_prompt\<close>: a prompt needs a valid extension name and something
  the user can act on.
\<close>

definition extract_auth_prompt ::
  "('n, 'w) chat_env \<Rightarrow> utext \<Rightarrow> (tool_error, utext) result \<Rightarrow> pending_auth_prompt option" where
  "extract_auth_prompt E tool res =
     (if tool \<noteq> utext_of ''tool_auth'' \<and> tool \<noteq> utext_of ''tool_activate'' then None
      else (let parsed = (case res of Inr out \<Rightarrow> json_parse (ce_lib E) out | Inl _ \<Rightarrow> None);
                field = (\<lambda>k. Option.bind parsed (\<lambda>v. json_get_str v k));
                auth_url = ce_clean_url E (field ''auth_url'');
                setup_url = ce_clean_url E (field ''setup_url'');
                awaiting = (Option.bind parsed (\<lambda>v. json_get v ''awaiting_token'') = Some (JBool True))
            in case Option.bind (field ''name'') (ce_extension E) of
                 None \<Rightarrow> None
               | Some ext \<Rightarrow>
                   if awaiting \<or> auth_url \<noteq> None \<or> setup_url \<noteq> None
                   then Some \<lparr>prompt_extension = ext, prompt_instructions = field ''instructions'', prompt_auth_url = auth_url,
                     prompt_setup_url = setup_url, prompt_awaiting_token = awaiting\<rparr>
                   else None))"

definition capture_auth_prompt ::
  "('n, 'w) chat_env \<Rightarrow> utext \<Rightarrow> (tool_error, utext) result \<Rightarrow> pending_auth_prompt option \<Rightarrow> pending_auth_prompt option" where
  "capture_auth_prompt E tool res selected =
     (case selected of Some p \<Rightarrow> Some p | None \<Rightarrow> extract_auth_prompt E tool res)"

text \<open>A stored prompt is taken up again only when its extension name is still valid.\<close>

definition restore_auth_prompt :: "('n, 'w) chat_env \<Rightarrow> pending_auth_prompt option \<Rightarrow> pending_auth_prompt option" where
  "restore_auth_prompt E stored =
     Option.bind stored (\<lambda>p. map_option (\<lambda>ext. p\<lparr>prompt_extension := ext\<rparr>)
       (ce_extension E (utext_of (prompt_extension p))))"

section \<open>The results of a batch\<close>

text \<open>The thread of the session is changed where it is still there, and its last turn where it has one.\<close>

definition on_thread :: "uuid \<Rightarrow> ('n session_thread \<Rightarrow> 'n session_thread) \<Rightarrow> 'n session \<Rightarrow> 'n session" where
  "on_thread tid f s =
     (case session_threads s tid of
        Some t \<Rightarrow> s\<lparr>session_threads := (session_threads s)(tid \<mapsto> f t)\<rparr>
      | None \<Rightarrow> s)"

definition on_last_turn :: "uuid \<Rightarrow> ('n turn \<Rightarrow> 'n turn) \<Rightarrow> 'n session \<Rightarrow> 'n session" where
  "on_last_turn tid f = on_thread tid (\<lambda>t. t\<lparr>turns := update_last f (turns t)\<rparr>)"

definition failed_text :: "utext \<Rightarrow> utext \<Rightarrow> utext" where
  "failed_text tool why = utext_of ''Tool '' @ quoted tool @ utext_of '' failed: '' @ why"

text \<open>\<open>process_tool_result\<close>: the content for the record and for the message.\<close>

definition result_content :: "('n, 'w) chat_env \<Rightarrow> utext \<Rightarrow> (tool_error, utext) result \<Rightarrow> utext" where
  "result_content E tool res =
     ce_safety E tool (case res of Inr out \<Rightarrow> out | Inl e \<Rightarrow> failed_text tool (ce_show_error E e))"

fun record_result :: "'n tool_call \<Rightarrow> (tool_error, utext) result \<Rightarrow> utext \<Rightarrow> 'n turn \<Rightarrow> 'n turn" where
  "record_result tc (Inl _) content t = record_tool_error_for (tc_id tc) content t"
| "record_result tc (Inr _) content t = record_tool_result_for (tc_id tc) (JString content) t"

record ('n, 'w) batch_state =
  bs_session :: "'n session"
  bs_messages :: "'n chat_message list"
  bs_auth :: "pending_auth_prompt option"
  bs_failures :: nat
  bs_world :: 'w

definition post_rejected ::
  "('n, 'w) chat_env \<Rightarrow> uuid \<Rightarrow> 'n tool_call \<Rightarrow> utext \<Rightarrow> ('n, 'w) batch_state \<Rightarrow> ('n, 'w) batch_state" where
  "post_rejected E tid tc why b =
     (let content = ce_safety E (tc_name tc) (failed_text (tc_name tc) why)
      in b\<lparr>bs_session := on_last_turn tid (record_tool_error_for (tc_id tc) content) (bs_session b),
           bs_messages := bs_messages b @ [tool_result_message (tc_id tc) (tc_name tc) content],
           bs_failures := Suc (bs_failures b)\<rparr>)"

definition post_run ::
  "('n, 'w) chat_env \<Rightarrow> uuid \<Rightarrow> 'n tool_call \<Rightarrow> (tool_error, utext) result \<Rightarrow> ('n, 'w) batch_state \<Rightarrow> ('n, 'w) batch_state" where
  "post_run E tid tc res b =
     (let image = (case res of
             Inr out \<Rightarrow> if tc_name tc \<in> {utext_of ''image_generate'', utext_of ''image_edit''} then ce_image E out else None
           | Inl _ \<Rightarrow> None);
          (kept, said) = (case image of
             Some (kept, summary) \<Rightarrow> (kept, ce_safety E (tc_name tc) summary)
           | None \<Rightarrow> (result_content E (tc_name tc) res, result_content E (tc_name tc) res))
      in b\<lparr>bs_auth := capture_auth_prompt E (tc_name tc) res (bs_auth b),
           bs_world := (case res of Inr out \<Rightarrow> ce_stash E (tc_id tc) out (bs_world b) | Inl _ \<Rightarrow> bs_world b),
           bs_failures := (case res of Inr _ \<Rightarrow> bs_failures b | Inl _ \<Rightarrow> Suc (bs_failures b)),
           bs_session := on_last_turn tid (record_result tc res kept) (bs_session b),
           bs_messages := bs_messages b @ [tool_result_message (tc_id tc) (tc_name tc) said]\<rparr>)"

text \<open>The results of the calls that ran come back in the places of the calls.\<close>

fun post_flight ::
  "('n, 'w) chat_env \<Rightarrow> uuid \<Rightarrow> 'n preflight list \<Rightarrow> (tool_error, utext) result list \<Rightarrow> ('n, 'w) batch_state \<Rightarrow> ('n, 'w) batch_state" where
  "post_flight E tid [] rs b = b"
| "post_flight E tid (PfRejected tc why # ps) rs b = post_flight E tid ps rs (post_rejected E tid tc why b)"
| "post_flight E tid (PfRunnable tc # ps) (r # rs) b = post_flight E tid ps rs (post_run E tid tc r b)"
| "post_flight E tid (PfRunnable tc # ps) [] b =
     post_flight E tid ps [] (post_run E tid tc (Inl (ToolExecutionFailed (tc_name tc) (utext_of ''No result available''))) b)"

section \<open>The tool calls of one answer\<close>

definition runnable_of :: "'n preflight list \<Rightarrow> 'n tool_call list" where
  "runnable_of ps = List.map_filter (\<lambda>p. case p of PfRunnable tc \<Rightarrow> Some tc | PfRejected _ _ \<Rightarrow> None) ps"

definition record_call :: "('n, 'w) chat_env \<Rightarrow> 'n turn \<Rightarrow> 'n tool_call \<Rightarrow> 'n turn" where
  "record_call E t tc =
     record_tool_call_with_reasoning (tc_name tc)
       (case tool_get (ce_registry E) (tc_name tc) of
          Some tool \<Rightarrow> redact_params (tc_arguments tc) (ht_sensitive tool)
        | None \<Rightarrow> tc_arguments tc)
       (map_option (ce_rationale E) (tc_reasoning tc)) (Some (tc_id tc)) t"

datatype 'n loop_outcome = NeedApproval "'n pending_approval" | AuthPending utext | LoopGoesOn bool

text \<open>
  \<open>execute_tool_calls\<close>: the answer is added to the messages, its calls are recorded without secrets,
  checked, run and answered. \<open>LoopGoesOn\<close> carries the flag that every call of the batch failed.
\<close>

definition start_batch :: "('n, 'w) chat_env \<Rightarrow> uuid \<Rightarrow> 'n tool_call list \<Rightarrow> utext option \<Rightarrow> 'n session \<Rightarrow> 'n session" where
  "start_batch E tid calls content =
     (let told = (\<lambda>c. if trim_text c = [] then None else Some c);
          narr = Option.bind (Option.bind content told) (\<lambda>c. told (ce_narrative E c))
      in on_last_turn tid (\<lambda>t. foldl (record_call E) (if narrative t = None then t\<lparr>narrative := narr\<rparr> else t) calls))"

definition finish_batch ::
  "('n, 'w) chat_env \<Rightarrow> utc \<Rightarrow> uuid \<Rightarrow> uuid \<Rightarrow> nat \<Rightarrow> ('n, 'w) approval_needed option \<Rightarrow> ('n, 'w) batch_state \<Rightarrow>
   'n loop_outcome \<times> 'n session \<times> 'n chat_message list \<times> 'w" where
  "finish_batch E now fresh tid n_calls need b =
     (let go_on = (LoopGoesOn (n_calls > 0 \<and> bs_failures b = n_calls), bs_session b, bs_messages b, bs_world b)
      in case need of
           Some (tc, tool, may_always, rest) \<Rightarrow>
             (NeedApproval \<lparr>request_id = fresh, approval_tool = tc_name tc, approval_parameters = tc_arguments tc,
                display_parameters = redact_params (tc_arguments tc) (ht_sensitive tool),
                approval_description = ht_description tool, approval_call_id = tc_id tc,
                context_messages = bs_messages b, deferred_tool_calls = rest,
                selected_auth_prompt = bs_auth b, approval_timezone = Some (ce_timezone E),
                allow_always = may_always\<rparr>, bs_session b, bs_messages b, bs_world b)
         | None \<Rightarrow>
             (case bs_auth b of
                Some p \<Rightarrow>
                  if prompt_awaiting_token p
                  then (AuthPending (auth_instructions_or_default (prompt_instructions p)),
                        on_thread tid (enter_auth_mode now (prompt_extension p)) (bs_session b), bs_messages b, bs_world b)
                  else go_on
              | None \<Rightarrow> go_on))"

definition chat_tool_calls ::
  "('n, 'w) chat_env \<Rightarrow> utc \<Rightarrow> uuid \<Rightarrow> nat list \<Rightarrow> uuid \<Rightarrow> 'n tool_call list \<Rightarrow> utext option \<Rightarrow>
   'n session \<Rightarrow> 'n chat_message list \<Rightarrow> 'w \<Rightarrow> 'n loop_outcome \<times> 'n session \<times> 'n chat_message list \<times> 'w" where
  "chat_tool_calls E now fresh order tid calls content s ms w =
     (let s1 = start_batch E tid calls content s
      in case chat_preflight E s1 calls w of ((ps, need), w1) \<Rightarrow>
         case run_batch E order (runnable_of ps) w1 of (rs, w2) \<Rightarrow>
         finish_batch E now fresh tid (length ps) need
           (post_flight E tid ps rs
              \<lparr>bs_session = s1, bs_messages = ms @ [assistant_with_tool_calls content calls], bs_auth = None,
               bs_failures = 0, bs_world = w2\<rparr>))"

section \<open>Approving and rejecting\<close>

text \<open>
  After an approval, results are recorded without the special treatment of images and without the
  stash.
\<close>

definition post_deferred ::
  "('n, 'w) chat_env \<Rightarrow> uuid \<Rightarrow> 'n tool_call \<Rightarrow> (tool_error, utext) result \<Rightarrow> ('n, 'w) batch_state \<Rightarrow> ('n, 'w) batch_state" where
  "post_deferred E tid tc res b =
     (let content = result_content E (tc_name tc) res
      in b\<lparr>bs_session := on_last_turn tid (record_result tc res content) (bs_session b),
           bs_auth := capture_auth_prompt E (tc_name tc) res (bs_auth b),
           bs_messages := bs_messages b @ [tool_result_message (tc_id tc) (tc_name tc) content]\<rparr>)"

definition post_deferred_all ::
  "('n, 'w) chat_env \<Rightarrow> uuid \<Rightarrow> ('n tool_call \<times> (tool_error, utext) result) list \<Rightarrow> ('n, 'w) batch_state \<Rightarrow> ('n, 'w) batch_state" where
  "post_deferred_all E tid crs b = foldl (\<lambda>b (tc, r). post_deferred E tid tc r b) b crs"

text \<open>
  The permission is stored for the user unless the tool asks always, judged with empty arguments.
  \<open>store\<close> is the answer of the settings: absent, failing or done.
\<close>

definition persist_permission ::
  "('n, 'w) chat_env \<Rightarrow> bool option \<Rightarrow> utext \<Rightarrow> (utext \<rightharpoonup> permission_state) \<Rightarrow> (utext \<rightharpoonup> permission_state)" where
  "persist_permission E store tool perms =
     (let locked = (case tool_get (ce_registry E) tool of
            Some t \<Rightarrow> ht_requires_approval t (JObject []) = AlwaysAsk
          | None \<Rightarrow> False)
      in if locked then perms
         else if store = Some True then perms(tool \<mapsto> AlwaysAllow) else perms)"

datatype 'n approval_answer =
  NoSuchThread
| NothingPending
| StaleApproval
| WrongRequest
| RejectedTool utext
| ApprovalNeededAgain "'n pending_approval"
| ApprovalAuthPending utext
| ResumeLoop "'n chat_message list"

definition rejection_text :: "utext \<Rightarrow> utext" where
  "rejection_text tool = utext_of ''Tool '' @ quoted tool @ utext_of '' was rejected. The agent will not execute this tool.''
     @ [10, 10] @ utext_of ''You can continue the conversation or try a different approach.''"

text \<open>The call as the model made it, with the arguments that were shown.\<close>

definition approved_call :: "'n pending_approval \<Rightarrow> 'n tool_call" where
  "approved_call p = \<lparr>tc_id = approval_call_id p, tc_name = approval_tool p, tc_arguments = approval_parameters p, tc_reasoning = None\<rparr>"

definition run_approved ::
  "('n, 'w) chat_env \<Rightarrow> utc \<Rightarrow> uuid \<Rightarrow> nat list \<Rightarrow> uuid \<Rightarrow> 'n pending_approval \<Rightarrow> 'n session \<Rightarrow> 'w
     \<Rightarrow> 'n approval_answer \<times> 'n session \<times> 'w" where
  "run_approved E now fresh order tid p s w =
     (case execute_chat_tool E (approved_call p) w of (r, w1) \<Rightarrow>
        (let b1 = post_deferred E tid (approved_call p) r
               \<lparr>bs_session = s, bs_messages = context_messages p, bs_auth = restore_auth_prompt E (selected_auth_prompt p),
                bs_failures = 0, bs_world = w1\<rparr>
         in case deferred_preflight E s (deferred_tool_calls p) of (calls, need) \<Rightarrow>
            case run_batch E order calls w1 of (rs, w2) \<Rightarrow>
            (let b2 = post_deferred_all E tid (zip calls rs) b1
             in case need of
                  Some (tc, tool, may_always, rest) \<Rightarrow>
                    (let p' = \<lparr>request_id = fresh, approval_tool = tc_name tc, approval_parameters = tc_arguments tc,
                           display_parameters = redact_params (tc_arguments tc) (ht_sensitive tool),
                           approval_description = ht_description tool, approval_call_id = tc_id tc,
                           context_messages = bs_messages b2, deferred_tool_calls = rest,
                           selected_auth_prompt = bs_auth b2, approval_timezone = approval_timezone p,
                           allow_always = may_always\<rparr>
                     in (ApprovalNeededAgain p', on_thread tid (await_approval now p') (bs_session b2), w2))
                | None \<Rightarrow>
                    (case bs_auth b2 of
                       Some a \<Rightarrow>
                         if prompt_awaiting_token a
                         then (let text = auth_instructions_or_default (prompt_instructions a)
                               in (ApprovalAuthPending text,
                                   on_thread tid (conclude_turn now (OutcomeCompleted text) \<circ> enter_auth_mode now (prompt_extension a))
                                     (bs_session b2), w2))
                         else (ResumeLoop (bs_messages b2), bs_session b2, w2)
                     | None \<Rightarrow> (ResumeLoop (bs_messages b2), bs_session b2, w2)))))"

definition process_approval ::
  "('n, 'w) chat_env \<Rightarrow> utc \<Rightarrow> uuid \<Rightarrow> nat list \<Rightarrow> bool option \<Rightarrow> uuid \<Rightarrow> uuid option \<Rightarrow> bool \<Rightarrow> bool \<Rightarrow>
   'n session \<times> (utext \<rightharpoonup> permission_state) \<times> 'w \<Rightarrow>
   'n approval_answer \<times> 'n session \<times> (utext \<rightharpoonup> permission_state) \<times> 'w" where
  "process_approval E now fresh order store tid request approved always = (\<lambda>(s, perms, w).
     (case session_threads s tid of
        None \<Rightarrow> (NoSuchThread, s, perms, w)
      | Some t \<Rightarrow>
          if st_state t \<noteq> AwaitingApproval then (NothingPending, s, perms, w)
          else (case take_pending_approval t of
             (None, t1) \<Rightarrow> (StaleApproval, on_thread tid (\<lambda>_. t1) s, perms, w)
           | (Some p, t1) \<Rightarrow>
               if request \<noteq> None \<and> request \<noteq> Some (request_id p)
               then (WrongRequest, on_thread tid (\<lambda>_. await_approval now p t1) s, perms, w)
               else if approved
               then (let s1 = on_thread tid (\<lambda>_. t1) s;
                         s2 = (if always then auto_approve_tool (approval_tool p) s1 else s1);
                         perms' = (if always then persist_permission E store (approval_tool p) perms else perms);
                         s3 = on_thread tid (\<lambda>t. t\<lparr>st_state := ThreadProcessing\<rparr>) s2
                     in case run_approved E now fresh order tid p s3 w of (answer, s4, w') \<Rightarrow> (answer, s4, perms', w'))
               else (let refusal = rejection_text (approval_tool p)
                     in (RejectedTool refusal,
                         on_thread tid (conclude_turn now (OutcomeCompleted refusal) \<circ> clear_pending_approval now)
                           (on_thread tid (\<lambda>_. t1) s), perms, w)))))"

section \<open>What runs\<close>

fun pf_call :: "'n preflight \<Rightarrow> 'n tool_call" where
  "pf_call (PfRejected tc _) = tc"
| "pf_call (PfRunnable tc) = tc"

text \<open>The calls that are left when a batch stops at a call that needs approval.\<close>

fun left_over :: "('n, 'w) approval_needed option \<Rightarrow> 'n tool_call list" where
  "left_over None = []"
| "left_over (Some (tc, _, _, rest)) = tc # rest"

definition may_run :: "('n, 'w) chat_env \<Rightarrow> 'n session \<Rightarrow> 'n tool_call \<Rightarrow> bool" where
  "may_run E s tc \<longleftrightarrow> ce_auto_approve E \<or>
     (case tool_get (ce_registry E) (tc_name tc) of
        None \<Rightarrow> True
      | Some t \<Rightarrow> \<not> needs_approval s (tc_name tc) (ht_requires_approval t (tc_arguments tc)))"

fun must_wait :: "('n, 'w) chat_env \<Rightarrow> 'n session \<Rightarrow> ('n, 'w) approval_needed option \<Rightarrow> bool" where
  "must_wait E s None = True"
| "must_wait E s (Some (tc, t, may_always, rest)) \<longleftrightarrow>
     \<not> may_run E s tc \<and> tool_get (ce_registry E) (tc_name tc) = Some t \<and>
     may_always = (ht_requires_approval t (tc_arguments tc) \<noteq> AlwaysAsk)"

lemma add_preflight_simp [simp]: "add_preflight p ((ps, need), w) = ((p # ps, need), w)"
  by (simp add: add_preflight_def)

lemma chat_preflight_spec:
  "chat_preflight E s calls w = ((ps, need), w') \<Longrightarrow>
     map tc_id calls = map (tc_id \<circ> pf_call) ps @ map tc_id (left_over need) \<and>
     map tc_name calls = map (tc_name \<circ> pf_call) ps @ map tc_name (left_over need) \<and>
     list_all (may_run E s) (runnable_of ps) \<and> must_wait E s need \<and> (need \<noteq> None \<longrightarrow> \<not> shared_relay E)"
proof (induction calls arbitrary: w ps need w')
  case Nil
  then show ?case by (simp add: runnable_of_def)
next
  case (Cons call calls)
  obtain d w1 where d: "chat_tool_hooks (ce_lib E) (ce_hooks E) (tc_name call) (tc_arguments call)
      (case tool_get (ce_registry E) (tc_name call) of Some t \<Rightarrow> ht_sensitive t | None \<Rightarrow> []) (ce_user E) w = (d, w1)"
    by fastforce
  obtain ps1 need1 w2 where rest: "chat_preflight E s calls w1 = ((ps1, need1), w2)" by (metis prod.exhaust)
  note IH = Cons.IH [OF rest]
  show ?case
  proof (cases d)
    case (RefuseTool why)
    then show ?thesis using Cons.prems IH by (auto simp: d rest Let_def runnable_of_def List.map_filter_def)
  next
    case (RunTool args)
    show ?thesis
    proof (cases "if ce_auto_approve E then None else tool_get (ce_registry E) (tc_name call)")
      case None
      then show ?thesis using Cons.prems IH RunTool
        by (auto simp: d rest Let_def runnable_of_def may_run_def List.map_filter_def split: if_splits)
    next
      case (Some t)
      then have get: "\<not> ce_auto_approve E" "tool_get (ce_registry E) (tc_name call) = Some t" by (simp_all split: if_splits)
      then show ?thesis using Cons.prems IH RunTool d
        by (auto simp: rest Let_def runnable_of_def may_run_def List.map_filter_def split: if_splits)
    qed
  qed
qed

lemma deferred_preflight_spec:
  "deferred_preflight E s calls = (rs, need) \<Longrightarrow>
     calls = rs @ left_over need \<and> list_all (may_run E s) rs \<and> must_wait E s need"
  by (induction calls arbitrary: rs)
    (auto simp: Let_def may_run_def split: option.splits prod.splits if_splits)

subsection \<open>Every call is answered\<close>

definition answered :: "'n chat_message list \<Rightarrow> string list" where
  "answered ms = List.map_filter chat_tool_call_id ms"

lemma answered_simps [simp]:
  "answered [] = []"
  "answered (ms @ ms') = answered ms @ answered ms'"
  "answered (tool_result_message i n c # ms) = i # answered ms"
  "answered [assistant_with_tool_calls said calls] = []"
  by (simp_all add: answered_def tool_result_message_def assistant_with_tool_calls_def chat_plain_def List.map_filter_def)

lemma post_flight_answers: "answered (bs_messages (post_flight E tid ps rs b)) = answered (bs_messages b) @ map (tc_id \<circ> pf_call) ps"
  by (induction E tid ps rs b rule: post_flight.induct)
    (simp_all add: post_rejected_def post_run_def Let_def split: option.splits prod.splits)

lemma post_deferred_answers:
  "answered (bs_messages (post_deferred_all E tid crs b)) = answered (bs_messages b) @ map (tc_id \<circ> fst) crs"
  by (induction crs arbitrary: b) (auto simp: post_deferred_all_def post_deferred_def Let_def)

lemma run_batch_length: "run_batch E order calls w = (rs, w') \<Longrightarrow> length rs = length calls"
  by (auto simp: run_batch_def split: list.splits prod.splits)

fun pending_of :: "uuid \<Rightarrow> 'n session \<times> 'p \<times> 'w \<Rightarrow> 'n pending_approval option" where
  "pending_of tid (s, _, _) =
     Option.bind (session_threads s tid) (\<lambda>t. if st_state t = AwaitingApproval then st_pending_approval t else None)"

text \<open>The calls a pending approval stands for: its own and those behind it.\<close>

definition owed :: "'n pending_approval \<Rightarrow> string list" where
  "owed p = approval_call_id p # map tc_id (deferred_tool_calls p)"

lemma on_thread_threads: "session_threads (on_thread tid f s) = (case session_threads s tid of
    Some t \<Rightarrow> (session_threads s)(tid \<mapsto> f t) | None \<Rightarrow> session_threads s)"
  by (simp add: on_thread_def split: option.splits)

lemma on_thread_same [simp]: "session_threads (on_thread tid f s) tid = map_option f (session_threads s tid)"
  by (simp add: on_thread_threads split: option.splits)

lemma post_deferred_keeps_thread:
  "session_threads (bs_session (post_deferred E tid tc r b)) tid = None \<longleftrightarrow> session_threads (bs_session b) tid = None"
  by (simp add: post_deferred_def Let_def on_last_turn_def)

lemma post_deferred_all_simps [simp]:
  "post_deferred_all E tid [] b = b"
  "post_deferred_all E tid ((tc, r) # crs) b = post_deferred_all E tid crs (post_deferred E tid tc r b)"
  by (simp_all add: post_deferred_all_def)

lemma post_deferred_all_keeps_thread:
  "session_threads (bs_session (post_deferred_all E tid crs b)) tid = None \<longleftrightarrow> session_threads (bs_session b) tid = None"
proof (induction crs arbitrary: b)
  case (Cons cr crs)
  obtain tc r where "cr = (tc, r)" by (cases cr)
  then show ?case using Cons.IH by (simp add: post_deferred_keeps_thread)
qed simp

lemma run_approved_spec:
  assumes "run_approved E now fresh order tid p s w = (answer, s', w')"
  shows "case answer of
      ResumeLoop ms \<Rightarrow> answered ms = answered (context_messages p) @ owed p
    | ApprovalNeededAgain q \<Rightarrow>
        answered (context_messages q) @ owed q = answered (context_messages p) @ owed p \<and>
        length (deferred_tool_calls q) < length (deferred_tool_calls p) \<and>
        (session_threads s tid \<noteq> None \<longrightarrow> pending_of tid (s', perms, w') = Some q)
    | ApprovalAuthPending _ \<Rightarrow> True
    | _ \<Rightarrow> False"
proof -
  obtain r w1 where r: "execute_chat_tool E (approved_call p) w = (r, w1)" by fastforce
  define b1 where "b1 = post_deferred E tid (approved_call p) r
      \<lparr>bs_session = s, bs_messages = context_messages p, bs_auth = restore_auth_prompt E (selected_auth_prompt p),
       bs_failures = 0, bs_world = w1\<rparr>"
  obtain calls need where d: "deferred_preflight E s (deferred_tool_calls p) = (calls, need)" by fastforce
  obtain rs w2 where b: "run_batch E order calls w1 = (rs, w2)" by fastforce
  define b2 where "b2 = post_deferred_all E tid (zip calls rs) b1"
  have ids: "map (tc_id \<circ> fst) (zip calls rs) = map tc_id calls"
    using run_batch_length [OF b] by (simp flip: map_map)
  have all: "deferred_tool_calls p = calls @ left_over need" using deferred_preflight_spec [OF d] by simp
  have ms: "answered (bs_messages b2) = answered (context_messages p) @ approval_call_id p # map tc_id calls"
    unfolding b2_def post_deferred_answers ids b1_def by (simp add: post_deferred_def Let_def approved_call_def)
  have there: "session_threads (bs_session b2) tid = None \<longleftrightarrow> session_threads s tid = None"
    unfolding b2_def post_deferred_all_keeps_thread b1_def post_deferred_keeps_thread by simp
  note run = assms [unfolded run_approved_def r prod.case Let_def, folded b1_def, unfolded d b prod.case, folded b2_def]
  show ?thesis
  proof (cases need)
    case None
    then show ?thesis using run ms all by (auto simp: owed_def split: option.splits if_splits)
  next
    case (Some n)
    obtain tc tool a rest where n: "n = (tc, tool, a, rest)" by (cases n)
    show ?thesis using run ms all there by (auto simp: Some n owed_def await_approval_def)
  qed
qed

lemma process_approval_approved:
  assumes "pending_of tid st = Some p" "process_approval E now fresh order store tid request True always st = (answer, st')"
  shows "answer = WrongRequest \<and> request \<noteq> None \<and> request \<noteq> Some (request_id p) \<or>
    (\<exists>s w s' w' perms. session_threads s tid \<noteq> None \<and> run_approved E now fresh order tid p s w = (answer, s', w') \<and> st' = (s', perms, w'))"
proof -
  obtain s perms w where st: "st = (s, perms, w)" by (cases st)
  obtain t where t: "session_threads s tid = Some t" "st_state t = AwaitingApproval" "st_pending_approval t = Some p"
    using assms(1) unfolding st by (auto split: bind_splits if_splits)
  show ?thesis
  proof (cases "request \<noteq> None \<and> request \<noteq> Some (request_id p)")
    case True
    then show ?thesis using assms(2) by (simp add: st t process_approval_def take_pending_approval_def)
  next
    case False
    define s3 where "s3 = on_thread tid (\<lambda>t. t\<lparr>st_state := ThreadProcessing\<rparr>)
      (if always then auto_approve_tool (approval_tool p) (on_thread tid (\<lambda>_. t\<lparr>st_pending_approval := None\<rparr>) s)
       else on_thread tid (\<lambda>_. t\<lparr>st_pending_approval := None\<rparr>) s)"
    have "session_threads s3 tid \<noteq> None" by (simp add: s3_def t auto_approve_tool_def)
    moreover obtain s' w' where r: "run_approved E now fresh order tid p s3 w = (answer, s', w')"
      and "st' = (s', if always then persist_permission E store (approval_tool p) perms else perms, w')"
      using assms(2) False by (auto simp: st t process_approval_def take_pending_approval_def Let_def s3_def split: if_splits prod.splits)
    ultimately show ?thesis by blast
  qed
qed

text \<open>
  A user approves until the loop goes on. Between two approvals anything may happen that leaves the
  pending approval in place.
\<close>

inductive approved_until ::
  "('n, 'w) chat_env \<Rightarrow> uuid \<Rightarrow> 'n session \<times> (utext \<rightharpoonup> permission_state) \<times> 'w \<Rightarrow> 'n chat_message list \<Rightarrow> bool"
  for E tid where
  resumes: "process_approval E now fresh order store tid request True always st = (ResumeLoop ms, st') \<Longrightarrow> approved_until E tid st ms"
| again: "process_approval E now fresh order store tid request True always st = (ApprovalNeededAgain p, st') \<Longrightarrow>
    pending_of tid st'' = pending_of tid st' \<Longrightarrow> approved_until E tid st'' ms \<Longrightarrow> approved_until E tid st ms"

lemma approved_until_answers:
  "approved_until E tid st ms \<Longrightarrow> pending_of tid st = Some p \<Longrightarrow> answered ms = answered (context_messages p) @ owed p"
proof (induction arbitrary: p rule: approved_until.induct)
  case (resumes now fresh order store request always st ms st')
  from process_approval_approved [OF this(2) this(1)] obtain s w s' w'
    where "run_approved E now fresh order tid p s w = (ResumeLoop ms, s', w')" by auto
  from run_approved_spec [OF this] show ?case by simp
next
  case (again now fresh order store request always st q st' st'' ms)
  from process_approval_approved [OF again.prems again.hyps(1)]
  have "\<exists>s w s' w' perms. session_threads s tid \<noteq> None \<and>
      run_approved E now fresh order tid p s w = (ApprovalNeededAgain q, s', w') \<and> st' = (s', perms, w')" by simp
  then obtain s w s' w' perms
    where there: "session_threads s tid \<noteq> None" and run: "run_approved E now fresh order tid p s w = (ApprovalNeededAgain q, s', w')"
      and st': "st' = (s', perms, w')" by blast
  from run_approved_spec [OF run, of perms] there
  have owed: "answered (context_messages q) @ owed q = answered (context_messages p) @ owed p" and q: "pending_of tid st' = Some q"
    unfolding st' by auto
  then show ?case using again.IH again.hyps(2) by simp
qed

text \<open>
  C15. Every tool call of an answer of the model is answered exactly once and in order: right away, or,
  when a call has to wait for the user, through the approvals that follow, however many, until the loop
  goes on.
\<close>

theorem each_call_answered_once:
  "case chat_tool_calls E now fresh order tid calls content s ms w of (out, s1, ms1, w1) \<Rightarrow>
     (case out of
        NeedApproval p \<Rightarrow> (\<forall>st msgs. pending_of tid st = Some p \<longrightarrow> approved_until E tid st msgs \<longrightarrow>
          answered msgs = answered ms @ map tc_id calls)
      | _ \<Rightarrow> answered ms1 = answered ms @ map tc_id calls)"
proof -
  define s1 where "s1 = start_batch E tid calls content s"
  obtain ps need w1 where pf: "chat_preflight E s1 calls w = ((ps, need), w1)" by (metis prod.exhaust)
  obtain rs w2 where rb: "run_batch E order (runnable_of ps) w1 = (rs, w2)" by fastforce
  define b where "b = post_flight E tid ps rs
      \<lparr>bs_session = s1, bs_messages = ms @ [assistant_with_tool_calls content calls], bs_auth = None, bs_failures = 0, bs_world = w2\<rparr>"
  have ids: "map tc_id calls = map (tc_id \<circ> pf_call) ps @ map tc_id (left_over need)"
    using chat_preflight_spec [OF pf] by simp
  have ans: "answered (bs_messages b) = answered ms @ map (tc_id \<circ> pf_call) ps"
    unfolding b_def post_flight_answers by simp
  have eq: "chat_tool_calls E now fresh order tid calls content s ms w = finish_batch E now fresh tid (length ps) need b"
    by (simp add: chat_tool_calls_def pf rb flip: s1_def b_def)
  show ?thesis
  proof (cases need)
    case None
    then show ?thesis using ids ans by (simp add: eq finish_batch_def Let_def split: option.split)
  next
    case (Some n)
    obtain tc tool a rest where n: "n = (tc, tool, a, rest)" by (cases n)
    show ?thesis using ids ans by (auto simp: eq finish_batch_def Let_def Some n owed_def dest: approved_until_answers)
  qed
qed

subsection \<open>Nothing runs that has to ask\<close>

text \<open>The environment in which the tool registered as \<open>k\<close> does something else.\<close>

definition with_run :: "('n json \<Rightarrow> 'w \<Rightarrow> 'n tool_run \<times> 'w) \<Rightarrow> ('n, 'w) host_tool \<Rightarrow> ('n, 'w) host_tool" where
  "with_run f t = t\<lparr>ht_execute := f\<rparr>"

definition swapped :: "utext \<Rightarrow> ('n json \<Rightarrow> 'w \<Rightarrow> 'n tool_run \<times> 'w) \<Rightarrow> ('n, 'w) chat_env \<Rightarrow> ('n, 'w) chat_env" where
  "swapped k f E = E\<lparr>ce_registry := (ce_registry E)\<lparr>tr_tools :=
     (tr_tools (ce_registry E))(k := map_option (with_run f) (tr_tools (ce_registry E) k))\<rparr>\<rparr>"

lemma resolve_key_cong: "(\<And>n. tools' n = None \<longleftrightarrow> tools n = None) \<Longrightarrow> resolve_key tools' = resolve_key tools"
  by (rule ext) (simp only: resolve_key_def not_None_eq [symmetric] not_not)

lemma tool_get_swapped:
  "tool_get (ce_registry (swapped k f E)) n =
     (if resolve_name (ce_registry E) n = Some k then map_option (with_run f) (tool_get (ce_registry E) n)
      else tool_get (ce_registry E) n)"
proof -
  have "resolve_key ((tr_tools (ce_registry E))(k := map_option (with_run f) (tr_tools (ce_registry E) k))) =
      resolve_key (tr_tools (ce_registry E))"
    by (rule resolve_key_cong) simp
  then show ?thesis
    by (cases "resolve_key (tr_tools (ce_registry E)) n") (auto simp: tool_get_def resolve_name_def swapped_def)
qed

lemma with_run_simps [simp]:
  "ht_sensitive (with_run f t) = ht_sensitive t" "ht_requires_approval (with_run f t) = ht_requires_approval t"
  "ht_description (with_run f t) = ht_description t"
  by (simp_all add: with_run_def)

lemma swapped_simps [simp]:
  "ce_lib (swapped k f E) = ce_lib E" "ce_hooks (swapped k f E) = ce_hooks E" "ce_user (swapped k f E) = ce_user E"
  "ce_auto_approve (swapped k f E) = ce_auto_approve E" "ce_tool_lib (swapped k f E) = ce_tool_lib E"
  "ce_safety (swapped k f E) = ce_safety E" "ce_image (swapped k f E) = ce_image E" "ce_stash (swapped k f E) = ce_stash E"
  "ce_show_error (swapped k f E) = ce_show_error E" "ce_timezone (swapped k f E) = ce_timezone E"
  "ce_extension (swapped k f E) = ce_extension E" "ce_clean_url (swapped k f E) = ce_clean_url E"
  "ce_narrative (swapped k f E) = ce_narrative E" "ce_rationale (swapped k f E) = ce_rationale E"
  "shared_relay (swapped k f E) = shared_relay E"
  by (simp_all add: swapped_def shared_relay_def)

lemma start_batch_swapped [simp]: "start_batch (swapped k f E) tid calls content = start_batch E tid calls content"
proof -
  have "record_call (swapped k f E) = record_call E"
    by (intro ext) (simp add: record_call_def tool_get_swapped split: option.split)
  then show ?thesis by (simp add: start_batch_def)
qed

lemma results_swapped:
  "result_content (swapped k f E) = result_content E" "extract_auth_prompt (swapped k f E) = extract_auth_prompt E"
  "capture_auth_prompt (swapped k f E) = capture_auth_prompt E"
  unfolding result_content_def extract_auth_prompt_def capture_auth_prompt_def swapped_simps by (rule refl)+

lemma post_swapped [simp]:
  "post_rejected (swapped k f E) = post_rejected E" "post_run (swapped k f E) = post_run E"
  unfolding post_rejected_def post_run_def swapped_simps results_swapped by (rule refl)+

lemma post_flight_swapped [simp]: "post_flight (swapped k f E) tid ps rs b = post_flight E tid ps rs b"
  by (induction E tid ps rs b rule: post_flight.induct) simp_all

fun swap_need :: "utext \<Rightarrow> ('n json \<Rightarrow> 'w \<Rightarrow> 'n tool_run \<times> 'w) \<Rightarrow> ('n, 'w) chat_env \<Rightarrow> ('n, 'w) approval_needed \<Rightarrow> ('n, 'w) approval_needed" where
  "swap_need k f E (tc, t, a, rest) =
     (tc, if resolve_name (ce_registry E) (tc_name tc) = Some k then with_run f t else t, a, rest)"

lemma chat_preflight_swapped:
  "chat_preflight (swapped k f E) s calls w =
     (case chat_preflight E s calls w of ((ps, need), w') \<Rightarrow> ((ps, map_option (swap_need k f E) need), w'))"
proof (induction calls arbitrary: w)
  case (Cons call calls)
  let ?sens = "case tool_get (ce_registry E) (tc_name call) of Some t \<Rightarrow> ht_sensitive t | None \<Rightarrow> []"
  have sens: "(case tool_get (ce_registry (swapped k f E)) (tc_name call) of Some t \<Rightarrow> ht_sensitive t | None \<Rightarrow> []) = ?sens"
    by (simp add: tool_get_swapped split: option.split)
  obtain d w1 where d: "chat_tool_hooks (ce_lib E) (ce_hooks E) (tc_name call) (tc_arguments call) ?sens (ce_user E) w = (d, w1)"
    by fastforce
  obtain ps need w2 where rest: "chat_preflight E s calls w1 = ((ps, need), w2)" by (metis prod.exhaust)
  have IH: "chat_preflight (swapped k f E) s calls w1 = ((ps, map_option (swap_need k f E) need), w2)"
    by (simp add: Cons.IH rest)
  show ?case
  proof (cases d)
    case (RefuseTool why)
    then show ?thesis using d by (simp add: sens IH rest Let_def)
  next
    case (RunTool args)
    show ?thesis
    proof (cases "ce_auto_approve E \<or> tool_get (ce_registry E) (tc_name call) = None")
      case True
      then have none: "(if ce_auto_approve E then None else tool_get (ce_registry (swapped k f E)) (tc_name call)) = None"
        "(if ce_auto_approve E then None else tool_get (ce_registry E) (tc_name call)) = None"
        by (auto simp: tool_get_swapped)
      then show ?thesis using d RunTool by (simp add: sens IH rest Let_def)
    next
      case False
      then obtain t where t: "tool_get (ce_registry E) (tc_name call) = Some t" by auto
      define t' where "t' = (if resolve_name (ce_registry E) (tc_name call) = Some k then with_run f t else t)"
      have t2: "tool_get (ce_registry (swapped k f E)) (tc_name call) = Some t'"
        and t3: "ht_requires_approval t' = ht_requires_approval t"
        by (simp_all add: tool_get_swapped t t'_def)
      show ?thesis using d RunTool False t sens
        by (simp add: IH rest Let_def t2 t3) (simp add: t'_def)
    qed
  qed
qed simp

lemma execute_swapped:
  "resolve_name (ce_registry E) (tc_name tc) \<noteq> Some k \<Longrightarrow> execute_chat_tool (swapped k f E) tc w = execute_chat_tool E tc w"
  by (simp add: execute_chat_tool_def execute_tool_with_safety_def tool_get_swapped)

lemma run_in_order_cong:
  "(\<And>i w. i \<in> set is \<Longrightarrow> f (cs ! i) w = g (cs ! i) w) \<Longrightarrow> run_in_order f cs is w = run_in_order g cs is w"
  by (induction "is" arbitrary: w) (simp_all split: prod.split)

lemma run_batch_cong:
  assumes "\<And>c w. c \<in> set calls \<Longrightarrow> execute_chat_tool E' c w = execute_chat_tool E c w"
  shows "run_batch E' order calls w = run_batch E order calls w"
proof -
  have "run_in_order (execute_chat_tool E') calls (filter (\<lambda>i. i < length calls) order) w =
      run_in_order (execute_chat_tool E) calls (filter (\<lambda>i. i < length calls) order) w"
    using assms by (intro run_in_order_cong) auto
  then show ?thesis using assms
    by (cases calls rule: remdups_adj.cases) (simp_all only: run_batch_def list.case list.set_intros list.simps, simp)
qed

lemma finish_swapped:
  "finish_batch (swapped k f E) now fresh tid n (map_option (swap_need k f E) need) b = finish_batch E now fresh tid n need b"
proof (cases need)
  case (Some x)
  then show ?thesis by (cases x) (simp add: finish_batch_def)
qed (simp add: finish_batch_def)

lemma start_batch_auto [simp]: "auto_approved_tools (start_batch E tid calls content s) = auto_approved_tools s"
  by (simp add: start_batch_def on_last_turn_def on_thread_def split: option.split)

lemma needs_approval_start [simp]: "needs_approval (start_batch E tid calls content s) n req = needs_approval s n req"
  unfolding needs_approval_def is_tool_auto_approved_def start_batch_auto by (rule refl)

text \<open>
  C14. A tool that has to ask runs in no batch: when it asks always, or unless auto-approved and no name
  it goes by is, and not everything is approved by configuration, the outcome of a batch, with every
  effect of its tools, is the same whatever the tool does when it runs.
\<close>

theorem asking_tools_do_not_run:
  assumes "\<not> ce_auto_approve E" "tr_tools (ce_registry E) k = Some t"
    and asks: "\<And>n args. resolve_name (ce_registry E) n = Some k \<Longrightarrow>
      ht_requires_approval t args = AlwaysAsk \<or>
      ht_requires_approval t args = UnlessAutoApproved \<and> n \<notin> auto_approved_tools s"
  shows "chat_tool_calls (swapped k f E) now fresh order tid calls content s ms w =
    chat_tool_calls E now fresh order tid calls content s ms w"
proof -
  let ?s = "start_batch E tid calls content s"
  obtain ps need w1 where pf: "chat_preflight E ?s calls w = ((ps, need), w1)" by (metis prod.exhaust)
  have may: "list_all (may_run E ?s) (runnable_of ps)" using chat_preflight_spec [OF pf] by simp
  have "execute_chat_tool (swapped k f E) c w = execute_chat_tool E c w" if "c \<in> set (runnable_of ps)" for c w
  proof (rule execute_swapped, rule notI)
    assume k: "resolve_name (ce_registry E) (tc_name c) = Some k"
    then have "tool_get (ce_registry E) (tc_name c) = Some t"
      using assms(2) by (simp add: tool_get_def resolve_name_def)
    moreover have "needs_approval ?s (tc_name c) (ht_requires_approval t (tc_arguments c))"
      using asks [OF k, of "tc_arguments c"] by (auto simp: needs_approval_def is_tool_auto_approved_def)
    ultimately show False using that may assms(1) by (auto simp: list_all_iff may_run_def)
  qed
  then have "run_batch (swapped k f E) order (runnable_of ps) w1 = run_batch E order (runnable_of ps) w1"
    by (rule run_batch_cong)
  then show ?thesis
    by (simp add: chat_tool_calls_def chat_preflight_swapped pf finish_swapped)
qed

subsection \<open>A chat with two tools\<close>

text \<open>Each tool writes its own number into the world when it runs.\<close>

definition sample_tool :: "string \<Rightarrow> approval_requirement \<Rightarrow> nat \<Rightarrow> (nat, nat list) host_tool" where
  "sample_tool n requirement i = \<lparr>ht_name = utext_of n, ht_description = [],
     ht_schema = \<lparr>td_name = utext_of n, td_description = [], td_parameters = JNull\<rparr>, ht_requires_approval = (\<lambda>_. requirement),
     ht_sensitive = [], ht_rate_limit = None, ht_timeout = secs 60, ht_compat = BothEngines, ht_domain = OrchestratorDomain,
     ht_provider = None, ht_prepare = id, ht_execute = (\<lambda>_ w. (ToolDone JNull, i # w))\<rparr>"

definition sample_tools :: "(nat, nat list) tool_registry" where
  "sample_tools = registry_new\<lparr>tr_tools := [utext_of ''time'' \<mapsto> sample_tool ''time'' NeverAsk 1, utext_of ''shell'' \<mapsto> sample_tool ''shell'' AlwaysAsk 2]\<rparr>"

definition sample_chat :: "(nat, nat list) chat_env" where
  "sample_chat = \<lparr>ce_lib = sample_lib, ce_hooks = [], ce_registry = sample_tools,
     ce_tool_lib = \<lparr>tv_validate = (\<lambda>_. None), tv_print = (\<lambda>_. Inr [])\<rparr>, ce_auto_approve = False, ce_user = ''ann'',
     ce_channel = ''cli'', ce_direct = True, ce_timezone = ''UTC'', ce_safety = (\<lambda>_ t. t), ce_narrative = id, ce_rationale = id,
     ce_show_error = (\<lambda>_. []), ce_image = (\<lambda>_. None), ce_extension = (\<lambda>_. None), ce_clean_url = id,
     ce_stash = (\<lambda>_ _ w. w)\<rparr>"

definition sample_call :: "string \<Rightarrow> string \<Rightarrow> nat tool_call" where
  "sample_call i n = \<lparr>tc_id = i, tc_name = utext_of n, tc_arguments = JObject [], tc_reasoning = None\<rparr>"

definition sample_calls :: "nat tool_call list" where
  "sample_calls = [sample_call ''a'' ''time'', sample_call ''b'' ''shell'', sample_call ''c'' ''time'']"

definition sample_session :: "nat session" where
  "sample_session = insert_thread 0 7 None (session_new 0 1 ''ann'')"

definition sample_outcome :: "nat loop_outcome \<times> nat session \<times> nat chat_message list \<times> nat list" where
  "sample_outcome = chat_tool_calls sample_chat 0 5 [] 7 sample_calls None sample_session [] []"

definition sample_pending :: "nat pending_approval" where
  "sample_pending = (case fst sample_outcome of NeedApproval p \<Rightarrow> p)"

lemma utext_of_inject [simp]: "utext_of s = utext_of t \<longleftrightarrow> s = t"
  by (metis list.inj_map_strong of_char_eq_iff utext_of_def)

lemma sample_get:
  "tool_get sample_tools (utext_of ''time'') = Some (sample_tool ''time'' NeverAsk 1)"
  "tool_get sample_tools (utext_of ''shell'') = Some (sample_tool ''shell'' AlwaysAsk 2)"
  by (simp_all add: tool_get_def resolve_key_def sample_tools_def registry_new_def)

lemma sample_no_hooks: "chat_tool_hooks lib [] tool args sensitive user w = (RunTool args, w)"
  by (simp add: chat_tool_hooks_def registry_run_def matching_hooks_def)
lemma sample_chat_simps [simp]:
  "ce_hooks sample_chat = []" "ce_registry sample_chat = sample_tools" "\<not> ce_auto_approve sample_chat"
  "\<not> shared_relay sample_chat" "ce_stash sample_chat i out w = w" "ce_image sample_chat out = None"
  by (simp_all add: sample_chat_def shared_relay_def)

lemma sample_call_simps [simp]:
  "tc_name (sample_call i n) = utext_of n" "tc_id (sample_call i n) = i" "tc_arguments (sample_call i n) = JObject []"
  "(sample_call i n)\<lparr>tc_arguments := JObject []\<rparr> = sample_call i n"
  by (simp_all add: sample_call_def)

lemma sample_preflight:
  "chat_preflight sample_chat s sample_calls w =
     (([PfRunnable (sample_call ''a'' ''time'')],
       Some (sample_call ''b'' ''shell'', sample_tool ''shell'' AlwaysAsk 2, False, [sample_call ''c'' ''time''])), w)"
  by (simp add: sample_calls_def sample_get sample_no_hooks Let_def sample_tool_def needs_approval_def)

lemma sample_execute:
  "execute_chat_tool sample_chat (sample_call i ''time'') w = (Inr [], 1 # w)"
  "execute_chat_tool sample_chat \<lparr>tc_id = i, tc_name = utext_of ''shell'', tc_arguments = args, tc_reasoning = r\<rparr> w = (Inr [], 2 # w)"
  by (simp_all add: execute_chat_tool_def execute_tool_with_safety_def sample_get run_tool_def sample_tool_def)
     (simp_all add: sample_chat_def utext_of_def)

lemma sample_capture:
  "capture_auth_prompt E (utext_of ''time'') r None = None" "capture_auth_prompt E (utext_of ''shell'') r None = None"
  by (simp_all add: capture_auth_prompt_def extract_auth_prompt_def)

lemma sample_outcome_pending:
  "\<exists>s1 ms1. sample_outcome = (NeedApproval sample_pending, s1, ms1, [1]) \<and> session_threads s1 7 \<noteq> None"
  "approval_call_id sample_pending = ''b''" "approval_tool sample_pending = utext_of ''shell''"
  "approval_parameters sample_pending = JObject []"
  "deferred_tool_calls sample_pending = [sample_call ''c'' ''time'']" "selected_auth_prompt sample_pending = None"
  by (simp_all add: sample_outcome_def sample_pending_def chat_tool_calls_def sample_preflight Let_def runnable_of_def List.map_filter_def
    run_batch_def sample_execute finish_batch_def post_run_def sample_capture on_last_turn_def start_batch_def sample_session_def insert_thread_def
    session_new_def)

lemma sample_approved: "\<exists>ms s'. run_approved sample_chat now fresh order tid sample_pending s w = (ResumeLoop ms, s', 1 # 2 # w)"
  by (simp add: run_approved_def approved_call_def sample_outcome_pending sample_execute sample_get sample_tool_def Let_def
    needs_approval_def run_batch_def post_deferred_def restore_auth_prompt_def sample_capture)

lemma sample_ids: "map tc_id sample_calls = [''a'', ''b'', ''c'']"
  by (simp add: sample_calls_def)

theorem each_call_answered_once_witness:
  "\<exists>msgs. approved_until sample_chat 7 (on_thread 7 (await_approval 0 sample_pending) sample_session, Map.empty, [1]) msgs \<and>
     answered msgs = [''a'', ''b'', ''c'']"
proof -
  let ?st = "(on_thread 7 (await_approval 0 sample_pending) sample_session, Map.empty, [1])"
  have p: "pending_of 7 ?st = Some sample_pending"
    by (simp add: await_approval_def sample_session_def insert_thread_def session_new_def)
  obtain answer st' where a: "process_approval sample_chat 0 6 [] None 7 None True False ?st = (answer, st')" by (metis prod.exhaust)
  from process_approval_approved [OF p a] obtain s w s' w'
    where "run_approved sample_chat 0 6 [] 7 sample_pending s w = (answer, s', w')" by auto
  moreover obtain msgs s'' where "run_approved sample_chat 0 6 [] 7 sample_pending s w = (ResumeLoop msgs, s'', 1 # 2 # w)"
    using sample_approved by blast
  ultimately have "answer = ResumeLoop msgs" by simp
  then have done_: "approved_until sample_chat 7 ?st msgs" using a by (auto intro: resumes)
  obtain s1 ms1 where out: "chat_tool_calls sample_chat 0 5 [] 7 sample_calls None sample_session [] [] = (NeedApproval sample_pending, s1, ms1, [1])"
    using sample_outcome_pending(1) unfolding sample_outcome_def by blast
  have "\<forall>st msgs. pending_of 7 st = Some sample_pending \<longrightarrow> approved_until sample_chat 7 st msgs \<longrightarrow>
      answered msgs = answered [] @ map tc_id sample_calls"
    using each_call_answered_once [where E = sample_chat and now = 0 and fresh = 5 and order = "[]" and tid = 7
      and calls = sample_calls and content = None and s = sample_session and ms = "[]" and w = "[]"]
    unfolding out by simp
  then have "answered msgs = [''a'', ''b'', ''c'']" using p done_ by (metis answered_simps(1) sample_ids self_append_conv2)
  with done_ show ?thesis by blast
qed

theorem asking_tools_do_not_run_witness:
  "chat_tool_calls (swapped (utext_of ''shell'') (\<lambda>_ w. (ToolElapsed, 9 # w)) sample_chat) 0 5 [] 7 sample_calls None sample_session [] [] =
   sample_outcome"
  unfolding sample_outcome_def
proof (rule asking_tools_do_not_run)
  show "\<not> ce_auto_approve sample_chat" by simp
  show "tr_tools (ce_registry sample_chat) (utext_of ''shell'') = Some (sample_tool ''shell'' AlwaysAsk 2)"
    by (simp add: sample_tools_def)
  show "ht_requires_approval (sample_tool ''shell'' AlwaysAsk 2) args = AlwaysAsk \<or>
      ht_requires_approval (sample_tool ''shell'' AlwaysAsk 2) args = UnlessAutoApproved \<and> n \<notin> auto_approved_tools sample_session" for n args
    by (simp add: sample_tool_def)
qed

section \<open>What is shown, and what is not checked\<close>

lemma process_rejected_keeps:
  "snd (snd (process_approval E now fresh order store tid request False always (s, perms, w))) = (perms, w)"
  by (simp add: process_approval_def Let_def split: option.split prod.split)

text \<open>
  A pending approval shows the arguments the tool will run with, its secrets redacted, and may be given
  for ever exactly when the tool does not ask always. Rejecting runs nothing and stores nothing.
\<close>

theorem pending_shows_what_runs:
  assumes "chat_tool_calls E now fresh order tid calls content s ms w = (NeedApproval p, s1, ms1, w1)"
  shows "(\<exists>t. tool_get (ce_registry E) (approval_tool p) = Some t \<and>
      display_parameters p = redact_params (approval_parameters p) (ht_sensitive t) \<and>
      allow_always p = (ht_requires_approval t (approval_parameters p) \<noteq> AlwaysAsk) \<and>
      needs_approval s (approval_tool p) (ht_requires_approval t (approval_parameters p)) \<and>
      \<not> ce_auto_approve E \<and> \<not> shared_relay E) \<and>
    snd (snd (process_approval E now2 fresh2 order2 store tid request False always st)) = snd st"
proof -
  let ?s = "start_batch E tid calls content s"
  obtain ps need w1 where pf: "chat_preflight E ?s calls w = ((ps, need), w1)" by (metis prod.exhaust)
  obtain rs w2 where rb: "run_batch E order (runnable_of ps) w1 = (rs, w2)" by fastforce
  have spec: "must_wait E ?s need" "need \<noteq> None \<longrightarrow> \<not> shared_relay E" using chat_preflight_spec [OF pf] by simp_all
  have rejected: "snd (snd (process_approval E now2 fresh2 order2 store tid request False always st)) = snd st"
    using process_rejected_keeps by (metis prod.collapse)
  show ?thesis
  proof (cases need)
    case None
    then show ?thesis using assms
      by (auto simp: chat_tool_calls_def pf rb finish_batch_def Let_def split: option.splits if_splits)
  next
    case (Some n)
    obtain tc t a rest where n: "n = (tc, t, a, rest)" by (cases n)
    have p: "approval_tool p = tc_name tc" "approval_parameters p = tc_arguments tc" "allow_always p = a"
      "display_parameters p = redact_params (tc_arguments tc) (ht_sensitive t)"
      using assms by (auto simp: chat_tool_calls_def pf rb finish_batch_def Let_def Some n)
    show ?thesis using spec unfolding Some n
      by (auto simp: p may_run_def rejected)
  qed
qed

theorem pending_shows_what_runs_witness:
  "display_parameters sample_pending = redact_params (approval_parameters sample_pending) []"
proof -
  obtain s1 ms1 where "chat_tool_calls sample_chat 0 5 [] 7 sample_calls None sample_session [] [] = (NeedApproval sample_pending, s1, ms1, [1])"
    using sample_outcome_pending(1) unfolding sample_outcome_def by blast
  from pending_shows_what_runs [OF this] show ?thesis
    by (auto simp: sample_outcome_pending sample_get sample_tool_def)
qed

text \<open>
  A call behind one that waited for approval runs without the hooks: one that every hook run rejects
  in a batch of its own runs all the same after the approval.
\<close>

theorem deferred_calls_skip_hooks:
  assumes deferred: "deferred_tool_calls p = [c]" and tool: "tool_get (ce_registry E) (tc_name c) = Some t"
    and quiet: "ht_requires_approval t (tc_arguments c) = NeverAsk"
    and veto: "\<And>w. \<exists>r w'. chat_tool_hooks (ce_lib E) (ce_hooks E) (tc_name c) (tc_arguments c) (ht_sensitive t) (ce_user E) w = (RefuseTool r, w')"
  shows "(\<exists>r w'. chat_preflight E s [c] w = (([PfRejected c r], None), w')) \<and>
    snd (snd (run_approved E now fresh order tid p s w)) = snd (execute_chat_tool E c (snd (execute_chat_tool E (approved_call p) w)))"
proof -
  obtain r w' where "chat_tool_hooks (ce_lib E) (ce_hooks E) (tc_name c) (tc_arguments c) (ht_sensitive t) (ce_user E) w = (RefuseTool r, w')"
    using veto by blast
  then have "chat_preflight E s [c] w = (([PfRejected c r], None), w')" by (simp add: tool)
  moreover have "deferred_preflight E s [c] = ([c], None)" by (simp add: tool quiet needs_approval_def)
  ultimately show ?thesis
    by (auto simp: run_approved_def deferred run_batch_def Let_def split: prod.split option.split)
qed

definition refusing_hook :: "(nat, nat list) hook" where
  "refusing_hook = \<lparr>hk_name = ''no'', hk_points = [BeforeToolCall], hk_mode = FailClosed, hk_timeout = secs 5,
     hk_execute = (\<lambda>_ w. (Ran (Inr (HookReject [])), w))\<rparr>"

theorem deferred_calls_skip_hooks_witness:
  "snd (snd (run_approved (sample_chat\<lparr>ce_hooks := register_hook refusing_hook []\<rparr>) 0 6 [] 7 sample_pending sample_session [1])) =
   snd (execute_chat_tool sample_chat (sample_call ''c'' ''time'') (snd (execute_chat_tool sample_chat (approved_call sample_pending) [1])))"
proof -
  let ?E = "sample_chat\<lparr>ce_hooks := register_hook refusing_hook []\<rparr>"
  have veto: "\<exists>r w'. chat_tool_hooks (ce_lib ?E) (ce_hooks ?E) (tc_name (sample_call ''c'' ''time'')) (tc_arguments (sample_call ''c'' ''time''))
      (ht_sensitive (sample_tool ''time'' NeverAsk 1)) (ce_user ?E) w = (RefuseTool r, w')" for w
    by (simp add: chat_tool_hooks_def registry_run_def matching_hooks_def register_hook_def register_with_priority_def refusing_hook_def tool_event_def)
  have same: "execute_chat_tool ?E = execute_chat_tool sample_chat" by (intro ext) (simp add: execute_chat_tool_def)
  show ?thesis
    using deferred_calls_skip_hooks [where E = ?E and p = sample_pending and c = "sample_call ''c'' ''time''" and s = sample_session
        and w = "[1]" and now = 0 and fresh = 6 and order = "[]" and tid = 7, OF _ _ _ veto]
    by (simp add: sample_outcome_pending sample_get sample_tool_def same)
qed

lemma foldl_auto_approve: "auto_approved_tools (foldl (\<lambda>s n. auto_approve_tool n s) s ns) = auto_approved_tools s \<union> set ns"
  by (induction ns arbitrary: s) (simp_all add: auto_approve_tool_def)

lemma offer_tools_approvals:
  assumes "perms = None \<or> (\<exists>m. perms = Some (Inr m))"
  shows "auto_approved_tools (snd (offer_tools ks att multi adm user policy perms r os)) =
    {td_name d | d. d \<in> set (fst (offer_tools ks att multi adm user policy perms r os)) \<and>
       effective_permission (td_name d) (case perms of Some (Inr m) \<Rightarrow> m | _ \<Rightarrow> Map.empty) = AlwaysAllow}"
  using assms by (cases os) (force simp: offer_tools_def Let_def foldl_auto_approve)

text \<open>
  A tool the user disabled is not offered, but it is not refused either: a call of it runs when the
  tool never asks and no hook objects. Only the names the model is told of are filtered.
\<close>

theorem disabled_tool_runs:
  assumes disabled: "effective_permission (td_name (ht_schema t)) perms = PermissionDisabled"
    and tool: "tool_get r (tc_name c) = Some t" "ht_requires_approval t (tc_arguments c) = NeverAsk"
    and hooks: "chat_tool_hooks (ce_lib E) (ce_hooks E) (tc_name c) (tc_arguments c) (ht_sensitive t) (ce_user E) w = (RunTool (tc_arguments c), w1)"
    and E: "ce_registry E = r"
  shows "ht_schema t \<notin> set (fst (offer_tools ks att multi adm user policy (Some (Inr perms)) r os)) \<and>
    chat_preflight E (snd (offer_tools ks att multi adm user policy (Some (Inr perms)) r os)) [c] w = (([PfRunnable c], None), w1)"
  using assms by (cases os) (auto simp: offer_tools_def Let_def needs_approval_def)

theorem disabled_tool_runs_witness:
  "chat_preflight sample_chat (snd (offer_tools [utext_of ''time''] id False False [] PolicyMissing
      (Some (Inr [utext_of ''time'' \<mapsto> PermissionDisabled])) sample_tools ([], sample_session))) [sample_call ''a'' ''time''] [] =
   (([PfRunnable (sample_call ''a'' ''time'')], None), [])"
proof -
  have "effective_permission (td_name (ht_schema (sample_tool ''time'' NeverAsk 1))) [utext_of ''time'' \<mapsto> PermissionDisabled] = PermissionDisabled"
    by (simp add: effective_permission_def sample_tool_def)
  from disabled_tool_runs [OF this, where E = sample_chat and r = sample_tools and c = "sample_call ''a'' ''time''" and w = "[]" and ?w1.0 = "[]"]
  show ?thesis by (simp add: sample_get sample_no_hooks sample_tool_def)
qed

text \<open>
  The answer \<open>always\<close> is not checked against what was offered: for a tool that asks always with some
  arguments and not with empty ones, approving one such call for ever stores that the tool may run
  without asking, and the session lets its other calls run.
\<close>

theorem always_is_not_clamped:
  assumes pending: "pending_of tid (s, perms, w) = Some p" and tool: "tool_get (ce_registry E) (approval_tool p) = Some t"
    and req: "request = None \<or> request = Some (request_id p)" "ht_requires_approval t (JObject []) \<noteq> AlwaysAsk"
  shows "fst (snd (snd (process_approval E now fresh order (Some True) tid request True True (s, perms, w)))) =
      perms(approval_tool p \<mapsto> AlwaysAllow) \<and>
    (ht_requires_approval t args = UnlessAutoApproved \<longrightarrow>
     \<not> needs_approval (auto_approve_tool (approval_tool p) s) (approval_tool p) (ht_requires_approval t args))"
proof -
  obtain th where th: "session_threads s tid = Some th" "st_state th = AwaitingApproval" "st_pending_approval th = Some p"
    using pending by (auto split: bind_splits if_splits)
  have "persist_permission E (Some True) (approval_tool p) perms = perms(approval_tool p \<mapsto> AlwaysAllow)"
    using tool req(2) by (simp add: persist_permission_def)
  then show ?thesis using req(1)
    by (auto simp: process_approval_def th take_pending_approval_def Let_def needs_approval_def is_tool_auto_approved_def
        auto_approve_tool_def split: prod.split)
qed

definition guarded_tool :: "(nat, nat list) host_tool" where
  "guarded_tool = (sample_tool ''shell'' NeverAsk 2)
     \<lparr>ht_requires_approval := (\<lambda>args. if args = JNull then AlwaysAsk else UnlessAutoApproved)\<rparr>"

definition guarded_pending :: "nat pending_approval" where
  "guarded_pending = sample_pending\<lparr>approval_parameters := JNull, allow_always := False\<rparr>"

theorem always_is_not_clamped_witness:
  "fst (snd (snd (process_approval (sample_chat\<lparr>ce_registry := registry_new\<lparr>tr_tools := [utext_of ''shell'' \<mapsto> guarded_tool]\<rparr>\<rparr>) 0 6 [] (Some True) 7
      None True True (on_thread 7 (await_approval 0 guarded_pending) sample_session, Map.empty, [])))) (utext_of ''shell'') = Some AlwaysAllow"
proof -
  have p: "pending_of 7 (on_thread 7 (await_approval 0 guarded_pending) sample_session, Map.empty, []) = Some guarded_pending"
    by (simp add: await_approval_def sample_session_def insert_thread_def session_new_def)
  have "approval_tool guarded_pending = utext_of ''shell''" by (simp add: guarded_pending_def sample_outcome_pending)
  with always_is_not_clamped [OF p, where E = "sample_chat\<lparr>ce_registry := registry_new\<lparr>tr_tools := [utext_of ''shell'' \<mapsto> guarded_tool]\<rparr>\<rparr>"
      and t = guarded_tool and request = None and now = 0 and fresh = 6 and order = "[]"]
  show ?thesis by (simp add: tool_get_def resolve_key_def registry_new_def guarded_tool_def)
qed

end
