(* ===== verification/ToolCallers.thy ===== *)
theory ToolCallers
  imports ChatApprovals Gates
begin

text \<open>
  Who else runs tools: the subtasks of the scheduler, the worker of a job, lightweight routines and the
  adapter of the engine, each with its own checks, and the answer \<open>always\<close> to a gate of the engine.
  \<open>src/agent/scheduler.rs\<close>, \<open>src/worker/job.rs\<close>, \<open>src/agent/routine_engine.rs\<close>,
  \<open>src/bridge/effect_adapter.rs\<close>, \<open>src/bridge/router.rs\<close> and \<open>src/gate/approval.rs\<close>.
\<close>

section \<open>Autonomous callers\<close>

text \<open>What a caller finds of the job: whether it is cancelled, its owner and its own approval context.\<close>

record job_view =
  jv_cancelled :: bool
  jv_user :: string
  jv_context :: "approval_context option"

datatype task_error = TaskTool tool_error | TaskJobMissing

definition tool_cancelled :: "utext \<Rightarrow> tool_error" where
  "tool_cancelled name = ToolExecutionFailed name (utext_of ''Job is cancelled'')"

text \<open>A subtask; \<open>parse\<close> reads the printed result back, with the text of the error when it cannot.\<close>

definition execute_tool_task ::
  "'n tool_lib \<Rightarrow> (utext \<Rightarrow> (utext, 'n json) result) \<Rightarrow> ('n, 'w) tool_registry \<Rightarrow> approval_context option \<Rightarrow> job_view option \<Rightarrow>
   utext \<Rightarrow> 'n json \<Rightarrow> 'w \<Rightarrow> (task_error, 'n json) result \<times> 'w" where
  "execute_tool_task L parse r context job name params w =
     (case tool_get r name of
        None \<Rightarrow> (Inl (TaskTool (ToolNotFound name)), w)
      | Some t \<Rightarrow>
          (case job of
             None \<Rightarrow> (Inl TaskJobMissing, w)
           | Some j \<Rightarrow>
               if jv_cancelled j then (Inl (TaskTool (tool_cancelled name)), w)
               else if is_blocked_or_default context name (ht_requires_approval t (ht_prepare t params))
               then (Inl (TaskTool (ToolAutonomousUnavailable name (autonomous_unavailable_message name (utext_of (jv_user j))))), w)
               else (case execute_tool_with_safety L r name params w of
                  (Inl e, w') \<Rightarrow> (Inl (TaskTool e), w')
                | (Inr out, w') \<Rightarrow>
                    ((case parse out of
                        Inl e \<Rightarrow> Inl (TaskTool (ToolExecutionFailed name (utext_of ''Failed to parse tool output as JSON: '' @ e)))
                      | Inr v \<Rightarrow> Inr v), w'))))"

text \<open>
  The worker of a job. Both contexts must let the call pass; then come the rate limit, the hooks, the
  cancellation and the run. The record of the action in the memory of the job is left out.
\<close>

definition execute_tool_inner ::
  "'n tool_lib \<Rightarrow> 'n hook_lib \<Rightarrow> ('n, 'w) hook_entry list \<Rightarrow> ('n, 'w) tool_registry \<Rightarrow> approval_context option \<Rightarrow> job_view option \<Rightarrow>
   instant \<Rightarrow> utext \<Rightarrow> utext \<Rightarrow> 'n json \<Rightarrow> rate_limiter \<times> 'w \<Rightarrow> (task_error, utext) result \<times> rate_limiter \<times> 'w" where
  "execute_tool_inner L lib es r context job now job_id name params = (\<lambda>(m, w).
     (case tool_get r name of
        None \<Rightarrow> (Inl (TaskTool (ToolNotFound name)), m, w)
      | Some t \<Rightarrow>
          (case job of
             None \<Rightarrow> (Inl TaskJobMissing, m, w)
           | Some j \<Rightarrow>
               (let requirement = ht_requires_approval t (ht_prepare t params);
                    job_blocked = (case jv_context j of Some ctx \<Rightarrow> is_blocked ctx name requirement | None \<Rightarrow> False);
                    worker_blocked = is_blocked_or_default context name requirement
                in if job_blocked \<or> worker_blocked
                   then (Inl (TaskTool (ToolAutonomousUnavailable name (utext_of ''Tool '' @ quoted name @
                          (if job_blocked \<and> worker_blocked
                           then utext_of '' is blocked by both job-level and worker-level approval context''
                           else if job_blocked then utext_of '' is not in the job-level allowed tools list''
                           else utext_of '' is not available for autonomous execution'')))), m, w)
                   else (let (limited, m1) = (case ht_rate_limit t of
                             None \<Rightarrow> (None, m)
                           | Some cfg \<Rightarrow> (case check_and_record now (jv_user j, name) cfg m of
                                 (RateLimited wait _, m1) \<Rightarrow> (Some wait, m1)
                               | (RateAllowed _ _, m1) \<Rightarrow> (None, m1)))
                         in case limited of
                              Some wait \<Rightarrow> (Inl (TaskTool (ToolRateLimited name wait)), m1, w)
                            | None \<Rightarrow>
                                (case job_tool_hooks lib (ht_prepare t) es name params (ht_sensitive t) (jv_user j) job_id w of
                                   (RefuseTool why, w1) \<Rightarrow> (Inl (TaskTool (ToolExecutionFailed name why)), m1, w1)
                                 | (RunTool args, w1) \<Rightarrow>
                                     if jv_cancelled j then (Inl (TaskTool (tool_cancelled name)), m1, w1)
                                     else (case run_tool L name t args w1 of
                                        (Inl e, w2) \<Rightarrow> (Inl (TaskTool e), m1, w2)
                                      | (Inr out, w2) \<Rightarrow> (Inr out, m1, w2))))))))"

text \<open>A lightweight routine; its errors are texts or the timeout or error of the tool.\<close>

datatype routine_tool_error = RoutineText utext | RoutineTimeout duration | RoutineToolError utext

definition execute_routine_tool ::
  "'n tool_lib \<Rightarrow> ('n, 'w) tool_registry \<Rightarrow> utext set \<Rightarrow> string \<Rightarrow> utext \<Rightarrow> 'n json \<Rightarrow> 'w \<Rightarrow> (routine_tool_error, utext) result \<times> 'w" where
  "execute_routine_tool L r allowed user name params w =
     (if name \<notin> allowed then (Inl (RoutineText (autonomous_unavailable_message name (utext_of user))), w)
      else case tool_get r name of
        None \<Rightarrow> (Inl (RoutineText (utext_of ''Tool '' @ quoted name @ utext_of '' not found'')), w)
      | Some t \<Rightarrow>
          (let args = ht_prepare t params
           in case tv_validate L args of
                Some details \<Rightarrow> (Inl (RoutineText (utext_of ''Invalid tool parameters: '' @ details)), w)
              | None \<Rightarrow>
                  (case ht_execute t args w of
                     (ToolElapsed, w') \<Rightarrow> (Inl (RoutineTimeout (ht_timeout t)), w')
                   | (ToolErr e, w') \<Rightarrow> (Inl (RoutineToolError e), w')
                   | (ToolDone v, w') \<Rightarrow>
                       (Inr (case tv_print L v of Inr s \<Rightarrow> s | Inl _ \<Rightarrow> utext_of ''<serialize error>''), w'))))"

section \<open>The adapter of the engine\<close>

fun apply_user_permission_override :: "utext \<Rightarrow> approval_requirement \<Rightarrow> permission_resolution \<Rightarrow> approval_requirement" where
  "apply_user_permission_override lookup base perm =
     (if pr_explicit perm = Some AskEachTime then AlwaysAsk
      else if base = NeverAsk \<and> pr_configured perm = Some AskEachTime \<and> canonical_tool_name lookup = utext_of ''restart''
      then AlwaysAsk
      else base)"

text \<open>\<open>needs_install\<close> says that activating an extension would install it, which asks like an ordinary tool.\<close>

definition effective_tool_approval_requirement ::
  "utext \<Rightarrow> ('n, 'w) host_tool \<Rightarrow> 'n json \<Rightarrow> permission_resolution \<Rightarrow> bool \<Rightarrow> approval_requirement" where
  "effective_tool_approval_requirement lookup tool params perm needs_install =
     apply_user_permission_override lookup
       (if needs_install then UnlessAutoApproved else ht_requires_approval tool params) perm"

datatype approval_check = ApprovalPassed | ApprovalPause bool

definition enforce_tool_approval ::
  "bool \<Rightarrow> utext set \<Rightarrow> utext \<Rightarrow> approval_requirement \<Rightarrow> permission_resolution \<Rightarrow> bool \<Rightarrow> approval_check" where
  "enforce_tool_approval approve_all approved lookup requirement perm granted =
     (case requirement of
        AlwaysAsk \<Rightarrow> if \<not> granted then ApprovalPause False else ApprovalPassed
      | UnlessAutoApproved \<Rightarrow>
          (let is_approved = approve_all \<or> lookup \<in> approved \<or> pr_effective perm = AlwaysAllow
           in if \<not> is_approved \<and> \<not> granted then ApprovalPause True else ApprovalPassed)
      | NeverAsk \<Rightarrow> ApprovalPassed)"

definition is_v1_only_tool :: "utext \<Rightarrow> bool" where
  "is_v1_only_tool n \<longleftrightarrow> n \<in> utext_of ` {''create_job'', ''create-job'', ''cancel_job'', ''cancel-job'', ''build_software'', ''build-software''}"

definition is_v1_auth_tool :: "utext \<Rightarrow> bool" where
  "is_v1_auth_tool n \<longleftrightarrow> n \<in> utext_of ` {''tool_auth'', ''tool-auth''}"

text \<open>
  The adapter is shared by all users and threads of the process: the tools approved for ever, the counter
  of calls, which wraps, and the rate limiter.
\<close>

record engine_adapter =
  ea_approved :: "utext set"
  ea_calls :: "32 word"
  ea_limiter :: rate_limiter

record ('n, 'w) engine_env =
  ee_lib :: "'n hook_lib"
  ee_hooks :: "('n, 'w) hook_entry list"
  ee_registry :: "('n, 'w) tool_registry"
  ee_tool_lib :: "'n tool_lib"
  ee_approve_all :: bool

text \<open>
  A call of an action: its name as given, its name in the inventory, the arguments, the user with the
  answer of the settings, whether an install would be needed, whether credentials or a set-up are missing,
  the thread, and whether the user granted it before.
\<close>

record 'n engine_call =
  ec_action :: utext
  ec_canonical :: utext
  ec_params :: "'n json"
  ec_user :: string
  ec_permissions :: "(utext, utext \<rightharpoonup> permission_state) result option"
  ec_needs_install :: bool
  ec_auth_missing :: bool
  ec_thread :: utext
  ec_granted :: bool

datatype engine_answer =
  EngineRan "(tool_error, utext) result"
| CallLimitReached
| NotInThisEngine
| DisabledForUser
| EngineRateLimited duration
| PausedForAuth
| PausedForApproval bool
| BlockedByHook utext

text \<open>The registered name the call goes by, and the permission of the user for it.\<close>

definition lookup_of :: "('n, 'w) engine_env \<Rightarrow> 'n engine_call \<Rightarrow> utext" where
  "lookup_of E c = (case resolve_name (ee_registry E) (ec_canonical c) of Some n \<Rightarrow> n | None \<Rightarrow> ec_canonical c)"

definition permission_of :: "('n, 'w) engine_env \<Rightarrow> 'n engine_call \<Rightarrow> permission_resolution" where
  "permission_of E c = resolve_permission (load_permission_snapshot (ec_permissions c)) (lookup_of E c)"

text \<open>
  \<open>execute_action_internal\<close> for an action that is a registered tool: neither a mission call nor
  \<open>tool_info\<close> nor the first call of an extension that is still to be activated, and not one that runs in a
  mount of the project. \<open>EngineRan\<close> is the answer of the tool before it is cleaned for the model, and before
  an answer of an extension that asks for credentials becomes a gate. \<open>PausedForAuth\<close> stands for all
  answers of the checks of credentials and set-up, whichever of the two is missing.
\<close>

definition execute_action ::
  "('n, 'w) engine_env \<Rightarrow> instant \<Rightarrow> 'n engine_call \<Rightarrow> engine_adapter \<times> 'w \<Rightarrow> engine_answer \<times> engine_adapter \<times> 'w" where
  "execute_action E now c = (\<lambda>(a, w).
     (let lookup = lookup_of E c;
          count = ea_calls a;
          a1 = a\<lparr>ea_calls := ea_calls a + 1\<rparr>;
          perm = permission_of E c;
          tool = tool_get (ee_registry E) lookup
      in if count \<ge> 50 then (CallLimitReached, a1, w)
         else if is_v1_only_tool lookup \<or> is_v1_auth_tool lookup then (NotInThisEngine, a1, w)
         else if pr_effective perm = PermissionDisabled then (DisabledForUser, a1, w)
         else (let (limited, a2) = (case Option.bind tool ht_rate_limit of
                     None \<Rightarrow> (None, a1)
                   | Some cfg \<Rightarrow> (case check_and_record now (ec_user c, lookup) cfg (ea_limiter a1) of
                         (RateLimited wait _, m) \<Rightarrow> (Some wait, a1\<lparr>ea_limiter := m\<rparr>)
                       | (RateAllowed _ _, m) \<Rightarrow> (None, a1\<lparr>ea_limiter := m\<rparr>)))
               in case limited of
                    Some wait \<Rightarrow> (EngineRateLimited wait, a2, w)
                  | None \<Rightarrow>
                      if ec_auth_missing c then (PausedForAuth, a2, w)
                      else (case (case tool of
                               None \<Rightarrow> ApprovalPassed
                             | Some t \<Rightarrow> enforce_tool_approval (ee_approve_all E) (ea_approved a2) lookup
                                 (effective_tool_approval_requirement lookup t (ec_params c) perm (ec_needs_install c))
                                 perm (ec_granted c)) of
                         ApprovalPause may_always \<Rightarrow> (PausedForApproval may_always, a2, w)
                       | ApprovalPassed \<Rightarrow>
                           (case engine_tool_hooks (ee_lib E) (ee_hooks E) (ec_action c) lookup (ec_params c)
                                   (case tool of Some t \<Rightarrow> ht_sensitive t | None \<Rightarrow> []) (ec_user c) (ec_thread c) w of
                              (RefuseTool why, w1) \<Rightarrow> (BlockedByHook why, a2, w1)
                            | (RunTool _, w1) \<Rightarrow>
                                (case execute_tool_with_safety (ee_tool_lib E) (ee_registry E) lookup (ec_params c) w1 of
                                   (r, w2) \<Rightarrow> (EngineRan r, a2, w2)))))))"

definition reset_call_count :: "engine_adapter \<Rightarrow> engine_adapter" where
  "reset_call_count a = a\<lparr>ea_calls := 0\<rparr>"

definition adapter_approve :: "utext \<Rightarrow> engine_adapter \<Rightarrow> engine_adapter" where
  "adapter_approve tool a = a\<lparr>ea_approved := insert tool (ea_approved a)\<rparr>"

definition adapter_revoke :: "utext \<Rightarrow> engine_adapter \<Rightarrow> engine_adapter" where
  "adapter_revoke tool a = a\<lparr>ea_approved := ea_approved a - {tool}\<rparr>"

section \<open>The answer to a gate\<close>

definition clamp_always_to_resume_kind :: "bool \<Rightarrow> resume_kind \<Rightarrow> bool" where
  "clamp_always_to_resume_kind always kind \<longleftrightarrow> always \<and> kind = Approval True"

definition legacy_extension_alias :: "utext \<Rightarrow> utext option" where
  "legacy_extension_alias n = (if hyphen_alias n \<noteq> n then Some (hyphen_alias n) else None)"

text \<open>The settings of all users; how each of the three accesses ends is an argument.\<close>

type_synonym user_settings = "string \<Rightarrow> utext \<rightharpoonup> permission_state"

record store_answers =
  sa_present :: bool
  sa_read_ok :: bool
  sa_write_ok :: bool
  sa_revert_ok :: bool

definition persist_always_allow ::
  "('n, 'w) tool_registry \<Rightarrow> store_answers \<Rightarrow> utext \<Rightarrow> 'n json \<Rightarrow> string \<Rightarrow> user_settings \<Rightarrow> permission_state option \<times> user_settings" where
  "persist_always_allow r A action params user S =
     (if \<not> is_valid_admin_tool_name action then (None, S)
      else if (case tool_get r action of Some t \<Rightarrow> ht_requires_approval t params = AlwaysAsk | None \<Rightarrow> False) then (None, S)
      else if \<not> sa_present A then (None, S)
      else if \<not> sa_read_ok A then (None, S)
      else (S user action, if sa_write_ok A then S(user := (S user)(action \<mapsto> AlwaysAllow)) else S))"

definition revert_always_allow ::
  "store_answers \<Rightarrow> utext \<Rightarrow> string \<Rightarrow> permission_state option \<Rightarrow> user_settings \<Rightarrow> user_settings" where
  "revert_always_allow A action user prior S =
     (if sa_present A \<and> sa_revert_ok A then S(user := (S user)(action := prior)) else S)"

text \<open>
  Approving a gate: \<open>exec\<close> runs the pending action and resumes the thread; its first component says that
  this failed.
\<close>

definition approve_gate ::
  "('n, 'w) tool_registry \<Rightarrow> store_answers \<Rightarrow> resume_kind \<Rightarrow> bool \<Rightarrow> utext \<Rightarrow> 'n json \<Rightarrow> string \<Rightarrow>
   (user_settings \<Rightarrow> engine_adapter \<times> 'w \<Rightarrow> bool \<times> engine_adapter \<times> 'w) \<Rightarrow>
   user_settings \<times> engine_adapter \<times> 'w \<Rightarrow> bool \<times> user_settings \<times> engine_adapter \<times> 'w" where
  "approve_gate r A kind always action params user exec = (\<lambda>(S, a, w).
     (let forever = clamp_always_to_resume_kind always kind;
          both = (\<lambda>f a. case legacy_extension_alias action of Some n \<Rightarrow> f n (f action a) | None \<Rightarrow> f action a);
          a1 = (if forever then both adapter_approve a else a);
          (prior, S1) = (if forever then persist_always_allow r A action params user S else (None, S))
      in case exec S1 (a1, w) of (failed, a2, w2) \<Rightarrow>
           if forever \<and> failed
           then (failed, revert_always_allow A action user prior S1, both adapter_revoke a2, w2)
           else (failed, S1, a2, w2)))"

section \<open>What autonomous work refuses\<close>

text \<open>
  A caller refuses a call when it answers with unavailability and changes nothing. With a list of allowed
  tools, a subtask and a job refuse exactly the tools off the list that ask always; a lightweight
  routine refuses everything off the list. So the denylist, which only keeps names out of the lists, does
  not stop a job from calling a tool that asks unless it is auto-approved.
\<close>

definition refuses_task :: "(task_error, 'a) result \<times> 'x \<Rightarrow> 'x \<Rightarrow> bool" where
  "refuses_task out x \<longleftrightarrow> (\<exists>n why. out = (Inl (TaskTool (ToolAutonomousUnavailable n why)), x))"

lemma run_tool_not_unavailable: "run_tool L name t args w = (Inl e, w') \<Longrightarrow> e \<noteq> ToolAutonomousUnavailable n why"
  by (auto simp: run_tool_def split: option.splits prod.splits tool_run.splits sum.splits)

lemma execute_not_unavailable: "execute_tool_with_safety L r name args w = (Inl e, w') \<Longrightarrow> e \<noteq> ToolAutonomousUnavailable n why"
  by (auto simp: execute_tool_with_safety_def dest: run_tool_not_unavailable split: if_splits option.splits)

lemma blocked_iff: "is_blocked (AutonomousContext allowed) name req \<longleftrightarrow> req = AlwaysAsk \<and> name \<notin> allowed"
  by (cases req) simp_all

theorem autonomous_refusals:
  assumes tool: "tool_get r name = Some t" and job: "\<not> jv_cancelled j" "jv_context j = None"
    and req: "req = ht_requires_approval t (ht_prepare t params)"
  shows "(refuses_task (execute_tool_task L parse r (Some (AutonomousContext allowed)) (Some j) name params w) w \<longleftrightarrow>
      req = AlwaysAsk \<and> name \<notin> allowed) \<and>
    (refuses_task (execute_tool_inner L lib es r (Some (AutonomousContext allowed)) (Some j) now job_id name params (m, w)) (m, w) \<longleftrightarrow>
      req = AlwaysAsk \<and> name \<notin> allowed) \<and>
    (name \<notin> allowed \<longrightarrow>
      execute_routine_tool L r allowed user name params w = (Inl (RoutineText (autonomous_unavailable_message name (utext_of user))), w))"
proof (intro conjI)
  show "refuses_task (execute_tool_task L parse r (Some (AutonomousContext allowed)) (Some j) name params w) w \<longleftrightarrow>
      req = AlwaysAsk \<and> name \<notin> allowed"
    using job by (auto simp: refuses_task_def execute_tool_task_def tool req is_blocked_or_default_def blocked_iff
        dest: execute_not_unavailable split: prod.splits sum.splits if_splits)
  show "refuses_task (execute_tool_inner L lib es r (Some (AutonomousContext allowed)) (Some j) now job_id name params (m, w)) (m, w) \<longleftrightarrow>
      req = AlwaysAsk \<and> name \<notin> allowed"
    using job by (auto simp: refuses_task_def execute_tool_inner_def tool req is_blocked_or_default_def blocked_iff Let_def
        dest: run_tool_not_unavailable split: prod.splits sum.splits if_splits option.splits call_decision.splits rate_limit_result.splits)
qed (simp add: execute_routine_tool_def)

lemma denylisted_never_allowed:
  "is_autonomous_tool_denylisted n \<Longrightarrow> n \<notin> autonomous_allowed_tool_names r extensions owner"
  by (auto simp: autonomous_allowed_tool_names_def Let_def split: option.splits)

section \<open>What the engine runs\<close>

definition base_requirement :: "('n, 'w) host_tool \<Rightarrow> 'n engine_call \<Rightarrow> approval_requirement" where
  "base_requirement t c = (if ec_needs_install c then UnlessAutoApproved else ht_requires_approval t (ec_params c))"

lemma enforce_passed_iff:
  "enforce_tool_approval approve_all approved lookup (apply_user_permission_override lookup base perm) perm granted = ApprovalPassed \<longleftrightarrow>
     granted \<or>
     (pr_explicit perm \<noteq> Some AskEachTime \<and>
      (base = NeverAsk \<and> \<not> (pr_configured perm = Some AskEachTime \<and> canonical_tool_name lookup = utext_of ''restart'') \<or>
       base = UnlessAutoApproved \<and> (approve_all \<or> lookup \<in> approved \<or> pr_effective perm = AlwaysAllow)))"
  by (cases base) (auto simp: enforce_tool_approval_def Let_def)

text \<open>
  C16. The engine runs a registered tool only within the limit of calls, when the user did not disable it, and
  when the call was granted before or need not ask: the user did not choose to be asked each time, and the
  tool never asks, or asks unless approved and everything, the tool or the user's permission is. A call
  that does not run changes nothing but the counters, unless a hook saw it.
\<close>

theorem engine_runs_only_permitted:
  assumes run: "execute_action E now c (a, w) = (answer, a', w')"
    and tool: "tool_get (ee_registry E) (lookup_of E c) = Some t"
  shows "(case answer of
      EngineRan _ \<Rightarrow> ea_calls a < 50 \<and> pr_effective (permission_of E c) \<noteq> PermissionDisabled \<and> \<not> ec_auth_missing c \<and>
        (ec_granted c \<or>
         (pr_explicit (permission_of E c) \<noteq> Some AskEachTime \<and>
          (base_requirement t c = NeverAsk \<or>
           base_requirement t c = UnlessAutoApproved \<and>
             (ee_approve_all E \<or> lookup_of E c \<in> ea_approved a \<or> pr_effective (permission_of E c) = AlwaysAllow))))
    | BlockedByHook _ \<Rightarrow> True
    | _ \<Rightarrow> w' = w) \<and>
    ea_approved a' = ea_approved a"
proof -
  have "enforce_tool_approval (ee_approve_all E) (ea_approved a) (lookup_of E c)
      (effective_tool_approval_requirement (lookup_of E c) t (ec_params c) (permission_of E c) (ec_needs_install c))
      (permission_of E c) (ec_granted c) = ApprovalPassed \<Longrightarrow>
    ec_granted c \<or>
         (pr_explicit (permission_of E c) \<noteq> Some AskEachTime \<and>
          (base_requirement t c = NeverAsk \<or>
           base_requirement t c = UnlessAutoApproved \<and>
             (ee_approve_all E \<or> lookup_of E c \<in> ea_approved a \<or> pr_effective (permission_of E c) = AlwaysAllow)))"
    unfolding effective_tool_approval_requirement_def base_requirement_def [symmetric] enforce_passed_iff by blast
  then show ?thesis
    using run tool unfolding execute_action_def
    by (auto simp: Let_def not_le split: if_splits option.splits prod.splits rate_limit_result.splits approval_check.splits call_decision.splits)
qed

section \<open>What approving for ever does\<close>

text \<open>
  The adapter is one for all users: after one user approved a tool for ever, no call of it by any user
  with no permission of their own for it pauses for approval, whatever has been approved since. That
  running the action leaves the set of approved tools alone is what \<open>engine_runs_only_permitted\<close> shows.
\<close>

theorem always_serves_every_user:
  assumes approve: "approve_gate r A (Approval True) True action params user exec (S, a, w) = (False, S', a', w')"
    and keeps: "\<And>S a w. ea_approved (fst (snd (exec S (a, w)))) = ea_approved a"
    and call: "lookup_of E c = action" "tool_get (ee_registry E) action = Some t" "base_requirement t c = UnlessAutoApproved"
      "pr_explicit (permission_of E c) = None"
    and later: "ea_approved a' \<subseteq> ea_approved a2"
  shows "fst (execute_action E now c (a2, w2)) \<noteq> PausedForApproval b"
proof -
  obtain prior S1 a1 failed a3 w3 where e: "exec S1 (a1, w) = (failed, a3, w3)" "a' = a3" "action \<in> ea_approved a1"
    using approve by (auto simp: approve_gate_def Let_def clamp_always_to_resume_kind_def adapter_approve_def split: prod.splits option.splits if_splits)
  then have "action \<in> ea_approved a'" using keeps [of S1 a1 w] by simp
  then have "action \<in> ea_approved a2" using later by blast
  moreover have "effective_tool_approval_requirement action t (ec_params c) (permission_of E c) (ec_needs_install c) = UnlessAutoApproved"
    using call by (simp add: effective_tool_approval_requirement_def base_requirement_def [symmetric])
  ultimately show ?thesis
    using call by (auto simp: execute_action_def Let_def enforce_tool_approval_def
        split: option.split prod.split rate_limit_result.split call_decision.split)
qed

text \<open>
  When the resumed action fails, the permission is put back exactly as it was, provided it was read
  before; when it was not, because the read failed or the name or the tool was not to be stored, whatever
  the user had chosen for the tool is deleted. The tool is no longer approved for anybody.
\<close>

theorem failed_always_restores:
  assumes approve: "approve_gate r A kind True action params user exec (S, a, w) = (True, S', a', w')"
    and kind: "kind = Approval True" and store: "sa_present A" "sa_revert_ok A"
  shows "S' user action =
      (if is_valid_admin_tool_name action \<and> sa_read_ok A \<and>
          (case tool_get r action of Some t \<Rightarrow> ht_requires_approval t params \<noteq> AlwaysAsk | None \<Rightarrow> True)
       then S user action else None) \<and>
    (\<forall>u n. (u, n) \<noteq> (user, action) \<longrightarrow> S' u n = S u n) \<and> action \<notin> ea_approved a'"
proof -
  have revoked: "action \<notin> ea_approved (case legacy_extension_alias action of Some n \<Rightarrow> adapter_revoke n (adapter_revoke action x) | None \<Rightarrow> adapter_revoke action x)" for x
    by (simp add: adapter_revoke_def split: option.split)
  obtain prior S1 where p: "persist_always_allow r A action params user S = (prior, S1)" by fastforce
  have S': "S' = S1(user := (S1 user)(action := prior))" and a': "\<exists>x. a' = (case legacy_extension_alias action of
      Some n \<Rightarrow> adapter_revoke n (adapter_revoke action x) | None \<Rightarrow> adapter_revoke action x)"
    using approve kind store
    by (auto simp: approve_gate_def Let_def clamp_always_to_resume_kind_def p revert_always_allow_def split: prod.splits if_splits)
  have "S1 = S \<and> prior = None \<or> prior = S user action \<and> (S1 = S \<or> S1 = S(user := (S user)(action \<mapsto> AlwaysAllow)))"
    using p by (auto simp: persist_always_allow_def split: if_splits)
  moreover have "prior = (if is_valid_admin_tool_name action \<and> sa_read_ok A \<and>
          (case tool_get r action of Some t \<Rightarrow> ht_requires_approval t params \<noteq> AlwaysAsk | None \<Rightarrow> True)
       then S user action else None)"
    using p store(1) by (auto simp: persist_always_allow_def split: if_splits option.splits)
  ultimately show ?thesis using a' revoked unfolding S' by auto
qed

section \<open>An engine with one tool\<close>

definition shell_tool :: "approval_requirement \<Rightarrow> (nat, nat list) host_tool" where
  "shell_tool requirement = \<lparr>ht_name = utext_of ''shell'', ht_description = [],
     ht_schema = \<lparr>td_name = utext_of ''shell'', td_description = [], td_parameters = JNull\<rparr>,
     ht_requires_approval = (\<lambda>_. requirement), ht_sensitive = [], ht_rate_limit = None, ht_timeout = secs 60,
     ht_compat = BothEngines, ht_domain = ContainerDomain, ht_provider = None, ht_prepare = id,
     ht_execute = (\<lambda>_ w. (ToolDone JNull, 1 # w))\<rparr>"

definition shell_registry :: "approval_requirement \<Rightarrow> (nat, nat list) tool_registry" where
  "shell_registry requirement = registry_new\<lparr>tr_tools := [utext_of ''shell'' \<mapsto> shell_tool requirement]\<rparr>"

definition shell_engine :: "(nat, nat list) engine_env" where
  "shell_engine = \<lparr>ee_lib = sample_lib, ee_hooks = [], ee_registry = shell_registry UnlessAutoApproved,
     ee_tool_lib = \<lparr>tv_validate = (\<lambda>_. None), tv_print = (\<lambda>_. Inr [])\<rparr>, ee_approve_all = False\<rparr>"

definition shell_call :: "string \<Rightarrow> nat engine_call" where
  "shell_call user = \<lparr>ec_action = utext_of ''shell'', ec_canonical = utext_of ''shell'', ec_params = JObject [], ec_user = user,
     ec_permissions = None, ec_needs_install = False, ec_auth_missing = False, ec_thread = [], ec_granted = False\<rparr>"

definition fresh_adapter :: engine_adapter where
  "fresh_adapter = \<lparr>ea_approved = {}, ea_calls = 0, ea_limiter = Map.empty\<rparr>"

definition all_well :: store_answers where
  "all_well = \<lparr>sa_present = True, sa_read_ok = True, sa_write_ok = True, sa_revert_ok = True\<rparr>"

lemma shell_simps [simp]:
  "tool_get (shell_registry q) (utext_of ''shell'') = Some (shell_tool q)"
  "lookup_of shell_engine (shell_call u) = utext_of ''shell''" "ee_registry shell_engine = shell_registry UnlessAutoApproved"
  by (simp_all add: tool_get_def lookup_of_def resolve_name_def resolve_key_def shell_registry_def registry_new_def shell_engine_def shell_call_def)

lemma shell_permission: "pr_explicit (permission_of shell_engine (shell_call u)) = None"
  by (simp add: permission_of_def resolve_permission_def load_permission_snapshot_def shell_call_def Let_def explicit_permission_with_names_def)

lemma approve_fst: "fst (approve_gate r A kind always action params user (\<lambda>S (a, w). (b, a, w)) (S, a, w)) = b"
  by (simp add: approve_gate_def Let_def split: prod.split)

theorem engine_runs_only_permitted_witness:
  "snd (snd (execute_action shell_engine 0 (shell_call ''bob'') (fresh_adapter\<lparr>ea_calls := 60\<rparr>, [7]))) = [7]"
proof -
  have "fst (execute_action shell_engine 0 (shell_call ''bob'') (fresh_adapter\<lparr>ea_calls := 60\<rparr>, [7])) = CallLimitReached"
    by (simp add: execute_action_def Let_def)
  then obtain a' w' where out: "execute_action shell_engine 0 (shell_call ''bob'') (fresh_adapter\<lparr>ea_calls := 60\<rparr>, [7]) = (CallLimitReached, a', w')"
    by (metis prod.collapse)
  from engine_runs_only_permitted [OF out, of "shell_tool UnlessAutoApproved"] show ?thesis by (simp add: out)
qed

theorem autonomous_refusals_witness:
  "refuses_task (execute_tool_inner (ee_tool_lib shell_engine) sample_lib [] (shell_registry AlwaysAsk) (Some (AutonomousContext {}))
     (Some \<lparr>jv_cancelled = False, jv_user = ''ann'', jv_context = None\<rparr>) 0 [] (utext_of ''shell'') JNull (Map.empty, [])) (Map.empty, [])"
proof -
  have job: "\<not> jv_cancelled \<lparr>jv_cancelled = False, jv_user = ''ann'', jv_context = None\<rparr>"
      "jv_context \<lparr>jv_cancelled = False, jv_user = ''ann'', jv_context = None\<rparr> = None"
    by simp_all
  have req: "AlwaysAsk = ht_requires_approval (shell_tool AlwaysAsk) (ht_prepare (shell_tool AlwaysAsk) (JNull :: nat json))"
    by (simp add: shell_tool_def)
  from autonomous_refusals [OF shell_simps(1) job req, of "ee_tool_lib shell_engine" undefined "{}" "[]" sample_lib "[]" 0 "[]" Map.empty "''ann''"]
  show ?thesis by simp
qed

theorem always_serves_every_user_witness:
  "fst (execute_action shell_engine 0 (shell_call ''bob'')
     (fst (snd (snd (approve_gate (shell_registry UnlessAutoApproved) all_well (Approval True) True (utext_of ''shell'') (JObject [] :: nat json) ''ann''
        (\<lambda>S (a, w). (False, a, w)) ((\<lambda>_. Map.empty), fresh_adapter, [] :: nat list)))), [])) \<noteq> PausedForApproval True"
proof -
  let ?x = "approve_gate (shell_registry UnlessAutoApproved) all_well (Approval True) True (utext_of ''shell'') (JObject [] :: nat json) ''ann''
        (\<lambda>S (a, w). (False, a, w)) ((\<lambda>_. Map.empty), fresh_adapter, [] :: nat list)"
  have "fst ?x = False" by (rule approve_fst)
  then obtain S' a' w' where out: "?x = (False, S', a', w')"
    by (cases ?x) auto
  have "fst (execute_action shell_engine 0 (shell_call ''bob'') (a', [])) \<noteq> PausedForApproval True"
    by (rule always_serves_every_user [OF out, where t = "shell_tool UnlessAutoApproved"])
       (simp_all add: base_requirement_def shell_permission, simp_all add: shell_call_def shell_tool_def)
  then show ?thesis unfolding out by simp
qed

theorem failed_always_restores_witness:
  "fst (snd (approve_gate (shell_registry UnlessAutoApproved) (all_well\<lparr>sa_read_ok := False\<rparr>) (Approval True) True (utext_of ''shell'') (JObject [] :: nat json) ''ann''
     (\<lambda>S (a, w). (True, a, w)) ((\<lambda>_ _. Some PermissionDisabled), fresh_adapter, [] :: nat list))) ''ann'' (utext_of ''shell'') = None"
proof -
  let ?x = "approve_gate (shell_registry UnlessAutoApproved) (all_well\<lparr>sa_read_ok := False\<rparr>) (Approval True) True (utext_of ''shell'') (JObject [] :: nat json) ''ann''
     (\<lambda>S (a, w). (True, a, w)) ((\<lambda>_ _. Some PermissionDisabled), fresh_adapter, [] :: nat list)"
  have "fst ?x = True" by (rule approve_fst)
  then obtain S' a' w' where out: "?x = (True, S', a', w')"
    by (cases ?x) auto
  from failed_always_restores [OF out] show ?thesis unfolding out by (simp add: all_well_def)
qed

section \<open>A veto on the calls of tools\<close>

lemma refused_preflight:
  assumes "\<And>tool args sensitive w. \<exists>r w'. chat_tool_hooks (ce_lib E) (ce_hooks E) tool args sensitive (ce_user E) w = (RefuseTool r, w')"
  shows "\<exists>ps w'. chat_preflight E s calls w = ((ps, None), w') \<and> runnable_of ps = []"
proof (induction calls arbitrary: w)
  case Nil
  then show ?case by (simp add: runnable_of_def)
next
  case (Cons call calls)
  obtain r w1 where r: "chat_tool_hooks (ce_lib E) (ce_hooks E) (tc_name call) (tc_arguments call)
      (case tool_get (ce_registry E) (tc_name call) of Some t \<Rightarrow> ht_sensitive t | None \<Rightarrow> []) (ce_user E) w = (RefuseTool r, w1)"
    using assms by blast
  obtain ps w' where "chat_preflight E s calls w1 = ((ps, None), w')" "runnable_of ps = []" using Cons.IH by blast
  with r show ?case by (auto simp: Let_def runnable_of_def List.map_filter_def)
qed

lemma with_run_more [simp]: "ht_prepare (with_run f t) = ht_prepare t" "ht_rate_limit (with_run f t) = ht_rate_limit t"
  by (simp_all add: with_run_def)

text \<open>What a call of the worker gives depends on the hooks before it depends on the tool.\<close>

lemma refused_worker:
  assumes "\<And>prepare tool args sensitive user job w. \<exists>r w'. job_tool_hooks lib prepare es tool args sensitive user job w = (RefuseTool r, w')"
  shows "execute_tool_inner L lib es (ce_registry (swapped k f E)) context job now job_id name params st =
      execute_tool_inner L lib es (ce_registry E) context job now job_id name params st"
    and "\<not> is_ok (fst (execute_tool_inner L lib es r context job now job_id name params st))"
proof -
  obtain m w where st: "st = (m, w)" by fastforce
  show "\<not> is_ok (fst (execute_tool_inner L lib es r context job now job_id name params st))"
  proof (cases "tool_get r name")
    case (Some t)
    show ?thesis
    proof (cases job)
      case (Some j)
      obtain why w' where "job_tool_hooks lib (ht_prepare t) es name params (ht_sensitive t) (jv_user j) job_id w = (RefuseTool why, w')"
        using assms by blast
      then show ?thesis
        by (simp add: execute_tool_inner_def st Some \<open>tool_get r name = Some t\<close> is_ok_def Let_def split: option.split prod.split rate_limit_result.split)
    qed (simp add: execute_tool_inner_def st Some is_ok_def)
  qed (simp add: execute_tool_inner_def st is_ok_def)
  show "execute_tool_inner L lib es (ce_registry (swapped k f E)) context job now job_id name params st =
      execute_tool_inner L lib es (ce_registry E) context job now job_id name params st"
  proof (cases "tool_get (ce_registry E) name")
    case (Some t)
    define t' where "t' = (if resolve_name (ce_registry E) name = Some k then with_run f t else t)"
    have t': "tool_get (ce_registry (swapped k f E)) name = Some t'" by (simp add: tool_get_swapped Some t'_def)
    have same: "ht_requires_approval t' = ht_requires_approval t" "ht_prepare t' = ht_prepare t" "ht_rate_limit t' = ht_rate_limit t"
      "ht_sensitive t' = ht_sensitive t" by (simp_all add: t'_def)
    have refused: "\<exists>r w'. job_tool_hooks lib prepare es tool args sensitive user j w = (RefuseTool r, w')" for prepare tool args sensitive user j w
      by (rule assms)
    show ?thesis
    proof (cases job)
      case (Some j)
      obtain r w' where "job_tool_hooks lib (ht_prepare t) es name params (ht_sensitive t) (jv_user j) job_id w = (RefuseTool r, w')"
        using refused by blast
      then show ?thesis unfolding execute_tool_inner_def st prod.case t' \<open>tool_get (ce_registry E) name = Some t\<close> Some option.case same Let_def
        by (simp split: prod.split option.split)
    qed (simp add: execute_tool_inner_def st t' Some)
  qed (simp add: execute_tool_inner_def st tool_get_swapped)
qed

text \<open>
  C17. While a hook that is registered last under its name vetoes the calls of tools, whatever else is
  registered, a batch of tool calls of the chat and a call of a job's worker have the same outcome and
  the same effects whatever any tool does when it runs: no tool runs in them. No call of the batch
  waits for an approval, so that none is left to run after one, and no call of the worker succeeds.
  Calls that were left behind an approval before, subtasks, lightweight routines and the engine are
  outside: they pass no hook or ignore one that fails.
\<close>

theorem vetoed_calls_do_not_run:
  assumes named: "foldl hook_map_step Map.empty ops (hk_name h) = Some (h, p)" and veto: "vetoes h BeforeToolCall"
    and hooks: "ce_hooks E = foldl registry_step [] ops"
  shows "chat_tool_calls (swapped k f E) now fresh order tid calls content s ms w =
      chat_tool_calls E now fresh order tid calls content s ms w \<and>
    (\<forall>pending. fst (chat_tool_calls E now fresh order tid calls content s ms w) \<noteq> NeedApproval pending) \<and>
    execute_tool_inner L lib (ce_hooks E) (ce_registry (swapped k f E)) context job start job_id name params st =
      execute_tool_inner L lib (ce_hooks E) (ce_registry E) context job start job_id name params st \<and>
    \<not> is_ok (fst (execute_tool_inner L lib (ce_hooks E) (ce_registry E) context job start job_id name params st))"
proof -
  note refused = tool_checks_refuse [OF named hooks veto]
  obtain ps w1 where pf: "chat_preflight E (start_batch E tid calls content s) calls w = ((ps, None), w1)" and none: "runnable_of ps = []"
    using refused_preflight [of E, OF refused(1)] by blast
  then have "chat_tool_calls (swapped k f E) now fresh order tid calls content s ms w =
      chat_tool_calls E now fresh order tid calls content s ms w"
    using finish_swapped [of k f E now fresh tid _ None]
    by (simp add: chat_tool_calls_def chat_preflight_swapped run_batch_def Let_def)
  moreover have "fst (chat_tool_calls E now fresh order tid calls content s ms w) \<noteq> NeedApproval pending" for pending
    using pf none by (auto simp: chat_tool_calls_def run_batch_def finish_batch_def Let_def split: option.splits)
  moreover have "execute_tool_inner L lib (ce_hooks E) (ce_registry (swapped k f E)) context job start job_id name params st =
      execute_tool_inner L lib (ce_hooks E) (ce_registry E) context job start job_id name params st"
    by (rule refused_worker) (rule refused)
  moreover have "\<not> is_ok (fst (execute_tool_inner L lib (ce_hooks E) (ce_registry E) context job start job_id name params st))"
    by (rule refused_worker) (rule refused)
  ultimately show ?thesis by blast
qed

theorem vetoed_calls_do_not_run_witness:
  "chat_tool_calls (swapped (utext_of ''time'') (\<lambda>_ w. (ToolElapsed, 9 # w)) (sample_chat\<lparr>ce_hooks := register_hook refusing_hook []\<rparr>))
     0 5 [] 7 sample_calls None sample_session [] [] =
   chat_tool_calls (sample_chat\<lparr>ce_hooks := register_hook refusing_hook []\<rparr>) 0 5 [] 7 sample_calls None sample_session [] []"
proof -
  have "foldl hook_map_step Map.empty [Register refusing_hook 100] (hk_name refusing_hook) = Some (refusing_hook, 100)" by simp
  moreover have "vetoes refusing_hook BeforeToolCall" by (simp add: vetoes_def refusing_hook_def stops_def)
  moreover have "ce_hooks (sample_chat\<lparr>ce_hooks := register_hook refusing_hook []\<rparr>) = foldl registry_step [] [Register refusing_hook 100]"
    by (simp add: register_hook_def)
  ultimately show ?thesis by (rule vetoed_calls_do_not_run [THEN conjunct1])
qed

end
