(* ===== verification/Spec2Isabelle.thy ===== *)
theory Spec2Isabelle
  imports
    Prelude
    ThreadMachine
    Capability
    LeaseManager
    Policy
    Planner
    Gates
    ThreadTree
    Spawn
    JobState
    JobManager
    CircuitBreaker
    Costs
    CostGuard
    RateLimiter
    ChatMessages
    Session
    Undo
    GateStore
    Retry
    Failover
    ResponseCache
    SmartRouting
    ProviderChain
    Mission
    MissionManager
    MissionFires
    WorkspaceMounts
    Allowlist
    Tokens
    ContainerJobs
    WorkerApi
    SessionManager
    Redaction
    Chunker
    Credentials
    HostCredentials
    SandboxProxy
    SandboxRuns
    Pairing
    Hooks
    HookBundles
    ToolPermissions
    ChatApprovals
    ToolCallers
begin

text \<open>
  A verification development for the agent in this repository: the library that models
  the parts of the Rust program that decide what an agent may do, how much it may spend, and
  what its conversations and jobs look like, with the theorems that make these parts correct.

  The program. A user talks to the agent in a session of threads and turns
  (\<open>src/agent/session.rs\<close>), which can be undone and redone (\<open>src/agent/undo.rs\<close>). Work runs
  as jobs (\<open>src/context\<close>) and, in the engine crate (\<open>crates/ironclaw_engine/src\<close>), as threads
  with a lifecycle, a parent, an event log and leases. A thread may call an action only with a
  capability lease; the lease planner decides by the thread's type and the tier of the action
  which leases a new thread gets, a policy engine and a pipeline of gates decide each call. A call
  that needs a person's approval waits in the gate store. Missions start threads by schedule, by
  event or by hand. Calls to a model go through a cost guard and a chain of decorators: retry,
  routing between a cheap and a primary model, failover, circuit breaker and cache. Calls to a
  tool go through a rate limiter, the network requests of a WebAssembly tool through an
  allowlist, and the paths of a project through its mounts. A job can run in a container, whose
  worker talks to the host with a token of its own. Arguments are redacted before they are shown,
  and documents are cut into chunks for the search.

  The theories, in the order of their dependencies.

  \<^item> \<open>Prelude\<close>: names of the machine types, hash maps with an iteration order, text operations,
    and the interfaces (locales) shared by components: \<open>lifecycle\<close> (nothing leaves a terminal
    state), \<open>guarded_machine\<close> and \<open>machine\<close> (an invariant kept by every operation) and
    \<open>refinement\<close> (operations that simulate those of an abstract state).
  \<^item> \<open>ThreadMachine\<close>: \<open>types/thread.rs\<close> of the engine crate with what it uses of \<open>event.rs\<close>,
    \<open>message.rs\<close> and \<open>mod.rs\<close>. The lifecycle of a thread, its event log, titles, owners and
    active skills.
  \<^item> \<open>Capability\<close> and \<open>LeaseManager\<close>: \<open>types/capability.rs\<close>, \<open>types/provenance.rs\<close> and
    \<open>capability/lease.rs\<close>. Leases and every operation of the manager; deriving leases for a child
    is two critical sections, so its interleaving with the others is part of the step
    relation. The locale \<open>lease_source\<close> is the contract the lease gate relies on.
  \<^item> \<open>Policy\<close>: \<open>capability/policy.rs\<close>, the verdicts of one decision and their merge.
  \<^item> \<open>Planner\<close>: \<open>gate/tool_tier.rs\<close>, \<open>capability/registry.rs\<close>, \<open>capability/planner.rs\<close> and
    \<open>runtime/lease_refresh.rs\<close>.
  \<^item> \<open>Gates\<close>: \<open>gate/mod.rs\<close>, \<open>gate/pipeline.rs\<close> and \<open>gate/lease.rs\<close>.
  \<^item> \<open>ThreadTree\<close>: \<open>runtime/tree.rs\<close>. Walking to the root is an unbounded loop, so it is a partial
    function whose value is \<open>None\<close> when the loop does not end.
  \<^item> \<open>Spawn\<close>: the part of \<open>runtime/manager.rs\<close> that prepares a thread: tree, leases, messages and
    store, up to the start of the execution loop.
  \<^item> \<open>JobState\<close> and \<open>JobManager\<close>: \<open>src/context/state.rs\<close> and \<open>src/context/manager.rs\<close>. Creating
    and removing a job take two locks in turn; each critical section is a step of a relation.
  \<^item> \<open>CircuitBreaker\<close>: \<open>src/llm/circuit_breaker.rs\<close> with the errors of \<open>src/llm/error.rs\<close>. A call is
    two critical sections with the provider's answer in between, so calls overlap.
  \<^item> \<open>Retry\<close>, \<open>Failover\<close>, \<open>ResponseCache\<close>, \<open>SmartRouting\<close>: the other decorators, files of the same
    names under \<open>src/llm\<close>. A provider is a function from a world to an answer and a world. A
    request of the cache is two critical sections. The scorer of the router is an argument.
    \<open>ProviderChain\<close> stacks all of them as \<open>build_provider_chain_components\<close> in \<open>src/llm/mod.rs\<close>
    does.
  \<^item> \<open>GateStore\<close>: \<open>src/gate/pending.rs\<close>, \<open>store.rs\<close> and \<open>persistence.rs\<close>. The table of pending gates
    and its file, which is written after the lock is released; the step relation lets the writes
    happen late.
  \<^item> \<open>Mission\<close>, \<open>MissionManager\<close> and \<open>MissionFires\<close>: \<open>types/mission.rs\<close> and \<open>runtime/mission.rs\<close> of
    the engine crate with three calls of \<open>src/bridge/store_adapter.rs\<close>. A fire is two halves, before
    and after its thread is spawned.
  \<^item> \<open>WorkspaceMounts\<close>: \<open>workspace/mount.rs\<close>, \<open>registry.rs\<close> and \<open>filesystem.rs\<close> of the engine crate.
  \<^item> \<open>Allowlist\<close>: \<open>src/tools/wasm/allowlist.rs\<close> and the endpoint patterns of \<open>capabilities.rs\<close>.
  \<^item> \<open>Costs\<close> and \<open>CostGuard\<close>: \<open>src/llm/costs.rs\<close> and \<open>src/agent/cost_guard.rs\<close>.
  \<^item> \<open>RateLimiter\<close>: \<open>src/tools/rate_limiter.rs\<close> with its configuration from \<open>src/tools/tool.rs\<close>.
  \<^item> \<open>ChatMessages\<close>: the messages of \<open>src/llm/provider.rs\<close>, \<open>truncate_preview\<close> of
    \<open>crates/ironclaw_common/src/util.rs\<close> and the image sentinel of \<open>src/generated_images.rs\<close>.
  \<^item> \<open>Session\<close> and \<open>Undo\<close>: \<open>src/agent/session.rs\<close>, \<open>src/agent/undo.rs\<close> and the undo and redo
    commands of \<open>src/agent/thread_ops.rs\<close>. \<open>SessionManager\<close>: \<open>src/agent/session_manager.rs\<close>, a
    heap of shared sessions; each operation is the steps between its locks.
  \<^item> \<open>Tokens\<close>, \<open>ContainerJobs\<close> and \<open>WorkerApi\<close>: \<open>auth.rs\<close>, \<open>job_manager.rs\<close>, \<open>reaper.rs\<close> and
    \<open>api.rs\<close> under \<open>src/orchestrator\<close>. Docker is part of the state, its answers are arguments.
    Creating a job is two halves around the calls of Docker.
  \<^item> \<open>Redaction\<close>: \<open>src/tools/redaction.rs\<close>. \<open>Chunker\<close>: \<open>src/workspace/chunker.rs\<close>, whose loop is a
    partial function: with a step of no words it may not end.
  \<^item> \<open>Credentials\<close>: the mappings of \<open>src/secrets/types.rs\<close> and the injector of
    \<open>src/tools/wasm/credential_injector.rs\<close>. \<open>HostCredentials\<close>: the credentials and requests of WebAssembly
    tools, \<open>src/tools/wasm/wrapper.rs\<close>, with the reading of secrets in \<open>src/auth/mod.rs\<close>. \<open>SandboxProxy\<close> and \<open>SandboxRuns\<close>: \<open>src/sandbox\<close>, the
    proxy of the command sandbox, its containers and their manager. A manager is a state machine
    over its own state and a record of the containers made and the commands run on the host.
  \<^item> \<open>Pairing\<close>: \<open>src/ownership\<close>, \<open>src/pairing/store.rs\<close>, the pairing tables of \<open>src/db/libsql\<close> and
    the user handlers of \<open>src/channels/web/handlers/users.rs\<close>. Who a sender on a channel is, and
    who may administer users. A lookup is three steps, so that changes in between are visible.
  \<^item> \<open>Hooks\<close> and \<open>HookBundles\<close>: \<open>src/hooks\<close> and the places that run hooks, in \<open>dispatcher.rs\<close>,
    \<open>agent_loop.rs\<close> and \<open>thread_ops.rs\<close> under \<open>src/agent\<close>, \<open>src/worker/job.rs\<close>,
    \<open>src/gate/approval.rs\<close> and \<open>src/bridge/effect_adapter.rs\<close>. A hook is a function over a world; the
    deliveries of webhooks are part of theirs.
  \<^item> \<open>ToolPermissions\<close>: \<open>tool.rs\<close>, \<open>registry.rs\<close>, \<open>permissions.rs\<close>, \<open>autonomy.rs\<close> and
    \<open>execute.rs\<close> under \<open>src/tools\<close> and \<open>src/bridge/tool_permissions.rs\<close>. A tool is a record of functions.
  \<^item> \<open>ChatApprovals\<close>: the tool calls of a chat, \<open>execute_tool_calls\<close> and the offer of tools in
    \<open>src/agent/dispatcher.rs\<close>, and \<open>process_approval\<close> in \<open>src/agent/thread_ops.rs\<close>. The order in which
    parallel calls take effect is an argument.
  \<^item> \<open>ToolCallers\<close>: the tool calls of subtasks (\<open>src/agent/scheduler.rs\<close>), jobs (\<open>src/worker/job.rs\<close>),
    lightweight routines (\<open>src/agent/routine_engine.rs\<close>) and the engine
    (\<open>src/bridge/effect_adapter.rs\<close>), and the approval of a gate in \<open>src/bridge/router.rs\<close>. A call of
    the engine comes with what the settings and the manager of credentials answer.

  What the theorems show. Authorization: a call that passes the gates has a valid lease (C1); a
  lease is never used beyond its budget (C2); background threads cannot reach the denylist
  (C33). Approvals: who resolves a gate (C3), once (C6), and what a restart restores (C30, C39).
  Resources: parallel jobs (C23), spending (C25). Models: retry (C37), failover (C31), cache
  (C26) and the whole chain (C21). Missions: when and how often they fire (C34, C22).
  Containment: mounts (C35, C24). Containers: what one is given (C4), how long its token lets it
  in (C12) and which credentials it gets (C5). The sandbox: what runs where (C7), where requests
  may go (C8), which credential goes into which request (C19, C20). Secrets in arguments: what
  is hidden (C29). Documents: chunking gives them back (C36). Conversations: whose thread a
  message goes to (C13), and rebuilding them (C32, C40). Pairing: what a code does (C9), whom a
  sender resolves to (C10), and that someone can administer the rest (C11). Tool calls of a
  chat: what may run without asking (C14) and that every call is answered (C15); what the engine
  runs (C16). Hooks: what a veto stops (C17) and what not (C38), that they see no secrets (C27),
  and where webhooks may post (C18, C28). The theorems without a number extend these. Some (C25,
  C38, C39) state behaviour of the code that its comments or its users do not expect. The gates
  of the engine crate are composed into a pipeline only by its tests; the theorems hold for
  every pipeline.

  Conventions. A type of the source is a record or a datatype with the same fields and
  variants; a name is changed only where it is taken in the library or by another component.
  \<open>Result\<close> is a sum with the error on the left, \<open>Option\<close> is \<open>option\<close>. Integers whose overflow
  matters are words of their width; lengths, indices and identifiers are naturals. Every
  reading of a clock and every fresh identifier is an argument of the operation; instants are
  natural numbers of nanoseconds that do not run backwards where a theorem says so. A hash
  map is a partial function, and an operation that iterates over one takes the order of
  iteration as a list of keys; the theorems hold for every order. What runs under one lock is
  one function; what runs under several locks in turn is modelled by its sections where the
  interleaving matters (jobs, leases, circuit breaker, cache, gates, missions, containers,
  sessions) and otherwise by their composition.
  Logging has no counterpart.

  Parameters. Decimals (\<open>rust_decimal\<close>), JSON reading and printing (\<open>serde_json\<close>), the store, the
  effect executor and the answers of a provider are library code or services: they are arguments
  of the definitions that use them. The exact rational instance of the decimals serves the
  witnesses. Decimal overflow, which panics, is outside the model.

  Not modelled. Execution of model steps and code (\<open>executor\<close>), conversations and the memory of
  the engine, the scorer of the router, the learning missions, the channels, web gateway,
  databases, extensions, the WASM runtime but for its requests, the programs inside containers, skills, workspace
  search, the encryption of secrets, and set-up: input and output, floating-point scores, or planned.
\<close>

end
